(* ===== verification/Prelude.thy ===== *)
theory Prelude
  imports Main "HOL-Library.Word" "HOL-Library.Monad_Syntax"
begin

text \<open>
  Shared vocabulary of the development: the fixed-width integers and error codes of the
  C++ sources, the decimal rendering used by \<^verbatim>\<open>std::stringstream\<close>, the ordered
  container \<^verbatim>\<open>std::map\<close> as a strictly sorted association list, and the generic lemmas
  on words, lists and options the component theories rest on.

  Conventions. A failed \<^verbatim>\<open>assert\<close>, a division by zero or a dereference of an invalid
  iterator inside a pure computation is the value \<^const>\<open>None\<close> of an \<^typ>\<open>'a option\<close>
  result. An \<^verbatim>\<open>int\<close> return code is a sum: \<open>Inl e\<close> stands for the return value
  \<^verbatim>\<open>-e\<close>, \<open>Inr v\<close> for the return value 0 together with the out-parameters \<open>v\<close>.
\<close>

section \<open>Machine integers and return codes\<close>

type_synonym u64 = "64 word"
type_synonym u32 = "32 word"

text \<open>
  The error codes the sources return. The last three are not \<^verbatim>\<open>errno\<close> values:
  \<open>EMDB\<close> is a code of the LMDB library that its backend passes on, \<open>BadGet\<close> is a call left by the exception \<^verbatim>\<open>boost::bad_get\<close>, \<open>Aborted\<close> a call in
  which an assertion failed. Every caller in the library lets them pass through, as it does
  with an error code it does not know.
\<close>

datatype errno =
    EINVAL | ENOENT | EEXIST | EIO | ESPIPE | EROFS | ERANGE | ENODATA | ESTALE
  | ETIMEDOUT | EINTR | ESHUTDOWN | ENAMETOOLONG | ENOMEM | EAGAIN
  | EMDB | BadGet | Aborted

type_synonym 'a ret = "errno + 'a"

named_theorems word_nat "translation of word arithmetic and order to natural numbers"

lemma unat_u32_bound [simp]: "unat (w :: u32) < 4294967296"
proof -
  have "unat w < 2 ^ LENGTH(32)" by (rule unsigned_less)
  then show ?thesis by simp
qed

lemma unat_ucast_u32_u64 [simp, word_nat]: "unat (ucast (w :: u32) :: u64) = unat w"
proof -
  have "unat w < 18446744073709551616" by (rule less_trans [OF unat_u32_bound]) simp
  then show ?thesis by (simp add: unsigned_ucast_eq take_bit_eq_mod)
qed

lemma unat_u64_bound [simp]: "unat (w :: u64) < 18446744073709551616"
proof -
  have "unat w < 2 ^ LENGTH(64)" by (rule unsigned_less)
  then show ?thesis by simp
qed

lemma unat_add_u64 [word_nat]:
  "unat (a :: u64) + unat b < 18446744073709551616 \<Longrightarrow> unat (a + b) = unat a + unat b"
  using unat_add_lem [of a b] by simp

lemma unat_mult_u64 [word_nat]:
  "unat (a :: u64) * unat b < 18446744073709551616 \<Longrightarrow> unat (a * b) = unat a * unat b"
  using unat_mult_lem [of a b] by simp

lemma unat_mult_u32 [word_nat]:
  "unat (a :: u32) * unat b < 4294967296 \<Longrightarrow> unat (a * b) = unat a * unat b"
  using unat_mult_lem [of a b] by simp

lemmas [word_nat] = word_le_nat_alt word_less_nat_alt unat_div unat_mod unat_sub

lemma unat_of_nat_u64 [word_nat]: "n < 18446744073709551616 \<Longrightarrow> unat (of_nat n :: u64) = n"
  by (simp add: unat_of_nat)

lemma unat_of_nat_u32 [word_nat]: "n < 4294967296 \<Longrightarrow> unat (of_nat n :: u32) = n"
  by (simp add: unat_of_nat)

lemma of_nat_unat_u64: "(of_nat (unat (w :: u64)) :: u64) = w"
  by simp

lemma of_nat_u64_inject:
  "a < 18446744073709551616 \<Longrightarrow> b < 18446744073709551616 \<Longrightarrow> (of_nat a :: u64) = of_nat b \<longleftrightarrow> a = b"
  by (metis unat_of_nat_u64)

lemma u64_eq_iff: "(a :: u64) = b \<longleftrightarrow> unat a = unat b"
  by (simp add: word_unat_eq_iff)

lemma u64_less_Suc: "(a :: u64) < b \<Longrightarrow> unat (a + 1) = unat a + 1"
proof -
  assume "a < b"
  then have "unat a + unat (1 :: u64) < 18446744073709551616"
    using unat_u64_bound [of b] by (simp only: word_less_nat_alt unsigned_1)
  then show ?thesis by (simp only: unat_add_u64 unsigned_1)
qed

lemma u64_pos_iff: "(0 :: u64) < a \<longleftrightarrow> 0 < unat a"
  by (simp add: word_less_nat_alt)

text \<open>A word read as a signed number.\<close>

lemma nonneg_u64: "0 \<le> sint (w :: u64) \<longleftrightarrow> unat w < 9223372036854775808"
proof -
  have "0 \<le> sint w \<longleftrightarrow> \<not> bit (uint w) 63"
    by (simp add: sint_uint)
  also have "\<dots> \<longleftrightarrow> even (unat w div 9223372036854775808)"
  proof -
    have "bit (uint w) 63 \<longleftrightarrow> bit (unat w) 63" by (simp add: bit_unsigned_iff)
    then show ?thesis by (simp add: bit_iff_odd)
  qed
  also have "\<dots> \<longleftrightarrow> unat w < 9223372036854775808"
  proof -
    have "unat w div 9223372036854775808 < 2" by (rule less_mult_imp_div_less) (use unat_u64_bound [of w] in simp)
    then have "unat w div 9223372036854775808 = 0 \<or> unat w div 9223372036854775808 = 1" by linarith
    then show ?thesis by (auto simp: div_eq_0_iff)
  qed
  finally show ?thesis .
qed

section \<open>Decimal rendering\<close>

text \<open>\<^verbatim>\<open>operator<<\<close> of a stream on an unsigned integer: its decimal digits.\<close>

fun show_nat :: "nat \<Rightarrow> string" where
  "show_nat n =
     (if n < 10 then [char_of (48 + n)] else show_nat (n div 10) @ [char_of (48 + n mod 10)])"

declare show_nat.simps [simp del]

definition show_u64 :: "u64 \<Rightarrow> string" where
  "show_u64 w = show_nat (unat w)"

definition show_u32 :: "u32 \<Rightarrow> string" where
  "show_u32 w = show_nat (unat w)"

definition is_digit :: "char \<Rightarrow> bool" where
  "is_digit c \<longleftrightarrow> 48 \<le> (of_char c :: nat) \<and> (of_char c :: nat) \<le> 57"

definition read_dec :: "string \<Rightarrow> nat" where
  "read_dec = foldl (\<lambda>a c. 10 * a + (of_char c - 48)) 0"

lemma of_char_digit [simp]: "n < 10 \<Longrightarrow> (of_char (char_of (48 + n :: nat) :: char) :: nat) = 48 + n"
  by (simp only: of_char_of) simp

lemma read_dec_snoc [simp]: "read_dec (xs @ [c]) = 10 * read_dec xs + (of_char c - 48)"
  by (simp add: read_dec_def)

lemma read_show [simp]: "read_dec (show_nat n) = n"
proof (induction n rule: show_nat.induct)
  case (1 n)
  show ?case
  proof (cases "n < 10")
    case True
    then show ?thesis by (simp add: show_nat.simps [of n] read_dec_def)
  next
    case False
    with 1 show ?thesis by (simp add: show_nat.simps [of n])
  qed
qed

lemma show_nat_inject [simp]: "show_nat m = show_nat n \<longleftrightarrow> m = n"
  by (metis read_show)

lemma show_u64_inject [simp]: "show_u64 a = show_u64 b \<longleftrightarrow> a = b"
  by (simp add: show_u64_def word_unat_eq_iff)

lemma show_u32_inject [simp]: "show_u32 a = show_u32 b \<longleftrightarrow> a = b"
  by (simp add: show_u32_def word_unat_eq_iff)

lemma show_nat_digits: "c \<in> set (show_nat n) \<Longrightarrow> is_digit c"
proof (induction n rule: show_nat.induct)
  case (1 n)
  then show ?case
    by (cases "n < 10") (auto simp: show_nat.simps [of n] is_digit_def)
qed

lemma show_nat_nonempty [simp]: "show_nat n \<noteq> []"
  by (subst show_nat.simps) simp

lemma show_u64_nonempty [simp]: "show_u64 n \<noteq> []"
  by (simp add: show_u64_def)

lemma show_u64_digits: "c \<in> set (show_u64 n) \<Longrightarrow> is_digit c"
  by (auto simp: show_u64_def dest: show_nat_digits)

lemma show_u32_digits: "c \<in> set (show_u32 n) \<Longrightarrow> is_digit c"
  by (auto simp: show_u32_def dest: show_nat_digits)

lemma dot_not_digit [simp]: "\<not> is_digit (CHR ''.'')"
  by (simp add: is_digit_def)

lemma dot_notin_show [simp]:
  "CHR ''.'' \<notin> set (show_u64 n)" "CHR ''.'' \<notin> set (show_u32 k)" "CHR ''.'' \<notin> set (show_nat i)"
  using show_u64_digits show_u32_digits show_nat_digits dot_not_digit by blast+

text \<open>A separator that occurs in neither left part splits a string in one way only.\<close>

lemma append_sep_inject:
  assumes "xs @ c # ys = xs' @ c # ys'" and "c \<notin> set xs" and "c \<notin> set xs'"
  shows "xs = xs' \<and> ys = ys'"
  using assms
proof (induction xs arbitrary: xs')
  case Nil
  then show ?case by (cases xs') auto
next
  case (Cons x xs)
  then show ?case by (cases xs') auto
qed

section \<open>Ordered maps\<close>

text \<open>
  A \<^verbatim>\<open>std::map\<close> is the list of its elements in iteration order, strictly sorted by key.
  An iterator is an index into that list, \<^verbatim>\<open>end()\<close> being its length. \<^verbatim>\<open>emplace\<close> leaves an
  existing element alone and reports whether it inserted; \<^verbatim>\<open>upper_bound\<close> is the first
  element with a larger key; \<^verbatim>\<open>std::prev\<close> of \<^verbatim>\<open>begin()\<close> does not exist.
\<close>

type_synonym ('k, 'v) smap = "('k \<times> 'v) list"

definition smap_wf :: "('k::linorder, 'v) smap \<Rightarrow> bool" where
  "smap_wf m \<longleftrightarrow> sorted_wrt (<) (map fst m)"

fun smap_emplace :: "'k::linorder \<Rightarrow> 'v \<Rightarrow> ('k, 'v) smap \<Rightarrow> ('k, 'v) smap \<times> bool" where
  "smap_emplace k v [] = ([(k, v)], True)"
| "smap_emplace k v ((a, b) # m) =
     (if k < a then ((k, v) # (a, b) # m, True)
      else if k = a then ((a, b) # m, False)
      else (let (m', r) = smap_emplace k v m in ((a, b) # m', r)))"

fun smap_assign :: "'k::linorder \<Rightarrow> 'v \<Rightarrow> ('k, 'v) smap \<Rightarrow> ('k, 'v) smap" where
  "smap_assign k v [] = [(k, v)]"
| "smap_assign k v ((a, b) # m) =
     (if k < a then (k, v) # (a, b) # m else if k = a then (k, v) # m else (a, b) # smap_assign k v m)"

definition upper_bound :: "'k::linorder \<Rightarrow> ('k, 'v) smap \<Rightarrow> nat" where
  "upper_bound k m = length (takeWhile (\<lambda>e. fst e \<le> k) m)"

definition prev_it :: "nat \<Rightarrow> nat option" where
  "prev_it i = (if i = 0 then None else Some (i - 1))"

lemma smap_wf_Nil [simp]: "smap_wf []"
  by (simp add: smap_wf_def)

lemma smap_wf_Cons: "smap_wf ((a, b) # m) \<longleftrightarrow> (\<forall>e\<in>set m. a < fst e) \<and> smap_wf m"
  by (auto simp: smap_wf_def)

lemma smap_wf_snoc: "smap_wf (m @ [(a, b)]) \<longleftrightarrow> smap_wf m \<and> (\<forall>e\<in>set m. fst e < a)"
  by (auto simp: smap_wf_def sorted_wrt_append)

lemma smap_wf_distinct: "smap_wf m \<Longrightarrow> distinct (map fst m)"
  by (simp add: smap_wf_def strict_sorted_iff)

lemma smap_wf_nth_less:
  "smap_wf m \<Longrightarrow> i < j \<Longrightarrow> j < length m \<Longrightarrow> fst (m ! i) < fst (m ! j)"
  unfolding smap_wf_def by (drule sorted_wrt_nth_less [of _ _ i j]) auto

lemma smap_emplace_last:
  "\<forall>e\<in>set m. fst e < k \<Longrightarrow> smap_emplace k v m = (m @ [(k, v)], True)"
  by (induction m) auto

lemma smap_assign_last: "\<forall>e\<in>set m. fst e < k \<Longrightarrow> smap_assign k v m = m @ [(k, v)]"
  by (induction m rule: smap_assign.induct) auto

lemma upper_bound_le: "upper_bound k m \<le> length m"
  by (simp add: upper_bound_def length_takeWhile_le)

lemma upper_bound_below: "i < upper_bound k m \<Longrightarrow> fst (m ! i) \<le> k"
  unfolding upper_bound_def by (metis nth_mem set_takeWhileD takeWhile_nth)

lemma upper_bound_above:
  assumes "smap_wf m" and "upper_bound k m \<le> i" and "i < length m"
  shows "k < fst (m ! i)"
proof -
  let ?u = "upper_bound k m"
  have "?u < length m" using assms by simp
  then have u: "k < fst (m ! ?u)"
    unfolding upper_bound_def using nth_length_takeWhile by fastforce
  have "fst (m ! ?u) \<le> fst (m ! i)"
    using assms smap_wf_nth_less [of m ?u i] by (cases "?u = i") auto
  with u show ?thesis by simp
qed

text \<open>The element found by \<^verbatim>\<open>std::prev(m.upper_bound(k))\<close> is the one whose key is the greatest
  not above \<open>k\<close>.\<close>

lemma prev_upper_bound_unique:
  assumes "smap_wf m" and "i < length m" and "fst (m ! i) \<le> k"
    and "\<And>j. i < j \<Longrightarrow> j < length m \<Longrightarrow> k < fst (m ! j)"
  shows "upper_bound k m = Suc i"
proof (rule le_antisym)
  show "upper_bound k m \<le> Suc i"
  proof (rule ccontr)
    assume "\<not> ?thesis"
    then have *: "Suc i < upper_bound k m" by simp
    then have "fst (m ! Suc i) \<le> k" by (rule upper_bound_below)
    moreover have "k < fst (m ! Suc i)" using * upper_bound_le [of k m] by (intro assms(4)) auto
    ultimately show False by simp
  qed
  show "Suc i \<le> upper_bound k m"
  proof (rule ccontr)
    assume "\<not> ?thesis"
    then have "k < fst (m ! i)" using assms(1,2) by (intro upper_bound_above) auto
    with assms(3) show False by simp
  qed
qed

section \<open>Unordered maps\<close>

text \<open>
  A \<^verbatim>\<open>std::unordered_map\<close> is an association list in iteration order. \<^verbatim>\<open>find\<close> is \<^const>\<open>map_of\<close>,
  \<^verbatim>\<open>emplace\<close> leaves an existing element alone, an update through an iterator replaces the value of
  an existing key.
\<close>

definition um_emplace :: "'k \<Rightarrow> 'v \<Rightarrow> ('k \<times> 'v) list \<Rightarrow> ('k \<times> 'v) list \<times> bool" where
  "um_emplace k v m = (if map_of m k = None then ((k, v) # m, True) else (m, False))"

definition um_assign :: "'k \<Rightarrow> 'v \<Rightarrow> ('k \<times> 'v) list \<Rightarrow> ('k \<times> 'v) list" where
  "um_assign k v m = map (\<lambda>(a, b). if a = k then (a, v) else (a, b)) m"

lemma map_of_um_assign [simp]:
  "map_of (um_assign k v m) = (if map_of m k = None then map_of m else (map_of m)(k \<mapsto> v))"
  unfolding um_assign_def by (induction m) (auto split: if_splits)

text \<open>\<^verbatim>\<open>m[k] = v\<close>.\<close>

definition um_put :: "'k \<Rightarrow> 'v \<Rightarrow> ('k \<times> 'v) list \<Rightarrow> ('k \<times> 'v) list" where
  "um_put k v m = (if map_of m k = None then (k, v) # m else um_assign k v m)"

lemma map_of_um_put [simp]: "map_of (um_put k v m) = (map_of m)(k \<mapsto> v)"
  by (simp add: um_put_def)

lemma map_of_um_emplace [simp]:
  "map_of (fst (um_emplace k v m)) = (if map_of m k = None then (map_of m)(k \<mapsto> v) else map_of m)"
  "snd (um_emplace k v m) \<longleftrightarrow> map_of m k = None"
  by (auto simp: um_emplace_def)

section \<open>C strings\<close>

text \<open>A string handed over by \<^verbatim>\<open>c_str()\<close> ends at the first NUL.\<close>

definition c_str :: "string \<Rightarrow> string" where
  "c_str s = takeWhile (\<lambda>c. c \<noteq> CHR 0x00) s"

lemma c_str_id: "CHR 0x00 \<notin> set s \<Longrightarrow> c_str s = s"
  unfolding c_str_def by (induction s) auto

lemma c_str_append_NUL: "CHR 0x00 \<notin> set s \<Longrightarrow> c_str (s @ CHR 0x00 # t) = s"
  unfolding c_str_def by (induction s) auto

definition starts_with :: "string \<Rightarrow> string \<Rightarrow> bool" where
  "starts_with s prefix \<longleftrightarrow> length prefix \<le> length s \<and> take (length prefix) s = prefix"

lemma starts_with_append [simp]: "starts_with (p @ s) p"
  by (simp add: starts_with_def)

end
