(* ===== verification/Backend.thy ===== *)
theory Backend
  imports Prelude
begin

text \<open>
  The interface \<^verbatim>\<open>Backend\<close> of \<^verbatim>\<open>include/zlog/backend.h\<close>: the table of virtual functions as a
  record over the storage state, the documented behaviour of the calls as an abstract
  specification, the contract of a storage as the locale \<open>storage\<close>, and the one the log
  rests on as its extension \<open>backend\<close>. A query returns its result; a call that may change the storage returns the result
  together with the new storage. The out-parameter pair of \<^verbatim>\<open>MaxPos\<close> is an option: \<^const>\<open>None\<close>
  says that the object is empty.
\<close>

section \<open>The table of virtual functions\<close>

record 's backend_ops =
  b_CreateLog :: "string \<Rightarrow> string \<Rightarrow> 's \<Rightarrow> (string \<times> string) ret \<times> 's"
  b_OpenLog :: "string \<Rightarrow> 's \<Rightarrow> (string \<times> string) ret"
  b_ReadViews :: "string \<Rightarrow> u64 \<Rightarrow> u32 \<Rightarrow> 's \<Rightarrow> (u64, string) smap ret"
  b_ProposeView :: "string \<Rightarrow> u64 \<Rightarrow> string \<Rightarrow> 's \<Rightarrow> unit ret \<times> 's"
  b_uniqueId :: "string \<Rightarrow> 's \<Rightarrow> u64 ret \<times> 's"
  b_Read :: "string \<Rightarrow> u64 \<Rightarrow> u64 \<Rightarrow> 's \<Rightarrow> string ret"
  b_Write :: "string \<Rightarrow> string \<Rightarrow> u64 \<Rightarrow> u64 \<Rightarrow> 's \<Rightarrow> unit ret \<times> 's"
  b_Fill :: "string \<Rightarrow> u64 \<Rightarrow> u64 \<Rightarrow> 's \<Rightarrow> unit ret \<times> 's"
  b_Trim :: "string \<Rightarrow> u64 \<Rightarrow> u64 \<Rightarrow> bool \<Rightarrow> bool \<Rightarrow> 's \<Rightarrow> unit ret \<times> 's"
  b_Seal :: "string \<Rightarrow> u64 \<Rightarrow> 's \<Rightarrow> unit ret \<times> 's"
  b_MaxPos :: "string \<Rightarrow> 's \<Rightarrow> u64 option ret"
  b_Stat :: "string \<Rightarrow> 's \<Rightarrow> nat ret"

section \<open>Log objects\<close>

text \<open>The abstract state of an object that holds log entries. A position at or below the trim limit
  counts as invalidated, whatever is stored for it.\<close>

datatype entry = Data string | Junk

record aobj =
  ao_epoch :: u64
  ao_limit :: "u64 option"
  ao_entries :: "u64 \<rightharpoonup> entry"

definition below_limit :: "u64 option \<Rightarrow> u64 \<Rightarrow> bool" where
  "below_limit l p = (case l of None \<Rightarrow> False | Some x \<Rightarrow> p \<le> x)"

definition ao_get :: "aobj \<Rightarrow> u64 \<Rightarrow> entry option" where
  "ao_get ob p = (if below_limit (ao_limit ob) p then Some Junk else ao_entries ob p)"

definition ao_init :: aobj where
  "ao_init = \<lparr>ao_epoch = 0, ao_limit = None, ao_entries = Map.empty\<rparr>"

text \<open>The check every data call starts with: the arguments, the existence of the object, the
  epoch.\<close>

definition a_guard :: "string \<Rightarrow> u64 \<Rightarrow> aobj option \<Rightarrow> aobj ret" where
  "a_guard oid e ob =
     (if oid = '''' then Inl EINVAL
      else if e = 0 then Inl EINVAL
      else case ob of
        None \<Rightarrow> Inl ENOENT
      | Some x \<Rightarrow> if e < ao_epoch x then Inl ESPIPE else Inr x)"

definition a_read :: "string \<Rightarrow> u64 \<Rightarrow> u64 \<Rightarrow> aobj option \<Rightarrow> string ret" where
  "a_read oid e p ob =
     (case a_guard oid e ob of
        Inl err \<Rightarrow> Inl err
      | Inr x \<Rightarrow> (case ao_get x p of
            None \<Rightarrow> Inl ERANGE
          | Some Junk \<Rightarrow> Inl ENODATA
          | Some (Data d) \<Rightarrow> Inr d))"

definition a_write ::
  "string \<Rightarrow> string \<Rightarrow> u64 \<Rightarrow> u64 \<Rightarrow> aobj option \<Rightarrow> unit ret \<times> aobj option" where
  "a_write oid d e p ob =
     (case a_guard oid e ob of
        Inl err \<Rightarrow> (Inl err, ob)
      | Inr x \<Rightarrow>
          if ao_get x p \<noteq> None then (Inl EROFS, ob)
          else (Inr (), Some (x\<lparr>ao_entries := (ao_entries x)(p \<mapsto> Data d)\<rparr>)))"

definition a_fill :: "string \<Rightarrow> u64 \<Rightarrow> u64 \<Rightarrow> aobj option \<Rightarrow> unit ret \<times> aobj option" where
  "a_fill oid e p ob =
     (case a_guard oid e ob of
        Inl err \<Rightarrow> (Inl err, ob)
      | Inr x \<Rightarrow> (case ao_get x p of
            Some Junk \<Rightarrow> (Inr (), ob)
          | Some (Data d) \<Rightarrow> (Inl EROFS, ob)
          | None \<Rightarrow> (Inr (), Some (x\<lparr>ao_entries := (ao_entries x)(p \<mapsto> Junk)\<rparr>))))"

definition a_trim ::
  "string \<Rightarrow> u64 \<Rightarrow> u64 \<Rightarrow> bool \<Rightarrow> bool \<Rightarrow> aobj option \<Rightarrow> unit ret \<times> aobj option" where
  "a_trim oid e p lim full ob =
     (if full \<and> \<not> lim then (Inl EINVAL, ob)
      else case a_guard oid e ob of
        Inl err \<Rightarrow> (Inl err, ob)
      | Inr x \<Rightarrow>
          let x1 = (if lim then x\<lparr>ao_limit := Some (case ao_limit x of None \<Rightarrow> p | Some l \<Rightarrow> max p l)\<rparr>
                    else x);
              x2 = (if full then x1\<lparr>ao_entries := Map.empty\<rparr> else x1)
          in (Inr (), Some (if below_limit (ao_limit x2) p then x2
                            else x2\<lparr>ao_entries := (ao_entries x2)(p \<mapsto> Junk)\<rparr>)))"

definition a_seal :: "string \<Rightarrow> u64 \<Rightarrow> aobj option \<Rightarrow> unit ret \<times> aobj option" where
  "a_seal oid e ob =
     (if oid = '''' then (Inl EINVAL, ob)
      else if e = 0 then (Inl EINVAL, ob)
      else case ob of
        None \<Rightarrow> (Inr (), Some (ao_init\<lparr>ao_epoch := e\<rparr>))
      | Some x \<Rightarrow> if e \<le> ao_epoch x then (Inl ESPIPE, ob) else (Inr (), Some (x\<lparr>ao_epoch := e\<rparr>)))"

text \<open>What a caller may conclude from \<^verbatim>\<open>MaxPos\<close>: no position above the reported one is taken, and an
  object is reported empty exactly when no position of it is taken.\<close>

definition a_maxpos_ok :: "string \<Rightarrow> aobj option \<Rightarrow> u64 option ret \<Rightarrow> bool" where
  "a_maxpos_ok oid ob r \<longleftrightarrow>
     (if oid = '''' then r = Inl EINVAL
      else case ob of
        None \<Rightarrow> r = Inl ENOENT
      | Some x \<Rightarrow> (case r of
            Inl _ \<Rightarrow> False
          | Inr None \<Rightarrow> (\<forall>p. ao_get x p = None)
          | Inr (Some m) \<Rightarrow> (\<exists>p. ao_get x p \<noteq> None) \<and> (\<forall>p. ao_get x p \<noteq> None \<longrightarrow> p \<le> m)))"

section \<open>How a log object evolves\<close>

text \<open>Epochs grow; an invalidated position stays invalidated; a written position keeps its data or
  is invalidated.\<close>

definition entry_le :: "entry option \<Rightarrow> entry option \<Rightarrow> bool" where
  "entry_le a b \<longleftrightarrow> (case a of None \<Rightarrow> True | Some Junk \<Rightarrow> b = Some Junk | Some (Data d) \<Rightarrow>
     b = Some (Data d) \<or> b = Some Junk)"

definition aobj_le :: "aobj option \<Rightarrow> aobj option \<Rightarrow> bool" where
  "aobj_le a b \<longleftrightarrow> (case a of None \<Rightarrow> True | Some x \<Rightarrow> (case b of None \<Rightarrow> False | Some y \<Rightarrow>
     ao_epoch x \<le> ao_epoch y \<and> (\<forall>p. entry_le (ao_get x p) (ao_get y p))))"

lemma entry_le_refl [simp]: "entry_le a a"
  by (auto simp: entry_le_def split: option.split entry.split)

lemma entry_le_trans: "entry_le a b \<Longrightarrow> entry_le b c \<Longrightarrow> entry_le a c"
  by (auto simp: entry_le_def split: option.splits entry.splits)

lemma entry_le_None [simp]: "entry_le None b"
  by (simp add: entry_le_def)

lemma entry_le_Junk [simp]: "entry_le a (Some Junk)"
  by (simp add: entry_le_def split: option.split entry.split)

lemma aobj_le_refl [simp]: "aobj_le a a"
  by (simp add: aobj_le_def split: option.split)

lemma aobj_le_trans: "aobj_le a b \<Longrightarrow> aobj_le b c \<Longrightarrow> aobj_le a c"
  unfolding aobj_le_def by (fastforce split: option.splits intro: entry_le_trans order_trans)

lemma a_guard_Inr: "a_guard oid e ob = Inr x \<Longrightarrow> ob = Some x \<and> ao_epoch x \<le> e \<and> 0 < e \<and> oid \<noteq> ''''"
  by (auto simp: a_guard_def word_gt_0 split: if_splits option.splits)

lemma a_write_le: "aobj_le ob (snd (a_write oid d e p ob))"
  by (auto simp: a_write_def aobj_le_def ao_get_def split: sum.split option.split dest!: a_guard_Inr)

lemma a_fill_le: "aobj_le ob (snd (a_fill oid e p ob))"
  by (auto simp: a_fill_def aobj_le_def ao_get_def split: sum.split option.split entry.split
      dest!: a_guard_Inr)

text \<open>A full trim drops the stored entries, which is sound only when all of them are at or below the
  position.\<close>

lemma a_trim_le:
  assumes "full \<longrightarrow> (\<forall>x q. ob = Some x \<longrightarrow> ao_entries x q \<noteq> None \<longrightarrow> q \<le> p)"
  shows "aobj_le ob (snd (a_trim oid e p lim full ob))"
proof (cases "a_guard oid e ob")
  case (Inl err)
  then show ?thesis by (simp add: a_trim_def)
next
  case (Inr x)
  then have ob: "ob = Some x" by (simp add: a_guard_Inr)
  show ?thesis
  proof (cases lim)
    case True
    let ?l = "case ao_limit x of None \<Rightarrow> p | Some l \<Rightarrow> max p l"
    have p: "p \<le> ?l" by (simp split: option.split)
    have old: "\<not> below_limit (ao_limit x) q" if "\<not> q \<le> ?l" for q
      using that by (auto simp: below_limit_def le_max_iff_disj split: option.splits)
    have new: "snd (a_trim oid e p lim full ob) = Some (x\<lparr>ao_limit := Some ?l,
        ao_entries := if full then Map.empty else ao_entries x\<rparr>)"
      using True p by (auto simp: a_trim_def Inr Let_def below_limit_def)
    have "entry_le (ao_get x q) (if q \<le> ?l then Some Junk else if full then None else ao_entries x q)" for q
    proof (cases "q \<le> ?l")
      case False
      then have "\<not> q \<le> p" using p by auto
      then have "full \<Longrightarrow> ao_entries x q = None" using assms ob by blast
      then show ?thesis using False old [OF False] by (simp add: ao_get_def)
    qed simp
    moreover have "ao_get (x\<lparr>ao_limit := Some ?l, ao_entries := if full then Map.empty else ao_entries x\<rparr>) q =
        (if q \<le> ?l then Some Junk else if full then None else ao_entries x q)" for q
      by (simp add: ao_get_def below_limit_def)
    ultimately show ?thesis unfolding new unfolding ob aobj_le_def by (simp del: if_split)
  next
    case False
    then show ?thesis
      using Inr by (auto simp: a_trim_def ob aobj_le_def ao_get_def)
  qed
qed

lemma a_seal_le: "aobj_le ob (snd (a_seal oid e ob))"
  by (auto simp: a_seal_def aobj_le_def ao_get_def split: option.split)

section \<open>Views\<close>

text \<open>The views of a head object are the list of proposals accepted so far: the one with epoch \<open>i + 1\<close>
  is at index \<open>i\<close>.\<close>

definition a_read_views :: "u64 \<Rightarrow> u32 \<Rightarrow> string list \<Rightarrow> (u64, string) smap" where
  "a_read_views e max_views vs =
     (if e = 0 then (if vs = [] then [] else [(of_nat (length vs), last vs)])
      else map (\<lambda>i. (of_nat (Suc i), vs ! i))
             (take (unat max_views) [unat e - 1..<length vs]))"

definition a_propose :: "u64 \<Rightarrow> string \<Rightarrow> string list \<Rightarrow> unit ret \<times> string list" where
  "a_propose e v vs =
     (if e = 0 then (Inl EINVAL, vs)
      else let required = of_nat (length vs) + 1
           in if required < e then (Inl EINVAL, vs)
              else if e \<noteq> required then (Inl ESPIPE, vs)
              else (Inr (), vs @ [v]))"

lemma a_propose_ok:
  assumes "fst (a_propose e v vs) = Inr u" and "length vs < 2 ^ 64"
  shows "unat e = length vs + 1" and "snd (a_propose e v vs) = vs @ [v]"
    and "length (vs @ [v]) < 2 ^ 64"
proof -
  have e: "e = of_nat (length vs) + 1" "e \<noteq> 0" and "snd (a_propose e v vs) = vs @ [v]"
    using assms(1) by (auto simp: a_propose_def Let_def split: if_splits)
  then show "snd (a_propose e v vs) = vs @ [v]" by simp
  have "unat (1 + of_nat (length vs) :: u64) = Suc (unat (of_nat (length vs) :: u64))"
    using e by (intro unatSuc) (simp add: add.commute)
  then show *: "unat e = length vs + 1"
    using e(1) assms(2) by (simp add: unat_of_nat_u64 add.commute)
  show "length (vs @ [v]) < 2 ^ 64" using unat_u64_bound [of e] unfolding * by simp
qed

section \<open>The contract\<close>

text \<open>The calls that change the storage, so that the calls of all clients form one sequence.\<close>

datatype call =
    CWrite string string u64 u64
  | CFill string u64 u64
  | CTrim string u64 u64 bool bool
  | CSeal string u64
  | CPropose string u64 string
  | CCreate string string
  | CUnique string

fun run_call :: "'s backend_ops \<Rightarrow> call \<Rightarrow> 's \<Rightarrow> 's" where
  "run_call ops (CWrite oid d e p) s = snd (b_Write ops oid d e p s)"
| "run_call ops (CFill oid e p) s = snd (b_Fill ops oid e p s)"
| "run_call ops (CTrim oid e p lim full) s = snd (b_Trim ops oid e p lim full s)"
| "run_call ops (CSeal oid e) s = snd (b_Seal ops oid e s)"
| "run_call ops (CPropose hoid e v) s = snd (b_ProposeView ops hoid e v s)"
| "run_call ops (CCreate name v) s = snd (b_CreateLog ops name v s)"
| "run_call ops (CUnique hoid) s = snd (b_uniqueId ops hoid s)"

definition run_calls :: "'s backend_ops \<Rightarrow> call list \<Rightarrow> 's \<Rightarrow> 's" where
  "run_calls ops cs s = fold (run_call ops) cs s"

text \<open>What the callers keep to: data calls name data objects, and a full trim is asked for only when no
  entry lies above the position.\<close>

fun call_ok :: "(string \<Rightarrow> bool) \<Rightarrow> ('s \<Rightarrow> string \<Rightarrow> aobj option) \<Rightarrow> call \<Rightarrow> 's \<Rightarrow> bool" where
  "call_ok is_data obj (CWrite oid d e p) s = is_data oid"
| "call_ok is_data obj (CFill oid e p) s = is_data oid"
| "call_ok is_data obj (CTrim oid e p lim full) s \<longleftrightarrow> is_data oid
     \<and> (full \<longrightarrow> (\<forall>x q. obj s oid = Some x \<longrightarrow> ao_entries x q \<noteq> None \<longrightarrow> q \<le> p))"
| "call_ok is_data obj (CSeal oid e) s = is_data oid"
| "call_ok is_data obj _ s = True"

fun calls_ok ::
  "'s backend_ops \<Rightarrow> (string \<Rightarrow> bool) \<Rightarrow> ('s \<Rightarrow> string \<Rightarrow> aobj option) \<Rightarrow> call list \<Rightarrow> 's \<Rightarrow> bool" where
  "calls_ok ops is_data obj [] s = True"
| "calls_ok ops is_data obj (c # cs) s \<longleftrightarrow>
     call_ok is_data obj c s \<and> calls_ok ops is_data obj cs (run_call ops c s)"

text \<open>The limits of a particular backend: the names of head objects and logs it can take, and the positions it can
  store as a trim limit.\<close>

fun call_in :: "(string \<Rightarrow> bool) \<Rightarrow> (string \<Rightarrow> bool) \<Rightarrow> (u64 \<Rightarrow> bool) \<Rightarrow> call \<Rightarrow> bool" where
  "call_in is_head name_ok lim_ok (CTrim oid e p lim full) \<longleftrightarrow> (lim \<longrightarrow> lim_ok p)"
| "call_in is_head name_ok lim_ok (CPropose hoid e v) \<longleftrightarrow> is_head hoid"
| "call_in is_head name_ok lim_ok (CCreate name v) \<longleftrightarrow> name_ok name"
| "call_in is_head name_ok lim_ok (CUnique hoid) \<longleftrightarrow> is_head hoid"
| "call_in is_head name_ok lim_ok _ \<longleftrightarrow> True"

lemma call_in_True [simp]: "call_in (\<lambda>_. True) (\<lambda>_. True) (\<lambda>_. True) c"
  by (cases c) simp_all

text \<open>
  \<open>obj\<close> reads the abstract state of a data object off the storage, \<open>views\<close> the accepted views of a
  head object, \<open>logs\<close> the directory of logs; \<open>sinv\<close> is the representation invariant.
\<close>

locale storage =
  fixes ops :: "'s backend_ops"
    and sinv :: "'s \<Rightarrow> bool"
    and is_data is_head name_ok :: "string \<Rightarrow> bool"
    and lim_ok :: "u64 \<Rightarrow> bool"
    and obj :: "'s \<Rightarrow> string \<Rightarrow> aobj option"
    and views :: "'s \<Rightarrow> string \<Rightarrow> string list option"
    and logs :: "'s \<Rightarrow> string \<Rightarrow> (string \<times> string) option"
  assumes read_spec: "sinv s \<Longrightarrow> is_data oid \<Longrightarrow> b_Read ops oid e p s = a_read oid e p (obj s oid)"
    and write_ret: "sinv s \<Longrightarrow> is_data oid \<Longrightarrow>
      fst (b_Write ops oid d e p s) = fst (a_write oid d e p (obj s oid))"
    and write_state: "sinv s \<Longrightarrow> is_data oid \<Longrightarrow> b_Write ops oid d e p s = (r, s') \<Longrightarrow>
      sinv s' \<and> obj s' = (obj s)(oid := snd (a_write oid d e p (obj s oid)))
      \<and> views s' = views s \<and> logs s' = logs s"
    and fill_ret: "sinv s \<Longrightarrow> is_data oid \<Longrightarrow>
      fst (b_Fill ops oid e p s) = fst (a_fill oid e p (obj s oid))"
    and fill_state: "sinv s \<Longrightarrow> is_data oid \<Longrightarrow> b_Fill ops oid e p s = (r, s') \<Longrightarrow>
      sinv s' \<and> obj s' = (obj s)(oid := snd (a_fill oid e p (obj s oid)))
      \<and> views s' = views s \<and> logs s' = logs s"
    and trim_law_ret: "sinv s \<Longrightarrow> is_data oid \<Longrightarrow> (lim \<longrightarrow> lim_ok p) \<Longrightarrow>
      fst (b_Trim ops oid e p lim full s) = fst (a_trim oid e p lim full (obj s oid))"
    and trim_law: "sinv s \<Longrightarrow> is_data oid \<Longrightarrow> (lim \<longrightarrow> lim_ok p) \<Longrightarrow> b_Trim ops oid e p lim full s = (r, s') \<Longrightarrow>
      sinv s' \<and> obj s' = (obj s)(oid := snd (a_trim oid e p lim full (obj s oid)))
      \<and> views s' = views s \<and> logs s' = logs s"
    and seal_ret: "sinv s \<Longrightarrow> is_data oid \<Longrightarrow>
      fst (b_Seal ops oid e s) = fst (a_seal oid e (obj s oid))"
    and seal_state: "sinv s \<Longrightarrow> is_data oid \<Longrightarrow> b_Seal ops oid e s = (r, s') \<Longrightarrow>
      sinv s' \<and> obj s' = (obj s)(oid := snd (a_seal oid e (obj s oid)))
      \<and> views s' = views s \<and> logs s' = logs s"
    and maxpos_spec: "sinv s \<Longrightarrow> is_data oid \<Longrightarrow> a_maxpos_ok oid (obj s oid) (b_MaxPos ops oid s)"
    and views_law: "sinv s \<Longrightarrow> views s hoid = Some vs \<Longrightarrow> length vs < 2 ^ 64 \<and> hoid \<noteq> '''' \<and> is_head hoid"
    and read_views_spec: "sinv s \<Longrightarrow> views s hoid = Some vs \<Longrightarrow>
      b_ReadViews ops hoid e n s = Inr (a_read_views e n vs)"
    and propose_ret: "sinv s \<Longrightarrow> views s hoid = Some vs \<Longrightarrow>
      fst (b_ProposeView ops hoid e v s) = fst (a_propose e v vs)"
    and propose_law: "sinv s \<Longrightarrow> is_head hoid \<Longrightarrow> b_ProposeView ops hoid e v s = (r, s') \<Longrightarrow>
      sinv s' \<and> obj s' = obj s \<and> logs s' = logs s
      \<and> views s' = (views s)(hoid := map_option (\<lambda>vs. snd (a_propose e v vs)) (views s hoid))"
    and open_law: "sinv s \<Longrightarrow> name_ok name \<Longrightarrow> b_OpenLog ops name s =
      (if name = '''' then Inl EINVAL else case logs s name of None \<Rightarrow> Inl ENOENT | Some r \<Rightarrow> Inr r)"
    and create_law: "sinv s \<Longrightarrow> name_ok name \<Longrightarrow> b_CreateLog ops name v s = (rc, s') \<Longrightarrow>
      sinv s' \<and> obj s' = obj s \<and> (\<forall>h vs. views s h = Some vs \<longrightarrow> views s' h = Some vs)
      \<and> (case rc of
           Inl err \<Rightarrow> logs s' = logs s
             \<and> (if name = '''' then err = EINVAL else err = EEXIST \<and> logs s name \<noteq> None \<or> err = EIO)
         | Inr (h, pf) \<Rightarrow> name \<noteq> '''' \<and> logs s name = None \<and> logs s' = (logs s)(name \<mapsto> (h, pf))
             \<and> views s h = None \<and> views s' h = Some [v])"
    and unique_law: "sinv s \<Longrightarrow> is_head hoid \<Longrightarrow> b_uniqueId ops hoid s = (ru, s') \<Longrightarrow>
      sinv s' \<and> obj s' = obj s \<and> views s' = views s \<and> logs s' = logs s"
begin

lemmas write_snd = write_state [OF _ _ prod.collapse [symmetric]]
lemmas fill_snd = fill_state [OF _ _ prod.collapse [symmetric]]
lemmas trim_snd = trim_law [OF _ _ _ prod.collapse [symmetric]]
lemmas seal_snd = seal_state [OF _ _ prod.collapse [symmetric]]
lemmas propose_snd = propose_law [OF _ _ prod.collapse [symmetric]]
lemmas create_snd = create_law [OF _ _ prod.collapse [symmetric]]
lemmas unique_snd = unique_law [OF _ _ prod.collapse [symmetric]]

lemmas call_snd = write_snd fill_snd trim_snd seal_snd propose_snd create_snd unique_snd

abbreviation within :: "call \<Rightarrow> bool" where
  "within \<equiv> call_in is_head name_ok lim_ok"

lemma run_call_inv: "sinv s \<Longrightarrow> call_ok is_data obj c s \<Longrightarrow> within c \<Longrightarrow> sinv (run_call ops c s)"
  by (cases c) (simp_all add: call_snd)

lemma run_call_le:
  assumes "sinv s" and "call_ok is_data obj c s" and "within c"
  shows "aobj_le (obj s oid) (obj (run_call ops c s) oid)"
proof (cases c)
  case (CTrim oid' e p lim full)
  then show ?thesis
    using assms a_trim_le [of full "obj s oid'" p oid' e lim] by (auto simp: call_snd)
qed (use assms a_write_le a_fill_le a_seal_le in \<open>simp_all add: call_snd\<close>)

lemma run_call_views:
  assumes "sinv s" and "call_ok is_data obj c s" and "within c" and "views s hoid = Some vs"
  shows "\<exists>ws. views (run_call ops c s) hoid = Some (vs @ ws)"
  using assms by (cases c) (auto simp: a_propose_def Let_def call_snd)

lemma run_calls_simps [simp]:
  "run_calls ops [] s = s" "run_calls ops (c # cs) s = run_calls ops cs (run_call ops c s)"
  by (simp_all add: run_calls_def)

lemma run_calls_inv: "sinv s \<Longrightarrow> calls_ok ops is_data obj cs s \<Longrightarrow> list_all within cs \<Longrightarrow> sinv (run_calls ops cs s)"
  by (induction cs arbitrary: s) (simp_all add: run_call_inv)

lemma run_calls_le:
  "sinv s \<Longrightarrow> calls_ok ops is_data obj cs s \<Longrightarrow> list_all within cs \<Longrightarrow> aobj_le (obj s oid) (obj (run_calls ops cs s) oid)"
proof (induction cs arbitrary: s)
  case (Cons c cs)
  then have "aobj_le (obj s oid) (obj (run_call ops c s) oid)"
    "aobj_le (obj (run_call ops c s) oid) (obj (run_calls ops cs (run_call ops c s)) oid)"
    by (simp_all add: run_call_le run_call_inv)
  then show ?case by (auto intro: aobj_le_trans)
qed simp

lemma run_calls_views:
  "sinv s \<Longrightarrow> calls_ok ops is_data obj cs s \<Longrightarrow> list_all within cs \<Longrightarrow> views s hoid = Some vs \<Longrightarrow>
   \<exists>ws. views (run_calls ops cs s) hoid = Some (vs @ ws)"
proof (induction cs arbitrary: s vs)
  case (Cons c cs)
  then obtain ws where "views (run_call ops c s) hoid = Some (vs @ ws)"
    using run_call_views by fastforce
  then have "\<exists>us. views (run_calls ops cs (run_call ops c s)) hoid = Some ((vs @ ws) @ us)"
    using Cons.prems by (intro Cons.IH) (simp_all add: run_call_inv)
  then show ?case by auto
qed simp

text \<open>A position is written at most once, whatever the clients do in between.\<close>

lemma write_once_within:
  assumes "sinv s" and "is_data oid" and "b_Write ops oid d e p s = (Inr u, s1)"
    and "calls_ok ops is_data obj cs s1" and "list_all within cs"
  shows "fst (b_Write ops oid d' e' p (run_calls ops cs s1)) \<noteq> Inr v"
    and "b_Read ops oid e' p (run_calls ops cs s1) = Inr d'' \<Longrightarrow> d'' = d"
    and "b_Read ops oid e' p (run_calls ops cs s1) \<noteq> Inl ERANGE"
proof -
  let ?s2 = "run_calls ops cs s1"
  have s1: "sinv s1" "obj s1 oid = snd (a_write oid d e p (obj s oid))"
    using write_state [OF assms(1-3)] by simp_all
  have "fst (a_write oid d e p (obj s oid)) = Inr u"
    using write_ret [OF assms(1,2), of d e p] assms(3) by simp
  then obtain x where "obj s1 oid = Some x" "ao_get x p = Some (Data d)"
    using s1(2) by (auto simp: a_write_def ao_get_def split: sum.splits if_splits)
  then obtain y where y: "obj ?s2 oid = Some y" "ao_get y p = Some (Data d) \<or> ao_get y p = Some Junk"
    using run_calls_le [OF s1(1) assms(4,5), of oid]
    by (auto simp: aobj_le_def entry_le_def split: option.splits entry.splits)
  have inv2: "sinv ?s2" by (rule run_calls_inv [OF s1(1) assms(4,5)])
  show "fst (b_Write ops oid d' e' p ?s2) \<noteq> Inr v"
    using y by (auto simp: write_ret [OF inv2 assms(2)] a_write_def split: sum.splits dest!: a_guard_Inr)
  show "b_Read ops oid e' p ?s2 = Inr d'' \<Longrightarrow> d'' = d" and "b_Read ops oid e' p ?s2 \<noteq> Inl ERANGE"
    using y by (auto simp: read_spec [OF inv2 assms(2)] a_read_def a_guard_def
        split: sum.splits if_splits dest!: a_guard_Inr)
qed

text \<open>After a seal no call with an older epoch has an effect.\<close>

lemma sealed_within:
  assumes "sinv s" and "is_data oid" and "b_Seal ops oid e s = (Inr u, s1)"
    and "calls_ok ops is_data obj cs s1" and "list_all within cs" and "e' < e"
  defines "s2 \<equiv> run_calls ops cs s1"
  shows "fst (b_Write ops oid d e' p s2) \<in> {Inl EINVAL, Inl ESPIPE}"
    and "obj (snd (b_Write ops oid d e' p s2)) = obj s2"
    and "fst (b_Fill ops oid e' p s2) \<in> {Inl EINVAL, Inl ESPIPE}"
    and "b_Read ops oid e' p s2 \<in> {Inl EINVAL, Inl ESPIPE}"
    and "(lim \<longrightarrow> lim_ok p) \<Longrightarrow> fst (b_Trim ops oid e' p lim full s2) \<in> {Inl EINVAL, Inl ESPIPE}"
proof -
  have s1: "sinv s1" "obj s1 oid = snd (a_seal oid e (obj s oid))"
    using seal_state [OF assms(1-3)] by simp_all
  have "fst (a_seal oid e (obj s oid)) = Inr u"
    using seal_ret [OF assms(1,2), of e] assms(3) by simp
  then obtain x where "obj s1 oid = Some x" "ao_epoch x = e"
    using s1(2) by (auto simp: a_seal_def ao_init_def split: option.splits if_splits)
  then obtain y where y: "obj s2 oid = Some y" "e \<le> ao_epoch y"
    using run_calls_le [OF s1(1) assms(4,5), of oid] by (auto simp: aobj_le_def s2_def split: option.splits)
  have inv2: "sinv s2" unfolding s2_def by (rule run_calls_inv [OF s1(1) assms(4,5)])
  have g: "a_guard oid e' (obj s2 oid) \<in> {Inl EINVAL, Inl ESPIPE}"
    using y assms(6) by (auto simp: a_guard_def)
  show "fst (b_Write ops oid d e' p s2) \<in> {Inl EINVAL, Inl ESPIPE}"
    using g by (auto simp: write_ret [OF inv2 assms(2)] a_write_def)
  have "snd (a_write oid d e' p (obj s2 oid)) = obj s2 oid" using g by (auto simp: a_write_def)
  then show "obj (snd (b_Write ops oid d e' p s2)) = obj s2"
    by (simp add: write_snd [OF inv2 assms(2)])
  show "fst (b_Fill ops oid e' p s2) \<in> {Inl EINVAL, Inl ESPIPE}"
    using g by (auto simp: fill_ret [OF inv2 assms(2)] a_fill_def)
  show "b_Read ops oid e' p s2 \<in> {Inl EINVAL, Inl ESPIPE}"
    using g by (auto simp: read_spec [OF inv2 assms(2)] a_read_def)
  show "(lim \<longrightarrow> lim_ok p) \<Longrightarrow> fst (b_Trim ops oid e' p lim full s2) \<in> {Inl EINVAL, Inl ESPIPE}"
    using g by (auto simp: trim_law_ret [OF inv2 assms(2)] a_trim_def)
qed

text \<open>Of two proposals for the same epoch at most one is accepted, in any interleaving.\<close>

lemma propose_once_within:
  assumes "sinv s" and "views s hoid = Some vs" and "b_ProposeView ops hoid e v s = (Inr u, s1)"
    and "calls_ok ops is_data obj cs s1" and "list_all within cs"
  shows "fst (b_ProposeView ops hoid e v' (run_calls ops cs s1)) \<noteq> Inr u'"
    and "b_ReadViews ops hoid e 1 (run_calls ops cs s1) = Inr [(e, v)]"
proof -
  let ?s2 = "run_calls ops cs s1"
  have p: "fst (a_propose e v vs) = Inr u"
    using propose_ret [OF assms(1,2), of e v] assms(3) by simp
  note b = a_propose_ok [OF p conjunct1 [OF views_law [OF assms(1,2)]]]
  have head: "is_head hoid" using views_law [OF assms(1,2)] by simp
  have s1: "sinv s1" "views s1 hoid = Some (vs @ [v])"
    using propose_law [OF assms(1) head assms(3)] assms(2) b(2) by simp_all
  obtain ws where ws: "views ?s2 hoid = Some ((vs @ [v]) @ ws)"
    using run_calls_views [OF s1(1) assms(4,5) s1(2)] by blast
  have inv2: "sinv ?s2" by (rule run_calls_inv [OF s1(1) assms(4,5)])
  note b2 = conjunct1 [OF views_law [OF inv2 ws]]
  show "fst (b_ProposeView ops hoid e v' ?s2) \<noteq> Inr u'"
    using a_propose_ok(1) [OF _ b2, of e v' u'] b(1) by (auto simp: propose_ret [OF inv2 ws])
  have "[unat e - 1..<length ((vs @ [v]) @ ws)] = (unat e - 1) # [unat e..<length ((vs @ [v]) @ ws)]"
    using b(1) by (subst upt_conv_Cons) simp_all
  moreover have "e \<noteq> 0" using b(1) by auto
  moreover have "of_nat (Suc (unat e - 1)) = e"
    using b(1) by (metis Suc_eq_plus1 add_diff_cancel_right' of_nat_unat_u64)
  ultimately show "b_ReadViews ops hoid e 1 ?s2 = Inr [(e, v)]"
    using b(1) by (simp add: read_views_spec [OF inv2 ws] a_read_views_def nth_append)
qed

end

text \<open>The contract the log rests on: a storage without such limits, in which every object below a log's prefix is a data
  object and the names the storage makes up for new logs do not repeat.\<close>

locale backend = storage ops sinv is_data "\<lambda>_. True" "\<lambda>_. True" "\<lambda>_. True" obj views logs
  for ops :: "'s backend_ops" and sinv is_data obj views logs +
  assumes logs_ok: "sinv s \<Longrightarrow> logs s name = Some (hoid, prefix) \<Longrightarrow>
      views s hoid \<noteq> None \<and> prefix \<noteq> '''' \<and> is_data (prefix @ ''.'' @ oid)"
    and create_unique: "sinv s \<Longrightarrow> b_CreateLog ops name v s = (Inl err, s') \<Longrightarrow> err \<noteq> EIO"
begin

lemma limit_True: "lim \<longrightarrow> True"
  by simp

lemma within_all: "list_all within cs"
  by (simp add: list_all_iff)

lemmas trim_ret = trim_law_ret [OF _ _ limit_True]
lemmas trim_state = trim_law [OF _ _ limit_True]
lemmas propose_state = propose_law [OF _ TrueI]
lemmas open_spec = open_law [OF _ TrueI]
lemmas unique_state = unique_law [OF _ TrueI]

lemma create_state:
  assumes "sinv s" and "b_CreateLog ops name v s = (rc, s')"
  shows "sinv s' \<and> obj s' = obj s \<and> (\<forall>h vs. views s h = Some vs \<longrightarrow> views s' h = Some vs)
      \<and> (case rc of
           Inl err \<Rightarrow> logs s' = logs s
             \<and> err = (if name = '''' then EINVAL else EEXIST) \<and> (name = '''' \<or> logs s name \<noteq> None)
         | Inr (h, pf) \<Rightarrow> name \<noteq> '''' \<and> logs s name = None \<and> logs s' = (logs s)(name \<mapsto> (h, pf))
             \<and> views s h = None \<and> views s' h = Some [v])"
  using create_law [OF assms(1) TrueI assms(2)] create_unique [OF assms(1)] assms(2) by (cases rc) (auto split: if_splits)

lemma views_bound: "sinv s \<Longrightarrow> views s hoid = Some vs \<Longrightarrow> length vs < 2 ^ 64 \<and> hoid \<noteq> ''''"
  using views_law by blast

lemmas write_once = write_once_within [OF _ _ _ _ within_all]
lemmas sealed = sealed_within [OF _ _ _ _ within_all]
lemmas propose_once = propose_once_within [OF _ _ _ _ within_all]

end

end
