(* ===== verification/Stripe.thy ===== *)
theory Stripe
  imports Prelude
begin

text \<open>
  The classes \<^verbatim>\<open>Stripe\<close> and \<^verbatim>\<open>MultiStripe\<close> of \<^verbatim>\<open>libzlog/stripe.h\<close> and
  \<^verbatim>\<open>libzlog/stripe.cc\<close>. A stripe is a contiguous range of log positions spread round-robin
  over \<open>width\<close> objects; a multi-stripe stands for \<open>instances\<close> adjacent stripes of the same
  shape. Constructors return \<^const>\<open>None\<close> when one of their assertions fails. The lemmas give
  the arithmetic of a multi-stripe over the natural numbers, under the condition
  \<open>ms_fits\<close> that neither the 32-bit stripe size nor the 64-bit position range wraps.
\<close>

section \<open>Stripes\<close>

record stripe =
  st_id :: u64
  st_width :: u32
  st_min :: u64
  st_max :: u64
  st_oids :: "string list"

definition make_oid_index :: "u64 \<Rightarrow> u32 \<Rightarrow> string" where
  "make_oid_index stripe_id index = show_u64 stripe_id @ ''.'' @ show_u32 index"

definition make_oid :: "u64 \<Rightarrow> u32 \<Rightarrow> u64 \<Rightarrow> string" where
  "make_oid stripe_id width position =
     (let index = position mod ucast width in make_oid_index stripe_id (ucast index))"

definition make_oids :: "u64 \<Rightarrow> u32 \<Rightarrow> string list" where
  "make_oids stripe_id width = map (\<lambda>i. make_oid_index stripe_id (of_nat i)) [0..<unat width]"

definition stripe_new :: "u64 \<Rightarrow> u32 \<Rightarrow> u64 \<Rightarrow> u64 \<Rightarrow> stripe option" where
  "stripe_new stripe_id width min_position max_position =
     (if 0 < width
       \<and> (if 0 < stripe_id then 0 < min_position else min_position = 0)
       \<and> min_position \<le> max_position
       \<and> min_position + ucast width - 1 \<le> max_position
       \<and> (max_position - min_position + 1) mod ucast width = 0
      then Some \<lparr>st_id = stripe_id, st_width = width, st_min = min_position,
                 st_max = max_position, st_oids = make_oids stripe_id width\<rparr>
      else None)"

section \<open>Multi-stripes\<close>

record multi_stripe =
  ms_base_id :: u64
  ms_width :: u32
  ms_slots :: u32
  ms_min :: u64
  ms_instances :: u64
  ms_max :: u64

definition ms_asserts :: "multi_stripe \<Rightarrow> bool" where
  "ms_asserts m \<longleftrightarrow>
     0 < ms_width m \<and> 0 < ms_slots m \<and> 0 < ms_instances m
   \<and> (if 0 < ms_base_id m then 0 < ms_min m else ms_min m = 0)
   \<and> ms_min m \<le> ms_max m
   \<and> ms_max m = ms_min m + (ms_instances m * ucast (ms_width m) * ucast (ms_slots m)) - 1"

definition multi_stripe_new ::
  "u64 \<Rightarrow> u32 \<Rightarrow> u32 \<Rightarrow> u64 \<Rightarrow> u64 \<Rightarrow> u64 \<Rightarrow> multi_stripe option" where
  "multi_stripe_new base_id width slots min_position instances max_position =
     (let m = \<lparr>ms_base_id = base_id, ms_width = width, ms_slots = slots,
               ms_min = min_position, ms_instances = instances, ms_max = max_position\<rparr>
      in if ms_asserts m then Some m else None)"

definition ms_max_stripe_id :: "multi_stripe \<Rightarrow> u64" where
  "ms_max_stripe_id m = ms_base_id m + ms_instances m - 1"

definition ms_map :: "multi_stripe \<Rightarrow> u64 \<Rightarrow> u64 \<Rightarrow> string option" where
  "ms_map m stripe_id position =
     (if ms_base_id m \<le> stripe_id \<and> stripe_id \<le> ms_max_stripe_id m
       \<and> ms_min m \<le> position \<and> position \<le> ms_max m
      then Some (make_oid stripe_id (ms_width m) position) else None)"

definition ms_extend :: "multi_stripe \<Rightarrow> multi_stripe option" where
  "ms_extend m =
     multi_stripe_new (ms_base_id m) (ms_width m) (ms_slots m) (ms_min m)
       (ms_instances m + 1) (ms_max m + ucast (ms_width m) * ucast (ms_slots m))"

definition ms_stripe_by_id :: "multi_stripe \<Rightarrow> u64 \<Rightarrow> stripe option" where
  "ms_stripe_by_id m stripe_id =
     (if ms_base_id m \<le> stripe_id \<and> stripe_id \<le> ms_max_stripe_id m
      then let stripe_offset = stripe_id - ms_base_id m;
               entries_per_stripe = ucast (ms_width m) * ucast (ms_slots m);
               min_pos = ms_min m + stripe_offset * entries_per_stripe;
               max_pos = min_pos + entries_per_stripe - 1
           in if stripe_offset < ms_instances m \<and> 0 < entries_per_stripe
                 \<and> ms_min m \<le> min_pos \<and> max_pos \<le> ms_max m
              then stripe_new stripe_id (ms_width m) min_pos max_pos
              else None
      else None)"

text \<open>The FlatBuffers table \<^verbatim>\<open>MultiStripe\<close> of \<^verbatim>\<open>zlog.fbs\<close>, in schema order; the generated
  builder takes its arguments in that order.\<close>

record fbs_multi_stripe =
  fms_base_id :: u64
  fms_width :: u32
  fms_slots :: u32
  fms_instances :: u64
  fms_min_position :: u64
  fms_max_position :: u64

definition ms_encode :: "multi_stripe \<Rightarrow> fbs_multi_stripe" where
  "ms_encode m = \<lparr>fms_base_id = ms_base_id m, fms_width = ms_width m, fms_slots = ms_slots m,
     fms_instances = ms_instances m, fms_min_position = ms_min m, fms_max_position = ms_max m\<rparr>"

definition ms_decode :: "fbs_multi_stripe \<Rightarrow> multi_stripe option" where
  "ms_decode t = multi_stripe_new (fms_base_id t) (fms_width t) (fms_slots t)
     (fms_min_position t) (fms_instances t) (fms_max_position t)"

section \<open>Object names\<close>

lemma make_oid_index_inject [simp]:
  "make_oid_index a i = make_oid_index b j \<longleftrightarrow> a = b \<and> i = j"
  using append_sep_inject [of "show_u64 a" "CHR ''.''" "show_u32 i" "show_u64 b" "show_u32 j"]
  by (auto simp: make_oid_index_def)

lemma ucast_mod_u32:
  assumes "0 < (w :: u32)"
  shows "unat (ucast ((p :: u64) mod ucast w) :: u32) = unat p mod unat w"
proof -
  have "unat p mod unat w < unat w" using assms by (simp add: word_less_nat_alt)
  then have "unat p mod unat w < 4294967296"
    using unat_u32_bound [of w] by (rule less_trans)
  then show ?thesis by (simp add: unsigned_ucast_eq take_bit_eq_mod unat_mod)
qed

lemma make_oid_nat:
  "0 < w \<Longrightarrow> make_oid i w p = make_oid_index i (of_nat (unat p mod unat w))"
  by (simp add: make_oid_def flip: ucast_mod_u32)

lemma of_nat_u32_inject:
  "a < 4294967296 \<Longrightarrow> b < 4294967296 \<Longrightarrow> (of_nat a :: u32) = of_nat b \<longleftrightarrow> a = b"
  by (metis unat_of_nat_u32)

lemma make_oid_inject:
  assumes "0 < w" and "0 < v"
  shows "make_oid i w p = make_oid j v q \<longleftrightarrow> i = j \<and> unat p mod unat w = unat q mod unat v"
proof -
  have "unat p mod unat w < 4294967296" "unat q mod unat v < 4294967296"
    using assms by (simp_all flip: ucast_mod_u32)
  then show ?thesis using assms by (simp add: make_oid_nat of_nat_u32_inject)
qed

lemma make_oids_nth [simp]:
  "i < unat w \<Longrightarrow> make_oids s w ! i = make_oid_index s (of_nat i)"
  by (simp add: make_oids_def)

lemma length_make_oids [simp]: "length (make_oids s w) = unat w"
  by (simp add: make_oids_def)

lemma distinct_make_oids: "distinct (make_oids s w)"
proof -
  have "inj_on (\<lambda>i. make_oid_index s (of_nat i)) {0..<unat w}"
  proof (rule inj_onI)
    fix i j assume ij: "i \<in> {0..<unat w}" "j \<in> {0..<unat w}"
      and eq: "make_oid_index s (of_nat i) = make_oid_index s (of_nat j)"
    from ij have "i < 4294967296" "j < 4294967296"
      using unat_u32_bound [of w] by (auto intro: less_trans)
    with eq show "i = j" by (simp add: of_nat_u32_inject)
  qed
  then show ?thesis by (simp add: make_oids_def distinct_map)
qed

section \<open>The arithmetic of a multi-stripe\<close>

definition ms_size :: "multi_stripe \<Rightarrow> nat" where
  "ms_size m = unat (ms_width m) * unat (ms_slots m)"

definition ms_fits :: "multi_stripe \<Rightarrow> bool" where
  "ms_fits m \<longleftrightarrow> ms_size m < 2 ^ 32
     \<and> unat (ms_min m) + unat (ms_instances m) * ms_size m \<le> 2 ^ 64
     \<and> unat (ms_base_id m) + unat (ms_instances m) < 2 ^ 64"

lemma of_nat_unat_u32 [simp]: "(of_nat (unat (w :: u32)) :: u64) = ucast w"
  by (simp add: u64_eq_iff word_nat less_trans [OF unat_u32_bound])

text \<open>A word computed as \<open>a + b - 1\<close> from word images of naturals, whose exact value fits.\<close>

lemma unat_of_nat_pred:
  assumes "0 < n" and "n \<le> 18446744073709551616"
  shows "unat (of_nat n - 1 :: u64) = n - 1"
proof -
  have eq: "(of_nat n - 1 :: u64) = of_nat (n - 1)" using assms(1) by (simp add: of_nat_diff)
  have "unat (of_nat (n - 1) :: u64) = n - 1" using assms by (intro unat_of_nat_u64) linarith
  then show ?thesis by (simp only: eq)
qed

lemma ms_size_pos: "ms_asserts m \<Longrightarrow> 0 < ms_size m"
  by (auto simp: ms_asserts_def ms_size_def word_less_nat_alt)

lemma ms_width_pos: "ms_asserts m \<Longrightarrow> 0 < ms_width m"
  by (simp add: ms_asserts_def)

lemma ms_instances_pos: "ms_asserts m \<Longrightarrow> 0 < unat (ms_instances m)"
  by (simp add: ms_asserts_def word_less_nat_alt)

lemma of_nat_ms_size: "(of_nat (ms_size m) :: u64) = ucast (ms_width m) * ucast (ms_slots m)"
  by (simp add: ms_size_def)

lemma unat_ms_size [word_nat]:
  assumes "ms_fits m"
  shows "unat (ucast (ms_width m) * ucast (ms_slots m) :: u64) = ms_size m"
    and "unat (ms_width m * ms_slots m) = ms_size m"
proof -
  have "ms_size m < 4294967296" using assms by (simp add: ms_fits_def)
  then show "unat (ucast (ms_width m) * ucast (ms_slots m) :: u64) = ms_size m"
    by (subst of_nat_ms_size [symmetric]) (simp only: unat_of_nat_u64)
  from \<open>ms_size m < _\<close> show "unat (ms_width m * ms_slots m) = ms_size m"
    by (simp add: ms_size_def word_nat)
qed

text \<open>The last position and the last stripe id over the naturals.\<close>

lemma ms_max_nat:
  assumes "ms_asserts m" and "ms_fits m"
  shows "unat (ms_max m) + 1 = unat (ms_min m) + unat (ms_instances m) * ms_size m"
proof -
  let ?n = "unat (ms_min m) + unat (ms_instances m) * ms_size m"
  have "ms_max m = of_nat ?n - 1"
    using assms(1) by (simp add: ms_asserts_def of_nat_ms_size mult.assoc)
  moreover have "0 < ?n" using ms_size_pos [OF assms(1)] ms_instances_pos [OF assms(1)] by simp
  moreover have "?n \<le> 18446744073709551616" using assms(2) by (simp add: ms_fits_def)
  ultimately show ?thesis by (simp only: unat_of_nat_pred)
qed

lemma ms_max_stripe_id_nat:
  assumes "ms_asserts m" and "ms_fits m"
  shows "unat (ms_max_stripe_id m) + 1 = unat (ms_base_id m) + unat (ms_instances m)"
proof -
  let ?n = "unat (ms_base_id m) + unat (ms_instances m)"
  have "ms_max_stripe_id m = of_nat ?n - 1" by (simp add: ms_max_stripe_id_def)
  moreover have "0 < ?n" using ms_instances_pos [OF assms(1)] by simp
  moreover have "?n \<le> 18446744073709551616" using assms(2) by (simp add: ms_fits_def)
  ultimately show ?thesis by (simp only: unat_of_nat_pred)
qed

text \<open>Growing by one instance: the constructor's assertions hold again.\<close>

definition ms_extended :: "multi_stripe \<Rightarrow> multi_stripe" where
  "ms_extended m = m\<lparr>ms_instances := ms_instances m + 1,
     ms_max := ms_max m + ucast (ms_width m) * ucast (ms_slots m)\<rparr>"

lemma ms_extend_some:
  assumes "ms_asserts m" and "ms_fits m"
    and "unat (ms_min m) + (unat (ms_instances m) + 1) * ms_size m \<le> 2 ^ 64"
    and "unat (ms_base_id m) + unat (ms_instances m) + 1 < 2 ^ 64"
  shows "ms_extend m = Some (ms_extended m) \<and> ms_asserts (ms_extended m) \<and> ms_fits (ms_extended m)
    \<and> unat (ms_instances (ms_extended m)) = unat (ms_instances m) + 1"
proof -
  have inst: "unat (ms_instances m + 1) = unat (ms_instances m) + 1"
    using assms(4) by (simp add: unat_add_u64)
  have size: "ms_size (ms_extended m) = ms_size m" by (simp add: ms_size_def ms_extended_def)
  have fits: "ms_fits (ms_extended m)"
    using assms by (simp add: ms_fits_def size) (simp add: ms_extended_def inst)
  have max: "unat (ms_max (ms_extended m)) = unat (ms_max m) + ms_size m"
  proof -
    have "unat (ms_max m) + unat (ucast (ms_width m) * ucast (ms_slots m) :: u64) < 18446744073709551616"
      using ms_max_nat [OF assms(1,2)] assms(3)
      by (simp only: unat_ms_size [OF assms(2)]) (simp add: algebra_simps)
    then show ?thesis by (simp add: ms_extended_def unat_add_u64 unat_ms_size [OF assms(2)])
  qed
  have "ms_asserts (ms_extended m)"
    unfolding ms_asserts_def
  proof (intro conjI)
    show "0 < ms_instances (ms_extended m)"
      by (simp add: ms_extended_def word_less_nat_alt inst)
    have "ms_min m \<le> ms_max m" using assms(1) unfolding ms_asserts_def by blast
    then have "unat (ms_min m) \<le> unat (ms_max (ms_extended m))"
      unfolding max word_le_nat_alt by simp
    then show "ms_min (ms_extended m) \<le> ms_max (ms_extended m)"
      by (simp add: word_le_nat_alt) (simp add: ms_extended_def)
  qed (use assms(1) in \<open>auto simp: ms_asserts_def ms_extended_def algebra_simps\<close>)
  moreover have "\<lparr>ms_base_id = ms_base_id m, ms_width = ms_width m, ms_slots = ms_slots m,
      ms_min = ms_min m, ms_instances = ms_instances m + 1,
      ms_max = ms_max m + ucast (ms_width m) * ucast (ms_slots m)\<rparr> = ms_extended m"
    by (cases m) (simp add: ms_extended_def)
  ultimately have "ms_extend m = Some (ms_extended m)"
    by (simp only: ms_extend_def multi_stripe_new_def Let_def if_True)
  with \<open>ms_asserts (ms_extended m)\<close> fits inst show ?thesis by (simp add: ms_extended_def)
qed

text \<open>The \<open>k\<close>-th stripe of a multi-stripe covers the \<open>k\<close>-th block of \<open>ms_size\<close> positions.\<close>

lemma stripe_new_some:
  assumes "0 < w" and "if 0 < i then 0 < mn else mn = 0"
    and "unat mx + 1 = unat mn + k * unat w" and "0 < k"
  shows "stripe_new i w mn mx =
    Some \<lparr>st_id = i, st_width = w, st_min = mn, st_max = mx, st_oids = make_oids i w\<rparr>"
proof -
  have w: "0 < unat w" using assms(1) by (simp add: word_less_nat_alt)
  have kw: "unat w \<le> k * unat w" using assms(4) by simp
  then have le: "unat mn \<le> unat mx" using assms(3) w by linarith
  then have sub: "unat (mx - mn) = unat mx - unat mn" by (simp add: unat_sub word_le_nat_alt)
  have "unat (mx - mn) + 1 = k * unat w" unfolding sub using assms(3) le by simp
  moreover have "mx - mn + 1 = of_nat (unat (mx - mn) + 1)" by simp
  ultimately have len: "mx - mn + 1 = of_nat k * ucast w"
    by (simp only: of_nat_mult of_nat_unat_u32)
  have "(mx - mn + 1) mod ucast w = 0"
  proof (cases "k * unat w < 18446744073709551616")
    case True
    then have "unat (of_nat (k * unat w) :: u64) = k * unat w" by (intro unat_of_nat_u64) simp
    then have "unat (of_nat k * ucast w :: u64) = k * unat w"
      by (simp only: of_nat_mult of_nat_unat_u32)
    then show ?thesis by (simp add: len u64_eq_iff unat_mod)
  next
    case False
    then have "k * unat w = 18446744073709551616"
      using assms(3) unat_u64_bound [of mx] by linarith
    then have "(of_nat (k * unat w) :: u64) = 0" by simp
    then have "(of_nat k * ucast w :: u64) = 0" by (simp only: of_nat_mult of_nat_unat_u32)
    then show ?thesis by (simp add: len)
  qed
  moreover have "mn + ucast w - 1 \<le> mx"
  proof -
    have "mn + ucast w - 1 = of_nat (unat mn + unat w) - 1" by simp
    moreover have "unat (of_nat (unat mn + unat w) - 1 :: u64) = unat mn + unat w - 1"
      using assms(3) kw w unat_u64_bound [of mx] by (intro unat_of_nat_pred) linarith+
    ultimately have "unat (mn + ucast w - 1) = unat mn + unat w - 1" by (simp only:)
    then have "unat (mn + ucast w - 1) \<le> unat mx" using assms(3) kw by linarith
    then show ?thesis by (simp add: word_le_nat_alt)
  qed
  moreover have "mn \<le> mx" using le by (simp add: word_le_nat_alt)
  ultimately show ?thesis using assms(1,2) by (simp add: stripe_new_def)
qed

lemma ms_stripe_by_id_some:
  assumes ok: "ms_asserts m" and fits: "ms_fits m"
    and lo: "unat (ms_base_id m) \<le> unat i"
    and hi: "unat i < unat (ms_base_id m) + unat (ms_instances m)"
  defines "k \<equiv> unat i - unat (ms_base_id m)"
  obtains s where "ms_stripe_by_id m i = Some s" and "st_id s = i" and "st_width s = ms_width m"
    and "st_oids s = make_oids i (ms_width m)"
    and "unat (st_min s) = unat (ms_min m) + k * ms_size m"
    and "unat (st_max s) + 1 = unat (ms_min m) + (k + 1) * ms_size m"
proof -
  let ?sz = "ucast (ms_width m) * ucast (ms_slots m) :: u64"
  let ?off = "i - ms_base_id m"
  let ?mn = "ms_min m + ?off * ?sz"
  let ?mx = "?mn + ?sz - 1"
  have size: "0 < ms_size m" by (rule ms_size_pos [OF ok])
  have range: "unat (ms_min m) + unat (ms_instances m) * ms_size m \<le> 18446744073709551616"
    using fits by (simp add: ms_fits_def)
  have off: "unat ?off = k" using lo by (simp add: k_def unat_sub word_le_nat_alt)
  have kn: "k < unat (ms_instances m)" using lo hi by (simp add: k_def)
  then have kle: "(k + 1) * ms_size m \<le> unat (ms_instances m) * ms_size m"
    by (intro mult_le_mono1) simp
  have mn_eq: "?mn = of_nat (unat (ms_min m) + k * ms_size m)"
    by (simp add: of_nat_ms_size flip: off)
  have mn: "unat ?mn = unat (ms_min m) + k * ms_size m"
    unfolding mn_eq using range kle size by (intro unat_of_nat_u64) (simp add: algebra_simps)
  have mx_eq: "?mx = of_nat (unat (ms_min m) + (k + 1) * ms_size m) - 1"
    unfolding mn_eq by (simp add: of_nat_ms_size algebra_simps)
  have mx: "unat ?mx + 1 = unat (ms_min m) + (k + 1) * ms_size m"
    unfolding mx_eq using range kle size by (subst unat_of_nat_pred) (simp_all add: algebra_simps)
  have maxid: "i \<le> ms_max_stripe_id m"
    using ms_max_stripe_id_nat [OF ok fits] hi by (simp add: word_le_nat_alt)
  have new: "stripe_new i (ms_width m) ?mn ?mx =
    Some \<lparr>st_id = i, st_width = ms_width m, st_min = ?mn, st_max = ?mx,
      st_oids = make_oids i (ms_width m)\<rparr>"
  proof (rule stripe_new_some)
    show "if 0 < i then 0 < ?mn else ?mn = 0"
    proof (cases "0 < ms_base_id m")
      case True
      then have "0 < unat (ms_min m)" using ok by (auto simp: ms_asserts_def word_less_nat_alt)
      moreover have "0 < i" using True lo by (simp add: word_less_nat_alt)
      ultimately show ?thesis using mn by (simp add: word_less_nat_alt)
    next
      case False
      then have base: "ms_base_id m = 0" by (simp add: word_gt_0)
      then have "ms_min m = 0" using ok unfolding ms_asserts_def by simp
      then show ?thesis
        using base mn size k_def by (cases "i = 0") (auto simp: word_gt_0 unat_eq_zero)
    qed
    show "unat ?mx + 1 = unat ?mn + unat (ms_slots m) * unat (ms_width m)"
      unfolding mx mn by (simp add: ms_size_def algebra_simps)
    show "0 < unat (ms_slots m)" using ok by (auto simp: ms_asserts_def word_less_nat_alt)
  qed (rule ms_width_pos [OF ok])
  have "ms_min m \<le> ?mn" using mn by (simp add: word_le_nat_alt)
  moreover have "?mx \<le> ms_max m"
    using mx ms_max_nat [OF ok fits] kle by (simp add: word_le_nat_alt)
  moreover have "?off < ms_instances m" using off kn by (simp add: word_less_nat_alt)
  moreover have "0 < ?sz" using size by (simp add: word_less_nat_alt unat_ms_size [OF fits])
  moreover have "ms_base_id m \<le> i" using lo by (simp add: word_le_nat_alt)
  ultimately have "ms_stripe_by_id m i = Some \<lparr>st_id = i, st_width = ms_width m, st_min = ?mn,
      st_max = ?mx, st_oids = make_oids i (ms_width m)\<rparr>"
    using maxid new by (simp add: ms_stripe_by_id_def Let_def)
  then show ?thesis by (rule that) (simp_all only: stripe.simps mn mx)
qed

lemma ms_decode_encode: "ms_asserts m \<Longrightarrow> ms_decode (ms_encode m) = Some m"
  by (cases m) (simp add: ms_decode_def ms_encode_def multi_stripe_new_def)

end
