(* ===== verification/Options.thy ===== *)
theory Options
  imports Prelude
begin

text \<open>
  The structure \<^verbatim>\<open>Options\<close> of \<^verbatim>\<open>include/zlog/options.h\<close> with its default values: the fields
  the modelled code reads. The backend handle and its loader options are the arguments of the
  operations that use them; the statistics pointer and the HTTP endpoint list are not read by
  the modelled code.
\<close>

datatype eviction_policy = LRU | ARC

record options =
  create_if_missing :: bool
  error_if_exists :: bool
  create_initial_view_stripes :: bool
  init_stripe_on_create :: bool
  stripe_width :: u32
  stripe_slots :: u32
  max_inflight_ops :: u32
  min_refresh_timeout_ms :: int
  max_refresh_timeout_ms :: int
  finisher_threads :: int
  eviction :: eviction_policy
  cache_size :: nat

definition default_options :: options where
  "default_options = \<lparr>create_if_missing = False, error_if_exists = False,
     create_initial_view_stripes = True, init_stripe_on_create = True,
     stripe_width = 10, stripe_slots = 5, max_inflight_ops = 1024,
     min_refresh_timeout_ms = 125, max_refresh_timeout_ms = 5000, finisher_threads = 10,
     eviction = LRU, cache_size = 1024 * 1024 * 1\<rparr>"

text \<open>The stripe shape an option set asks for does not overflow the 32-bit product.\<close>

definition stripe_options_ok :: "options \<Rightarrow> bool" where
  "stripe_options_ok opts \<longleftrightarrow> 0 < stripe_width opts \<and> 0 < stripe_slots opts
     \<and> unat (stripe_width opts) * unat (stripe_slots opts) < 2 ^ 32"

lemma default_stripe_options_ok: "stripe_options_ok default_options"
  by (simp add: stripe_options_ok_def default_options_def)

end
