(* ===== verification/Object_Map.thy ===== *)
theory Object_Map
  imports Stripe Options
begin

text \<open>
  The class \<^verbatim>\<open>ObjectMap\<close> of \<^verbatim>\<open>libzlog/object_map.h\<close> and \<^verbatim>\<open>libzlog/object_map.cc\<close>: the map from
  log positions to storage objects. The model keeps both indexes of the class. A failed
  assertion, \<^verbatim>\<open>std::prev\<close> of \<^verbatim>\<open>begin()\<close> and a division by a stripe size that wrapped to zero
  are \<^const>\<open>None\<close>.
\<close>

section \<open>The class\<close>

record object_map =
  next_stripe_id :: u64
  stripes_by_pos :: "(u64, multi_stripe) smap"
  stripes_by_id :: "(u64, multi_stripe) smap"
  min_valid_position :: u64

text \<open>\<^verbatim>\<open>valid()\<close>: the four blocks of the method in order.\<close>

fun valid_index ::
  "(u64, multi_stripe) smap \<Rightarrow> (u64, multi_stripe) smap \<Rightarrow> (u64, multi_stripe) smap option" where
  "valid_index tmp [] = Some tmp"
| "valid_index tmp ((k, s) # rest) =
     (let (tmp', inserted) = smap_emplace (ms_base_id s) s tmp
      in if \<not> inserted then None
         else if k \<noteq> ms_min s then None
         else valid_index tmp' rest)"

fun valid_adjacent :: "(u64, multi_stripe) smap \<Rightarrow> bool" where
  "valid_adjacent ((k, p) # (k', s) # rest) =
     (if ms_max p + 1 \<noteq> k' then False
      else if ms_max_stripe_id p + 1 \<noteq> ms_base_id s then False
      else valid_adjacent ((k', s) # rest))"
| "valid_adjacent _ = True"

definition om_valid :: "object_map \<Rightarrow> bool" where
  "om_valid om \<longleftrightarrow>
     (case valid_index [] (stripes_by_pos om) of
        None \<Rightarrow> False | Some tmp \<Rightarrow> stripes_by_id om = tmp)
   \<and> (if stripes_by_pos om \<noteq> []
      then next_stripe_id om = ms_max_stripe_id (snd (last (stripes_by_pos om))) + 1
      else next_stripe_id om = 0)
   \<and> (if stripes_by_pos om \<noteq> []
      then fst (hd (stripes_by_pos om)) = 0 \<and> ms_base_id (snd (hd (stripes_by_pos om))) = 0
      else True)
   \<and> valid_adjacent (stripes_by_pos om)"

definition om_new :: "u64 \<Rightarrow> (u64, multi_stripe) smap \<Rightarrow> u64 \<Rightarrow> object_map option" where
  "om_new next_id stripes min_valid =
     (let by_id = fold (\<lambda>e acc. fst (smap_emplace (ms_base_id (snd e)) (snd e) acc)) stripes [];
          om = \<lparr>next_stripe_id = next_id, stripes_by_pos = stripes, stripes_by_id = by_id,
                min_valid_position = min_valid\<rparr>
      in if om_valid om then Some om else None)"

definition om_empty :: "object_map \<Rightarrow> bool" where
  "om_empty om \<longleftrightarrow> stripes_by_pos om = []"

definition num_stripes :: "object_map \<Rightarrow> u64" where
  "num_stripes om = next_stripe_id om"

definition om_max_position :: "object_map \<Rightarrow> u64 option" where
  "om_max_position om =
     (if stripes_by_pos om = [] then None else Some (ms_max (snd (last (stripes_by_pos om)))))"

definition om_stripe_by_id :: "object_map \<Rightarrow> u64 \<Rightarrow> stripe option" where
  "om_stripe_by_id om stripe_id =
     (if stripes_by_id om = [] then None
      else case prev_it (upper_bound stripe_id (stripes_by_id om)) of
        None \<Rightarrow> None
      | Some it \<Rightarrow>
          (let (k, s) = stripes_by_id om ! it
           in if k \<le> stripe_id \<and> stripe_id \<le> ms_max_stripe_id s
              then ms_stripe_by_id s stripe_id else None))"

definition om_map :: "object_map \<Rightarrow> u64 \<Rightarrow> (string option \<times> bool) option" where
  "om_map om position =
     (if stripes_by_pos om \<noteq> [] then
        case prev_it (upper_bound position (stripes_by_pos om)) of
          None \<Rightarrow> None
        | Some it \<Rightarrow>
            (let (k, s) = stripes_by_pos om ! it
             in if \<not> k \<le> position then None
                else if position \<le> ms_max s then
                  let stripe_pos = position - k;
                      stripe_size = ms_width s * ms_slots s
                  in if stripe_size = 0 then None
                     else let stripe_instance = stripe_pos div ucast stripe_size;
                              stripe_id = ms_base_id s + stripe_instance
                          in case ms_map s stripe_id position of
                               None \<Rightarrow> None
                             | Some oid \<Rightarrow>
                                 let last_stripe = (Suc it = length (stripes_by_pos om)
                                       \<and> stripe_id = ms_max_stripe_id s)
                                 in Some (Some oid, last_stripe)
                else Some (None, False))
      else Some (None, False))"

definition om_map_stripe :: "object_map \<Rightarrow> u64 \<Rightarrow> stripe option option" where
  "om_map_stripe om position =
     (if stripes_by_pos om \<noteq> [] then
        case prev_it (upper_bound position (stripes_by_pos om)) of
          None \<Rightarrow> None
        | Some it \<Rightarrow>
            (let (k, s) = stripes_by_pos om ! it
             in if \<not> k \<le> position then None
                else if position \<le> ms_max s then
                  let stripe_pos = position - k;
                      stripe_size = ms_width s * ms_slots s
                  in if stripe_size = 0 then None
                     else let stripe_instance = stripe_pos div ucast stripe_size;
                              stripe_id = ms_base_id s + stripe_instance
                          in map_option Some (om_stripe_by_id om stripe_id)
                else Some None)
      else Some None)"

text \<open>\<^verbatim>\<open>map_to\<close>: the loop over the objects of one stripe, and the step of the iteration. The result
  is the optional object list together with the new values of \<^verbatim>\<open>stripe_id\<close> and \<^verbatim>\<open>done\<close>.\<close>

definition map_to_objects :: "stripe \<Rightarrow> u64 \<Rightarrow> (string \<times> bool) list" where
  "map_to_objects s position =
     (let max_pos_base = st_max s - ucast (st_width s - 1)
      in concat (map (\<lambda>i.
           if max_pos_base + of_nat i \<le> position then [(st_oids s ! i, True)]
           else if st_min s + of_nat i \<le> position then [(st_oids s ! i, False)]
           else []) [0..<unat (st_width s)]))"

definition om_map_to ::
  "object_map \<Rightarrow> u64 \<Rightarrow> u64 \<Rightarrow> bool \<Rightarrow> ((string \<times> bool) list option \<times> u64 \<times> bool) option" where
  "om_map_to om position stripe_id done =
     Option.bind (om_map om position) (\<lambda>(oid, _).
       if oid = None then Some (None, stripe_id, done)
       else if done then None
       else if num_stripes om \<le> stripe_id then Some (Some [], stripe_id, True)
       else Option.bind (om_stripe_by_id om stripe_id) (\<lambda>s.
         if position < st_min s then Some (Some [], stripe_id + 1, done)
         else Some (Some (map_to_objects s position), stripe_id + 1, done)))"

text \<open>\<^verbatim>\<open>expand_mapping\<close>: one iteration of the loop, and the loop. \<^const>\<open>None\<close> also stands for a loop
  that does not end.\<close>

definition expand_step ::
  "options \<Rightarrow> u64 \<Rightarrow> (u64, multi_stripe) smap \<Rightarrow> (u64, multi_stripe) smap option" where
  "expand_step opts stripe_id stripes =
     (if stripes \<noteq> [] then
        let (k, s) = last stripes
        in Option.bind (ms_extend s) (\<lambda>new_stripe.
             if ms_min new_stripe = k \<and> ms_max_stripe_id new_stripe = stripe_id
             then Some (fst (smap_emplace (ms_min new_stripe) new_stripe (butlast stripes)))
             else None)
      else
        let width = stripe_width opts; slots = stripe_slots opts;
            max_position = ucast (width * slots - 1)
        in Option.bind (multi_stripe_new stripe_id width slots 0 1 max_position) (\<lambda>s.
             if stripe_id = 0 then Some (fst (smap_emplace 0 s stripes)) else None))"

partial_function (option) expand_loop ::
  "options \<Rightarrow> u64 \<Rightarrow> u64 \<Rightarrow> u64 \<Rightarrow> (u64, multi_stripe) smap \<Rightarrow> object_map option" where
  "expand_loop opts position min_valid next_id stripes =
     Option.bind (expand_step opts next_id stripes) (\<lambda>stripes'.
     Option.bind (om_new (next_id + 1) stripes' min_valid) (\<lambda>new_object_map.
     Option.bind (om_map new_object_map position) (\<lambda>r.
       if fst r \<noteq> None then Some new_object_map
       else expand_loop opts position min_valid (next_id + 1) stripes')))"

declare expand_loop.simps [code]

definition om_expand_mapping :: "object_map \<Rightarrow> u64 \<Rightarrow> options \<Rightarrow> object_map option option" where
  "om_expand_mapping om position opts =
     Option.bind (om_map om position) (\<lambda>r.
       if fst r \<noteq> None then Some None
       else map_option Some
         (expand_loop opts position (min_valid_position om) (next_stripe_id om) (stripes_by_pos om)))"

definition om_advance_min_valid_position :: "object_map \<Rightarrow> u64 \<Rightarrow> object_map option option" where
  "om_advance_min_valid_position om position =
     (if position \<le> min_valid_position om then Some None
      else map_option Some (om_new (next_stripe_id om) (stripes_by_pos om) position))"

text \<open>The FlatBuffers table \<^verbatim>\<open>ObjectMap\<close> (the vector may be absent) and the two conversions.\<close>

record fbs_object_map =
  fom_next_stripe_id :: u64
  fom_stripes :: "fbs_multi_stripe list option"
  fom_min_valid_position :: u64

definition om_encode :: "object_map \<Rightarrow> fbs_object_map option" where
  "om_encode om =
     (if \<forall>e\<in>set (stripes_by_pos om). ms_min (snd e) = fst e
      then Some \<lparr>fom_next_stripe_id = next_stripe_id om,
                 fom_stripes = Some (map (\<lambda>e. ms_encode (snd e)) (stripes_by_pos om)),
                 fom_min_valid_position = min_valid_position om\<rparr>
      else None)"

fun decode_stripes ::
  "(u64, multi_stripe) smap \<Rightarrow> fbs_multi_stripe list \<Rightarrow> (u64, multi_stripe) smap option" where
  "decode_stripes acc [] = Some acc"
| "decode_stripes acc (t # ts) =
     Option.bind (ms_decode t) (\<lambda>s.
       let (acc', inserted) = smap_emplace (ms_min s) s acc
       in if inserted then decode_stripes acc' ts else None)"

definition om_decode :: "fbs_object_map option \<Rightarrow> object_map option" where
  "om_decode object_map =
     Option.bind object_map (\<lambda>t.
     Option.bind (case fom_stripes t of None \<Rightarrow> Some [] | Some vs \<Rightarrow> decode_stripes [] vs) (\<lambda>stripes.
       om_new (fom_next_stripe_id t) stripes (fom_min_valid_position t)))"

section \<open>Layout over the natural numbers\<close>

text \<open>
  The declarative reading of \<open>om_valid\<close>: the multi-stripes tile the positions and the stripe ids
  from 0 without gaps. \<open>ms_locate\<close> is the reference search: the first multi-stripe whose range
  holds the position gives the stripe id and the index of the object within the stripe.
\<close>

definition ms_span :: "multi_stripe \<Rightarrow> nat" where
  "ms_span s = unat (ms_instances s) * ms_size s"

fun ms_chain :: "nat \<Rightarrow> nat \<Rightarrow> (u64, multi_stripe) smap \<Rightarrow> bool" where
  "ms_chain p i [] = True"
| "ms_chain p i ((k, s) # rest) \<longleftrightarrow> k = ms_min s \<and> unat (ms_min s) = p \<and> unat (ms_base_id s) = i
     \<and> ms_asserts s \<and> ms_fits s
     \<and> ms_chain (p + ms_span s) (i + unat (ms_instances s)) rest"

definition chain_span :: "(u64, multi_stripe) smap \<Rightarrow> nat" where
  "chain_span xs = (\<Sum>e\<leftarrow>xs. ms_span (snd e))"

definition chain_ids :: "(u64, multi_stripe) smap \<Rightarrow> nat" where
  "chain_ids xs = (\<Sum>e\<leftarrow>xs. unat (ms_instances (snd e)))"

definition id_index :: "(u64, multi_stripe) smap \<Rightarrow> (u64, multi_stripe) smap" where
  "id_index xs = map (\<lambda>e. (ms_base_id (snd e), snd e)) xs"

definition in_range :: "multi_stripe \<Rightarrow> nat \<Rightarrow> bool" where
  "in_range s q \<longleftrightarrow> unat (ms_min s) \<le> q \<and> q < unat (ms_min s) + ms_span s"

definition slot_of :: "multi_stripe \<Rightarrow> nat \<Rightarrow> nat \<times> nat" where
  "slot_of s q =
     (unat (ms_base_id s) + (q - unat (ms_min s)) div ms_size s, q mod unat (ms_width s))"

fun ms_locate :: "(u64, multi_stripe) smap \<Rightarrow> nat \<Rightarrow> (nat \<times> nat) option" where
  "ms_locate [] q = None"
| "ms_locate ((k, s) # rest) q = (if in_range s q then Some (slot_of s q) else ms_locate rest q)"

lemma chain_span_simps [simp]:
  "chain_span [] = 0" "chain_span (e # xs) = ms_span (snd e) + chain_span xs"
  "chain_span (xs @ ys) = chain_span xs + chain_span ys"
  by (simp_all add: chain_span_def)

lemma chain_ids_simps [simp]:
  "chain_ids [] = 0" "chain_ids (e # xs) = unat (ms_instances (snd e)) + chain_ids xs"
  "chain_ids (xs @ ys) = chain_ids xs + chain_ids ys"
  by (simp_all add: chain_ids_def)

lemma ms_span_pos: "ms_asserts s \<Longrightarrow> 0 < ms_span s"
  by (simp add: ms_span_def ms_size_pos ms_instances_pos)

lemma ms_chain_append:
  "ms_chain p i (xs @ ys) \<longleftrightarrow> ms_chain p i xs \<and> ms_chain (p + chain_span xs) (i + chain_ids xs) ys"
  by (induction p i xs rule: ms_chain.induct) (auto simp: algebra_simps)

lemma ms_chain_nth:
  assumes "ms_chain p i xs" and "j < length xs"
  shows "fst (xs ! j) = ms_min (snd (xs ! j))"
    and "unat (ms_min (snd (xs ! j))) = p + chain_span (take j xs)"
    and "unat (ms_base_id (snd (xs ! j))) = i + chain_ids (take j xs)"
    and "ms_asserts (snd (xs ! j))" and "ms_fits (snd (xs ! j))"
proof -
  have "xs = take j xs @ xs ! j # drop (Suc j) xs" by (rule id_take_nth_drop [OF assms(2)])
  then have "ms_chain (p + chain_span (take j xs)) (i + chain_ids (take j xs))
      (xs ! j # drop (Suc j) xs)"
    using assms(1) by (metis ms_chain_append)
  then show "fst (xs ! j) = ms_min (snd (xs ! j))"
    and "unat (ms_min (snd (xs ! j))) = p + chain_span (take j xs)"
    and "unat (ms_base_id (snd (xs ! j))) = i + chain_ids (take j xs)"
    and "ms_asserts (snd (xs ! j))" and "ms_fits (snd (xs ! j))"
    by (cases "xs ! j"; simp)+
qed

lemma chain_span_take_Suc:
  "j < length xs \<Longrightarrow> chain_span (take (Suc j) xs) = chain_span (take j xs) + ms_span (snd (xs ! j))"
  by (simp add: take_Suc_conv_app_nth)

lemma chain_ids_take_Suc:
  "j < length xs \<Longrightarrow>
   chain_ids (take (Suc j) xs) = chain_ids (take j xs) + unat (ms_instances (snd (xs ! j)))"
  by (simp add: take_Suc_conv_app_nth)

lemma chain_span_take_mono: "i \<le> j \<Longrightarrow> chain_span (take i xs) \<le> chain_span (take j xs)"
proof -
  assume "i \<le> j"
  then have "take j xs = take i xs @ take (j - i) (drop i xs)"
    using take_add [of i "j - i" xs] by simp
  then show ?thesis by (metis chain_span_simps(3) le_add1)
qed

lemma chain_ids_take_mono: "i \<le> j \<Longrightarrow> chain_ids (take i xs) \<le> chain_ids (take j xs)"
proof -
  assume "i \<le> j"
  then have "take j xs = take i xs @ take (j - i) (drop i xs)"
    using take_add [of i "j - i" xs] by simp
  then show ?thesis by (metis chain_ids_simps(3) le_add1)
qed

lemma chain_keys_less:
  assumes "ms_chain p i xs" and "a < b" and "b < length xs"
  shows "unat (ms_min (snd (xs ! a))) + ms_span (snd (xs ! a)) \<le> unat (ms_min (snd (xs ! b)))"
    and "unat (ms_base_id (snd (xs ! a))) + unat (ms_instances (snd (xs ! a)))
      \<le> unat (ms_base_id (snd (xs ! b)))"
proof -
  note na = ms_chain_nth [OF assms(1), of a] and nb = ms_chain_nth [OF assms(1,3)]
  have a: "a < length xs" using assms by simp
  show "unat (ms_min (snd (xs ! a))) + ms_span (snd (xs ! a)) \<le> unat (ms_min (snd (xs ! b)))"
    using chain_span_take_mono [of "Suc a" b xs] chain_span_take_Suc [OF a] na(2) [OF a] nb(2)
      assms(2) by simp
  show "unat (ms_base_id (snd (xs ! a))) + unat (ms_instances (snd (xs ! a)))
      \<le> unat (ms_base_id (snd (xs ! b)))"
    using chain_ids_take_mono [of "Suc a" b xs] chain_ids_take_Suc [OF a] na(3) [OF a] nb(3)
      assms(2) by simp
qed

lemma ms_chain_smap_wf:
  assumes "ms_chain p i xs"
  shows "smap_wf xs" and "smap_wf (id_index xs)"
proof -
  have pos: "fst (xs ! a) < fst (xs ! b) \<and> ms_base_id (snd (xs ! a)) < ms_base_id (snd (xs ! b))"
    if "a < b" "b < length xs" for a b
  proof -
    have a: "a < length xs" using that by simp
    note na = ms_chain_nth [OF assms a] and nb = ms_chain_nth [OF assms that(2)]
    have "0 < ms_span (snd (xs ! a))" "0 < unat (ms_instances (snd (xs ! a)))"
      using na(4) by (simp_all add: ms_span_pos ms_instances_pos)
    then show ?thesis
      using chain_keys_less [OF assms that] na(1) nb(1) by (simp add: word_less_nat_alt)
  qed
  then show "smap_wf xs" by (simp add: smap_wf_def sorted_wrt_iff_nth_less)
  from pos show "smap_wf (id_index xs)"
    by (simp add: smap_wf_def id_index_def sorted_wrt_iff_nth_less)
qed

section \<open>Well-formed object maps\<close>

definition om_wf :: "object_map \<Rightarrow> bool" where
  "om_wf om \<longleftrightarrow> smap_wf (stripes_by_pos om) \<and> om_valid om
     \<and> (\<forall>e\<in>set (stripes_by_pos om). ms_asserts (snd e) \<and> ms_fits (snd e))"

definition om_span :: "object_map \<Rightarrow> nat" where
  "om_span om = chain_span (stripes_by_pos om)"

definition om_locate :: "object_map \<Rightarrow> nat \<Rightarrow> (nat \<times> nat) option" where
  "om_locate om = ms_locate (stripes_by_pos om)"

definition chain_map :: "u64 \<Rightarrow> (u64, multi_stripe) smap \<Rightarrow> u64 \<Rightarrow> object_map" where
  "chain_map next_id xs mv = \<lparr>next_stripe_id = next_id, stripes_by_pos = xs,
     stripes_by_id = id_index xs, min_valid_position = mv\<rparr>"

lemma valid_index_sorted:
  "smap_wf (tmp @ id_index xs) \<Longrightarrow>
   valid_index tmp xs =
     (if \<forall>e\<in>set xs. fst e = ms_min (snd e) then Some (tmp @ id_index xs) else None)"
proof (induction tmp xs rule: valid_index.induct)
  case (2 tmp k s rest)
  have emp: "smap_emplace (ms_base_id s) s tmp = (tmp @ [(ms_base_id s, s)], True)"
    using "2.prems" by (intro smap_emplace_last)
      (auto simp: smap_wf_def id_index_def sorted_wrt_append)
  have "smap_wf ((tmp @ [(ms_base_id s, s)]) @ id_index rest)"
    using "2.prems" by (simp add: id_index_def)
  with "2.IH" emp show ?case by (auto simp: id_index_def)
qed (simp add: id_index_def)

lemma valid_index_keys: "valid_index tmp xs = Some r \<Longrightarrow> e \<in> set xs \<Longrightarrow> fst e = ms_min (snd e)"
  by (induction tmp xs rule: valid_index.induct) (auto split: prod.splits if_splits)

lemma fold_emplace_sorted:
  "smap_wf (tmp @ id_index xs) \<Longrightarrow>
   fold (\<lambda>e acc. fst (smap_emplace (ms_base_id (snd e)) (snd e) acc)) xs tmp = tmp @ id_index xs"
proof (induction xs arbitrary: tmp)
  case (Cons e xs)
  have emp: "smap_emplace (ms_base_id (snd e)) (snd e) tmp = (tmp @ [(ms_base_id (snd e), snd e)], True)"
    using Cons.prems by (intro smap_emplace_last)
      (auto simp: smap_wf_def id_index_def sorted_wrt_append)
  have "smap_wf ((tmp @ [(ms_base_id (snd e), snd e)]) @ id_index xs)"
    using Cons.prems by (simp add: id_index_def)
  from Cons.IH [OF this] emp show ?case by (simp add: id_index_def)
qed (simp add: id_index_def)

lemma unat_max_Suc:
  assumes "ms_asserts s" and "ms_fits s" and "unat (ms_min s) + ms_span s < 2 ^ 64"
  shows "unat (ms_max s + 1) = unat (ms_min s) + ms_span s"
  using ms_max_nat [OF assms(1,2)] assms(3) by (simp add: ms_span_def unat_add_u64)

lemma unat_max_id_Suc:
  assumes "ms_asserts s" and "ms_fits s"
  shows "unat (ms_max_stripe_id s + 1) = unat (ms_base_id s) + unat (ms_instances s)"
  using ms_max_stripe_id_nat [OF assms] assms(2) by (simp add: ms_fits_def unat_add_u64)

lemma valid_adjacent_chain:
  assumes "valid_adjacent ((k, s) # rest)" and "smap_wf ((k, s) # rest)"
    and "\<forall>e\<in>set ((k, s) # rest). fst e = ms_min (snd e) \<and> ms_asserts (snd e) \<and> ms_fits (snd e)"
  shows "ms_chain (unat (ms_min s)) (unat (ms_base_id s)) ((k, s) # rest)"
  using assms
proof (induction rest arbitrary: k s)
  case (Cons e rest)
  obtain k' s' where e: "e = (k', s')" by (cases e)
  have ok: "ms_asserts s" "ms_fits s" and k: "k = ms_min s" and k': "k' = ms_min s'"
    using Cons.prems(3) e by auto
  have adj: "ms_max s + 1 = k'" "ms_max_stripe_id s + 1 = ms_base_id s'"
    and rest: "valid_adjacent ((k', s') # rest)"
    using Cons.prems(1) e by (auto split: if_splits)
  have "k < k'" using Cons.prems(2) e by (simp add: smap_wf_Cons)
  then have "ms_max s + 1 \<noteq> 0" using adj(1) by (metis word_not_simps(1))
  then have "unat (1 + ms_max s) = Suc (unat (ms_max s))"
    by (intro unatSuc) (simp add: add.commute)
  then have p: "unat (ms_min s') = unat (ms_min s) + ms_span s"
    using adj(1) k' ms_max_nat [OF ok] by (simp add: ms_span_def add.commute)
  have i: "unat (ms_base_id s') = unat (ms_base_id s) + unat (ms_instances s)"
    using unat_max_id_Suc [OF ok] adj(2) by simp
  have "ms_chain (unat (ms_min s')) (unat (ms_base_id s')) ((k', s') # rest)"
    by (rule Cons.IH [OF rest]) (use Cons.prems(2,3) e in \<open>auto simp: smap_wf_Cons\<close>)
  with p i k ok e show ?case by simp
qed simp

lemma chain_valid_adjacent:
  "ms_chain p i xs \<Longrightarrow> valid_adjacent xs"
proof (induction xs arbitrary: p i rule: valid_adjacent.induct)
  case (1 k s k' s' rest)
  have ok: "ms_asserts s" "ms_fits s" and p: "unat (ms_min s') = unat (ms_min s) + ms_span s"
    and i: "unat (ms_base_id s') = unat (ms_base_id s) + unat (ms_instances s)" and k': "k' = ms_min s'"
    using "1.prems" by auto
  have m: "ms_max s + 1 = k'"
    using unat_max_Suc [OF ok] unat_u64_bound [of "ms_min s'"] p k' by (simp add: u64_eq_iff)
  have b: "ms_max_stripe_id s + 1 = ms_base_id s'"
    using unat_max_id_Suc [OF ok] i by (simp add: u64_eq_iff)
  have "ms_chain (p + ms_span s) (i + unat (ms_instances s)) ((k', s') # rest)"
    using "1.prems" by simp
  then have "valid_adjacent ((k', s') # rest)"
    by (rule "1.IH" [rotated 2]) (simp_all add: m b)
  with m b show ?case by simp
qed simp_all

lemma chain_last_id:
  assumes "ms_chain 0 0 xs" and "xs \<noteq> []"
  shows "unat (ms_max_stripe_id (snd (last xs)) + 1) = chain_ids xs"
proof -
  obtain ys e where xs: "xs = ys @ [e]" using assms(2) by (cases xs rule: rev_cases) auto
  obtain k s where e: "e = (k, s)" by (cases e)
  have "ms_chain (chain_span ys) (chain_ids ys) [(k, s)]"
    using assms(1) by (simp add: xs e ms_chain_append)
  then show ?thesis using unat_max_id_Suc [of s] by (simp add: xs e)
qed

text \<open>The constructor's assertion \<^verbatim>\<open>valid()\<close> holds exactly for the tilings.\<close>

lemma om_new_chain:
  assumes "ms_chain 0 0 xs" and "unat next_id = chain_ids xs"
  shows "om_new next_id xs mv = Some (chain_map next_id xs mv)" and "om_wf (chain_map next_id xs mv)"
proof -
  note wf = ms_chain_smap_wf [OF assms(1)]
  have mem: "fst e = ms_min (snd e) \<and> ms_asserts (snd e) \<and> ms_fits (snd e)" if "e \<in> set xs" for e
    using that ms_chain_nth [OF assms(1)] by (metis in_set_conv_nth)
  have valid: "om_valid (chain_map next_id xs mv)"
  proof (cases "xs = []")
    case True
    then have "next_id = 0" using assms(2) by (simp add: unat_eq_zero)
    with True show ?thesis by (simp add: om_valid_def chain_map_def id_index_def)
  next
    case False
    then have "next_id = ms_max_stripe_id (snd (last xs)) + 1"
      using chain_last_id [OF assms(1)] assms(2) by (simp add: u64_eq_iff)
    moreover have "fst (hd xs) = 0" "ms_base_id (snd (hd xs)) = 0"
      using False assms(1) by (cases xs; auto simp: unat_eq_zero)+
    ultimately show ?thesis
      using False by (simp add: om_valid_def chain_map_def valid_index_sorted wf mem
        chain_valid_adjacent [OF assms(1)])
  qed
  then show "om_new next_id xs mv = Some (chain_map next_id xs mv)"
    using fold_emplace_sorted [of "[]" xs] wf(2) by (simp add: om_new_def chain_map_def)
  show "om_wf (chain_map next_id xs mv)"
    using valid wf(1) mem by (simp add: om_wf_def) (simp add: chain_map_def)
qed

lemma om_wf_chain:
  assumes "om_wf om"
  shows "ms_chain 0 0 (stripes_by_pos om)" and "stripes_by_id om = id_index (stripes_by_pos om)"
    and "unat (next_stripe_id om) = chain_ids (stripes_by_pos om)"
proof -
  let ?xs = "stripes_by_pos om"
  have wf: "smap_wf ?xs" and valid: "om_valid om"
    and ok: "\<forall>e\<in>set ?xs. ms_asserts (snd e) \<and> ms_fits (snd e)"
    using assms by (auto simp: om_wf_def)
  obtain tmp where tmp: "valid_index [] ?xs = Some tmp" "stripes_by_id om = tmp"
    using valid by (auto simp: om_valid_def split: option.splits)
  have keys: "fst e = ms_min (snd e)" if "e \<in> set ?xs" for e
    using valid_index_keys [OF tmp(1) that] .
  show chain: "ms_chain 0 0 ?xs"
  proof (cases ?xs)
    case (Cons e rest)
    obtain k s where e: "e = (k, s)" by (cases e)
    have "valid_adjacent ((k, s) # rest)" "k = 0" "ms_base_id s = 0"
      using valid Cons e by (auto simp: om_valid_def split: if_splits)
    moreover have "k = ms_min s" using keys [of "(k, s)"] Cons e by simp
    ultimately show ?thesis
      using valid_adjacent_chain [of k s rest] wf ok keys Cons e by auto
  qed simp
  show "stripes_by_id om = id_index ?xs"
    using tmp valid_index_sorted [of "[]" ?xs] ms_chain_smap_wf(2) [OF chain] by (simp split: if_splits)
  show "unat (next_stripe_id om) = chain_ids ?xs"
    using valid chain_last_id [OF chain] by (auto simp: om_valid_def split: if_splits)
qed

section \<open>Looking a position up\<close>

lemma chain_find:
  "ms_chain p i xs \<Longrightarrow> p \<le> q \<Longrightarrow> q < p + chain_span xs \<Longrightarrow>
   \<exists>j < length xs. in_range (snd (xs ! j)) q"
proof (induction p i xs rule: ms_chain.induct)
  case (2 p i k s rest)
  show ?case
  proof (cases "q < p + ms_span s")
    case True
    then show ?thesis using "2.prems" by (intro exI [of _ 0]) (auto simp: in_range_def)
  next
    case False
    then obtain j where "j < length rest" "in_range (snd (rest ! j)) q"
      using "2.IH" "2.prems" by auto
    then show ?thesis by (intro exI [of _ "Suc j"]) simp
  qed
qed simp

lemma chain_in_range_unique:
  assumes "ms_chain p i xs" and "a < length xs" and "b < length xs"
    and "in_range (snd (xs ! a)) q" and "in_range (snd (xs ! b)) q"
  shows "a = b"
  using assms chain_keys_less(1) [OF assms(1), of a b] chain_keys_less(1) [OF assms(1), of b a]
  by (cases a b rule: linorder_cases) (auto simp: in_range_def)

lemma ms_locate_nth:
  "ms_chain p i xs \<Longrightarrow> j < length xs \<Longrightarrow> in_range (snd (xs ! j)) q \<Longrightarrow>
   ms_locate xs q = Some (slot_of (snd (xs ! j)) q)"
proof (induction p i xs arbitrary: j rule: ms_chain.induct)
  case (2 p i k s rest)
  show ?case
  proof (cases j)
    case 0
    then show ?thesis using "2.prems" by simp
  next
    case (Suc j')
    then have "\<not> in_range s q"
      using chain_in_range_unique [OF "2.prems"(1), of 0 j q] "2.prems" by auto
    then show ?thesis using Suc "2.IH" [of j'] "2.prems" by simp
  qed
qed simp

lemma ms_locate_None: "ms_locate xs q = None \<longleftrightarrow> (\<forall>e\<in>set xs. \<not> in_range (snd e) q)"
  by (induction xs q rule: ms_locate.induct) auto

lemma chain_in_range_bound:
  assumes "ms_chain 0 i xs" and "j < length xs" and "in_range (snd (xs ! j)) q"
  shows "q < chain_span xs"
proof -
  have "q < chain_span (take j xs) + ms_span (snd (xs ! j))"
    using assms ms_chain_nth(2) [OF assms(1,2)] by (simp add: in_range_def)
  also have "\<dots> = chain_span (take (Suc j) xs)" using assms(2) by (simp add: chain_span_take_Suc)
  also have "\<dots> \<le> chain_span xs" using chain_span_take_mono [of "Suc j" "length xs" xs] assms(2) by simp
  finally show ?thesis .
qed

text \<open>Every position below the span is located, no other is.\<close>

lemma om_locate_dom:
  assumes "om_wf om"
  shows "om_locate om q \<noteq> None \<longleftrightarrow> q < om_span om"
proof
  note chain = om_wf_chain(1) [OF assms]
  assume "om_locate om q \<noteq> None"
  then obtain e where "e \<in> set (stripes_by_pos om)" "in_range (snd e) q"
    by (auto simp: om_locate_def ms_locate_None)
  then show "q < om_span om"
    unfolding om_span_def using chain_in_range_bound [OF chain] by (metis in_set_conv_nth)
next
  note chain = om_wf_chain(1) [OF assms]
  assume "q < om_span om"
  then obtain j where "j < length (stripes_by_pos om)" "in_range (snd (stripes_by_pos om ! j)) q"
    using chain_find [OF chain] by (auto simp: om_span_def)
  then show "om_locate om q \<noteq> None" using ms_locate_nth [OF chain] by (simp add: om_locate_def)
qed

lemma in_range_max:
  assumes "ms_asserts s" and "ms_fits s"
  shows "in_range s (unat q) \<longleftrightarrow> ms_min s \<le> q \<and> q \<le> ms_max s"
  using ms_max_nat [OF assms] by (auto simp: in_range_def ms_span_def word_le_nat_alt)

text \<open>The arithmetic both \<open>om_map\<close> and \<open>om_map_stripe\<close> do on the multi-stripe they find.\<close>

lemma stripe_arith:
  assumes "ms_asserts s" and "ms_fits s" and "in_range s (unat q)"
  defines "i \<equiv> ms_base_id s + (q - ms_min s) div ucast (ms_width s * ms_slots s)"
  shows "ms_width s * ms_slots s \<noteq> 0" and "unat i = fst (slot_of s (unat q))"
    and "unat i < unat (ms_base_id s) + unat (ms_instances s)"
    and "unat (ms_base_id s) \<le> unat i"
    and "ms_map s i q = Some (make_oid i (ms_width s) q)"
proof -
  have size: "unat (ms_width s * ms_slots s) = ms_size s" by (rule unat_ms_size(2) [OF assms(2)])
  then show "ms_width s * ms_slots s \<noteq> 0" using ms_size_pos [OF assms(1)] by auto
  have le: "ms_min s \<le> q" "q \<le> ms_max s" using assms(3) in_range_max [OF assms(1,2)] by auto
  let ?d = "(q - ms_min s) div ucast (ms_width s * ms_slots s) :: u64"
  have d: "unat ?d = (unat q - unat (ms_min s)) div ms_size s"
    using le by (simp add: unat_div unat_sub size)
  have "unat q - unat (ms_min s) < unat (ms_instances s) * ms_size s"
    using assms(3) by (auto simp: in_range_def ms_span_def)
  then have inst: "unat ?d < unat (ms_instances s)" unfolding d by (simp add: less_mult_imp_div_less)
  have "unat (ms_base_id s) + unat ?d < 18446744073709551616"
    using inst assms(2) by (simp add: ms_fits_def)
  then have i: "unat i = unat (ms_base_id s) + unat ?d" unfolding i_def by (rule unat_add_u64)
  then show "unat i = fst (slot_of s (unat q))" by (simp add: slot_of_def d)
  show hi: "unat i < unat (ms_base_id s) + unat (ms_instances s)" and lo: "unat (ms_base_id s) \<le> unat i"
    using i inst by simp_all
  show "ms_map s i q = Some (make_oid i (ms_width s) q)"
    using le lo hi ms_max_stripe_id_nat [OF assms(1,2)] by (simp add: ms_map_def word_le_nat_alt)
qed

lemma chain_upper_bound:
  assumes "ms_chain 0 0 xs" and "j < length xs" and "in_range (snd (xs ! j)) (unat q)"
  shows "upper_bound q xs = Suc j"
proof (rule prev_upper_bound_unique [OF ms_chain_smap_wf(1) [OF assms(1)] assms(2)])
  show "fst (xs ! j) \<le> q"
    using assms(3) ms_chain_nth(1) [OF assms(1,2)] by (simp add: in_range_def word_le_nat_alt)
  fix b assume "j < b" "b < length xs"
  then show "q < fst (xs ! b)"
    using chain_keys_less(1) [OF assms(1), of j b] ms_chain_nth(1) [OF assms(1), of b] assms(3)
    by (simp add: in_range_def word_less_nat_alt)
qed

lemma chain_upper_bound_beyond:
  assumes "ms_chain 0 0 xs" and "xs \<noteq> []" and "chain_span xs \<le> unat q"
  shows "upper_bound q xs = length xs" and "\<not> q \<le> ms_max (snd (last xs))" and "fst (last xs) \<le> q"
proof -
  let ?j = "length xs - 1"
  have j: "?j < length xs" using assms(2) by simp
  note n = ms_chain_nth [OF assms(1) j]
  have stop: "unat (ms_min (snd (xs ! ?j))) + ms_span (snd (xs ! ?j)) = chain_span xs"
    using n(2) chain_span_take_Suc [OF j] assms(2) by simp
  have last: "last xs = xs ! ?j" using assms(2) by (simp add: last_conv_nth)
  show key: "fst (last xs) \<le> q"
    using n(1) stop assms(3) by (simp add: last word_le_nat_alt)
  show "\<not> q \<le> ms_max (snd (last xs))"
    using ms_max_nat [OF n(4,5)] stop assms(3) by (simp add: last word_le_nat_alt ms_span_def)
  have "upper_bound q xs = Suc ?j"
    by (rule prev_upper_bound_unique [OF ms_chain_smap_wf(1) [OF assms(1)] j])
      (use key last in auto)
  then show "upper_bound q xs = length xs" using assms(2) by simp
qed

text \<open>\<open>om_map\<close> finds what the reference search finds, and trips no assertion on the way.\<close>

definition oid_of_slot :: "nat \<times> nat \<Rightarrow> string" where
  "oid_of_slot = (\<lambda>(i, j). make_oid_index (of_nat i) (of_nat j))"

definition last_stripe_id :: "object_map \<Rightarrow> nat" where
  "last_stripe_id om = chain_ids (stripes_by_pos om) - 1"

lemma om_map_located:
  assumes wf: "om_wf om" and "j < length (stripes_by_pos om)"
    and r: "in_range (snd (stripes_by_pos om ! j)) (unat q)"
  shows "om_map om q = Some (Some (oid_of_slot (slot_of (snd (stripes_by_pos om ! j)) (unat q))),
    fst (slot_of (snd (stripes_by_pos om ! j)) (unat q)) = last_stripe_id om)"
proof -
  let ?xs = "stripes_by_pos om" and ?s = "snd (stripes_by_pos om ! j)"
  note chain = om_wf_chain(1) [OF wf]
  note n = ms_chain_nth [OF chain assms(2)]
  note a = stripe_arith [OF n(4,5) r]
  let ?i = "ms_base_id ?s + (q - ms_min ?s) div ucast (ms_width ?s * ms_slots ?s)"
  have ub: "prev_it (upper_bound q ?xs) = Some j"
    using chain_upper_bound [OF chain assms(2) r] by (simp add: prev_it_def)
  have le: "ms_min ?s \<le> q" "q \<le> ms_max ?s" using r in_range_max [OF n(4,5)] by auto
  have oid: "make_oid ?i (ms_width ?s) q = oid_of_slot (slot_of ?s (unat q))"
  proof -
    have "slot_of ?s (unat q) = (unat ?i, unat q mod unat (ms_width ?s))"
      by (rule prod_eqI) (simp only: a(2) fst_conv, simp add: slot_of_def)
    then show ?thesis
      by (simp only: make_oid_nat [OF ms_width_pos [OF n(4)]] oid_of_slot_def prod.case of_nat_unat_u64)
  qed
  have last: "(Suc j = length ?xs \<and> ?i = ms_max_stripe_id ?s) \<longleftrightarrow>
      fst (slot_of ?s (unat q)) = last_stripe_id om"
  proof (cases "Suc j = length ?xs")
    case True
    then have "unat (ms_base_id ?s) + unat (ms_instances ?s) = chain_ids ?xs"
      using n(3) chain_ids_take_Suc [OF assms(2)] by simp
    then show ?thesis
      using True ms_max_stripe_id_nat [OF n(4,5)] a(2)
      by (auto simp: last_stripe_id_def u64_eq_iff)
  next
    case False
    then have "Suc j < length ?xs" using assms(2) by simp
    then have "chain_ids (take (Suc j) ?xs) < chain_ids ?xs"
      using chain_ids_take_Suc [of "Suc j" ?xs] chain_ids_take_mono [of "Suc (Suc j)" "length ?xs" ?xs]
        ms_instances_pos [OF ms_chain_nth(4) [OF chain \<open>Suc j < length ?xs\<close>]] by simp
    then have "fst (slot_of ?s (unat q)) < last_stripe_id om"
      using a(2,3) n(3) chain_ids_take_Suc [OF assms(2)] by (simp add: last_stripe_id_def)
    then show ?thesis using False by simp
  qed
  have "?xs \<noteq> []" using assms(2) by auto
  then show ?thesis
    using ub le n(1) a(1,5) last oid
    by (simp add: om_map_def Let_def case_prod_beta)
qed

lemma om_map_spec:
  assumes "om_wf om"
  shows "om_map om q = Some (map_option oid_of_slot (om_locate om (unat q)),
    map_option fst (om_locate om (unat q)) = Some (last_stripe_id om))"
proof (cases "unat q < om_span om")
  case True
  then obtain j where j: "j < length (stripes_by_pos om)"
      "in_range (snd (stripes_by_pos om ! j)) (unat q)"
    using chain_find [OF om_wf_chain(1) [OF assms], of "unat q"] by (auto simp: om_span_def)
  then have "om_locate om (unat q) = Some (slot_of (snd (stripes_by_pos om ! j)) (unat q))"
    using ms_locate_nth [OF om_wf_chain(1) [OF assms]] by (simp add: om_locate_def)
  then show ?thesis using om_map_located [OF assms j] by simp
next
  case False
  then have none: "om_locate om (unat q) = None" using om_locate_dom [OF assms, of "unat q"] by blast
  have "om_map om q = Some (None, False)"
  proof (cases "stripes_by_pos om = []")
    case True
    then show ?thesis by (simp add: om_map_def)
  next
    case False
    note b = chain_upper_bound_beyond [OF om_wf_chain(1) [OF assms] False, of q]
    have "chain_span (stripes_by_pos om) \<le> unat q"
      using \<open>\<not> unat q < om_span om\<close> by (simp add: om_span_def)
    then show ?thesis
      using b False by (simp add: om_map_def prev_it_def case_prod_beta last_conv_nth)
  qed
  then show ?thesis by (simp add: none)
qed

lemma om_map_unmapped:
  assumes "om_wf om" and "om_span om \<le> unat q"
  shows "om_map om q = Some (None, False)"
proof -
  have "om_locate om (unat q) = None" using om_locate_dom [OF assms(1)] assms(2) by (metis not_less)
  then show ?thesis by (simp add: om_map_spec [OF assms(1)])
qed

lemma om_map_mapped:
  "om_wf om \<Longrightarrow> (\<exists>oid last. om_map om q = Some (Some oid, last)) \<longleftrightarrow> unat q < om_span om"
  using om_locate_dom [of om "unat q"] by (auto simp: om_map_spec)

text \<open>The stripe index: the stripe with id \<open>i\<close> exists below \<open>chain_ids\<close> and lies in the multi-stripe
  that covers \<open>i\<close>.\<close>

lemma chain_find_id:
  "ms_chain p b xs \<Longrightarrow> b \<le> i \<Longrightarrow> i < b + chain_ids xs \<Longrightarrow>
   \<exists>j < length xs. unat (ms_base_id (snd (xs ! j))) \<le> i
     \<and> i < unat (ms_base_id (snd (xs ! j))) + unat (ms_instances (snd (xs ! j)))"
proof (induction p b xs rule: ms_chain.induct)
  case (2 p b k s rest)
  show ?case
  proof (cases "i < b + unat (ms_instances s)")
    case True
    then show ?thesis using "2.prems" by (intro exI [of _ 0]) auto
  next
    case False
    then obtain j where "j < length rest" "unat (ms_base_id (snd (rest ! j))) \<le> i"
        "i < unat (ms_base_id (snd (rest ! j))) + unat (ms_instances (snd (rest ! j)))"
      using "2.IH" "2.prems" by auto
    then show ?thesis by (intro exI [of _ "Suc j"]) simp
  qed
qed simp

lemma om_stripe_by_id_nth:
  assumes wf: "om_wf om" and j: "j < length (stripes_by_pos om)"
    and lo: "unat (ms_base_id (snd (stripes_by_pos om ! j))) \<le> unat i"
    and hi: "unat i < unat (ms_base_id (snd (stripes_by_pos om ! j)))
      + unat (ms_instances (snd (stripes_by_pos om ! j)))"
  shows "om_stripe_by_id om i = ms_stripe_by_id (snd (stripes_by_pos om ! j)) i"
proof -
  let ?xs = "stripes_by_pos om" and ?s = "snd (stripes_by_pos om ! j)"
  note chain = om_wf_chain(1) [OF wf] and idx = om_wf_chain(2) [OF wf]
  note n = ms_chain_nth [OF chain j]
  have nth: "id_index ?xs ! a = (ms_base_id (snd (?xs ! a)), snd (?xs ! a))" if "a < length ?xs" for a
    using that by (simp add: id_index_def)
  have len: "length (id_index ?xs) = length ?xs" by (simp add: id_index_def)
  have "upper_bound i (id_index ?xs) = Suc j"
  proof (rule prev_upper_bound_unique [OF ms_chain_smap_wf(2) [OF chain]])
    show "j < length (id_index ?xs)" using j len by simp
    show "fst (id_index ?xs ! j) \<le> i" using nth [OF j] lo by (simp add: word_le_nat_alt)
    fix b assume "j < b" "b < length (id_index ?xs)"
    then show "i < fst (id_index ?xs ! b)"
      using chain_keys_less(2) [OF chain, of j b] hi nth [of b] len by (simp add: word_less_nat_alt)
  qed
  moreover have "i \<le> ms_max_stripe_id ?s"
    using ms_max_stripe_id_nat [OF n(4,5)] hi by (simp add: word_le_nat_alt)
  moreover have "id_index ?xs \<noteq> []" using j len by (metis length_0_conv less_nat_zero_code)
  ultimately show ?thesis
    using nth [OF j] lo by (simp add: om_stripe_by_id_def idx prev_it_def word_le_nat_alt)
qed

lemma om_stripe_by_id_some:
  assumes wf: "om_wf om" and j: "j < length (stripes_by_pos om)"
    and lo: "unat (ms_base_id (snd (stripes_by_pos om ! j))) \<le> unat i"
    and hi: "unat i < unat (ms_base_id (snd (stripes_by_pos om ! j)))
      + unat (ms_instances (snd (stripes_by_pos om ! j)))"
  defines "s \<equiv> snd (stripes_by_pos om ! j)"
  defines "b \<equiv> unat (ms_min s) + (unat i - unat (ms_base_id s)) * ms_size s"
  obtains st where "om_stripe_by_id om i = Some st" and "st_id st = i" and "st_width st = ms_width s"
    and "st_oids st = make_oids i (ms_width s)"
    and "unat (st_min st) = b" and "unat (st_max st) + 1 = b + ms_size s"
proof -
  note n = ms_chain_nth [OF om_wf_chain(1) [OF wf] j]
  obtain st where "ms_stripe_by_id s i = Some st" "st_id st = i" "st_width st = ms_width s"
    "st_oids st = make_oids i (ms_width s)"
    "unat (st_min st) = b" "unat (st_max st) + 1 = b + ms_size s"
    by (rule ms_stripe_by_id_some [OF n(4,5) lo hi, folded s_def])
      (auto simp: b_def algebra_simps)
  then show ?thesis
    using that om_stripe_by_id_nth [OF wf j lo hi] by (simp add: s_def)
qed

text \<open>A position lies in the block of positions of the stripe it is located in.\<close>

lemma slot_block:
  assumes "in_range s q" and "0 < ms_size s"
  shows "unat (ms_min s) + (fst (slot_of s q) - unat (ms_base_id s)) * ms_size s \<le> q"
    and "q < unat (ms_min s) + (fst (slot_of s q) - unat (ms_base_id s)) * ms_size s + ms_size s"
proof -
  let ?d = "q - unat (ms_min s)"
  have q: "q = unat (ms_min s) + ?d" using assms(1) by (simp add: in_range_def)
  have f: "fst (slot_of s q) - unat (ms_base_id s) = ?d div ms_size s" by (simp add: slot_of_def)
  have "?d div ms_size s * ms_size s \<le> ?d" by simp
  then show "unat (ms_min s) + (fst (slot_of s q) - unat (ms_base_id s)) * ms_size s \<le> q"
    unfolding f using q by linarith
  have "?d < ?d div ms_size s * ms_size s + ms_size s"
    using dividend_less_div_times [OF assms(2), of ?d] by (simp only: add.commute)
  then show "q < unat (ms_min s) + (fst (slot_of s q) - unat (ms_base_id s)) * ms_size s + ms_size s"
    unfolding f using q by linarith
qed

lemma map_stripe_spec:
  assumes wf: "om_wf om" and q: "unat q < om_span om"
  obtains s last where "om_map_stripe om q = Some (Some s)"
    and "om_map om q = Some (Some (st_oids s ! (unat q mod unat (st_width s))), last)"
    and "st_min s \<le> q" and "q \<le> st_max s" and "0 < st_width s"
    and "st_oids s = make_oids (st_id s) (st_width s)"
proof -
  let ?xs = "stripes_by_pos om"
  note chain = om_wf_chain(1) [OF wf]
  obtain j where j: "j < length ?xs" and r: "in_range (snd (?xs ! j)) (unat q)"
    using chain_find [OF chain, of "unat q"] q by (auto simp: om_span_def)
  let ?s = "snd (?xs ! j)"
  note n = ms_chain_nth [OF chain j]
  note a = stripe_arith [OF n(4,5) r]
  let ?i = "ms_base_id ?s + (q - ms_min ?s) div ucast (ms_width ?s * ms_slots ?s)"
  obtain st where st: "om_stripe_by_id om ?i = Some st" "st_id st = ?i" "st_width st = ms_width ?s"
      "st_oids st = make_oids ?i (ms_width ?s)"
      "unat (st_min st) = unat (ms_min ?s) + (unat ?i - unat (ms_base_id ?s)) * ms_size ?s"
      "unat (st_max st) + 1 =
        unat (ms_min ?s) + (unat ?i - unat (ms_base_id ?s)) * ms_size ?s + ms_size ?s"
    by (rule om_stripe_by_id_some [OF wf j a(4,3)])
  note blk = slot_block [OF r ms_size_pos [OF n(4)], folded a(2)]
  have ub: "prev_it (upper_bound q ?xs) = Some j"
    using chain_upper_bound [OF chain j r] by (simp add: prev_it_def)
  have le: "ms_min ?s \<le> q" "q \<le> ms_max ?s" using r in_range_max [OF n(4,5)] by auto
  have "?xs \<noteq> []" using j by auto
  then have "om_map_stripe om q = Some (Some st)"
    using ub le n(1) a(1) st(1) by (simp add: om_map_stripe_def Let_def case_prod_beta)
  moreover have w: "0 < unat (ms_width ?s)"
    using ms_width_pos [OF n(4)] by (simp add: word_less_nat_alt)
  have "oid_of_slot (slot_of ?s (unat q)) = st_oids st ! (unat q mod unat (st_width st))"
  proof -
    have "slot_of ?s (unat q) = (unat ?i, unat q mod unat (ms_width ?s))"
      by (rule prod_eqI) (simp only: a(2) fst_conv, simp add: slot_of_def)
    then show ?thesis
      using w by (simp only: st(3,4) oid_of_slot_def prod.case) simp
  qed
  then have "\<exists>last. om_map om q = Some (Some (st_oids st ! (unat q mod unat (st_width st))), last)"
    using om_map_located [OF wf j r] by simp
  moreover have "st_min st \<le> q" "q \<le> st_max st"
    using blk st(5,6) by (simp_all add: word_le_nat_alt)
  ultimately show ?thesis using that st(2-4) w by (auto simp: word_less_nat_alt)
qed

section \<open>Growing the map\<close>

text \<open>
  \<^verbatim>\<open>map_to\<close> counts the objects of a stripe from the stripe's first position, \<^verbatim>\<open>map\<close> takes the position
  modulo the width. The two agree when every multi-stripe starts at a multiple of its width, which
  holds for every map built by \<^verbatim>\<open>expand_mapping\<close>.
\<close>

definition om_aligned :: "object_map \<Rightarrow> bool" where
  "om_aligned om \<longleftrightarrow>
     (\<forall>e\<in>set (stripes_by_pos om). unat (ms_min (snd e)) mod unat (ms_width (snd e)) = 0)"

text \<open>The order in which object maps evolve: every position that was mapped keeps its object, and no
  stripe that existed gains a position.\<close>

definition om_ids :: "object_map \<Rightarrow> nat" where
  "om_ids om = chain_ids (stripes_by_pos om)"

definition om_le :: "object_map \<Rightarrow> object_map \<Rightarrow> bool" where
  "om_le om om' \<longleftrightarrow> om_span om \<le> om_span om' \<and> om_ids om \<le> om_ids om'
     \<and> (\<forall>q < om_span om. om_locate om' q = om_locate om q)
     \<and> (\<forall>q i c. om_locate om' q = Some (i, c) \<longrightarrow> i < om_ids om \<longrightarrow> om_locate om q = Some (i, c))"

lemma om_leI:
  "om_span om \<le> om_span om' \<Longrightarrow> om_ids om \<le> om_ids om' \<Longrightarrow>
   (\<And>q. q < om_span om \<Longrightarrow> om_locate om' q = om_locate om q) \<Longrightarrow>
   (\<And>q i c. om_locate om' q = Some (i, c) \<Longrightarrow> i < om_ids om \<Longrightarrow> om_locate om q = Some (i, c)) \<Longrightarrow>
   om_le om om'"
  unfolding om_le_def by blast

lemma om_leD:
  assumes "om_le om om'"
  shows "om_span om \<le> om_span om'" and "om_ids om \<le> om_ids om'"
    and "q < om_span om \<Longrightarrow> om_locate om' q = om_locate om q"
    and "om_locate om' q = Some (i, c) \<Longrightarrow> i < om_ids om \<Longrightarrow> om_locate om q = Some (i, c)"
  using assms unfolding om_le_def by blast+

lemma om_le_refl [simp]: "om_le om om"
  by (rule om_leI) simp_all

lemma om_le_trans:
  assumes "om_le a b" and "om_le b c"
  shows "om_le a c"
proof (rule om_leI)
  fix q i d assume "om_locate c q = Some (i, d)" "i < om_ids a"
  then show "om_locate a q = Some (i, d)"
    using om_leD(2,4) [OF assms(1)] om_leD(4) [OF assms(2)] by (meson order_less_le_trans)
next
  fix q assume "q < om_span a"
  then show "om_locate c q = om_locate a q"
    using om_leD(1,3) [OF assms(1)] om_leD(3) [OF assms(2)] by (metis order_less_le_trans)
qed (use om_leD(1,2) [OF assms(1)] om_leD(1,2) [OF assms(2)] in linarith)+

lemma om_le_map:
  assumes "om_wf om" and "om_wf om'" and "om_le om om'" and "om_map om q = Some (Some oid, l)"
  shows "\<exists>l'. om_map om' q = Some (Some oid, l')"
proof -
  have "unat q < om_span om" using assms(1,4) om_map_mapped by blast
  then have "om_locate om' (unat q) = om_locate om (unat q)" by (rule om_leD(3) [OF assms(3)])
  then show ?thesis using assms(4) by (simp add: om_map_spec [OF assms(1)] om_map_spec [OF assms(2)])
qed

definition ms_grows :: "multi_stripe \<Rightarrow> multi_stripe \<Rightarrow> bool" where
  "ms_grows s s' \<longleftrightarrow> ms_base_id s' = ms_base_id s \<and> ms_width s' = ms_width s
     \<and> ms_slots s' = ms_slots s \<and> ms_min s' = ms_min s \<and> ms_instances s \<le> ms_instances s'"

lemma ms_grows_size: "ms_grows s s' \<Longrightarrow> ms_size s' = ms_size s"
  by (simp add: ms_grows_def ms_size_def)

lemma ms_grows_range:
  assumes "ms_grows s s'" and "in_range s q"
  shows "in_range s' q" and "slot_of s' q = slot_of s q"
proof -
  have "ms_span s \<le> ms_span s'"
    using assms(1) ms_grows_size [OF assms(1)] by (simp add: ms_span_def ms_grows_def word_le_nat_alt)
  then show "in_range s' q" using assms by (simp add: in_range_def ms_grows_def)
  show "slot_of s' q = slot_of s q"
    using assms(1) ms_grows_size [OF assms(1)] by (simp add: slot_of_def ms_grows_def)
qed

lemma chain_grow_locate:
  assumes "ms_chain 0 0 (ys @ [(k, s)])" and "ms_chain 0 0 (ys @ [(k, s')])" and "ms_grows s s'"
    and "q < chain_span (ys @ [(k, s)])"
  shows "ms_locate (ys @ [(k, s')]) q = ms_locate (ys @ [(k, s)]) q"
proof -
  let ?xs = "ys @ [(k, s)]" and ?xs' = "ys @ [(k, s')]"
  obtain j where j: "j < length ?xs" and r: "in_range (snd (?xs ! j)) q"
    using chain_find [OF assms(1) _ , of q] assms(4) by auto
  have j': "j < length ?xs'" using j by simp
  have "in_range (snd (?xs' ! j)) q \<and> slot_of (snd (?xs' ! j)) q = slot_of (snd (?xs ! j)) q"
  proof (cases "j < length ys")
    case True
    then show ?thesis using r by (simp add: nth_append)
  next
    case False
    then have "j = length ys" using j by simp
    then show ?thesis using r ms_grows_range [OF assms(3), of q] by simp
  qed
  then show ?thesis
    using ms_locate_nth [OF assms(1) j r] ms_locate_nth [OF assms(2) j'] by simp
qed

lemma chain_ids_le_span: "ms_chain p i xs \<Longrightarrow> chain_ids xs \<le> chain_span xs"
proof (induction p i xs rule: ms_chain.induct)
  case (2 p i k s rest)
  have "unat (ms_instances s) * 1 \<le> unat (ms_instances s) * ms_size s"
    using ms_size_pos [of s] "2.prems" by (intro mult_le_mono2) simp
  then have "unat (ms_instances s) \<le> ms_span s" by (simp only: ms_span_def mult_1_right)
  moreover have "chain_ids rest \<le> chain_span rest" using 2 by simp
  ultimately show ?case by simp
qed simp

text \<open>One iteration of the loop on a non-empty map adds one stripe to the last multi-stripe.\<close>

lemma expand_step_chain:
  assumes chain: "ms_chain 0 0 (ys @ [(k, s)])"
    and id: "unat next_id = chain_ids (ys @ [(k, s)])"
    and room: "chain_span (ys @ [(k, s)]) + ms_size s < 2 ^ 64"
  shows "expand_step opts next_id (ys @ [(k, s)]) = Some (ys @ [(k, ms_extended s)])"
    and "ms_chain 0 0 (ys @ [(k, ms_extended s)])"
    and "unat (next_id + 1) = chain_ids (ys @ [(k, ms_extended s)])"
    and "ms_grows s (ms_extended s)"
    and "chain_span (ys @ [(k, ms_extended s)]) = chain_span (ys @ [(k, s)]) + ms_size s"
proof -
  have c: "k = ms_min s" "unat (ms_min s) = chain_span ys" "unat (ms_base_id s) = chain_ids ys"
      "ms_asserts s" "ms_fits s" "ms_chain 0 0 ys"
    using chain by (simp_all add: ms_chain_append)
  have ids: "chain_ids ys + unat (ms_instances s) + 1 < 2 ^ 64"
    using chain_ids_le_span [OF chain] room ms_size_pos [OF c(4)] by simp
  have "unat (ms_min s) + (unat (ms_instances s) + 1) * ms_size s \<le> 2 ^ 64"
    using room c(2) by (simp add: ms_span_def algebra_simps)
  from ms_extend_some [OF c(4,5) this]
  have e: "ms_extend s = Some (ms_extended s)" "ms_asserts (ms_extended s)" "ms_fits (ms_extended s)"
      "unat (ms_instances (ms_extended s)) = unat (ms_instances s) + 1"
    using ids c(3) by auto
  have f: "ms_min (ms_extended s) = ms_min s" "ms_base_id (ms_extended s) = ms_base_id s"
      "ms_width (ms_extended s) = ms_width s" "ms_slots (ms_extended s) = ms_slots s"
    by (simp_all add: ms_extended_def)
  show grows: "ms_grows s (ms_extended s)"
    using e(4) f by (simp add: ms_grows_def word_le_nat_alt)
  have size: "ms_size (ms_extended s) = ms_size s" by (rule ms_grows_size [OF grows])
  have span: "ms_span (ms_extended s) = ms_span s + ms_size s"
    by (simp add: ms_span_def size e(4))
  then show "chain_span (ys @ [(k, ms_extended s)]) = chain_span (ys @ [(k, s)]) + ms_size s" by simp
  show "ms_chain 0 0 (ys @ [(k, ms_extended s)])"
    using c e(2,3) f by (simp add: ms_chain_append)
  show "unat (next_id + 1) = chain_ids (ys @ [(k, ms_extended s)])"
    using id ids e(4) by (simp add: unat_add_u64)
  have "unat (ms_max_stripe_id (ms_extended s)) + 1 = unat next_id + 1"
    using ms_max_stripe_id_nat [OF e(2,3)] f(2) c(3) e(4) id by simp
  then have "ms_max_stripe_id (ms_extended s) = next_id" by (simp add: u64_eq_iff)
  moreover have "smap_emplace k (ms_extended s) ys = (ys @ [(k, ms_extended s)], True)"
    using ms_chain_smap_wf(1) [OF chain] by (intro smap_emplace_last) (simp add: smap_wf_snoc)
  ultimately show "expand_step opts next_id (ys @ [(k, s)]) = Some (ys @ [(k, ms_extended s)])"
    using e(1) f(1) c(1) by (simp add: expand_step_def)
qed

text \<open>The loop ends: each iteration brings the span one stripe closer to the position.\<close>

lemma expand_loop_chain:
  assumes "ms_chain 0 0 (ys @ [(k, s)])" and "unat next_id = chain_ids (ys @ [(k, s)])"
    and "chain_span (ys @ [(k, s)]) \<le> unat q" and "unat q + ms_size s < 2 ^ 64"
  shows "\<exists>s' next'. expand_loop opts q mv next_id (ys @ [(k, s)]) =
        Some (chain_map next' (ys @ [(k, s')]) mv)
      \<and> ms_chain 0 0 (ys @ [(k, s')]) \<and> unat next' = chain_ids (ys @ [(k, s')]) \<and> ms_grows s s'
      \<and> unat q < chain_span (ys @ [(k, s')])
      \<and> chain_span (ys @ [(k, s')]) \<le> unat q + ms_size s"
  using assms
proof (induction "unat q - chain_span (ys @ [(k, s)])" arbitrary: s next_id rule: less_induct)
  case less
  let ?s = "ms_extended s"
  have room: "chain_span (ys @ [(k, s)]) + ms_size s < 2 ^ 64" using less.prems by linarith
  note st = expand_step_chain [OF less.prems(1,2) room]
  note om = om_new_chain [OF st(2,3), where mv = mv]
  have size: "ms_size ?s = ms_size s" by (rule ms_grows_size [OF st(4)])
  have pos: "0 < ms_size s" using less.prems(1) by (simp add: ms_chain_append ms_size_pos)
  have unfold: "expand_loop opts q mv next_id (ys @ [(k, s)]) =
      (if unat q < chain_span (ys @ [(k, ?s)]) then Some (chain_map (next_id + 1) (ys @ [(k, ?s)]) mv)
       else expand_loop opts q mv (next_id + 1) (ys @ [(k, ?s)]))"
    using om_locate_dom [OF om(2), of "unat q"]
    by (subst expand_loop.simps)
      (simp add: st(1) om(1) om_map_spec [OF om(2)], simp add: om_span_def chain_map_def)
  show ?case
  proof (cases "unat q < chain_span (ys @ [(k, ?s)])")
    case True
    then show ?thesis
      using unfold st(2-5) less.prems(3) by (intro exI [of _ ?s] exI [of _ "next_id + 1"]) simp
  next
    case False
    have "unat q - chain_span (ys @ [(k, ?s)]) < unat q - chain_span (ys @ [(k, s)])"
      using False pos st(5) by linarith
    from less.hyps [OF this st(2,3)] obtain s' next' where
      ih: "expand_loop opts q mv (next_id + 1) (ys @ [(k, ?s)]) =
          Some (chain_map next' (ys @ [(k, s')]) mv)"
        "ms_chain 0 0 (ys @ [(k, s')])" "unat next' = chain_ids (ys @ [(k, s')])" "ms_grows ?s s'"
        "unat q < chain_span (ys @ [(k, s')])" "chain_span (ys @ [(k, s')]) \<le> unat q + ms_size s"
      using False less.prems(4) size by auto
    moreover have "ms_grows s s'" using ih(4) st(4) by (auto simp: ms_grows_def)
    ultimately show ?thesis using False unfold by auto
  qed
qed

text \<open>The first stripe of an empty map, in the shape the options ask for.\<close>

definition initial_stripe :: "options \<Rightarrow> multi_stripe" where
  "initial_stripe opts = \<lparr>ms_base_id = 0, ms_width = stripe_width opts, ms_slots = stripe_slots opts,
     ms_min = 0, ms_instances = 1, ms_max = ucast (stripe_width opts * stripe_slots opts - 1)\<rparr>"

lemma initial_stripe_ok:
  assumes "stripe_options_ok opts"
  shows "ms_asserts (initial_stripe opts)" and "ms_fits (initial_stripe opts)"
    and "ms_size (initial_stripe opts) = unat (stripe_width opts) * unat (stripe_slots opts)"
    and "ms_chain 0 0 [(0, initial_stripe opts)]"
proof -
  let ?w = "stripe_width opts" and ?n = "stripe_slots opts"
  have wn: "0 < ?w" "0 < ?n" "unat ?w * unat ?n < 4294967296"
    using assms by (simp_all add: stripe_options_ok_def)
  show size: "ms_size (initial_stripe opts) = unat ?w * unat ?n"
    by (simp add: ms_size_def initial_stripe_def)
  show fits: "ms_fits (initial_stripe opts)"
    using wn(3) by (simp add: ms_fits_def size) (simp add: initial_stripe_def)
  have p: "unat (?w * ?n) = unat ?w * unat ?n" using wn(3) by (rule unat_mult_u32)
  have "0 < unat ?w * unat ?n" using wn(1,2) by (simp add: word_less_nat_alt)
  then have "?w * ?n \<noteq> 0" using p by (metis less_numeral_extra(3) unat_0)
  then have "unat (?w * ?n - 1) = unat ?w * unat ?n - 1" using p by (simp add: unat_minus_one)
  then have l: "unat (ucast (?w * ?n - 1) :: u64) = unat ?w * unat ?n - 1" by simp
  have "unat (ucast ?w * ucast ?n :: u64) = unat ?w * unat ?n"
    using wn(3) by (simp add: unat_mult_u64)
  moreover have "(ucast ?w * ucast ?n :: u64) \<noteq> 0"
    using calculation \<open>0 < unat ?w * unat ?n\<close> by (metis less_numeral_extra(3) unat_0)
  ultimately have r: "unat (ucast ?w * ucast ?n - 1 :: u64) = unat ?w * unat ?n - 1"
    by (simp add: unat_minus_one)
  have "(ucast (?w * ?n - 1) :: u64) = ucast ?w * ucast ?n - 1" using l r by (simp add: u64_eq_iff)
  then show ok: "ms_asserts (initial_stripe opts)"
    using wn(1,2) by (simp add: ms_asserts_def initial_stripe_def)
  from ok fits show "ms_chain 0 0 [(0, initial_stripe opts)]" by (simp add: initial_stripe_def)
qed

lemma expand_step_empty:
  assumes "stripe_options_ok opts"
  shows "expand_step opts 0 [] = Some [(0, initial_stripe opts)]"
  using initial_stripe_ok(1) [OF assms]
  by (simp add: expand_step_def multi_stripe_new_def initial_stripe_def Let_def)

definition grow_size :: "options \<Rightarrow> object_map \<Rightarrow> nat" where
  "grow_size opts om =
     (if stripes_by_pos om = [] then unat (stripe_width opts) * unat (stripe_slots opts)
      else ms_size (snd (last (stripes_by_pos om))))"

lemma chain_map_simps [simp]:
  "next_stripe_id (chain_map n xs mv) = n" "stripes_by_pos (chain_map n xs mv) = xs"
  "stripes_by_id (chain_map n xs mv) = id_index xs" "min_valid_position (chain_map n xs mv) = mv"
  by (simp_all add: chain_map_def)

lemma chain_grow_beyond:
  assumes "ms_chain 0 0 (ys @ [(k, s)])" and "ms_chain 0 0 (ys @ [(k, s')])" and "ms_grows s s'"
    and "chain_span (ys @ [(k, s)]) \<le> q" and "ms_locate (ys @ [(k, s')]) q = Some (i, c)"
  shows "chain_ids (ys @ [(k, s)]) \<le> i"
proof -
  let ?xs = "ys @ [(k, s')]"
  have mn: "unat (ms_min s') = chain_span ys" "unat (ms_base_id s') = chain_ids ys"
    and size: "0 < ms_size s'"
    using ms_chain_nth(2,3,4) [OF assms(2), of "length ys"] ms_size_pos by simp_all
  have "\<not> (\<forall>e\<in>set ?xs. \<not> in_range (snd e) q)"
    using assms(5) by (simp only: ms_locate_None [symmetric]) simp
  then obtain j where j: "j < length ?xs" "in_range (snd (?xs ! j)) q" by (metis in_set_conv_nth)
  have q: "q < chain_span ?xs" by (rule chain_in_range_bound [OF assms(2) j])
  have lo: "chain_span ys + unat (ms_instances s) * ms_size s' \<le> q"
    using assms(4) ms_grows_size [OF assms(3)] by (simp add: ms_span_def)
  have "in_range s' q" using q lo mn by (simp add: in_range_def)
  then have "ms_locate ?xs q = Some (slot_of s' q)"
    using ms_locate_nth [OF assms(2), of "length ys" q] by simp
  then have i: "i = chain_ids ys + (q - chain_span ys) div ms_size s'"
    using assms(5) mn by (simp add: slot_of_def)
  have "unat (ms_instances s) * ms_size s' \<le> q - chain_span ys" using lo by simp
  then have "unat (ms_instances s) \<le> (q - chain_span ys) div ms_size s'"
    using size by (simp add: less_eq_div_iff_mult_less_eq)
  then show ?thesis using i by simp
qed

lemma om_le_grow:
  assumes "ms_chain 0 0 (ys @ [(k, s)])" and "ms_chain 0 0 (ys @ [(k, s')])" and "ms_grows s s'"
    and "stripes_by_pos om = ys @ [(k, s)]" and "stripes_by_pos om' = ys @ [(k, s')]"
  shows "om_le om om'"
proof -
  have inst: "unat (ms_instances s) \<le> unat (ms_instances s')"
    using assms(3) by (simp add: ms_grows_def word_le_nat_alt)
  then have "ms_span s \<le> ms_span s'"
    using ms_grows_size [OF assms(3)] by (simp add: ms_span_def)
  moreover have "om_locate om q = Some (i, c)" if "om_locate om' q = Some (i, c)" "i < om_ids om" for q i c
    using that chain_grow_beyond [OF assms(1-3), of q i c] chain_grow_locate [OF assms(1-3), of q] assms(4,5)
    by (cases "q < chain_span (ys @ [(k, s)])") (simp_all add: om_locate_def om_ids_def)
  moreover have "om_locate om' q = om_locate om q" if "q < om_span om" for q
    using that chain_grow_locate [OF assms(1-3), of q] assms(4,5) by (simp add: om_span_def om_locate_def)
  moreover have "om_ids om \<le> om_ids om'" using assms(4,5) inst by (simp add: om_ids_def)
  ultimately show ?thesis
    using assms(4,5) by (intro om_leI) (simp add: om_span_def, blast+)
qed

lemma expand_loop_empty:
  assumes "stripe_options_ok opts"
    and "unat q + unat (stripe_width opts) * unat (stripe_slots opts) < 2 ^ 64"
  shows "\<exists>s' next'. expand_loop opts q mv 0 [] = Some (chain_map next' [(0, s')] mv)
      \<and> ms_chain 0 0 [(0, s')] \<and> unat next' = chain_ids [(0, s')]
      \<and> unat q < chain_span [(0, s')]
      \<and> chain_span [(0, s')] \<le> unat q + unat (stripe_width opts) * unat (stripe_slots opts)"
proof -
  let ?s = "initial_stripe opts"
  note i = initial_stripe_ok [OF assms(1)]
  have ids: "unat (0 + 1 :: u64) = chain_ids [(0, ?s)]" by (simp add: initial_stripe_def)
  have span: "chain_span [(0, ?s)] = ms_size ?s" by (simp add: ms_span_def) (simp add: initial_stripe_def)
  note om = om_new_chain [OF i(4) ids, where mv = mv]
  have unfold: "expand_loop opts q mv 0 [] =
      (if unat q < chain_span [(0, ?s)] then Some (chain_map (0 + 1) [(0, ?s)] mv)
       else expand_loop opts q mv (0 + 1) [(0, ?s)])"
    using om_locate_dom [OF om(2), of "unat q"]
    by (subst expand_loop.simps)
      (simp add: expand_step_empty [OF assms(1)] om(1) [simplified] om_map_spec [OF om(2)],
       simp add: om_span_def om_map_spec [OF om(2) [simplified]])
  show ?thesis
  proof (cases "unat q < chain_span [(0, ?s)]")
    case True
    then show ?thesis
      using unfold i(3,4) ids span by (intro exI [of _ ?s] exI [of _ "0 + 1"]) simp
  next
    case False
    then have "chain_span ([] @ [(0, ?s)]) \<le> unat q" "unat q + ms_size ?s < 2 ^ 64"
      using assms(2) i(3) by simp_all
    from expand_loop_chain [of "[]" 0 ?s "0 + 1", OF _ _ this, of opts mv]
    show ?thesis using False unfold i(3,4) ids by auto
  qed
qed

lemma expand_mapping_some:
  assumes wf: "om_wf om" and out: "om_span om \<le> unat q"
    and shape: "stripes_by_pos om = [] \<longrightarrow> stripe_options_ok opts"
    and room: "unat q + grow_size opts om < 2 ^ 64"
  obtains om' where "om_expand_mapping om q opts = Some (Some om')" and "om_wf om'"
    and "om_le om om'" and "unat q < om_span om'" and "om_span om' \<le> unat q + grow_size opts om"
    and "min_valid_position om' = min_valid_position om" and "om_aligned om \<longrightarrow> om_aligned om'"
proof -
  let ?xs = "stripes_by_pos om" and ?mv = "min_valid_position om"
  note chain = om_wf_chain [OF wf]
  have none: "om_map om q = Some (None, False)"
    using out by (rule om_map_unmapped [OF wf])
  have *: "\<exists>xs' next'. expand_loop opts q ?mv (next_stripe_id om) ?xs = Some (chain_map next' xs' ?mv)
      \<and> (om_aligned om \<longrightarrow> om_aligned (chain_map next' xs' ?mv))
      \<and> ms_chain 0 0 xs' \<and> unat next' = chain_ids xs' \<and> om_le om (chain_map next' xs' ?mv)
      \<and> unat q < chain_span xs' \<and> chain_span xs' \<le> unat q + grow_size opts om"
  proof (cases "?xs = []")
    case True
    then have "next_stripe_id om = 0" using chain(3) by (simp add: unat_eq_zero)
    moreover have "om_le om om'" for om' using True by (simp add: om_le_def om_span_def om_ids_def)
    moreover have "stripe_options_ok opts" using True shape by simp
    from expand_loop_empty [OF this, of q ?mv] obtain s' next' where
      "expand_loop opts q ?mv 0 [] = Some (chain_map next' [(0, s')] ?mv)"
      "ms_chain 0 0 [(0, s')]" "unat next' = chain_ids [(0, s')]" "unat q < chain_span [(0, s')]"
      "chain_span [(0, s')] \<le> unat q + grow_size opts om"
      using room True by (auto simp: grow_size_def)
    ultimately show ?thesis
      using True by (intro exI [of _ "[(0, s')]"] exI [of _ next']) (simp add: om_aligned_def)
  next
    case False
    then obtain ys k s where xs: "?xs = ys @ [(k, s)]"
      by (cases ?xs rule: rev_cases) auto
    have g: "grow_size opts om = ms_size s" by (simp add: grow_size_def xs)
    obtain s' next' where
      "expand_loop opts q ?mv (next_stripe_id om) (ys @ [(k, s)]) =
          Some (chain_map next' (ys @ [(k, s')]) ?mv)"
        "ms_chain 0 0 (ys @ [(k, s')])" "unat next' = chain_ids (ys @ [(k, s')])" "ms_grows s s'"
        "unat q < chain_span (ys @ [(k, s')])" "chain_span (ys @ [(k, s')]) \<le> unat q + ms_size s"
      using expand_loop_chain [of ys k s "next_stripe_id om" q opts ?mv] chain out room g
      by (auto simp: xs om_span_def)
    then show ?thesis
      using om_le_grow [of ys k s s' om "chain_map next' (ys @ [(k, s')]) ?mv"] chain(1) g
      by (intro exI [of _ "ys @ [(k, s')]"] exI [of _ next']) (simp add: xs om_aligned_def ms_grows_def)
  qed
  then obtain xs' next' where r: "expand_loop opts q ?mv (next_stripe_id om) ?xs =
        Some (chain_map next' xs' ?mv)"
      "ms_chain 0 0 xs'" "unat next' = chain_ids xs'" "om_le om (chain_map next' xs' ?mv)"
      "unat q < chain_span xs'" "chain_span xs' \<le> unat q + grow_size opts om"
      "om_aligned om \<longrightarrow> om_aligned (chain_map next' xs' ?mv)"
    by blast
  show ?thesis
    by (rule that [of "chain_map next' xs' ?mv"])
      (use r none om_new_chain(2) [OF r(2,3)] in \<open>simp_all add: om_expand_mapping_def om_span_def\<close>)
qed

lemma expand_mapping_mapped:
  "om_wf om \<Longrightarrow> unat q < om_span om \<Longrightarrow> om_expand_mapping om q opts = Some None"
  using om_locate_dom [of om "unat q"] by (auto simp: om_expand_mapping_def om_map_spec)

lemma advance_min_valid_some:
  assumes "om_wf om"
  shows "om_advance_min_valid_position om p =
    Some (if p \<le> min_valid_position om then None else Some (om\<lparr>min_valid_position := p\<rparr>))"
    and "om_wf (om\<lparr>min_valid_position := p\<rparr>)" and "om_le om (om\<lparr>min_valid_position := p\<rparr>)"
proof -
  note c = om_wf_chain [OF assms]
  have eq: "chain_map (next_stripe_id om) (stripes_by_pos om) p = om\<lparr>min_valid_position := p\<rparr>"
    using c(2) by (cases om) (simp add: chain_map_def)
  note n = om_new_chain [OF c(1,3), of p, unfolded eq]
  then show "om_advance_min_valid_position om p =
    Some (if p \<le> min_valid_position om then None else Some (om\<lparr>min_valid_position := p\<rparr>))"
    by (simp add: om_advance_min_valid_position_def)
  show "om_wf (om\<lparr>min_valid_position := p\<rparr>)" by (rule n(2))
  show "om_le om (om\<lparr>min_valid_position := p\<rparr>)" by (simp add: om_le_def om_span_def om_locate_def om_ids_def)
qed

section \<open>Encoding\<close>

lemma decode_stripes_encode:
  "ms_chain p i (acc @ xs) \<Longrightarrow>
   decode_stripes acc (map (\<lambda>e. ms_encode (snd e)) xs) = Some (acc @ xs)"
proof (induction xs arbitrary: acc)
  case (Cons e xs)
  obtain k s where e: "e = (k, s)" by (cases e)
  have s: "k = ms_min s" "ms_asserts s"
    using Cons.prems by (simp_all add: e ms_chain_append)
  have "smap_wf (acc @ [(k, s)])"
    using ms_chain_smap_wf(1) [OF Cons.prems] by (simp add: e smap_wf_def sorted_wrt_append)
  then have "smap_emplace (ms_min s) s acc = (acc @ [(k, s)], True)"
    unfolding s(1) by (intro smap_emplace_last) (simp add: smap_wf_snoc)
  moreover have "decode_stripes (acc @ [(k, s)]) (map (\<lambda>e. ms_encode (snd e)) xs) =
      Some ((acc @ [(k, s)]) @ xs)"
    by (rule Cons.IH) (use Cons.prems e in simp)
  ultimately show ?case by (simp add: e ms_decode_encode [OF s(2)])
qed simp

lemma om_decode_encode:
  assumes "om_wf om"
  obtains t where "om_encode om = Some t" and "om_decode (Some t) = Some om"
proof -
  note c = om_wf_chain [OF assms]
  have keys: "\<forall>e\<in>set (stripes_by_pos om). ms_min (snd e) = fst e"
    using ms_chain_nth(1) [OF c(1)] by (metis in_set_conv_nth)
  have "chain_map (next_stripe_id om) (stripes_by_pos om) (min_valid_position om) = om"
    using c(2) by (cases om) (simp add: chain_map_def)
  then show ?thesis
    using that keys om_new_chain(1) [OF c(1,3), of "min_valid_position om"]
      decode_stripes_encode [of 0 0 "[]" "stripes_by_pos om"] c(1)
    by (simp add: om_encode_def om_decode_def)
qed

section \<open>Iterating over the objects below a position\<close>

lemma om_locate_in_stripe:
  assumes wf: "om_wf om" and j: "j < length (stripes_by_pos om)"
    and lo: "unat (ms_base_id (snd (stripes_by_pos om ! j))) \<le> i"
    and hi: "i < unat (ms_base_id (snd (stripes_by_pos om ! j)))
      + unat (ms_instances (snd (stripes_by_pos om ! j)))"
  defines "s \<equiv> snd (stripes_by_pos om ! j)"
  defines "b \<equiv> unat (ms_min s) + (i - unat (ms_base_id s)) * ms_size s"
  shows "om_locate om p = Some (i, c) \<longleftrightarrow> b \<le> p \<and> p < b + ms_size s \<and> c = p mod unat (ms_width s)"
proof
  note chain = om_wf_chain(1) [OF wf]
  note n = ms_chain_nth [OF chain j, folded s_def]
  have size: "0 < ms_size s" by (rule ms_size_pos [OF n(4)])
  assume loc: "om_locate om p = Some (i, c)"
  then have "p < om_span om" using om_locate_dom [OF wf, of p] by simp
  then obtain a where a: "a < length (stripes_by_pos om)"
      "in_range (snd (stripes_by_pos om ! a)) p"
    using chain_find [OF chain, of p] by (auto simp: om_span_def)
  let ?t = "snd (stripes_by_pos om ! a)"
  have slot: "slot_of ?t p = (i, c)"
    using loc ms_locate_nth [OF chain a] by (simp add: om_locate_def)
  have "p - unat (ms_min ?t) < unat (ms_instances ?t) * ms_size ?t"
    using a(2) by (auto simp: in_range_def ms_span_def)
  then have "(p - unat (ms_min ?t)) div ms_size ?t < unat (ms_instances ?t)"
    by (simp add: less_mult_imp_div_less)
  then have "unat (ms_base_id ?t) \<le> i" "i < unat (ms_base_id ?t) + unat (ms_instances ?t)"
    using slot by (auto simp: slot_of_def)
  then have "a = j"
    using chain_keys_less(2) [OF chain, of a j] chain_keys_less(2) [OF chain, of j a] a(1) j lo hi
    by (cases a j rule: linorder_cases) auto
  then have "slot_of s p = (i, c)" "in_range s p" using slot a(2) by (simp_all add: s_def)
  then show "b \<le> p \<and> p < b + ms_size s \<and> c = p mod unat (ms_width s)"
    using slot_block [of s p] size by (auto simp: b_def) (simp add: slot_of_def)
next
  note chain = om_wf_chain(1) [OF wf]
  note n = ms_chain_nth [OF chain j, folded s_def]
  have size: "0 < ms_size s" by (rule ms_size_pos [OF n(4)])
  let ?k = "i - unat (ms_base_id s)"
  assume p: "b \<le> p \<and> p < b + ms_size s \<and> c = p mod unat (ms_width s)"
  have "?k + 1 \<le> unat (ms_instances s)" using lo hi by (simp add: s_def)
  then have "(?k + 1) * ms_size s \<le> ms_span s" unfolding ms_span_def by (intro mult_le_mono1)
  then have r: "in_range s p" using p by (auto simp: in_range_def b_def)
  have "p - unat (ms_min s) = (p - b) + ?k * ms_size s" using p by (simp add: b_def)
  moreover have "(p - b) div ms_size s = 0" using p by (intro div_less) linarith
  ultimately have "(p - unat (ms_min s)) div ms_size s = ?k"
    using size by (simp only: div_mult_self3) simp
  then have "slot_of s p = (i, c)" using p lo by (simp add: slot_of_def s_def)
  then show "om_locate om p = Some (i, c)"
    using ms_locate_nth [OF chain j] r by (simp add: om_locate_def s_def)
qed


text \<open>The first and the last position of residue \<open>c\<close> in a block of \<open>k\<close> rows of \<open>w\<close> positions.\<close>

lemma residue_first:
  fixes b w k c q :: nat
  assumes "b mod w = 0" and "c < w" and "0 < k"
  shows "(\<exists>p\<le>q. b \<le> p \<and> p < b + w * k \<and> c = p mod w) \<longleftrightarrow> b + c \<le> q"
proof
  assume "\<exists>p\<le>q. b \<le> p \<and> p < b + w * k \<and> c = p mod w"
  then obtain p where p: "p \<le> q" "b \<le> p" "c = p mod w" by blast
  have "(p - b) mod w = c" using p assms(1) by (metis mod_0_imp_dvd le_add_diff_inverse mod_add_self1
      dvd_imp_mod_0 mod_add_eq mod_mod_trivial add_0)
  then have "c \<le> p - b" by (metis mod_less_eq_dividend)
  then show "b + c \<le> q" using p by linarith
next
  assume q: "b + c \<le> q"
  have "(b + c) mod w = c" using assms by (simp add: mod_add_left_eq [symmetric])
  moreover have "w \<le> w * k" using assms(3) by simp
  then have "b + c < b + w * k" using assms(2) by linarith
  ultimately show "\<exists>p\<le>q. b \<le> p \<and> p < b + w * k \<and> c = p mod w"
    using q by (intro exI [of _ "b + c"]) simp
qed

lemma residue_last:
  fixes b w k c q :: nat
  assumes "b mod w = 0" and "c < w" and "0 < k"
  shows "(\<forall>p. b \<le> p \<and> p < b + w * k \<and> c = p mod w \<longrightarrow> p \<le> q) \<longleftrightarrow> b + w * (k - 1) + c \<le> q"
proof
  have "(b + w * (k - 1) + c) mod w = c"
    using assms(1,2) by (metis add.assoc add.commute mod_add_left_eq mod_less mod_mult_self2 add_0)
  moreover have "w * (k - 1) + w = w * k" using assms(3) by (cases k) simp_all
  then have "b + w * (k - 1) + c < b + w * k" using assms(2) by linarith
  moreover assume "\<forall>p. b \<le> p \<and> p < b + w * k \<and> c = p mod w \<longrightarrow> p \<le> q"
  ultimately show "b + w * (k - 1) + c \<le> q" by simp
next
  assume q: "b + w * (k - 1) + c \<le> q"
  obtain m where m: "b = w * m" using assms(1) by blast
  show "\<forall>p. b \<le> p \<and> p < b + w * k \<and> c = p mod w \<longrightarrow> p \<le> q"
  proof (intro allI impI)
    fix p assume p: "b \<le> p \<and> p < b + w * k \<and> c = p mod w"
    then have "p < (m + k) * w" by (simp add: m algebra_simps)
    then have "p div w < m + k" by (rule less_mult_imp_div_less)
    then have "w * (p div w) \<le> w * (m + (k - 1))" using assms(3) by (intro mult_le_mono2) linarith
    then have "w * (p div w) \<le> b + w * (k - 1)" unfolding m add_mult_distrib2 .
    then show "p \<le> q" using p q mult_div_mod_eq [of w p] by linarith
  qed
qed

lemma map_to_objects_set:
  assumes size: "unat (st_max s) + 1 = unat (st_min s) + unat (st_width s) * k" and k: "0 < k"
    and w: "0 < st_width s" and oids: "st_oids s = make_oids i (st_width s)"
    and al: "unat (st_min s) mod unat (st_width s) = 0"
  shows "set (map_to_objects s q) = {(make_oid_index i (of_nat c), full) | c full.
      c < unat (st_width s) \<and> unat (st_min s) + c \<le> unat q
      \<and> full = (unat (st_min s) + unat (st_width s) * (k - 1) + c \<le> unat q)}" (is "_ = ?R")
    and "map fst (map_to_objects s q) =
      map (\<lambda>c. make_oid_index i (of_nat c))
        (filter (\<lambda>c. unat (st_min s) + c \<le> unat q) [0..<unat (st_width s)])"
proof -
  let ?w = "unat (st_width s)" and ?b = "unat (st_min s)"
  let ?base = "st_max s - ucast (st_width s - 1)"
  have w0: "0 < ?w" using w by (simp add: word_less_nat_alt)
  have kw: "?w * (k - 1) + ?w = ?w * k" using k by (cases k) simp_all
  have w1: "unat (st_width s - 1) = ?w - 1"
    using w by (subst unat_sub) (simp_all add: word_le_nat_alt word_less_nat_alt)
  have base: "unat ?base = ?b + ?w * (k - 1)"
  proof -
    have "?w - 1 \<le> unat (st_max s)" using size kw w0 by linarith
    then have "unat ?base = unat (st_max s) - (?w - 1)"
      by (subst unat_sub) (simp_all add: word_le_nat_alt w1)
    then show ?thesis using size kw w0 by linarith
  qed
  have bound: "?b + ?w * k \<le> 18446744073709551616" using size unat_u64_bound [of "st_max s"] by linarith
  have ix: "unat (?base + of_nat c) = ?b + ?w * (k - 1) + c" "unat (st_min s + of_nat c) = ?b + c"
    if "c < ?w" for c
  proof -
    have c: "unat (of_nat c :: u64) = c"
      using that unat_u32_bound [of "st_width s"] by (intro unat_of_nat_u64) linarith
    have fit: "?b + ?w * (k - 1) + c < 18446744073709551616" using that bound kw by linarith
    show "unat (?base + of_nat c) = ?b + ?w * (k - 1) + c"
      using fit by (subst unat_add_u64) (simp_all only: base c)
    have "?b + c < 18446744073709551616" using fit by linarith
    then show "unat (st_min s + of_nat c) = ?b + c" by (subst unat_add_u64) (simp_all only: c)
  qed
  let ?f = "\<lambda>c. if ?b + c \<le> unat q
      then [(make_oid_index i (of_nat c), ?b + ?w * (k - 1) + c \<le> unat q)] else []"
  have eq: "map_to_objects s q = concat (map ?f [0..<?w])"
    unfolding map_to_objects_def Let_def
    by (rule arg_cong [where f = concat], rule map_cong [OF refl])
      (auto simp: word_le_nat_alt ix oids)
  show "set (map_to_objects s q) = ?R"
    unfolding eq by (auto split: if_splits)
  have "map fst (concat (map ?f xs)) =
      map (\<lambda>c. make_oid_index i (of_nat c)) (filter (\<lambda>c. ?b + c \<le> unat q) xs)" for xs
    by (induction xs) auto
  then show "map fst (map_to_objects s q) =
      map (\<lambda>c. make_oid_index i (of_nat c)) (filter (\<lambda>c. ?b + c \<le> unat q) [0..<?w])"
    unfolding eq .
qed


text \<open>One step of the iteration lists exactly the objects of its stripe that hold a position up to
  the given one, and marks those that hold no other.\<close>

lemma map_to_stripe:
  assumes wf: "om_wf om" and al: "om_aligned om" and q: "unat q < om_span om"
    and i: "unat i < chain_ids (stripes_by_pos om)"
  shows "\<exists>objs. om_map_to om q i False = Some (Some objs, i + 1, False) \<and> distinct (map fst objs)
    \<and> set objs = {(oid_of_slot (unat i, c), full) | c full.
        (\<exists>p\<le>unat q. om_locate om p = Some (unat i, c))
      \<and> full = (\<forall>p. om_locate om p = Some (unat i, c) \<longrightarrow> p \<le> unat q)}"
proof -
  note chain = om_wf_chain [OF wf]
  obtain j where j: "j < length (stripes_by_pos om)"
      "unat (ms_base_id (snd (stripes_by_pos om ! j))) \<le> unat i"
      "unat i < unat (ms_base_id (snd (stripes_by_pos om ! j)))
        + unat (ms_instances (snd (stripes_by_pos om ! j)))"
    using chain_find_id [OF chain(1), of "unat i"] i by auto
  let ?s = "snd (stripes_by_pos om ! j)"
  let ?b = "unat (ms_min ?s) + (unat i - unat (ms_base_id ?s)) * ms_size ?s" and ?w = "unat (ms_width ?s)"
  obtain st where st: "om_stripe_by_id om i = Some st" "st_width st = ms_width ?s"
      "st_oids st = make_oids i (ms_width ?s)" "unat (st_min st) = ?b"
      "unat (st_max st) + 1 = ?b + ms_size ?s"
    using om_stripe_by_id_some [OF wf j] by metis
  note n = ms_chain_nth [OF chain(1) j(1)]
  have w: "0 < ms_width ?s" and w0: "0 < ?w" and k: "0 < unat (ms_slots ?s)"
    using n(4) by (auto simp: ms_asserts_def word_less_nat_alt)
  have size: "ms_size ?s = ?w * unat (ms_slots ?s)" by (simp add: ms_size_def)
  have "unat (ms_min ?s) mod ?w = 0" using al j(1) by (auto simp: om_aligned_def)
  then have b: "?b mod ?w = 0" by (simp add: size mod_add_left_eq [symmetric])
  have loc: "om_locate om p = Some (unat i, c) \<longleftrightarrow> ?b \<le> p \<and> p < ?b + ?w * unat (ms_slots ?s) \<and> c = p mod ?w"
    for p c
    using om_locate_in_stripe [OF wf j, of p c] by (simp only: size)
  have R: "(\<exists>p\<le>unat q. om_locate om p = Some (unat i, c)) \<longleftrightarrow> c < ?w \<and> ?b + c \<le> unat q"
    "c < ?w \<Longrightarrow> (\<forall>p. om_locate om p = Some (unat i, c) \<longrightarrow> p \<le> unat q)
      \<longleftrightarrow> ?b + ?w * (unat (ms_slots ?s) - 1) + c \<le> unat q" for c
  proof -
    show "c < ?w \<Longrightarrow> (\<forall>p. om_locate om p = Some (unat i, c) \<longrightarrow> p \<le> unat q)
        \<longleftrightarrow> ?b + ?w * (unat (ms_slots ?s) - 1) + c \<le> unat q"
      unfolding loc using residue_last [OF b _ k] by blast
    have "c < ?w" if "\<exists>p\<le>unat q. om_locate om p = Some (unat i, c)"
      using that w0 unfolding loc by auto
    then show "(\<exists>p\<le>unat q. om_locate om p = Some (unat i, c)) \<longleftrightarrow> c < ?w \<and> ?b + c \<le> unat q"
      unfolding loc using residue_first [OF b _ k] by blast
  qed
  let ?R = "{(oid_of_slot (unat i, c), full) | c full.
        (\<exists>p\<le>unat q. om_locate om p = Some (unat i, c))
      \<and> full = (\<forall>p. om_locate om p = Some (unat i, c) \<longrightarrow> p \<le> unat q)}"
  have "\<not> num_stripes om \<le> i" using i chain(3) by (simp add: num_stripes_def word_le_nat_alt)
  moreover obtain oid l where "om_map om q = Some (Some oid, l)" using om_map_mapped [OF wf] q by blast
  ultimately have step: "om_map_to om q i False =
      Some (Some (if q < st_min st then [] else map_to_objects st q), i + 1, False)"
    by (simp add: om_map_to_def st(1))
  show ?thesis
  proof (cases "q < st_min st")
    case True
    then have "?R = {}" using st(4) by (auto simp: R(1) word_less_nat_alt)
    then show ?thesis using step True by simp
  next
    case False
    have hyps: "unat (st_max st) + 1 = unat (st_min st) + unat (st_width st) * unat (ms_slots ?s)"
        "0 < st_width st" "st_oids st = make_oids i (st_width st)"
        "unat (st_min st) mod unat (st_width st) = 0"
      using st w b size by simp_all
    note m = map_to_objects_set [OF hyps(1) k hyps(2-4), of q, unfolded st(2,4)]
    have "set (map_to_objects st q) = ?R"
      unfolding m(1) R(1)
    proof (intro Collect_cong ex_cong1)
      fix z c full
      show "(z = (make_oid_index i (of_nat c), full) \<and> c < ?w \<and> ?b + c \<le> unat q
          \<and> full = (?b + ?w * (unat (ms_slots ?s) - 1) + c \<le> unat q)) \<longleftrightarrow>
        (z = (oid_of_slot (unat i, c), full) \<and> (c < ?w \<and> ?b + c \<le> unat q)
          \<and> full = (\<forall>p. om_locate om p = Some (unat i, c) \<longrightarrow> p \<le> unat q))"
        using R(2) [of c] by (simp add: oid_of_slot_def) blast
    qed
    moreover have "distinct (map fst (map_to_objects st q))"
    proof -
      have "distinct (map (\<lambda>c. make_oid_index i (of_nat c)) [0..<?w])"
        using distinct_make_oids [of i "ms_width ?s"] by (simp add: make_oids_def)
      then show ?thesis unfolding m(2) by (auto simp: distinct_map intro: inj_on_subset)
    qed
    ultimately show ?thesis using step False by simp
  qed
qed

section \<open>Objects are not shared between stripes\<close>

lemma om_locate_bounds:
  assumes "om_wf om" and "om_locate om q = Some (i, c)"
  shows "i < om_ids om" and "i < 2 ^ 64" and "c < 2 ^ 32"
proof -
  note chain = om_wf_chain [OF assms(1)]
  have "q < om_span om" using om_locate_dom [OF assms(1), of q] assms(2) by simp
  then obtain j where j: "j < length (stripes_by_pos om)" "in_range (snd (stripes_by_pos om ! j)) q"
    using chain_find [OF chain(1), of q] by (auto simp: om_span_def)
  let ?s = "snd (stripes_by_pos om ! j)"
  note n = ms_chain_nth [OF chain(1) j(1)]
  have slot: "slot_of ?s q = (i, c)"
    using assms(2) ms_locate_nth [OF chain(1) j] by (simp add: om_locate_def)
  have "q - unat (ms_min ?s) < unat (ms_instances ?s) * ms_size ?s"
    using j(2) by (auto simp: in_range_def ms_span_def)
  then have "(q - unat (ms_min ?s)) div ms_size ?s < unat (ms_instances ?s)"
    by (simp add: less_mult_imp_div_less)
  then have "i < unat (ms_base_id ?s) + unat (ms_instances ?s)"
    using slot by (auto simp: slot_of_def)
  then show i: "i < om_ids om"
    using n(3) chain_ids_take_mono [of "Suc j" "length (stripes_by_pos om)" "stripes_by_pos om"]
      chain_ids_take_Suc [OF j(1)] j(1) by (simp add: om_ids_def)
  then show "i < 2 ^ 64" using chain(3) unat_u64_bound [of "next_stripe_id om"] by (simp add: om_ids_def)
  have "0 < unat (ms_width ?s)" using n(4) by (auto simp: ms_asserts_def word_less_nat_alt)
  then have "c < unat (ms_width ?s)" using slot by (auto simp: slot_of_def)
  then have "c < 4294967296" using unat_u32_bound by (rule less_trans)
  then show "c < 2 ^ 32" by simp
qed

lemma oid_of_slot_inject:
  assumes "i < 2 ^ 64" and "j < 2 ^ 64" and "c < 2 ^ 32" and "d < 2 ^ 32"
  shows "oid_of_slot (i, c) = oid_of_slot (j, d) \<longleftrightarrow> i = j \<and> c = d"
proof -
  have "(of_nat i :: u64) = of_nat j \<longleftrightarrow> i = j" using assms(1,2) by (intro of_nat_u64_inject) simp_all
  moreover have "(of_nat c :: u32) = of_nat d \<longleftrightarrow> c = d" using assms(3,4) by (intro of_nat_u32_inject) simp_all
  ultimately show ?thesis by (simp add: oid_of_slot_def)
qed

text \<open>The full-trim flag of \<^verbatim>\<open>map_to\<close> holds for later maps too: a stripe that exists gains no position.\<close>

lemma full_object_later:
  assumes "om_wf om" and "om_wf om'" and "om_le om om'"
    and "p \<le> q" and "om_locate om p = Some (i, c)"
    and "\<forall>p. om_locate om p = Some (i, c) \<longrightarrow> p \<le> q"
    and "map_option oid_of_slot (om_locate om' p') = Some (oid_of_slot (i, c))"
  shows "p' \<le> q"
proof -
  obtain j d where jd: "om_locate om' p' = Some (j, d)" "oid_of_slot (j, d) = oid_of_slot (i, c)"
    using assms(7) by auto
  note b = om_locate_bounds [OF assms(1,5)] and b' = om_locate_bounds [OF assms(2) jd(1)]
  have "j = i" "d = c" using jd(2) b b' by (simp_all add: oid_of_slot_inject)
  then show ?thesis using om_leD(4) [OF assms(3), of p' i c] jd(1) b(1) assms(6) by blast
qed

end
