(* ===== verification/View.thy ===== *)
theory View
  imports Object_Map
begin

text \<open>
  Sequencers and views: \<^verbatim>\<open>libzlog/sequencer.h\<close>, \<^verbatim>\<open>libzlog/sequencer.cc\<close>, \<^verbatim>\<open>libzlog/view.h\<close> and
  \<^verbatim>\<open>libzlog/view.cc\<close>. The byte format is FlatBuffers, which is not part of the sources: it is the
  parameter \<open>view_codec\<close>, a builder from tables to bytes and a verifying reader from bytes to
  tables. What the code relies on is \<open>codec_ok\<close>: reading the bytes of a finished table gives that
  table back; the theory \<open>Text_Codec\<close> holds one codec with this property.
\<close>

section \<open>Sequencers\<close>

record sequencer =
  sq_epoch :: u64
  sq_position :: u64

definition check_tail :: "bool \<Rightarrow> sequencer \<Rightarrow> u64 \<times> sequencer" where
  "check_tail next sq =
     (if next then (sq_position sq, sq\<lparr>sq_position := sq_position sq + 1\<rparr>)
      else (sq_position sq, sq))"

record seq_config =
  sc_epoch :: u64
  sc_token :: string
  sc_position :: u64

record fbs_sequencer =
  fsq_epoch :: u64
  fsq_token :: "string option"
  fsq_position :: u64

text \<open>\<^verbatim>\<open>GetString\<close> of an absent string is the empty string.\<close>

definition seq_config_decode :: "fbs_sequencer option \<Rightarrow> seq_config option option" where
  "seq_config_decode seq =
     (case seq of
        None \<Rightarrow> Some None
      | Some t \<Rightarrow>
          if \<not> 0 < fsq_epoch t then None
          else let token = (case fsq_token t of None \<Rightarrow> '''' | Some s \<Rightarrow> s)
               in if token = '''' then None
                  else Some (Some \<lparr>sc_epoch = fsq_epoch t, sc_token = token,
                                   sc_position = fsq_position t\<rparr>))"

text \<open>The token is handed over by \<^verbatim>\<open>c_str()\<close>.\<close>

definition seq_config_encode :: "seq_config \<Rightarrow> fbs_sequencer" where
  "seq_config_encode c = \<lparr>fsq_epoch = sc_epoch c, fsq_token = Some (c_str (sc_token c)),
     fsq_position = sc_position c\<rparr>"

section \<open>Views\<close>

record view =
  v_object_map :: object_map
  v_seq_config :: "seq_config option"

record fbs_view =
  fv_object_map :: "fbs_object_map option"
  fv_sequencer :: "fbs_sequencer option"

record view_codec =
  fb_ser :: "fbs_view \<Rightarrow> string"
  fb_de :: "string \<Rightarrow> fbs_view option"

definition view_decode :: "view_codec \<Rightarrow> string \<Rightarrow> view option" where
  "view_decode codec view_data =
     Option.bind (fb_de codec view_data) (\<lambda>t.
     Option.bind (om_decode (fv_object_map t)) (\<lambda>om.
     Option.bind (seq_config_decode (fv_sequencer t)) (\<lambda>sc.
       Some \<lparr>v_object_map = om, v_seq_config = sc\<rparr>)))"

definition view_encode :: "view_codec \<Rightarrow> view \<Rightarrow> string option" where
  "view_encode codec v =
     Option.bind (om_encode (v_object_map v)) (\<lambda>encoded_object_map.
       Some (fb_ser codec \<lparr>fv_object_map = Some encoded_object_map,
                           fv_sequencer = map_option seq_config_encode (v_seq_config v)\<rparr>))"

definition create_initial :: "view_codec \<Rightarrow> options \<Rightarrow> string option" where
  "create_initial codec opts =
     Option.bind
       (if create_initial_view_stripes opts
        then map_option (\<lambda>s. fst (smap_emplace 0 s []))
               (multi_stripe_new 0 (stripe_width opts) (stripe_slots opts) 0 1
                  (ucast (stripe_width opts * stripe_slots opts - 1)))
        else Some []) (\<lambda>stripes.
     Option.bind
       (if stripes = []
        then Some \<lparr>fom_next_stripe_id = 0, fom_stripes = None, fom_min_valid_position = 0\<rparr>
        else Option.bind (om_new 1 stripes 0) om_encode) (\<lambda>object_map.
       Some (fb_ser codec \<lparr>fv_object_map = Some object_map, fv_sequencer = None\<rparr>)))"

definition view_expand_mapping :: "view \<Rightarrow> u64 \<Rightarrow> options \<Rightarrow> view option option" where
  "view_expand_mapping v position opts =
     map_option (map_option (\<lambda>om. \<lparr>v_object_map = om, v_seq_config = v_seq_config v\<rparr>))
       (om_expand_mapping (v_object_map v) position opts)"

definition view_advance_min_valid_position :: "view \<Rightarrow> u64 \<Rightarrow> view option option" where
  "view_advance_min_valid_position v position =
     map_option (map_option (\<lambda>om. \<lparr>v_object_map = om, v_seq_config = v_seq_config v\<rparr>))
       (om_advance_min_valid_position (v_object_map v) position)"

definition with_sequencer_config :: "view \<Rightarrow> seq_config \<Rightarrow> view" where
  "with_sequencer_config v seq_config =
     \<lparr>v_object_map = v_object_map v, v_seq_config = Some seq_config\<rparr>"

text \<open>A view read from storage: its epoch, and a reference to the shared sequencer object once one
  is attached.\<close>

record versioned_view =
  vv_view :: view
  vv_epoch :: u64
  vv_seq :: "nat option"

definition versioned_view_new :: "view_codec \<Rightarrow> u64 \<Rightarrow> string \<Rightarrow> versioned_view option" where
  "versioned_view_new codec epoch view_data =
     map_option (\<lambda>v. \<lparr>vv_view = v, vv_epoch = epoch, vv_seq = None\<rparr>) (view_decode codec view_data)"

section \<open>Round trips\<close>

definition codec_ok :: "view_codec \<Rightarrow> bool" where
  "codec_ok codec \<longleftrightarrow> (\<forall>t. fb_de codec (fb_ser codec t) = Some t)"

definition token_ok :: "string \<Rightarrow> bool" where
  "token_ok s \<longleftrightarrow> s \<noteq> '''' \<and> CHR 0x00 \<notin> set s"

definition seq_config_ok :: "seq_config \<Rightarrow> bool" where
  "seq_config_ok c \<longleftrightarrow> 0 < sc_epoch c \<and> token_ok (sc_token c)"

definition view_wf :: "view \<Rightarrow> bool" where
  "view_wf v \<longleftrightarrow> om_wf (v_object_map v)
     \<and> (case v_seq_config v of None \<Rightarrow> True | Some c \<Rightarrow> seq_config_ok c)"

lemma c_str_token [simp]: "token_ok s \<Longrightarrow> c_str s = s"
  by (simp add: token_ok_def c_str_id)

lemma seq_config_decode_encode:
  "seq_config_ok c \<Longrightarrow> seq_config_decode (Some (seq_config_encode c)) = Some (Some c)"
  by (cases c) (simp add: seq_config_decode_def seq_config_encode_def seq_config_ok_def,
      simp add: token_ok_def)

lemma view_encode_decode:
  assumes "codec_ok codec" and "view_wf v"
  obtains data where "view_encode codec v = Some data" and "view_decode codec data = Some v"
proof -
  obtain t where t: "om_encode (v_object_map v) = Some t" "om_decode (Some t) = Some (v_object_map v)"
    using assms(2) by (auto simp: view_wf_def elim: om_decode_encode)
  have "seq_config_decode (map_option seq_config_encode (v_seq_config v)) = Some (v_seq_config v)"
    using assms(2) seq_config_decode_encode
    by (cases "v_seq_config v") (auto simp: view_wf_def seq_config_decode_def)
  then show ?thesis
    using that t assms(1) by (simp add: view_encode_def view_decode_def codec_ok_def)
qed

text \<open>The initial view: one stripe in the shape the options ask for, or no stripe.\<close>

definition initial_map :: "options \<Rightarrow> object_map" where
  "initial_map opts =
     (if create_initial_view_stripes opts then chain_map 1 [(0, initial_stripe opts)] 0
      else chain_map 0 [] 0)"

lemma initial_map_wf:
  assumes "create_initial_view_stripes opts \<longrightarrow> stripe_options_ok opts"
  shows "om_wf (initial_map opts)"
  using assms om_new_chain(2) [OF initial_stripe_ok(4), of opts 1 0] om_new_chain(2) [of "[]" 0 0]
  by (auto simp: initial_map_def initial_stripe_def)

lemma create_initial_decode:
  assumes "codec_ok codec" and "create_initial_view_stripes opts \<longrightarrow> stripe_options_ok opts"
  obtains data where "create_initial codec opts = Some data"
    and "view_decode codec data = Some \<lparr>v_object_map = initial_map opts, v_seq_config = None\<rparr>"
proof (cases "create_initial_view_stripes opts")
  case True
  with assms(2) have ok: "stripe_options_ok opts" by simp
  let ?s = "initial_stripe opts"
  have "multi_stripe_new 0 (stripe_width opts) (stripe_slots opts) 0 1
      (ucast (stripe_width opts * stripe_slots opts - 1)) = Some ?s"
    using initial_stripe_ok(1) [OF ok] by (simp add: multi_stripe_new_def initial_stripe_def)
  moreover have "unat (1 :: u64) = chain_ids [(0, ?s)]" by (simp add: initial_stripe_def)
  note om = om_new_chain [OF initial_stripe_ok(4) [OF ok] this, of 0]
  obtain t where "om_encode (chain_map 1 [(0, ?s)] 0) = Some t"
      "om_decode (Some t) = Some (chain_map 1 [(0, ?s)] 0)"
    using om(2) by (rule om_decode_encode)
  ultimately show ?thesis
    using that om(1) True assms(1)
    by (simp add: create_initial_def view_decode_def codec_ok_def initial_map_def
        seq_config_decode_def)
next
  case False
  have "om_new 0 [] 0 = Some (chain_map 0 [] 0)" by (rule om_new_chain(1)) simp_all
  then show ?thesis
    using that False assms(1)
    by (simp add: create_initial_def view_decode_def codec_ok_def initial_map_def om_decode_def
        seq_config_decode_def)
qed

section \<open>How views evolve\<close>

text \<open>The three ways a client derives the next view. Each keeps the well-formedness and every mapped
  position's object.\<close>

lemma view_expand_some:
  assumes "view_wf v" and "om_span (v_object_map v) \<le> unat q"
    and "stripes_by_pos (v_object_map v) = [] \<longrightarrow> stripe_options_ok opts"
    and "unat q + grow_size opts (v_object_map v) < 2 ^ 64"
  obtains v' where "view_expand_mapping v q opts = Some (Some v')" and "view_wf v'"
    and "om_le (v_object_map v) (v_object_map v')" and "unat q < om_span (v_object_map v')"
    and "v_seq_config v' = v_seq_config v"
    and "min_valid_position (v_object_map v') = min_valid_position (v_object_map v)"
    and "om_aligned (v_object_map v) \<longrightarrow> om_aligned (v_object_map v')"
proof -
  have wf: "om_wf (v_object_map v)" using assms(1) by (simp add: view_wf_def)
  obtain om' where om': "om_expand_mapping (v_object_map v) q opts = Some (Some om')" "om_wf om'"
      "om_le (v_object_map v) om'" "unat q < om_span om'"
      "min_valid_position om' = min_valid_position (v_object_map v)"
      "om_aligned (v_object_map v) \<longrightarrow> om_aligned om'"
    by (rule expand_mapping_some [OF wf assms(2-4)])
  show ?thesis
    by (rule that [of "\<lparr>v_object_map = om', v_seq_config = v_seq_config v\<rparr>"])
      (use om' assms(1) in \<open>simp_all add: view_expand_mapping_def view_wf_def\<close>)
qed

lemma view_expand_mapped:
  "view_wf v \<Longrightarrow> unat q < om_span (v_object_map v) \<Longrightarrow> view_expand_mapping v q opts = Some None"
  by (simp add: view_expand_mapping_def view_wf_def expand_mapping_mapped)

lemma view_advance_some:
  assumes "view_wf v"
  shows "view_advance_min_valid_position v p =
    Some (if p \<le> min_valid_position (v_object_map v) then None
          else Some (v\<lparr>v_object_map := (v_object_map v)\<lparr>min_valid_position := p\<rparr>\<rparr>))"
    and "view_wf (v\<lparr>v_object_map := (v_object_map v)\<lparr>min_valid_position := p\<rparr>\<rparr>)"
  using assms advance_min_valid_some [of "v_object_map v" p]
  by (auto simp: view_advance_min_valid_position_def view_wf_def)

lemma with_sequencer_config_wf:
  "view_wf v \<Longrightarrow> seq_config_ok c \<Longrightarrow> view_wf (with_sequencer_config v c)"
  by (simp add: view_wf_def with_sequencer_config_def)

end
