(* ===== verification/Log_Backend.thy ===== *)
theory Log_Backend
  imports Backend View
begin

text \<open>
  The class \<^verbatim>\<open>LogBackend\<close> of \<^verbatim>\<open>libzlog/log_backend.h\<close>: a backend together with the name of the head
  object, the prefix of the data objects and the token of the client. Then the state of one log as
  all its clients see it: the accepted views, and the entry at every position.
\<close>

record 's log_backend =
  lb_ops :: "'s backend_ops"
  lb_hoid :: string
  lb_prefix :: string
  lb_token :: string

definition log_backend_new :: "'s backend_ops \<Rightarrow> string \<Rightarrow> string \<Rightarrow> string \<Rightarrow> 's log_backend option" where
  "log_backend_new ops hoid prefix token =
     (if hoid \<noteq> '''' \<and> prefix \<noteq> '''' \<and> token \<noteq> ''''
      then Some \<lparr>lb_ops = ops, lb_hoid = hoid, lb_prefix = prefix, lb_token = token\<rparr> else None)"

definition prefixed_oid :: "'s log_backend \<Rightarrow> string \<Rightarrow> string" where
  "prefixed_oid lb oid = lb_prefix lb @ ''.'' @ oid"

definition lb_ReadViews :: "'s log_backend \<Rightarrow> u64 \<Rightarrow> u32 \<Rightarrow> 's \<Rightarrow> (u64, string) smap ret" where
  "lb_ReadViews lb epoch max_views s = b_ReadViews (lb_ops lb) (lb_hoid lb) epoch max_views s"

definition lb_ProposeView :: "'s log_backend \<Rightarrow> u64 \<Rightarrow> string \<Rightarrow> 's \<Rightarrow> unit ret \<times> 's" where
  "lb_ProposeView lb epoch view s = b_ProposeView (lb_ops lb) (lb_hoid lb) epoch view s"

definition lb_Read :: "'s log_backend \<Rightarrow> string \<Rightarrow> u64 \<Rightarrow> u64 \<Rightarrow> 's \<Rightarrow> string ret" where
  "lb_Read lb oid epoch position s = b_Read (lb_ops lb) (prefixed_oid lb oid) epoch position s"

definition lb_Write ::
  "'s log_backend \<Rightarrow> string \<Rightarrow> string \<Rightarrow> u64 \<Rightarrow> u64 \<Rightarrow> 's \<Rightarrow> unit ret \<times> 's" where
  "lb_Write lb oid data epoch position s =
     b_Write (lb_ops lb) (prefixed_oid lb oid) data epoch position s"

definition lb_Fill :: "'s log_backend \<Rightarrow> string \<Rightarrow> u64 \<Rightarrow> u64 \<Rightarrow> 's \<Rightarrow> unit ret \<times> 's" where
  "lb_Fill lb oid epoch position s = b_Fill (lb_ops lb) (prefixed_oid lb oid) epoch position s"

definition lb_Trim ::
  "'s log_backend \<Rightarrow> string \<Rightarrow> u64 \<Rightarrow> u64 \<Rightarrow> bool \<Rightarrow> bool \<Rightarrow> 's \<Rightarrow> unit ret \<times> 's" where
  "lb_Trim lb oid epoch position trim_limit trim_full s =
     b_Trim (lb_ops lb) (prefixed_oid lb oid) epoch position trim_limit trim_full s"

definition lb_Seal :: "'s log_backend \<Rightarrow> string \<Rightarrow> u64 \<Rightarrow> 's \<Rightarrow> unit ret \<times> 's" where
  "lb_Seal lb oid epoch s = b_Seal (lb_ops lb) (prefixed_oid lb oid) epoch s"

definition lb_MaxPos :: "'s log_backend \<Rightarrow> string \<Rightarrow> 's \<Rightarrow> u64 option ret" where
  "lb_MaxPos lb oid s = b_MaxPos (lb_ops lb) (prefixed_oid lb oid) s"

definition lb_Stat :: "'s log_backend \<Rightarrow> string \<Rightarrow> 's \<Rightarrow> nat ret" where
  "lb_Stat lb oid s = b_Stat (lb_ops lb) (prefixed_oid lb oid) s"

lemmas lb_defs = lb_ReadViews_def lb_ProposeView_def lb_Read_def lb_Write_def lb_Fill_def
  lb_Trim_def lb_Seal_def lb_MaxPos_def lb_Stat_def

lemma prefixed_oid_inject [simp]: "prefixed_oid lb a = prefixed_oid lb b \<longleftrightarrow> a = b"
  by (simp add: prefixed_oid_def)

lemma prefixed_oid_nonempty [simp]: "prefixed_oid lb a \<noteq> ''''"
  by (simp add: prefixed_oid_def)

section \<open>The state of one log\<close>

text \<open>\<open>view_history\<close> decodes the accepted views, oldest first. A history is well formed when every view
  is, and when each view keeps the object of every position its predecessor maps.\<close>

definition view_history :: "view_codec \<Rightarrow> string list \<Rightarrow> view list option" where
  "view_history codec vs = those (map (view_decode codec) vs)"

definition history_wf :: "view list \<Rightarrow> bool" where
  "history_wf vs \<longleftrightarrow> (\<forall>v\<in>set vs. view_wf v \<and> om_aligned (v_object_map v))
     \<and> sorted_wrt (\<lambda>v w. om_le (v_object_map v) (v_object_map w)) vs"

lemma history_wf_nth:
  "history_wf vs \<Longrightarrow> i < length vs \<Longrightarrow> view_wf (vs ! i) \<and> om_aligned (v_object_map (vs ! i))"
  by (simp add: history_wf_def)

lemma history_wf_le:
  "history_wf vs \<Longrightarrow> i \<le> j \<Longrightarrow> j < length vs \<Longrightarrow> om_le (v_object_map (vs ! i)) (v_object_map (vs ! j))"
  by (cases "i = j") (auto simp: history_wf_def sorted_wrt_iff_nth_less)

lemma history_wf_snoc:
  assumes "history_wf vs" and "vs \<noteq> []" and "view_wf v" and "om_aligned (v_object_map v)"
    and "om_le (v_object_map (last vs)) (v_object_map v)"
  shows "history_wf (vs @ [v])"
proof -
  have "om_le (v_object_map w) (v_object_map v)" if w: "w \<in> set vs" for w
  proof -
    obtain i where i: "i < length vs" "w = vs ! i" using w by (auto simp: in_set_conv_nth)
    then have "om_le (v_object_map w) (v_object_map (last vs))"
      using history_wf_le [OF assms(1), of i "length vs - 1"] by (simp add: last_conv_nth assms(2))
    then show ?thesis using assms(5) om_le_trans by blast
  qed
  then show ?thesis using assms by (auto simp: history_wf_def sorted_wrt_append)
qed

lemma view_history_snoc:
  "view_history codec vs = Some hs \<Longrightarrow> view_decode codec d = Some v \<Longrightarrow>
   view_history codec (vs @ [d]) = Some (hs @ [v])"
  unfolding view_history_def
  by (induction vs arbitrary: hs) (auto split: option.splits)

lemma view_history_nth:
  "view_history codec vs = Some hs \<Longrightarrow>
   length hs = length vs \<and> (\<forall>i < length vs. view_decode codec (vs ! i) = Some (hs ! i))"
  unfolding view_history_def
  by (induction vs arbitrary: hs) (auto split: option.splits simp: nth_Cons split: nat.split)

text \<open>The object of a position, and what that object holds at it.\<close>

definition slot_oid :: "view \<Rightarrow> u64 \<Rightarrow> string option" where
  "slot_oid v p = map_option oid_of_slot (om_locate (v_object_map v) (unat p))"

lemma slot_oid_map:
  assumes "view_wf v"
  shows "om_map (v_object_map v) p = Some (oid, l) \<Longrightarrow> slot_oid v p = oid"
    and "\<exists>l. om_map (v_object_map v) p = Some (slot_oid v p, l)"
  using om_map_spec [of "v_object_map v" p] assms by (auto simp: view_wf_def slot_oid_def)

lemma slot_oid_le:
  assumes "view_wf v" and "om_le (v_object_map v) (v_object_map w)" and "slot_oid v p = Some oid"
  shows "slot_oid w p = Some oid"
proof -
  have "unat p < om_span (v_object_map v)"
    using assms(1,3) om_locate_dom [of "v_object_map v" "unat p"] by (auto simp: slot_oid_def view_wf_def)
  from om_leD(3) [OF assms(2) this] show ?thesis using assms(3) by (simp add: slot_oid_def)
qed

text \<open>
  The contents of the log under a list of decoded views: the object the newest view maps the position
  to is asked for the entry. \<open>log_wf\<close> says that a view exists, that the views evolve as they should, and
  that no object holds an entry for a position that the newest view maps elsewhere.
\<close>

definition log_get :: "(string \<Rightarrow> aobj option) \<Rightarrow> 's log_backend \<Rightarrow> view list \<Rightarrow> u64 \<Rightarrow> entry option" where
  "log_get objs lb hs p =
     (case slot_oid (last hs) p of None \<Rightarrow> None | Some oid \<Rightarrow>
        (case objs (prefixed_oid lb oid) of None \<Rightarrow> None | Some x \<Rightarrow> ao_get x p))"

definition log_wf :: "(string \<Rightarrow> aobj option) \<Rightarrow> 's log_backend \<Rightarrow> view list \<Rightarrow> bool" where
  "log_wf objs lb hs \<longleftrightarrow> hs \<noteq> [] \<and> history_wf hs
     \<and> (\<forall>oid x p. objs (prefixed_oid lb oid) = Some x \<longrightarrow> ao_entries x p \<noteq> None
          \<longrightarrow> slot_oid (last hs) p = Some oid)"

end
