(* ===== verification/RAM_Backend.thy ===== *)
theory RAM_Backend
  imports Backend
begin

text \<open>
  The in-memory backend of \<^verbatim>\<open>storage/ram/ram.cc\<close> and \<^verbatim>\<open>include/zlog/backend/ram.h\<close>. Every method
  runs under one mutex, so a call is one step. The random UUID generator of Boost is the field
  \<open>ram_uuids\<close>, the sequence of the values it will give; the process-wide counter of
  \<^verbatim>\<open>uniqueId\<close> is a field too. \<^verbatim>\<open>boost::get\<close> on the wrong alternative throws: \<open>Inl BadGet\<close>.
  The theory ends with the interpretation of the contract \<open>backend\<close>.
\<close>

section \<open>State\<close>

record log_entry =
  le_trimmed :: bool
  le_invalidated :: bool
  le_data :: string

record log_object =
  lo_epoch :: u64
  lo_maxpos :: u64
  lo_entries :: "(u64 \<times> log_entry) list"
  lo_trim_limit :: "u64 option"

record projection_object =
  po_epoch :: u64
  po_prefix :: string
  po_projections :: "(u64, string) smap"

datatype ram_object =
    LinkObject string
  | ProjObject projection_object
  | LogObject log_object

record ram =
  ram_blackhole :: bool
  ram_options :: "(string \<times> string) list"
  ram_objects :: "(string \<times> ram_object) list"
  ram_unique_id :: u64
  ram_uuids :: "nat \<Rightarrow> string"
  ram_next_uuid :: nat

definition log_entry_new :: log_entry where
  "log_entry_new = \<lparr>le_trimmed = False, le_invalidated = False, le_data = ''''\<rparr>"

definition log_object_new :: log_object where
  "log_object_new = \<lparr>lo_epoch = 0, lo_maxpos = 0, lo_entries = [], lo_trim_limit = None\<rparr>"

definition ram_new :: "(nat \<Rightarrow> string) \<Rightarrow> ram" where
  "ram_new uuids = \<lparr>ram_blackhole = False, ram_options = [(''scheme'', ''ram'')], ram_objects = [],
     ram_unique_id = 0, ram_uuids = uuids, ram_next_uuid = 0\<rparr>"

section \<open>Initialisation, log directory\<close>

definition to_lower :: "char \<Rightarrow> char" where
  "to_lower c = (let n = (of_char c :: nat) in if 65 \<le> n \<and> n \<le> 90 then char_of (n + 32) else c)"

definition iequals :: "string \<Rightarrow> string \<Rightarrow> bool" where
  "iequals a b \<longleftrightarrow> map to_lower a = map to_lower b"

definition ram_Initialize :: "(string \<times> string) list \<Rightarrow> ram \<Rightarrow> unit ret \<times> ram" where
  "ram_Initialize opts s =
     (case map_of opts ''blackhole'' of
        None \<Rightarrow> (Inr (), s)
      | Some v \<Rightarrow> (Inr (), s\<lparr>ram_blackhole := iequals v ''yes'' \<or> iequals v ''true''\<rparr>))"

definition ram_meta :: "ram \<Rightarrow> (string \<times> string) list" where
  "ram_meta s = ram_options s"

definition ram_uniqueId :: "string \<Rightarrow> ram \<Rightarrow> u64 ret \<times> ram" where
  "ram_uniqueId hoid s =
     (if hoid = '''' then (Inl EINVAL, s)
      else (Inr (ram_unique_id s), s\<lparr>ram_unique_id := ram_unique_id s + 1\<rparr>))"

definition ram_CreateLog :: "string \<Rightarrow> string \<Rightarrow> ram \<Rightarrow> (string \<times> string) ret \<times> ram" where
  "ram_CreateLog name view s =
     (if name = '''' then (Inl EINVAL, s)
      else
        let key = ram_uuids s (ram_next_uuid s);
            s0 = s\<lparr>ram_next_uuid := ram_next_uuid s + 1\<rparr>;
            hoid = ''zlog.head.'' @ key;
            prefix = ''zlog.data.'' @ key;
            proj = \<lparr>po_epoch = 1, po_prefix = prefix, po_projections = fst (smap_emplace 1 view [])\<rparr>;
            (objects1, inserted) = um_emplace hoid (ProjObject proj) (ram_objects s0)
        in if \<not> inserted then (Inl Aborted, s0)
           else
             let s1 = s0\<lparr>ram_objects := objects1\<rparr>;
                 prefixed_name = ''head.'' @ name;
                 (objects2, inserted2) = um_emplace prefixed_name (LinkObject hoid) (ram_objects s1)
             in if \<not> inserted2 then (Inl EEXIST, s1)
                else (Inr (hoid, prefix), s1\<lparr>ram_objects := objects2\<rparr>))"

definition ram_OpenLog :: "string \<Rightarrow> ram \<Rightarrow> (string \<times> string) ret" where
  "ram_OpenLog name s =
     (if name = '''' then Inl EINVAL
      else case map_of (ram_objects s) (''head.'' @ name) of
        None \<Rightarrow> Inl ENOENT
      | Some (LinkObject link_hoid) \<Rightarrow>
          (case map_of (ram_objects s) link_hoid of
             None \<Rightarrow> Inl EIO
           | Some (ProjObject hoid) \<Rightarrow> Inr (link_hoid, po_prefix hoid)
           | Some _ \<Rightarrow> Inl BadGet)
      | Some _ \<Rightarrow> Inl BadGet)"

definition ram_ListLinks :: "ram \<Rightarrow> string list" where
  "ram_ListLinks s = filter (\<lambda>key. starts_with key ''head.'') (map fst (ram_objects s))"

definition ram_ListHeads :: "ram \<Rightarrow> string list" where
  "ram_ListHeads s =
     filter (\<lambda>key. starts_with key ''zlog.head.''
        \<and> CHR ''.'' \<notin> set (drop (length ''zlog.head.'') key)) (map fst (ram_objects s))"

section \<open>Views\<close>

fun ram_view_loop ::
  "nat \<Rightarrow> u64 \<Rightarrow> (u64, string) smap \<Rightarrow> (u64, string) smap \<Rightarrow> (u64, string) smap option" where
  "ram_view_loop 0 epoch it2 views = Some views"
| "ram_view_loop (Suc n) epoch [] views = Some views"
| "ram_view_loop (Suc n) epoch ((k, v) # it2) views =
     (if k \<noteq> epoch then None
      else ram_view_loop n (epoch + 1) it2 (fst (smap_emplace epoch v views)))"

definition ram_ReadViews :: "string \<Rightarrow> u64 \<Rightarrow> u32 \<Rightarrow> ram \<Rightarrow> (u64, string) smap ret" where
  "ram_ReadViews hoid epoch max_views s =
     (if hoid = '''' then Inl EINVAL
      else case map_of (ram_objects s) hoid of
        None \<Rightarrow> Inl ENOENT
      | Some (ProjObject proj_obj) \<Rightarrow>
          if po_epoch proj_obj < epoch then Inr []
          else if epoch = 0 then
            (if po_projections proj_obj = [] then Inr []
             else let it2 = last (po_projections proj_obj)
                  in Inr (fst (smap_emplace (fst it2) (snd it2) [])))
          else
            (let it2 = dropWhile (\<lambda>e. fst e \<noteq> epoch) (po_projections proj_obj)
             in if it2 = [] then Inl EIO
                else case ram_view_loop (unat max_views) epoch it2 [] of
                  None \<Rightarrow> Inl Aborted
                | Some views \<Rightarrow> Inr views)
      | Some _ \<Rightarrow> Inl BadGet)"

definition ram_ProposeView :: "string \<Rightarrow> u64 \<Rightarrow> string \<Rightarrow> ram \<Rightarrow> unit ret \<times> ram" where
  "ram_ProposeView hoid epoch view s =
     (if hoid = '''' then (Inl EINVAL, s)
      else if epoch = 0 then (Inl EINVAL, s)
      else case map_of (ram_objects s) hoid of
        None \<Rightarrow> (Inl ENOENT, s)
      | Some (ProjObject proj_obj) \<Rightarrow>
          (let required_epoch = po_epoch proj_obj + 1
           in if required_epoch < epoch then (Inl EINVAL, s)
              else if epoch \<noteq> required_epoch then (Inl ESPIPE, s)
              else
                let (projections', inserted) = smap_emplace epoch view (po_projections proj_obj)
                in if \<not> inserted then (Inl EEXIST, s)
                   else (Inr (), s\<lparr>ram_objects := um_assign hoid
                           (ProjObject (proj_obj\<lparr>po_projections := projections', po_epoch := epoch\<rparr>))
                           (ram_objects s)\<rparr>))
      | Some _ \<Rightarrow> (Inl BadGet, s))"

section \<open>Log objects\<close>

definition ram_CheckEpoch :: "u64 \<Rightarrow> string \<Rightarrow> bool \<Rightarrow> ram \<Rightarrow> log_object ret" where
  "ram_CheckEpoch epoch oid eq s =
     (case map_of (ram_objects s) oid of
        None \<Rightarrow> Inl ENOENT
      | Some (LogObject lobj) \<Rightarrow>
          if eq then (if epoch \<noteq> lo_epoch lobj then Inl ESPIPE else Inr lobj)
          else if epoch < lo_epoch lobj then Inl ESPIPE
          else Inr lobj
      | Some _ \<Rightarrow> Inl BadGet)"

definition put_log_object :: "string \<Rightarrow> log_object \<Rightarrow> ram \<Rightarrow> ram" where
  "put_log_object oid lobj s = s\<lparr>ram_objects := um_assign oid (LogObject lobj) (ram_objects s)\<rparr>"

definition ram_Read :: "string \<Rightarrow> u64 \<Rightarrow> u64 \<Rightarrow> ram \<Rightarrow> string ret" where
  "ram_Read oid epoch position s =
     (if oid = '''' then Inl EINVAL
      else if epoch = 0 then Inl EINVAL
      else case ram_CheckEpoch epoch oid False s of
        Inl ret \<Rightarrow> Inl ret
      | Inr lobj \<Rightarrow>
          if below_limit (lo_trim_limit lobj) position then Inl ENODATA
          else case map_of (lo_entries lobj) position of
            None \<Rightarrow> Inl ERANGE
          | Some entry \<Rightarrow>
              if le_trimmed entry \<or> le_invalidated entry then Inl ENODATA else Inr (le_data entry))"

definition ram_Write :: "string \<Rightarrow> string \<Rightarrow> u64 \<Rightarrow> u64 \<Rightarrow> ram \<Rightarrow> unit ret \<times> ram" where
  "ram_Write oid data epoch position s =
     (if oid = '''' then (Inl EINVAL, s)
      else if epoch = 0 then (Inl EINVAL, s)
      else case ram_CheckEpoch epoch oid False s of
        Inl ret \<Rightarrow> (Inl ret, s)
      | Inr lobj \<Rightarrow>
          if below_limit (lo_trim_limit lobj) position then (Inl EROFS, s)
          else case map_of (lo_entries lobj) position of
            None \<Rightarrow>
              (let entry = (if ram_blackhole s then log_entry_new else log_entry_new\<lparr>le_data := data\<rparr>)
               in (Inr (), put_log_object oid
                    (lobj\<lparr>lo_entries := fst (um_emplace position entry (lo_entries lobj)),
                          lo_maxpos := max (lo_maxpos lobj) position\<rparr>) s))
          | Some _ \<Rightarrow> (Inl EROFS, s))"

definition ram_Trim :: "string \<Rightarrow> u64 \<Rightarrow> u64 \<Rightarrow> bool \<Rightarrow> bool \<Rightarrow> ram \<Rightarrow> unit ret \<times> ram" where
  "ram_Trim oid epoch position trim_limit trim_full s =
     (if trim_full \<and> \<not> trim_limit then (Inl EINVAL, s)
      else if oid = '''' then (Inl EINVAL, s)
      else if epoch = 0 then (Inl EINVAL, s)
      else case ram_CheckEpoch epoch oid False s of
        Inl ret \<Rightarrow> (Inl ret, s)
      | Inr lobj0 \<Rightarrow>
          let lobj = (if trim_limit
                      then (case lo_trim_limit lobj0 of
                              Some l \<Rightarrow> lobj0\<lparr>lo_trim_limit := Some (max position l)\<rparr>
                            | None \<Rightarrow> lobj0\<lparr>lo_trim_limit := Some position\<rparr>)
                      else lobj0)
          in if trim_full then (Inr (), put_log_object oid (lobj\<lparr>lo_entries := []\<rparr>) s)
             else if below_limit (lo_trim_limit lobj) position
             then (Inr (), put_log_object oid lobj s)
             else if trim_limit then (Inl Aborted, put_log_object oid lobj s)
             else case map_of (lo_entries lobj) position of
               None \<Rightarrow>
                 (let entry = log_entry_new\<lparr>le_trimmed := True, le_invalidated := True\<rparr>
                  in (Inr (), put_log_object oid
                       (lobj\<lparr>lo_entries := fst (um_emplace position entry (lo_entries lobj)),
                             lo_maxpos := max (lo_maxpos lobj) position\<rparr>) s))
             | Some entry \<Rightarrow>
                 (Inr (), put_log_object oid
                    (lobj\<lparr>lo_entries := um_assign position
                             (entry\<lparr>le_trimmed := True, le_data := ''''\<rparr>) (lo_entries lobj),
                          lo_maxpos := max (lo_maxpos lobj) position\<rparr>) s))"

definition ram_Stat :: "string \<Rightarrow> ram \<Rightarrow> nat ret" where
  "ram_Stat oid s =
     (if oid = '''' then Inl EINVAL
      else case ram_CheckEpoch (- 1) oid False s of
        Inl ret \<Rightarrow> Inl ret
      | Inr lobj \<Rightarrow> Inr (\<Sum>e\<leftarrow>lo_entries lobj. length (le_data (snd e))))"

definition ram_Fill :: "string \<Rightarrow> u64 \<Rightarrow> u64 \<Rightarrow> ram \<Rightarrow> unit ret \<times> ram" where
  "ram_Fill oid epoch position s =
     (if oid = '''' then (Inl EINVAL, s)
      else if epoch = 0 then (Inl EINVAL, s)
      else case ram_CheckEpoch epoch oid False s of
        Inl ret \<Rightarrow> (Inl ret, s)
      | Inr lobj \<Rightarrow>
          if below_limit (lo_trim_limit lobj) position then (Inr (), s)
          else case map_of (lo_entries lobj) position of
            None \<Rightarrow>
              (let entry = log_entry_new\<lparr>le_trimmed := True, le_invalidated := True\<rparr>
               in (Inr (), put_log_object oid
                    (lobj\<lparr>lo_entries := fst (um_emplace position entry (lo_entries lobj)),
                          lo_maxpos := max (lo_maxpos lobj) position\<rparr>) s))
          | Some entry \<Rightarrow>
              if le_trimmed entry \<or> le_invalidated entry then (Inr (), s) else (Inl EROFS, s))"

definition ram_Seal :: "string \<Rightarrow> u64 \<Rightarrow> ram \<Rightarrow> unit ret \<times> ram" where
  "ram_Seal oid epoch s =
     (if oid = '''' then (Inl EINVAL, s)
      else if epoch = 0 then (Inl EINVAL, s)
      else
        let (objects', inserted) = um_emplace oid (LogObject log_object_new) (ram_objects s);
            s' = s\<lparr>ram_objects := objects'\<rparr>
        in case map_of objects' oid of
          Some (LogObject ob) \<Rightarrow>
            if \<not> inserted \<and> epoch \<le> lo_epoch ob then (Inl ESPIPE, s')
            else (Inr (), put_log_object oid (ob\<lparr>lo_epoch := epoch\<rparr>) s')
        | _ \<Rightarrow> (Inl BadGet, s'))"

definition ram_MaxPos :: "string \<Rightarrow> ram \<Rightarrow> u64 option ret" where
  "ram_MaxPos oid s =
     (if oid = '''' then Inl EINVAL
      else case map_of (ram_objects s) oid of
        None \<Rightarrow> Inl ENOENT
      | Some (LogObject lobj) \<Rightarrow>
          if lo_entries lobj \<noteq> []
          then Inr (Some (case lo_trim_limit lobj of
                 None \<Rightarrow> lo_maxpos lobj | Some l \<Rightarrow> max (lo_maxpos lobj) l))
          else Inr (lo_trim_limit lobj)
      | Some _ \<Rightarrow> Inl BadGet)"

definition ram_ops :: "ram backend_ops" where
  "ram_ops = \<lparr>b_CreateLog = ram_CreateLog, b_OpenLog = ram_OpenLog, b_ReadViews = ram_ReadViews,
     b_ProposeView = ram_ProposeView, b_uniqueId = ram_uniqueId, b_Read = ram_Read,
     b_Write = ram_Write, b_Fill = ram_Fill, b_Trim = ram_Trim, b_Seal = ram_Seal,
     b_MaxPos = ram_MaxPos, b_Stat = ram_Stat\<rparr>"

section \<open>Abstraction\<close>

definition entry_abs :: "log_entry \<Rightarrow> entry" where
  "entry_abs e = (if le_trimmed e \<or> le_invalidated e then Junk else Data (le_data e))"

definition log_object_abs :: "log_object \<Rightarrow> aobj" where
  "log_object_abs lobj = \<lparr>ao_epoch = lo_epoch lobj, ao_limit = lo_trim_limit lobj,
     ao_entries = map_option entry_abs \<circ> map_of (lo_entries lobj)\<rparr>"

definition ram_obj :: "ram \<Rightarrow> string \<Rightarrow> aobj option" where
  "ram_obj s oid =
     (case map_of (ram_objects s) oid of Some (LogObject lobj) \<Rightarrow> Some (log_object_abs lobj) | _ \<Rightarrow> None)"

definition ram_views :: "ram \<Rightarrow> string \<Rightarrow> string list option" where
  "ram_views s hoid =
     (case map_of (ram_objects s) hoid of
        Some (ProjObject p) \<Rightarrow> Some (map snd (po_projections p)) | _ \<Rightarrow> None)"

definition ram_logs :: "ram \<Rightarrow> string \<Rightarrow> (string \<times> string) option" where
  "ram_logs s name =
     (case map_of (ram_objects s) (''head.'' @ name) of
        Some (LinkObject h) \<Rightarrow>
          (case map_of (ram_objects s) h of Some (ProjObject p) \<Rightarrow> Some (h, po_prefix p) | _ \<Rightarrow> None)
      | _ \<Rightarrow> None)"

definition ram_is_data :: "string \<Rightarrow> bool" where
  "ram_is_data oid \<longleftrightarrow> starts_with oid ''zlog.data.''"

definition proj_wf :: "projection_object \<Rightarrow> bool" where
  "proj_wf p \<longleftrightarrow> po_epoch p = of_nat (length (po_projections p))
     \<and> 0 < length (po_projections p) \<and> length (po_projections p) < 2 ^ 64
     \<and> map fst (po_projections p) = map (\<lambda>i. of_nat (Suc i)) [0..<length (po_projections p)]"

definition log_object_wf :: "log_object \<Rightarrow> bool" where
  "log_object_wf lobj \<longleftrightarrow> (\<forall>p\<in>dom (map_of (lo_entries lobj)). p \<le> lo_maxpos lobj)"

definition ram_object_wf :: "ram \<Rightarrow> string \<Rightarrow> ram_object \<Rightarrow> bool" where
  "ram_object_wf s key ob \<longleftrightarrow> (case ob of
     LinkObject h \<Rightarrow> (\<exists>name. name \<noteq> '''' \<and> key = ''head.'' @ name)
       \<and> (\<exists>p. map_of (ram_objects s) h = Some (ProjObject p))
   | ProjObject p \<Rightarrow> proj_wf p \<and> (\<exists>n < ram_next_uuid s. key = ''zlog.head.'' @ ram_uuids s n)
       \<and> starts_with (po_prefix p) ''zlog.data.''
   | LogObject lobj \<Rightarrow> ram_is_data key \<and> log_object_wf lobj)"

text \<open>The representation invariant: no black hole, a generator that does not repeat itself, and each
  kind of object under its own kind of name.\<close>

definition ram_inv :: "ram \<Rightarrow> bool" where
  "ram_inv s \<longleftrightarrow> \<not> ram_blackhole s \<and> inj (ram_uuids s)
     \<and> (\<forall>key ob. map_of (ram_objects s) key = Some ob \<longrightarrow> ram_object_wf s key ob)"

lemma ram_new_inv: "inj uuids \<Longrightarrow> ram_inv (ram_new uuids)"
  by (simp add: ram_inv_def ram_new_def)

lemma data_names:
  "\<not> ram_is_data (''head.'' @ n)" "\<not> ram_is_data (''zlog.head.'' @ n)"
  by (auto simp: ram_is_data_def starts_with_def)

lemmas data_names' [simp] = data_names [simplified append_Cons append_Nil]

lemma data_prefix [simp]: "starts_with p ''zlog.data.'' \<Longrightarrow> ram_is_data (p @ x)"
  by (auto simp: ram_is_data_def starts_with_def)

lemma ram_data_object:
  assumes "ram_inv s" and "ram_is_data oid"
  shows "map_of (ram_objects s) oid = None \<or> (\<exists>lobj. map_of (ram_objects s) oid = Some (LogObject lobj))"
proof (cases "map_of (ram_objects s) oid")
  case (Some ob)
  then have "ram_object_wf s oid ob" using assms(1) by (simp add: ram_inv_def)
  then show ?thesis using Some assms(2) by (cases ob) (auto simp: ram_object_wf_def)
qed simp

lemma ram_guard:
  assumes "ram_inv s" and "ram_is_data oid"
  shows "(if oid = '''' then Inl EINVAL else if e = 0 then Inl EINVAL
          else case ram_CheckEpoch e oid False s of Inl r \<Rightarrow> Inl r | Inr lobj \<Rightarrow> Inr (log_object_abs lobj))
    = a_guard oid e (ram_obj s oid)"
  using ram_data_object [OF assms]
  by (auto simp: a_guard_def ram_CheckEpoch_def ram_obj_def log_object_abs_def)

lemma ram_CheckEpoch_Inr: "ram_CheckEpoch e oid False s = Inr lobj \<Longrightarrow>
    map_of (ram_objects s) oid = Some (LogObject lobj)"
  by (auto simp: ram_CheckEpoch_def split: option.splits ram_object.splits if_splits)

text \<open>Replacing the contents of a data object.\<close>

lemma put_log_object_state:
  assumes "ram_inv s" and "ram_is_data oid" and "map_of (ram_objects s) oid = Some (LogObject lobj)"
    and "log_object_wf lobj'"
  defines "s' \<equiv> put_log_object oid lobj' s"
  shows "ram_inv s'" and "ram_obj s' = (ram_obj s)(oid := Some (log_object_abs lobj'))"
    and "ram_views s' = ram_views s" and "ram_logs s' = ram_logs s"
proof -
  have m: "map_of (ram_objects s') = (map_of (ram_objects s))(oid \<mapsto> LogObject lobj')"
    using assms(3) by (simp add: s'_def put_log_object_def)
  have eq: "ram_uuids s' = ram_uuids s" "ram_next_uuid s' = ram_next_uuid s"
    "ram_blackhole s' = ram_blackhole s"
    by (simp_all add: s'_def put_log_object_def)
  have wf: "ram_object_wf s' key ob" if "ram_object_wf s key ob" for key ob
    using that assms(3) by (cases ob) (auto simp: ram_object_wf_def m eq)
  show "ram_inv s'"
    using assms(1,2,4) wf by (auto simp: ram_inv_def m eq) (simp add: ram_object_wf_def)
  show "ram_obj s' = (ram_obj s)(oid := Some (log_object_abs lobj'))"
    by (auto simp: ram_obj_def m)
  show "ram_views s' = ram_views s" using assms(3) by (auto simp: ram_views_def m)
  have "oid \<noteq> ''head.'' @ name" for name using assms(2) by auto
  then show "ram_logs s' = ram_logs s"
    using assms(3) by (auto simp: ram_logs_def m fun_eq_iff split: option.split ram_object.split)
qed

section \<open>The data calls meet the specification\<close>

lemma ram_guard_cases:
  assumes "ram_inv s" and "ram_is_data oid"
  obtains (bad) r where "a_guard oid e (ram_obj s oid) = Inl r"
      and "oid = '''' \<or> e = 0 \<Longrightarrow> r = EINVAL"
      and "oid \<noteq> '''' \<Longrightarrow> e \<noteq> 0 \<Longrightarrow> ram_CheckEpoch e oid False s = Inl r"
  | (good) lobj where "oid \<noteq> ''''" and "e \<noteq> 0" and "ram_CheckEpoch e oid False s = Inr lobj"
      and "a_guard oid e (ram_obj s oid) = Inr (log_object_abs lobj)"
      and "map_of (ram_objects s) oid = Some (LogObject lobj)"
      and "ram_obj s oid = Some (log_object_abs lobj)" and "log_object_wf lobj"
proof (cases "a_guard oid e (ram_obj s oid)")
  case (Inl r)
  show ?thesis
    by (rule bad [OF Inl]) (use Inl ram_guard [OF assms, of e] in \<open>auto split: sum.splits if_splits\<close>)
next
  case (Inr x)
  then obtain lobj where l: "ram_CheckEpoch e oid False s = Inr lobj" "x = log_object_abs lobj"
    "oid \<noteq> ''''" "e \<noteq> 0"
    using ram_guard [OF assms, of e] by (auto split: sum.splits if_splits)
  note m = ram_CheckEpoch_Inr [OF l(1)]
  then have "ram_object_wf s oid (LogObject lobj)" using assms(1) by (auto simp: ram_inv_def)
  then show ?thesis
    by (intro good [of lobj]) (use l m Inr in \<open>simp_all add: ram_obj_def ram_object_wf_def\<close>)
qed

lemma ao_get_abs: "ao_get (log_object_abs lobj) p =
    (if below_limit (lo_trim_limit lobj) p then Some Junk
     else map_option entry_abs (map_of (lo_entries lobj) p))"
  by (simp add: ao_get_def log_object_abs_def)

lemma ram_Read_spec:
  assumes "ram_inv s" and "ram_is_data oid"
  shows "ram_Read oid e p s = a_read oid e p (ram_obj s oid)"
  using assms
proof (cases rule: ram_guard_cases [where e = e])
  case (bad r)
  then show ?thesis by (auto simp: ram_Read_def a_read_def)
next
  case (good lobj)
  then show ?thesis
    by (auto simp: ram_Read_def a_read_def ao_get_abs entry_abs_def split: option.split)
qed

lemma abs_insert:
  "map_of (lo_entries lobj) p = None \<Longrightarrow>
   log_object_abs (lobj\<lparr>lo_entries := fst (um_emplace p entry (lo_entries lobj)), lo_maxpos := m\<rparr>) =
   (log_object_abs lobj)\<lparr>ao_entries := (ao_entries (log_object_abs lobj))(p \<mapsto> entry_abs entry)\<rparr>"
  by (auto simp: log_object_abs_def)

lemma wf_insert:
  "log_object_wf lobj \<Longrightarrow> log_object_wf (lobj\<lparr>lo_entries := fst (um_emplace p entry (lo_entries lobj)),
     lo_maxpos := max (lo_maxpos lobj) p\<rparr>)"
  by (auto simp: log_object_wf_def le_max_iff_disj split: if_splits)

text \<open>A call refines a step of the specification on one object: same return value, the object changes
  as specified, nothing else does.\<close>

definition ram_refines :: "ram \<Rightarrow> string \<Rightarrow> unit ret \<times> ram \<Rightarrow> unit ret \<times> aobj option \<Rightarrow> bool" where
  "ram_refines s oid c a \<longleftrightarrow> fst c = fst a \<and> ram_inv (snd c)
     \<and> ram_obj (snd c) = (ram_obj s)(oid := snd a)
     \<and> ram_views (snd c) = ram_views s \<and> ram_logs (snd c) = ram_logs s"

lemma refines_same: "ram_inv s \<Longrightarrow> ram_refines s oid (r, s) (r, ram_obj s oid)"
  by (simp add: ram_refines_def)

lemma refines_put:
  assumes "ram_inv s" and "ram_is_data oid" and "map_of (ram_objects s) oid = Some (LogObject lobj)"
    and "log_object_wf lobj'" and "log_object_abs lobj' = x"
  shows "ram_refines s oid (r, put_log_object oid lobj' s) (r, Some x)"
  using put_log_object_state [OF assms(1-4)] assms(5) by (simp add: ram_refines_def)

lemma ram_Write_refines:
  assumes "ram_inv s" and "ram_is_data oid"
  shows "ram_refines s oid (ram_Write oid d e p s) (a_write oid d e p (ram_obj s oid))"
  using assms
proof (cases rule: ram_guard_cases [where e = e])
  case (bad r)
  then show ?thesis using refines_same [OF assms(1)] by (auto simp: ram_Write_def a_write_def)
next
  case (good lobj)
  have nb: "\<not> ram_blackhole s" using assms(1) by (simp add: ram_inv_def)
  show ?thesis
  proof (cases "ao_get (log_object_abs lobj) p")
    case None
    then have n: "\<not> below_limit (lo_trim_limit lobj) p" "map_of (lo_entries lobj) p = None"
      by (auto simp: ao_get_abs split: if_splits)
    have abs: "log_object_abs (lobj\<lparr>lo_entries := fst (um_emplace p (log_entry_new\<lparr>le_data := d\<rparr>)
        (lo_entries lobj)), lo_maxpos := max (lo_maxpos lobj) p\<rparr>) =
      (log_object_abs lobj)\<lparr>ao_entries := (ao_entries (log_object_abs lobj))(p \<mapsto> Data d)\<rparr>"
      by (simp only: abs_insert [OF n(2)]) (simp add: entry_abs_def log_entry_new_def)
    from refines_put [OF assms good(5) wf_insert [OF good(7)] abs, of "Inr ()"]
    show ?thesis using good None n nb by (simp add: ram_Write_def a_write_def)
  next
    case (Some x)
    then show ?thesis
      using good refines_same [OF assms(1), of oid "Inl EROFS"]
      by (auto simp: ram_Write_def a_write_def ao_get_abs split: if_splits)
  qed
qed

text \<open>The entry \<^verbatim>\<open>Fill\<close> and \<^verbatim>\<open>Trim\<close> leave in an unwritten position.\<close>

lemma refines_junk:
  assumes "ram_inv s" and "ram_is_data oid" and "map_of (ram_objects s) oid = Some (LogObject lobj)"
    and "log_object_wf lobj" and n: "map_of (lo_entries lobj) p = None"
  shows "ram_refines s oid
    (r, put_log_object oid (lobj\<lparr>lo_entries := fst (um_emplace p
        (log_entry_new\<lparr>le_trimmed := True, le_invalidated := True\<rparr>) (lo_entries lobj)),
      lo_maxpos := max (lo_maxpos lobj) p\<rparr>) s)
    (r, Some ((log_object_abs lobj)\<lparr>ao_entries := (ao_entries (log_object_abs lobj))(p \<mapsto> Junk)\<rparr>))"
  by (rule refines_put [OF assms(1-3) wf_insert [OF assms(4)]])
    (simp only: abs_insert [OF n], simp add: entry_abs_def log_entry_new_def)

lemma ram_Fill_refines:
  assumes "ram_inv s" and "ram_is_data oid"
  shows "ram_refines s oid (ram_Fill oid e p s) (a_fill oid e p (ram_obj s oid))"
  using assms
proof (cases rule: ram_guard_cases [where e = e])
  case (bad r)
  then show ?thesis using refines_same [OF assms(1)] by (auto simp: ram_Fill_def a_fill_def)
next
  case (good lobj)
  show ?thesis
  proof (cases "ao_get (log_object_abs lobj) p")
    case None
    then have n: "\<not> below_limit (lo_trim_limit lobj) p" "map_of (lo_entries lobj) p = None"
      by (auto simp: ao_get_abs split: if_splits)
    from refines_junk [OF assms good(5,7) n(2), of "Inr ()"]
    show ?thesis using good None n by (simp add: ram_Fill_def a_fill_def)
  next
    case (Some x)
    then show ?thesis
      using good refines_same [OF assms(1), of oid]
      by (auto simp: ram_Fill_def a_fill_def ao_get_abs entry_abs_def split: if_splits)
  qed
qed

lemma ram_Trim_refines:
  assumes "ram_inv s" and "ram_is_data oid"
  shows "ram_refines s oid (ram_Trim oid e p lim full s) (a_trim oid e p lim full (ram_obj s oid))"
proof (cases "full \<and> \<not> lim")
  case True
  then show ?thesis using refines_same [OF assms(1)] by (simp add: ram_Trim_def a_trim_def)
next
  case nf: False
  show ?thesis
    using assms
  proof (cases rule: ram_guard_cases [where e = e])
    case (bad r)
    then show ?thesis using nf refines_same [OF assms(1)] by (auto simp: ram_Trim_def a_trim_def)
  next
    case (good lobj)
    note put = refines_put [OF assms good(5)]
    show ?thesis
    proof (cases lim)
      case True
      let ?l = "case lo_trim_limit lobj of None \<Rightarrow> p | Some l \<Rightarrow> max p l"
      have lim: "(case lo_trim_limit lobj of
            Some l \<Rightarrow> lobj\<lparr>lo_trim_limit := Some (max p l)\<rparr>
          | None \<Rightarrow> lobj\<lparr>lo_trim_limit := Some p\<rparr>) = lobj\<lparr>lo_trim_limit := Some ?l\<rparr>"
        by (simp split: option.split)
      have p: "p \<le> ?l" by (simp split: option.split)
      have wf: "log_object_wf (lobj\<lparr>lo_trim_limit := Some ?l\<rparr>)"
        "log_object_wf (lobj\<lparr>lo_trim_limit := Some ?l, lo_entries := []\<rparr>)"
        using good(7) by (simp_all add: log_object_wf_def)
      have abs: "log_object_abs (lobj\<lparr>lo_trim_limit := Some ?l\<rparr>) = (log_object_abs lobj)\<lparr>ao_limit := Some ?l\<rparr>"
        "log_object_abs (lobj\<lparr>lo_trim_limit := Some ?l, lo_entries := []\<rparr>) =
          (log_object_abs lobj)\<lparr>ao_limit := Some ?l, ao_entries := Map.empty\<rparr>"
        by (auto simp: log_object_abs_def)
      show ?thesis
        using good True p put [OF wf(1) abs(1)] put [OF wf(2) abs(2)]
        by (simp add: ram_Trim_def a_trim_def Let_def below_limit_def lim)
          (simp add: log_object_abs_def)
    next
      case False
      then have nfull: "\<not> full" using nf by simp
      have lim: "ao_limit (log_object_abs lobj) = lo_trim_limit lobj" by (simp add: log_object_abs_def)
      show ?thesis
      proof (cases "below_limit (lo_trim_limit lobj) p")
        case True
        then show ?thesis
          using good False nfull put [OF good(7) refl] by (simp add: ram_Trim_def a_trim_def lim Let_def)
      next
        case nb: False
        show ?thesis
        proof (cases "map_of (lo_entries lobj) p")
          case None
          from refines_junk [OF assms good(5,7) None, of "Inr ()"]
          show ?thesis using good False nfull nb None by (simp add: ram_Trim_def a_trim_def lim Let_def)
        next
          case (Some entry)
          let ?e = "entry\<lparr>le_trimmed := True, le_data := ''''\<rparr>"
          have "log_object_abs (lobj\<lparr>lo_entries := um_assign p ?e (lo_entries lobj),
              lo_maxpos := max (lo_maxpos lobj) p\<rparr>) =
            (log_object_abs lobj)\<lparr>ao_entries := (ao_entries (log_object_abs lobj))(p \<mapsto> Junk)\<rparr>"
            using Some by (auto simp: log_object_abs_def entry_abs_def)
          moreover have "log_object_wf (lobj\<lparr>lo_entries := um_assign p ?e (lo_entries lobj),
              lo_maxpos := max (lo_maxpos lobj) p\<rparr>)"
            using good(7) Some by (auto simp: log_object_wf_def le_max_iff_disj)
          ultimately show ?thesis
            using put good False nfull nb Some by (simp add: ram_Trim_def a_trim_def lim Let_def)
        qed
      qed
    qed
  qed
qed

lemma ram_Seal_refines:
  assumes "ram_inv s" and "ram_is_data oid"
  shows "ram_refines s oid (ram_Seal oid e s) (a_seal oid e (ram_obj s oid))"
proof (cases "oid = '''' \<or> e = 0")
  case True
  then show ?thesis using refines_same [OF assms(1)] by (auto simp: ram_Seal_def a_seal_def)
next
  case args: False
  show ?thesis
  proof (cases "map_of (ram_objects s) oid")
    case None
    let ?s = "s\<lparr>ram_objects := (oid, LogObject log_object_new) # ram_objects s\<rparr>"
    have wf: "ram_object_wf ?s key ob" if "ram_object_wf s key ob" for key ob
      using that None by (cases ob) (auto simp: ram_object_wf_def)
    have "ram_inv ?s"
      using assms wf by (auto simp: ram_inv_def) (simp add: ram_object_wf_def log_object_wf_def log_object_new_def)
    moreover have m: "map_of (ram_objects ?s) oid = Some (LogObject log_object_new)" by simp
    moreover have "ram_obj s oid = None" using None by (simp add: ram_obj_def)
    moreover have "ram_refines ?s oid (Inr (), put_log_object oid (log_object_new\<lparr>lo_epoch := e\<rparr>) ?s)
        (Inr (), Some (ao_init\<lparr>ao_epoch := e\<rparr>))"
      by (rule refines_put [OF \<open>ram_inv ?s\<close> assms(2) m])
        (auto simp: log_object_wf_def log_object_new_def log_object_abs_def ao_init_def)
    moreover have "(ram_obj ?s)(oid := x) = (ram_obj s)(oid := x)" for x by (auto simp: ram_obj_def)
    moreover have "ram_views ?s = ram_views s" using None by (auto simp: ram_views_def)
    moreover have "ram_logs ?s = ram_logs s"
    proof -
      have "oid \<noteq> ''head.'' @ name" for name using assms(2) by auto
      then show ?thesis
        using None by (auto simp: ram_logs_def fun_eq_iff split: option.split ram_object.split)
    qed
    ultimately show ?thesis
      using args None by (simp add: ram_Seal_def a_seal_def um_emplace_def ram_refines_def)
  next
    case (Some ob)
    then obtain lobj where lobj: "map_of (ram_objects s) oid = Some (LogObject lobj)"
      using ram_data_object [OF assms] by auto
    then have wf: "log_object_wf (lobj\<lparr>lo_epoch := e\<rparr>)" and ob: "ram_obj s oid = Some (log_object_abs lobj)"
      using assms(1) by (force simp: ram_inv_def ram_object_wf_def log_object_wf_def, simp add: ram_obj_def)
    have abs: "log_object_abs (lobj\<lparr>lo_epoch := e\<rparr>) = (log_object_abs lobj)\<lparr>ao_epoch := e\<rparr>"
      by (simp add: log_object_abs_def)
    have ep: "ao_epoch (log_object_abs lobj) = lo_epoch lobj" by (simp add: log_object_abs_def)
    show ?thesis
      using args lobj ob refines_put [OF assms lobj wf abs, of "Inr ()"]
        refines_same [OF assms(1), of oid "Inl ESPIPE"]
      by (simp add: ram_Seal_def a_seal_def um_emplace_def ep)
  qed
qed

lemma ram_MaxPos_spec:
  assumes "ram_inv s" and "ram_is_data oid"
  shows "a_maxpos_ok oid (ram_obj s oid) (ram_MaxPos oid s)"
proof (cases "map_of (ram_objects s) oid")
  case None
  then show ?thesis by (simp add: ram_MaxPos_def a_maxpos_ok_def ram_obj_def)
next
  case (Some ob)
  then obtain lobj where lobj: "map_of (ram_objects s) oid = Some (LogObject lobj)"
    using ram_data_object [OF assms] by auto
  then have wf: "log_object_wf lobj" using assms(1) by (force simp: ram_inv_def ram_object_wf_def)
  have "p \<le> lo_maxpos lobj" if "map_of (lo_entries lobj) p \<noteq> None" for p
    using that wf by (auto simp: log_object_wf_def)
  moreover have "\<exists>p. map_of (lo_entries lobj) p \<noteq> None" if "lo_entries lobj \<noteq> []"
    using that by (cases "lo_entries lobj") (auto intro: exI [of _ "fst (hd (lo_entries lobj))"])
  ultimately show ?thesis
    using lobj
    by (auto simp: ram_MaxPos_def a_maxpos_ok_def ram_obj_def ao_get_abs below_limit_def le_max_iff_disj
        split: option.split if_splits)
qed

section \<open>Views and the log directory meet the specification\<close>

text \<open>The projections of a well-formed head object, numbered from 1.\<close>

definition numbered :: "string list \<Rightarrow> nat \<Rightarrow> u64 \<times> string" where
  "numbered vs i = (of_nat (Suc i), vs ! i)"

lemma proj_numbered:
  assumes "proj_wf p"
  shows "po_projections p = map (numbered (map snd (po_projections p))) [0..<length (po_projections p)]"
proof (rule nth_equalityI)
  fix i assume i: "i < length (po_projections p)"
  have "map fst (po_projections p) ! i = of_nat (Suc i)"
    using assms i by (simp only: proj_wf_def) simp
  then show "po_projections p ! i =
      map (numbered (map snd (po_projections p))) [0..<length (po_projections p)] ! i"
    using i by (simp add: numbered_def prod_eq_iff)
qed simp

lemma of_nat_Suc_less: "i < j \<Longrightarrow> j < 18446744073709551616 \<Longrightarrow> (of_nat i :: u64) < of_nat j"
  by (simp add: word_less_nat_alt unat_of_nat_u64)

lemma ram_view_loop_numbered:
  "n < 2 ^ 64 \<Longrightarrow> \<forall>e\<in>set acc. fst e < of_nat (Suc k) \<Longrightarrow>
   ram_view_loop m (of_nat (Suc k)) (map (numbered vs) [k..<n]) acc =
   Some (acc @ map (numbered vs) (take m [k..<n]))"
proof (induction m arbitrary: k acc)
  case (Suc m)
  show ?case
  proof (cases "k < n")
    case True
    have u: "[k..<n] = k # [Suc k..<n]" using True by (rule upt_conv_Cons)
    have emp: "smap_emplace (of_nat (Suc k)) (vs ! k) acc = (acc @ [numbered vs k], True)"
      unfolding numbered_def by (rule smap_emplace_last) (use Suc.prems in simp)
    have lt: "(of_nat (Suc k) :: u64) < of_nat (Suc (Suc k))" if "Suc k < n"
      using that Suc.prems(1) by (intro of_nat_Suc_less) simp_all
    show ?thesis
    proof (cases "Suc k < n")
      case True
      have "\<forall>e\<in>set (acc @ [numbered vs k]). fst e < of_nat (Suc (Suc k))"
        using Suc.prems(2) lt [OF True] by (auto simp: numbered_def)
      from Suc.IH [OF Suc.prems(1) this] show ?thesis
        using u emp by (simp add: numbered_def add.commute)
    next
      case False
      then have "[k..<n] = [k]" using True by (simp add: upt_conv_Cons)
      moreover have "ram_view_loop m e' [] acc' = Some acc'" for e' acc' by (cases m) simp_all
      ultimately show ?thesis using emp by (simp add: numbered_def)
    qed
  qed simp
qed simp

lemma dropWhile_numbered:
  assumes "k < n" and "n < 2 ^ 64"
  shows "dropWhile (\<lambda>e. fst e \<noteq> of_nat (Suc k)) (map (numbered vs) [0..<n]) = map (numbered vs) [k..<n]"
proof -
  have "[0..<n] = [0..<k] @ k # [Suc k..<n]"
    using assms(1) by (metis less_imp_add_positive upt_add_eq_append upt_conv_Cons zero_le add_0)
  moreover have "(of_nat (Suc i) :: u64) \<noteq> of_nat (Suc k)" if "i < k" for i
    using that assms of_nat_Suc_less [of "Suc i" "Suc k"] by force
  ultimately show ?thesis
    using assms(1) by (simp add: dropWhile_append upt_conv_Cons numbered_def)
qed

lemma ram_viewsE:
  assumes "ram_inv s" and "ram_views s hoid = Some vs"
  obtains p where "map_of (ram_objects s) hoid = Some (ProjObject p)" and "proj_wf p"
    and "vs = map snd (po_projections p)" and "hoid \<noteq> ''''"
    and "po_projections p = map (numbered vs) [0..<length vs]" and "po_epoch p = of_nat (length vs)"
    and "length vs < 2 ^ 64" and "vs \<noteq> []"
proof -
  obtain p where p: "map_of (ram_objects s) hoid = Some (ProjObject p)" "vs = map snd (po_projections p)"
    using assms(2) by (auto simp: ram_views_def split: option.splits ram_object.splits)
  then have "ram_object_wf s hoid (ProjObject p)" using assms(1) by (simp add: ram_inv_def)
  then have wf: "proj_wf p" "hoid \<noteq> ''''" by (auto simp: ram_object_wf_def)
  show ?thesis
    by (rule that [OF p(1) wf(1) p(2) wf(2)])
      (use wf(1) p(2) proj_numbered [OF wf(1)] in \<open>auto simp: proj_wf_def\<close>)
qed

lemma ram_ReadViews_spec:
  assumes "ram_inv s" and "ram_views s hoid = Some vs"
  shows "ram_ReadViews hoid e n s = Inr (a_read_views e n vs)"
proof -
  from assms obtain p where p: "map_of (ram_objects s) hoid = Some (ProjObject p)" "hoid \<noteq> ''''"
      "po_projections p = map (numbered vs) [0..<length vs]" "po_epoch p = of_nat (length vs)"
      "length vs < 2 ^ 64" "vs \<noteq> []"
    by (rule ram_viewsE)
  have ep: "unat (of_nat (length vs) :: u64) = length vs" using p(5) by (intro unat_of_nat_u64) simp
  show ?thesis
  proof (cases "po_epoch p < e")
    case True
    then have "length vs < unat e" by (simp add: word_less_nat_alt p(4) ep)
    then have "e \<noteq> 0" "[unat e - 1..<length vs] = []" by auto
    then show ?thesis using p(1,2) True by (simp add: ram_ReadViews_def a_read_views_def)
  next
    case le: False
    show ?thesis
    proof (cases "e = 0")
      case True
      have "last (po_projections p) = (of_nat (length vs), last vs)"
        using p(6) by (simp add: p(3) last_map numbered_def last_conv_nth)
      then show ?thesis using p(1,2,3,6) le True by (simp add: ram_ReadViews_def a_read_views_def)
    next
      case False
      let ?k = "unat e - 1"
      have pos: "0 < unat e" using False by (simp add: unat_gt_0)
      have k: "?k < length vs" "e = of_nat (Suc ?k)"
        using le pos by (auto simp: word_less_nat_alt p(4) ep)
      have "dropWhile (\<lambda>x. fst x \<noteq> e) (po_projections p) = map (numbered vs) [?k..<length vs]"
        using dropWhile_numbered [OF k(1) p(5), of vs] by (simp only: p(3) flip: k(2))
      moreover have "ram_view_loop (unat n) e (map (numbered vs) [?k..<length vs]) [] =
          Some (map (numbered vs) (take (unat n) [?k..<length vs]))"
        using ram_view_loop_numbered [OF p(5), of "[]" ?k "unat n" vs, folded k(2)] by simp
      ultimately show ?thesis
        using p(1,2,6) le False k(1)
        by (simp add: ram_ReadViews_def a_read_views_def numbered_def [abs_def])
    qed
  qed
qed

text \<open>Replacing a head object.\<close>

lemma put_proj_state:
  assumes "ram_inv s" and "map_of (ram_objects s) hoid = Some (ProjObject p)"
    and "proj_wf p'" and "po_prefix p' = po_prefix p"
  defines "s' \<equiv> s\<lparr>ram_objects := um_assign hoid (ProjObject p') (ram_objects s)\<rparr>"
  shows "ram_inv s'" and "ram_obj s' = ram_obj s" and "ram_logs s' = ram_logs s"
    and "ram_views s' = (ram_views s)(hoid \<mapsto> map snd (po_projections p'))"
proof -
  have m: "map_of (ram_objects s') = (map_of (ram_objects s))(hoid \<mapsto> ProjObject p')"
    using assms(2) by (simp add: s'_def)
  have old: "ram_object_wf s hoid (ProjObject p)" using assms(1,2) by (simp add: ram_inv_def)
  have wf: "ram_object_wf s' key ob" if "ram_object_wf s key ob" for key ob
    using that by (cases ob) (auto simp: ram_object_wf_def m s'_def)
  have "ram_object_wf s' hoid (ProjObject p')"
    using old assms(3,4) by (auto simp: ram_object_wf_def s'_def)
  then show "ram_inv s'" using assms(1) wf by (auto simp: ram_inv_def m) (simp_all add: s'_def)
  show "ram_obj s' = ram_obj s" using assms(2) by (auto simp: ram_obj_def m)
  show "ram_views s' = (ram_views s)(hoid \<mapsto> map snd (po_projections p'))"
    by (auto simp: ram_views_def m)
  have "hoid \<noteq> ''head.'' @ name" for name using old by (auto simp: ram_object_wf_def)
  then show "ram_logs s' = ram_logs s"
    using assms(2,4) by (auto simp: ram_logs_def m fun_eq_iff split: option.split ram_object.split)
qed

lemma ram_propose_head:
  assumes "ram_inv s" and "ram_views s hoid = Some vs"
  shows "fst (ram_ProposeView hoid e v s) = fst (a_propose e v vs)"
    and "ram_inv (snd (ram_ProposeView hoid e v s))
      \<and> ram_obj (snd (ram_ProposeView hoid e v s)) = ram_obj s
      \<and> ram_logs (snd (ram_ProposeView hoid e v s)) = ram_logs s
      \<and> ram_views (snd (ram_ProposeView hoid e v s)) = (ram_views s)(hoid \<mapsto> snd (a_propose e v vs))"
proof -
  from assms obtain p where p: "map_of (ram_objects s) hoid = Some (ProjObject p)" "proj_wf p"
      "vs = map snd (po_projections p)" "hoid \<noteq> ''''"
      "po_projections p = map (numbered vs) [0..<length vs]" "po_epoch p = of_nat (length vs)"
      "length vs < 2 ^ 64" "vs \<noteq> []"
    by (rule ram_viewsE)
  have same: "(ram_views s)(hoid \<mapsto> vs) = ram_views s" using assms(2) by auto
  have *: "fst (ram_ProposeView hoid e v s) = fst (a_propose e v vs)
      \<and> ram_inv (snd (ram_ProposeView hoid e v s))
      \<and> ram_obj (snd (ram_ProposeView hoid e v s)) = ram_obj s
      \<and> ram_logs (snd (ram_ProposeView hoid e v s)) = ram_logs s
      \<and> ram_views (snd (ram_ProposeView hoid e v s)) = (ram_views s)(hoid \<mapsto> snd (a_propose e v vs))"
  proof (cases "e \<noteq> 0 \<and> e = of_nat (length vs) + 1")
    case False
    then show ?thesis
      using p(1,4,6) assms(1) same by (auto simp: ram_ProposeView_def a_propose_def Let_def)
  next
    case True
    then have "fst (a_propose e v vs) = Inr ()" by (auto simp: a_propose_def Let_def)
    note b = a_propose_ok [OF this p(7)]
    have e: "e = of_nat (Suc (length vs))" using True by simp
    have "fst x < e" if "x \<in> set (po_projections p)" for x
    proof -
      obtain i where "i < length vs" "x = numbered vs i" using \<open>x \<in> _\<close> p(5) by auto
      then show ?thesis unfolding numbered_def e using b(3) by (simp only: fst_conv) (intro of_nat_Suc_less, simp_all)
    qed
    then have emp: "smap_emplace e v (po_projections p) = (po_projections p @ [(e, v)], True)"
      by (intro smap_emplace_last) simp
    let ?p = "p\<lparr>po_projections := po_projections p @ [(e, v)], po_epoch := e\<rparr>"
    have "proj_wf ?p" using p(2,3) b(3) by (simp add: proj_wf_def e)
    note put = put_proj_state [OF assms(1) p(1) this]
    show ?thesis
      using p(1,3,4,6) True put emp b(2) \<open>fst (a_propose e v vs) = Inr ()\<close>
      by (auto simp: ram_ProposeView_def Let_def)
  qed
  then show "fst (ram_ProposeView hoid e v s) = fst (a_propose e v vs)"
    and "ram_inv (snd (ram_ProposeView hoid e v s))
      \<and> ram_obj (snd (ram_ProposeView hoid e v s)) = ram_obj s
      \<and> ram_logs (snd (ram_ProposeView hoid e v s)) = ram_logs s
      \<and> ram_views (snd (ram_ProposeView hoid e v s)) = (ram_views s)(hoid \<mapsto> snd (a_propose e v vs))"
    by simp_all
qed

lemma ram_propose_other:
  "ram_views s hoid = None \<Longrightarrow> snd (ram_ProposeView hoid e v s) = s"
  by (auto simp: ram_ProposeView_def ram_views_def split: option.splits ram_object.splits)

lemma ram_OpenLog_spec:
  assumes "ram_inv s"
  shows "ram_OpenLog name s = (if name = '''' then Inl EINVAL else
    case ram_logs s name of None \<Rightarrow> Inl ENOENT | Some r \<Rightarrow> Inr r)"
proof (cases "map_of (ram_objects s) (''head.'' @ name)")
  case None
  then show ?thesis by (simp add: ram_OpenLog_def ram_logs_def)
next
  case (Some ob)
  then have "ram_object_wf s (''head.'' @ name) ob" using assms unfolding ram_inv_def by blast
  then show ?thesis
    using Some by (cases ob) (auto simp: ram_object_wf_def ram_OpenLog_def ram_logs_def)
qed

lemma ram_logs_some:
  assumes "ram_inv s" and "ram_logs s name = Some (hoid, prefix)"
  shows "ram_views s hoid \<noteq> None \<and> prefix \<noteq> '''' \<and> ram_is_data (prefix @ ''.'' @ oid)"
proof -
  obtain p where p: "map_of (ram_objects s) hoid = Some (ProjObject p)" "prefix = po_prefix p"
    using assms(2) by (auto simp: ram_logs_def split: option.splits ram_object.splits)
  then have "ram_object_wf s hoid (ProjObject p)" using assms(1) unfolding ram_inv_def by blast
  then show ?thesis using p by (auto simp: ram_object_wf_def ram_views_def) (auto simp: starts_with_def)
qed

text \<open>Creating a log: the head object under a fresh name, then the link.\<close>

lemma fresh_head:
  assumes "ram_inv s"
  shows "map_of (ram_objects s) (''zlog.head.'' @ ram_uuids s (ram_next_uuid s)) = None"
proof (rule ccontr)
  let ?h = "''zlog.head.'' @ ram_uuids s (ram_next_uuid s)"
  assume "\<not> ?thesis"
  then obtain ob where "map_of (ram_objects s) ?h = Some ob" by blast
  then have "ram_object_wf s ?h ob" using assms unfolding ram_inv_def by blast
  then have "\<exists>n < ram_next_uuid s. ram_uuids s n = ram_uuids s (ram_next_uuid s)"
    by (cases ob) (auto simp: ram_object_wf_def)
  then show False using assms unfolding ram_inv_def by (auto dest: injD)
qed

definition with_head :: "string \<Rightarrow> ram \<Rightarrow> ram" where
  "with_head v s = s\<lparr>ram_next_uuid := ram_next_uuid s + 1,
     ram_objects := (''zlog.head.'' @ ram_uuids s (ram_next_uuid s),
       ProjObject \<lparr>po_epoch = 1, po_prefix = ''zlog.data.'' @ ram_uuids s (ram_next_uuid s),
                   po_projections = [(1, v)]\<rparr>) # ram_objects s\<rparr>"

lemma with_head_state:
  assumes "ram_inv s"
  defines "h \<equiv> ''zlog.head.'' @ ram_uuids s (ram_next_uuid s)"
  shows "ram_inv (with_head v s)" and "ram_obj (with_head v s) = ram_obj s"
    and "ram_views (with_head v s) = (ram_views s)(h \<mapsto> [v])" and "ram_logs (with_head v s) = ram_logs s"
proof -
  have f: "map_of (ram_objects s) h = None" unfolding h_def by (rule fresh_head [OF assms(1)])
  let ?p = "\<lparr>po_epoch = 1, po_prefix = ''zlog.data.'' @ ram_uuids s (ram_next_uuid s),
      po_projections = [(1, v)]\<rparr> :: projection_object"
  have m: "map_of (ram_objects (with_head v s)) = (map_of (ram_objects s))(h \<mapsto> ProjObject ?p)"
    by (simp add: with_head_def h_def)
  have wf: "ram_object_wf (with_head v s) key ob" if "ram_object_wf s key ob" for key ob
    using that f by (cases ob) (auto simp: ram_object_wf_def m, auto simp: with_head_def less_Suc_eq)
  have "ram_object_wf (with_head v s) h (ProjObject ?p)"
    by (auto simp: ram_object_wf_def proj_wf_def h_def with_head_def starts_with_def)
  then show "ram_inv (with_head v s)"
    using assms(1) wf unfolding ram_inv_def m by (auto split: if_splits) (simp_all add: with_head_def)
  show "ram_obj (with_head v s) = ram_obj s" using f by (auto simp: ram_obj_def m)
  show "ram_views (with_head v s) = (ram_views s)(h \<mapsto> [v])" by (auto simp: ram_views_def m)
  have "''head.'' @ name \<noteq> h" for name by (simp add: h_def)
  moreover have "\<exists>p. map_of (ram_objects s) x = Some (ProjObject p)"
    if "map_of (ram_objects s) (''head.'' @ name) = Some (LinkObject x)" for name x
    using assms(1) that unfolding ram_inv_def by (fastforce simp: ram_object_wf_def)
  ultimately show "ram_logs (with_head v s) = ram_logs s"
    using f by (fastforce simp: ram_logs_def m fun_eq_iff split: option.split ram_object.split)
qed

definition with_link :: "string \<Rightarrow> string \<Rightarrow> ram \<Rightarrow> ram" where
  "with_link name h s = s\<lparr>ram_objects := (''head.'' @ name, LinkObject h) # ram_objects s\<rparr>"

lemma with_link_state:
  assumes "ram_inv s" and "name \<noteq> ''''" and "map_of (ram_objects s) (''head.'' @ name) = None"
    and "map_of (ram_objects s) h = Some (ProjObject p)"
  shows "ram_inv (with_link name h s)" and "ram_obj (with_link name h s) = ram_obj s"
    and "ram_views (with_link name h s) = ram_views s"
    and "ram_logs (with_link name h s) = (ram_logs s)(name \<mapsto> (h, po_prefix p))"
proof -
  have m: "map_of (ram_objects (with_link name h s)) =
      (map_of (ram_objects s))(''head.'' @ name \<mapsto> LinkObject h)"
    by (simp add: with_link_def)
  have wf: "ram_object_wf (with_link name h s) key ob" if "ram_object_wf s key ob" for key ob
    using that assms(3) unfolding ram_object_wf_def m
    by (cases ob) (auto split: if_splits, auto simp: with_link_def)
  have "ram_object_wf (with_link name h s) (''head.'' @ name) (LinkObject h)"
    using assms(2-4) unfolding ram_object_wf_def m by auto
  then show "ram_inv (with_link name h s)"
    using assms(1) wf unfolding ram_inv_def m by (auto split: if_splits) (simp_all add: with_link_def)
  show "ram_obj (with_link name h s) = ram_obj s" and "ram_views (with_link name h s) = ram_views s"
    using assms(3) by (auto simp: ram_obj_def ram_views_def m)
  have "''head.'' @ name \<noteq> h" using assms(3,4) by auto
  moreover have "\<exists>p. map_of (ram_objects s) x = Some (ProjObject p)"
    if "map_of (ram_objects s) (''head.'' @ n) = Some (LinkObject x)" for n x
    using assms(1) that unfolding ram_inv_def by (fastforce simp: ram_object_wf_def)
  ultimately show "ram_logs (with_link name h s) = (ram_logs s)(name \<mapsto> (h, po_prefix p))"
    using assms(3,4) by (fastforce simp: ram_logs_def m fun_eq_iff split: option.split ram_object.split)
qed

lemma ram_CreateLog_eq:
  assumes "ram_inv s" and "name \<noteq> ''''"
  defines "k \<equiv> ram_uuids s (ram_next_uuid s)"
  shows "ram_CreateLog name v s =
    (if map_of (ram_objects s) (''head.'' @ name) = None
     then (Inr (''zlog.head.'' @ k, ''zlog.data.'' @ k), with_link name (''zlog.head.'' @ k) (with_head v s))
     else (Inl EEXIST, with_head v s))"
  using fresh_head [OF assms(1)] assms(2)
  by (auto simp: ram_CreateLog_def um_emplace_def with_head_def with_link_def k_def Let_def)

lemma ram_CreateLog_spec:
  assumes "ram_inv s" and "ram_CreateLog name v s = (rc, s')"
  shows "ram_inv s' \<and> ram_obj s' = ram_obj s \<and> (\<forall>h vs. ram_views s h = Some vs \<longrightarrow> ram_views s' h = Some vs)
    \<and> (case rc of
         Inl err \<Rightarrow> ram_logs s' = ram_logs s
           \<and> err = (if name = '''' then EINVAL else EEXIST) \<and> (name = '''' \<or> ram_logs s name \<noteq> None)
       | Inr (h, pf) \<Rightarrow> name \<noteq> '''' \<and> ram_logs s name = None \<and> ram_logs s' = (ram_logs s)(name \<mapsto> (h, pf))
           \<and> ram_views s h = None \<and> ram_views s' h = Some [v])"
proof (cases "name = ''''")
  case True
  then show ?thesis using assms by (auto simp: ram_CreateLog_def)
next
  case False
  let ?k = "ram_uuids s (ram_next_uuid s)" and ?h = "''zlog.head.'' @ ram_uuids s (ram_next_uuid s)"
  note eq = ram_CreateLog_eq [OF assms(1) False, of v] and head = with_head_state [OF assms(1), of v]
  have f: "ram_views s ?h = None" using fresh_head [OF assms(1)] by (simp add: ram_views_def)
  show ?thesis
  proof (cases "map_of (ram_objects s) (''head.'' @ name)")
    case None
    have "map_of (ram_objects (with_head v s)) (''head.'' @ name) = None"
      using None by (simp add: with_head_def)
    moreover obtain p where p: "map_of (ram_objects (with_head v s)) ?h = Some (ProjObject p)"
        "po_prefix p = ''zlog.data.'' @ ?k"
      by (simp add: with_head_def)
    ultimately have link: "ram_inv s'" "ram_obj s' = ram_obj s" "ram_views s' = (ram_views s)(?h \<mapsto> [v])"
        "ram_logs s' = (ram_logs s)(name \<mapsto> (?h, ''zlog.data.'' @ ?k))"
      using with_link_state [OF head(1) False _ p(1)] head eq None assms(2) by (simp_all add: p(2))
    have "ram_logs s name = None" using None by (simp add: ram_logs_def)
    moreover have "rc = Inr (?h, ''zlog.data.'' @ ?k)" using eq None assms(2) by simp
    ultimately show ?thesis using link f False by auto
  next
    case (Some ob)
    then have "ram_object_wf s (''head.'' @ name) ob" using assms(1) unfolding ram_inv_def by blast
    then have "ram_logs s name \<noteq> None"
      using Some by (cases ob) (auto simp: ram_object_wf_def ram_logs_def)
    then show ?thesis using eq Some head False f assms(2) by auto
  qed
qed

lemma unique_id_state:
  "ram_inv (s\<lparr>ram_unique_id := i\<rparr>) = ram_inv s" "ram_obj (s\<lparr>ram_unique_id := i\<rparr>) = ram_obj s"
  "ram_views (s\<lparr>ram_unique_id := i\<rparr>) = ram_views s" "ram_logs (s\<lparr>ram_unique_id := i\<rparr>) = ram_logs s"
proof -
  have "ram_object_wf (s\<lparr>ram_unique_id := i\<rparr>) = ram_object_wf s"
    by (auto simp: fun_eq_iff ram_object_wf_def split: ram_object.split)
  then show "ram_inv (s\<lparr>ram_unique_id := i\<rparr>) = ram_inv s" by (simp add: ram_inv_def)
qed (auto simp: fun_eq_iff ram_obj_def ram_views_def ram_logs_def split: option.split ram_object.split)

section \<open>The contract holds\<close>

interpretation ram: backend ram_ops ram_inv ram_is_data ram_obj ram_views ram_logs
proof (unfold_locales, goal_cases)
  case (1 s oid e p)
  then show ?case by (simp add: ram_ops_def ram_Read_spec)
next
  case (2 s oid d e p)
  then show ?case using ram_Write_refines [of s oid d e p] by (simp add: ram_ops_def ram_refines_def)
next
  case (3 s oid d e p r s')
  then show ?case using ram_Write_refines [of s oid d e p] by (simp add: ram_ops_def ram_refines_def)
next
  case (4 s oid e p)
  then show ?case using ram_Fill_refines [of s oid e p] by (simp add: ram_ops_def ram_refines_def)
next
  case (5 s oid e p r s')
  then show ?case using ram_Fill_refines [of s oid e p] by (simp add: ram_ops_def ram_refines_def)
next
  case (6 s oid lim p e full)
  then show ?case using ram_Trim_refines [of s oid e p lim full] by (simp add: ram_ops_def ram_refines_def)
next
  case (7 s oid lim p e full r s')
  then show ?case using ram_Trim_refines [of s oid e p lim full] by (simp add: ram_ops_def ram_refines_def)
next
  case (8 s oid e)
  then show ?case using ram_Seal_refines [of s oid e] by (simp add: ram_ops_def ram_refines_def)
next
  case (9 s oid e r s')
  then show ?case using ram_Seal_refines [of s oid e] by (simp add: ram_ops_def ram_refines_def)
next
  case (10 s oid)
  then show ?case by (simp add: ram_ops_def ram_MaxPos_spec)
next
  case (11 s hoid vs)
  then show ?case by (metis ram_viewsE)
next
  case (12 s hoid vs e n)
  then show ?case by (simp add: ram_ops_def ram_ReadViews_spec)
next
  case (13 s hoid vs e v)
  then show ?case by (simp add: ram_ops_def ram_propose_head)
next
  case (14 s hoid e v r s')
  then have s': "s' = snd (ram_ProposeView hoid e v s)" by (simp add: ram_ops_def)
  show ?case
  proof (cases "ram_views s hoid")
    case None
    then show ?thesis using 14(1) s' ram_propose_other [OF None] by (auto simp: fun_upd_idem)
  next
    case (Some vs)
    then show ?thesis using ram_propose_head [OF 14(1) Some, of e v] s' by simp
  qed
next
  case (15 s name)
  then show ?case by (simp add: ram_ops_def ram_OpenLog_spec)
next
  case (16 s name v rc s')
  then show ?case using ram_CreateLog_spec [of s name v rc s'] by (cases rc) (auto simp: ram_ops_def)
next
  case (17 s hoid ru s')
  then show ?case by (auto simp: ram_ops_def ram_uniqueId_def unique_id_state split: if_splits)
next
  case (18 s name hoid prefix oid)
  then show ?case by (rule ram_logs_some)
next
  case (19 s name v err s')
  then show ?case by (auto simp: ram_ops_def ram_CreateLog_def Let_def split: if_splits prod.splits)
qed

end
