(* ===== verification/Text_Codec.thy ===== *)
theory Text_Codec
  imports View
begin

text \<open>
  A codec for the table \<^verbatim>\<open>View\<close> that meets \<open>codec_ok\<close>: the fields in the order of
  \<^verbatim>\<open>zlog.fbs\<close> as decimal numbers, each ended by a semicolon, with a presence flag before an
  optional field and a length before a sequence. It stands for no code of the repository: it shows
  that the hypothesis on the byte format can hold and lets closed examples be evaluated.
\<close>

type_synonym 'a reader = "nat list \<Rightarrow> ('a \<times> nat list) option"

definition put_word :: "'l::len word \<Rightarrow> nat list" where
  "put_word w = [unat w]"

fun get_word :: "'l::len word reader" where
  "get_word [] = None"
| "get_word (n # ns) = Some (of_nat n, ns)"

definition put_opt :: "('a \<Rightarrow> nat list) \<Rightarrow> 'a option \<Rightarrow> nat list" where
  "put_opt f x = (case x of None \<Rightarrow> [0] | Some y \<Rightarrow> 1 # f y)"

fun get_opt :: "'a reader \<Rightarrow> 'a option reader" where
  "get_opt g [] = None"
| "get_opt g (n # ns) =
     (if n = 0 then Some (None, ns) else map_option (\<lambda>(y, r). (Some y, r)) (g ns))"

definition put_list :: "('a \<Rightarrow> nat list) \<Rightarrow> 'a list \<Rightarrow> nat list" where
  "put_list f xs = length xs # concat (map f xs)"

fun get_n :: "nat \<Rightarrow> 'a reader \<Rightarrow> 'a list reader" where
  "get_n 0 g ns = Some ([], ns)"
| "get_n (Suc k) g ns =
     Option.bind (g ns) (\<lambda>(x, r). map_option (\<lambda>(xs, r'). (x # xs, r')) (get_n k g r))"

fun get_list :: "'a reader \<Rightarrow> 'a list reader" where
  "get_list g [] = None"
| "get_list g (n # ns) = get_n n g ns"

definition put_char :: "char \<Rightarrow> nat list" where
  "put_char c = [of_char c]"

fun get_char :: "char reader" where
  "get_char [] = None"
| "get_char (n # ns) = Some (char_of n, ns)"

definition reads :: "('a \<Rightarrow> nat list) \<Rightarrow> 'a reader \<Rightarrow> bool" where
  "reads f g \<longleftrightarrow> (\<forall>x r. g (f x @ r) = Some (x, r))"

lemma readsD: "reads f g \<Longrightarrow> g (f x @ r) = Some (x, r)"
  by (simp add: reads_def)

lemma reads_word: "reads put_word get_word"
  by (simp add: reads_def put_word_def)

lemma reads_char: "reads put_char get_char"
  by (simp add: reads_def put_char_def)

lemma reads_opt: "reads f g \<Longrightarrow> reads (put_opt f) (get_opt g)"
  by (auto simp: reads_def put_opt_def split: option.split)

lemma reads_list:
  assumes "reads f g"
  shows "reads (put_list f) (get_list g)"
proof -
  have "get_n (length xs) g (concat (map f xs) @ r) = Some (xs, r)" for xs r
    using assms by (induction xs) (simp_all add: reads_def)
  then show ?thesis by (simp add: reads_def put_list_def)
qed

section \<open>The tables\<close>

definition put_ms :: "fbs_multi_stripe \<Rightarrow> nat list" where
  "put_ms t = put_word (fms_base_id t) @ put_word (fms_width t) @ put_word (fms_slots t)
     @ put_word (fms_instances t) @ put_word (fms_min_position t) @ put_word (fms_max_position t)"

definition get_ms :: "fbs_multi_stripe reader" where
  "get_ms ns =
     Option.bind (get_word ns) (\<lambda>(a, ns). Option.bind (get_word ns) (\<lambda>(b, ns).
     Option.bind (get_word ns) (\<lambda>(c, ns). Option.bind (get_word ns) (\<lambda>(d, ns).
     Option.bind (get_word ns) (\<lambda>(e, ns). Option.bind (get_word ns) (\<lambda>(f, ns).
       Some (\<lparr>fms_base_id = a, fms_width = b, fms_slots = c, fms_instances = d,
              fms_min_position = e, fms_max_position = f\<rparr>, ns)))))))"

definition put_om :: "fbs_object_map \<Rightarrow> nat list" where
  "put_om t = put_word (fom_next_stripe_id t) @ put_opt (put_list put_ms) (fom_stripes t)
     @ put_word (fom_min_valid_position t)"

definition get_om :: "fbs_object_map reader" where
  "get_om ns =
     Option.bind (get_word ns) (\<lambda>(a, ns). Option.bind (get_opt (get_list get_ms) ns) (\<lambda>(b, ns).
     Option.bind (get_word ns) (\<lambda>(c, ns).
       Some (\<lparr>fom_next_stripe_id = a, fom_stripes = b, fom_min_valid_position = c\<rparr>, ns))))"

definition put_sq :: "fbs_sequencer \<Rightarrow> nat list" where
  "put_sq t = put_word (fsq_epoch t) @ put_opt (put_list put_char) (fsq_token t)
     @ put_word (fsq_position t)"

definition get_sq :: "fbs_sequencer reader" where
  "get_sq ns =
     Option.bind (get_word ns) (\<lambda>(a, ns). Option.bind (get_opt (get_list get_char) ns) (\<lambda>(b, ns).
     Option.bind (get_word ns) (\<lambda>(c, ns).
       Some (\<lparr>fsq_epoch = a, fsq_token = b, fsq_position = c\<rparr>, ns))))"

definition put_view :: "fbs_view \<Rightarrow> nat list" where
  "put_view t = put_opt put_om (fv_object_map t) @ put_opt put_sq (fv_sequencer t)"

definition get_view :: "fbs_view reader" where
  "get_view ns =
     Option.bind (get_opt get_om ns) (\<lambda>(a, ns). Option.bind (get_opt get_sq ns) (\<lambda>(b, ns).
       Some (\<lparr>fv_object_map = a, fv_sequencer = b\<rparr>, ns)))"

lemma reads_ms: "reads put_ms get_ms"
  by (simp add: reads_def put_ms_def get_ms_def readsD [OF reads_word])

lemma reads_om: "reads put_om get_om"
  by (simp add: reads_def put_om_def get_om_def readsD [OF reads_word]
      readsD [OF reads_opt [OF reads_list [OF reads_ms]]])

lemma reads_sq: "reads put_sq get_sq"
  by (simp add: reads_def put_sq_def get_sq_def readsD [OF reads_word]
      readsD [OF reads_opt [OF reads_list [OF reads_char]]])

lemma reads_view: "reads put_view get_view"
  by (simp add: reads_def put_view_def get_view_def readsD [OF reads_opt [OF reads_om]]
      readsD [OF reads_opt [OF reads_sq]])

section \<open>Numbers as text\<close>

definition print_nats :: "nat list \<Rightarrow> string" where
  "print_nats ns = concat (map (\<lambda>n. show_nat n @ '';'') ns)"

fun scan_nats :: "string \<Rightarrow> string \<Rightarrow> nat list" where
  "scan_nats acc [] = []"
| "scan_nats acc (c # cs) =
     (if c = CHR '';'' then read_dec acc # scan_nats [] cs else scan_nats (acc @ [c]) cs)"

lemma scan_nats_token: "CHR '';'' \<notin> set xs \<Longrightarrow>
    scan_nats acc (xs @ CHR '';'' # cs) = read_dec (acc @ xs) # scan_nats [] cs"
  by (induction xs arbitrary: acc) auto

lemma scan_print [simp]: "scan_nats [] (print_nats ns) = ns"
proof (induction ns)
  case (Cons n ns)
  have "CHR '';'' \<notin> set (show_nat n)"
    using show_nat_digits [of "CHR '';''" n] by (auto simp: is_digit_def)
  then show ?case using Cons scan_nats_token by (simp add: print_nats_def)
qed (simp add: print_nats_def)

definition text_codec :: view_codec where
  "text_codec = \<lparr>fb_ser = (\<lambda>t. print_nats (put_view t)),
     fb_de = (\<lambda>s. map_option fst (get_view (scan_nats [] s)))\<rparr>"

lemma text_codec_ok: "codec_ok text_codec"
proof -
  have "get_view (put_view t) = Some (t, [])" for t
    using reads_view [unfolded reads_def, rule_format, of t "[]"] by simp
  then show ?thesis by (simp add: codec_ok_def text_codec_def)
qed

end
