(* ===== verification/Shared_Log.thy ===== *)
theory Shared_Log
  imports Log_Backend RAM_Backend Text_Codec
begin

text \<open>
  One log shared by any number of clients. \<open>log_views\<close> and \<open>log_at\<close> read the abstract log off the
  storage; \<open>log_inv\<close> is the invariant all clients maintain and \<open>log_le\<close> the order in which the log
  evolves: views are appended, a written position keeps its data until it is invalidated. The locale
  \<open>log_client\<close> extends the backend contract by what a client brings along, and its lemmas say what
  each backend call a client makes does to the abstract log.
\<close>

definition log_views ::
  "('s \<Rightarrow> string \<Rightarrow> string list option) \<Rightarrow> view_codec \<Rightarrow> 's log_backend \<Rightarrow> 's \<Rightarrow> view list" where
  "log_views views codec lb s =
     (case Option.bind (views s (lb_hoid lb)) (view_history codec) of None \<Rightarrow> [] | Some hs \<Rightarrow> hs)"

definition log_at ::
  "('s \<Rightarrow> string \<Rightarrow> aobj option) \<Rightarrow> ('s \<Rightarrow> string \<Rightarrow> string list option) \<Rightarrow> view_codec
   \<Rightarrow> 's log_backend \<Rightarrow> 's \<Rightarrow> u64 \<Rightarrow> entry option" where
  "log_at obj views codec lb s p = log_get (obj s) lb (log_views views codec lb s) p"

definition log_inv ::
  "('s \<Rightarrow> bool) \<Rightarrow> ('s \<Rightarrow> string \<Rightarrow> aobj option) \<Rightarrow> ('s \<Rightarrow> string \<Rightarrow> string list option)
   \<Rightarrow> view_codec \<Rightarrow> 's log_backend \<Rightarrow> 's \<Rightarrow> bool" where
  "log_inv sinv obj views codec lb s \<longleftrightarrow> sinv s
     \<and> (\<exists>vs. views s (lb_hoid lb) = Some vs \<and> view_history codec vs \<noteq> None)
     \<and> log_wf (obj s) lb (log_views views codec lb s)"

definition log_le ::
  "('s \<Rightarrow> string \<Rightarrow> aobj option) \<Rightarrow> ('s \<Rightarrow> string \<Rightarrow> string list option) \<Rightarrow> view_codec
   \<Rightarrow> 's log_backend \<Rightarrow> 's \<Rightarrow> 's \<Rightarrow> bool" where
  "log_le obj views codec lb s s' \<longleftrightarrow>
     (\<exists>hs. log_views views codec lb s' = log_views views codec lb s @ hs)
   \<and> (\<forall>p. entry_le (log_at obj views codec lb s p) (log_at obj views codec lb s' p))"

lemma log_le_refl [simp]: "log_le obj views codec lb s s"
  by (simp add: log_le_def)

lemma log_le_trans:
  "log_le obj views codec lb a b \<Longrightarrow> log_le obj views codec lb b c \<Longrightarrow> log_le obj views codec lb a c"
  unfolding log_le_def by (metis append_assoc entry_le_trans)

locale log_client = backend ops sinv is_data obj views logs
  for ops :: "'s backend_ops" and sinv is_data obj views logs +
  fixes codec :: view_codec and lb :: "'s log_backend"
  assumes codec: "codec_ok codec"
    and lb_ops [simp]: "lb_ops lb = ops"
    and lb_data [simp]: "is_data (prefixed_oid lb oid)"
begin

abbreviation hist :: "'s \<Rightarrow> view list" where
  "hist \<equiv> log_views views codec lb"

abbreviation at :: "'s \<Rightarrow> u64 \<Rightarrow> entry option" where
  "at \<equiv> log_at obj views codec lb"

abbreviation ok :: "'s \<Rightarrow> bool" where
  "ok \<equiv> log_inv sinv obj views codec lb"

abbreviation le :: "'s \<Rightarrow> 's \<Rightarrow> bool" where
  "le \<equiv> log_le obj views codec lb"

lemma okD:
  assumes "ok s"
  shows "sinv s" and "hist s \<noteq> []" and "history_wf (hist s)"
    and "\<And>oid x p. obj s (prefixed_oid lb oid) = Some x \<Longrightarrow> ao_entries x p \<noteq> None \<Longrightarrow>
      slot_oid (last (hist s)) p = Some oid"
    and "\<exists>vs. views s (lb_hoid lb) = Some vs \<and> view_history codec vs = Some (hist s)
      \<and> length vs = length (hist s)"
proof -
  show "sinv s" "hist s \<noteq> []" "history_wf (hist s)"
    using assms by (auto simp: log_inv_def log_wf_def)
  show "obj s (prefixed_oid lb oid) = Some x \<Longrightarrow> ao_entries x p \<noteq> None \<Longrightarrow>
      slot_oid (last (hist s)) p = Some oid" for oid x p
    using assms unfolding log_inv_def log_wf_def by blast
  obtain vs hs where "views s (lb_hoid lb) = Some vs" "view_history codec vs = Some hs"
    using assms by (auto simp: log_inv_def)
  then show "\<exists>vs. views s (lb_hoid lb) = Some vs \<and> view_history codec vs = Some (hist s)
      \<and> length vs = length (hist s)"
    using view_history_nth by (fastforce simp: log_views_def)
qed

lemma hist_bound: "ok s \<Longrightarrow> length (hist s) < 2 ^ 64"
  using okD(1,5) views_bound by metis

text \<open>The object an old view names for a position is the one the newest view names.\<close>

lemma old_slot:
  assumes "ok s" and "v \<in> set (hist s)" and "slot_oid v p = Some oid"
  shows "slot_oid (last (hist s)) p = Some oid"
proof -
  obtain i where i: "i < length (hist s)" "v = hist s ! i" using assms(2) by (auto simp: in_set_conv_nth)
  have "om_le (v_object_map v) (v_object_map (last (hist s)))"
    using history_wf_le [OF okD(3) [OF assms(1)], of i "length (hist s) - 1"] i okD(2) [OF assms(1)]
    by (simp add: last_conv_nth)
  then show ?thesis
    using slot_oid_le [of v "last (hist s)" p oid] assms(3) history_wf_nth [OF okD(3) [OF assms(1)] i(1)] i(2)
    by simp
qed

lemma at_slot:
  assumes "slot_oid (last (hist s)) p = Some oid"
  shows "at s p = (case obj s (prefixed_oid lb oid) of None \<Rightarrow> None | Some x \<Rightarrow> ao_get x p)"
  using assms by (simp add: log_at_def log_get_def)

text \<open>A change of one data object.\<close>

lemma obj_step:
  assumes "ok s" and "sinv s'" and "views s' = views s"
    and "obj s' = (obj s)(prefixed_oid lb oid := ob')"
    and "aobj_le (obj s (prefixed_oid lb oid)) ob'"
    and new: "\<And>x q. ob' = Some x \<Longrightarrow> ao_entries x q \<noteq> None \<Longrightarrow>
      (\<exists>y. obj s (prefixed_oid lb oid) = Some y \<and> ao_entries y q \<noteq> None)
      \<or> slot_oid (last (hist s)) q = Some oid"
  shows "ok s' \<and> le s s' \<and> hist s' = hist s"
proof -
  have h: "hist s' = hist s" using assms(3) by (simp add: log_views_def)
  have "log_wf (obj s') lb (hist s')"
    unfolding log_wf_def h
  proof (intro conjI allI impI)
    fix oid' x p assume x: "obj s' (prefixed_oid lb oid') = Some x" "ao_entries x p \<noteq> None"
    show "slot_oid (last (hist s)) p = Some oid'"
      using okD(4) [OF assms(1)] x new [of x p] by (cases "oid' = oid") (auto simp: assms(4))
  qed (use okD [OF assms(1)] in simp_all)
  then have "ok s'" using assms(1,2,3) h by (simp add: log_inv_def)
  moreover have "entry_le (at s p) (at s' p)" for p
  proof (cases "slot_oid (last (hist s)) p")
    case None
    then show ?thesis by (simp add: log_at_def log_get_def)
  next
    case (Some o')
    then have "at s' p = (case obj s' (prefixed_oid lb o') of None \<Rightarrow> None | Some x \<Rightarrow> ao_get x p)"
      by (simp add: log_at_def log_get_def h)
    then show ?thesis
      using at_slot [OF Some] assms(4,5) by (cases "o' = oid") (auto simp: aobj_le_def split: option.splits)
  qed
  ultimately show ?thesis using h by (simp add: log_le_def)
qed

lemma read_log:
  assumes "ok s" and "v \<in> set (hist s)" and "slot_oid v p = Some oid"
  shows "lb_Read lb oid e p s = Inr d \<Longrightarrow> at s p = Some (Data d)"
    and "lb_Read lb oid e p s = Inl ERANGE \<Longrightarrow> at s p = None"
    and "lb_Read lb oid e p s = Inl ENODATA \<Longrightarrow> at s p = Some Junk"
  using at_slot [OF old_slot [OF assms]]
  by (auto simp: lb_defs read_spec [OF okD(1) [OF assms(1)]] a_read_def a_guard_def
      split: sum.splits option.splits entry.splits if_splits)

lemma write_log:
  assumes "ok s" and "v \<in> set (hist s)" and "slot_oid v p = Some oid"
    and w: "lb_Write lb oid d e p s = (r, s')"
  shows "ok s' \<and> le s s' \<and> hist s' = hist s"
    and "r = Inr () \<Longrightarrow> at s p = None \<and> at s' p = Some (Data d)"
    and "r = Inl EROFS \<Longrightarrow> at s p \<noteq> None"
proof -
  let ?o = "prefixed_oid lb oid"
  note slot = old_slot [OF assms(1-3)]
  have st: "sinv s'" "obj s' = (obj s)(?o := snd (a_write ?o d e p (obj s ?o)))" "views s' = views s"
    and r: "r = fst (a_write ?o d e p (obj s ?o))"
    using write_state [OF okD(1) [OF assms(1)], of ?o d e p r s'] w
      write_ret [OF okD(1) [OF assms(1)], of ?o d e p] by (auto simp: lb_defs)
  have new: "(\<exists>y. obj s ?o = Some y \<and> ao_entries y q \<noteq> None) \<or> slot_oid (last (hist s)) q = Some oid"
    if "snd (a_write ?o d e p (obj s ?o)) = Some x" "ao_entries x q \<noteq> None" for x q
    using that slot
    by (cases "q = p") (auto simp: a_write_def split: sum.splits if_splits dest!: a_guard_Inr)
  show step: "ok s' \<and> le s s' \<and> hist s' = hist s"
    by (rule obj_step [OF assms(1) st(1,3,2) a_write_le]) (rule new)
  have "slot_oid (last (hist s')) p = Some oid" using step slot by simp
  note at = at_slot [OF slot] at_slot [OF this]
  show "r = Inr () \<Longrightarrow> at s p = None \<and> at s' p = Some (Data d)"
    using r by (auto simp: at st(2) a_write_def ao_get_def split: sum.splits if_splits dest!: a_guard_Inr)
  show "r = Inl EROFS \<Longrightarrow> at s p \<noteq> None"
    using r by (auto simp: at a_write_def a_guard_def split: sum.splits if_splits option.splits)
qed

lemma fill_log:
  assumes "ok s" and "v \<in> set (hist s)" and "slot_oid v p = Some oid"
    and w: "lb_Fill lb oid e p s = (r, s')"
  shows "ok s' \<and> le s s' \<and> hist s' = hist s"
    and "r = Inr () \<Longrightarrow> (at s p = None \<or> at s p = Some Junk) \<and> at s' p = Some Junk"
    and "r = Inl EROFS \<Longrightarrow> \<exists>d. at s p = Some (Data d)"
proof -
  let ?o = "prefixed_oid lb oid"
  note slot = old_slot [OF assms(1-3)]
  have st: "sinv s'" "obj s' = (obj s)(?o := snd (a_fill ?o e p (obj s ?o)))" "views s' = views s"
    and r: "r = fst (a_fill ?o e p (obj s ?o))"
    using fill_state [OF okD(1) [OF assms(1)], of ?o e p r s'] w
      fill_ret [OF okD(1) [OF assms(1)], of ?o e p] by (auto simp: lb_defs)
  have new: "(\<exists>y. obj s ?o = Some y \<and> ao_entries y q \<noteq> None) \<or> slot_oid (last (hist s)) q = Some oid"
    if "snd (a_fill ?o e p (obj s ?o)) = Some x" "ao_entries x q \<noteq> None" for x q
    using that slot
    by (cases "q = p")
      (auto simp: a_fill_def split: sum.splits option.splits entry.splits dest!: a_guard_Inr)
  show step: "ok s' \<and> le s s' \<and> hist s' = hist s"
    by (rule obj_step [OF assms(1) st(1,3,2) a_fill_le]) (rule new)
  have "slot_oid (last (hist s')) p = Some oid" using step slot by simp
  note at = at_slot [OF slot] at_slot [OF this]
  show "r = Inr () \<Longrightarrow> (at s p = None \<or> at s p = Some Junk) \<and> at s' p = Some Junk"
    using r by (auto simp: at st(2) a_fill_def ao_get_def
        split: sum.splits if_splits option.splits entry.splits dest!: a_guard_Inr)
  show "r = Inl EROFS \<Longrightarrow> \<exists>d. at s p = Some (Data d)"
    using r by (auto simp: at a_fill_def a_guard_def
        split: sum.splits if_splits option.splits entry.splits)
qed

lemma trim_log:
  assumes "ok s" and "v \<in> set (hist s)" and "slot_oid v p = Some oid"
    and w: "lb_Trim lb oid e p False False s = (r, s')"
  shows "ok s' \<and> le s s' \<and> hist s' = hist s"
    and "r = Inr () \<Longrightarrow> at s' p = Some Junk"
proof -
  let ?o = "prefixed_oid lb oid"
  note slot = old_slot [OF assms(1-3)]
  have st: "sinv s'" "obj s' = (obj s)(?o := snd (a_trim ?o e p False False (obj s ?o)))" "views s' = views s"
    and r: "r = fst (a_trim ?o e p False False (obj s ?o))"
    using trim_state [OF okD(1) [OF assms(1)], of ?o e p False False r s'] w
      trim_ret [OF okD(1) [OF assms(1)], of ?o e p False False] by (auto simp: lb_defs)
  have new: "(\<exists>y. obj s ?o = Some y \<and> ao_entries y q \<noteq> None) \<or> slot_oid (last (hist s)) q = Some oid"
    if "snd (a_trim ?o e p False False (obj s ?o)) = Some x" "ao_entries x q \<noteq> None" for x q
    using that slot
    by (cases "q = p") (auto simp: a_trim_def split: sum.splits if_splits dest!: a_guard_Inr)
  show step: "ok s' \<and> le s s' \<and> hist s' = hist s"
    by (rule obj_step [OF assms(1) st(1,3,2) a_trim_le]) (simp, rule new)
  have "slot_oid (last (hist s')) p = Some oid" using step slot by simp
  from at_slot [OF this] show "r = Inr () \<Longrightarrow> at s' p = Some Junk"
    using r by (auto simp: st(2) a_trim_def ao_get_def split: sum.splits if_splits dest!: a_guard_Inr)
qed

text \<open>Trimming an object up to a limit, with the flag \<^verbatim>\<open>map_to\<close> computed from some accepted view.\<close>

lemma trim_limit_log:
  assumes "ok s" and v: "v \<in> set (hist s)"
    and p': "p' \<le> unat p" "om_locate (v_object_map v) p' = Some (i, c)"
    and full: "full = (\<forall>q. om_locate (v_object_map v) q = Some (i, c) \<longrightarrow> q \<le> unat p)"
    and w: "lb_Trim lb (oid_of_slot (i, c)) e p True full s = (r, s')"
  shows "ok s' \<and> le s s' \<and> hist s' = hist s"
    and "r = Inr () \<Longrightarrow> q \<le> p \<Longrightarrow> om_locate (v_object_map v) (unat q) = Some (i, c) \<Longrightarrow>
      at s' q = Some Junk"
proof -
  let ?oid = "oid_of_slot (i, c)"
  let ?o = "prefixed_oid lb ?oid"
  have st: "sinv s'" "obj s' = (obj s)(?o := snd (a_trim ?o e p True full (obj s ?o)))" "views s' = views s"
    and r: "r = fst (a_trim ?o e p True full (obj s ?o))"
    using trim_state [OF okD(1) [OF assms(1)], of ?o e p True full r s'] w
      trim_ret [OF okD(1) [OF assms(1)], of ?o e p True full] by (auto simp: lb_defs)
  have below: "below_limit (Some (case ao_limit x of None \<Rightarrow> p | Some l \<Rightarrow> max p l)) q" if "q \<le> p" for x q
    using that by (auto simp: below_limit_def le_max_iff_disj split: option.split)
  have new: "(\<exists>y. obj s ?o = Some y \<and> ao_entries y q \<noteq> None) \<or> slot_oid (last (hist s)) q = Some ?oid"
    if "snd (a_trim ?o e p True full (obj s ?o)) = Some x" "ao_entries x q \<noteq> None" for x q
    using that below
    by (auto simp: a_trim_def Let_def split: sum.splits if_splits dest!: a_guard_Inr)
  obtain k where k: "k < length (hist s)" "v = hist s ! k" using v by (auto simp: in_set_conv_nth)
  have vle: "om_le (v_object_map v) (v_object_map (last (hist s)))"
    using history_wf_le [OF okD(3) [OF assms(1)], of k "length (hist s) - 1"] k okD(2) [OF assms(1)]
    by (simp add: last_conv_nth)
  have wf: "om_wf (v_object_map v)" "om_wf (v_object_map (last (hist s)))"
    using history_wf_nth [OF okD(3) [OF assms(1)]] k okD(2) [OF assms(1)]
    by (auto simp: view_wf_def last_conv_nth)
  have "full \<longrightarrow> (\<forall>x q. obj s ?o = Some x \<longrightarrow> ao_entries x q \<noteq> None \<longrightarrow> q \<le> p)"
  proof (intro impI allI)
    fix x q assume f: full and x: "obj s ?o = Some x" "ao_entries x q \<noteq> None"
    have "slot_oid (last (hist s)) q = Some ?oid" by (rule okD(4) [OF assms(1) x])
    then have "unat q \<le> unat p"
      using full_object_later [OF wf vle p', of "unat q"] f full by (auto simp: slot_oid_def)
    then show "q \<le> p" by (simp add: word_le_nat_alt)
  qed
  from obj_step [OF assms(1) st(1,3,2) a_trim_le [OF this]]
  show step: "ok s' \<and> le s s' \<and> hist s' = hist s" using new by blast
  assume ok: "r = Inr ()" and q: "q \<le> p" "om_locate (v_object_map v) (unat q) = Some (i, c)"
  have "slot_oid v q = Some ?oid" using q(2) by (simp add: slot_oid_def)
  from old_slot [OF assms(1) v this] have "slot_oid (last (hist s')) q = Some ?oid" using step by simp
  from at_slot [OF this] show "at s' q = Some Junk"
    using r ok below [OF q(1)] below [of p]
    by (auto simp: st(2) a_trim_def ao_get_def Let_def split: sum.splits if_splits)
qed

lemma seal_log:
  assumes "ok s" and w: "lb_Seal lb oid e s = (r, s')"
  shows "ok s' \<and> le s s' \<and> hist s' = hist s"
proof -
  let ?o = "prefixed_oid lb oid"
  have st: "sinv s'" "obj s' = (obj s)(?o := snd (a_seal ?o e (obj s ?o)))" "views s' = views s"
    using seal_state [OF okD(1) [OF assms(1)], of ?o e r s'] w by (auto simp: lb_defs)
  have new: "(\<exists>y. obj s ?o = Some y \<and> ao_entries y q \<noteq> None) \<or> slot_oid (last (hist s)) q = Some oid"
    if "snd (a_seal ?o e (obj s ?o)) = Some x" "ao_entries x q \<noteq> None" for x q
    using that by (auto simp: a_seal_def ao_init_def split: option.splits if_splits)
  show ?thesis by (rule obj_step [OF assms(1) st(1,3,2) a_seal_le]) (rule new)
qed

text \<open>Proposing a view that keeps what the view of the previous epoch maps.\<close>

lemma propose_log:
  assumes "ok s"
    and v: "view_wf v" "om_aligned (v_object_map v)" "view_decode codec data = Some v"
      "unat e = length (hist s) + 1 \<Longrightarrow> om_le (v_object_map (last (hist s))) (v_object_map v)"
    and w: "lb_ProposeView lb e data s = (r, s')"
  shows "ok s' \<and> le s s'"
    and "r = Inr () \<Longrightarrow> hist s' = hist s @ [v] \<and> unat e = length (hist s) + 1"
    and "r \<noteq> Inr () \<Longrightarrow> hist s' = hist s"
    and "r = Inl ESPIPE \<Longrightarrow> unat e \<le> length (hist s)"
proof -
  obtain vs where vs: "views s (lb_hoid lb) = Some vs" "view_history codec vs = Some (hist s)"
      "length vs = length (hist s)"
    using okD(5) [OF assms(1)] by blast
  note inv = okD(1) [OF assms(1)]
  have r: "r = fst (a_propose e data vs)"
    using propose_ret [OF inv vs(1), of e data] w by (simp add: lb_defs)
  have st: "sinv s'" "obj s' = obj s" "views s' (lb_hoid lb) = Some (snd (a_propose e data vs))"
    using propose_state [OF inv, of "lb_hoid lb" e data r s'] w vs(1) by (simp_all add: lb_defs)
  have b: "length vs < 2 ^ 64" using views_bound [OF inv vs(1)] by simp
  show "r = Inl ESPIPE \<Longrightarrow> unat e \<le> length (hist s)"
  proof -
    assume "r = Inl ESPIPE"
    then have "e \<le> of_nat (length vs) + 1" "e \<noteq> of_nat (length vs) + 1"
      using r by (auto simp: a_propose_def Let_def split: if_splits)
    then have lt: "e < of_nat (length vs) + 1" by simp
    then have "(of_nat (length vs) + 1 :: u64) \<noteq> 0" by auto
    then have "unat (1 + of_nat (length vs) :: u64) = Suc (length vs)"
      using b by (subst unatSuc) (simp_all add: add.commute unat_of_nat_u64)
    then show ?thesis using lt vs(3) by (simp add: word_less_nat_alt add.commute)
  qed
  have *: "ok s' \<and> le s s' \<and> hist s' = (if r = Inr () then hist s @ [v] else hist s)
      \<and> (r = Inr () \<longrightarrow> unat e = length (hist s) + 1)"
  proof (cases "r = Inr ()")
    case False
    then have "snd (a_propose e data vs) = vs" using r by (auto simp: a_propose_def Let_def split: if_splits)
    then have same: "hist s' = hist s" using st(3) vs by (simp add: log_views_def)
    then have "ok s'" using assms(1) st vs \<open>snd _ = vs\<close> by (simp add: log_inv_def)
    moreover have "le s s'" using same st(2) by (simp add: log_le_def log_at_def)
    ultimately show ?thesis using same False by simp
  next
    case True
    note p = a_propose_ok [OF r [symmetric, unfolded True] b]
    have h: "view_history codec (vs @ [data]) = Some (hist s @ [v])"
      by (rule view_history_snoc [OF vs(2) v(3)])
    then have hs: "hist s' = hist s @ [v]" using st(3) p(2) by (simp add: log_views_def)
    have le: "om_le (v_object_map (last (hist s))) (v_object_map v)" using v(4) p(1) vs(3) by simp
    have wfl: "view_wf (last (hist s))"
      using okD(2,3) [OF assms(1)] by (auto simp: history_wf_def)
    have "log_wf (obj s') lb (hist s')"
      unfolding log_wf_def hs st(2)
    proof (intro conjI allI impI)
      show "history_wf (hist s @ [v])"
        by (rule history_wf_snoc [OF okD(3,2) [OF assms(1)] v(1,2) le])
    next
      fix oid x q assume "obj s (prefixed_oid lb oid) = Some x" "ao_entries x q \<noteq> None"
      then show "slot_oid (last (hist s @ [v])) q = Some oid"
        using okD(4) [OF assms(1)] slot_oid_le [OF wfl le] by simp
    qed simp
    then have "ok s'" using st p(2) h by (simp add: log_inv_def)
    moreover have "entry_le (at s q) (at s' q)" for q
    proof (cases "slot_oid (last (hist s)) q")
      case None
      then show ?thesis by (simp add: log_at_def log_get_def)
    next
      case (Some oid)
      then have "slot_oid (last (hist s')) q = Some oid" using slot_oid_le [OF wfl le] hs by simp
      then show ?thesis using at_slot [OF Some] at_slot [of s' q oid] st(2) by simp
    qed
    ultimately show ?thesis using True hs p(1) vs(3) by (simp add: log_le_def)
  qed
  then show "ok s' \<and> le s s'"
    and "r = Inr () \<Longrightarrow> hist s' = hist s @ [v] \<and> unat e = length (hist s) + 1"
    and "r \<noteq> Inr () \<Longrightarrow> hist s' = hist s"
    by simp_all
qed

end

end
