(* ===== verification/View_Reader.thy ===== *)
theory View_Reader
  imports Shared_Log
begin

text \<open>
  The class \<^verbatim>\<open>ViewReader\<close> of \<^verbatim>\<open>libzlog/view_reader.h\<close> and \<^verbatim>\<open>libzlog/view_reader.cc\<close>. Sequencers are shared
  objects that several views may point to: \<open>vr_seqs\<close> is the heap of the sequencers created so far and
  a view holds an index into it. A waiter is a number with its epoch; \<open>vr_done\<close> collects the waiters
  whose flag \<^verbatim>\<open>done\<close> has been set. Each function below is what one thread does while it holds the
  lock, or between two waits of the refresh thread. \<^const>\<open>None\<close> is a failed assertion.
\<close>

record view_reader =
  vr_shutdown :: bool
  vr_view :: "versioned_view option"
  vr_seqs :: "sequencer list"
  vr_refresh_timeout :: int
  vr_waiters :: "(nat \<times> u64) list"
  vr_done :: "nat list"
  vr_next_waiter :: nat

definition view_reader_new :: "options \<Rightarrow> view_reader" where
  "view_reader_new opts = \<lparr>vr_shutdown = False, vr_view = None, vr_seqs = [],
     vr_refresh_timeout = max_refresh_timeout_ms opts, vr_waiters = [], vr_done = [],
     vr_next_waiter = 0\<rparr>"

definition vr_do_shutdown :: "view_reader \<Rightarrow> view_reader" where
  "vr_do_shutdown vr = vr\<lparr>vr_shutdown := True\<rparr>"

text \<open>\<^verbatim>\<open>get_latest_view\<close>: the inner option is the null pointer.\<close>

definition get_latest_view :: "view_codec \<Rightarrow> 's log_backend \<Rightarrow> 's \<Rightarrow> versioned_view option option" where
  "get_latest_view codec lb s =
     (case lb_ReadViews lb 0 1 s of
        Inl ret \<Rightarrow> Some None
      | Inr views \<Rightarrow>
          if views = [] then Some None
          else let it = last views in map_option Some (versioned_view_new codec (fst it) (snd it)))"

text \<open>The sequencer of a freshly read view: none, the one of the current view, or a new one.\<close>

definition attach_sequencer ::
  "string \<Rightarrow> versioned_view \<Rightarrow> view_reader \<Rightarrow> (versioned_view \<times> view_reader) option" where
  "attach_sequencer token latest vr =
     (case v_seq_config (vv_view latest) of
        None \<Rightarrow> Some (latest, vr)
      | Some cfg \<Rightarrow>
          if sc_token cfg \<noteq> token then Some (latest, vr)
          else
            (case vr_view vr of
               Some cur \<Rightarrow>
                 (case v_seq_config (vv_view cur) of
                    Some old \<Rightarrow>
                      if sc_token old = token \<and> sc_epoch old = sc_epoch cfg
                      then (case vv_seq cur of
                              None \<Rightarrow> None
                            | Some r \<Rightarrow> Some (latest\<lparr>vv_seq := Some r\<rparr>, vr))
                      else Some (latest\<lparr>vv_seq := Some (length (vr_seqs vr))\<rparr>,
                             vr\<lparr>vr_seqs := vr_seqs vr @ [\<lparr>sq_epoch = vv_epoch latest,
                                                        sq_position = sc_position cfg\<rparr>]\<rparr>)
                  | None \<Rightarrow> Some (latest\<lparr>vv_seq := Some (length (vr_seqs vr))\<rparr>,
                             vr\<lparr>vr_seqs := vr_seqs vr @ [\<lparr>sq_epoch = vv_epoch latest,
                                                        sq_position = sc_position cfg\<rparr>]\<rparr>))
             | None \<Rightarrow> Some (latest\<lparr>vv_seq := Some (length (vr_seqs vr))\<rparr>,
                             vr\<lparr>vr_seqs := vr_seqs vr @ [\<lparr>sq_epoch = vv_epoch latest,
                                                        sq_position = sc_position cfg\<rparr>]\<rparr>)))"

definition refresh_view ::
  "view_codec \<Rightarrow> 's log_backend \<Rightarrow> 's \<Rightarrow> view_reader \<Rightarrow> view_reader option" where
  "refresh_view codec lb s vr =
     Option.bind (get_latest_view codec lb s) (\<lambda>l.
       case l of
         None \<Rightarrow> Some vr
       | Some latest \<Rightarrow>
           if vv_seq latest \<noteq> None then None
           else
             (case vr_view vr of
                Some cur \<Rightarrow>
                  if \<not> vv_epoch cur \<le> vv_epoch latest then None
                  else if vv_epoch latest = vv_epoch cur then Some vr
                  else map_option (\<lambda>(v, vr'). vr'\<lparr>vr_view := Some v\<rparr>)
                         (attach_sequencer (lb_token lb) latest vr)
              | None \<Rightarrow> map_option (\<lambda>(v, vr'). vr'\<lparr>vr_view := Some v\<rparr>)
                         (attach_sequencer (lb_token lb) latest vr)))"

text \<open>One round of \<^verbatim>\<open>refresh_entry_\<close>: the timed wait (\<open>timed_out\<close> is its status), the check for shutdown
  (the result flag says that the thread leaves its loop), the refresh, and the wake-ups.\<close>

definition refresh_wait :: "options \<Rightarrow> bool \<Rightarrow> view_reader \<Rightarrow> view_reader \<times> bool" where
  "refresh_wait opts timed_out vr =
     (let timeout = (if vr_waiters vr = [] then max_refresh_timeout_ms opts
                     else min (vr_refresh_timeout vr) (max_refresh_timeout_ms opts));
          vr1 = (if timed_out then vr\<lparr>vr_refresh_timeout := timeout * 2\<rparr> else vr)
      in if vr_shutdown vr1
         then (vr1\<lparr>vr_done := vr_done vr1 @ map fst (vr_waiters vr1), vr_waiters := []\<rparr>, True)
         else (vr1, False))"

definition refresh_notify :: "view_reader \<Rightarrow> view_reader" where
  "refresh_notify vr =
     (case vr_view vr of
        None \<Rightarrow> vr
      | Some current_view \<Rightarrow>
          vr\<lparr>vr_done := vr_done vr
                @ map fst (filter (\<lambda>w. snd w < vv_epoch current_view) (vr_waiters vr)),
             vr_waiters := filter (\<lambda>w. \<not> snd w < vv_epoch current_view) (vr_waiters vr)\<rparr>)"

definition refresh_step ::
  "view_codec \<Rightarrow> 's log_backend \<Rightarrow> options \<Rightarrow> bool \<Rightarrow> 's \<Rightarrow> view_reader \<Rightarrow> (view_reader \<times> bool) option" where
  "refresh_step codec lb opts timed_out s vr =
     (let (vr1, stop) = refresh_wait opts timed_out vr
      in if stop then Some (vr1, True)
         else map_option (\<lambda>vr2. (refresh_notify vr2, False)) (refresh_view codec lb s vr1))"

text \<open>\<^verbatim>\<open>wait_for_newer_view\<close> up to the wait itself: \<^const>\<open>None\<close> when it returns at once, else the waiter.\<close>

definition wait_for_newer_view ::
  "options \<Rightarrow> u64 \<Rightarrow> bool \<Rightarrow> view_reader \<Rightarrow> nat option \<times> view_reader" where
  "wait_for_newer_view opts epoch wakeup vr =
     (if vr_shutdown vr then (None, vr)
      else
        let w = vr_next_waiter vr;
            wake = (wakeup \<or> vr_waiters vr = []);
            vr1 = vr\<lparr>vr_waiters := vr_waiters vr @ [(w, epoch)], vr_next_waiter := w + 1\<rparr>
        in (Some w, if wake then vr1\<lparr>vr_refresh_timeout := min_refresh_timeout_ms opts\<rparr> else vr1))"

section \<open>The current view\<close>

text \<open>The sequencer reference of a view points into the heap, a view whose configuration carries the
  client's token has one, and no sequencer has epoch 0.\<close>

definition vr_wf :: "string \<Rightarrow> view_reader \<Rightarrow> bool" where
  "vr_wf token vr \<longleftrightarrow> (\<forall>sq\<in>set (vr_seqs vr). 0 < sq_epoch sq)
   \<and> (case vr_view vr of None \<Rightarrow> True | Some v \<Rightarrow>
     (case vv_seq v of None \<Rightarrow> True | Some r \<Rightarrow> r < length (vr_seqs vr))
   \<and> (case v_seq_config (vv_view v) of None \<Rightarrow> vv_seq v = None
      | Some c \<Rightarrow> (vv_seq v \<noteq> None) = (sc_token c = token)))"

lemma attach_sequencer_some:
  assumes "vr_wf token vr" and "vv_seq latest = None" and "0 < vv_epoch latest"
  obtains r sq where "attach_sequencer token latest vr =
      Some (latest\<lparr>vv_seq := r\<rparr>, vr\<lparr>vr_seqs := vr_seqs vr @ sq\<rparr>)"
    and "vr_wf token (vr\<lparr>vr_seqs := vr_seqs vr @ sq, vr_view := Some (latest\<lparr>vv_seq := r\<rparr>)\<rparr>)"
proof -
  have id: "latest = latest\<lparr>vv_seq := None\<rparr>" "vr = vr\<lparr>vr_seqs := vr_seqs vr @ []\<rparr>"
    using assms(2) by simp_all
  note concl = that
  have new: ?thesis if "attach_sequencer token latest vr =
      Some (latest\<lparr>vv_seq := Some (length (vr_seqs vr))\<rparr>, vr\<lparr>vr_seqs := vr_seqs vr @ [x]\<rparr>)"
      and "0 < sq_epoch x" and "\<exists>c. v_seq_config (vv_view latest) = Some c \<and> sc_token c = token" for x
    using that(1) by (rule concl) (use that(2,3) assms(1) in \<open>auto simp: vr_wf_def\<close>)
  show ?thesis
  proof (cases "v_seq_config (vv_view latest)")
    case None
    then have "attach_sequencer token latest vr = Some (latest, vr)" by (simp add: attach_sequencer_def)
    with id show ?thesis
      using None assms by (intro that [of None "[]"]) (simp_all add: vr_wf_def)
  next
    case (Some cfg)
    show ?thesis
    proof (cases "sc_token cfg = token")
      case False
      then have "attach_sequencer token latest vr = Some (latest, vr)"
        using Some by (simp add: attach_sequencer_def)
      with id show ?thesis
        using Some False assms by (intro that [of None "[]"]) (simp_all add: vr_wf_def)
    next
      case True
      show ?thesis
      proof (cases "\<exists>cur old. vr_view vr = Some cur \<and> v_seq_config (vv_view cur) = Some old
          \<and> sc_token old = token \<and> sc_epoch old = sc_epoch cfg")
        case reuse: True
        then obtain cur old where c: "vr_view vr = Some cur" "v_seq_config (vv_view cur) = Some old"
            "sc_token old = token" "sc_epoch old = sc_epoch cfg" by blast
        with assms(1) obtain r where r: "vv_seq cur = Some r" "r < length (vr_seqs vr)"
          by (auto simp: vr_wf_def)
        then have "attach_sequencer token latest vr = Some (latest\<lparr>vv_seq := Some r\<rparr>, vr)"
          using Some True c by (simp add: attach_sequencer_def)
        with id(2) show ?thesis
          using r Some True assms(1) by (intro that [of "Some r" "[]"]) (simp_all add: vr_wf_def)
      next
        case False
        then show ?thesis
          using Some True assms(3)
          by (intro new [where x = "\<lparr>sq_epoch = vv_epoch latest, sq_position = sc_position cfg\<rparr>"])
            (auto simp: attach_sequencer_def split: option.split)
      qed
    qed
  qed
qed

text \<open>The cached view is one of the accepted views.\<close>

definition vr_cached :: "view list \<Rightarrow> view_reader \<Rightarrow> bool" where
  "vr_cached hs vr \<longleftrightarrow> (case vr_view vr of None \<Rightarrow> True | Some v \<Rightarrow>
     0 < unat (vv_epoch v) \<and> unat (vv_epoch v) \<le> length hs
   \<and> vv_view v = hs ! (unat (vv_epoch v) - 1))"

lemma vr_wf_cong: "vr_view a = vr_view b \<Longrightarrow> vr_seqs a = vr_seqs b \<Longrightarrow> vr_wf t a = vr_wf t b"
  by (auto simp: vr_wf_def split: option.split)

lemma vr_cached_cong: "vr_view a = vr_view b \<Longrightarrow> vr_cached hs a = vr_cached hs b"
  by (simp add: vr_cached_def)

lemma vr_cached_append: "vr_cached hs vr \<Longrightarrow> vr_cached (hs @ ws) vr"
  by (auto simp: vr_cached_def nth_append split: option.splits)

context log_client
begin

lemma latest_view:
  assumes "ok s"
  shows "get_latest_view codec lb s =
    Some (Some \<lparr>vv_view = last (hist s), vv_epoch = of_nat (length (hist s)), vv_seq = None\<rparr>)"
proof -
  obtain vs where vs: "views s (lb_hoid lb) = Some vs" "view_history codec vs = Some (hist s)"
      "length vs = length (hist s)"
    using okD(5) [OF assms] by blast
  have ne: "vs \<noteq> []" "hist s \<noteq> []" using vs(3) okD(2) [OF assms] by auto
  then have "view_decode codec (last vs) = Some (last (hist s))"
    using view_history_nth [OF vs(2)] vs(3) by (simp add: last_conv_nth)
  then show ?thesis
    using ne vs(3) by (simp add: get_latest_view_def lb_defs read_views_spec [OF okD(1) [OF assms] vs(1)]
        a_read_views_def versioned_view_new_def)
qed

lemma view_at_epoch:
  assumes "ok s" and "0 < unat e" and "unat e \<le> length (hist s)"
  shows "\<exists>data. lb_ReadViews lb e 1 s = Inr [(e, data)]
    \<and> view_decode codec data = Some (hist s ! (unat e - 1))"
proof -
  obtain vs where vs: "views s (lb_hoid lb) = Some vs" "view_history codec vs = Some (hist s)"
      "length vs = length (hist s)"
    using okD(5) [OF assms(1)] by blast
  have "[unat e - 1..<length vs] = (unat e - 1) # [unat e..<length vs]"
    using assms(2,3) vs(3) by (subst upt_conv_Cons) simp_all
  moreover have "of_nat (Suc (unat e - 1)) = e" using assms(2) by simp
  moreover have "e \<noteq> 0" using assms(2) by auto
  ultimately have "lb_ReadViews lb e 1 s = Inr [(e, vs ! (unat e - 1))]"
    by (simp add: lb_defs read_views_spec [OF okD(1) [OF assms(1)] vs(1)] a_read_views_def)
  moreover have "view_decode codec (vs ! (unat e - 1)) = Some (hist s ! (unat e - 1))"
    using view_history_nth [OF vs(2)] vs(3) assms(2,3) by simp
  ultimately show ?thesis by blast
qed

text \<open>Refreshing installs the newest view and leaves the other fields alone.\<close>

lemma refresh_view_ok:
  assumes "ok s" and "vr_wf (lb_token lb) vr" and "vr_cached (hist s) vr"
  obtains vr' v sq where "refresh_view codec lb s vr = Some vr'"
    and "vr' = vr\<lparr>vr_seqs := vr_seqs vr @ sq, vr_view := Some v\<rparr>"
    and "unat (vv_epoch v) = length (hist s)" and "vv_view v = last (hist s)"
    and "vr_wf (lb_token lb) vr'" and "vr_cached (hist s) vr'"
proof -
  let ?l = "\<lparr>vv_view = last (hist s), vv_epoch = of_nat (length (hist s)), vv_seq = None\<rparr>"
  have ep: "unat (vv_epoch ?l) = length (hist s)"
    using hist_bound [OF assms(1)] by (simp add: unat_of_nat_u64)
  have pos: "0 < length (hist s)" using okD(2) [OF assms(1)] by simp
  have cached: "vr_cached (hist s) vr'"
    if "vr_view vr' = Some v" "unat (vv_epoch v) = length (hist s)" "vv_view v = last (hist s)" for vr' v
    using that pos by (simp add: vr_cached_def last_conv_nth)
  obtain r sq where a: "attach_sequencer (lb_token lb) ?l vr =
        Some (?l\<lparr>vv_seq := r\<rparr>, vr\<lparr>vr_seqs := vr_seqs vr @ sq\<rparr>)"
      "vr_wf (lb_token lb) (vr\<lparr>vr_seqs := vr_seqs vr @ sq, vr_view := Some (?l\<lparr>vv_seq := r\<rparr>)\<rparr>)"
    using pos ep by (elim attach_sequencer_some [OF assms(2), of ?l, rotated 2]) (simp_all only: word_less_nat_alt, simp_all)
  let ?vr = "vr\<lparr>vr_seqs := vr_seqs vr @ sq, vr_view := Some (?l\<lparr>vv_seq := r\<rparr>)\<rparr>"
  note concl = that
  have new: ?thesis if "refresh_view codec lb s vr = Some ?vr"
    using that by (rule concl [OF _ refl]) (use ep a(2) cached [of ?vr] in simp_all)
  show ?thesis
  proof (cases "vr_view vr")
    case None
    then show ?thesis using a(1) by (intro new) (simp add: refresh_view_def latest_view [OF assms(1)])
  next
    case (Some cur)
    have c: "unat (vv_epoch cur) \<le> length (hist s)" "vv_view cur = hist s ! (unat (vv_epoch cur) - 1)"
      using assms(3) Some by (simp_all add: vr_cached_def)
    have le: "vv_epoch cur \<le> vv_epoch ?l" unfolding word_le_nat_alt ep by (rule c(1))
    show ?thesis
    proof (cases "vv_epoch ?l = vv_epoch cur")
      case True
      then have "unat (vv_epoch cur) = length (hist s)" using ep by simp
      then have v: "unat (vv_epoch cur) = length (hist s)" "vv_view cur = last (hist s)"
        using c(2) pos by (simp_all add: last_conv_nth)
      have "refresh_view codec lb s vr = Some vr"
        using Some True le by (simp add: refresh_view_def latest_view [OF assms(1)])
      moreover have "vr = vr\<lparr>vr_seqs := vr_seqs vr @ [], vr_view := Some cur\<rparr>" using Some by simp
      ultimately show ?thesis by (rule concl [OF _ _ v assms(2,3)])
    next
      case False
      then show ?thesis
        using Some le a(1) by (intro new) (simp add: refresh_view_def latest_view [OF assms(1)])
    qed
  qed
qed

end

end
