(* ===== verification/World.thy ===== *)
theory World
  imports View_Reader
begin

text \<open>
  The world a client of the log runs in: the storage it shares with the other clients, its own view
  reader and view manager, and the interference it meets. \<open>w_env\<close> holds, for every point at which the
  client reads shared state or calls the backend, the list of things that happen just before: calls
  other clients make with the views they hold, views they propose, and what other threads of the same
  process do to the shared sequencer and the current view. The results of this development hold for
  every such list. \<open>w_tried\<close> records the positions the client tried to expand the view to.
\<close>

record view_manager =
  vm_shutdown :: bool
  vm_expand_pos :: "u64 option"
  vm_stripe_init_pos :: "u64 list"

definition async_expand_view :: "u64 \<Rightarrow> view_manager \<Rightarrow> view_manager" where
  "async_expand_view position vm =
     (case vm_expand_pos vm of
        None \<Rightarrow> vm\<lparr>vm_expand_pos := Some position\<rparr>
      | Some q \<Rightarrow> if q < position then vm\<lparr>vm_expand_pos := Some position\<rparr> else vm)"

definition async_init_stripe :: "u64 \<Rightarrow> view_manager \<Rightarrow> view_manager" where
  "async_init_stripe position vm = vm\<lparr>vm_stripe_init_pos := vm_stripe_init_pos vm @ [position]\<rparr>"

text \<open>A call of another client carries the epoch of the view it holds. \<open>ETrimTo e p i k\<close> is the trim of
  the \<open>k\<close>-th object that \<^verbatim>\<open>map_to\<close> lists for stripe \<open>i\<close>.\<close>

datatype event =
    EWrite u64 u64 string
  | EFill u64 u64
  | ETrim u64 u64
  | ETrimTo u64 u64 u64 nat
  | ESeal string u64
  | EExpand u64 options
  | EAdvance u64
  | ESequencer string u64
  | ETail
  | ERefresh
  | EAsyncExpand u64

record log_stats =
  append_propose_sequencer :: u64
  append_expand_view :: u64
  append_seal :: u64
  append_stale_view :: u64
  append_read_only :: u64

record 's world =
  w_store :: 's
  w_env :: "event list list"
  w_vr :: view_reader
  w_vm :: view_manager
  w_stats :: log_stats
  w_tried :: "u64 list"

section \<open>Interference\<close>

definition view_at :: "view_codec \<Rightarrow> 's log_backend \<Rightarrow> u64 \<Rightarrow> 's \<Rightarrow> (u64 \<times> view) option" where
  "view_at codec lb e s =
     (case lb_ReadViews lb e 1 s of
        Inl _ \<Rightarrow> None
      | Inr vs \<Rightarrow> if vs = [] then None
                else map_option (\<lambda>v. (fst (last vs), v)) (view_decode codec (snd (last vs))))"

definition with_slot ::
  "view_codec \<Rightarrow> 's log_backend \<Rightarrow> u64 \<Rightarrow> u64 \<Rightarrow> (u64 \<Rightarrow> string \<Rightarrow> 's \<Rightarrow> 's) \<Rightarrow> 's \<Rightarrow> 's" where
  "with_slot codec lb e p f s =
     (case view_at codec lb e s of
        None \<Rightarrow> s
      | Some (e', v) \<Rightarrow>
          (case om_map (v_object_map v) p of Some (Some oid, _) \<Rightarrow> f e' oid s | _ \<Rightarrow> s))"

definition propose_next ::
  "view_codec \<Rightarrow> 's log_backend \<Rightarrow> (u64 \<Rightarrow> view \<Rightarrow> view option) \<Rightarrow> 's \<Rightarrow> 's" where
  "propose_next codec lb f s =
     (case view_at codec lb 0 s of
        None \<Rightarrow> s
      | Some (e, v) \<Rightarrow>
          (case f (e + 1) v of
             None \<Rightarrow> s
           | Some v' \<Rightarrow>
               (case view_encode codec v' of
                  None \<Rightarrow> s | Some data \<Rightarrow> snd (lb_ProposeView lb (e + 1) data s))))"

definition position_limit :: nat where
  "position_limit = 2 ^ 64 - 2 ^ 32"

fun run_event_store :: "view_codec \<Rightarrow> 's log_backend \<Rightarrow> event \<Rightarrow> 's \<Rightarrow> 's" where
  "run_event_store codec lb (EWrite e p d) s =
     with_slot codec lb e p (\<lambda>e' oid s. snd (lb_Write lb oid d e' p s)) s"
| "run_event_store codec lb (EFill e p) s =
     with_slot codec lb e p (\<lambda>e' oid s. snd (lb_Fill lb oid e' p s)) s"
| "run_event_store codec lb (ETrim e p) s =
     with_slot codec lb e p (\<lambda>e' oid s. snd (lb_Trim lb oid e' p False False s)) s"
| "run_event_store codec lb (ETrimTo e p i k) s =
     (case view_at codec lb e s of
        None \<Rightarrow> s
      | Some (e', v) \<Rightarrow>
          (case om_map_to (v_object_map v) p i False of
             Some (Some objs, _, False) \<Rightarrow>
               if k < length objs
               then snd (lb_Trim lb (fst (objs ! k)) e' p True (snd (objs ! k)) s) else s
           | _ \<Rightarrow> s))"
| "run_event_store codec lb (ESeal oid e) s = snd (lb_Seal lb oid e s)"
| "run_event_store codec lb (EExpand p opts) s =
     propose_next codec lb (\<lambda>e v.
       if stripe_options_ok opts \<and> unat p < position_limit
       then (case view_expand_mapping v p opts of Some r \<Rightarrow> r | None \<Rightarrow> None) else None) s"
| "run_event_store codec lb (EAdvance p) s =
     propose_next codec lb (\<lambda>e v.
       case view_advance_min_valid_position v p of Some r \<Rightarrow> r | None \<Rightarrow> None) s"
| "run_event_store codec lb (ESequencer token p) s =
     propose_next codec lb (\<lambda>e v.
       if token_ok token \<and> 0 < e
       then Some (with_sequencer_config v \<lparr>sc_epoch = e, sc_token = token, sc_position = p\<rparr>) else None) s"
| "run_event_store codec lb ETail s = s"
| "run_event_store codec lb ERefresh s = s"
| "run_event_store codec lb (EAsyncExpand p) s = s"

text \<open>Another thread of this process takes the next position from the current sequencer, installs the
  newest view, or asks for an expansion in the background.\<close>

definition vr_check_tail :: "bool \<Rightarrow> nat \<Rightarrow> view_reader \<Rightarrow> u64 \<times> view_reader" where
  "vr_check_tail increment r vr =
     (let (p, sq) = check_tail increment (vr_seqs vr ! r)
      in (p, vr\<lparr>vr_seqs := (vr_seqs vr)[r := sq]\<rparr>))"

fun run_event_vr ::
  "view_codec \<Rightarrow> 's log_backend \<Rightarrow> 's \<Rightarrow> event \<Rightarrow> view_reader \<Rightarrow> view_reader" where
  "run_event_vr codec lb s ETail vr =
     (case vr_view vr of
        None \<Rightarrow> vr
      | Some v \<Rightarrow> (case vv_seq v of None \<Rightarrow> vr | Some r \<Rightarrow> snd (vr_check_tail True r vr)))"
| "run_event_vr codec lb s ERefresh vr =
     (case refresh_view codec lb s vr of None \<Rightarrow> vr | Some vr' \<Rightarrow> vr')"
| "run_event_vr codec lb s _ vr = vr"

definition run_event :: "view_codec \<Rightarrow> 's log_backend \<Rightarrow> event \<Rightarrow> 's world \<Rightarrow> 's world" where
  "run_event codec lb ev w =
     w\<lparr>w_store := run_event_store codec lb ev (w_store w),
       w_vr := run_event_vr codec lb (w_store w) ev (w_vr w),
       w_vm := (case ev of EAsyncExpand p \<Rightarrow> async_expand_view p (w_vm w) | _ \<Rightarrow> w_vm w)\<rparr>"

definition interfere :: "view_codec \<Rightarrow> 's log_backend \<Rightarrow> 's world \<Rightarrow> 's world" where
  "interfere codec lb w =
     (case w_env w of
        [] \<Rightarrow> w
      | evs # rest \<Rightarrow> fold (run_event codec lb) evs (w\<lparr>w_env := rest\<rparr>))"

section \<open>The invariant of the world\<close>

definition world_ok ::
  "('s \<Rightarrow> bool) \<Rightarrow> ('s \<Rightarrow> string \<Rightarrow> aobj option) \<Rightarrow> ('s \<Rightarrow> string \<Rightarrow> string list option)
   \<Rightarrow> view_codec \<Rightarrow> 's log_backend \<Rightarrow> 's world \<Rightarrow> bool" where
  "world_ok sinv obj views codec lb w \<longleftrightarrow> log_inv sinv obj views codec lb (w_store w)
     \<and> vr_wf (lb_token lb) (w_vr w) \<and> vr_view (w_vr w) \<noteq> None
     \<and> vr_cached (log_views views codec lb (w_store w)) (w_vr w)"

lemma vr_check_tail_keeps [simp]:
  "vr_view (snd (vr_check_tail b r vr)) = vr_view vr"
  "vr_wf t (snd (vr_check_tail b r vr)) = vr_wf t vr"
  "vr_cached hs (snd (vr_check_tail b r vr)) = vr_cached hs vr"
proof -
  have upd: "(\<forall>sq\<in>set (xs[r := x]). 0 < sq_epoch sq) \<longleftrightarrow> (\<forall>sq\<in>set xs. 0 < sq_epoch sq)"
    if "sq_epoch x = sq_epoch (xs ! r)" for xs and x :: sequencer
  proof -
    have "map sq_epoch (xs[r := x]) = map sq_epoch xs"
      using that by (intro nth_equalityI) (simp, metis length_list_update length_map nth_list_update_eq
          nth_list_update_neq nth_map)
    then show ?thesis by (metis (no_types, lifting) image_iff list.set_map)
  qed
  show "vr_wf t (snd (vr_check_tail b r vr)) = vr_wf t vr"
    by (cases "vr_view vr")
      (simp_all add: vr_wf_def vr_check_tail_def check_tail_def upd split: option.split)
qed (simp_all add: vr_check_tail_def vr_cached_def split: prod.split)

context log_client
begin

abbreviation wok :: "'s world \<Rightarrow> bool" where
  "wok \<equiv> world_ok sinv obj views codec lb"

text \<open>A step that keeps the invariant of the log and only extends it keeps the invariant of the world.\<close>

lemma wok_store:
  assumes "wok w" and "ok s'" and "le (w_store w) s'"
  shows "wok (w\<lparr>w_store := s'\<rparr>)"
proof -
  obtain hs where "hist s' = hist (w_store w) @ hs" using assms(3) by (auto simp: log_le_def)
  then show ?thesis using assms by (simp add: world_ok_def vr_cached_append)
qed

lemma view_at_hist:
  assumes "ok s" and "view_at codec lb e s = Some (e', v)"
  shows "v \<in> set (hist s)" and "0 < unat e'" and "unat e' \<le> length (hist s)"
    and "v = hist s ! (unat e' - 1)" and "e = 0 \<Longrightarrow> unat e' = length (hist s)"
proof -
  obtain vs where vs: "views s (lb_hoid lb) = Some vs" "view_history codec vs = Some (hist s)"
      "length vs = length (hist s)"
    using okD(5) [OF assms(1)] by blast
  have b: "length vs < 18446744073709551616" using views_bound [OF okD(1) [OF assms(1)] vs(1)] by simp
  have ne: "vs \<noteq> []" "hist s \<noteq> []" using vs(3) okD(2) [OF assms(1)] by auto
  note n = view_history_nth [OF vs(2)]
  have "\<exists>i < length vs. e' = of_nat (Suc i) \<and> v = hist s ! i \<and> (e = 0 \<longrightarrow> Suc i = length vs)"
  proof (cases "e = 0")
    case True
    have "view_decode codec (last vs) = Some v" "e' = of_nat (length vs)"
      using assms(2) True ne(1)
      by (auto simp: view_at_def lb_defs read_views_spec [OF okD(1) [OF assms(1)] vs(1)] a_read_views_def)
    then show ?thesis using n ne by (intro exI [of _ "length vs - 1"]) (auto simp: last_conv_nth)
  next
    case False
    let ?xs = "take 1 [unat e - 1..<length vs]"
    have xs: "?xs = (if unat e - 1 < length vs then [unat e - 1] else [])"
      by (simp add: take_Suc upt_rec)
    show ?thesis
      using assms(2) False xs n
      by (intro exI [of _ "unat e - 1"])
        (auto simp: view_at_def lb_defs read_views_spec [OF okD(1) [OF assms(1)] vs(1)] a_read_views_def
          split: if_splits)
  qed
  then obtain i where i: "i < length vs" "e' = of_nat (Suc i)" "v = hist s ! i" "e = 0 \<longrightarrow> Suc i = length vs"
    by blast
  have "unat e' = Suc i" unfolding i(2) using i(1) b by (intro unat_of_nat_u64) linarith
  then show "v \<in> set (hist s)" "0 < unat e'" "unat e' \<le> length (hist s)"
    "v = hist s ! (unat e' - 1)" "e = 0 \<Longrightarrow> unat e' = length (hist s)"
    using i vs(3) by simp_all
qed

text \<open>The events keep the invariant and extend the log.\<close>

lemma with_slot_ok:
  assumes "ok s"
    and "\<And>e' oid v. v \<in> set (hist s) \<Longrightarrow> slot_oid v p = Some oid \<Longrightarrow> ok (f e' oid s) \<and> le s (f e' oid s)"
  shows "ok (with_slot codec lb e p f s) \<and> le s (with_slot codec lb e p f s)"
proof (cases "view_at codec lb e s")
  case None
  then show ?thesis using assms(1) by (simp add: with_slot_def)
next
  case (Some ev)
  obtain e' v where ev: "ev = (e', v)" by (cases ev)
  note v = view_at_hist [OF assms(1) Some [unfolded ev]]
  have wf: "view_wf v" using history_wf_nth [OF okD(3) [OF assms(1)], of "unat e' - 1"] v by simp
  show ?thesis
    using assms(1) assms(2) [OF v(1)] Some ev slot_oid_map(1) [OF wf, of p]
    by (auto simp: with_slot_def split: option.split prod.split)
qed

lemma propose_next_ok:
  assumes "ok s"
    and "\<And>e v v'. view_wf v \<Longrightarrow> om_aligned (v_object_map v) \<Longrightarrow> f e v = Some v' \<Longrightarrow>
      view_wf v' \<and> om_aligned (v_object_map v') \<and> om_le (v_object_map v) (v_object_map v')"
  shows "ok (propose_next codec lb f s) \<and> le s (propose_next codec lb f s)"
proof (cases "view_at codec lb 0 s")
  case None
  then show ?thesis using assms(1) by (simp add: propose_next_def)
next
  case (Some ev)
  obtain e v where ev: "ev = (e, v)" by (cases ev)
  note v = view_at_hist [OF assms(1) Some [unfolded ev]]
  have last: "v = last (hist s)" using v(4,5) okD(2) [OF assms(1)] by (simp add: last_conv_nth)
  show ?thesis
  proof (cases "f (e + 1) v")
    case None
    then show ?thesis using assms(1) Some ev by (simp add: propose_next_def)
  next
    case (Some v')
    have wf: "view_wf v" "om_aligned (v_object_map v)"
      using history_wf_nth [OF okD(3) [OF assms(1)], of "unat e - 1"] v by auto
    note v' = assms(2) [OF wf Some]
    obtain data where "view_encode codec v' = Some data" "view_decode codec data = Some v'"
      using view_encode_decode [OF codec, of v'] v' by blast
    then show ?thesis
      using propose_log(1) [OF assms(1) _ _ _ _ prod.collapse [symmetric], of v' data "e + 1"] v'
        \<open>view_at codec lb 0 s = Some ev\<close> ev Some last
      by (simp add: propose_next_def)
  qed
qed

text \<open>The room an expansion needs is there below the limit, whatever the shape of the last stripe.\<close>

lemma room_below_limit:
  assumes "view_wf v" and "stripe_options_ok opts \<or> stripes_by_pos (v_object_map v) \<noteq> []"
    and "unat p < position_limit"
  shows "unat p + grow_size opts (v_object_map v) < 2 ^ 64"
proof -
  have "grow_size opts (v_object_map v) < 2 ^ 32"
  proof (cases "stripes_by_pos (v_object_map v) = []")
    case True
    then show ?thesis using assms(2) by (simp add: grow_size_def stripe_options_ok_def)
  next
    case False
    then have "ms_fits (snd (last (stripes_by_pos (v_object_map v))))"
      using assms(1) by (simp add: view_wf_def om_wf_def)
    then show ?thesis using False by (simp add: grow_size_def ms_fits_def)
  qed
  then show ?thesis using assms(3) by (simp add: position_limit_def)
qed

lemma expand_derive:
  assumes "view_wf v" and "om_aligned (v_object_map v)" and "stripe_options_ok opts"
    and "unat p < position_limit" and "view_expand_mapping v p opts = Some (Some v')"
  shows "view_wf v' \<and> om_aligned (v_object_map v') \<and> om_le (v_object_map v) (v_object_map v')
    \<and> unat p < om_span (v_object_map v')"
proof (cases "unat p < om_span (v_object_map v)")
  case True
  then show ?thesis using view_expand_mapped [OF assms(1), of p opts] assms(5) by simp
next
  case False
  then have "om_span (v_object_map v) \<le> unat p" by simp
  from view_expand_some [OF assms(1) this _ room_below_limit [OF assms(1) _ assms(4)], of opts]
  show ?thesis using assms(2,3,5) by (metis option.inject)
qed

lemma advance_derive:
  assumes "view_wf v" and "om_aligned (v_object_map v)"
    and "view_advance_min_valid_position v p = Some (Some v')"
  shows "view_wf v' \<and> om_aligned (v_object_map v') \<and> om_le (v_object_map v) (v_object_map v')"
  using assms view_advance_some [OF assms(1), of p] advance_min_valid_some(3) [of "v_object_map v" p]
  by (auto simp: view_wf_def om_aligned_def split: if_splits) (metis snd_conv)

lemma sequencer_derive:
  assumes "view_wf v" and "om_aligned (v_object_map v)" and "seq_config_ok c"
  shows "view_wf (with_sequencer_config v c) \<and> om_aligned (v_object_map (with_sequencer_config v c))
    \<and> om_le (v_object_map v) (v_object_map (with_sequencer_config v c))"
  using assms with_sequencer_config_wf by (simp add: with_sequencer_config_def)

lemma trim_to_object:
  assumes "ok s" and "v \<in> set (hist s)"
    and m: "om_map_to (v_object_map v) p i False = Some (Some objs, i', False)" and k: "(oid, full) \<in> set objs"
    and w: "lb_Trim lb oid e p True full s = (r, s')"
  shows "ok s' \<and> le s s' \<and> hist s' = hist s"
    and "r = Inr () \<Longrightarrow> slot_oid v q = Some oid \<Longrightarrow> q \<le> p \<Longrightarrow> at s' q = Some Junk"
proof -
  have wf: "om_wf (v_object_map v)" "om_aligned (v_object_map v)"
    using assms(2) okD(3) [OF assms(1)] by (auto simp: history_wf_def view_wf_def)
  obtain oid0 l where "om_map (v_object_map v) p = Some (Some oid0, l)"
    using m k by (auto simp: om_map_to_def Option.bind_eq_Some_conv split: if_splits)
  then have span: "unat p < om_span (v_object_map v)" using om_map_mapped [OF wf(1)] by blast
  have "\<not> num_stripes (v_object_map v) \<le> i"
    using m by (auto simp: om_map_to_def Option.bind_eq_Some_conv split: if_splits)
  then have i: "unat i < chain_ids (stripes_by_pos (v_object_map v))"
    using om_wf_chain(3) [OF wf(1)] by (simp add: num_stripes_def word_le_nat_alt)
  obtain c where c: "oid = oid_of_slot (unat i, c)" "\<exists>p'\<le>unat p. om_locate (v_object_map v) p' = Some (unat i, c)"
      "full = (\<forall>p'. om_locate (v_object_map v) p' = Some (unat i, c) \<longrightarrow> p' \<le> unat p)"
    using map_to_stripe [OF wf span i] m k by auto
  then obtain p' where p': "p' \<le> unat p" "om_locate (v_object_map v) p' = Some (unat i, c)" by blast
  note t = trim_limit_log [OF assms(1,2) p' c(3) w [unfolded c(1)]]
  show "ok s' \<and> le s s' \<and> hist s' = hist s" by (rule t(1))
  assume r: "r = Inr ()" and q: "slot_oid v q = Some oid" "q \<le> p"
  obtain j d where jd: "om_locate (v_object_map v) (unat q) = Some (j, d)" "oid_of_slot (j, d) = oid"
    using q(1) by (auto simp: slot_oid_def)
  have "j = unat i \<and> d = c"
    using jd(2) om_locate_bounds [OF wf(1) jd(1)] om_locate_bounds [OF wf(1) p'(2)]
    by (simp add: c(1) oid_of_slot_inject)
  then show "at s' q = Some Junk" using t(2) [OF r q(2)] jd(1) by simp
qed

lemma run_event_store_ok:
  assumes "ok s"
  shows "ok (run_event_store codec lb ev s) \<and> le s (run_event_store codec lb ev s)"
proof (cases ev)
  case (EWrite e p d)
  then show ?thesis
    using with_slot_ok [OF assms, of p "\<lambda>e' oid s. snd (lb_Write lb oid d e' p s)" e]
      write_log(1) [OF assms _ _ prod.collapse [symmetric]] by simp
next
  case (EFill e p)
  then show ?thesis
    using with_slot_ok [OF assms, of p "\<lambda>e' oid s. snd (lb_Fill lb oid e' p s)" e]
      fill_log(1) [OF assms _ _ prod.collapse [symmetric]] by simp
next
  case (ETrim e p)
  then show ?thesis
    using with_slot_ok [OF assms, of p "\<lambda>e' oid s. snd (lb_Trim lb oid e' p False False s)" e]
      trim_log(1) [OF assms _ _ prod.collapse [symmetric]] by simp
next
  case (ETrimTo e p i k)
  show ?thesis
  proof (cases "view_at codec lb e s")
    case (Some x)
    obtain e' v where x: "x = (e', v)" by (cases x)
    note v = view_at_hist [OF assms Some [unfolded x]]
    show ?thesis
      using ETrimTo assms Some x trim_to_object(1) [OF assms v(1) _ _ prod.collapse [symmetric]]
      by (auto split: option.split prod.split bool.split)
  qed (use assms ETrimTo in simp)
next
  case (ESeal oid e)
  then show ?thesis using seal_log [OF assms prod.collapse [symmetric]] by simp
next
  case (EExpand p opts)
  show ?thesis
    unfolding EExpand run_event_store.simps
    by (rule propose_next_ok [OF assms]) (auto split: if_splits option.splits dest: expand_derive)
next
  case (EAdvance p)
  show ?thesis
    unfolding EAdvance run_event_store.simps
    by (rule propose_next_ok [OF assms]) (auto split: option.splits dest: advance_derive)
next
  case (ESequencer token p)
  show ?thesis
    unfolding ESequencer run_event_store.simps
    by (rule propose_next_ok [OF assms], drule (1) sequencer_derive)
      (auto simp: seq_config_ok_def split: if_splits)
qed (use assms in simp_all)

end

end
