(* ===== verification/View_Manager.thy ===== *)
theory View_Manager
  imports World
begin

text \<open>
  The class \<^verbatim>\<open>ViewManager\<close> of \<^verbatim>\<open>libzlog/view_manager.h\<close> and \<^verbatim>\<open>libzlog/view_manager.cc\<close>, over the world of
  the theory \<open>World\<close>. An operation returns \<^const>\<open>None\<close> when its fuel \<open>n\<close> runs out, which bounds the
  rounds of a wait for a newer view; otherwise its return code and the new world. A failed assertion
  (also one of the refresh thread, which ends the process) is \<open>Inl Aborted\<close>. \<open>interfere\<close> stands
  before every read of the current view and before every backend call. Sleeping between retries has
  no effect on the state.
\<close>

section \<open>Waiting for a newer view\<close>

fun wait_done ::
  "nat \<Rightarrow> bool \<Rightarrow> view_codec \<Rightarrow> 's log_backend \<Rightarrow> options \<Rightarrow> nat \<Rightarrow> 's world \<Rightarrow> (unit ret \<times> 's world) option" where
  "wait_done 0 timed_out codec lb opts waiter w = None"
| "wait_done (Suc n) timed_out codec lb opts waiter w =
     (if waiter \<in> set (vr_done (w_vr w)) then Some (Inr (), w)
      else
        let w1 = interfere codec lb w
        in case refresh_step codec lb opts timed_out (w_store w1) (w_vr w1) of
             None \<Rightarrow> Some (Inl Aborted, w1)
           | Some (vr, _) \<Rightarrow> wait_done n True codec lb opts waiter (w1\<lparr>w_vr := vr\<rparr>))"

definition update_current_view ::
  "nat \<Rightarrow> view_codec \<Rightarrow> 's log_backend \<Rightarrow> options \<Rightarrow> u64 \<Rightarrow> bool \<Rightarrow> 's world \<Rightarrow> (unit ret \<times> 's world) option" where
  "update_current_view n codec lb opts epoch wakeup w =
     (let (waiter, vr) = wait_for_newer_view opts epoch wakeup (w_vr w); w1 = w\<lparr>w_vr := vr\<rparr>
      in case waiter of
           None \<Rightarrow> Some (Inr (), w1)
         | Some i \<Rightarrow> wait_done n False codec lb opts i w1)"

section \<open>Construction, shutdown\<close>

definition view_manager_new :: "view_reader \<Rightarrow> view_manager option" where
  "view_manager_new vr =
     (if vr_view vr = None then None
      else Some \<lparr>vm_shutdown = False, vm_expand_pos = None, vm_stripe_init_pos = []\<rparr>)"

definition vm_do_shutdown :: "'s world \<Rightarrow> 's world" where
  "vm_do_shutdown w = w\<lparr>w_vm := (w_vm w)\<lparr>vm_shutdown := True\<rparr>, w_vr := vr_do_shutdown (w_vr w)\<rparr>"

definition vm_destroy :: "view_manager \<Rightarrow> unit option" where
  "vm_destroy vm = (if vm_shutdown vm then Some () else None)"

section \<open>Mapping\<close>

definition vm_map_to ::
  "view \<Rightarrow> u64 \<Rightarrow> u64 \<Rightarrow> bool \<Rightarrow> ((string \<times> bool) list option \<times> u64 \<times> bool) option" where
  "vm_map_to v position stripe_id done = om_map_to (v_object_map v) position stripe_id done"

definition vm_map :: "view \<Rightarrow> u64 \<Rightarrow> 's world \<Rightarrow> string option ret \<times> 's world" where
  "vm_map v position w =
     (case om_map (v_object_map v) position of
        None \<Rightarrow> (Inl Aborted, w)
      | Some (Some oid, False) \<Rightarrow> (Inr (Some oid), w)
      | Some (Some oid, True) \<Rightarrow>
          (case om_max_position (v_object_map v) of
             None \<Rightarrow> (Inl Aborted, w)
           | Some m \<Rightarrow> (Inr (Some oid), w\<lparr>w_vm := async_expand_view (m + 1) (w_vm w)\<rparr>))
      | Some (None, False) \<Rightarrow> (Inr None, w)
      | Some (None, True) \<Rightarrow> (Inl Aborted, w))"

section \<open>Proposing views\<close>

definition current_view :: "view_codec \<Rightarrow> 's log_backend \<Rightarrow> 's world \<Rightarrow> versioned_view option \<times> 's world" where
  "current_view codec lb w = (let w1 = interfere codec lb w in (vr_view (w_vr w1), w1))"

definition vm_ProposeView ::
  "view_codec \<Rightarrow> 's log_backend \<Rightarrow> u64 \<Rightarrow> string \<Rightarrow> 's world \<Rightarrow> unit ret \<times> 's world" where
  "vm_ProposeView codec lb epoch data w =
     (let w1 = interfere codec lb w; (ret, s) = lb_ProposeView lb epoch data (w_store w1)
      in (ret, w1\<lparr>w_store := s\<rparr>))"

text \<open>One pass through the loop of \<^verbatim>\<open>try_expand_view\<close> or \<^verbatim>\<open>propose_sequencer\<close>: it ends the call, or the
  proposal lost the race for its epoch and the loop may go round again.\<close>

datatype attempt =
    Finished "unit ret"
  | LostRace

definition try_expand_attempt ::
  "nat \<Rightarrow> view_codec \<Rightarrow> 's log_backend \<Rightarrow> options \<Rightarrow> u64 \<Rightarrow> 's world \<Rightarrow> (attempt \<times> 's world) option" where
  "try_expand_attempt n codec lb opts position w0 =
     (case current_view codec lb (w0\<lparr>w_tried := w_tried w0 @ [position]\<rparr>) of
        (None, w1) \<Rightarrow> Some (Finished (Inl Aborted), w1)
      | (Some curr_view, w1) \<Rightarrow>
          (case view_expand_mapping (vv_view curr_view) position opts of
             None \<Rightarrow> Some (Finished (Inl Aborted), w1)
           | Some None \<Rightarrow> Some (Finished (Inr ()), w1)
           | Some (Some new_view) \<Rightarrow>
               (case view_encode codec new_view of
                  None \<Rightarrow> Some (Finished (Inl Aborted), w1)
                | Some data \<Rightarrow>
                    (case vm_ProposeView codec lb (vv_epoch curr_view + 1) data w1 of
                       (ret, w2) \<Rightarrow>
                         if ret = Inr () then
                           (case update_current_view n codec lb opts (vv_epoch curr_view) True w2 of
                              None \<Rightarrow> None
                            | Some (Inl e, w3) \<Rightarrow> Some (Finished (Inl e), w3)
                            | Some (Inr _, w3) \<Rightarrow>
                                Some (Finished (Inr ()),
                                  if init_stripe_on_create opts
                                  then w3\<lparr>w_vm := async_init_stripe position (w_vm w3)\<rparr> else w3))
                         else if ret = Inl ESPIPE then
                           (case update_current_view n codec lb opts (vv_epoch curr_view) True w2 of
                              None \<Rightarrow> None
                            | Some (Inl e, w3) \<Rightarrow> Some (Finished (Inl e), w3)
                            | Some (Inr _, w3) \<Rightarrow> Some (LostRace, w3))
                         else Some (Finished ret, w2)))))"

fun try_expand_loop ::
  "nat \<Rightarrow> view_codec \<Rightarrow> 's log_backend \<Rightarrow> options \<Rightarrow> u64 \<Rightarrow> nat \<Rightarrow> 's world \<Rightarrow> (unit ret \<times> 's world) option" where
  "try_expand_loop n codec lb opts position retries w0 =
     (case try_expand_attempt n codec lb opts position w0 of
        None \<Rightarrow> None
      | Some (Finished ret, w1) \<Rightarrow> Some (ret, w1)
      | Some (LostRace, w1) \<Rightarrow>
          if retries - 1 = 0 then Some (Inr (), w1)
          else if vm_shutdown (w_vm w1) then Some (Inl ESHUTDOWN, w1)
          else try_expand_loop n codec lb opts position (retries - 1) w1)"

declare try_expand_loop.simps [simp del]

definition try_expand_view ::
  "nat \<Rightarrow> view_codec \<Rightarrow> 's log_backend \<Rightarrow> options \<Rightarrow> u64 \<Rightarrow> 's world \<Rightarrow> (unit ret \<times> 's world) option" where
  "try_expand_view n codec lb opts position w = try_expand_loop n codec lb opts position 7 w"

text \<open>\<^verbatim>\<open>seal_stripe\<close>: the two loops over the objects. The result of the second is the maximum position, or
  \<^const>\<open>None\<close> for an empty stripe.\<close>

fun seal_objects ::
  "view_codec \<Rightarrow> 's log_backend \<Rightarrow> u64 \<Rightarrow> string list \<Rightarrow> 's world \<Rightarrow> unit ret \<times> 's world" where
  "seal_objects codec lb epoch [] w = (Inr (), w)"
| "seal_objects codec lb epoch (oid # oids) w =
     (let w1 = interfere codec lb w; (ret, s) = lb_Seal lb oid epoch (w_store w1); w2 = w1\<lparr>w_store := s\<rparr>
      in case ret of
           Inl e \<Rightarrow> if e \<noteq> ESPIPE then (Inl e, w2) else seal_objects codec lb epoch oids w2
         | Inr _ \<Rightarrow> seal_objects codec lb epoch oids w2)"

fun max_objects ::
  "view_codec \<Rightarrow> 's log_backend \<Rightarrow> u64 option \<Rightarrow> string list \<Rightarrow> 's world \<Rightarrow> u64 option ret \<times> 's world" where
  "max_objects codec lb acc [] w = (Inr acc, w)"
| "max_objects codec lb acc (oid # oids) w =
     (let w1 = interfere codec lb w
      in case lb_MaxPos lb oid (w_store w1) of
           Inl e \<Rightarrow> (Inl e, w1)
         | Inr None \<Rightarrow> max_objects codec lb acc oids w1
         | Inr (Some m) \<Rightarrow>
             max_objects codec lb (Some (max (case acc of None \<Rightarrow> 0 | Some a \<Rightarrow> a) m)) oids w1)"

definition seal_stripe ::
  "view_codec \<Rightarrow> 's log_backend \<Rightarrow> stripe \<Rightarrow> u64 \<Rightarrow> 's world \<Rightarrow> u64 option ret \<times> 's world" where
  "seal_stripe codec lb stripe epoch w =
     (if st_oids stripe = [] then (Inl Aborted, w)
      else case seal_objects codec lb epoch (st_oids stripe) w of
        (Inl e, w1) \<Rightarrow> (Inl e, w1)
      | (Inr _, w1) \<Rightarrow> max_objects codec lb None (st_oids stripe) w1)"

definition vm_advance_min_valid_position ::
  "nat \<Rightarrow> view_codec \<Rightarrow> 's log_backend \<Rightarrow> options \<Rightarrow> u64 \<Rightarrow> 's world \<Rightarrow> (unit ret \<times> 's world) option" where
  "vm_advance_min_valid_position n codec lb opts position w0 =
     (case current_view codec lb w0 of
        (None, w1) \<Rightarrow> Some (Inl Aborted, w1)
      | (Some curr_view, w1) \<Rightarrow>
          (case view_advance_min_valid_position (vv_view curr_view) position of
             None \<Rightarrow> Some (Inl Aborted, w1)
           | Some None \<Rightarrow> Some (Inr (), w1)
           | Some (Some new_view) \<Rightarrow>
               (case view_encode codec new_view of
                  None \<Rightarrow> Some (Inl Aborted, w1)
                | Some data \<Rightarrow>
                    (case vm_ProposeView codec lb (vv_epoch curr_view + 1) data w1 of
                       (ret, w2) \<Rightarrow>
                         if ret = Inr () \<or> ret = Inl ESPIPE
                         then update_current_view n codec lb opts (vv_epoch curr_view) True w2
                         else Some (ret, w2)))))"

text \<open>\<^verbatim>\<open>propose_sequencer\<close>: the scan over the stripes from the last one down, then the proposal.\<close>

fun scan_stripes ::
  "view_codec \<Rightarrow> 's log_backend \<Rightarrow> object_map \<Rightarrow> u64 \<Rightarrow> nat \<Rightarrow> 's world \<Rightarrow> u64 option ret \<times> 's world" where
  "scan_stripes codec lb om epoch 0 w = (Inr None, w)"
| "scan_stripes codec lb om epoch (Suc i) w =
     (case om_stripe_by_id om (of_nat i) of
        None \<Rightarrow> (Inl Aborted, w)
      | Some stripe \<Rightarrow>
          (case seal_stripe codec lb stripe epoch w of
             (Inl e, w1) \<Rightarrow> (Inl e, w1)
           | (Inr None, w1) \<Rightarrow> scan_stripes codec lb om epoch i w1
           | (Inr (Some m), w1) \<Rightarrow> (Inr (Some m), w1)))"

definition sequencer_config :: "'s log_backend \<Rightarrow> u64 \<Rightarrow> u64 option \<Rightarrow> seq_config" where
  "sequencer_config lb next_epoch max_pos =
     \<lparr>sc_epoch = next_epoch, sc_token = lb_token lb,
      sc_position = (case max_pos of None \<Rightarrow> 0 | Some m \<Rightarrow> m + 1)\<rparr>"

definition propose_sequencer_attempt ::
  "nat \<Rightarrow> view_codec \<Rightarrow> 's log_backend \<Rightarrow> options \<Rightarrow> 's world \<Rightarrow> (attempt \<times> 's world) option" where
  "propose_sequencer_attempt n codec lb opts w0 =
     (case current_view codec lb w0 of
        (None, w1) \<Rightarrow> Some (Finished (Inl Aborted), w1)
      | (Some curr_view, w1) \<Rightarrow>
          let next_epoch = vv_epoch curr_view + 1; om = v_object_map (vv_view curr_view)
          in if \<not> om_empty om \<and> \<not> 0 < num_stripes om then Some (Finished (Inl Aborted), w1)
             else
               (case (if om_empty om then (Inr None, w1)
                      else scan_stripes codec lb om next_epoch (unat (num_stripes om)) w1) of
                  (Inl e, w2) \<Rightarrow> Some (Finished (Inl e), w2)
                | (Inr max_pos, w2) \<Rightarrow>
                    (case view_encode codec (with_sequencer_config (vv_view curr_view)
                            (sequencer_config lb next_epoch max_pos)) of
                       None \<Rightarrow> Some (Finished (Inl Aborted), w2)
                     | Some data \<Rightarrow>
                         (case vm_ProposeView codec lb next_epoch data w2 of
                            (ret, w3) \<Rightarrow>
                              if ret = Inr () then
                                map_option (\<lambda>(r, w4). (Finished r, w4))
                                  (update_current_view n codec lb opts (vv_epoch curr_view) True w3)
                              else if ret = Inl ESPIPE then
                                (case update_current_view n codec lb opts (vv_epoch curr_view) True w3 of
                                   None \<Rightarrow> None
                                 | Some (Inl e, w4) \<Rightarrow> Some (Finished (Inl e), w4)
                                 | Some (Inr _, w4) \<Rightarrow>
                                     (case current_view codec lb w4 of
                                        (None, w5) \<Rightarrow> Some (Finished (Inl Aborted), w5)
                                      | (Some updated_view, w5) \<Rightarrow>
                                          if v_seq_config (vv_view updated_view) = None
                                            \<or> v_seq_config (vv_view updated_view)
                                                = v_seq_config (vv_view curr_view)
                                          then Some (LostRace, w5)
                                          else Some (Finished (Inl EINTR), w5)))
                              else Some (Finished ret, w3)))))"

fun propose_sequencer_loop ::
  "nat \<Rightarrow> view_codec \<Rightarrow> 's log_backend \<Rightarrow> options \<Rightarrow> nat \<Rightarrow> 's world \<Rightarrow> (unit ret \<times> 's world) option" where
  "propose_sequencer_loop n codec lb opts retries w0 =
     (case propose_sequencer_attempt n codec lb opts w0 of
        None \<Rightarrow> None
      | Some (Finished ret, w1) \<Rightarrow> Some (ret, w1)
      | Some (LostRace, w1) \<Rightarrow>
          if retries - 1 = 0 then Some (Inl ETIMEDOUT, w1)
          else propose_sequencer_loop n codec lb opts (retries - 1) w1)"

declare propose_sequencer_loop.simps [simp del]

definition propose_sequencer ::
  "nat \<Rightarrow> view_codec \<Rightarrow> 's log_backend \<Rightarrow> options \<Rightarrow> 's world \<Rightarrow> (unit ret \<times> 's world) option" where
  "propose_sequencer n codec lb opts w = propose_sequencer_loop n codec lb opts 5 w"

section \<open>The helper threads\<close>

text \<open>One job of the stripe initialiser; the return codes of the seals are dropped. The flag says that
  the thread ends.\<close>

fun init_objects :: "view_codec \<Rightarrow> 's log_backend \<Rightarrow> u64 \<Rightarrow> string list \<Rightarrow> 's world \<Rightarrow> 's world" where
  "init_objects codec lb epoch [] w = w"
| "init_objects codec lb epoch (oid # oids) w =
     (let w1 = interfere codec lb w
      in init_objects codec lb epoch oids (w1\<lparr>w_store := snd (lb_Seal lb oid epoch (w_store w1))\<rparr>))"

definition stripe_init_step ::
  "view_codec \<Rightarrow> 's log_backend \<Rightarrow> 's world \<Rightarrow> (bool ret \<times> 's world) option" where
  "stripe_init_step codec lb w =
     (if vm_shutdown (w_vm w) then Some (Inr True, w)
      else case vm_stripe_init_pos (w_vm w) of
        [] \<Rightarrow> None
      | position # rest \<Rightarrow>
          (case current_view codec lb (w\<lparr>w_vm := (w_vm w)\<lparr>vm_stripe_init_pos := rest\<rparr>\<rparr>) of
             (None, w1) \<Rightarrow> Some (Inl Aborted, w1)
           | (Some v, w1) \<Rightarrow>
               (case om_map_stripe (v_object_map (vv_view v)) position of
                  None \<Rightarrow> Some (Inl Aborted, w1)
                | Some None \<Rightarrow> Some (Inr False, w1)
                | Some (Some stripe) \<Rightarrow>
                    if st_oids stripe = [] then Some (Inl Aborted, w1)
                    else Some (Inr False, init_objects codec lb (vv_epoch v) (st_oids stripe) w1))))"

text \<open>One round of the expander: \<^const>\<open>None\<close> while it has nothing to do or its fuel is used up.\<close>

definition expander_step ::
  "nat \<Rightarrow> view_codec \<Rightarrow> 's log_backend \<Rightarrow> options \<Rightarrow> 's world \<Rightarrow> (bool ret \<times> 's world) option" where
  "expander_step n codec lb opts w =
     (if vm_shutdown (w_vm w) then Some (Inr True, w)
      else case vm_expand_pos (w_vm w) of
        None \<Rightarrow> None
      | Some position \<Rightarrow>
          (case current_view codec lb w of
             (None, w1) \<Rightarrow> Some (Inl Aborted, w1)
           | (Some v, w1) \<Rightarrow>
               (case om_map (v_object_map (vv_view v)) position of
                  None \<Rightarrow> Some (Inl Aborted, w1)
                | Some (None, _) \<Rightarrow>
                    map_option (\<lambda>(r, w2). (if r = Inl Aborted then Inl Aborted else Inr False, w2))
                      (try_expand_view n codec lb opts position w1)
                | Some (Some _, _) \<Rightarrow>
                    (case vm_expand_pos (w_vm w1) of
                       None \<Rightarrow> Some (Inl Aborted, w1)
                     | Some q \<Rightarrow>
                         if position < q then Some (Inr False, w1)
                         else Some (Inr False, w1\<lparr>w_vm := (w_vm w1)\<lparr>vm_expand_pos := None\<rparr>\<rparr>)))))"

end
