(* ===== verification/Log_Ops.thy ===== *)
theory Log_Ops
  imports View_Manager
begin

text \<open>
  The operations of \<^verbatim>\<open>libzlog/log_impl.cc\<close>: the method \<^verbatim>\<open>run\<close> of every subclass of \<^verbatim>\<open>LogOp\<close>. Each is a loop
  that reads the current view, maps the position, calls the backend and reacts to its answer. \<open>n\<close>
  bounds the rounds of the loop and \<open>m\<close> the rounds of a wait for a newer view; \<^const>\<open>None\<close> says that the
  operation has not returned by then.
\<close>

definition op_Seal :: "view_codec \<Rightarrow> 's log_backend \<Rightarrow> string \<Rightarrow> u64 \<Rightarrow> 's world \<Rightarrow> unit ret \<times> 's world" where
  "op_Seal codec lb oid epoch w =
     (let w1 = interfere codec lb w; (ret, s) = lb_Seal lb oid epoch (w_store w1)
      in (ret, w1\<lparr>w_store := s\<rparr>))"

definition tail_run :: "view_codec \<Rightarrow> 's log_backend \<Rightarrow> bool \<Rightarrow> 's world \<Rightarrow> u64 ret \<times> 's world" where
  "tail_run codec lb increment w0 =
     (case current_view codec lb w0 of
        (None, w1) \<Rightarrow> (Inl Aborted, w1)
      | (Some view, w1) \<Rightarrow>
          (case vv_seq view of
             Some r \<Rightarrow> (let (p, vr) = vr_check_tail increment r (w_vr w1) in (Inr p, w1\<lparr>w_vr := vr\<rparr>))
           | None \<Rightarrow> (Inl EIO, w1)))"

fun read_run ::
  "nat \<Rightarrow> nat \<Rightarrow> view_codec \<Rightarrow> 's log_backend \<Rightarrow> options \<Rightarrow> u64 \<Rightarrow> 's world \<Rightarrow> (string ret \<times> 's world) option" where
  "read_run 0 m codec lb opts position w0 = None"
| "read_run (Suc n) m codec lb opts position w0 =
     (case current_view codec lb w0 of
        (None, w1) \<Rightarrow> Some (Inl Aborted, w1)
      | (Some view, w1) \<Rightarrow>
          (case vm_map (vv_view view) position w1 of
             (Inl e, w2) \<Rightarrow> Some (Inl e, w2)
           | (Inr None, w2) \<Rightarrow>
               (case try_expand_view m codec lb opts position w2 of
                  None \<Rightarrow> None
                | Some (Inl e, w3) \<Rightarrow> Some (Inl e, w3)
                | Some (Inr _, w3) \<Rightarrow> read_run n m codec lb opts position w3)
           | (Inr (Some oid), w2) \<Rightarrow>
               let w3 = interfere codec lb w2
               in (case lb_Read lb oid (vv_epoch view) position (w_store w3) of
                     Inr data \<Rightarrow> Some (Inr data, w3)
                   | Inl ret \<Rightarrow>
                       if ret = ESPIPE then
                         (case update_current_view m codec lb opts (vv_epoch view) False w3 of
                            None \<Rightarrow> None
                          | Some (Inl e, w4) \<Rightarrow> Some (Inl e, w4)
                          | Some (Inr _, w4) \<Rightarrow> read_run n m codec lb opts position w4)
                       else if ret = ERANGE then Some (Inl ENOENT, w3)
                       else if ret = ENOENT then
                         (case op_Seal codec lb oid (vv_epoch view) w3 of
                            (Inl e, w4) \<Rightarrow>
                              if e \<noteq> ESPIPE then Some (Inl e, w4)
                              else read_run n m codec lb opts position w4
                          | (Inr _, w4) \<Rightarrow> read_run n m codec lb opts position w4)
                       else Some (Inl ret, w3))))"

text \<open>\<^verbatim>\<open>AppendOp::run\<close>: how the inner loop around the write ends, the inner loop, and the outer loop. The
  members \<^verbatim>\<open>position_\<close> and \<^verbatim>\<open>position_epoch_\<close> are one option.\<close>

datatype append_next =
    AReturn "unit ret"
  | ARefresh
  | ARetry
  | ANewPosition

fun append_write ::
  "nat \<Rightarrow> nat \<Rightarrow> view_codec \<Rightarrow> 's log_backend \<Rightarrow> options \<Rightarrow> string \<Rightarrow> string \<Rightarrow> u64 \<Rightarrow> u64 \<Rightarrow> 's world
   \<Rightarrow> (append_next \<times> 's world) option" where
  "append_write 0 m codec lb opts oid data epoch position w0 = None"
| "append_write (Suc n) m codec lb opts oid data epoch position w0 =
     (let w = interfere codec lb w0;
          (ret, s) = lb_Write lb oid data epoch position (w_store w);
          w1 = w\<lparr>w_store := s\<rparr>
      in case ret of
           Inr _ \<Rightarrow> Some (AReturn (Inr ()), w1)
         | Inl e \<Rightarrow>
             if e = ENOENT then
               let w2 = w1\<lparr>w_stats := (w_stats w1)\<lparr>append_seal := append_seal (w_stats w1) + 1\<rparr>\<rparr>
               in (case op_Seal codec lb oid epoch w2 of
                     (Inr _, w3) \<Rightarrow> append_write n m codec lb opts oid data epoch position w3
                   | (Inl e', w3) \<Rightarrow>
                       if e' \<noteq> ESPIPE then Some (AReturn (Inl e'), w3) else Some (ARetry, w3))
             else if e = ESPIPE then
               let w2 = w1\<lparr>w_stats := (w_stats w1)\<lparr>append_stale_view := append_stale_view (w_stats w1) + 1\<rparr>\<rparr>
               in (case update_current_view m codec lb opts epoch False w2 of
                     None \<Rightarrow> None
                   | Some (Inl e', w3) \<Rightarrow> Some (AReturn (Inl e'), w3)
                   | Some (Inr _, w3) \<Rightarrow> Some (ARefresh, w3))
             else if e = EROFS then
               Some (ANewPosition,
                 w1\<lparr>w_stats := (w_stats w1)\<lparr>append_read_only := append_read_only (w_stats w1) + 1\<rparr>\<rparr>)
             else Some (AReturn (Inl e), w1))"

definition append_position ::
  "nat \<Rightarrow> (u64 \<times> u64) option \<Rightarrow> view_reader \<Rightarrow> ((u64 \<times> u64) \<times> view_reader) option" where
  "append_position r pos vr =
     (let sq = vr_seqs vr ! r;
          (pe, vr') = (case pos of
             Some (p, e) \<Rightarrow>
               if e = sq_epoch sq then ((p, e), vr)
               else (let (p', vr1) = vr_check_tail True r vr in ((p', sq_epoch sq), vr1))
           | None \<Rightarrow> (let (p', vr1) = vr_check_tail True r vr in ((p', sq_epoch sq), vr1)))
      in if 0 < snd pe then Some (pe, vr') else None)"

fun append_run ::
  "nat \<Rightarrow> nat \<Rightarrow> view_codec \<Rightarrow> 's log_backend \<Rightarrow> options \<Rightarrow> string \<Rightarrow> (u64 \<times> u64) option \<Rightarrow> 's world
   \<Rightarrow> (u64 ret \<times> 's world) option" where
  "append_run 0 m codec lb opts data pos w0 = None"
| "append_run (Suc n) m codec lb opts data pos w0 =
     (case current_view codec lb w0 of
        (None, w1) \<Rightarrow> Some (Inl Aborted, w1)
      | (Some view, w1) \<Rightarrow>
          (case vv_seq view of
             None \<Rightarrow> Some (Inl EIO, w1)
           | Some r \<Rightarrow>
               (case append_position r pos (w_vr w1) of
                  None \<Rightarrow> Some (Inl Aborted, w1)
                | Some ((position, pepoch), vr) \<Rightarrow>
                    (case vm_map (vv_view view) position (w1\<lparr>w_vr := vr\<rparr>) of
                       (Inl e, w2) \<Rightarrow> Some (Inl e, w2)
                     | (Inr None, w2) \<Rightarrow>
                         let w2' = w2\<lparr>w_stats := (w_stats w2)\<lparr>append_expand_view := append_expand_view (w_stats w2) + 1\<rparr>\<rparr>
                         in (case try_expand_view m codec lb opts position w2' of
                               None \<Rightarrow> None
                             | Some (Inl e, w3) \<Rightarrow> Some (Inl e, w3)
                             | Some (Inr _, w3) \<Rightarrow>
                                 append_run n m codec lb opts data (Some (position, pepoch)) w3)
                     | (Inr (Some oid), w2) \<Rightarrow>
                         (case append_write n m codec lb opts oid data (vv_epoch view) position w2 of
                            None \<Rightarrow> None
                          | Some (AReturn (Inl e), w3) \<Rightarrow> Some (Inl e, w3)
                          | Some (AReturn (Inr _), w3) \<Rightarrow> Some (Inr position, w3)
                          | Some (ANewPosition, w3) \<Rightarrow> append_run n m codec lb opts data None w3
                          | Some (_, w3) \<Rightarrow>
                              append_run n m codec lb opts data (Some (position, pepoch)) w3)))))"

fun fill_run ::
  "nat \<Rightarrow> nat \<Rightarrow> view_codec \<Rightarrow> 's log_backend \<Rightarrow> options \<Rightarrow> u64 \<Rightarrow> 's world \<Rightarrow> (unit ret \<times> 's world) option" where
  "fill_run 0 m codec lb opts position w0 = None"
| "fill_run (Suc n) m codec lb opts position w0 =
     (case current_view codec lb w0 of
        (None, w1) \<Rightarrow> Some (Inl Aborted, w1)
      | (Some view, w1) \<Rightarrow>
          (case vm_map (vv_view view) position w1 of
             (Inl e, w2) \<Rightarrow> Some (Inl e, w2)
           | (Inr None, w2) \<Rightarrow>
               (case try_expand_view m codec lb opts position w2 of
                  None \<Rightarrow> None
                | Some (Inl e, w3) \<Rightarrow> Some (Inl e, w3)
                | Some (Inr _, w3) \<Rightarrow> fill_run n m codec lb opts position w3)
           | (Inr (Some oid), w2) \<Rightarrow>
               let w = interfere codec lb w2;
                   (ret, s) = lb_Fill lb oid (vv_epoch view) position (w_store w);
                   w3 = w\<lparr>w_store := s\<rparr>
               in if ret = Inl ESPIPE then
                    (case update_current_view m codec lb opts (vv_epoch view) False w3 of
                       None \<Rightarrow> None
                     | Some (Inl e, w4) \<Rightarrow> Some (Inl e, w4)
                     | Some (Inr _, w4) \<Rightarrow> fill_run n m codec lb opts position w4)
                  else if ret = Inl ENOENT then
                    (case op_Seal codec lb oid (vv_epoch view) w3 of
                       (Inl e, w4) \<Rightarrow>
                         if e \<noteq> ESPIPE then Some (Inl e, w4)
                         else fill_run n m codec lb opts position w4
                     | (Inr _, w4) \<Rightarrow> fill_run n m codec lb opts position w4)
                  else Some (ret, w3)))"

fun trim_run ::
  "nat \<Rightarrow> nat \<Rightarrow> view_codec \<Rightarrow> 's log_backend \<Rightarrow> options \<Rightarrow> u64 \<Rightarrow> 's world \<Rightarrow> (unit ret \<times> 's world) option" where
  "trim_run 0 m codec lb opts position w0 = None"
| "trim_run (Suc n) m codec lb opts position w0 =
     (case current_view codec lb w0 of
        (None, w1) \<Rightarrow> Some (Inl Aborted, w1)
      | (Some view, w1) \<Rightarrow>
          (case vm_map (vv_view view) position w1 of
             (Inl e, w2) \<Rightarrow> Some (Inl e, w2)
           | (Inr None, w2) \<Rightarrow>
               (case try_expand_view m codec lb opts position w2 of
                  None \<Rightarrow> None
                | Some (Inl e, w3) \<Rightarrow> Some (Inl e, w3)
                | Some (Inr _, w3) \<Rightarrow> trim_run n m codec lb opts position w3)
           | (Inr (Some oid), w2) \<Rightarrow>
               let w = interfere codec lb w2;
                   (ret, s) = lb_Trim lb oid (vv_epoch view) position False False (w_store w);
                   w3 = w\<lparr>w_store := s\<rparr>
               in if ret = Inl ESPIPE then
                    (case update_current_view m codec lb opts (vv_epoch view) False w3 of
                       None \<Rightarrow> None
                     | Some (Inl e, w4) \<Rightarrow> Some (Inl e, w4)
                     | Some (Inr _, w4) \<Rightarrow> trim_run n m codec lb opts position w4)
                  else if ret = Inl ENOENT then
                    (case op_Seal codec lb oid (vv_epoch view) w3 of
                       (Inl e, w4) \<Rightarrow>
                         if e \<noteq> ESPIPE then Some (Inl e, w4)
                         else trim_run n m codec lb opts position w4
                     | (Inr _, w4) \<Rightarrow> trim_run n m codec lb opts position w4)
                  else Some (ret, w3)))"

text \<open>\<^verbatim>\<open>TrimToOp::run\<close>: the loop over the objects of one stripe, the loop that drives \<^verbatim>\<open>map_to\<close>, and the
  outer loop.\<close>

datatype trim_next =
    TReturn "unit ret"
  | TRestart
  | TDone

fun trim_objects ::
  "nat \<Rightarrow> view_codec \<Rightarrow> 's log_backend \<Rightarrow> options \<Rightarrow> u64 \<Rightarrow> u64 \<Rightarrow> (string \<times> bool) list \<Rightarrow> 's world
   \<Rightarrow> (trim_next \<times> 's world) option" where
  "trim_objects m codec lb opts epoch position [] w = Some (TDone, w)"
| "trim_objects m codec lb opts epoch position ((oid, trim_full) # objs) w0 =
     (let w = interfere codec lb w0;
          (ret, s) = lb_Trim lb oid epoch position True trim_full (w_store w);
          w1 = w\<lparr>w_store := s\<rparr>
      in if ret = Inl ESPIPE then
           (case update_current_view m codec lb opts epoch False w1 of
              None \<Rightarrow> None
            | Some (Inl e, w2) \<Rightarrow> Some (TReturn (Inl e), w2)
            | Some (Inr _, w2) \<Rightarrow> Some (TRestart, w2))
         else if ret = Inl ENOENT then
           (case op_Seal codec lb oid epoch w1 of
              (Inl e, w2) \<Rightarrow>
                if e \<noteq> ESPIPE then Some (TReturn (Inl e), w2) else Some (TRestart, w2)
            | (Inr _, w2) \<Rightarrow> Some (TRestart, w2))
         else if ret \<noteq> Inr () then Some (TReturn ret, w1)
         else trim_objects m codec lb opts epoch position objs w1)"

fun trim_stripes ::
  "nat \<Rightarrow> nat \<Rightarrow> view_codec \<Rightarrow> 's log_backend \<Rightarrow> options \<Rightarrow> versioned_view \<Rightarrow> u64 \<Rightarrow> u64 \<Rightarrow> 's world
   \<Rightarrow> (trim_next \<times> 's world) option" where
  "trim_stripes 0 m codec lb opts view position stripe_id w = None"
| "trim_stripes (Suc n) m codec lb opts view position stripe_id w =
     (case vm_map_to (vv_view view) position stripe_id False of
        None \<Rightarrow> Some (TReturn (Inl Aborted), w)
      | Some (objects, stripe_id', done) \<Rightarrow>
          if done then Some (TDone, w)
          else
            (case objects of
               None \<Rightarrow>
                 (case try_expand_view m codec lb opts position w of
                    None \<Rightarrow> None
                  | Some (Inl e, w1) \<Rightarrow> Some (TReturn (Inl e), w1)
                  | Some (Inr _, w1) \<Rightarrow> Some (TRestart, w1))
             | Some objs \<Rightarrow>
                 (case trim_objects m codec lb opts (vv_epoch view) position objs w of
                    None \<Rightarrow> None
                  | Some (TDone, w1) \<Rightarrow> trim_stripes n m codec lb opts view position stripe_id' w1
                  | Some (nx, w1) \<Rightarrow> Some (nx, w1))))"

fun trim_to_run ::
  "nat \<Rightarrow> nat \<Rightarrow> view_codec \<Rightarrow> 's log_backend \<Rightarrow> options \<Rightarrow> u64 \<Rightarrow> 's world \<Rightarrow> (unit ret \<times> 's world) option" where
  "trim_to_run 0 m codec lb opts position w0 = None"
| "trim_to_run (Suc n) m codec lb opts position w0 =
     (case current_view codec lb w0 of
        (None, w1) \<Rightarrow> Some (Inl Aborted, w1)
      | (Some view, w1) \<Rightarrow>
          if min_valid_position (v_object_map (vv_view view)) \<le> position then
            (case vm_advance_min_valid_position m codec lb opts (position + 1) w1 of
               None \<Rightarrow> None
             | Some (Inl e, w2) \<Rightarrow> Some (Inl e, w2)
             | Some (Inr _, w2) \<Rightarrow> trim_to_run n m codec lb opts position w2)
          else
            (case trim_stripes n m codec lb opts view position 0 w1 of
               None \<Rightarrow> None
             | Some (TReturn r, w2) \<Rightarrow> Some (r, w2)
             | Some (TRestart, w2) \<Rightarrow> trim_to_run n m codec lb opts position w2
             | Some (TDone, w2) \<Rightarrow> Some (Inr (), w2)))"

end
