(* ===== verification/Log_Safety.thy ===== *)
theory Log_Safety
  imports Log_Ops
begin

text \<open>
  What every operation keeps, under any interference: the invariant of the world, and the order in
  which the log evolves. \<open>world_ext\<close> is the shape of these statements; it composes, so an operation
  inherits it from its steps. \<open>happened\<close> says in addition that at some moment during the run the log
  made a given step, which is where the return value of an operation gets its meaning.
\<close>

definition tried_ok :: "'s world \<Rightarrow> bool" where
  "tried_ok w \<longleftrightarrow> (\<forall>q\<in>set (w_tried w). unat q < position_limit)"

definition world_ext ::
  "('s \<Rightarrow> bool) \<Rightarrow> ('s \<Rightarrow> string \<Rightarrow> aobj option) \<Rightarrow> ('s \<Rightarrow> string \<Rightarrow> string list option)
   \<Rightarrow> view_codec \<Rightarrow> 's log_backend \<Rightarrow> 's world \<Rightarrow> 's world \<Rightarrow> bool" where
  "world_ext sinv obj views codec lb w w' \<longleftrightarrow> set (w_tried w) \<subseteq> set (w_tried w')
     \<and> (tried_ok w' \<longrightarrow> world_ok sinv obj views codec lb w \<longrightarrow>
          world_ok sinv obj views codec lb w' \<and> log_le obj views codec lb (w_store w) (w_store w'))"

definition happened ::
  "('s \<Rightarrow> bool) \<Rightarrow> ('s \<Rightarrow> string \<Rightarrow> aobj option) \<Rightarrow> ('s \<Rightarrow> string \<Rightarrow> string list option)
   \<Rightarrow> view_codec \<Rightarrow> 's log_backend \<Rightarrow> ('s \<Rightarrow> 's \<Rightarrow> bool) \<Rightarrow> 's world \<Rightarrow> 's world \<Rightarrow> bool" where
  "happened sinv obj views codec lb P w w' \<longleftrightarrow>
     (tried_ok w' \<longrightarrow> world_ok sinv obj views codec lb w \<longrightarrow>
        (\<exists>s1 s2. log_inv sinv obj views codec lb s1 \<and> log_inv sinv obj views codec lb s2
           \<and> log_le obj views codec lb (w_store w) s1 \<and> P s1 s2
           \<and> log_le obj views codec lb s1 s2 \<and> log_le obj views codec lb s2 (w_store w')))"

text \<open>A view a client holds, however old.\<close>

definition view_held :: "view list \<Rightarrow> versioned_view \<Rightarrow> bool" where
  "view_held hs v \<longleftrightarrow> 0 < unat (vv_epoch v) \<and> unat (vv_epoch v) \<le> length hs
     \<and> vv_view v = hs ! (unat (vv_epoch v) - 1)"

lemma view_held_append: "view_held hs v \<Longrightarrow> view_held (hs @ ws) v"
  by (auto simp: view_held_def nth_append)

context log_client
begin

abbreviation ext :: "'s world \<Rightarrow> 's world \<Rightarrow> bool" where
  "ext \<equiv> world_ext sinv obj views codec lb"

abbreviation hap :: "('s \<Rightarrow> 's \<Rightarrow> bool) \<Rightarrow> 's world \<Rightarrow> 's world \<Rightarrow> bool" where
  "hap \<equiv> happened sinv obj views codec lb"

lemma ext_refl [simp]: "ext w w"
  by (simp add: world_ext_def)

lemma tried_ok_mono: "set (w_tried w) \<subseteq> set (w_tried w') \<Longrightarrow> tried_ok w' \<Longrightarrow> tried_ok w"
  by (auto simp: tried_ok_def)

lemma ext_trans: "ext a b \<Longrightarrow> ext b c \<Longrightarrow> ext a c"
  unfolding world_ext_def by (meson log_le_trans subset_trans tried_ok_mono)

lemma hap_left: "ext a b \<Longrightarrow> hap P b c \<Longrightarrow> set (w_tried b) \<subseteq> set (w_tried c) \<Longrightarrow> hap P a c"
  unfolding world_ext_def happened_def by (meson log_le_trans tried_ok_mono)

lemma hap_right: "hap P a b \<Longrightarrow> ext b c \<Longrightarrow> ext a b \<Longrightarrow> hap P a c"
  unfolding world_ext_def happened_def by (meson log_le_trans tried_ok_mono)

text \<open>Changes that do not touch the storage, the current view or the sequencer heap.\<close>

lemma ext_local:
  assumes "w_store w' = w_store w" and "w_tried w' = w_tried w"
    and "vr_view (w_vr w') = vr_view (w_vr w)" and "vr_seqs (w_vr w') = vr_seqs (w_vr w)"
  shows "ext w w'"
  using vr_wf_cong [OF assms(3,4)] vr_cached_cong [OF assms(3)] assms
  by (simp add: world_ext_def world_ok_def)

lemma ext_store:
  assumes "w_store w' = s'" and "w_tried w' = w_tried w" and "w_vr w' = w_vr w"
    and "wok w \<Longrightarrow> ok s' \<and> le (w_store w) s'"
  shows "ext w w'"
proof -
  have "wok w' = wok (w\<lparr>w_store := s'\<rparr>)" by (simp add: world_ok_def assms(1,3))
  then have "wok w'" if "wok w" using wok_store [OF that, of s'] assms(4) that by blast
  then show ?thesis using assms(1,2,4) by (auto simp: world_ext_def)
qed

lemma run_event_ext: "ext w (run_event codec lb ev w)"
proof -
  have vr: "vr_wf (lb_token lb) vr' \<and> vr_view vr' \<noteq> None \<and> vr_cached (hist (w_store w)) vr'"
    if "wok w" "vr' = run_event_vr codec lb (w_store w) ev (w_vr w)" for vr'
  proof -
    have w: "ok (w_store w)" "vr_wf (lb_token lb) (w_vr w)" "vr_view (w_vr w) \<noteq> None"
      "vr_cached (hist (w_store w)) (w_vr w)"
      using that(1) by (simp_all add: world_ok_def)
    obtain vr'' v sq where r: "refresh_view codec lb (w_store w) (w_vr w) = Some vr''"
        "vr'' = (w_vr w)\<lparr>vr_seqs := vr_seqs (w_vr w) @ sq, vr_view := Some v\<rparr>"
        "vr_wf (lb_token lb) vr''" "vr_cached (hist (w_store w)) vr''"
      using refresh_view_ok [OF w(1,2,4)] by metis
    then show ?thesis
      using that(2) w by (cases ev) (auto split: option.split)
  qed
  have "wok (run_event codec lb ev w) \<and> le (w_store w) (w_store (run_event codec lb ev w))" if w: "wok w"
  proof -
    have "ok (w_store w)" using w by (simp add: world_ok_def)
    note e = run_event_store_ok [OF this, of ev]
    then obtain hs where "hist (run_event_store codec lb ev (w_store w)) = hist (w_store w) @ hs"
      by (auto simp: log_le_def)
    then show ?thesis
      using e vr [OF w refl] by (simp add: run_event_def world_ok_def vr_cached_append)
  qed
  then show ?thesis by (simp add: world_ext_def run_event_def)
qed

lemma interfere_ext: "ext w (interfere codec lb w)"
proof -
  have "ext w (fold (run_event codec lb) evs w)" for evs w
    by (induction evs arbitrary: w) (auto intro: ext_trans [OF run_event_ext])
  moreover have "ext w (w\<lparr>w_env := rest\<rparr>)" for rest by (rule ext_local) simp_all
  ultimately show ?thesis
    using ext_trans by (fastforce simp: interfere_def split: list.split)
qed

lemma current_view_ext: "current_view codec lb w = (v, w') \<Longrightarrow> ext w w' \<and> v = vr_view (w_vr w')"
  using interfere_ext [of w] by (auto simp: current_view_def Let_def)

text \<open>The cached view of a good world is one of the accepted views, and stays one.\<close>

lemma current_view_held: "wok w \<Longrightarrow> vr_view (w_vr w) = Some v \<Longrightarrow> view_held (hist (w_store w)) v"
  by (simp add: world_ok_def vr_cached_def view_held_def)

lemma held_le: "view_held (hist s) v \<Longrightarrow> le s s' \<Longrightarrow> view_held (hist s') v"
  by (auto simp: log_le_def view_held_append)

lemma held_view:
  assumes "ok s" and "view_held (hist s) v"
  shows "vv_view v \<in> set (hist s)" and "view_wf (vv_view v)" and "om_aligned (v_object_map (vv_view v))"
    and "unat (vv_epoch v) = length (hist s) \<Longrightarrow> vv_view v = last (hist s)"
proof -
  show "vv_view v \<in> set (hist s)" using assms(2) by (auto simp: view_held_def)
  then show "view_wf (vv_view v)" "om_aligned (v_object_map (vv_view v))"
    using okD(3) [OF assms(1)] by (auto simp: history_wf_def)
  show "unat (vv_epoch v) = length (hist s) \<Longrightarrow> vv_view v = last (hist s)"
    using assms(2) okD(2) [OF assms(1)] by (simp add: last_conv_nth view_held_def)
qed

lemma wok_ok: "wok w \<Longrightarrow> ok (w_store w)"
  by (simp add: world_ok_def)

lemma refresh_step_ext:
  assumes "refresh_step codec lb opts timed_out (w_store w) (w_vr w) = Some (vr, stop)"
  shows "ext w (w\<lparr>w_vr := vr\<rparr>)"
proof -
  obtain vr1 st where rw: "refresh_wait opts timed_out (w_vr w) = (vr1, st)" by force
  then have vr1: "vr_view vr1 = vr_view (w_vr w)" "vr_seqs vr1 = vr_seqs (w_vr w)"
    by (auto simp: refresh_wait_def Let_def split: if_splits)
  have "wok (w\<lparr>w_vr := vr\<rparr>)" if w: "wok w"
  proof (cases st)
    case True
    then have "vr = vr1" using assms rw by (simp add: refresh_step_def)
    then show ?thesis
      using w vr1 vr_wf_cong [OF vr1] vr_cached_cong [OF vr1(1)] by (simp add: world_ok_def)
  next
    case False
    have "ok (w_store w)" "vr_wf (lb_token lb) vr1" "vr_cached (hist (w_store w)) vr1"
      using w vr_wf_cong [OF vr1] vr_cached_cong [OF vr1(1)] by (simp_all add: world_ok_def)
    then obtain vr2 v sq where r: "refresh_view codec lb (w_store w) vr1 = Some vr2"
        "vr2 = vr1\<lparr>vr_seqs := vr_seqs vr1 @ sq, vr_view := Some v\<rparr>"
        "vr_wf (lb_token lb) vr2" "vr_cached (hist (w_store w)) vr2"
      using refresh_view_ok by metis
    then have "vr = refresh_notify vr2" using assms rw False by (simp add: refresh_step_def)
    moreover have same: "vr_view (refresh_notify vr2) = vr_view vr2"
        "vr_seqs (refresh_notify vr2) = vr_seqs vr2"
      by (auto simp: refresh_notify_def split: option.split)
    ultimately show ?thesis
      using w r vr_wf_cong [OF same] vr_cached_cong [OF same(1)] by (simp add: world_ok_def)
  qed
  then show ?thesis by (simp add: world_ext_def)
qed

lemma wait_done_ext: "wait_done n t codec lb opts i w = Some (r, w') \<Longrightarrow> ext w w'"
proof (induction n arbitrary: t w)
  case (Suc n)
  note i = interfere_ext [of w]
  from Suc.prems show ?case
    by (auto simp: Let_def split: if_splits option.splits prod.splits
        intro: i ext_trans [OF i ext_trans [OF refresh_step_ext Suc.IH]])
qed simp

lemma update_current_view_ext:
  assumes "update_current_view n codec lb opts e b w = Some (r, w')"
  shows "ext w w'"
proof -
  obtain x vr where wf: "wait_for_newer_view opts e b (w_vr w) = (x, vr)" by force
  then have "vr_view vr = vr_view (w_vr w)" "vr_seqs vr = vr_seqs (w_vr w)"
    by (auto simp: wait_for_newer_view_def Let_def split: if_splits)
  then have "ext w (w\<lparr>w_vr := vr\<rparr>)" by (intro ext_local) simp_all
  then show ?thesis
    using assms wf wait_done_ext ext_trans
    by (auto simp: update_current_view_def Let_def split: option.splits)
qed

lemma vm_map_ext: "vm_map v p w = (r, w') \<Longrightarrow> ext w w'"
  by (auto simp: vm_map_def split: option.splits prod.splits bool.splits intro!: ext_local)

lemma vm_map_oid:
  assumes "view_wf v" and "vm_map v p w = (Inr (Some oid), w')"
  shows "slot_oid v p = Some oid"
proof -
  obtain l where "om_map (v_object_map v) p = Some (Some oid, l)"
    using assms(2) by (auto simp: vm_map_def split: option.splits prod.splits bool.splits)
  then show ?thesis by (rule slot_oid_map(1) [OF assms(1)])
qed

lemma op_Seal_ext: "op_Seal codec lb oid e w = (r, w') \<Longrightarrow> ext w w'"
proof -
  assume a: "op_Seal codec lb oid e w = (r, w')"
  let ?w = "interfere codec lb w"
  have "ext ?w w'"
    using a seal_log [OF _ prod.collapse [symmetric], of "w_store ?w" oid e]
    by (intro ext_store [where s' = "w_store w'"])
      (auto simp: op_Seal_def Let_def world_ok_def split: prod.splits)
  then show ?thesis by (rule ext_trans [OF interfere_ext])
qed

section \<open>Proposals\<close>

lemma propose_zero:
  assumes "ok s" and "lb_ProposeView lb 0 data s = (r, s')"
  shows "ok s' \<and> le s s'"
proof -
  obtain vs where vs: "views s (lb_hoid lb) = Some vs" using okD(5) [OF assms(1)] by blast
  have st: "sinv s'" "obj s' = obj s" "views s' (lb_hoid lb) = Some vs"
    using propose_state [OF okD(1) [OF assms(1)], of "lb_hoid lb" 0 data r s'] assms(2) vs
    by (simp_all add: lb_defs a_propose_def)
  then have "hist s' = hist s" using vs by (simp add: log_views_def)
  then show ?thesis using assms(1) st vs by (simp add: log_inv_def log_le_def log_at_def)
qed

lemma vm_ProposeView_ext:
  assumes pr: "vm_ProposeView codec lb (vv_epoch v + 1) data w = (r, w')" and b: "ext w0 w"
    and new: "tried_ok w \<Longrightarrow> wok w0 \<Longrightarrow> wok w \<Longrightarrow> vv_epoch v + 1 \<noteq> 0 \<Longrightarrow>
      view_held (hist (w_store w)) v \<and> view_wf v' \<and> om_aligned (v_object_map v')
      \<and> om_le (v_object_map (vv_view v)) (v_object_map v') \<and> view_encode codec v' = Some data"
  shows "ext w0 w'"
proof -
  let ?w = "interfere codec lb w" and ?e = "vv_epoch v + 1"
  have i: "ext w0 ?w" by (rule ext_trans [OF b interfere_ext])
  have w': "w' = ?w\<lparr>w_store := snd (lb_ProposeView lb ?e data (w_store ?w))\<rparr>"
    using pr by (auto simp: vm_ProposeView_def Let_def split: prod.splits)
  have "ok (w_store w') \<and> le (w_store ?w) (w_store w')" if t: "tried_ok ?w" and w0: "wok w0" and k: "wok ?w"
  proof (cases "?e = 0")
    case True
    then show ?thesis using propose_zero [OF wok_ok [OF k] prod.collapse [symmetric]] w' by simp
  next
    case False
    have tw: "tried_ok w" using t interfere_ext [of w] tried_ok_mono by (auto simp: world_ext_def)
    then have w: "wok w" "le (w_store w) (w_store ?w)"
      using b w0 t interfere_ext [of w] by (auto simp: world_ext_def)
    note n = new [OF tw w0 w(1) False]
    have h: "view_held (hist (w_store ?w)) v" using n w(2) held_le by blast
    have le: "om_le (v_object_map (last (hist (w_store ?w)))) (v_object_map v')"
      if e: "unat ?e = length (hist (w_store ?w)) + 1"
    proof -
      have "unat (1 + vv_epoch v) = Suc (unat (vv_epoch v))"
        using False by (intro unatSuc) (simp add: add.commute)
      then have "vv_view v = last (hist (w_store ?w))"
        using e held_view(4) [OF wok_ok [OF k] h] by (simp add: add.commute)
      then show ?thesis using n by simp
    qed
    have "view_decode codec data = Some v'"
      using view_encode_decode [OF codec, of v'] n by (metis option.inject)
    then show ?thesis
      using propose_log(1) [OF wok_ok [OF k] _ _ _ _ prod.collapse [symmetric], of v' data] n le w' by simp
  qed
  then have "wok w' \<and> le (w_store ?w) (w_store w')" if "tried_ok ?w" "wok w0" "wok ?w"
    using that wok_store [OF that(3), of "w_store w'"] w' by simp
  then show ?thesis
    using i log_le_trans unfolding world_ext_def w' by (auto simp: tried_ok_def)
qed

lemma ext_tried: "ext w (w\<lparr>w_tried := w_tried w @ qs\<rparr>)"
  by (auto simp: world_ext_def world_ok_def)

text \<open>What a client does with a view it read: it derives a new one, proposes it, and waits.\<close>

lemma held_after:
  assumes "ext a b" and "vr_view (w_vr a) = Some v" and "tried_ok b" and "wok b" and "wok a"
  shows "view_held (hist (w_store b)) v"
  using current_view_held [OF assms(5,2)] held_le assms(1,3,5) by (auto simp: world_ext_def)

lemma try_expand_attempt_ext:
  assumes "stripe_options_ok opts" and "try_expand_attempt n codec lb opts p w = Some (r, w')"
  shows "ext w w'"
proof -
  obtain cv w1 where cv: "current_view codec lb (w\<lparr>w_tried := w_tried w @ [p]\<rparr>) = (cv, w1)" by force
  note c = current_view_ext [OF cv]
  have e1: "ext w w1" using ext_trans [OF ext_tried] c by blast
  have p: "p \<in> set (w_tried w1)" using c by (auto simp: world_ext_def)
  show ?thesis
  proof (cases "\<exists>v nv data. cv = Some v \<and> view_expand_mapping (vv_view v) p opts = Some (Some nv)
      \<and> view_encode codec nv = Some data")
    case False
    then have "w' = w1" using assms(2) cv by (auto simp: try_expand_attempt_def split: option.splits)
    then show ?thesis using e1 by simp
  next
    case True
    then obtain v nv data where v: "cv = Some v" "view_expand_mapping (vv_view v) p opts = Some (Some nv)"
        "view_encode codec nv = Some data" by blast
    obtain pr w2 where pr: "vm_ProposeView codec lb (vv_epoch v + 1) data w1 = (pr, w2)" by force
    have "ext w1 w2"
    proof (rule vm_ProposeView_ext [OF pr ext_refl])
      assume t: "tried_ok w1" and w: "wok w1"
      have h: "view_held (hist (w_store w1)) v" using current_view_held [OF w] c v(1) by simp
      note hv = held_view [OF wok_ok [OF w] h]
      have "unat p < position_limit" using t p by (auto simp: tried_ok_def)
      from expand_derive [OF hv(2,3) assms(1) this v(2)]
      show "view_held (hist (w_store w1)) v \<and> view_wf nv \<and> om_aligned (v_object_map nv)
          \<and> om_le (v_object_map (vv_view v)) (v_object_map nv) \<and> view_encode codec nv = Some data"
        using h v(3) by blast
    qed
    then have e2: "ext w w2" by (rule ext_trans [OF e1])
    have loc: "ext w3 (w3\<lparr>w_vm := x\<rparr>)" for w3 x by (rule ext_local) simp_all
    have e3: "ext w w3" if "update_current_view n codec lb opts (vv_epoch v) True w2 = Some (x, w3)" for x w3
      by (rule ext_trans [OF e2 update_current_view_ext [OF that]])
    show ?thesis
      using assms(2) e2 e3 ext_trans [OF e3 loc]
      by (auto simp: try_expand_attempt_def cv v pr split: if_splits option.splits sum.splits)
  qed
qed

lemma try_expand_loop_ext:
  assumes "stripe_options_ok opts"
  shows "try_expand_loop n codec lb opts p k w = Some (r, w') \<Longrightarrow> ext w w'"
proof (induction k arbitrary: w rule: less_induct)
  case (less k)
  then obtain a w1 where a: "try_expand_attempt n codec lb opts p w = Some (a, w1)"
    by (subst (asm) (2) try_expand_loop.simps) (auto split: option.splits)
  note e = try_expand_attempt_ext [OF assms a]
  show ?case
  proof (cases "w' = w1")
    case False
    then have "k - 1 < k" "try_expand_loop n codec lb opts p (k - 1) w1 = Some (r, w')"
      using less.prems by (subst (asm) try_expand_loop.simps, auto simp: a split: attempt.splits if_splits)+
    then show ?thesis by (rule ext_trans [OF e less.IH])
  qed (use e in simp)
qed

lemma try_expand_view_ext:
  "stripe_options_ok opts \<Longrightarrow> try_expand_view m codec lb opts p w = Some (r, w') \<Longrightarrow> ext w w'"
  unfolding try_expand_view_def by (rule try_expand_loop_ext)

lemma vm_advance_ext:
  assumes "vm_advance_min_valid_position n codec lb opts p w = Some (r, w')"
  shows "ext w w'"
proof -
  obtain cv w1 where cv: "current_view codec lb w = (cv, w1)" by force
  note c = current_view_ext [OF cv]
  show ?thesis
  proof (cases "\<exists>v nv data. cv = Some v \<and> view_advance_min_valid_position (vv_view v) p = Some (Some nv)
      \<and> view_encode codec nv = Some data")
    case False
    then have "w' = w1"
      using assms cv by (auto simp: vm_advance_min_valid_position_def split: option.splits)
    then show ?thesis using c by simp
  next
    case True
    then obtain v nv data where v: "cv = Some v"
        "view_advance_min_valid_position (vv_view v) p = Some (Some nv)" "view_encode codec nv = Some data"
      by blast
    obtain pr w2 where pr: "vm_ProposeView codec lb (vv_epoch v + 1) data w1 = (pr, w2)" by force
    have "ext w1 w2"
    proof (rule vm_ProposeView_ext [OF pr ext_refl])
      assume w: "wok w1"
      have h: "view_held (hist (w_store w1)) v" using current_view_held [OF w] c v(1) by simp
      note hv = held_view [OF wok_ok [OF w] h]
      from advance_derive [OF hv(2,3) v(2)] h v(3)
      show "view_held (hist (w_store w1)) v \<and> view_wf nv \<and> om_aligned (v_object_map nv)
          \<and> om_le (v_object_map (vv_view v)) (v_object_map nv) \<and> view_encode codec nv = Some data"
        by blast
    qed
    then have e2: "ext w w2" using c ext_trans by blast
    have "(if pr = Inr () \<or> pr = Inl ESPIPE then update_current_view n codec lb opts (vv_epoch v) True w2
        else Some (pr, w2)) = Some (r, w')"
      using assms by (simp add: vm_advance_min_valid_position_def cv v pr split: if_splits)
    then show ?thesis
      using e2 ext_trans [OF e2 update_current_view_ext] by (auto split: if_splits)
  qed
qed

lemma seal_objects_ext: "seal_objects codec lb e oids w = (r, w') \<Longrightarrow> ext w w'"
proof (induction oids arbitrary: w)
  case (Cons oid oids)
  obtain sr w1 where s: "op_Seal codec lb oid e w = (sr, w1)" by force
  have "seal_objects codec lb e (oid # oids) w = (case sr of
      Inl x \<Rightarrow> if x \<noteq> ESPIPE then (Inl x, w1) else seal_objects codec lb e oids w1
    | Inr _ \<Rightarrow> seal_objects codec lb e oids w1)"
    using s by (auto simp: op_Seal_def Let_def split: prod.splits sum.splits)
  then show ?case
    using Cons op_Seal_ext [OF s] ext_trans by (auto split: sum.splits if_splits)
qed simp

lemma max_objects_ext: "max_objects codec lb acc oids w = (r, w') \<Longrightarrow> ext w w'"
proof (induction oids arbitrary: acc w)
  case (Cons oid oids)
  then show ?case
    using interfere_ext [of w] ext_trans by (auto simp: Let_def split: sum.splits option.splits)
qed simp

lemma seal_stripe_ext: "seal_stripe codec lb st e w = (r, w') \<Longrightarrow> ext w w'"
  by (auto simp: seal_stripe_def split: if_splits prod.splits sum.splits
      intro: seal_objects_ext ext_trans [OF seal_objects_ext max_objects_ext])

lemma scan_stripes_ext: "scan_stripes codec lb om e i w = (r, w') \<Longrightarrow> ext w w'"
proof (induction i arbitrary: w)
  case (Suc i)
  then show ?case
    using seal_stripe_ext ext_trans by (fastforce split: option.splits prod.splits sum.splits)
qed simp

lemma propose_sequencer_attempt_ext:
  assumes "token_ok (lb_token lb)" and "propose_sequencer_attempt n codec lb opts w = Some (r, w')"
  shows "ext w w'"
proof -
  obtain cv w1 where cv: "current_view codec lb w = (cv, w1)" by force
  note c = current_view_ext [OF cv]
  show ?thesis
  proof (cases cv)
    case None
    then show ?thesis using assms(2) cv c by (simp add: propose_sequencer_attempt_def)
  next
    case (Some v)
    let ?om = "v_object_map (vv_view v)" and ?e = "vv_epoch v + 1"
    obtain sr w2 where sr: "(if om_empty ?om then (Inr None, w1)
        else scan_stripes codec lb ?om ?e (unat (num_stripes ?om)) w1) = (sr, w2)" by force
    have e12: "ext w1 w2" using sr scan_stripes_ext by (auto split: if_splits)
    then have e2: "ext w w2" using c ext_trans by blast
    have e3: "ext w w3"
      if d: "view_encode codec (with_sequencer_config (vv_view v) (sequencer_config lb ?e mp)) = Some data"
        and pr: "vm_ProposeView codec lb ?e data w2 = (pr, w3)" for mp data pr w3
    proof -
      have "ext w1 w3"
      proof (rule vm_ProposeView_ext [OF pr e12])
        assume t: "tried_ok w2" and w: "wok w1" and w2: "wok w2" and e: "?e \<noteq> 0"
        have h: "view_held (hist (w_store w2)) v"
          by (rule held_after [OF e12 _ t w2 w]) (use c Some in simp)
        note hv = held_view [OF wok_ok [OF w2] h]
        have "seq_config_ok (sequencer_config lb ?e mp)"
          using assms(1) e by (simp add: seq_config_ok_def sequencer_config_def word_gt_0)
        from sequencer_derive [OF hv(2,3) this] h d
        show "view_held (hist (w_store w2)) v
            \<and> view_wf (with_sequencer_config (vv_view v) (sequencer_config lb ?e mp))
            \<and> om_aligned (v_object_map (with_sequencer_config (vv_view v) (sequencer_config lb ?e mp)))
            \<and> om_le (v_object_map (vv_view v))
                (v_object_map (with_sequencer_config (vv_view v) (sequencer_config lb ?e mp)))
            \<and> view_encode codec (with_sequencer_config (vv_view v) (sequencer_config lb ?e mp)) = Some data"
          by blast
      qed
      then show ?thesis using c ext_trans by blast
    qed
    note e4 = ext_trans [OF e3 update_current_view_ext]
    have e5: "ext w w5" if "view_encode codec (with_sequencer_config (vv_view v) (sequencer_config lb ?e mp)) = Some data"
        and "vm_ProposeView codec lb ?e data w2 = (pr, w3)"
        and "update_current_view n codec lb opts e b w3 = Some (x, w4)"
        and "current_view codec lb w4 = (y, w5)" for mp data pr w3 e b x w4 y w5
      using ext_trans [OF e4 [OF that(1-3)]] current_view_ext [OF that(4)] by blast
    show ?thesis
      using assms(2) e2 c
      by (auto simp: propose_sequencer_attempt_def cv Some Let_def sr
          split: if_splits sum.splits option.splits prod.splits intro: e3 e4 e5)
  qed
qed

lemma propose_sequencer_ext:
  assumes "token_ok (lb_token lb)" and "propose_sequencer n codec lb opts w = Some (r, w')"
  shows "ext w w'"
proof -
  have "propose_sequencer_loop n codec lb opts k w = Some (r, w') \<Longrightarrow> ext w w'" for k w
  proof (induction k arbitrary: w rule: less_induct)
    case (less k)
    then obtain a w1 where a: "propose_sequencer_attempt n codec lb opts w = Some (a, w1)"
      by (subst (asm) (2) propose_sequencer_loop.simps) (auto split: option.splits)
    note e = propose_sequencer_attempt_ext [OF assms(1) a]
    show ?case
    proof (cases "w' = w1")
      case False
      then have "k - 1 < k" "propose_sequencer_loop n codec lb opts (k - 1) w1 = Some (r, w')"
        using less.prems
        by (subst (asm) propose_sequencer_loop.simps, auto simp: a split: attempt.splits if_splits)+
      then show ?thesis by (rule ext_trans [OF e less.IH])
    qed (use e in simp)
  qed
  then show ?thesis using assms(2) by (simp add: propose_sequencer_def)
qed

end

end
