(* ===== verification/Log_Results.thy ===== *)
theory Log_Results
  imports Log_Safety
begin

text \<open>
  The meaning of the return values of the log operations, in terms of the abstract log at some moment
  during the run, and which error codes can occur. In particular no assertion of the client code fails,
  whatever the other clients do.
\<close>

definition read_answer :: "('s \<Rightarrow> u64 \<Rightarrow> entry option) \<Rightarrow> u64 \<Rightarrow> string ret \<Rightarrow> 's \<Rightarrow> bool" where
  "read_answer at p r s \<longleftrightarrow> (case r of
     Inr d \<Rightarrow> at s p = Some (Data d)
   | Inl e \<Rightarrow> (e = ENOENT \<and> at s p = None) \<or> (e = ENODATA \<and> at s p = Some Junk)
       \<or> e \<in> {EINVAL, ESHUTDOWN})"

definition append_answer ::
  "('s \<Rightarrow> u64 \<Rightarrow> entry option) \<Rightarrow> string \<Rightarrow> u64 ret \<Rightarrow> 's \<Rightarrow> 's \<Rightarrow> bool" where
  "append_answer at d r s s' \<longleftrightarrow> (case r of
     Inr p \<Rightarrow> at s p = None \<and> at s' p = Some (Data d)
   | Inl e \<Rightarrow> e \<in> {EIO, EINVAL, ESHUTDOWN})"

definition fill_answer :: "('s \<Rightarrow> u64 \<Rightarrow> entry option) \<Rightarrow> u64 \<Rightarrow> unit ret \<Rightarrow> 's \<Rightarrow> 's \<Rightarrow> bool" where
  "fill_answer at p r s s' \<longleftrightarrow> (case r of
     Inr _ \<Rightarrow> (at s p = None \<or> at s p = Some Junk) \<and> at s' p = Some Junk
   | Inl e \<Rightarrow> (e = EROFS \<and> (\<exists>d. at s p = Some (Data d))) \<or> e \<in> {EINVAL, ESHUTDOWN})"

definition trim_answer :: "('s \<Rightarrow> u64 \<Rightarrow> entry option) \<Rightarrow> u64 \<Rightarrow> unit ret \<Rightarrow> 's \<Rightarrow> bool" where
  "trim_answer at p r s \<longleftrightarrow> (case r of
     Inr _ \<Rightarrow> at s p = Some Junk
   | Inl e \<Rightarrow> e \<in> {EINVAL, ESHUTDOWN})"

context log_client
begin

lemma extD:
  assumes "ext a b" and "tried_ok b"
  shows "tried_ok a" and "wok a \<Longrightarrow> wok b" and "wok a \<Longrightarrow> le (w_store a) (w_store b)"
  using assms tried_ok_mono by (auto simp: world_ext_def)

lemma hap_end:
  assumes "ext w w1" and "ext w1 w'"
    and "tried_ok w' \<Longrightarrow> wok w1 \<Longrightarrow> wok w' \<Longrightarrow> P (w_store w') (w_store w')"
  shows "hap P w w'"
  unfolding happened_def
proof (intro impI)
  assume t: "tried_ok w'" and w: "wok w"
  note a = extD [OF assms(2) t] and b = extD [OF assms(1) extD(1) [OF assms(2) t]]
  have "wok w1" by (rule b(2) [OF w])
  moreover have "wok w'" using a(2) calculation by blast
  moreover have "le (w_store w) (w_store w')" using b(3) [OF w] a(3) [OF \<open>wok w1\<close>] by (rule log_le_trans)
  ultimately show "\<exists>s1 s2. ok s1 \<and> ok s2 \<and> le (w_store w) s1 \<and> P s1 s2 \<and> le s1 s2 \<and> le s2 (w_store w')"
    using assms(3) [OF t] wok_ok by (intro exI [of _ "w_store w'"]) simp
qed

lemma hap_step:
  assumes "ext w w1" and "ext w1 w2" and "w_tried w3 = w_tried w2"
    and "tried_ok w2 \<Longrightarrow> wok w1 \<Longrightarrow> wok w2 \<Longrightarrow>
      ok (w_store w3) \<and> le (w_store w2) (w_store w3) \<and> P (w_store w2) (w_store w3)"
  shows "hap P w w3"
  unfolding happened_def
proof (intro impI)
  assume "tried_ok w3" and w: "wok w"
  then have t: "tried_ok w2" using assms(3) by (simp add: tried_ok_def)
  note a = extD [OF assms(2) t] and b = extD [OF assms(1) extD(1) [OF assms(2) t]]
  have w1: "wok w1" and w2: "wok w2" using a(2) b(2) w by blast+
  have "le (w_store w) (w_store w2)" using b(3) [OF w] a(3) [OF w1] by (rule log_le_trans)
  then show "\<exists>s1 s2. ok s1 \<and> ok s2 \<and> le (w_store w) s1 \<and> P s1 s2 \<and> le s1 s2 \<and> le s2 (w_store w3)"
    using assms(4) [OF t w1 w2] wok_ok [OF w2]
    by (intro exI [of _ "w_store w2"] exI [of _ "w_store w3"]) simp
qed

lemma ext_tried_subset: "ext b c \<Longrightarrow> set (w_tried b) \<subseteq> set (w_tried c)"
  by (simp add: world_ext_def)

lemma hap_next: "ext a b \<Longrightarrow> ext b c \<and> hap P b c \<Longrightarrow> ext a c \<and> hap P a c"
  using ext_trans [of a b c] hap_left [of a b P c] ext_tried_subset [of b c] by blast

section \<open>Errors of the building blocks\<close>

lemma refresh_step_some:
  assumes "wok w"
  shows "refresh_step codec lb opts t (w_store w) (w_vr w) \<noteq> None"
proof -
  obtain vr1 st where rw: "refresh_wait opts t (w_vr w) = (vr1, st)" by force
  then have vr1: "vr_view vr1 = vr_view (w_vr w)" "vr_seqs vr1 = vr_seqs (w_vr w)"
    by (auto simp: refresh_wait_def Let_def split: if_splits)
  have "ok (w_store w)" "vr_wf (lb_token lb) vr1" "vr_cached (hist (w_store w)) vr1"
    using assms vr_wf_cong [OF vr1] vr_cached_cong [OF vr1(1)] by (simp_all add: world_ok_def)
  then obtain vr2 where "refresh_view codec lb (w_store w) vr1 = Some vr2"
    using refresh_view_ok by metis
  then show ?thesis using rw by (cases st) (simp_all add: refresh_step_def)
qed

lemma wait_done_ret:
  "wait_done n t codec lb opts i w = Some (r, w') \<Longrightarrow> tried_ok w' \<Longrightarrow> wok w \<Longrightarrow> r = Inr ()"
proof (induction n arbitrary: t w)
  case (Suc n)
  let ?w = "interfere codec lb w"
  show ?case
  proof (cases "i \<in> set (vr_done (w_vr w))")
    case True
    then show ?thesis using Suc.prems by simp
  next
    case False
    show ?thesis
    proof (cases "refresh_step codec lb opts t (w_store ?w) (w_vr ?w)")
      case None
      then have "w' = ?w" using Suc.prems(1) False by simp
      then have "wok ?w" using extD(2) [OF interfere_ext] Suc.prems(2,3) by blast
      then show ?thesis using refresh_step_some None by blast
    next
      case (Some x)
      obtain vr st where x: "x = (vr, st)" by (cases x)
      have rec: "wait_done n True codec lb opts i (?w\<lparr>w_vr := vr\<rparr>) = Some (r, w')"
        using Suc.prems(1) False Some x by simp
      have e: "ext w (?w\<lparr>w_vr := vr\<rparr>)"
        by (rule ext_trans [OF interfere_ext refresh_step_ext]) (use Some x in simp)
      have "tried_ok (?w\<lparr>w_vr := vr\<rparr>)" by (rule extD(1) [OF wait_done_ext [OF rec] Suc.prems(2)])
      then show ?thesis using Suc.IH [OF rec Suc.prems(2)] extD(2) [OF e] Suc.prems(3) by blast
    qed
  qed
qed simp

lemma update_current_view_ret:
  assumes "update_current_view n codec lb opts e b w = Some (r, w')" and "tried_ok w'" and "wok w"
  shows "r = Inr ()"
proof -
  obtain x vr where wf: "wait_for_newer_view opts e b (w_vr w) = (x, vr)" by force
  then have vr: "vr_view vr = vr_view (w_vr w)" "vr_seqs vr = vr_seqs (w_vr w)"
    by (auto simp: wait_for_newer_view_def Let_def split: if_splits)
  have "wok (w\<lparr>w_vr := vr\<rparr>)"
    using assms(3) vr vr_wf_cong [OF vr] vr_cached_cong [OF vr(1)] by (simp add: world_ok_def)
  then show ?thesis
    using assms(1,2) wf wait_done_ret by (auto simp: update_current_view_def Let_def split: option.splits)
qed

lemma vm_map_ret:
  assumes "view_wf v" and "vm_map v p w = (r, w')"
  shows "r = Inr (slot_oid v p)"
proof -
  obtain l where l: "om_map (v_object_map v) p = Some (slot_oid v p, l)"
    using slot_oid_map(2) [OF assms(1)] by blast
  have wf: "om_wf (v_object_map v)" using assms(1) by (simp add: view_wf_def)
  have "l \<Longrightarrow> slot_oid v p \<noteq> None" using l om_map_spec [OF wf, of p] by (auto simp: slot_oid_def)
  moreover have "slot_oid v p \<noteq> None \<Longrightarrow> om_max_position (v_object_map v) \<noteq> None"
    by (auto simp: slot_oid_def om_max_position_def om_locate_def)
  ultimately show ?thesis
    using assms(2) l by (auto simp: vm_map_def split: option.splits bool.splits)
qed

lemma vm_ProposeView_ret:
  assumes "vm_ProposeView codec lb e data w = (r, w')" and "tried_ok w'" and "wok w"
  shows "r \<in> {Inr (), Inl EINVAL, Inl ESPIPE}"
proof -
  let ?w = "interfere codec lb w"
  have "tried_ok ?w" using assms(1,2) by (auto simp: vm_ProposeView_def Let_def tried_ok_def split: prod.splits)
  then have "ok (w_store ?w)" using extD(2) [OF interfere_ext] assms(3) wok_ok by blast
  then obtain vs where "sinv (w_store ?w)" "views (w_store ?w) (lb_hoid lb) = Some vs"
    using okD(1,5) by blast
  from propose_ret [OF this, of e data] show ?thesis
    using assms(1)
    by (auto simp: vm_ProposeView_def Let_def lb_defs a_propose_def split: prod.splits if_splits)
qed

lemma op_Seal_ret:
  assumes "op_Seal codec lb oid e w = (r, w')" and "e \<noteq> 0" and "tried_ok w'" and "wok w"
  shows "r = Inr () \<or> r = Inl ESPIPE"
proof -
  let ?w = "interfere codec lb w"
  have "tried_ok ?w" using assms(1,3) by (auto simp: op_Seal_def Let_def tried_ok_def split: prod.splits)
  then have "sinv (w_store ?w)" using extD(2) [OF interfere_ext] assms(4) wok_ok okD(1) by blast
  from seal_ret [OF this, of "prefixed_oid lb oid" e] show ?thesis
    using assms(1,2)
    by (auto simp: op_Seal_def Let_def lb_defs a_seal_def split: prod.splits if_splits option.splits)
qed

lemma view_encode_some: "view_wf v \<Longrightarrow> view_encode codec v \<noteq> None"
  using view_encode_decode [OF codec] by (metis option.distinct(1))

lemma expand_total:
  assumes "view_wf v" and "om_aligned (v_object_map v)" and "stripe_options_ok opts"
    and "unat p < position_limit"
  shows "view_expand_mapping v p opts \<noteq> None"
proof (cases "unat p < om_span (v_object_map v)")
  case True
  then show ?thesis using view_expand_mapped [OF assms(1)] by simp
next
  case False
  then have "om_span (v_object_map v) \<le> unat p" by simp
  then show ?thesis
    using view_expand_some [OF assms(1) _ _ room_below_limit [OF assms(1) _ assms(4)], of opts] assms(3)
    by (metis option.distinct(1))
qed

lemma try_expand_attempt_ret:
  assumes o: "stripe_options_ok opts" and a: "try_expand_attempt n codec lb opts p w = Some (Finished (Inl e), w')"
    and t: "tried_ok w'" and w: "wok w"
  shows "e = EINVAL"
proof -
  obtain cv w1 where cv: "current_view codec lb (w\<lparr>w_tried := w_tried w @ [p]\<rparr>) = (cv, w1)" by force
  note c = current_view_ext [OF cv]
  have w0: "wok (w\<lparr>w_tried := w_tried w @ [p]\<rparr>)" using w by (simp add: world_ok_def)
  have p: "p \<in> set (w_tried w1)" using c by (auto simp: world_ext_def)
  have good: "\<exists>v nv. cv = Some v \<and> (view_expand_mapping (vv_view v) p opts = Some None
      \<or> view_expand_mapping (vv_view v) p opts = Some (Some nv) \<and> view_encode codec nv \<noteq> None)"
    if t1: "tried_ok w1"
  proof -
    have w1: "wok w1" using extD(2) [OF conjunct1 [OF c] t1] w0 by blast
    then obtain v where v: "cv = Some v" using c by (auto simp: world_ok_def)
    have h: "view_held (hist (w_store w1)) v" using current_view_held [OF w1] c v by simp
    note hv = held_view [OF wok_ok [OF w1] h]
    have lim: "unat p < position_limit" using t1 p by (auto simp: tried_ok_def)
    show ?thesis
    proof (cases "view_expand_mapping (vv_view v) p opts")
      case None
      then show ?thesis using expand_total [OF hv(2,3) o lim] by simp
    next
      case (Some x)
      then show ?thesis
        using v expand_derive [OF hv(2,3) o lim] view_encode_some by (cases x) auto
    qed
  qed
  show ?thesis
  proof (cases "\<exists>v nv data pr w2. cv = Some v \<and> view_expand_mapping (vv_view v) p opts = Some (Some nv)
      \<and> view_encode codec nv = Some data \<and> vm_ProposeView codec lb (vv_epoch v + 1) data w1 = (pr, w2)")
    case False
    then have "w' = w1 \<and> \<not> (\<exists>v nv. cv = Some v \<and> (view_expand_mapping (vv_view v) p opts = Some None
      \<or> view_expand_mapping (vv_view v) p opts = Some (Some nv) \<and> view_encode codec nv \<noteq> None))"
      using a cv by (auto simp: try_expand_attempt_def split: option.splits prod.splits)
    then show ?thesis using good t by blast
  next
    case True
    then obtain v nv data pr w2 where v: "cv = Some v" "view_expand_mapping (vv_view v) p opts = Some (Some nv)"
        "view_encode codec nv = Some data" and pr: "vm_ProposeView codec lb (vv_epoch v + 1) data w1 = (pr, w2)"
      by blast
    have pe: "ext w1 w2"
    proof (rule vm_ProposeView_ext [OF pr ext_refl])
      assume t1: "tried_ok w1" and w1: "wok w1"
      have h: "view_held (hist (w_store w1)) v" using current_view_held [OF w1] c v(1) by simp
      note hv = held_view [OF wok_ok [OF w1] h]
      have "unat p < position_limit" using t1 p by (auto simp: tried_ok_def)
      from expand_derive [OF hv(2,3) o this v(2)]
      show "view_held (hist (w_store w1)) v \<and> view_wf nv \<and> om_aligned (v_object_map nv)
          \<and> om_le (v_object_map (vv_view v)) (v_object_map nv) \<and> view_encode codec nv = Some data"
        using h v(3) by blast
    qed
    have k: "wok w1 \<and> wok w2" if t2: "tried_ok w2"
    proof -
      have "wok w1" using extD(2) [OF conjunct1 [OF c] extD(1) [OF pe t2]] w0 by blast
      then show ?thesis using extD(2) [OF pe t2] by blast
    qed
    have upd: False if "update_current_view n codec lb opts (vv_epoch v) True w2 = Some (Inl x, w')" for x
      using update_current_view_ret [OF that t] k extD(1) [OF update_current_view_ext [OF that] t] by simp
    show ?thesis
      using a upd vm_ProposeView_ret [OF pr] k t
      by (auto simp: try_expand_attempt_def cv v pr split: if_splits option.splits sum.splits)
  qed
qed

lemma try_expand_ret:
  assumes "stripe_options_ok opts" and "try_expand_view n codec lb opts p w = Some (Inl e, w')"
    and "tried_ok w'" and "wok w"
  shows "e \<in> {EINVAL, ESHUTDOWN}"
proof -
  have "try_expand_loop n codec lb opts p k w = Some (Inl e, w') \<Longrightarrow> wok w \<Longrightarrow> e \<in> {EINVAL, ESHUTDOWN}" for k w
  proof (induction k arbitrary: w rule: less_induct)
    case (less k)
    then obtain a w1 where a: "try_expand_attempt n codec lb opts p w = Some (a, w1)"
      by (subst (asm) (2) try_expand_loop.simps) (auto split: option.splits)
    show ?case
    proof (cases "w' = w1 \<and> (a = Finished (Inl e) \<or> e = ESHUTDOWN)")
      case True
      then show ?thesis
        using try_expand_attempt_ret [OF assms(1) _ assms(3) less.prems(2)] a by auto
    next
      case False
      then have k: "k - 1 < k" and rec: "try_expand_loop n codec lb opts p (k - 1) w1 = Some (Inl e, w')"
        using less.prems(1)
        by (subst (asm) try_expand_loop.simps, auto simp: a split: attempt.splits if_splits)+
      have "tried_ok w1" by (rule extD(1) [OF try_expand_loop_ext [OF assms(1) rec] assms(3)])
      then have "wok w1" using extD(2) [OF try_expand_attempt_ext [OF assms(1) a]] less.prems(2) by blast
      then show ?thesis by (rule less.IH [OF k rec])
    qed
  qed
  then show ?thesis using assms(2,4) by (simp add: try_expand_view_def)
qed

section \<open>The steps the loops share\<close>

text \<open>A branch that cannot be taken in a good world.\<close>

lemma hap_dead: "ext w w1 \<Longrightarrow> ext w1 w' \<Longrightarrow> (tried_ok w' \<Longrightarrow> wok w1 \<Longrightarrow> False) \<Longrightarrow> ext w w' \<and> hap P w w'"
  using ext_trans [of w w1 w'] hap_end [of w w1 w' P] by blast

lemma refresh_cont:
  assumes "ext w w1"
    and "(case update_current_view m codec lb opts e b w1 of
        None \<Rightarrow> None
      | Some (Inl x, w2) \<Rightarrow> Some (I x, w2)
      | Some (Inr _, w2) \<Rightarrow> K w2) = Some (r, w')"
    and "\<And>w2. K w2 = Some (r, w') \<Longrightarrow> ext w2 w' \<and> hap P w2 w'"
  shows "ext w w' \<and> hap P w w'"
proof (cases "update_current_view m codec lb opts e b w1")
  case (Some x)
  obtain ur w2 where x: "x = (ur, w2)" by (cases x)
  note u = Some [unfolded x]
  show ?thesis
  proof (cases ur)
    case (Inl y)
    then have "w' = w2" using assms(2) u by simp
    then show ?thesis
      using hap_dead [OF assms(1) update_current_view_ext [OF u]] update_current_view_ret [OF u] Inl by blast
  next
    case (Inr z)
    then have "K w2 = Some (r, w')" using assms(2) u by simp
    then show ?thesis
      using hap_next [OF ext_trans [OF assms(1) update_current_view_ext [OF u]]] assms(3) by blast
  qed
qed (use assms(2) in simp)

lemma seal_cont:
  assumes "ext w w0" and "ext w0 w1" and "wok w0 \<Longrightarrow> tried_ok w1 \<Longrightarrow> e \<noteq> 0"
    and "(case op_Seal codec lb oid e w1 of
        (Inl x, w2) \<Rightarrow> if x \<noteq> ESPIPE then Some (I x, w2) else K w2
      | (Inr _, w2) \<Rightarrow> K w2) = Some (r, w')"
    and "\<And>w2. K w2 = Some (r, w') \<Longrightarrow> ext w2 w' \<and> hap P w2 w'"
  shows "ext w w' \<and> hap P w w'"
proof -
  obtain sr w2 where s: "op_Seal codec lb oid e w1 = (sr, w2)" by force
  have e02: "ext w0 w2" by (rule ext_trans [OF assms(2) op_Seal_ext [OF s]])
  show ?thesis
  proof (cases "\<exists>x. sr = Inl x \<and> x \<noteq> ESPIPE")
    case True
    then have w': "w' = w2" using assms(4) s by auto
    have False if t: "tried_ok w2" and w0: "wok w0"
    proof -
      note t1 = extD(1) [OF op_Seal_ext [OF s] t]
      have "wok w1" using extD(2) [OF assms(2) t1] w0 by blast
      then show False using op_Seal_ret [OF s assms(3) [OF w0 t1] t] True by blast
    qed
    then show ?thesis using hap_dead [OF assms(1) e02] w' by blast
  next
    case False
    then have "K w2 = Some (r, w')" using assms(4) s by (auto split: sum.splits)
    then show ?thesis using hap_next [OF ext_trans [OF assms(1) e02]] assms(5) by blast
  qed
qed

lemma map_step:
  assumes o: "stripe_options_ok opts" and e1: "ext w w1" and v: "vr_view (w_vr w1) = Some v"
    and e2: "ext w1 w2" and G: "\<And>w3. ext w3 (G w3)"
    and X: "(case vm_map (vv_view v) p w2 of
        (Inl e, w3) \<Rightarrow> Some (Inl e, w3)
      | (Inr None, w3) \<Rightarrow>
          (case try_expand_view m codec lb opts p (G w3) of
             None \<Rightarrow> None
           | Some (Inl e, w4) \<Rightarrow> Some (Inl e, w4)
           | Some (Inr _, w4) \<Rightarrow> K w4)
      | (Inr (Some oid), w3) \<Rightarrow> F oid w3) = Some (r, w')"
    and K: "\<And>w4. K w4 = Some (r, w') \<Longrightarrow> ext w4 w' \<and> hap P w4 w'"
    and F: "\<And>oid w3. ext w1 w3 \<Longrightarrow> (wok w1 \<Longrightarrow> slot_oid (vv_view v) p = Some oid) \<Longrightarrow>
      F oid w3 = Some (r, w') \<Longrightarrow> ext w w' \<and> hap P w w'"
    and E: "\<And>e s s'. r = Inl e \<Longrightarrow> e \<in> {EINVAL, ESHUTDOWN} \<Longrightarrow> P s s'"
  shows "ext w w' \<and> hap P w w'"
proof -
  obtain mr w3 where m: "vm_map (vv_view v) p w2 = (mr, w3)" by force
  have e3: "ext w1 w3" by (rule ext_trans [OF e2 vm_map_ext [OF m]])
  have mr: "mr = Inr (slot_oid (vv_view v) p)" if "wok w1"
    by (rule vm_map_ret [OF held_view(2) [OF wok_ok [OF that] current_view_held [OF that v]] m])
  show ?thesis
  proof (cases mr)
    case (Inl e)
    then have "w' = w3" using X m by simp
    then show ?thesis using hap_dead [OF e1 e3] mr Inl by auto
  next
    case (Inr mo)
    show ?thesis
    proof (cases mo)
      case (Some oid)
      then show ?thesis using X m mr Inr by (intro F [OF e3, of oid]) auto
    next
      case None
      have e4: "ext w1 (G w3)" by (rule ext_trans [OF e3 G])
      show ?thesis
      proof (cases "try_expand_view m codec lb opts p (G w3)")
        case None
        then show ?thesis using X m Inr \<open>mo = None\<close> by simp
      next
        case (Some x)
        obtain tr w4 where x: "x = (tr, w4)" by (cases x)
        note t = Some [unfolded x] and te = try_expand_view_ext [OF o Some [unfolded x]]
        show ?thesis
        proof (cases tr)
          case (Inl e)
          then have w': "w' = w4" "r = Inl e" using X m Inr \<open>mo = None\<close> t by auto
          have "P (w_store w4) (w_store w4)" if "tried_ok w4" "wok w1"
          proof -
            have "wok (G w3)" using extD(2) [OF e4 extD(1) [OF te that(1)]] that(2) by blast
            then show ?thesis using try_expand_ret [OF o _ that(1)] t Inl E w'(2) by blast
          qed
          then show ?thesis
            using hap_end [OF e1 ext_trans [OF e4 te], of P] ext_trans [OF e1 ext_trans [OF e4 te]] w'(1) by blast
        next
          case (Inr z)
          then have "K w4 = Some (r, w')" using X m \<open>mr = Inr mo\<close> \<open>mo = None\<close> t by simp
          then show ?thesis using hap_next [OF ext_trans [OF e1 ext_trans [OF e4 te]]] K by blast
        qed
      qed
    qed
  qed
qed

lemma mapped_step:
  assumes o: "stripe_options_ok opts"
    and X: "(case current_view codec lb w of
        (None, w1) \<Rightarrow> Some (Inl Aborted, w1)
      | (Some v, w1) \<Rightarrow>
          (case vm_map (vv_view v) p w1 of
             (Inl e, w3) \<Rightarrow> Some (Inl e, w3)
           | (Inr None, w3) \<Rightarrow>
               (case try_expand_view m codec lb opts p w3 of
                  None \<Rightarrow> None
                | Some (Inl e, w4) \<Rightarrow> Some (Inl e, w4)
                | Some (Inr _, w4) \<Rightarrow> K w4)
           | (Inr (Some oid), w3) \<Rightarrow> F v oid w3)) = Some (r, w')"
    and K: "\<And>w4. K w4 = Some (r, w') \<Longrightarrow> ext w4 w' \<and> hap P w4 w'"
    and F: "\<And>v oid w1 w3. ext w w1 \<Longrightarrow> vr_view (w_vr w1) = Some v \<Longrightarrow> ext w1 w3 \<Longrightarrow>
      (wok w1 \<Longrightarrow> slot_oid (vv_view v) p = Some oid) \<Longrightarrow>
      F v oid w3 = Some (r, w') \<Longrightarrow> ext w w' \<and> hap P w w'"
    and E: "\<And>e s s'. r = Inl e \<Longrightarrow> e \<in> {EINVAL, ESHUTDOWN} \<Longrightarrow> P s s'"
  shows "ext w w' \<and> hap P w w'"
proof -
  obtain cv w1 where cv: "current_view codec lb w = (cv, w1)" by force
  note c = current_view_ext [OF cv]
  show ?thesis
  proof (cases cv)
    case None
    then have "w' = w1" using X cv by simp
    moreover have "wok w1 \<Longrightarrow> False" using None c by (auto simp: world_ok_def)
    ultimately show ?thesis using hap_dead [OF conjunct1 [OF c] ext_refl] by blast
  next
    case (Some v)
    have v: "vr_view (w_vr w1) = Some v" using c Some by simp
    show ?thesis
      by (rule map_step [OF o conjunct1 [OF c] v ext_refl, where G = "\<lambda>w. w" and K = K and F = "F v" and p = p and m = m])
        (use X cv Some K F [OF conjunct1 [OF c] v] E in auto)
  qed
qed

section \<open>Reading, filling, trimming\<close>

text \<open>At the backend call, the view the client holds is still one of the accepted ones.\<close>

lemma call_setting:
  assumes "ext w1 w3" and "vr_view (w_vr w1) = Some v" and "tried_ok w3" and "wok w1"
  shows "ok (w_store w3)" and "vv_view v \<in> set (hist (w_store w3))" and "vv_epoch v \<noteq> 0"
proof -
  have w3: "wok w3" using extD(2) [OF assms(1,3,4)] .
  show "ok (w_store w3)" by (rule wok_ok [OF w3])
  have h: "view_held (hist (w_store w3)) v" by (rule held_after [OF assms(1,2,3) w3 assms(4)])
  then show "vv_view v \<in> set (hist (w_store w3))" by (rule held_view(1) [OF wok_ok [OF w3]])
  show "vv_epoch v \<noteq> 0" using h by (auto simp: view_held_def)
qed

lemma read_ret:
  assumes "sinv s" and "e \<noteq> 0" and "lb_Read lb oid e p s = Inl x"
  shows "x \<in> {ENOENT, ESPIPE, ERANGE, ENODATA}"
  using assms(2,3)
  by (auto simp: lb_defs read_spec [OF assms(1)] a_read_def a_guard_def
      split: option.splits if_splits entry.splits sum.splits)

lemma read_run_result:
  assumes o: "stripe_options_ok opts"
  shows "read_run n m codec lb opts p w = Some (r, w') \<Longrightarrow> ext w w' \<and> hap (\<lambda>s s'. read_answer at p r s) w w'"
proof (induction n arbitrary: w)
  case (Suc n)
  show ?case
  proof (rule mapped_step [OF o Suc.prems [unfolded read_run.simps]])
    fix v oid w1 w2
    assume e1: "ext w w1" and v: "vr_view (w_vr w1) = Some v" and e2: "ext w1 w2"
      and oid: "wok w1 \<Longrightarrow> slot_oid (vv_view v) p = Some oid"
    let ?w = "interfere codec lb w2"
    let ?ret = "lb_Read lb oid (vv_epoch v) p (w_store ?w)"
    assume X: "(let w3 = interfere codec lb w2
        in (case lb_Read lb oid (vv_epoch v) p (w_store w3) of
              Inr data \<Rightarrow> Some (Inr data, w3)
            | Inl ret \<Rightarrow>
                if ret = ESPIPE then
                  (case update_current_view m codec lb opts (vv_epoch v) False w3 of
                     None \<Rightarrow> None
                   | Some (Inl e, w4) \<Rightarrow> Some (Inl e, w4)
                   | Some (Inr _, w4) \<Rightarrow> read_run n m codec lb opts p w4)
                else if ret = ERANGE then Some (Inl ENOENT, w3)
                else if ret = ENOENT then
                  (case op_Seal codec lb oid (vv_epoch v) w3 of
                     (Inl e, w4) \<Rightarrow>
                       if e \<noteq> ESPIPE then Some (Inl e, w4) else read_run n m codec lb opts p w4
                   | (Inr _, w4) \<Rightarrow> read_run n m codec lb opts p w4)
                else Some (Inl ret, w3))) = Some (r, w')"
    have e3: "ext w1 ?w" by (rule ext_trans [OF e2 interfere_ext])
    note e4 = ext_trans [OF e1 e3] and cs = call_setting [OF e3 v]
    show "ext w w' \<and> hap (\<lambda>s s'. read_answer at p r s) w w'"
    proof (cases "?ret = Inl ESPIPE \<or> ?ret = Inl ENOENT")
      case True
      then show ?thesis
      proof
        assume "?ret = Inl ESPIPE"
        then show ?thesis
          using X by (intro refresh_cont [OF e4 _ Suc.IH, where I = Inl and e = "vv_epoch v" and b = False]) simp_all
      next
        assume "?ret = Inl ENOENT"
        then show ?thesis
          using X by (intro seal_cont [OF e1 e3 cs(3) _ Suc.IH, where I = Inl and oid = oid]) simp_all
      qed
    next
      case False
      then have w': "w' = ?w"
        and r: "r = (case ?ret of Inr d \<Rightarrow> Inr d | Inl e \<Rightarrow> Inl (if e = ERANGE then ENOENT else e))"
        using X by (auto simp: Let_def split: sum.splits if_splits)
      have "read_answer at p r (w_store ?w)" if "tried_ok ?w" "wok w1"
      proof -
        note c = cs [OF that]
        show ?thesis
          using read_log [OF c(1,2) oid [OF that(2)], of "vv_epoch v"]
            read_ret [OF okD(1) [OF c(1)] c(3), of oid p] False r
          by (cases ?ret) (auto simp: read_answer_def)
      qed
      then show ?thesis using hap_end [OF e1 e3, of "\<lambda>s s'. read_answer at p r s"] e4 w' by blast
    qed
  qed (use Suc.IH in \<open>auto simp: read_answer_def\<close>)
qed simp

lemma call_ext:
  assumes "ext w1 w" and "tried_ok w \<Longrightarrow> wok w1 \<Longrightarrow> ok s \<and> le (w_store w) s"
  shows "ext w1 (w\<lparr>w_store := s\<rparr>)"
proof -
  have "wok (w\<lparr>w_store := s\<rparr>) \<and> le (w_store w1) s" if "tried_ok w" "wok w1"
    using wok_store [OF extD(2) [OF assms(1) that], of s] assms(2) [OF that]
      log_le_trans [OF extD(3) [OF assms(1) that]] by blast
  then show ?thesis using assms(1) by (simp add: world_ext_def tried_ok_def)
qed

text \<open>A backend call that changes the object of the position, and what the loops do with its answer.\<close>

lemma mutate_step:
  assumes e1: "ext w w1" and v: "vr_view (w_vr w1) = Some v" and e2: "ext w1 w2"
    and X: "(let w = interfere codec lb w2; (ret, s) = C (w_store w); w3 = w\<lparr>w_store := s\<rparr>
        in if ret = Inl ESPIPE then
             (case update_current_view m codec lb opts (vv_epoch v) False w3 of
                None \<Rightarrow> None
              | Some (Inl e, w4) \<Rightarrow> Some (Inl e, w4)
              | Some (Inr _, w4) \<Rightarrow> K w4)
           else if ret = Inl ENOENT then
             (case op_Seal codec lb oid (vv_epoch v) w3 of
                (Inl e, w4) \<Rightarrow> if e \<noteq> ESPIPE then Some (Inl e, w4) else K w4
              | (Inr _, w4) \<Rightarrow> K w4)
           else Some (ret, w3)) = Some (r, w')"
    and C: "\<And>s ret s'. wok w1 \<Longrightarrow> ok s \<Longrightarrow> vv_view v \<in> set (hist s) \<Longrightarrow> vv_epoch v \<noteq> 0 \<Longrightarrow>
      C s = (ret, s') \<Longrightarrow> ok s' \<and> le s s' \<and> (ret \<noteq> Inl ESPIPE \<longrightarrow> ret \<noteq> Inl ENOENT \<longrightarrow> P ret s s')"
    and IH: "\<And>w4. K w4 = Some (r, w') \<Longrightarrow> ext w4 w' \<and> hap (P r) w4 w'"
  shows "ext w w' \<and> hap (P r) w w'"
proof -
  let ?w = "interfere codec lb w2"
  obtain ret s where f: "C (w_store ?w) = (ret, s)" by force
  let ?w3 = "?w\<lparr>w_store := s\<rparr>"
  have e3: "ext w1 ?w" by (rule ext_trans [OF e2 interfere_ext])
  note cs = call_setting [OF e3 v]
  have fl: "ok s \<and> le (w_store ?w) s \<and> (ret \<noteq> Inl ESPIPE \<longrightarrow> ret \<noteq> Inl ENOENT \<longrightarrow> P ret (w_store ?w) s)"
    if "tried_ok ?w" "wok w1"
    by (rule C [OF that(2) cs [OF that] f])
  have e4: "ext w1 ?w3" by (rule call_ext [OF e3]) (use fl in blast)
  have e5: "ext w ?w3" by (rule ext_trans [OF e1 e4])
  have ep: "vv_epoch v \<noteq> 0" if "wok w1" "tried_ok ?w3"
    using cs(3) [OF _ that(1)] that(2) by (simp add: tried_ok_def)
  consider "ret = Inl ESPIPE" | "ret = Inl ENOENT" | "ret \<noteq> Inl ESPIPE" "ret \<noteq> Inl ENOENT" by blast
  then show ?thesis
  proof cases
    case 1
    then show ?thesis
      using X f by (intro refresh_cont [OF e5 _ IH, where I = Inl and e = "vv_epoch v" and b = False]) simp_all
  next
    case 2
    then show ?thesis
      using X f by (intro seal_cont [OF e1 e4 ep _ IH, where I = Inl and oid = oid]) simp_all
  next
    case 3
    then have w': "w' = ?w3" "r = ret" using X f by auto
    have "hap (P ret) w ?w3" by (intro hap_step [OF e1 e3]) (use fl 3 in auto)
    then show ?thesis using e5 w' by simp
  qed
qed

lemma fill_run_result:
  assumes o: "stripe_options_ok opts"
  shows "fill_run n m codec lb opts p w = Some (r, w') \<Longrightarrow> ext w w' \<and> hap (fill_answer at p r) w w'"
proof (induction n arbitrary: w)
  case (Suc n)
  show ?case
  proof (rule mapped_step [OF o Suc.prems [unfolded fill_run.simps]], goal_cases)
    case (2 v oid w1 w3)
    from 2(1,2,3,5) show ?case
    proof (rule mutate_step [where P = "fill_answer at p"])
      fix s ret s'
      assume w: "wok w1" and s: "ok s" "vv_view v \<in> set (hist s)" and e: "vv_epoch v \<noteq> 0"
        and f: "lb_Fill lb oid (vv_epoch v) p s = (ret, s')"
      note l = fill_log [OF s 2(4) [OF w] f]
      have "ret = fst (a_fill (prefixed_oid lb oid) (vv_epoch v) p (obj s (prefixed_oid lb oid)))"
        using fill_ret [OF okD(1) [OF s(1)], of "prefixed_oid lb oid" "vv_epoch v" p] f by (simp add: lb_defs)
      then have "ret \<in> {Inr (), Inl EROFS, Inl ESPIPE, Inl ENOENT}"
        using e by (auto simp: a_fill_def a_guard_def split: option.splits entry.splits if_splits)
      then show "ok s' \<and> le s s' \<and> (ret \<noteq> Inl ESPIPE \<longrightarrow> ret \<noteq> Inl ENOENT \<longrightarrow> fill_answer at p ret s s')"
        using l by (auto simp: fill_answer_def)
    qed (rule Suc.IH)
  qed (use Suc.IH in \<open>auto simp: fill_answer_def\<close>)
qed simp

lemma trim_run_result:
  assumes o: "stripe_options_ok opts"
  shows "trim_run n m codec lb opts p w = Some (r, w') \<Longrightarrow> ext w w' \<and> hap (\<lambda>s s'. trim_answer at p r s') w w'"
proof (induction n arbitrary: w)
  case (Suc n)
  show ?case
  proof (rule mapped_step [OF o Suc.prems [unfolded trim_run.simps]], goal_cases)
    case (2 v oid w1 w3)
    from 2(1,2,3,5) show ?case
    proof (rule mutate_step [where P = "\<lambda>r s s'. trim_answer at p r s'"])
      fix s ret s'
      assume w: "wok w1" and s: "ok s" "vv_view v \<in> set (hist s)" and e: "vv_epoch v \<noteq> 0"
        and f: "lb_Trim lb oid (vv_epoch v) p False False s = (ret, s')"
      note l = trim_log [OF s 2(4) [OF w] f]
      have "ret = fst (a_trim (prefixed_oid lb oid) (vv_epoch v) p False False (obj s (prefixed_oid lb oid)))"
        using trim_ret [OF okD(1) [OF s(1)], of "prefixed_oid lb oid" "vv_epoch v" p False False] f
        by (simp add: lb_defs)
      then have "ret \<in> {Inr (), Inl ESPIPE, Inl ENOENT}"
        using e by (auto simp: a_trim_def a_guard_def split: option.splits if_splits)
      then show "ok s' \<and> le s s' \<and> (ret \<noteq> Inl ESPIPE \<longrightarrow> ret \<noteq> Inl ENOENT \<longrightarrow> trim_answer at p ret s')"
        using l by (auto simp: trim_answer_def)
    qed (rule Suc.IH)
  qed (use Suc.IH in \<open>auto simp: trim_answer_def\<close>)
qed simp

end

end
