(* ===== verification/Append_Results.thy ===== *)
theory Append_Results
  imports Log_Results
begin

text \<open>
  The meaning of the return value of an append, and of a query of the tail.
\<close>

context log_client
begin

lemma ext_stats: "ext w (w\<lparr>w_stats := x\<rparr>)"
  by (rule ext_local) simp_all

lemma write_ret_codes:
  assumes "sinv s" and "e \<noteq> 0" and "lb_Write lb oid d e p s = (r, s')"
  shows "r \<in> {Inr (), Inl ENOENT, Inl ESPIPE, Inl EROFS}"
  using assms(2) write_ret [OF assms(1), of "prefixed_oid lb oid" d e p] assms(3)
  by (auto simp: lb_defs a_write_def a_guard_def split: option.splits if_splits)

text \<open>The inner loop of \<^verbatim>\<open>AppendOp::run\<close>: when it ends the append, the entry has been written.\<close>

lemma append_write_result:
  assumes e1: "ext w w1" and v: "vr_view (w_vr w1) = Some v"
    and oid: "wok w1 \<Longrightarrow> slot_oid (vv_view v) p = Some oid"
  shows "append_write n m codec lb opts oid d (vv_epoch v) p w2 = Some (nx, w') \<Longrightarrow> ext w1 w2 \<Longrightarrow>
    ext w1 w' \<and> (\<forall>r. nx = AReturn r \<longrightarrow> hap (\<lambda>s s'. r = Inr () \<and> at s p = None \<and> at s' p = Some (Data d)) w w')"
proof (induction n arbitrary: w2)
  case (Suc n)
  let ?w = "interfere codec lb w2"
  obtain r s where f: "lb_Write lb oid d (vv_epoch v) p (w_store ?w) = (r, s)" by force
  let ?w3 = "?w\<lparr>w_store := s\<rparr>"
  have e3: "ext w1 ?w" by (rule ext_trans [OF Suc.prems(2) interfere_ext])
  note cs = call_setting [OF e3 v]
  have wl: "ok s \<and> le (w_store ?w) s \<and> r \<in> {Inr (), Inl ENOENT, Inl ESPIPE, Inl EROFS}
      \<and> (r = Inr () \<longrightarrow> at (w_store ?w) p = None \<and> at s p = Some (Data d))"
    if "tried_ok ?w" "wok w1"
    using write_log [OF cs(1,2) [OF that] oid [OF that(2)] f]
      write_ret_codes [OF okD(1) [OF cs(1) [OF that]] cs(3) [OF that] f] by blast
  have e4: "ext w1 ?w3" by (rule call_ext [OF e3]) (use wl in blast)
  have ep: "vv_epoch v \<noteq> 0" if "wok w1" "tried_ok ?w3"
    using cs(3) [OF _ that(1)] that(2) by (simp add: tried_ok_def)
  consider "r = Inr ()" | "r = Inl ENOENT" | "r = Inl ESPIPE" | "r = Inl EROFS"
    | "r \<notin> {Inr (), Inl ENOENT, Inl ESPIPE, Inl EROFS}" by blast
  then show ?case
  proof cases
    case 1
    then have "nx = AReturn (Inr ())" "w' = ?w3" using Suc.prems(1) f by auto
    moreover have "hap (\<lambda>s s'. at s p = None \<and> at s' p = Some (Data d)) w ?w3"
      by (intro hap_step [OF e1 e3]) (use wl 1 in auto)
    ultimately show ?thesis using e4 by simp
  next
    case 2
    let ?w4 = "?w3\<lparr>w_stats := (w_stats ?w3)\<lparr>append_seal := append_seal (w_stats ?w3) + 1\<rparr>\<rparr>"
    have e5: "ext w1 ?w4" by (rule ext_trans [OF e4 ext_stats])
    obtain sr w5 where s: "op_Seal codec lb oid (vv_epoch v) ?w4 = (sr, w5)" by force
    have e6: "ext w1 w5" by (rule ext_trans [OF e5 op_Seal_ext [OF s]])
    show ?thesis
    proof (cases sr)
      case (Inr u)
      then have "append_write n m codec lb opts oid d (vv_epoch v) p w5 = Some (nx, w')"
        using Suc.prems(1) f 2 s by (simp add: Let_def)
      then show ?thesis using Suc.IH e6 by blast
    next
      case (Inl x)
      have w': "w' = w5" and nx: "nx = (if x \<noteq> ESPIPE then AReturn (Inl x) else ARetry)"
        using Suc.prems(1) f 2 s Inl by (auto simp: Let_def split: if_splits)
      have "hap P w w5" if x: "x \<noteq> ESPIPE" for P
      proof (rule conjunct2 [OF hap_dead [OF e1 e6]])
        assume t: "tried_ok w5" and w1: "wok w1"
        note t4 = extD(1) [OF op_Seal_ext [OF s] t]
        have "wok ?w4" by (rule extD(2) [OF e5 t4 w1])
        then show False using op_Seal_ret [OF s _ t] ep [OF w1] t4 Inl x by (auto simp: tried_ok_def)
      qed
      then show ?thesis using e6 w' nx by simp
    qed
  next
    case 3
    let ?w4 = "?w3\<lparr>w_stats := (w_stats ?w3)\<lparr>append_stale_view := append_stale_view (w_stats ?w3) + 1\<rparr>\<rparr>"
    have e5: "ext w1 ?w4" by (rule ext_trans [OF e4 ext_stats])
    obtain ur where u: "update_current_view m codec lb opts (vv_epoch v) False ?w4 = Some (ur, w')"
        and nx: "nx = (case ur of Inl x \<Rightarrow> AReturn (Inl x) | Inr _ \<Rightarrow> ARefresh)"
      using Suc.prems(1) f 3 by (auto simp: Let_def split: option.splits sum.splits prod.splits)
    have e6: "ext w1 w'" by (rule ext_trans [OF e5 update_current_view_ext [OF u]])
    have "hap P w w'" if "ur = Inl x" for P x
    proof (rule conjunct2 [OF hap_dead [OF e1 e6]])
      assume t: "tried_ok w'" and w1: "wok w1"
      have "wok ?w4" by (rule extD(2) [OF e5 extD(1) [OF update_current_view_ext [OF u] t] w1])
      then show False using update_current_view_ret [OF u t] that by simp
    qed
    then show ?thesis using e6 nx by (cases ur) simp_all
  next
    case 4
    then have "nx = ANewPosition" "ext ?w3 w'" using Suc.prems(1) f ext_stats by (auto simp: Let_def)
    then show ?thesis using ext_trans [OF e4] by simp
  next
    case 5
    then have w': "w' = ?w3" using Suc.prems(1) f by (auto simp: Let_def split: sum.splits if_splits)
    have "hap P w ?w3" for P
      by (rule conjunct2 [OF hap_dead [OF e1 e4]]) (use wl 5 in \<open>auto simp: tried_ok_def\<close>)
    then show ?thesis using e4 w' by blast
  qed
qed simp

lemma hap_mono: "hap P a b \<Longrightarrow> (\<And>s s'. P s s' \<Longrightarrow> Q s s') \<Longrightarrow> hap Q a b"
  unfolding happened_def by blast

text \<open>Taking a position never fails, and leaves the current view as it is.\<close>

lemma check_tail_ext:
  assumes "vr_check_tail b r (w_vr w) = (p, vr)"
  shows "ext w (w\<lparr>w_vr := vr\<rparr>)" and "vr_view vr = vr_view (w_vr w)"
proof -
  have vr: "vr = snd (vr_check_tail b r (w_vr w))" using assms by simp
  show "vr_view vr = vr_view (w_vr w)" by (simp add: vr)
  show "ext w (w\<lparr>w_vr := vr\<rparr>)" by (simp add: world_ext_def world_ok_def vr)
qed

lemma append_position_ext:
  assumes "append_position r pos (w_vr w) = Some (pe, vr)"
  shows "ext w (w\<lparr>w_vr := vr\<rparr>)" and "vr_view vr = vr_view (w_vr w)"
proof -
  have "vr = w_vr w \<or> (\<exists>p. vr_check_tail True r (w_vr w) = (p, vr))"
    using assms by (auto simp: append_position_def Let_def split: option.splits prod.splits if_splits)
  then show "ext w (w\<lparr>w_vr := vr\<rparr>)" "vr_view vr = vr_view (w_vr w)"
    using check_tail_ext [of True r w] by auto
qed

lemma append_position_some:
  assumes w: "wok w" and v: "vr_view (w_vr w) = Some v" and r: "vv_seq v = Some r"
    and pos: "\<forall>q e. pos = Some (q, e) \<longrightarrow> 0 < e"
  shows "append_position r pos (w_vr w) \<noteq> None"
proof -
  have "r < length (vr_seqs (w_vr w))" "\<forall>sq\<in>set (vr_seqs (w_vr w)). 0 < sq_epoch sq"
    using w v r by (auto simp: world_ok_def vr_wf_def)
  then have "0 < sq_epoch (vr_seqs (w_vr w) ! r)" by simp
  then show ?thesis
    using pos by (auto simp: append_position_def Let_def split: option.split prod.split)
qed

lemma append_position_epoch: "append_position r pos vr = Some ((p, e), vr') \<Longrightarrow> 0 < e"
  by (auto simp: append_position_def Let_def split: if_splits prod.splits)

lemma append_run_result:
  assumes o: "stripe_options_ok opts"
  shows "append_run n m codec lb opts d pos w = Some (r, w') \<Longrightarrow> \<forall>q e. pos = Some (q, e) \<longrightarrow> 0 < e \<Longrightarrow>
    ext w w' \<and> hap (append_answer at d r) w w'"
proof (induction n arbitrary: w pos)
  case (Suc n)
  obtain cv w1 where cv: "current_view codec lb w = (cv, w1)" by force
  note c = current_view_ext [OF cv]
  have e1: "ext w w1" using c by blast
  have stop: "ext w w' \<and> hap (append_answer at d r) w w'" if "w' = w1" "wok w1 \<Longrightarrow> r = Inl EIO"
    using hap_end [OF e1 ext_refl, of "append_answer at d r"] e1 that by (auto simp: append_answer_def)
  show ?case
  proof (cases "\<exists>v sr. cv = Some v \<and> vv_seq v = Some sr")
    case False
    then show ?thesis
      using Suc.prems(1) cv c by (intro stop) (auto simp: world_ok_def split: option.splits)
  next
    case True
    then obtain v sr where v: "cv = Some v" and sr: "vv_seq v = Some sr" by blast
    have vv: "vr_view (w_vr w1) = Some v" using c v by simp
    show ?thesis
    proof (cases "append_position sr pos (w_vr w1)")
      case None
      then show ?thesis
        using Suc.prems append_position_some [OF _ vv sr, of pos] by (intro stop) (auto simp: cv v sr)
    next
      case (Some x)
      obtain p pe vr where x: "x = ((p, pe), vr)" by (metis prod.collapse)
      note ap = Some [unfolded x]
      have e2: "ext w1 (w1\<lparr>w_vr := vr\<rparr>)" by (rule append_position_ext [OF ap])
      have pe: "\<forall>q e. Some (p, pe) = Some (q, e) \<longrightarrow> 0 < e" using append_position_epoch [OF ap] by simp
      let ?G = "\<lambda>w2. w2\<lparr>w_stats := (w_stats w2)\<lparr>append_expand_view := append_expand_view (w_stats w2) + 1\<rparr>\<rparr>"
      let ?K = "\<lambda>w4. append_run n m codec lb opts d (Some (p, pe)) w4"
      let ?F = "\<lambda>oid w2. case append_write n m codec lb opts oid d (vv_epoch v) p w2 of
            None \<Rightarrow> None
          | Some (AReturn (Inl e), w3) \<Rightarrow> Some (Inl e, w3)
          | Some (AReturn (Inr _), w3) \<Rightarrow> Some (Inr p, w3)
          | Some (ANewPosition, w3) \<Rightarrow> append_run n m codec lb opts d None w3
          | Some (_, w3) \<Rightarrow> ?K w3"
      show ?thesis
      proof (rule map_step [OF o e1 vv e2, where G = ?G and K = ?K and F = ?F and p = p and m = m])
        show "ext w3 (?G w3)" for w3 by (rule ext_stats)
        show "(case vm_map (vv_view v) p (w1\<lparr>w_vr := vr\<rparr>) of
            (Inl e, w3) \<Rightarrow> Some (Inl e, w3)
          | (Inr None, w3) \<Rightarrow>
              (case try_expand_view m codec lb opts p (?G w3) of
                 None \<Rightarrow> None
               | Some (Inl e, w4) \<Rightarrow> Some (Inl e, w4)
               | Some (Inr _, w4) \<Rightarrow> ?K w4)
          | (Inr (Some oid), w3) \<Rightarrow> ?F oid w3) = Some (r, w')"
          using Suc.prems(1) unfolding append_run.simps Let_def by (simp add: cv v sr ap)
        show "ext w4 w' \<and> hap (append_answer at d r) w4 w'" if "?K w4 = Some (r, w')" for w4
          by (rule Suc.IH [OF that pe])
        show "append_answer at d r s s'" if "r = Inl e" "e \<in> {EINVAL, ESHUTDOWN}" for e s s'
          using that by (auto simp: append_answer_def)
      next
        fix oid w3
        assume e3: "ext w1 w3" and oid: "wok w1 \<Longrightarrow> slot_oid (vv_view v) p = Some oid"
          and F: "?F oid w3 = Some (r, w')"
        obtain nx w4 where aw: "append_write n m codec lb opts oid d (vv_epoch v) p w3 = Some (nx, w4)"
          using F by (cases "append_write n m codec lb opts oid d (vv_epoch v) p w3") auto
        note a = append_write_result [OF e1 vv oid aw e3]
        have e4: "ext w w4" using ext_trans [OF e1] a by blast
        show "ext w w' \<and> hap (append_answer at d r) w w'"
        proof (cases nx)
          case (AReturn ar)
          have w': "w' = w4" "ar = Inr () \<Longrightarrow> r = Inr p" using F aw AReturn by (auto split: sum.splits)
          have "hap (append_answer at d r) w w4"
            by (rule hap_mono [where P = "\<lambda>s s'. ar = Inr () \<and> at s p = None \<and> at s' p = Some (Data d)"])
              (use a AReturn w'(2) in \<open>auto simp: append_answer_def\<close>)
          then show ?thesis using e4 w'(1) by simp
        next
          case ANewPosition
          then show ?thesis using F aw by (intro hap_next [OF e4 Suc.IH [where pos = None]]) simp_all
        qed (use F aw pe in \<open>auto intro!: hap_next [OF e4 Suc.IH]\<close>)
      qed
    qed
  qed
qed simp

lemma tail_run_result:
  assumes "tail_run codec lb inc w = (r, w')"
  shows "ext w w'" and "tried_ok w' \<Longrightarrow> wok w \<Longrightarrow> r \<noteq> Inl Aborted"
proof -
  obtain cv w1 where cv: "current_view codec lb w = (cv, w1)" by force
  note c = current_view_ext [OF cv]
  have "ext w1 w' \<and> (cv \<noteq> None \<longrightarrow> r \<noteq> Inl Aborted)"
    using assms check_tail_ext(1) by (auto simp: tail_run_def cv split: option.splits prod.splits)
  moreover have "cv \<noteq> None" if "tried_ok w1" "wok w"
    using c extD(2) [OF conjunct1 [OF c] that] by (simp add: world_ok_def)
  ultimately show "ext w w'" "tried_ok w' \<Longrightarrow> wok w \<Longrightarrow> r \<noteq> Inl Aborted"
    using c ext_trans extD(1) by blast+
qed

end

end
