(* ===== verification/Log_Open.thy ===== *)
theory Log_Open
  imports Log_Ops
begin

text \<open>
  Opening a log, \<^verbatim>\<open>libzlog/log.cc\<close>: \<^verbatim>\<open>create_or_open\<close>, \<^verbatim>\<open>build_log_impl\<close>, \<^verbatim>\<open>Log::Open\<close> and
  \<^verbatim>\<open>Log::OpenReadOnly\<close>; and the public calls of \<^verbatim>\<open>LogImpl\<close> and \<^verbatim>\<open>ReadOnlyLogImpl\<close> in \<^verbatim>\<open>libzlog/log_impl.h\<close> and
  \<^verbatim>\<open>libzlog/log_impl.cc\<close>. \<open>env\<close> holds what other clients do to the storage just before each call of
  the open loop; \<open>load\<close> is what \<^verbatim>\<open>Backend::Load\<close> gives when the options carry no backend, \<open>host\<close> the
  name of the host, \<open>n\<close> the fuel of the loops.
\<close>

datatype log_class = LogImpl | ReadOnlyLogImpl

record 's log =
  l_class :: log_class
  l_backend :: "'s log_backend"
  l_name :: string
  l_options :: options
  l_shutdown :: bool
  l_world :: "'s world"

definition disturb :: "('s \<Rightarrow> 's) list \<Rightarrow> 's \<Rightarrow> 's \<times> ('s \<Rightarrow> 's) list" where
  "disturb env s = (case env of [] \<Rightarrow> (s, []) | f # rest \<Rightarrow> (f s, rest))"

text \<open>The loop of \<^verbatim>\<open>create_or_open\<close>: the names of the log, whether this client created it, and the rest of
  the interference.\<close>

fun open_loop ::
  "nat \<Rightarrow> ('s \<Rightarrow> 's) list \<Rightarrow> view_codec \<Rightarrow> 's backend_ops \<Rightarrow> options \<Rightarrow> string \<Rightarrow> 's
   \<Rightarrow> ((string \<times> string \<times> bool) ret \<times> ('s \<Rightarrow> 's) list \<times> 's) option" where
  "open_loop 0 env codec be opts name s = None"
| "open_loop (Suc n) env codec be opts name s =
     (let (s1, env1) = disturb env s
      in case b_OpenLog be name s1 of
           Inr (hoid, prefix) \<Rightarrow>
             if error_if_exists opts then Some (Inl EEXIST, env1, s1)
             else Some (Inr (hoid, prefix, False), env1, s1)
         | Inl ret \<Rightarrow>
             if ret \<noteq> ENOENT then Some (Inl ret, env1, s1)
             else if \<not> create_if_missing opts then Some (Inl ENOENT, env1, s1)
             else
               (case create_initial codec opts of
                  None \<Rightarrow> Some (Inl Aborted, env1, s1)
                | Some view \<Rightarrow>
                    let (s2, env2) = disturb env1 s1; (ret, s3) = b_CreateLog be name view s2
                    in case ret of
                         Inr (hoid, prefix) \<Rightarrow> Some (Inr (hoid, prefix, True), env2, s3)
                       | Inl e \<Rightarrow>
                           if e = EEXIST then
                             if error_if_exists opts then Some (Inl EEXIST, env2, s3)
                             else open_loop n env2 codec be opts name s3
                           else Some (Inl e, env2, s3)))"

definition client_token :: "string \<Rightarrow> string \<Rightarrow> string \<Rightarrow> u64 \<Rightarrow> string" where
  "client_token name hoid host unique_id =
     ''zlog.token.'' @ name @ ''.'' @ hoid @ ''.'' @ host @ ''.'' @ show_nat (unat unique_id)"

definition create_or_open ::
  "nat \<Rightarrow> ('s \<Rightarrow> 's) list \<Rightarrow> view_codec \<Rightarrow> 's backend_ops option \<Rightarrow> 's backend_ops ret \<Rightarrow> string
   \<Rightarrow> options \<Rightarrow> string \<Rightarrow> 's \<Rightarrow> (('s log_backend \<times> bool) ret \<times> 's) option" where
  "create_or_open n env codec be load host opts name s =
     (if name = '''' then Some (Inl EINVAL, s)
      else case (case be of Some b \<Rightarrow> Inr b | None \<Rightarrow> load) of
        Inl ret \<Rightarrow> Some (Inl ret, s)
      | Inr b \<Rightarrow>
          (case open_loop n env codec b opts name s of
             None \<Rightarrow> None
           | Some (Inl e, env1, s1) \<Rightarrow> Some (Inl e, s1)
           | Some (Inr (hoid, prefix, created), env1, s1) \<Rightarrow>
               let (s2, env2) = disturb env1 s1
               in case b_uniqueId b hoid s2 of
                    (Inl e, s3) \<Rightarrow> Some (Inl e, s3)
                  | (Inr unique_id, s3) \<Rightarrow>
                      (case log_backend_new b hoid prefix (client_token name hoid host unique_id) of
                         None \<Rightarrow> Some (Inl Aborted, s3)
                       | Some lb \<Rightarrow> Some (Inr (lb, created), s3))))"

definition stats_new :: log_stats where
  "stats_new =
     \<lparr>append_propose_sequencer = 0, append_expand_view = 0, append_seal = 0, append_stale_view = 0,
      append_read_only = 0\<rparr>"

text \<open>The new objects of \<^verbatim>\<open>build_log_impl\<close>. The early return after a failed \<^verbatim>\<open>propose_sequencer\<close> runs the
  destructor of the view manager, which asserts that it has been shut down. \<open>wenv\<close> is the
  interference from the creation of the view reader on, and beyond.\<close>

definition log_impl_new ::
  "log_class \<Rightarrow> 's log_backend \<Rightarrow> string \<Rightarrow> options \<Rightarrow> 's world \<Rightarrow> 's log option" where
  "log_impl_new cls lb name opts w =
     (if name = '''' then None
      else Some \<lparr>l_class = cls, l_backend = lb, l_name = name, l_options = opts, l_shutdown = False,
                 l_world = w\<lparr>w_stats := stats_new\<rparr>\<rparr>)"

definition build_log_impl ::
  "log_class \<Rightarrow> nat \<Rightarrow> ('s \<Rightarrow> 's) list \<Rightarrow> event list list \<Rightarrow> view_codec \<Rightarrow> 's backend_ops option
   \<Rightarrow> 's backend_ops ret \<Rightarrow> string \<Rightarrow> options \<Rightarrow> string \<Rightarrow> 's \<Rightarrow> ('s log ret \<times> 's) option" where
  "build_log_impl cls n env wenv codec be load host opts name s =
     (case create_or_open n env codec be load host opts name s of
        None \<Rightarrow> None
      | Some (Inl e, s1) \<Rightarrow> Some (Inl e, s1)
      | Some (Inr (lb, created), s1) \<Rightarrow>
          (case refresh_view codec lb s1 (view_reader_new opts) of
             None \<Rightarrow> Some (Inl Aborted, s1)
           | Some vr \<Rightarrow>
               if vr_view vr = None then Some (Inl EIO, s1)
               else case view_manager_new vr of
                 None \<Rightarrow> Some (Inl Aborted, s1)
               | Some vm \<Rightarrow>
                   let w = \<lparr>w_store = s1, w_env = wenv, w_vr = vr, w_vm = vm, w_stats = stats_new, w_tried = []\<rparr>
                   in case propose_sequencer n codec lb opts w of
                        None \<Rightarrow> None
                      | Some (Inl e, w1) \<Rightarrow>
                          Some (case vm_destroy (w_vm w1) of None \<Rightarrow> Inl Aborted | Some _ \<Rightarrow> Inl e, w_store w1)
                      | Some (Inr _, w1) \<Rightarrow>
                          (case (if init_stripe_on_create opts \<and> created
                                 then (case current_view codec lb w1 of
                                         (None, w2) \<Rightarrow> (False, w2)
                                       | (Some v, w2) \<Rightarrow>
                                           (True, if om_empty (v_object_map (vv_view v)) then w2
                                                  else w2\<lparr>w_vm := async_init_stripe 0 (w_vm w2)\<rparr>))
                                 else (True, w1)) of
                             (False, w2) \<Rightarrow> Some (Inl Aborted, w_store w2)
                           | (True, w2) \<Rightarrow>
                               (case log_impl_new cls lb name opts w2 of
                                  None \<Rightarrow> Some (Inl Aborted, w_store w2)
                                | Some l \<Rightarrow> Some (Inr l, w_store w2)))))"

definition log_Open ::
  "nat \<Rightarrow> ('s \<Rightarrow> 's) list \<Rightarrow> event list list \<Rightarrow> view_codec \<Rightarrow> 's backend_ops option
   \<Rightarrow> 's backend_ops ret \<Rightarrow> string \<Rightarrow> options \<Rightarrow> string \<Rightarrow> 's \<Rightarrow> ('s log ret \<times> 's) option" where
  "log_Open n env wenv codec be load host opts name s =
     build_log_impl LogImpl n env wenv codec be load host opts name s"

definition log_OpenReadOnly ::
  "nat \<Rightarrow> ('s \<Rightarrow> 's) list \<Rightarrow> event list list \<Rightarrow> view_codec \<Rightarrow> 's backend_ops option
   \<Rightarrow> 's backend_ops ret \<Rightarrow> string \<Rightarrow> options \<Rightarrow> string \<Rightarrow> 's \<Rightarrow> ('s log ret \<times> 's) option" where
  "log_OpenReadOnly n env wenv codec be load host opts name s =
     build_log_impl LogImpl n env wenv codec be load host opts name s"

section \<open>The public calls\<close>

text \<open>A queued operation reaches a finisher thread, which runs it, or answers \<^verbatim>\<open>-ESHUTDOWN\<close> once the log
  is being destroyed; the caller waits for the callback and passes its return code on. The result is
  stored only when the code is 0.\<close>

definition run_op ::
  "('s world \<Rightarrow> ('a ret \<times> 's world) option) \<Rightarrow> 's log \<Rightarrow> ('a ret \<times> 's log) option" where
  "run_op run l =
     (if l_shutdown l then Some (Inl ESHUTDOWN, l)
      else map_option (\<lambda>(ret, w). (ret, l\<lparr>l_world := w\<rparr>)) (run (l_world l)))"

definition log_CheckTail :: "view_codec \<Rightarrow> 's log \<Rightarrow> (u64 ret \<times> 's log) option" where
  "log_CheckTail codec l = run_op (\<lambda>w. Some (tail_run codec (l_backend l) False w)) l"

definition log_Read :: "nat \<Rightarrow> nat \<Rightarrow> view_codec \<Rightarrow> u64 \<Rightarrow> 's log \<Rightarrow> (string ret \<times> 's log) option" where
  "log_Read n m codec position l = run_op (read_run n m codec (l_backend l) (l_options l) position) l"

definition log_Append :: "nat \<Rightarrow> nat \<Rightarrow> view_codec \<Rightarrow> string \<Rightarrow> 's log \<Rightarrow> (u64 ret \<times> 's log) option" where
  "log_Append n m codec data l =
     (case l_class l of
        ReadOnlyLogImpl \<Rightarrow> Some (Inl EROFS, l)
      | LogImpl \<Rightarrow> run_op (append_run n m codec (l_backend l) (l_options l) data None) l)"

definition log_Fill :: "nat \<Rightarrow> nat \<Rightarrow> view_codec \<Rightarrow> u64 \<Rightarrow> 's log \<Rightarrow> (unit ret \<times> 's log) option" where
  "log_Fill n m codec position l =
     (case l_class l of
        ReadOnlyLogImpl \<Rightarrow> Some (Inl EROFS, l)
      | LogImpl \<Rightarrow> run_op (fill_run n m codec (l_backend l) (l_options l) position) l)"

definition log_Trim :: "nat \<Rightarrow> nat \<Rightarrow> view_codec \<Rightarrow> u64 \<Rightarrow> 's log \<Rightarrow> (unit ret \<times> 's log) option" where
  "log_Trim n m codec position l =
     (case l_class l of
        ReadOnlyLogImpl \<Rightarrow> Some (Inl EROFS, l)
      | LogImpl \<Rightarrow> run_op (trim_run n m codec (l_backend l) (l_options l) position) l)"

definition log_trimTo :: "nat \<Rightarrow> nat \<Rightarrow> view_codec \<Rightarrow> u64 \<Rightarrow> 's log \<Rightarrow> (unit ret \<times> 's log) option" where
  "log_trimTo n m codec position l =
     (case l_class l of
        ReadOnlyLogImpl \<Rightarrow> Some (Inl EROFS, l)
      | LogImpl \<Rightarrow> run_op (trim_to_run n m codec (l_backend l) (l_options l) position) l)"

definition log_destroy :: "'s log \<Rightarrow> 's log" where
  "log_destroy l = l\<lparr>l_shutdown := True, l_world := vm_do_shutdown (l_world l)\<rparr>"

end
