(* ===== verification/Log_Liveness.thy ===== *)
theory Log_Liveness
  imports Append_Results Log_Open
begin

text \<open>
  What the operations achieve when nothing interferes (\<open>w_env\<close> is empty) and the client has not been
  shut down: waits end, proposals win, and the fuel that is enough is named.
\<close>

text \<open>Waiter numbers are handed out once.\<close>

definition waiters_ok :: "view_reader \<Rightarrow> bool" where
  "waiters_ok vr \<longleftrightarrow> (\<forall>i\<in>set (vr_done vr) \<union> fst ` set (vr_waiters vr). i < vr_next_waiter vr)"

definition quiet :: "'s world \<Rightarrow> bool" where
  "quiet w \<longleftrightarrow> w_env w = [] \<and> \<not> vr_shutdown (w_vr w) \<and> waiters_ok (w_vr w)"

lemma quiet_interfere [simp]: "w_env w = [] \<Longrightarrow> interfere codec lb w = w"
  by (simp add: interfere_def)

lemma quiet_current_view [simp]: "w_env w = [] \<Longrightarrow> current_view codec lb w = (vr_view (w_vr w), w)"
  by (simp add: current_view_def)

lemma refresh_wait_quiet:
  assumes "refresh_wait opts t vr = (vr', st)" and "\<not> vr_shutdown vr"
  shows "\<not> st" and "vr_view vr' = vr_view vr" and "vr_seqs vr' = vr_seqs vr" and "vr_waiters vr' = vr_waiters vr"
    and "vr_done vr' = vr_done vr" and "vr_next_waiter vr' = vr_next_waiter vr" and "\<not> vr_shutdown vr'"
  using assms by (auto simp: refresh_wait_def Let_def split: if_splits)

text \<open>The cached view is the newest one.\<close>

definition up_to_date :: "view list \<Rightarrow> versioned_view \<Rightarrow> bool" where
  "up_to_date hs v \<longleftrightarrow> unat (vv_epoch v) = length hs \<and> vv_view v = last hs"

text \<open>The cached view is the newest one and maps \<open>p\<close> to an object that exists and is not fenced off.\<close>

definition served ::
  "('s \<Rightarrow> string \<Rightarrow> aobj option) \<Rightarrow> 's log_backend \<Rightarrow> view list \<Rightarrow> u64 \<Rightarrow> 's world \<Rightarrow> bool" where
  "served obj lb hs p w \<longleftrightarrow> (\<exists>v oid x. vr_view (w_vr w) = Some v \<and> up_to_date hs v \<and> slot_oid (vv_view v) p = Some oid
     \<and> obj (w_store w) (prefixed_oid lb oid) = Some x \<and> unat (ao_epoch x) \<le> length hs)"

text \<open>The client holds the newest view and is its sequencer, at position \<open>k\<close>; no object holds anything at or
  above \<open>k\<close>, and none is fenced off.\<close>

definition appender ::
  "('s \<Rightarrow> string \<Rightarrow> aobj option) \<Rightarrow> 's log_backend \<Rightarrow> view list \<Rightarrow> u64 \<Rightarrow> 's world \<Rightarrow> bool" where
  "appender obj lb hs k w \<longleftrightarrow> (\<exists>v r. vr_view (w_vr w) = Some v \<and> up_to_date hs v \<and> vv_seq v = Some r
       \<and> sq_position (vr_seqs (w_vr w) ! r) = k)
     \<and> (\<forall>oid x. obj (w_store w) (prefixed_oid lb oid) = Some x \<longrightarrow>
          unat (ao_epoch x) \<le> length hs \<and> (\<forall>q\<ge>k. ao_get x q = None))"

text \<open>A caller that appends one entry after the other.\<close>

fun append_all ::
  "nat \<Rightarrow> nat \<Rightarrow> view_codec \<Rightarrow> 's log_backend \<Rightarrow> options \<Rightarrow> string list \<Rightarrow> 's world \<Rightarrow> (u64 list \<times> 's world) option" where
  "append_all n m codec lb opts [] w = Some ([], w)"
| "append_all n m codec lb opts (d # ds) w =
     (case append_run n m codec lb opts d None w of
        Some (Inr p, w1) \<Rightarrow> map_option (\<lambda>(ps, w2). (p # ps, w2)) (append_all n m codec lb opts ds w1)
      | _ \<Rightarrow> None)"

text \<open>As long as the configuration of the sequencer does not change, the client keeps its sequencer; the
  first configuration that names the client gives it a sequencer at the configured position.\<close>

definition keeps_seq :: "view_reader \<Rightarrow> view_reader \<Rightarrow> bool" where
  "keeps_seq vr vr' \<longleftrightarrow> (\<forall>v v'. vr_view vr = Some v \<longrightarrow> vr_view vr' = Some v' \<longrightarrow>
     v_seq_config (vv_view v') = v_seq_config (vv_view v) \<longrightarrow>
     vv_seq v' = vv_seq v \<and> vr_seqs vr' = vr_seqs vr)
   \<and> (\<forall>v v' c r. vr_view vr = Some v \<longrightarrow> vr_view vr' = Some v' \<longrightarrow> v_seq_config (vv_view v) = None \<longrightarrow>
     v_seq_config (vv_view v') = Some c \<longrightarrow> vv_seq v' = Some r \<longrightarrow>
     vr_seqs vr' ! r = \<lparr>sq_epoch = vv_epoch v', sq_position = sc_position c\<rparr>)"

lemma keeps_seq_cong:
  "vr_view a = vr_view a' \<Longrightarrow> vr_seqs a = vr_seqs a' \<Longrightarrow> vr_view b = vr_view b' \<Longrightarrow> vr_seqs b = vr_seqs b' \<Longrightarrow>
   keeps_seq a b \<longleftrightarrow> keeps_seq a' b'"
  by (simp only: keeps_seq_def)

lemma refresh_view_keeps_seq:
  assumes "refresh_view codec lb s vr = Some vr'" and "vr_wf (lb_token lb) vr"
  shows "keeps_seq vr vr'"
proof -
  consider "vr' = vr" | latest v vr1 where "vv_seq latest = None"
      "attach_sequencer (lb_token lb) latest vr = Some (v, vr1)" "vr' = vr1\<lparr>vr_view := Some v\<rparr>"
  proof -
    note concl = that
    obtain l where "get_latest_view codec lb s = Some l"
      using assms(1) by (auto simp: refresh_view_def Option.bind_eq_Some_conv)
    then show ?thesis
      using assms(1) concl
      by (cases l; cases "vr_view vr") (auto simp: refresh_view_def split: if_splits)
  qed
  then show ?thesis
  proof cases
    case 1
    then show ?thesis by (simp add: keeps_seq_def)
  next
    case 2
    then show ?thesis
      using assms(2)
      by (auto simp: keeps_seq_def attach_sequencer_def vr_wf_def split: option.splits if_splits)
  qed
qed

context log_client
begin

lemma refresh_step_quiet:
  assumes w: "wok w" and q: "quiet w"
  shows "\<exists>vr v. refresh_step codec lb opts t (w_store w) (w_vr w) = Some (vr, False) \<and> vr_view vr = Some v
    \<and> keeps_seq (w_vr w) vr
    \<and> up_to_date (hist (w_store w)) v \<and> wok (w\<lparr>w_vr := vr\<rparr>) \<and> quiet (w\<lparr>w_vr := vr\<rparr>)
    \<and> (\<forall>i e. (i, e) \<in> set (vr_waiters (w_vr w)) \<longrightarrow> unat e < length (hist (w_store w)) \<longrightarrow> i \<in> set (vr_done vr))"
proof -
  obtain vr1 st where rw: "refresh_wait opts t (w_vr w) = (vr1, st)" by force
  have sh: "\<not> vr_shutdown (w_vr w)" using q by (simp add: quiet_def)
  note r1 = refresh_wait_quiet [OF rw sh]
  have "ok (w_store w)" "vr_wf (lb_token lb) vr1" "vr_cached (hist (w_store w)) vr1"
    using w vr_wf_cong [OF r1(2,3)] vr_cached_cong [OF r1(2)] by (simp_all add: world_ok_def)
  then obtain vr2 v sq where r2: "refresh_view codec lb (w_store w) vr1 = Some vr2"
      "vr2 = vr1\<lparr>vr_seqs := vr_seqs vr1 @ sq, vr_view := Some v\<rparr>"
      "unat (vv_epoch v) = length (hist (w_store w))" "vv_view v = last (hist (w_store w))"
      "vr_wf (lb_token lb) vr2" "vr_cached (hist (w_store w)) vr2"
    using refresh_view_ok by metis
  let ?vr = "refresh_notify vr2"
  have step: "refresh_step codec lb opts t (w_store w) (w_vr w) = Some (?vr, False)"
    using rw r1(1) r2(1) by (simp add: refresh_step_def)
  have n: "vr_view ?vr = Some v" "vr_seqs ?vr = vr_seqs vr2" "\<not> vr_shutdown ?vr" "waiters_ok ?vr"
    "\<forall>i e. (i, e) \<in> set (vr_waiters (w_vr w)) \<longrightarrow> e < vv_epoch v \<longrightarrow> i \<in> set (vr_done ?vr)"
    using q r1 by (auto simp: refresh_notify_def r2(2) quiet_def waiters_ok_def image_iff)
  have same: "vr_view ?vr = vr_view vr2" using n(1) r2(2) by simp
  have "keeps_seq vr1 vr2"
    by (rule refresh_view_keeps_seq [OF r2(1)]) (use w vr_wf_cong [OF r1(2,3)] in \<open>simp add: world_ok_def\<close>)
  then have ks: "keeps_seq (w_vr w) ?vr" using keeps_seq_cong [OF r1(2,3) same [symmetric] n(2) [symmetric]] by blast
  have "wok (w\<lparr>w_vr := ?vr\<rparr>)"
    using w r2 n(1) vr_wf_cong [OF same n(2)] vr_cached_cong [OF same] by (simp add: world_ok_def)
  then show ?thesis
    using step n r2(3,4) q ks
    by (intro exI [of _ ?vr] exI [of _ v]) (simp add: quiet_def up_to_date_def word_less_nat_alt)
qed

text \<open>Waiting for a view newer than an epoch that is not the newest ends in the second round.\<close>

lemma update_quiet:
  assumes w: "wok w" and q: "quiet w" and e: "unat e < length (hist (w_store w))"
  shows "\<exists>vr v. update_current_view (Suc (Suc n)) codec lb opts e b w = Some (Inr (), w\<lparr>w_vr := vr\<rparr>)
    \<and> vr_view vr = Some v \<and> keeps_seq (w_vr w) vr \<and> up_to_date (hist (w_store w)) v \<and> wok (w\<lparr>w_vr := vr\<rparr>) \<and> quiet (w\<lparr>w_vr := vr\<rparr>)"
proof -
  let ?i = "vr_next_waiter (w_vr w)"
  obtain vr1 where wf: "wait_for_newer_view opts e b (w_vr w) = (Some ?i, vr1)"
      and r1: "vr_view vr1 = vr_view (w_vr w)" "vr_seqs vr1 = vr_seqs (w_vr w)" "vr_done vr1 = vr_done (w_vr w)"
        "vr_waiters vr1 = vr_waiters (w_vr w) @ [(?i, e)]" "vr_next_waiter vr1 = Suc ?i" "\<not> vr_shutdown vr1"
    using q by (auto simp: wait_for_newer_view_def Let_def quiet_def split: if_splits)
  let ?w = "w\<lparr>w_vr := vr1\<rparr>"
  have w1: "wok ?w" using w vr_wf_cong [OF r1(1,2)] vr_cached_cong [OF r1(1)] r1(1) by (simp add: world_ok_def)
  have q1: "quiet ?w" and i: "?i \<notin> set (vr_done vr1)"
    using q r1 by (auto simp: quiet_def waiters_ok_def less_Suc_eq)
  obtain vr v where r: "refresh_step codec lb opts False (w_store w) vr1 = Some (vr, False)" "vr_view vr = Some v"
      "keeps_seq vr1 vr"
      "up_to_date (hist (w_store w)) v" "wok (w\<lparr>w_vr := vr\<rparr>)" "quiet (w\<lparr>w_vr := vr\<rparr>)" "?i \<in> set (vr_done vr)"
    using refresh_step_quiet [OF w1 q1, of opts False] e r1(4) by auto
  have "wait_done (Suc (Suc n)) False codec lb opts ?i ?w = Some (Inr (), w\<lparr>w_vr := vr\<rparr>)"
    using q1 i r by (simp add: quiet_def)
  moreover have "keeps_seq (w_vr w) vr" using r(3) keeps_seq_cong [OF r1(1,2) refl refl] by blast
  ultimately show ?thesis
    using wf r by (intro exI [of _ vr] exI [of _ v]) (simp add: update_current_view_def)
qed

lemma up_to_date_held: "wok w \<Longrightarrow> vr_view (w_vr w) = Some v \<Longrightarrow> up_to_date (hist (w_store w)) v \<Longrightarrow>
    view_wf (vv_view v) \<and> om_aligned (v_object_map (vv_view v))"
  using held_view(2,3) [OF wok_ok] current_view_held by blast

text \<open>The proposal of a client that knows the newest view is accepted, and the client then sees it.\<close>

lemma propose_quiet:
  assumes w: "wok w" and q: "quiet w" and v: "vr_view (w_vr w) = Some v" "up_to_date (hist (w_store w)) v"
    and b: "length (hist (w_store w)) + 1 < 2 ^ 64"
    and nv: "view_wf nv" "om_aligned (v_object_map nv)" "om_le (v_object_map (vv_view v)) (v_object_map nv)"
      "view_encode codec nv = Some data"
  shows "\<exists>s vr v'. vm_ProposeView codec lb (vv_epoch v + 1) data w = (Inr (), w\<lparr>w_store := s\<rparr>)
    \<and> update_current_view (Suc (Suc n)) codec lb opts (vv_epoch v) True (w\<lparr>w_store := s\<rparr>)
        = Some (Inr (), w\<lparr>w_store := s, w_vr := vr\<rparr>)
    \<and> obj s = obj (w_store w) \<and> hist s = hist (w_store w) @ [nv] \<and> vr_view vr = Some v' \<and> up_to_date (hist s) v'
    \<and> keeps_seq (w_vr w) vr
    \<and> wok (w\<lparr>w_store := s, w_vr := vr\<rparr>) \<and> quiet (w\<lparr>w_store := s, w_vr := vr\<rparr>)"
proof -
  let ?e = "vv_epoch v + 1" and ?s = "w_store w"
  note ok = wok_ok [OF w]
  obtain vs where vs: "views ?s (lb_hoid lb) = Some vs" "length vs = length (hist ?s)"
    using okD(5) [OF ok] by blast
  have len: "unat (vv_epoch v) = length (hist ?s)" using v(2) by (simp add: up_to_date_def)
  then have "of_nat (length (hist ?s)) = vv_epoch v" by (metis of_nat_unat_u64)
  then have req: "?e = of_nat (length vs) + 1" using vs(2) by simp
  have "unat ?e = length (hist ?s) + 1" using len b by (simp add: unat_word_ariths)
  then have e0: "?e \<noteq> 0" by auto
  obtain r s where pr: "lb_ProposeView lb ?e data ?s = (r, s)" by force
  have "r = fst (a_propose ?e data vs)"
    using propose_ret [OF okD(1) [OF ok] vs(1), of ?e data] pr by (simp add: lb_defs)
  then have r: "r = Inr ()" using e0 req by (simp add: a_propose_def Let_def)
  have d: "view_decode codec data = Some nv" using view_encode_decode [OF codec nv(1)] nv(4) by (metis option.inject)
  have le: "om_le (v_object_map (last (hist ?s))) (v_object_map nv)" using nv(3) v(2) by (simp add: up_to_date_def)
  note pl = propose_log [OF ok nv(1,2) d le pr]
  have ob: "obj s = obj ?s" using propose_state [OF okD(1) [OF ok], of "lb_hoid lb" ?e data r s] pr by (simp add: lb_defs)
  have w1: "wok (w\<lparr>w_store := s\<rparr>)" using wok_store [OF w] pl(1) by blast
  have q1: "quiet (w\<lparr>w_store := s\<rparr>)" using q by (simp add: quiet_def)
  have h: "hist s = hist ?s @ [nv]" using pl(2) [OF r] by simp
  then have "unat (vv_epoch v) < length (hist (w_store (w\<lparr>w_store := s\<rparr>)))" using len by simp
  from update_quiet [OF w1 q1 this, of n opts True] show ?thesis
    using pr r ob h q by (intro exI [of _ s]) (auto simp: vm_ProposeView_def quiet_def)
qed

text \<open>Expanding the view.\<close>

lemma try_expand_quiet:
  assumes o: "stripe_options_ok opts" and w: "wok w" and q: "quiet w"
    and v: "vr_view (w_vr w) = Some v" "up_to_date (hist (w_store w)) v"
    and b: "length (hist (w_store w)) + 1 < 2 ^ 64"
    and p: "unat p < position_limit" "slot_oid (vv_view v) p = None"
  shows "\<exists>w' v'. try_expand_view (Suc (Suc n)) codec lb opts p w = Some (Inr (), w')
    \<and> wok w' \<and> quiet w' \<and> vr_view (w_vr w') = Some v' \<and> up_to_date (hist (w_store w')) v'
    \<and> slot_oid (vv_view v') p \<noteq> None \<and> obj (w_store w') = obj (w_store w)
    \<and> length (hist (w_store w')) = length (hist (w_store w)) + 1
    \<and> vv_seq v' = vv_seq v \<and> vr_seqs (w_vr w') = vr_seqs (w_vr w) \<and> w_tried w' = w_tried w @ [p]"
proof -
  let ?w = "w\<lparr>w_tried := w_tried w @ [p]\<rparr>"
  have w1: "wok ?w" "quiet ?w" using w q by (simp_all add: world_ok_def quiet_def)
  note wf = up_to_date_held [OF w v]
  have om: "om_wf (v_object_map (vv_view v))" using wf by (simp add: view_wf_def)
  have "om_locate (v_object_map (vv_view v)) (unat p) = None" using p(2) by (simp add: slot_oid_def)
  then have span: "om_span (v_object_map (vv_view v)) \<le> unat p" using om_locate_dom [OF om, of "unat p"] by auto
  obtain nv where nv: "view_expand_mapping (vv_view v) p opts = Some (Some nv)" "view_wf nv"
      "om_le (v_object_map (vv_view v)) (v_object_map nv)" "unat p < om_span (v_object_map nv)"
      "v_seq_config nv = v_seq_config (vv_view v)"
      "om_aligned (v_object_map (vv_view v)) \<longrightarrow> om_aligned (v_object_map nv)"
    using view_expand_some [OF conjunct1 [OF wf] span _ room_below_limit [OF conjunct1 [OF wf] disjI1 [OF o] p(1)]] o
    by metis
  obtain data where d: "view_encode codec nv = Some data" using view_encode_some [OF nv(2)] by blast
  obtain s vr v' where s: "vm_ProposeView codec lb (vv_epoch v + 1) data ?w = (Inr (), ?w\<lparr>w_store := s\<rparr>)"
      "update_current_view (Suc (Suc n)) codec lb opts (vv_epoch v) True (?w\<lparr>w_store := s\<rparr>)
        = Some (Inr (), ?w\<lparr>w_store := s, w_vr := vr\<rparr>)"
      "obj s = obj (w_store w)" "hist s = hist (w_store w) @ [nv]" "vr_view vr = Some v'" "up_to_date (hist s) v'"
      "keeps_seq (w_vr w) vr" "wok (?w\<lparr>w_store := s, w_vr := vr\<rparr>)" "quiet (?w\<lparr>w_store := s, w_vr := vr\<rparr>)"
    using propose_quiet [OF w1, of v nv data n opts] v b nv wf d by auto
  let ?w2 = "?w\<lparr>w_store := s, w_vr := vr\<rparr>"
  let ?w3 = "if init_stripe_on_create opts then ?w2\<lparr>w_vm := async_init_stripe p (w_vm ?w2)\<rparr> else ?w2"
  have "try_expand_attempt (Suc (Suc n)) codec lb opts p w = Some (Finished (Inr ()), ?w3)"
    using q v(1) nv(1) d s(1,2) by (simp add: try_expand_attempt_def quiet_def)
  then have t: "try_expand_view (Suc (Suc n)) codec lb opts p w = Some (Inr (), ?w3)"
    by (simp add: try_expand_view_def try_expand_loop.simps)
  have nv': "vv_view v' = nv" using s(4,6) by (simp add: up_to_date_def)
  have "slot_oid nv p \<noteq> None"
    using nv(2,4) om_locate_dom [of "v_object_map nv" "unat p"] by (simp add: slot_oid_def view_wf_def)
  moreover have "vv_seq v' = vv_seq v \<and> vr_seqs vr = vr_seqs (w_vr w)"
    using s(5,7) v(1) nv(5) nv' by (auto simp: keeps_seq_def)
  moreover have "wok ?w3" "quiet ?w3" using s(8,9) by (simp_all add: world_ok_def quiet_def)
  ultimately show ?thesis using t s(3-6) nv' by (intro exI [of _ ?w3] exI [of _ v']) simp
qed

text \<open>Writing to an object that no newer view has fenced off.\<close>

lemma append_write_quiet:
  assumes w: "wok w" and q: "w_env w = []" and v: "vv_view v \<in> set (hist (w_store w))" "vv_epoch v \<noteq> 0"
    and oid: "slot_oid (vv_view v) p = Some oid" and free: "at (w_store w) p = None"
    and e: "\<And>x. obj (w_store w) (prefixed_oid lb oid) = Some x \<Longrightarrow> ao_epoch x \<le> vv_epoch v"
  shows "\<exists>w' y. append_write (Suc (Suc n)) m codec lb opts oid d (vv_epoch v) p w = Some (AReturn (Inr ()), w')
    \<and> at (w_store w') p = Some (Data d) \<and> w_tried w' = w_tried w \<and> w_vr w' = w_vr w \<and> w_env w' = []
    \<and> wok w' \<and> hist (w_store w') = hist (w_store w)
    \<and> obj (w_store w') = (obj (w_store w))(prefixed_oid lb oid \<mapsto> y) \<and> ao_epoch y \<le> vv_epoch v
    \<and> (\<forall>q. q \<noteq> p \<longrightarrow> ao_get y q = None \<or> (\<exists>x. obj (w_store w) (prefixed_oid lb oid) = Some x \<and> ao_get y q = ao_get x q))"
proof -
  let ?o = "prefixed_oid lb oid" and ?s = "w_store w" and ?e = "vv_epoch v"
  have done1: "\<exists>w' y. append_write (Suc k) m codec lb opts oid d ?e p w1 = Some (AReturn (Inr ()), w')
      \<and> at (w_store w') p = Some (Data d) \<and> w_tried w' = w_tried w1 \<and> w_vr w' = w_vr w1 \<and> w_env w' = []
      \<and> ok (w_store w') \<and> hist (w_store w') = hist (w_store w1)
      \<and> obj (w_store w') = (obj (w_store w1))(?o \<mapsto> y) \<and> ao_epoch y \<le> ?e \<and> (\<forall>q. q \<noteq> p \<longrightarrow> ao_get y q = ao_get x q)"
    if ok: "ok (w_store w1)" and q1: "w_env w1 = []" and h: "vv_view v \<in> set (hist (w_store w1))"
      and x: "obj (w_store w1) ?o = Some x" "ao_epoch x \<le> ?e" "ao_get x p = None" for k w1 x
  proof -
    obtain r s where wr: "lb_Write lb oid d ?e p (w_store w1) = (r, s)" by force
    have "r = Inr ()"
      using write_ret [OF okD(1) [OF ok], of ?o d ?e p] wr x v(2) by (simp add: lb_defs a_write_def a_guard_def)
    moreover have "\<exists>y. obj s = (obj (w_store w1))(?o \<mapsto> y) \<and> ao_epoch y \<le> ?e \<and> (\<forall>q. q \<noteq> p \<longrightarrow> ao_get y q = ao_get x q)"
      using write_state [OF okD(1) [OF ok], of ?o d ?e p r s] wr x v(2)
      by (intro exI [of _ "x\<lparr>ao_entries := (ao_entries x)(p \<mapsto> Data d)\<rparr>"])
        (simp add: lb_defs a_write_def a_guard_def ao_get_def split: if_splits)
    ultimately show ?thesis using wr q1 write_log(1,2) [OF ok h oid wr] by simp
  qed
  have wok: "wok w'" if "w_vr w' = w_vr w" "ok (w_store w')" "hist (w_store w') = hist ?s" for w'
    using that w by (simp add: world_ok_def)
  note ok = wok_ok [OF w]
  have at: "at ?s p = (case obj ?s ?o of None \<Rightarrow> None | Some x \<Rightarrow> ao_get x p)"
    by (rule at_slot [OF old_slot [OF ok v(1) oid]])
  show ?thesis
  proof (cases "obj ?s ?o")
    case (Some x)
    then obtain w' y where "append_write (Suc (Suc n)) m codec lb opts oid d ?e p w = Some (AReturn (Inr ()), w')"
        "at (w_store w') p = Some (Data d)" "w_tried w' = w_tried w" "w_vr w' = w_vr w" "w_env w' = []"
        "ok (w_store w')" "hist (w_store w') = hist ?s" "obj (w_store w') = (obj ?s)(?o \<mapsto> y)" "ao_epoch y \<le> ?e"
        "\<forall>q. q \<noteq> p \<longrightarrow> ao_get y q = ao_get x q"
      using done1 [OF ok q v(1) Some e [OF Some], of "Suc n"] at free by (auto simp del: append_write.simps)
    then show ?thesis using wok Some by (intro exI [of _ w'] exI [of _ y]) simp
  next
    case None
    obtain r s where wr: "lb_Write lb oid d ?e p ?s = (r, s)" by force
    have r: "r = Inl ENOENT"
      using write_ret [OF okD(1) [OF ok], of ?o d ?e p] wr None v(2) by (simp add: lb_defs a_write_def a_guard_def)
    note s = write_log(1) [OF ok v(1) oid wr]
    have os: "obj s = obj ?s"
      using write_state [OF okD(1) [OF ok], of ?o d ?e p r s] wr None v(2)
      by (auto simp: lb_defs a_write_def a_guard_def)
    obtain r2 s2 where se: "lb_Seal lb oid ?e s = (r2, s2)" by force
    have s': "ok s" using s by blast
    have r2: "r2 = Inr ()"
      using seal_ret [OF okD(1) [OF s'], of ?o ?e] se None os v(2) by (simp add: lb_defs a_seal_def)
    have o2: "obj s2 = (obj ?s)(?o \<mapsto> ao_init\<lparr>ao_epoch := ?e\<rparr>)"
      using seal_state [OF okD(1) [OF s'], of ?o ?e r2 s2] se None os v(2) by (simp add: lb_defs a_seal_def)
    note s2 = seal_log [OF s' se]
    let ?w2 = "w\<lparr>w_store := s, w_stats := (w_stats w)\<lparr>append_seal := append_seal (w_stats w) + 1\<rparr>, w_store := s2\<rparr>"
    have "append_write (Suc (Suc n)) m codec lb opts oid d ?e p w = append_write (Suc n) m codec lb opts oid d ?e p ?w2"
      using q wr r se r2 by (simp add: op_Seal_def Let_def del: append_write.simps(2) add: append_write.simps(2) [of "Suc n"])
    then obtain w' y where "append_write (Suc (Suc n)) m codec lb opts oid d ?e p w = Some (AReturn (Inr ()), w')"
        "at (w_store w') p = Some (Data d)" "w_tried w' = w_tried w" "w_vr w' = w_vr w" "w_env w' = []"
        "ok (w_store w')" "hist (w_store w') = hist ?s" "obj (w_store w') = (obj ?s)(?o \<mapsto> y)" "ao_epoch y \<le> ?e"
        "\<forall>q. q \<noteq> p \<longrightarrow> ao_get y q = None"
      using done1 [of ?w2 "ao_init\<lparr>ao_epoch := ?e\<rparr>" n] s s2 q v(1) o2
      by (auto simp del: append_write.simps simp: ao_init_def ao_get_def below_limit_def)
    then show ?thesis using wok by (intro exI [of _ w'] exI [of _ y]) simp
  qed
qed

lemma vm_map_quiet:
  assumes "vm_map v p w = (r, w')"
  shows "w_store w' = w_store w" and "w_env w' = w_env w" and "w_vr w' = w_vr w" and "w_tried w' = w_tried w"
  using assms by (auto simp: vm_map_def split: option.splits prod.splits bool.splits)

lemma append_position_wok:
  assumes "wok w" and "append_position r pos (w_vr w) = Some (pe, vr)"
  shows "wok (w\<lparr>w_vr := vr\<rparr>)"
proof -
  have "vr = w_vr w \<or> vr = snd (vr_check_tail True r (w_vr w))"
    using assms(2) by (auto simp: append_position_def Let_def split: option.splits prod.splits if_splits)
  then show ?thesis using assms(1) by (auto simp: world_ok_def)
qed

lemma append_mapped_quiet:
  assumes w: "wok w" and q: "quiet w" and v: "vr_view (w_vr w) = Some v" "up_to_date (hist (w_store w)) v"
    and sr: "vv_seq v = Some r" and pos: "append_position r pos (w_vr w) = Some ((p, pe), vr)"
    and oid: "slot_oid (vv_view v) p \<noteq> None" and tail: "p + 1 = sq_position (vr_seqs vr ! r)" "p < p + 1"
    and e: "\<forall>oid x. obj (w_store w) (prefixed_oid lb oid) = Some x \<longrightarrow>
      unat (ao_epoch x) \<le> length (hist (w_store w)) \<and> (\<forall>q\<ge>p. ao_get x q = None)"
  shows "\<exists>w'. append_run (Suc (Suc (Suc n))) m codec lb opts d pos w = Some (Inr p, w')
    \<and> at (w_store w') p = Some (Data d) \<and> w_tried w' = w_tried w
    \<and> wok w' \<and> quiet w' \<and> served obj lb (hist (w_store w')) p w' \<and> appender obj lb (hist (w_store w')) (p + 1) w'
    \<and> hist (w_store w') = hist (w_store w)"
proof -
  obtain oid where oid: "slot_oid (vv_view v) p = Some oid" using oid by blast
  have free: "at (w_store w) p = None" using e by (auto simp: log_at_def log_get_def split: option.split)
  note ok = wok_ok [OF w] and wf = up_to_date_held [OF w v]
  obtain mr w2 where m: "vm_map (vv_view v) p (w\<lparr>w_vr := vr\<rparr>) = (mr, w2)" by force
  note mq = vm_map_quiet [OF m]
  have mr: "mr = Inr (Some oid)" using vm_map_ret [OF conjunct1 [OF wf] m] oid by simp
  have "wok (w\<lparr>w_vr := vr\<rparr>)" by (rule append_position_wok [OF w pos])
  then have w2: "wok w2" using mq by (simp add: world_ok_def)
  have h: "vv_view v \<in> set (hist (w_store w2))" "vv_epoch v \<noteq> 0"
    using held_view(1) [OF ok current_view_held [OF w v(1)]] current_view_held [OF w v(1)] mq
    by (auto simp: view_held_def)
  have ex: "ao_epoch x \<le> vv_epoch v" if "obj (w_store w2) (prefixed_oid lb oid) = Some x" for x
    using e that mq v(2) by (simp add: up_to_date_def word_le_nat_alt)
  obtain w' y where w': "append_write (Suc (Suc n)) m codec lb opts oid d (vv_epoch v) p w2 = Some (AReturn (Inr ()), w')"
      "at (w_store w') p = Some (Data d)" "w_tried w' = w_tried w2" "w_vr w' = w_vr w2" "w_env w' = []" "wok w'"
      "hist (w_store w') = hist (w_store w2)" "obj (w_store w') = (obj (w_store w2))(prefixed_oid lb oid \<mapsto> y)"
      "ao_epoch y \<le> vv_epoch v" "\<forall>q. q \<noteq> p \<longrightarrow> ao_get y q = None
        \<or> (\<exists>x. obj (w_store w2) (prefixed_oid lb oid) = Some x \<and> ao_get y q = ao_get x q)"
    using append_write_quiet [OF w2 _ h oid _ ex, of n m opts d] q mq free by (auto simp: quiet_def)
  have "append_run (Suc (Suc (Suc n))) m codec lb opts d pos w = Some (Inr p, w')"
    unfolding append_run.simps using q v(1) sr pos m mr w'(1) by (simp add: quiet_def del: append_write.simps)
  moreover have vr: "vr = w_vr w \<or> vr = snd (vr_check_tail True r (w_vr w))"
    using pos by (auto simp: append_position_def Let_def split: option.splits prod.splits if_splits)
  have "w_vr w' = vr" using w'(4) mq(3) by simp
  then have "quiet w'"
    using w'(5) vr q by (elim disjE) (simp_all add: quiet_def waiters_ok_def vr_check_tail_def split: prod.split)
  moreover have "served obj lb (hist (w_store w')) p w'"
    using w'(4,7-9) mq vr v oid unfolding served_def
    by (intro exI [of _ v] exI [of _ oid] exI [of _ y]) (auto simp: up_to_date_def word_le_nat_alt)
  moreover have "appender obj lb (hist (w_store w')) (p + 1) w'"
    unfolding appender_def
  proof (intro conjI exI [of _ v] exI [of _ r] allI impI)
    show "vr_view (w_vr w') = Some v" "vv_seq v = Some r" "up_to_date (hist (w_store w')) v"
      "sq_position (vr_seqs (w_vr w') ! r) = p + 1"
      using \<open>w_vr w' = vr\<close> vr v sr w'(7) mq(1) tail(1) by auto
  next
    fix o' x q assume x: "obj (w_store w') (prefixed_oid lb o') = Some x"
    have "unat (ao_epoch y) \<le> length (hist (w_store w))"
      using w'(9) v(2) by (simp add: up_to_date_def word_le_nat_alt)
    then show "unat (ao_epoch x) \<le> length (hist (w_store w'))" using x w'(7,8) mq(1) e by (auto split: if_splits)
    assume "p + 1 \<le> q"
    then have "p \<le> q" "q \<noteq> p" using tail(2) by auto
    then show "ao_get x q = None" using x w'(8,10) mq(1) e by (auto split: if_splits)
  qed
  ultimately show ?thesis using w'(2,3,6,7) mq by auto
qed

text \<open>An append in a quiet world: with fuel 4, and 2 for the wait, it returns the position of the
  sequencer, and the data is there.\<close>

lemma append_quiet:
  assumes o: "stripe_options_ok opts" and w: "wok w" and q: "quiet w" and a: "appender obj lb (hist (w_store w)) p w"
    and b: "length (hist (w_store w)) + 1 < 2 ^ 64" and p: "unat p < position_limit"
  shows "\<exists>w'. append_run (Suc (Suc (Suc (Suc n)))) (Suc (Suc m)) codec lb opts d None w = Some (Inr p, w')
    \<and> at (w_store w') p = Some (Data d) \<and> set (w_tried w') \<subseteq> insert p (set (w_tried w))
    \<and> wok w' \<and> quiet w' \<and> served obj lb (hist (w_store w')) p w' \<and> appender obj lb (hist (w_store w')) (p + 1) w'
    \<and> length (hist (w_store w')) \<le> length (hist (w_store w)) + 1"
proof -
  obtain v r where v: "vr_view (w_vr w) = Some v" "up_to_date (hist (w_store w)) v" and sr: "vv_seq v = Some r"
      and pr: "sq_position (vr_seqs (w_vr w) ! r) = p"
      and e: "\<forall>oid x. obj (w_store w) (prefixed_oid lb oid) = Some x \<longrightarrow>
        unat (ao_epoch x) \<le> length (hist (w_store w)) \<and> (\<forall>q\<ge>p. ao_get x q = None)"
    using a unfolding appender_def by blast
  let ?sq = "vr_seqs (w_vr w) ! r"
  have rl: "r < length (vr_seqs (w_vr w))" "0 < sq_epoch ?sq" using w v(1) sr by (auto simp: world_ok_def vr_wf_def)
  obtain vr where pos: "append_position r None (w_vr w) = Some ((p, sq_epoch ?sq), vr)"
    using rl pr by (auto simp: append_position_def vr_check_tail_def check_tail_def Let_def)
  have vr: "vr = snd (vr_check_tail True r (w_vr w))"
    using pos by (auto simp: append_position_def Let_def split: prod.splits if_splits)
  have vrv: "vr_view vr = Some v" "vr_seqs vr = (vr_seqs (w_vr w))[r := ?sq\<lparr>sq_position := p + 1\<rparr>]"
    using v(1) pr by (simp_all add: vr vr_check_tail_def check_tail_def)
  have tail: "p + 1 = sq_position (vr_seqs vr ! r)" "p < p + 1"
    using vrv(2) rl(1) p by (auto simp: word_less_nat_alt position_limit_def unat_word_ariths)
  show ?thesis
  proof (cases "slot_oid (vv_view v) p")
    case (Some oid)
    then show ?thesis using append_mapped_quiet [OF w q v sr pos _ tail e, of "Suc n" "Suc (Suc m)" opts d]
      by (auto simp del: append_run.simps)
  next
    case None
    obtain mr w2 where m: "vm_map (vv_view v) p (w\<lparr>w_vr := vr\<rparr>) = (mr, w2)" by force
    note mq = vm_map_quiet [OF m]
    have mr: "mr = Inr None" using vm_map_ret [OF _ m] up_to_date_held [OF w v] None by simp
    let ?w3 = "w2\<lparr>w_stats := (w_stats w2)\<lparr>append_expand_view := append_expand_view (w_stats w2) + 1\<rparr>\<rparr>"
    have w3: "wok ?w3" using append_position_wok [OF w pos] mq by (simp add: world_ok_def)
    have q3: "quiet ?w3" using q mq by (simp add: quiet_def vr waiters_ok_def vr_check_tail_def check_tail_def)
    obtain w4 v4 where t: "try_expand_view (Suc (Suc m)) codec lb opts p ?w3 = Some (Inr (), w4)"
        "wok w4" "quiet w4" "vr_view (w_vr w4) = Some v4" "up_to_date (hist (w_store w4)) v4"
        "slot_oid (vv_view v4) p \<noteq> None" "obj (w_store w4) = obj (w_store w)"
        "length (hist (w_store w4)) = length (hist (w_store w)) + 1"
        "vv_seq v4 = vv_seq v" "vr_seqs (w_vr w4) = vr_seqs vr" "w_tried w4 = w_tried w @ [p]"
      using try_expand_quiet [OF o w3 q3, of v p m] vrv v(2) b p None mq by auto
    let ?pos = "Some (p, sq_epoch ?sq)"
    have pos4: "append_position r ?pos (w_vr w4) = Some ((p, sq_epoch ?sq), w_vr w4)"
      using rl vrv(2) t(10) by (simp add: append_position_def Let_def)
    have e4: "\<forall>oid x. obj (w_store w4) (prefixed_oid lb oid) = Some x \<longrightarrow>
        unat (ao_epoch x) \<le> length (hist (w_store w4)) \<and> (\<forall>q\<ge>p. ao_get x q = None)"
      using e t(7,8) by fastforce
    have tail4: "p + 1 = sq_position (vr_seqs (w_vr w4) ! r)" using tail(1) t(10) by simp
    obtain w' where w': "append_run (Suc (Suc (Suc n))) (Suc (Suc m)) codec lb opts d ?pos w4 = Some (Inr p, w')"
        "at (w_store w') p = Some (Data d)" "w_tried w' = w_tried w4" "wok w'" "quiet w'"
        "served obj lb (hist (w_store w')) p w'" "appender obj lb (hist (w_store w')) (p + 1) w'"
        "hist (w_store w') = hist (w_store w4)"
      using append_mapped_quiet [OF t(2,3,4,5) _ pos4 t(6) tail4 tail(2) e4, where n = n and m = "Suc (Suc m)" and opts = opts and d = d] sr t(9)
      by (auto simp del: append_run.simps)
    have "append_run (Suc (Suc (Suc (Suc n)))) (Suc (Suc m)) codec lb opts d None w = Some (Inr p, w')"
      by (subst append_run.simps(2)) (use q v(1) sr pos m mr t(1) w'(1) in \<open>simp add: quiet_def Let_def del: append_run.simps\<close>)
    then show ?thesis using w'(2-8) t(8,11) by auto
  qed
qed

lemma append_all_quiet:
  assumes o: "stripe_options_ok opts"
  shows "wok w \<Longrightarrow> quiet w \<Longrightarrow> appender obj lb (hist (w_store w)) p w \<Longrightarrow>
    length (hist (w_store w)) + length ds < 2 ^ 64 \<Longrightarrow> unat p + length ds \<le> position_limit \<Longrightarrow>
    \<exists>w'. append_all (Suc (Suc (Suc (Suc n)))) (Suc (Suc m)) codec lb opts ds w
        = Some (map (\<lambda>i. p + of_nat i) [0..<length ds], w')
      \<and> wok w' \<and> quiet w' \<and> appender obj lb (hist (w_store w')) (p + of_nat (length ds)) w'"
proof (induction ds arbitrary: w p)
  case (Cons d ds)
  have b: "length (hist (w_store w)) + 1 < 2 ^ 64" "unat p < position_limit" using Cons.prems(4,5) by simp_all
  obtain w1 where a: "append_run (Suc (Suc (Suc (Suc n)))) (Suc (Suc m)) codec lb opts d None w = Some (Inr p, w1)"
      "wok w1" "quiet w1" "appender obj lb (hist (w_store w1)) (p + 1) w1"
      "length (hist (w_store w1)) \<le> length (hist (w_store w)) + 1"
    using append_quiet [OF o Cons.prems(1-3) b, of n m d] by (auto simp del: append_run.simps)
  have u: "unat (p + 1) = unat p + 1" using b(2) by (simp add: unat_word_ariths position_limit_def)
  obtain w' where w': "append_all (Suc (Suc (Suc (Suc n)))) (Suc (Suc m)) codec lb opts ds w1
        = Some (map (\<lambda>i. p + 1 + of_nat i) [0..<length ds], w')"
      "wok w'" "quiet w'" "appender obj lb (hist (w_store w')) (p + 1 + of_nat (length ds)) w'"
    using Cons.IH [OF a(2-4)] Cons.prems(4,5) a(5) u by (auto simp del: append_run.simps)
  have l: "p + of_nat (length (d # ds)) = p + 1 + of_nat (length ds)" by (simp add: ac_simps)
  have m: "map (\<lambda>i. p + of_nat i) [0..<length (d # ds)] = p # map (\<lambda>i. p + 1 + of_nat i) [0..<length ds]"
    by (rule nth_equalityI) (auto simp: nth_Cons ac_simps simp del: upt_Suc split: nat.split)
  show ?case
    unfolding m l append_all.simps a(1) using w' by (intro exI [of _ w']) simp
qed simp

section \<open>Becoming the sequencer\<close>

text \<open>Sealing in a quiet world never fails for good, and afterwards the objects exist.\<close>

lemma seal_objects_quiet:
  assumes "ok (w_store w)" and "w_env w = []" and "e \<noteq> 0"
  shows "\<exists>s. seal_objects codec lb e oids w = (Inr (), w\<lparr>w_store := s\<rparr>) \<and> ok s \<and> le (w_store w) s
    \<and> hist s = hist (w_store w) \<and> (\<forall>oid. obj (w_store w) oid \<noteq> None \<longrightarrow> obj s oid \<noteq> None)
    \<and> (\<forall>oid\<in>set oids. obj s (prefixed_oid lb oid) \<noteq> None)"
  using assms(1,2)
proof (induction oids arbitrary: w)
  case Nil
  then show ?case by (intro exI [of _ "w_store w"]) simp
next
  case (Cons oid oids)
  let ?o = "prefixed_oid lb oid" and ?s = "w_store w"
  obtain r s1 where se: "lb_Seal lb oid e ?s = (r, s1)" by force
  have r: "r = Inr () \<or> r = Inl ESPIPE"
    using seal_ret [OF okD(1) [OF Cons.prems(1)], of ?o e] se assms(3)
    by (auto simp: lb_defs a_seal_def split: option.splits if_splits)
  have s1: "obj s1 = (obj ?s)(?o := snd (a_seal ?o e (obj ?s ?o)))"
    using seal_state [OF okD(1) [OF Cons.prems(1)], of ?o e r s1] se by (simp add: lb_defs)
  then have o1: "\<forall>x. obj ?s x \<noteq> None \<longrightarrow> obj s1 x \<noteq> None" "obj s1 ?o \<noteq> None"
    using assms(3) by (auto simp: a_seal_def split: option.splits)
  note sl = seal_log [OF Cons.prems(1) se]
  let ?w = "w\<lparr>w_store := s1\<rparr>"
  obtain s where s: "seal_objects codec lb e oids ?w = (Inr (), ?w\<lparr>w_store := s\<rparr>)" "ok s" "le s1 s"
      "hist s = hist s1" "\<forall>x. obj s1 x \<noteq> None \<longrightarrow> obj s x \<noteq> None" "\<forall>x\<in>set oids. obj s (prefixed_oid lb x) \<noteq> None"
    using Cons.IH [of ?w] sl Cons.prems(2) by auto
  have "seal_objects codec lb e (oid # oids) w = (Inr (), w\<lparr>w_store := s\<rparr>)"
    using s(1) se r Cons.prems(2) by auto
  moreover have "le ?s s" by (rule log_le_trans [OF _ s(3)]) (use sl in blast)
  moreover have "\<forall>x. obj ?s x \<noteq> None \<longrightarrow> obj s x \<noteq> None" "obj s ?o \<noteq> None" using o1 s(5) by blast+
  ultimately show ?case using s sl by (intro exI [of _ s]) simp
qed

lemma max_objects_quiet:
  assumes "ok (w_store w)" and "w_env w = []"
  shows "\<forall>oid\<in>set oids. obj (w_store w) (prefixed_oid lb oid) \<noteq> None \<Longrightarrow>
    \<exists>m. max_objects codec lb acc oids w = (Inr m, w)"
proof (induction oids arbitrary: acc)
  case (Cons oid oids)
  then obtain x where "obj (w_store w) (prefixed_oid lb oid) = Some x" by auto
  then obtain m where "lb_MaxPos lb oid (w_store w) = Inr m"
    using maxpos_spec [OF okD(1) [OF assms(1)], of "prefixed_oid lb oid"]
    by (auto simp: lb_defs a_maxpos_ok_def split: sum.splits)
  then show ?case using Cons assms(2) by (cases m) auto
qed simp

lemma stripe_exists:
  assumes "om_wf om" and "i < om_ids om"
  shows "\<exists>st. om_stripe_by_id om (of_nat i) = Some st \<and> st_oids st \<noteq> []"
proof -
  note chain = om_wf_chain [OF assms(1)]
  have i: "unat (of_nat i :: u64) = i"
    using assms(2) chain(3) unat_u64_bound [of "next_stripe_id om"] by (simp add: om_ids_def unat_of_nat_u64)
  obtain j where j: "j < length (stripes_by_pos om)" "unat (ms_base_id (snd (stripes_by_pos om ! j))) \<le> i"
      "i < unat (ms_base_id (snd (stripes_by_pos om ! j))) + unat (ms_instances (snd (stripes_by_pos om ! j)))"
    using chain_find_id [OF chain(1), of i] assms(2) by (auto simp: om_ids_def)
  obtain st where "om_stripe_by_id om (of_nat i) = Some st"
      "st_oids st = make_oids (of_nat i) (ms_width (snd (stripes_by_pos om ! j)))"
    using om_stripe_by_id_some [OF assms(1) j(1), of "of_nat i"] j(2,3) i by metis
  moreover have "0 < unat (ms_width (snd (stripes_by_pos om ! j)))"
    using ms_chain_nth [OF chain(1) j(1)] by (auto simp: ms_asserts_def word_less_nat_alt)
  ultimately show ?thesis by (auto simp: make_oids_def)
qed

lemma scan_stripes_quiet:
  assumes "om_wf om" and "e \<noteq> 0"
  shows "ok (w_store w) \<Longrightarrow> w_env w = [] \<Longrightarrow> i \<le> om_ids om \<Longrightarrow>
    \<exists>m s. scan_stripes codec lb om e i w = (Inr m, w\<lparr>w_store := s\<rparr>) \<and> ok s \<and> le (w_store w) s
      \<and> hist s = hist (w_store w)"
proof (induction i arbitrary: w)
  case 0
  then show ?case by (intro exI [of _ None] exI [of _ "w_store w"]) simp
next
  case (Suc i)
  obtain st where st: "om_stripe_by_id om (of_nat i) = Some st" "st_oids st \<noteq> []"
    using stripe_exists [OF assms(1), of i] Suc.prems(3) by auto
  obtain s where s: "seal_objects codec lb e (st_oids st) w = (Inr (), w\<lparr>w_store := s\<rparr>)" "ok s" "le (w_store w) s"
      "hist s = hist (w_store w)" "\<forall>oid\<in>set (st_oids st). obj s (prefixed_oid lb oid) \<noteq> None"
    using seal_objects_quiet [OF Suc.prems(1,2) assms(2)] by blast
  let ?w = "w\<lparr>w_store := s\<rparr>"
  obtain m where m: "max_objects codec lb None (st_oids st) ?w = (Inr m, ?w)"
    using max_objects_quiet [of ?w "st_oids st" None] s(2,5) Suc.prems(2) by auto
  have se: "seal_stripe codec lb st e w = (Inr m, ?w)" using st(2) s(1) m by (simp add: seal_stripe_def)
  show ?case
  proof (cases m)
    case (Some x)
    then show ?thesis using st(1) se s by (intro exI [of _ m] exI [of _ s]) simp
  next
    case None
    obtain m' s' where "scan_stripes codec lb om e i ?w = (Inr m', ?w\<lparr>w_store := s'\<rparr>)" "ok s'" "le s s'" "hist s' = hist s"
      using Suc.IH [of ?w] s(2) Suc.prems(2,3) by auto
    then show ?thesis
      using st(1) se None s(4) log_le_trans [OF s(3)] by (intro exI [of _ m'] exI [of _ s']) simp
  qed
qed

text \<open>A client that knows the newest view becomes the sequencer at the first attempt.\<close>

lemma propose_sequencer_quiet:
  assumes t: "token_ok (lb_token lb)" and w: "wok w" and q: "quiet w"
    and v: "vr_view (w_vr w) = Some v" "up_to_date (hist (w_store w)) v"
    and b: "length (hist (w_store w)) + 1 < 2 ^ 64"
  shows "\<exists>w' v'. propose_sequencer (Suc (Suc n)) codec lb opts w = Some (Inr (), w') \<and> wok w' \<and> quiet w'
    \<and> w_tried w' = w_tried w \<and> w_vm w' = w_vm w
    \<and> vr_view (w_vr w') = Some v' \<and> up_to_date (hist (w_store w')) v' \<and> vv_seq v' \<noteq> None
    \<and> length (hist (w_store w')) = length (hist (w_store w)) + 1 \<and> keeps_seq (w_vr w) (w_vr w')
    \<and> (\<exists>m s. (if om_empty (v_object_map (vv_view v)) then (Inr None, w)
          else scan_stripes codec lb (v_object_map (vv_view v)) (vv_epoch v + 1)
            (unat (num_stripes (v_object_map (vv_view v)))) w) = (Inr m, w\<lparr>w_store := s\<rparr>)
        \<and> obj (w_store w') = obj s
        \<and> vv_view v' = with_sequencer_config (vv_view v) (sequencer_config lb (vv_epoch v + 1) m))"
proof -
  let ?om = "v_object_map (vv_view v)" and ?e = "vv_epoch v + 1"
  note ok = wok_ok [OF w] and wf = up_to_date_held [OF w v]
  have om: "om_wf ?om" using wf by (simp add: view_wf_def)
  have "unat ?e = length (hist (w_store w)) + 1" using v(2) b by (simp add: up_to_date_def unat_word_ariths)
  then have e: "?e \<noteq> 0" by auto
  have ids: "unat (num_stripes ?om) = om_ids ?om" using om_wf_chain(3) [OF om] by (simp add: num_stripes_def om_ids_def)
  have pos: "om_empty ?om \<or> 0 < num_stripes ?om"
  proof (rule disjCI)
    assume "\<not> 0 < num_stripes ?om"
    then have "chain_ids (stripes_by_pos ?om) = 0" using om_wf_chain(3) [OF om] by (simp add: num_stripes_def word_less_nat_alt)
    then show "om_empty ?om"
      using ms_chain_nth [OF om_wf_chain(1) [OF om], of 0]
      by (cases "stripes_by_pos ?om") (auto simp: om_empty_def ms_asserts_def word_less_nat_alt)
  qed
  obtain m s where sc: "(if om_empty ?om then (Inr None, w) else scan_stripes codec lb ?om ?e (unat (num_stripes ?om)) w)
      = (Inr m, w\<lparr>w_store := s\<rparr>)" "ok s" "le (w_store w) s" "hist s = hist (w_store w)"
  proof (cases "om_empty ?om")
    case True
    then show ?thesis using that [of None "w_store w"] ok by simp
  next
    case False
    then show ?thesis
      using that scan_stripes_quiet [OF om e ok, of "om_ids ?om"] q ids by (auto simp: quiet_def)
  qed
  let ?w = "w\<lparr>w_store := s\<rparr>" and ?nv = "with_sequencer_config (vv_view v) (sequencer_config lb ?e m)"
  have w1: "wok ?w" "quiet ?w" using wok_store [OF w sc(2,3)] q by (simp_all add: quiet_def)
  have "seq_config_ok (sequencer_config lb ?e m)" using t e by (simp add: seq_config_ok_def sequencer_config_def word_gt_0)
  note nv = sequencer_derive [OF conjunct1 [OF wf] conjunct2 [OF wf] this]
  obtain data where d: "view_encode codec ?nv = Some data" using view_encode_some nv by blast
  obtain s2 vr v' where s2: "vm_ProposeView codec lb ?e data ?w = (Inr (), ?w\<lparr>w_store := s2\<rparr>)"
      "update_current_view (Suc (Suc n)) codec lb opts (vv_epoch v) True (?w\<lparr>w_store := s2\<rparr>)
        = Some (Inr (), ?w\<lparr>w_store := s2, w_vr := vr\<rparr>)"
      "hist s2 = hist s @ [?nv]" "vr_view vr = Some v'" "up_to_date (hist s2) v'" "obj s2 = obj s" "keeps_seq (w_vr w) vr"
      "wok (?w\<lparr>w_store := s2, w_vr := vr\<rparr>)" "quiet (?w\<lparr>w_store := s2, w_vr := vr\<rparr>)"
    using propose_quiet [OF w1, of v ?nv data n opts] v b nv d sc(4) by auto
  let ?w' = "?w\<lparr>w_store := s2, w_vr := vr\<rparr>"
  have "propose_sequencer_attempt (Suc (Suc n)) codec lb opts w = Some (Finished (Inr ()), ?w')"
    using q v(1) pos sc(1) d s2(1,2) by (auto simp: propose_sequencer_attempt_def quiet_def Let_def)
  then have p: "propose_sequencer (Suc (Suc n)) codec lb opts w = Some (Inr (), ?w')"
    by (simp add: propose_sequencer_def propose_sequencer_loop.simps)
  have nv': "vv_view v' = ?nv" using s2(3,5) by (simp add: up_to_date_def)
  then have "v_seq_config (vv_view v') = Some (sequencer_config lb ?e m)" by (simp add: with_sequencer_config_def)
  then have "vv_seq v' \<noteq> None"
    using s2(4,8) by (simp add: world_ok_def vr_wf_def sequencer_config_def)
  then show ?thesis
    using p s2(3-9) sc(1,4) nv'
    by (intro exI [of _ ?w'] exI [of _ v'] conjI exI [of _ m] exI [of _ s]) (simp_all only: world.simps, simp_all)
qed

end

end
