(* ===== verification/Trim_To_Results.thy ===== *)
theory Trim_To_Results
  imports Log_Results
begin

text \<open>
  \<^verbatim>\<open>TrimToOp::run\<close>: a call that succeeds has invalidated every position up to the given one.
\<close>

definition trim_to_answer :: "('s \<Rightarrow> u64 \<Rightarrow> entry option) \<Rightarrow> u64 \<Rightarrow> unit ret \<Rightarrow> 's \<Rightarrow> bool" where
  "trim_to_answer at p r s \<longleftrightarrow> (case r of
     Inr _ \<Rightarrow> \<forall>q\<le>p. at s q = Some Junk
   | Inl e \<Rightarrow> e \<in> {EINVAL, ESHUTDOWN})"

context log_client
begin

lemma junk_stays: "le s s' \<Longrightarrow> at s q = Some Junk \<Longrightarrow> at s' q = Some Junk"
  by (auto simp: log_le_def entry_le_def dest: spec [where x = q])

lemma vm_advance_ret:
  assumes a: "vm_advance_min_valid_position n codec lb opts p w = Some (r, w')" and t: "tried_ok w'" and w: "wok w"
  shows "r = Inr () \<or> r = Inl EINVAL"
proof -
  obtain cv w1 where cv: "current_view codec lb w = (cv, w1)" by force
  note c = current_view_ext [OF cv]
  have good: "\<exists>v. cv = Some v \<and> view_held (hist (w_store w1)) v \<and> view_wf (vv_view v)
      \<and> om_aligned (v_object_map (vv_view v))" if "wok w1"
    using current_view_held [OF that] held_view(2,3) [OF wok_ok [OF that]] c that by (auto simp: world_ok_def)
  show ?thesis
  proof (cases "\<exists>v nv data pr w2. cv = Some v \<and> view_advance_min_valid_position (vv_view v) p = Some (Some nv)
      \<and> view_encode codec nv = Some data \<and> vm_ProposeView codec lb (vv_epoch v + 1) data w1 = (pr, w2)")
    case False
    then have w': "w' = w1" using a cv
      by (auto simp: vm_advance_min_valid_position_def split: option.splits prod.splits)
    then have "wok w1" using extD(2) [OF conjunct1 [OF c] _ w] t by simp
    from good [OF this] obtain v where v: "cv = Some v" "view_wf (vv_view v)" by blast
    note adv = view_advance_some [OF v(2), of p]
    show ?thesis
      using a False v adv view_encode_some [OF adv(2)]
      by (auto simp: vm_advance_min_valid_position_def cv split: if_splits option.splits prod.splits)
  next
    case True
    then obtain v nv data pr w2 where v: "cv = Some v" "view_advance_min_valid_position (vv_view v) p = Some (Some nv)"
        "view_encode codec nv = Some data" and pr: "vm_ProposeView codec lb (vv_epoch v + 1) data w1 = (pr, w2)"
      by blast
    have pe: "ext w1 w2"
      by (rule vm_ProposeView_ext [OF pr ext_refl, where v' = nv])
        (use good v advance_derive [OF _ _ v(2)] in auto)
    have k: "wok w1 \<and> wok w2" if t2: "tried_ok w2"
      using extD(2) [OF conjunct1 [OF c] extD(1) [OF pe t2] w] extD(2) [OF pe t2] by blast
    have x: "(if pr = Inr () \<or> pr = Inl ESPIPE then update_current_view n codec lb opts (vv_epoch v) True w2
        else Some (pr, w2)) = Some (r, w')"
      using a by (simp add: vm_advance_min_valid_position_def cv v pr split: if_splits)
    show ?thesis
    proof (cases "pr = Inr () \<or> pr = Inl ESPIPE")
      case True
      then have u: "update_current_view n codec lb opts (vv_epoch v) True w2 = Some (r, w')" using x by simp
      show ?thesis using update_current_view_ret [OF u t] k extD(1) [OF update_current_view_ext [OF u] t] by blast
    next
      case False
      then show ?thesis using x vm_ProposeView_ret [OF pr] k t by auto
    qed
  qed
qed

lemma trim_objects_result:
  assumes v: "vr_view (w_vr w1) = Some v"
    and M: "om_map_to (v_object_map (vv_view v)) p i False = Some (Some objs0, i', False)"
  shows "trim_objects m codec lb opts (vv_epoch v) p objs w2 = Some (nx, w') \<Longrightarrow> set objs \<subseteq> set objs0 \<Longrightarrow>
    ext w1 w2 \<Longrightarrow> tried_ok w2 \<longrightarrow> wok w1 \<longrightarrow> (\<forall>q\<in>Q. at (w_store w2) q = Some Junk) \<Longrightarrow>
    ext w1 w' \<and> (tried_ok w' \<longrightarrow> wok w1 \<longrightarrow> (case nx of
      TReturn r \<Rightarrow> False
    | TRestart \<Rightarrow> True
    | TDone \<Rightarrow> (\<forall>q\<in>Q. at (w_store w') q = Some Junk)
        \<and> (\<forall>x\<in>set objs. \<forall>q\<le>p. slot_oid (vv_view v) q = Some (fst x) \<longrightarrow> at (w_store w') q = Some Junk)))"
proof (induction objs arbitrary: w2 Q)
  case (Cons x objs)
  obtain oid full where x: "x = (oid, full)" by (cases x)
  let ?w = "interfere codec lb w2"
  obtain r s where f: "lb_Trim lb oid (vv_epoch v) p True full (w_store ?w) = (r, s)" by force
  let ?w3 = "?w\<lparr>w_store := s\<rparr>"
  have e3: "ext w1 ?w" by (rule ext_trans [OF Cons.prems(3) interfere_ext])
  note cs = call_setting [OF e3 v]
  have k: "(oid, full) \<in> set objs0" using Cons.prems(2) x by simp
  have tl: "ok s \<and> le (w_store ?w) s \<and> r \<in> {Inr (), Inl ENOENT, Inl ESPIPE}
      \<and> (r = Inr () \<longrightarrow> (\<forall>q\<le>p. slot_oid (vv_view v) q = Some oid \<longrightarrow> at s q = Some Junk))"
    if "tried_ok ?w" "wok w1"
  proof -
    note c = cs [OF that]
    have "r = fst (a_trim (prefixed_oid lb oid) (vv_epoch v) p True full (obj (w_store ?w) (prefixed_oid lb oid)))"
      using trim_ret [OF okD(1) [OF c(1)], of "prefixed_oid lb oid" "vv_epoch v" p True full] f by (simp add: lb_defs)
    then have "r \<in> {Inr (), Inl ENOENT, Inl ESPIPE}"
      using c(3) by (auto simp: a_trim_def a_guard_def Let_def split: option.splits if_splits)
    then show ?thesis
      using trim_to_object(1) [OF c(1,2) M k f] trim_to_object(2) [OF c(1,2) M k f] by blast
  qed
  have e4: "ext w1 ?w3" by (rule call_ext [OF e3]) (use tl in blast)
  have ep: "vv_epoch v \<noteq> 0" if "wok w1" "tried_ok ?w3"
    using cs(3) [OF _ that(1)] that(2) by (simp add: tried_ok_def)
  consider "r = Inr ()" | "r = Inl ENOENT" | "r = Inl ESPIPE" | "r \<notin> {Inr (), Inl ENOENT, Inl ESPIPE}" by blast
  then show ?case
  proof cases
    case 1
    then have rec: "trim_objects m codec lb opts (vv_epoch v) p objs ?w3 = Some (nx, w')"
      using Cons.prems(1) f x by simp
    let ?Q = "Q \<union> {q. q \<le> p \<and> slot_oid (vv_view v) q = Some oid}"
    have "tried_ok ?w3 \<longrightarrow> wok w1 \<longrightarrow> (\<forall>q\<in>?Q. at (w_store ?w3) q = Some Junk)"
    proof (intro impI)
      assume t3: "tried_ok ?w3" and w1: "wok w1"
      have t: "tried_ok ?w" using t3 by (simp add: tried_ok_def)
      note t2 = extD(1) [OF interfere_ext t]
      have "le (w_store w2) s"
        by (rule log_le_trans [OF extD(3) [OF interfere_ext t extD(2) [OF Cons.prems(3) t2 w1]]])
          (use tl [OF t w1] in blast)
      then show "\<forall>q\<in>?Q. at (w_store ?w3) q = Some Junk" using Cons.prems(4) t2 w1 junk_stays tl [OF t w1] 1 by auto
    qed
    from Cons.IH [OF rec _ e4 this] show ?thesis using Cons.prems(2) x by (cases nx) auto
  next
    case 2
    obtain sr w5 where s: "op_Seal codec lb oid (vv_epoch v) ?w3 = (sr, w5)" by force
    have e6: "ext w1 w5" by (rule ext_trans [OF e4 op_Seal_ext [OF s]])
    have w': "w' = w5" and nx: "nx = (case sr of Inl e \<Rightarrow> if e \<noteq> ESPIPE then TReturn (Inl e) else TRestart | Inr _ \<Rightarrow> TRestart)"
      using Cons.prems(1) f 2 s x by (auto split: sum.splits if_splits)
    have "sr = Inr () \<or> sr = Inl ESPIPE" if t: "tried_ok w5" and w1: "wok w1"
    proof -
      note t4 = extD(1) [OF op_Seal_ext [OF s] t]
      show ?thesis by (rule op_Seal_ret [OF s ep [OF w1 t4] t extD(2) [OF e4 t4 w1]])
    qed
    then show ?thesis using e6 w' nx by auto
  next
    case 3
    obtain ur where u: "update_current_view m codec lb opts (vv_epoch v) False ?w3 = Some (ur, w')"
        and nx: "nx = (case ur of Inl x \<Rightarrow> TReturn (Inl x) | Inr _ \<Rightarrow> TRestart)"
      using Cons.prems(1) f 3 x by (auto split: option.splits sum.splits prod.splits)
    note ue = update_current_view_ext [OF u]
    have "ur = Inr ()" if t: "tried_ok w'" and w1: "wok w1"
      by (rule update_current_view_ret [OF u t extD(2) [OF e4 extD(1) [OF ue t] w1]])
    then show ?thesis using ext_trans [OF e4 ue] nx by auto
  next
    case 4
    then have "w' = ?w3" using Cons.prems(1) f x by (auto split: if_splits)
    then show ?thesis using e4 tl 4 by (auto simp: tried_ok_def)
  qed
qed simp

text \<open>The loop that drives \<^verbatim>\<open>map_to\<close>, from stripe \<open>i\<close> on.\<close>

lemma map_to_cases:
  assumes wf: "view_wf v" and al: "om_aligned (v_object_map v)"
    and m: "vm_map_to v p i False = Some (objs, i', d)"
  shows "d \<Longrightarrow> unat p < om_span (v_object_map v) \<and> om_ids (v_object_map v) \<le> unat i"
    and "\<not> d \<Longrightarrow> objs \<noteq> None \<Longrightarrow> unat i' = unat i + 1 \<and> unat p < om_span (v_object_map v)
      \<and> (\<forall>q\<le>p. \<forall>c. om_locate (v_object_map v) (unat q) = Some (unat i, c) \<longrightarrow>
          (\<exists>x\<in>set (the objs). slot_oid v q = Some (fst x)))"
proof -
  let ?om = "v_object_map v"
  have wf: "om_wf ?om" using wf by (simp add: view_wf_def)
  note ids = om_wf_chain(3) [OF wf]
  have m: "om_map_to ?om p i False = Some (objs, i', d)" using m by (simp add: vm_map_to_def)
  have span: "objs \<noteq> None \<Longrightarrow> unat p < om_span ?om"
    using m om_map_mapped [OF wf, of p]
    by (auto simp: om_map_to_def Option.bind_eq_Some_conv split: if_splits)
  have d: "d \<longleftrightarrow> objs \<noteq> None \<and> num_stripes ?om \<le> i"
    using m by (auto simp: om_map_to_def Option.bind_eq_Some_conv split: if_splits)
  show "d \<Longrightarrow> unat p < om_span ?om \<and> om_ids ?om \<le> unat i"
    using d span ids by (simp add: num_stripes_def om_ids_def word_le_nat_alt)
  assume "\<not> d" and o: "objs \<noteq> None"
  then have i: "unat i < chain_ids (stripes_by_pos ?om)"
    using d ids by (simp add: num_stripes_def word_le_nat_alt)
  have "unat i + 1 < 2 ^ 64" using i ids unat_u64_bound [of "next_stripe_id ?om"] by simp
  then have "unat (i + 1) = unat i + 1" by (simp add: unat_word_ariths)
  then show "unat i' = unat i + 1 \<and> unat p < om_span ?om
      \<and> (\<forall>q\<le>p. \<forall>c. om_locate ?om (unat q) = Some (unat i, c) \<longrightarrow>
          (\<exists>x\<in>set (the objs). slot_oid v q = Some (fst x)))"
    using map_to_stripe [OF wf al span [OF o] i] m span [OF o]
    by (fastforce simp: slot_oid_def word_le_nat_alt)
qed

lemma map_to_total:
  assumes "view_wf v" and "om_aligned (v_object_map v)"
  shows "vm_map_to v p i False \<noteq> None"
proof -
  have wf: "om_wf (v_object_map v)" using assms(1) by (simp add: view_wf_def)
  obtain oid l where m: "om_map (v_object_map v) p = Some (oid, l)" using om_map_spec [OF wf] by blast
  show ?thesis
  proof (cases "oid = None \<or> num_stripes (v_object_map v) \<le> i")
    case True
    then show ?thesis using m by (auto simp: vm_map_to_def om_map_to_def)
  next
    case False
    then have "unat p < om_span (v_object_map v)" using om_map_mapped [OF wf, of p] m by auto
    then show ?thesis
      using map_to_stripe [OF wf assms(2), of p i] False om_wf_chain(3) [OF wf]
      by (auto simp: vm_map_to_def num_stripes_def word_le_nat_alt)
  qed
qed

lemma trim_stripes_result:
  assumes o: "stripe_options_ok opts" and v: "vr_view (w_vr w1) = Some v"
  shows "trim_stripes n m codec lb opts v p i w2 = Some (nx, w') \<Longrightarrow> ext w1 w2 \<Longrightarrow>
    tried_ok w2 \<longrightarrow> wok w1 \<longrightarrow> (\<forall>q\<in>Q. at (w_store w2) q = Some Junk) \<Longrightarrow>
    ext w1 w' \<and> (tried_ok w' \<longrightarrow> wok w1 \<longrightarrow> (case nx of
      TReturn r \<Rightarrow> \<exists>e. r = Inl e \<and> e \<in> {EINVAL, ESHUTDOWN}
    | TRestart \<Rightarrow> True
    | TDone \<Rightarrow> unat p < om_span (v_object_map (vv_view v)) \<and> (\<forall>q\<in>Q. at (w_store w') q = Some Junk)
        \<and> (\<forall>q\<le>p. \<forall>j c. om_locate (v_object_map (vv_view v)) (unat q) = Some (j, c) \<longrightarrow> unat i \<le> j \<longrightarrow>
              at (w_store w') q = Some Junk)))"
proof (induction n arbitrary: i w2 Q)
  case (Suc n)
  let ?om = "v_object_map (vv_view v)"
  have wf: "view_wf (vv_view v) \<and> om_aligned ?om" if "wok w1"
    using held_view(2,3) [OF wok_ok [OF that] current_view_held [OF that v]] by blast
  show ?case
  proof (cases "vm_map_to (vv_view v) p i False")
    case None
    then have "w' = w2" using Suc.prems(1) by simp
    moreover have "wok w1 \<Longrightarrow> False" using map_to_total wf None by blast
    ultimately show ?thesis using Suc.prems(2) by blast
  next
    case (Some y)
    obtain objs i' d where y: "y = (objs, i', d)" by (metis prod.collapse)
    note m = Some [unfolded y]
    show ?thesis
    proof (cases "d \<or> objs = None")
      case True
      show ?thesis
      proof (cases d)
        case True
        then have "w' = w2" "nx = TDone" using Suc.prems(1) m by auto
        moreover have "\<not> (om_locate ?om q = Some (j, c) \<and> unat i \<le> j)" if "wok w1" for q j c
          using map_to_cases(1) [OF _ _ m True] wf [OF that] om_locate_bounds(1) [of ?om q j c]
          by (fastforce simp: view_wf_def)
        moreover have "unat p < om_span ?om" if "wok w1" using map_to_cases(1) [OF _ _ m True] wf [OF that] by blast
        ultimately show ?thesis using Suc.prems(2,3) by auto
      next
        case False
        then have objs: "objs = None" using True by simp
        obtain tr where t: "try_expand_view m codec lb opts p w2 = Some (tr, w')"
            and nx: "nx = (case tr of Inl e \<Rightarrow> TReturn (Inl e) | Inr _ \<Rightarrow> TRestart)"
          using Suc.prems(1) m False objs by (auto split: option.splits sum.splits prod.splits)
        note te = try_expand_view_ext [OF o t]
        have "e \<in> {EINVAL, ESHUTDOWN}" if "tr = Inl e" "tried_ok w'" "wok w1" for e
          using try_expand_ret [OF o t [unfolded that(1)] that(2)]
            extD(2) [OF Suc.prems(2) extD(1) [OF te that(2)] that(3)] by blast
        then show ?thesis using ext_trans [OF Suc.prems(2) te] nx by (cases tr) auto
      qed
    next
      case False
      then obtain os where os: "objs = Some os" and d: "\<not> d" by auto
      have M: "om_map_to ?om p i False = Some (Some os, i', False)" using m os d by (simp add: vm_map_to_def)
      obtain ny w3 where ob: "trim_objects m codec lb opts (vv_epoch v) p os w2 = Some (ny, w3)"
        using Suc.prems(1) m os d
        by (cases "trim_objects m codec lb opts (vv_epoch v) p os w2") auto
      note r = trim_objects_result [OF v M ob subset_refl Suc.prems(2,3)]
      show ?thesis
      proof (cases ny)
        case TDone
        then have rec: "trim_stripes n m codec lb opts v p i' w3 = Some (nx, w')"
          using Suc.prems(1) m os d ob by simp
        note c = map_to_cases(2) [OF _ _ m d]
        let ?Q = "Q \<union> {q. q \<le> p \<and> (\<exists>c. om_locate ?om (unat q) = Some (unat i, c))}"
        have q3: "\<forall>q\<in>?Q. at (w_store w3) q = Some Junk" if "tried_ok w3" "wok w1"
          using r that TDone c wf os by fastforce
        then have "tried_ok w3 \<longrightarrow> wok w1 \<longrightarrow> (\<forall>q\<in>?Q. at (w_store w3) q = Some Junk)" by blast
        note ih = Suc.IH [OF rec conjunct1 [OF r] this]
        have step: "unat i' \<le> j \<or> j = unat i" if "wok w1" "unat i \<le> j" for j
          using c wf [OF that(1)] os that(2) by fastforce
        show ?thesis
        proof (cases nx)
          case TDone
          have "at (w_store w') q = Some Junk" if "tried_ok w'" "wok w1" "q \<le> p"
              "om_locate ?om (unat q) = Some (j, x)" "unat i \<le> j" for q j x
            using step [OF that(2,5)]
          proof
            assume "unat i' \<le> j"
            then show ?thesis using ih TDone that(1-4) by simp
          next
            assume "j = unat i"
            then have "q \<in> ?Q" using that(3,4) by blast
            moreover have "\<forall>q\<in>?Q. at (w_store w') q = Some Junk"
              using conjunct2 [OF ih] TDone that(1,2) unfolding TDone trim_next.case by blast
            ultimately show ?thesis by blast
          qed
          moreover have "unat p < om_span ?om \<and> (\<forall>q\<in>Q. at (w_store w') q = Some Junk)"
            if "tried_ok w'" "wok w1"
            using conjunct2 [OF ih] that unfolding TDone trim_next.case by blast
          ultimately show ?thesis using ih unfolding TDone trim_next.case by blast
        next
          case (TReturn x)
          then show ?thesis using ih by simp
        next
          case TRestart
          then show ?thesis using ih by simp
        qed
      qed (use Suc.prems(1) m os d ob r in auto)
    qed
  qed
qed simp

lemma trim_to_run_result:
  assumes o: "stripe_options_ok opts"
  shows "trim_to_run n m codec lb opts p w = Some (r, w') \<Longrightarrow>
    ext w w' \<and> hap (\<lambda>s s'. trim_to_answer at p r s') w w'"
proof (induction n arbitrary: w)
  case (Suc n)
  let ?P = "\<lambda>s s'. trim_to_answer at p r s'"
  obtain cv w1 where cv: "current_view codec lb w = (cv, w1)" by force
  note c = current_view_ext [OF cv]
  have e1: "ext w w1" using c by blast
  show ?case
  proof (cases cv)
    case None
    then have "w' = w1" using Suc.prems(1) cv by simp
    then show ?thesis using hap_dead [OF e1 ext_refl] None c by (auto simp: world_ok_def)
  next
    case (Some v)
    have v: "vr_view (w_vr w1) = Some v" using c Some by simp
    show ?thesis
    proof (cases "min_valid_position (v_object_map (vv_view v)) \<le> p")
      case True
      obtain ar w2 where a: "vm_advance_min_valid_position m codec lb opts (p + 1) w1 = Some (ar, w2)"
        using Suc.prems(1) True
        by (cases "vm_advance_min_valid_position m codec lb opts (p + 1) w1") (auto simp: cv Some)
      note ae = vm_advance_ext [OF a]
      show ?thesis
      proof (cases ar)
        case (Inl e)
        then have w': "w' = w2" "r = Inl e" using Suc.prems(1) True a by (auto simp: cv Some)
        have "hap ?P w w2"
          by (rule hap_end [OF e1 ae])
            (use vm_advance_ret [OF a] Inl w'(2) in \<open>auto simp: trim_to_answer_def\<close>)
        then show ?thesis using ext_trans [OF e1 ae] w'(1) by blast
      next
        case (Inr u)
        then have "trim_to_run n m codec lb opts p w2 = Some (r, w')"
          using Suc.prems(1) True a by (simp add: cv Some)
        then show ?thesis by (rule hap_next [OF ext_trans [OF e1 ae] Suc.IH])
      qed
    next
      case False
      obtain nx w2 where t: "trim_stripes n m codec lb opts v p 0 w1 = Some (nx, w2)"
        using Suc.prems(1) False
        by (cases "trim_stripes n m codec lb opts v p 0 w1") (auto simp: cv Some)
      note tr = trim_stripes_result [OF o v t ext_refl, where Q = "{}", simplified]
      have e2: "ext w1 w2" using tr by blast
      show ?thesis
      proof (cases nx)
        case TRestart
        then have "trim_to_run n m codec lb opts p w2 = Some (r, w')"
          using Suc.prems(1) False t by (simp add: cv Some)
        then show ?thesis by (rule hap_next [OF ext_trans [OF e1 e2] Suc.IH])
      next
        case (TReturn x)
        then have w': "w' = w2" "r = x" using Suc.prems(1) False t by (auto simp: cv Some)
        have "hap ?P w w2"
          by (rule hap_end [OF e1 e2]) (use tr TReturn w'(2) in \<open>auto simp: trim_to_answer_def\<close>)
        then show ?thesis using ext_trans [OF e1 e2] w'(1) by blast
      next
        case TDone
        then have w': "w' = w2" "r = Inr ()" using Suc.prems(1) False t by (auto simp: cv Some)
        have "?P (w_store w2) (w_store w2)" if "tried_ok w2" "wok w1"
        proof -
          have wf: "om_wf (v_object_map (vv_view v))"
            using held_view(2) [OF wok_ok [OF that(2)] current_view_held [OF that(2) v]] by (simp add: view_wf_def)
          have a: "unat p < om_span (v_object_map (vv_view v))"
              "\<And>q j c. q \<le> p \<Longrightarrow> om_locate (v_object_map (vv_view v)) (unat q) = Some (j, c) \<Longrightarrow>
                at (w_store w2) q = Some Junk"
            using tr that unfolding TDone trim_next.case by (blast, fastforce)
          have "at (w_store w2) q = Some Junk" if "q \<le> p" for q
          proof -
            have "unat q < om_span (v_object_map (vv_view v))" using a(1) that by (simp add: word_le_nat_alt)
            then show ?thesis using a(2) [OF that] om_locate_dom [OF wf, of "unat q"] by auto
          qed
          then show ?thesis by (simp add: trim_to_answer_def w'(2))
        qed
        then have "hap ?P w w2" by (rule hap_end [OF e1 e2])
        then show ?thesis using ext_trans [OF e1 e2] w'(1) by blast
      qed
    qed
  qed
qed simp

end

end
