(* ===== verification/Quiet_Runs.thy ===== *)
theory Quiet_Runs
  imports Log_Liveness Trim_To_Results
begin

text \<open>
  Complete runs of the operations when nothing interferes: the first sequencer of a log that holds
  nothing yet starts at position 0; reading, filling and trimming a position whose object exists
  returns in the first round; trimming a prefix of the log returns after one round for the new view and
  one over all stripes.
\<close>

text \<open>Nothing has been written to the objects of the log, and none is fenced off beyond epoch \<open>k\<close>.\<close>

definition blank :: "('s \<Rightarrow> string \<Rightarrow> aobj option) \<Rightarrow> 's log_backend \<Rightarrow> nat \<Rightarrow> 's \<Rightarrow> bool" where
  "blank obj lb k s \<longleftrightarrow> (\<forall>oid x. obj s (prefixed_oid lb oid) = Some x \<longrightarrow>
     unat (ao_epoch x) \<le> k \<and> (\<forall>p. ao_get x p = None))"

text \<open>All the objects the newest view names for positions exist, and none is fenced off beyond epoch \<open>k\<close>.\<close>

definition unfenced :: "('s \<Rightarrow> string \<Rightarrow> aobj option) \<Rightarrow> 's log_backend \<Rightarrow> nat \<Rightarrow> view \<Rightarrow> 's \<Rightarrow> bool" where
  "unfenced obj lb k v s \<longleftrightarrow> (\<forall>p oid. slot_oid v p = Some oid \<longrightarrow>
     (\<exists>x. obj s (prefixed_oid lb oid) = Some x \<and> unat (ao_epoch x) \<le> k))"

lemma ao_get_epoch [simp]: "ao_get (x\<lparr>ao_epoch := e\<rparr>) p = ao_get x p" "ao_get ao_init p = None"
  by (simp_all add: ao_get_def ao_init_def below_limit_def)

context log_client
begin

section \<open>The first sequencer\<close>

lemma seal_blank:
  assumes "ok s" and "blank obj lb k s" and "unat e \<le> k" and "lb_Seal lb oid e s = (r, s')"
  shows "blank obj lb k s'"
proof -
  let ?o = "prefixed_oid lb oid"
  have s': "obj s' = (obj s)(?o := snd (a_seal ?o e (obj s ?o)))"
    using seal_state [OF okD(1) [OF assms(1)], of ?o e r s'] assms(4) by (simp add: lb_defs)
  have "unat (ao_epoch x) \<le> k \<and> (\<forall>p. ao_get x p = None)" if "snd (a_seal ?o e (obj s ?o)) = Some x" for x
    using that assms(2,3)
    by (auto simp: a_seal_def blank_def split: option.splits if_splits)
  then show ?thesis using assms(2) s' by (auto simp: blank_def)
qed

lemma seal_objects_blank:
  "seal_objects codec lb e oids w = (r, w') \<Longrightarrow> ok (w_store w) \<Longrightarrow> w_env w = [] \<Longrightarrow> blank obj lb k (w_store w) \<Longrightarrow>
   unat e \<le> k \<Longrightarrow> blank obj lb k (w_store w')"
proof (induction oids arbitrary: w)
  case (Cons oid oids)
  obtain sr s where s: "lb_Seal lb oid e (w_store w) = (sr, s)" by force
  note b = seal_blank [OF Cons.prems(2,4,5) s] and l = seal_log [OF Cons.prems(2) s]
  show ?case
    using Cons.prems s b l Cons.IH [of "w\<lparr>w_store := s\<rparr>"] by (auto simp: Let_def split: sum.splits if_splits)
qed simp

lemma max_objects_blank:
  assumes "ok (w_store w)" and "w_env w = []" and "blank obj lb k (w_store w)"
  shows "max_objects codec lb None oids w = (Inr m, w') \<Longrightarrow> m = None"
proof (induction oids)
  case (Cons oid oids)
  have "a_maxpos_ok (prefixed_oid lb oid) (obj (w_store w) (prefixed_oid lb oid)) (lb_MaxPos lb oid (w_store w))"
    using maxpos_spec [OF okD(1) [OF assms(1)], of "prefixed_oid lb oid"] by (simp add: lb_defs)
  then show ?case
    using Cons assms(2,3) by (auto simp: Let_def a_maxpos_ok_def blank_def split: sum.splits option.splits)
qed simp

lemma scan_stripes_blank:
  assumes "e \<noteq> 0" and "unat e \<le> k"
  shows "scan_stripes codec lb om e i w = (Inr m, w') \<Longrightarrow> ok (w_store w) \<Longrightarrow> w_env w = [] \<Longrightarrow>
    blank obj lb k (w_store w) \<Longrightarrow> m = None \<and> blank obj lb k (w_store w')"
proof (induction i arbitrary: w)
  case (Suc i)
  obtain st where st: "om_stripe_by_id om (of_nat i) = Some st" using Suc.prems(1) by (auto split: option.splits)
  obtain s where s: "seal_objects codec lb e (st_oids st) w = (Inr (), w\<lparr>w_store := s\<rparr>)" "ok s"
    using seal_objects_quiet [OF Suc.prems(2,3) assms(1)] by blast
  let ?w = "w\<lparr>w_store := s\<rparr>"
  have b: "blank obj lb k s" using seal_objects_blank [OF s(1) Suc.prems(2-4) assms(2)] by simp
  obtain mr w1 where mo: "max_objects codec lb None (st_oids st) ?w = (mr, w1)" by force
  have w1: "w1 = ?w" if "mr = Inr x" for x
  proof -
    have "max_objects codec lb acc oids ?w = (Inr x, w1) \<Longrightarrow> w1 = ?w" for acc oids
      using Suc.prems(3) by (induction oids arbitrary: acc) (auto simp: Let_def split: sum.splits option.splits)
    then show ?thesis using mo that by simp
  qed
  have "mr = Inr x \<Longrightarrow> x = None" for x using max_objects_blank [of ?w k "st_oids st" x w1] s(2) b Suc.prems(3) mo by simp
  then have "scan_stripes codec lb om e i ?w = (Inr m, w')" and "mr = Inr None"
    using Suc.prems(1) st s(1) mo w1 by (auto simp: seal_stripe_def split: if_splits sum.splits option.splits)
  then show ?case using Suc.IH [of ?w] s(2) b Suc.prems(3) by simp
qed simp

lemma slot_in_stripe:
  assumes wf: "om_wf om" and q: "om_locate om q = Some (i, c)"
  shows "\<exists>st. om_stripe_by_id om (of_nat i) = Some st \<and> oid_of_slot (i, c) \<in> set (st_oids st)"
proof -
  note chain = om_wf_chain [OF wf] and bd = om_locate_bounds [OF wf q]
  have i: "unat (of_nat i :: u64) = i" using bd(2) by (simp add: unat_of_nat_u64)
  have "q < om_span om" using om_locate_dom [OF wf, of q] q by simp
  then obtain j where j: "j < length (stripes_by_pos om)" "in_range (snd (stripes_by_pos om ! j)) q"
    using chain_find [OF chain(1), of q] by (auto simp: om_span_def)
  let ?s = "snd (stripes_by_pos om ! j)"
  note n = ms_chain_nth [OF chain(1) j(1)]
  have slot: "slot_of ?s q = (i, c)" using q ms_locate_nth [OF chain(1) j] by (simp add: om_locate_def)
  have "q - unat (ms_min ?s) < unat (ms_instances ?s) * ms_size ?s"
    using j(2) by (auto simp: in_range_def ms_span_def)
  then have "(q - unat (ms_min ?s)) div ms_size ?s < unat (ms_instances ?s)" by (rule less_mult_imp_div_less)
  then have r: "unat (ms_base_id ?s) \<le> unat (of_nat i :: u64)"
      "unat (of_nat i :: u64) < unat (ms_base_id ?s) + unat (ms_instances ?s)"
    using slot i by (auto simp: slot_of_def)
  obtain st where st: "om_stripe_by_id om (of_nat i) = Some st" "st_oids st = make_oids (of_nat i) (ms_width ?s)"
    using om_stripe_by_id_some [OF wf j(1) r] by metis
  have "0 < unat (ms_width ?s)" using n by (auto simp: ms_asserts_def word_less_nat_alt)
  then have "c < unat (ms_width ?s)" using slot by (auto simp: slot_of_def)
  then show ?thesis using st by (auto simp: make_oids_def oid_of_slot_def)
qed

text \<open>When nothing is written, the scan goes through all the stripes, and so creates all the objects.\<close>

lemma scan_stripes_creates:
  assumes "e \<noteq> 0" and "unat e \<le> k"
  shows "scan_stripes codec lb om e i w = (Inr m, w') \<Longrightarrow> ok (w_store w) \<Longrightarrow> w_env w = [] \<Longrightarrow>
    blank obj lb k (w_store w) \<Longrightarrow>
    (\<forall>oid. obj (w_store w) oid \<noteq> None \<longrightarrow> obj (w_store w') oid \<noteq> None)
    \<and> (\<forall>j<i. \<forall>st. om_stripe_by_id om (of_nat j) = Some st \<longrightarrow>
         (\<forall>oid\<in>set (st_oids st). obj (w_store w') (prefixed_oid lb oid) \<noteq> None))"
proof (induction i arbitrary: w)
  case (Suc i)
  obtain st where st: "om_stripe_by_id om (of_nat i) = Some st" using Suc.prems(1) by (auto split: option.splits)
  obtain s where s: "seal_objects codec lb e (st_oids st) w = (Inr (), w\<lparr>w_store := s\<rparr>)" "ok s"
      "\<forall>oid. obj (w_store w) oid \<noteq> None \<longrightarrow> obj s oid \<noteq> None"
      "\<forall>oid\<in>set (st_oids st). obj s (prefixed_oid lb oid) \<noteq> None"
    using seal_objects_quiet [OF Suc.prems(2,3) assms(1)] by blast
  let ?w = "w\<lparr>w_store := s\<rparr>"
  have b: "blank obj lb k s" using seal_objects_blank [OF s(1) Suc.prems(2-4) assms(2)] by simp
  obtain x where mo: "max_objects codec lb None (st_oids st) ?w = (Inr x, ?w)"
    using max_objects_quiet [of ?w "st_oids st" None] s(2,4) Suc.prems(3) by auto
  have "x = None" using max_objects_blank [OF _ _ _ mo, of k] s(2) b Suc.prems(3) by simp
  then have rec: "scan_stripes codec lb om e i ?w = (Inr m, w')"
    using Suc.prems(1) st s(1) mo by (auto simp: seal_stripe_def split: if_splits)
  have ih: "(\<forall>oid. obj s oid \<noteq> None \<longrightarrow> obj (w_store w') oid \<noteq> None)
      \<and> (\<forall>j<i. \<forall>st. om_stripe_by_id om (of_nat j) = Some st \<longrightarrow>
           (\<forall>oid\<in>set (st_oids st). obj (w_store w') (prefixed_oid lb oid) \<noteq> None))"
    using Suc.IH [OF rec] s(2) Suc.prems(3) b by simp
  show ?case using ih s(3,4) st by (auto simp: less_Suc_eq)
qed simp

lemma propose_sequencer_blank:
  assumes t: "token_ok (lb_token lb)" and w: "wok w" and q: "quiet w"
    and v: "vr_view (w_vr w) = Some v" "up_to_date (hist (w_store w)) v" "v_seq_config (vv_view v) = None"
    and b: "length (hist (w_store w)) + 1 < 2 ^ 64" and bl: "blank obj lb (length (hist (w_store w)) + 1) (w_store w)"
  shows "\<exists>w' v' r. propose_sequencer (Suc (Suc n)) codec lb opts w = Some (Inr (), w') \<and> wok w' \<and> quiet w'
    \<and> w_tried w' = w_tried w \<and> vr_view (w_vr w') = Some v' \<and> up_to_date (hist (w_store w')) v'
    \<and> length (hist (w_store w')) = length (hist (w_store w)) + 1
    \<and> vv_seq v' = Some r \<and> sq_position (vr_seqs (w_vr w') ! r) = 0
    \<and> v_object_map (vv_view v') = v_object_map (vv_view v)
    \<and> blank obj lb (length (hist (w_store w'))) (w_store w')
    \<and> unfenced obj lb (length (hist (w_store w'))) (vv_view v') (w_store w')"
proof -
  let ?om = "v_object_map (vv_view v)" and ?e = "vv_epoch v + 1"
  obtain w' v' m s where p: "propose_sequencer (Suc (Suc n)) codec lb opts w = Some (Inr (), w')" "wok w'" "quiet w'"
      "w_tried w' = w_tried w" "vr_view (w_vr w') = Some v'" "up_to_date (hist (w_store w')) v'" "vv_seq v' \<noteq> None"
      "length (hist (w_store w')) = length (hist (w_store w)) + 1" "keeps_seq (w_vr w) (w_vr w')"
      and sc: "(if om_empty ?om then (Inr None, w) else scan_stripes codec lb ?om ?e (unat (num_stripes ?om)) w)
        = (Inr m, w\<lparr>w_store := s\<rparr>)" "obj (w_store w') = obj s"
        "vv_view v' = with_sequencer_config (vv_view v) (sequencer_config lb ?e m)"
    using propose_sequencer_quiet [OF t w q v(1,2) b, of n opts] by blast
  have ue: "unat ?e = length (hist (w_store w)) + 1" using v(2) b by (simp add: up_to_date_def unat_word_ariths)
  then have "?e \<noteq> 0" by auto
  have ms: "m = None \<and> blank obj lb (length (hist (w_store w)) + 1) s"
  proof (cases "om_empty ?om")
    case True
    then have "m = None" "w_store (w\<lparr>w_store := s\<rparr>) = w_store w" using sc(1) by (simp, metis prod.inject)
    then show ?thesis using bl by simp
  next
    case False
    then show ?thesis
      using scan_stripes_blank [OF \<open>?e \<noteq> 0\<close> _ _ wok_ok [OF w] _ bl, of ?om] sc(1) ue q by (fastforce simp: quiet_def)
  qed
  have "\<exists>x. obj s (prefixed_oid lb oid) = Some x" if sp: "slot_oid (vv_view v') p = Some oid" for p oid
  proof -
    have om: "om_wf ?om" using up_to_date_held [OF w v(1,2)] by (simp add: view_wf_def)
    obtain i c where ic: "om_locate ?om (unat p) = Some (i, c)" "oid = oid_of_slot (i, c)"
      using sp sc(3) by (auto simp: slot_oid_def with_sequencer_config_def)
    obtain st where st: "om_stripe_by_id ?om (of_nat i) = Some st" "oid \<in> set (st_oids st)"
      using slot_in_stripe [OF om ic(1)] ic(2) by blast
    have i: "i < unat (num_stripes ?om)"
      using om_locate_bounds(1) [OF om ic(1)] om_wf_chain(3) [OF om] by (simp add: num_stripes_def om_ids_def)
    then have "\<not> om_empty ?om" using ic(1) by (auto simp: om_empty_def om_locate_def)
    then have "scan_stripes codec lb ?om ?e (unat (num_stripes ?om)) w = (Inr m, w\<lparr>w_store := s\<rparr>)" using sc(1) by simp
    from scan_stripes_creates [OF \<open>?e \<noteq> 0\<close> _ this wok_ok [OF w] _ bl] show ?thesis
      using ue q st i by (auto simp: quiet_def)
  qed
  then have un: "unfenced obj lb (length (hist (w_store w'))) (vv_view v') (w_store w')"
    using ms sc(2) p(8) by (fastforce simp: unfenced_def blank_def)
  obtain r where r: "vv_seq v' = Some r" using p(7) by blast
  have "sq_position (vr_seqs (w_vr w') ! r) = 0"
    using p(9) v(1,3) p(5) r sc(3) ms by (auto simp: keeps_seq_def with_sequencer_config_def sequencer_config_def)
  moreover have "blank obj lb (length (hist (w_store w'))) (w_store w')" using ms sc(2) p(8) by (simp add: blank_def)
  ultimately show ?thesis
    using p r sc(3) un by (intro exI [of _ w'] exI [of _ v'] exI [of _ r]) (simp add: with_sequencer_config_def)
qed

section \<open>Reading, filling, trimming one position\<close>

lemma mapped_quiet:
  assumes w: "wok w" and q: "quiet w" and u: "served obj lb (hist (w_store w)) p w"
  obtains v oid x w2 where "vr_view (w_vr w) = Some v" and "up_to_date (hist (w_store w)) v"
    and "slot_oid (vv_view v) p = Some oid" and "vm_map (vv_view v) p w = (Inr (Some oid), w2)" and "w_store w2 = w_store w" and "w_env w2 = []"
    and "obj (w_store w) (prefixed_oid lb oid) = Some x" and "unat (ao_epoch x) \<le> length (hist (w_store w))" and "a_guard (prefixed_oid lb oid) (vv_epoch v) (Some x) = Inr x"
    and "at (w_store w) p = ao_get x p"
proof -
  obtain v oid x where v: "vr_view (w_vr w) = Some v" "up_to_date (hist (w_store w)) v" and p: "slot_oid (vv_view v) p = Some oid"
      and x: "obj (w_store w) (prefixed_oid lb oid) = Some x" "unat (ao_epoch x) \<le> length (hist (w_store w))"
    using u unfolding served_def by blast
  obtain mr w2 where m: "vm_map (vv_view v) p w = (mr, w2)" by force
  note mq = vm_map_quiet [OF m] and wf = up_to_date_held [OF w v]
  have mr: "mr = Inr (Some oid)" using vm_map_ret [OF conjunct1 [OF wf] m] p by simp
  have "vv_epoch v \<noteq> 0" using current_view_held [OF w v(1)] by (auto simp: view_held_def)
  moreover have "\<not> vv_epoch v < ao_epoch x" using x(2) v(2) by (simp add: up_to_date_def word_less_nat_alt)
  ultimately have "a_guard (prefixed_oid lb oid) (vv_epoch v) (Some x) = Inr x" by (simp add: a_guard_def)
  moreover have "at (w_store w) p = ao_get x p"
    using at_slot [of "w_store w" p oid] v(2) p x(1) by (simp add: up_to_date_def)
  ultimately show ?thesis using that [OF v p m [unfolded mr] mq(1) _ x] mq(2) q by (simp add: quiet_def)
qed

lemma read_quiet:
  assumes w: "wok w" "quiet w" "served obj lb (hist (w_store w)) p w"
  shows "\<exists>w'. read_run (Suc n) m codec lb opts p w = Some (case at (w_store w) p of
      None \<Rightarrow> Inl ENOENT | Some Junk \<Rightarrow> Inl ENODATA | Some (Data d) \<Rightarrow> Inr d, w') \<and> w_store w' = w_store w
    \<and> w_tried w' = w_tried w"
proof -
  obtain v oid x w2 where v: "vr_view (w_vr w) = Some v"
      and m: "vm_map (vv_view v) p w = (Inr (Some oid), w2)" "w_store w2 = w_store w" "w_env w2 = []"
      "obj (w_store w) (prefixed_oid lb oid) = Some x" "a_guard (prefixed_oid lb oid) (vv_epoch v) (Some x) = Inr x"
      "at (w_store w) p = ao_get x p"
    by (rule mapped_quiet [OF w])
  have "lb_Read lb oid (vv_epoch v) p (w_store w) = (case ao_get x p of
      None \<Rightarrow> Inl ERANGE | Some Junk \<Rightarrow> Inl ENODATA | Some (Data d) \<Rightarrow> Inr d)"
    using read_spec [OF okD(1) [OF wok_ok [OF w(1)]], of "prefixed_oid lb oid" "vv_epoch v" p] m(4,5)
    by (simp add: lb_defs a_read_def)
  then show ?thesis
    using w(2) v m vm_map_quiet(4) [OF m(1)]
    by (intro exI [of _ w2]) (auto simp: quiet_def split: option.split entry.split)
qed

lemma fill_quiet:
  assumes w: "wok w" "quiet w" "served obj lb (hist (w_store w)) p w"
  shows "\<exists>w'. fill_run (Suc n) m codec lb opts p w = Some (case at (w_store w) p of
      Some (Data d) \<Rightarrow> Inl EROFS | _ \<Rightarrow> Inr (), w') \<and> w_tried w' = w_tried w"
proof -
  obtain v oid x w2 where v: "vr_view (w_vr w) = Some v"
      and m: "vm_map (vv_view v) p w = (Inr (Some oid), w2)" "w_store w2 = w_store w" "w_env w2 = []"
      "obj (w_store w) (prefixed_oid lb oid) = Some x" "a_guard (prefixed_oid lb oid) (vv_epoch v) (Some x) = Inr x"
      "at (w_store w) p = ao_get x p"
    by (rule mapped_quiet [OF w])
  obtain r s where f: "lb_Fill lb oid (vv_epoch v) p (w_store w) = (r, s)" by force
  have "r = (case ao_get x p of Some (Data d) \<Rightarrow> Inl EROFS | _ \<Rightarrow> Inr ())"
    using fill_ret [OF okD(1) [OF wok_ok [OF w(1)]], of "prefixed_oid lb oid" "vv_epoch v" p] m(4,5) f
    by (auto simp: lb_defs a_fill_def split: option.split entry.split)
  then show ?thesis
    using w(2) v m f vm_map_quiet(4) [OF m(1)]
    by (intro exI [of _ "w2\<lparr>w_store := s\<rparr>"]) (auto simp: quiet_def split: option.split entry.split)
qed

lemma trim_quiet:
  assumes w: "wok w" "quiet w" "served obj lb (hist (w_store w)) p w"
  shows "\<exists>w'. trim_run (Suc n) m codec lb opts p w = Some (Inr (), w') \<and> w_tried w' = w_tried w
    \<and> wok w' \<and> quiet w' \<and> served obj lb (hist (w_store w')) p w' \<and> at (w_store w') p = Some Junk"
proof -
  obtain v oid x w2 where v: "vr_view (w_vr w) = Some v" "up_to_date (hist (w_store w)) v" "slot_oid (vv_view v) p = Some oid"
      and m: "vm_map (vv_view v) p w = (Inr (Some oid), w2)" "w_store w2 = w_store w" "w_env w2 = []"
      "obj (w_store w) (prefixed_oid lb oid) = Some x" "unat (ao_epoch x) \<le> length (hist (w_store w))"
      "a_guard (prefixed_oid lb oid) (vv_epoch v) (Some x) = Inr x" "at (w_store w) p = ao_get x p"
    by (rule mapped_quiet [OF w])
  obtain r s where f: "lb_Trim lb oid (vv_epoch v) p False False (w_store w) = (r, s)" by force
  note ok = wok_ok [OF w(1)]
  have h: "vv_view v \<in> set (hist (w_store w))" by (rule held_view(1) [OF ok current_view_held [OF w(1) v(1)]])
  have r: "r = Inr ()"
    using trim_ret [OF okD(1) [OF ok], of "prefixed_oid lb oid" "vv_epoch v" p False False] m(4,6) f
    by (simp add: lb_defs a_trim_def)
  note tl = trim_log [OF ok h v(3) f]
  let ?w = "w2\<lparr>w_store := s\<rparr>"
  have "\<exists>y. obj s (prefixed_oid lb oid) = Some y \<and> ao_epoch y = ao_epoch x"
    using trim_state [OF okD(1) [OF ok], of "prefixed_oid lb oid" "vv_epoch v" p False False r s] f m(4,6)
    by (auto simp: lb_defs a_trim_def)
  then have "served obj lb (hist s) p ?w"
    using vm_map_quiet(3) [OF m(1)] v tl m(5) unfolding served_def by fastforce
  moreover have "wok ?w" "quiet ?w"
    using w(1,2) vm_map_quiet(2,3) [OF m(1)] tl by (simp_all add: world_ok_def quiet_def)
  ultimately show ?thesis
    using w(2) v m f r tl vm_map_quiet(4) [OF m(1)] by (intro exI [of _ ?w]) (auto simp: quiet_def)
qed

section \<open>Trimming a prefix\<close>

lemma trim_keeps_unfenced:
  assumes "ok s" and "unfenced obj lb k v s" and "lb_Trim lb oid e p lim full s = (r, s')"
  shows "unfenced obj lb k v s'"
proof -
  let ?o = "prefixed_oid lb oid"
  have s': "obj s' = (obj s)(?o := snd (a_trim ?o e p lim full (obj s ?o)))"
    using trim_state [OF okD(1) [OF assms(1)], of ?o e p lim full r s'] assms(3) by (simp add: lb_defs)
  have "\<exists>y. snd (a_trim ?o e p lim full (Some x)) = Some y \<and> ao_epoch y = ao_epoch x" for x
    by (auto simp: a_trim_def a_guard_def Let_def split: option.split if_split)
  then show ?thesis using assms(2) s' by (fastforce simp: unfenced_def)
qed

text \<open>Every object \<^verbatim>\<open>map_to\<close> lists holds a position of the log.\<close>

lemma map_to_slot:
  assumes "ok s" and "v \<in> set (hist s)"
    and m: "om_map_to (v_object_map v) p i False = Some (Some objs, i', False)" and k: "(oid, full) \<in> set objs"
  shows "\<exists>q\<le>p. slot_oid v q = Some oid"
proof -
  have wf: "om_wf (v_object_map v)" "om_aligned (v_object_map v)"
    using assms(2) okD(3) [OF assms(1)] by (auto simp: history_wf_def view_wf_def)
  have span: "unat p < om_span (v_object_map v)"
    using m k om_map_mapped [OF wf(1), of p] by (auto simp: om_map_to_def Option.bind_eq_Some_conv split: if_splits)
  have i: "unat i < chain_ids (stripes_by_pos (v_object_map v))"
    using m om_wf_chain(3) [OF wf(1)]
    by (auto simp: om_map_to_def Option.bind_eq_Some_conv num_stripes_def word_le_nat_alt split: if_splits)
  obtain c p' where c: "oid = oid_of_slot (unat i, c)" "p' \<le> unat p" "om_locate (v_object_map v) p' = Some (unat i, c)"
    using map_to_stripe [OF wf span i] m k by auto
  have "p' < 2 ^ 64" by (rule le_less_trans [OF c(2)]) simp
  then have "unat (of_nat p' :: u64) = p'" by (intro unat_of_nat_u64) simp
  then show ?thesis using c by (intro exI [of _ "of_nat p'"]) (simp add: slot_oid_def word_le_nat_alt)
qed

lemma trim_objects_quiet:
  assumes wf: "v \<in> set (hist (w_store w0))" and e: "e \<noteq> 0" "unat e = k"
    and M: "om_map_to (v_object_map v) p i False = Some (Some objs0, i', False)"
  shows "set objs \<subseteq> set objs0 \<Longrightarrow> ok (w_store w) \<Longrightarrow> hist (w_store w) = hist (w_store w0) \<Longrightarrow> w_env w = [] \<Longrightarrow>
    unfenced obj lb k v (w_store w) \<Longrightarrow>
    \<exists>s. trim_objects m codec lb opts e p objs w = Some (TDone, w\<lparr>w_store := s\<rparr>) \<and> ok s
      \<and> hist s = hist (w_store w0) \<and> unfenced obj lb k v s"
proof (induction objs arbitrary: w)
  case Nil
  then show ?case by (intro exI [of _ "w_store w"]) simp
next
  case (Cons x objs)
  obtain oid full where x: "x = (oid, full)" by (cases x)
  have vh: "v \<in> set (hist (w_store w))" using wf Cons.prems(3) by simp
  have k: "(oid, full) \<in> set objs0" using Cons.prems(1) x by simp
  obtain r s where f: "lb_Trim lb oid e p True full (w_store w) = (r, s)" by force
  note tl = trim_to_object(1) [OF Cons.prems(2) vh M k f]
  have u: "unfenced obj lb k v s" by (rule trim_keeps_unfenced [OF Cons.prems(2,5) f])
  obtain q where "slot_oid v q = Some oid" using map_to_slot [OF Cons.prems(2) vh M k] by blast
  then obtain y where y: "obj (w_store w) (prefixed_oid lb oid) = Some y" "unat (ao_epoch y) \<le> k"
    using Cons.prems(5) unfolding unfenced_def by blast
  have "a_guard (prefixed_oid lb oid) e (Some y) = Inr y" using y(2) e by (simp add: a_guard_def word_less_nat_alt)
  then have "r = Inr ()"
    using trim_ret [OF okD(1) [OF Cons.prems(2)], of "prefixed_oid lb oid" e p True full] f y(1)
    by (simp add: lb_defs a_trim_def Let_def)
  then have "trim_objects m codec lb opts e p (x # objs) w = trim_objects m codec lb opts e p objs (w\<lparr>w_store := s\<rparr>)"
    using f Cons.prems(4) x by simp
  then show ?case using Cons.IH [of "w\<lparr>w_store := s\<rparr>"] tl u Cons.prems by auto
qed

lemma trim_stripes_quiet:
  assumes wf: "vv_view v \<in> set (hist (w_store w0))" and ok0: "ok (w_store w0)"
    and e: "vv_epoch v \<noteq> 0" "unat (vv_epoch v) = k" and span: "unat p < om_span (v_object_map (vv_view v))"
  shows "om_ids (v_object_map (vv_view v)) < unat i + n \<Longrightarrow> ok (w_store w) \<Longrightarrow> hist (w_store w) = hist (w_store w0) \<Longrightarrow>
    w_env w = [] \<Longrightarrow> unfenced obj lb k (vv_view v) (w_store w) \<Longrightarrow> unat i \<le> om_ids (v_object_map (vv_view v)) \<Longrightarrow>
    \<exists>s. trim_stripes n m codec lb opts v p i w = Some (TDone, w\<lparr>w_store := s\<rparr>)"
proof (induction n arbitrary: i w)
  case (Suc n)
  let ?om = "v_object_map (vv_view v)"
  have vw: "view_wf (vv_view v)" "om_aligned ?om" using wf okD(3) [OF ok0] by (auto simp: history_wf_def)
  have om: "om_wf ?om" using vw(1) by (simp add: view_wf_def)
  obtain objs i' d where m: "vm_map_to (vv_view v) p i False = Some (objs, i', d)"
    using map_to_total [OF vw, of p i] by (metis option.exhaust prod.collapse)
  have M: "om_map_to ?om p i False = Some (objs, i', d)" using m by (simp add: vm_map_to_def)
  have o: "objs \<noteq> None" using M om_map_mapped [OF om, of p] span
    by (auto simp: om_map_to_def Option.bind_eq_Some_conv split: if_splits)
  show ?case
  proof (cases d)
    case True
    then show ?thesis using m by (intro exI [of _ "w_store w"]) simp
  next
    case False
    obtain os where os: "objs = Some os" using o by blast
    have i': "unat i' = unat i + 1" using map_to_cases(2) [OF vw m False o] by blast
    have lt: "unat i < om_ids ?om"
      using M False o om_wf_chain(3) [OF om]
      by (auto simp: om_map_to_def Option.bind_eq_Some_conv num_stripes_def om_ids_def word_le_nat_alt split: if_splits)
    obtain s where s: "trim_objects m codec lb opts (vv_epoch v) p os w = Some (TDone, w\<lparr>w_store := s\<rparr>)" "ok s"
        "hist s = hist (w_store w0)" "unfenced obj lb k (vv_view v) s"
      using trim_objects_quiet [OF wf e, of p i os i' os w m opts] M os False Suc.prems by auto
    then show ?thesis
      using Suc.IH [of i' "w\<lparr>w_store := s\<rparr>"] Suc.prems i' lt m os False by auto
  qed
qed simp

lemma trim_to_quiet:
  assumes w: "wok w" "quiet w" and v: "vr_view (w_vr w) = Some v" "up_to_date (hist (w_store w)) v"
    and u: "unfenced obj lb (length (hist (w_store w))) (vv_view v) (w_store w)"
    and b: "length (hist (w_store w)) + 1 < 2 ^ 64"
    and p: "unat p < om_span (v_object_map (vv_view v))" "unat p + 1 < 2 ^ 64"
    and n: "om_ids (v_object_map (vv_view v)) < n"
  shows "\<exists>w'. trim_to_run (Suc (Suc n)) (Suc (Suc m)) codec lb opts p w = Some (Inr (), w') \<and> w_tried w' = w_tried w"
proof -
  have last: "\<exists>w'. trim_to_run (Suc k) (Suc (Suc m)) codec lb opts p w1 = Some (Inr (), w') \<and> w_tried w' = w_tried w1"
    if w1: "wok w1" "quiet w1" and v1: "vr_view (w_vr w1) = Some v1" "up_to_date (hist (w_store w1)) v1"
      and u1: "unfenced obj lb (length (hist (w_store w1))) (vv_view v1) (w_store w1)"
      and p1: "unat p < om_span (v_object_map (vv_view v1))" "\<not> min_valid_position (v_object_map (vv_view v1)) \<le> p"
      and k: "om_ids (v_object_map (vv_view v1)) < k" for w1 v1 k
  proof -
    have vh: "vv_view v1 \<in> set (hist (w_store w1))" "vv_epoch v1 \<noteq> 0"
      using held_view(1) [OF wok_ok [OF w1(1)] current_view_held [OF w1(1) v1(1)]] current_view_held [OF w1(1) v1(1)]
      by (auto simp: view_held_def)
    have "unat (vv_epoch v1) = length (hist (w_store w1))" using v1(2) by (simp add: up_to_date_def)
    then obtain s where "trim_stripes k (Suc (Suc m)) codec lb opts v1 p 0 w1 = Some (TDone, w1\<lparr>w_store := s\<rparr>)"
      using trim_stripes_quiet [OF vh(1) wok_ok [OF w1(1)] vh(2) _ p1(1), of _ 0 k w1 "Suc (Suc m)" opts] k u1 w1
      by (auto simp: quiet_def wok_ok)
    then show ?thesis using w1(2) v1(1) p1(2) by (intro exI [of _ "w1\<lparr>w_store := s\<rparr>"]) (simp add: quiet_def)
  qed
  let ?om = "v_object_map (vv_view v)"
  show ?thesis
  proof (cases "min_valid_position ?om \<le> p")
    case False
    then show ?thesis using last [OF w v u p(1) False, of "Suc n"] n by (simp del: trim_to_run.simps)
  next
    case True
    have wf: "view_wf (vv_view v)" "om_aligned ?om" using up_to_date_held [OF w(1) v] by blast+
    have p1: "p < p + 1" using p(2) by (simp add: word_less_nat_alt unat_word_ariths)
    let ?nv = "(vv_view v)\<lparr>v_object_map := ?om\<lparr>min_valid_position := p + 1\<rparr>\<rparr>"
    have adv: "view_advance_min_valid_position (vv_view v) (p + 1) = Some (Some ?nv)"
      using view_advance_some(1) [OF wf(1), of "p + 1"] True p1 by (auto dest: less_le_trans)
    note ad = advance_derive [OF wf adv]
    obtain data where d: "view_encode codec ?nv = Some data" using view_encode_some ad by blast
    obtain s vr v' where s: "vm_ProposeView codec lb (vv_epoch v + 1) data w = (Inr (), w\<lparr>w_store := s\<rparr>)"
        "update_current_view (Suc (Suc m)) codec lb opts (vv_epoch v) True (w\<lparr>w_store := s\<rparr>)
          = Some (Inr (), w\<lparr>w_store := s, w_vr := vr\<rparr>)"
        "obj s = obj (w_store w)" "hist s = hist (w_store w) @ [?nv]" "vr_view vr = Some v'" "up_to_date (hist s) v'"
        "wok (w\<lparr>w_store := s, w_vr := vr\<rparr>)" "quiet (w\<lparr>w_store := s, w_vr := vr\<rparr>)"
      using propose_quiet [OF w v b _ _ _ d, of m opts] ad by blast
    let ?w1 = "w\<lparr>w_store := s, w_vr := vr\<rparr>"
    have a: "vm_advance_min_valid_position (Suc (Suc m)) codec lb opts (p + 1) w = Some (Inr (), ?w1)"
      using w(2) v(1) adv d s(1,2) by (simp add: vm_advance_min_valid_position_def quiet_def)
    have nv: "vv_view v' = ?nv" using s(4,6) by (simp add: up_to_date_def)
    have same: "om_span (v_object_map ?nv) = om_span ?om" "om_ids (v_object_map ?nv) = om_ids ?om"
      "\<And>q. slot_oid ?nv q = slot_oid (vv_view v) q"
      by (simp_all add: om_span_def om_ids_def slot_oid_def om_locate_def)
    have u1: "unfenced obj lb (length (hist s)) (vv_view v') s"
      using u s(3,4) same(3) nv by (fastforce simp: unfenced_def)
    obtain w' where w': "trim_to_run (Suc n) (Suc (Suc m)) codec lb opts p ?w1 = Some (Inr (), w')" "w_tried w' = w_tried w"
      using last [OF s(7,8), of v' n] s(5,6) u1 nv same p(1) p1 n by (auto simp: not_le simp del: trim_to_run.simps)
    have "trim_to_run (Suc (Suc n)) (Suc (Suc m)) codec lb opts p w = trim_to_run (Suc n) (Suc (Suc m)) codec lb opts p ?w1"
      by (subst trim_to_run.simps(2)) (use w(2) v(1) True a in \<open>simp add: quiet_def del: trim_to_run.simps\<close>)
    then show ?thesis using w' by metis
  qed
qed

end

end
