(* ===== verification/RAM_Log.thy ===== *)
theory RAM_Log
  imports Quiet_Runs
begin

text \<open>
  The log on top of the in-memory backend: every client of a log kept by \<^verbatim>\<open>RAMBackend\<close> meets the
  contract \<open>log_client\<close>, and opening a log leads to a world in which the results about the log
  operations apply. \<open>ram_good\<close> is the invariant of the whole storage: the backend's own, the one of
  every log in the directory, that the generator gives no string with a NUL, and that nothing is stored
  yet under the names it has still to give.
\<close>

definition ram_client :: "view_codec \<Rightarrow> ram log_backend \<Rightarrow> bool" where
  "ram_client codec lb \<longleftrightarrow> codec_ok codec \<and> lb_ops lb = ram_ops \<and> starts_with (lb_prefix lb) ''zlog.data.''"

abbreviation ram_log_ok :: "view_codec \<Rightarrow> ram log_backend \<Rightarrow> ram \<Rightarrow> bool" where
  "ram_log_ok \<equiv> log_inv ram_inv ram_obj ram_views"

abbreviation ram_log_at :: "view_codec \<Rightarrow> ram log_backend \<Rightarrow> ram \<Rightarrow> u64 \<Rightarrow> entry option" where
  "ram_log_at \<equiv> log_at ram_obj ram_views"

abbreviation ram_log_le :: "view_codec \<Rightarrow> ram log_backend \<Rightarrow> ram \<Rightarrow> ram \<Rightarrow> bool" where
  "ram_log_le \<equiv> log_le ram_obj ram_views"

abbreviation ram_log_views :: "view_codec \<Rightarrow> ram log_backend \<Rightarrow> ram \<Rightarrow> view list" where
  "ram_log_views \<equiv> log_views ram_views"

abbreviation ram_world_ok :: "view_codec \<Rightarrow> ram log_backend \<Rightarrow> ram world \<Rightarrow> bool" where
  "ram_world_ok \<equiv> world_ok ram_inv ram_obj ram_views"

lemma ram_log_client:
  "ram_client codec lb \<Longrightarrow> log_client ram_ops ram_inv ram_is_data ram_obj ram_views ram_logs codec lb"
  using ram.backend_axioms by (simp add: ram_client_def log_client_def log_client_axioms_def prefixed_oid_def)

text \<open>The handle of a client on the log with a given key.\<close>

definition ram_handle :: "string \<Rightarrow> string \<Rightarrow> ram log_backend" where
  "ram_handle key token = \<lparr>lb_ops = ram_ops, lb_hoid = ''zlog.head.'' @ key, lb_prefix = ''zlog.data.'' @ key,
     lb_token = token\<rparr>"

lemma ram_handle_client: "codec_ok codec \<Longrightarrow> ram_client codec (ram_handle key token)"
  by (simp add: ram_client_def ram_handle_def starts_with_def)

interpretation ram_log: log_client ram_ops ram_inv ram_is_data ram_obj ram_views ram_logs text_codec "ram_handle key token"
  for key token
  by (rule ram_log_client [OF ram_handle_client [OF text_codec_ok]])

section \<open>The invariant of the storage\<close>

definition ram_good :: "view_codec \<Rightarrow> ram \<Rightarrow> bool" where
  "ram_good codec s \<longleftrightarrow> ram_inv s \<and> (\<forall>i. CHR 0x00 \<notin> set (ram_uuids s i))
     \<and> (\<forall>name h pf t. ram_logs s name = Some (h, pf) \<longrightarrow>
          ram_log_ok codec \<lparr>lb_ops = ram_ops, lb_hoid = h, lb_prefix = pf, lb_token = t\<rparr> s)
     \<and> (\<forall>n oid. ram_next_uuid s \<le> n \<longrightarrow> ram_obj s (''zlog.data.'' @ ram_uuids s n @ ''.'' @ oid) = None)"

lemma ram_new_good: "inj uuids \<Longrightarrow> \<forall>i. CHR 0x00 \<notin> set (uuids i) \<Longrightarrow> ram_good codec (ram_new uuids)"
  using ram_new_inv [of uuids] by (simp add: ram_good_def ram_new_def ram_logs_def ram_obj_def)

lemma initial_aligned: "om_aligned (initial_map opts)"
  by (simp add: om_aligned_def initial_map_def chain_map_def initial_stripe_def)

lemma log_inv_keep:
  assumes "ram_log_ok codec lb s" and "ram_inv s'" and "ram_obj s' = ram_obj s"
    and "ram_views s' (lb_hoid lb) = ram_views s (lb_hoid lb)"
  shows "ram_log_ok codec lb s'"
  using assms by (simp add: log_inv_def log_views_def)

definition init_options_ok :: "options \<Rightarrow> bool" where
  "init_options_ok opts \<longleftrightarrow> (create_initial_view_stripes opts \<longrightarrow> stripe_options_ok opts)"

lemma log_inv_initial:
  assumes "codec_ok codec" and "init_options_ok opts" and "create_initial codec opts = Some view"
    and "ram_inv s" and "ram_views s (lb_hoid lb) = Some [view]"
    and "\<And>oid. ram_obj s (prefixed_oid lb oid) = None"
  shows "ram_log_ok codec lb s"
proof -
  let ?v = "\<lparr>v_object_map = initial_map opts, v_seq_config = None\<rparr>"
  have v: "view_decode codec view = Some ?v"
    using create_initial_decode [OF assms(1) assms(2) [unfolded init_options_ok_def]] assms(3) by (metis option.inject)
  then have h: "view_history codec [view] = Some [?v]" by (simp add: view_history_def)
  have "view_wf ?v" using initial_map_wf assms(2) by (simp add: view_wf_def init_options_ok_def)
  then show ?thesis
    using assms(4-6) h initial_aligned by (simp add: log_inv_def log_wf_def log_views_def history_wf_def)
qed

lemma create_uuid:
  assumes "ram_CreateLog name view s = (r, s')"
  shows "ram_uuids s' = ram_uuids s" and "ram_next_uuid s \<le> ram_next_uuid s'"
    and "r = Inr (h, pf) \<Longrightarrow> pf = ''zlog.data.'' @ ram_uuids s (ram_next_uuid s)"
  using assms by (auto simp: ram_CreateLog_def Let_def split: if_splits prod.splits)

lemma create_good:
  assumes g: "ram_good codec s" and c: "codec_ok codec" "init_options_ok opts" "create_initial codec opts = Some view"
    and r: "ram_CreateLog name view s = (r, s')"
  shows "ram_good codec s'" and "r = Inr (h, pf) \<Longrightarrow> ram_logs s' name = Some (h, pf)"
    and "r = Inl e \<Longrightarrow> e = (if name = '''' then EINVAL else EEXIST)"
    and "\<forall>n x. ram_logs s n = Some x \<longrightarrow> ram_logs s' n = Some x"
proof -
  have inv: "ram_inv s" using g by (simp add: ram_good_def)
  note u = create_uuid [OF r]
  have rc: "b_CreateLog ram_ops name view s = (r, s')" using r by (simp add: ram_ops_def)
  note cs = ram.create_state [OF inv rc]
  show new: "r = Inr (h, pf) \<Longrightarrow> ram_logs s' name = Some (h, pf)" for h pf using cs by simp
  show "r = Inl e \<Longrightarrow> e = (if name = '''' then EINVAL else EEXIST)" using cs by simp
  show keep: "\<forall>n x. ram_logs s n = Some x \<longrightarrow> ram_logs s' n = Some x"
    using cs by (auto split: sum.splits)
  have old: "ram_log_ok codec \<lparr>lb_ops = ram_ops, lb_hoid = h, lb_prefix = pf, lb_token = t\<rparr> s'"
    if "ram_logs s n = Some (h, pf)" for n h pf t
  proof (rule log_inv_keep)
    let ?lb = "\<lparr>lb_ops = ram_ops, lb_hoid = h, lb_prefix = pf, lb_token = t\<rparr>"
    show ok: "ram_log_ok codec ?lb s" using g that unfolding ram_good_def by blast
    then obtain vs where "ram_views s h = Some vs" by (auto simp: log_inv_def)
    then show "ram_views s' (lb_hoid ?lb) = ram_views s (lb_hoid ?lb)" using cs by simp
  qed (use cs in simp_all)
  have "ram_log_ok codec \<lparr>lb_ops = ram_ops, lb_hoid = h, lb_prefix = pf, lb_token = t\<rparr> s'"
    if "ram_logs s' n = Some (h, pf)" for n h pf t
  proof (cases "ram_logs s n = Some (h, pf)")
    case True
    then show ?thesis by (rule old)
  next
    case False
    then have r': "r = Inr (h, pf)" using that cs by (auto split: sum.splits if_splits)
    show ?thesis
      by (rule log_inv_initial [OF c])
        (use r' cs u(3) [OF r'] g in \<open>auto simp: prefixed_oid_def ram_good_def\<close>)
  qed
  then show "ram_good codec s'" using cs u(1,2) g by (auto simp: ram_good_def)
qed

section \<open>Opening a log\<close>

text \<open>What the other clients may do while a log is being opened.\<close>

definition env_ok :: "view_codec \<Rightarrow> (ram \<Rightarrow> ram) list \<Rightarrow> bool" where
  "env_ok codec env \<longleftrightarrow> (\<forall>f\<in>set env. \<forall>s. ram_good codec s \<longrightarrow>
     ram_good codec (f s) \<and> (\<forall>n x. ram_logs s n = Some x \<longrightarrow> ram_logs (f s) n = Some x))"

lemma disturb_good:
  assumes "disturb env s = (s', env')" and "env_ok codec env" and "ram_good codec s"
  shows "ram_good codec s'" and "env_ok codec env'" and "ram_logs s n = Some x \<Longrightarrow> ram_logs s' n = Some x"
  using assms by (auto simp: disturb_def env_ok_def split: list.splits) (metis prod.collapse)

lemma open_loop_good:
  assumes c: "codec_ok codec" "init_options_ok opts"
  shows "open_loop n env codec ram_ops opts name s = Some (r, env', s') \<Longrightarrow> env_ok codec env \<Longrightarrow> ram_good codec s \<Longrightarrow>
    ram_good codec s' \<and> env_ok codec env' \<and> (case r of
        Inr (h, pf, created) \<Rightarrow> ram_logs s' name = Some (h, pf) \<and> (error_if_exists opts \<longrightarrow> created)
      | Inl e \<Rightarrow> e = EINVAL \<and> name = '''' \<or> e = ENOENT \<and> \<not> create_if_missing opts \<or> e = EEXIST \<and> error_if_exists opts)"
proof (induction n arbitrary: env s)
  case (Suc n)
  obtain s1 env1 where d: "disturb env s = (s1, env1)" by force
  note g1 = disturb_good [OF d Suc.prems(2,3)]
  have inv: "ram_inv s1" using g1 by (simp add: ram_good_def)
  note os = ram.open_spec [OF inv, of name]
  obtain view where view: "create_initial codec opts = Some view"
    using create_initial_decode [OF c(1) c(2) [unfolded init_options_ok_def]] by metis
  show ?case
  proof (cases "b_OpenLog ram_ops name s1 = Inl ENOENT \<and> create_if_missing opts")
    case False
    then show ?thesis
      using Suc.prems(1) d g1 os by (auto split: option.splits if_splits)
  next
    case True
    obtain s2 env2 where d2: "disturb env1 s1 = (s2, env2)" by force
    note g2 = disturb_good [OF d2 g1(2,1)]
    obtain rc s3 where cr: "ram_CreateLog name view s2 = (rc, s3)" by force
    note cg = create_good [OF g2(1) c view cr]
    have cb: "b_CreateLog ram_ops name view s2 = (rc, s3)" using cr by (simp add: ram_ops_def)
    have name: "name \<noteq> ''''" using True os by auto
    show ?thesis
    proof (cases rc)
      case (Inr hp)
      obtain h pf where hp: "hp = (h, pf)" by (cases hp)
      then have "r = Inr (h, pf, True)" "env' = env2" "s' = s3"
        using Suc.prems(1) d True view d2 cb Inr by auto
      then show ?thesis using cg(1) cg(2) [of h pf] g2(2) Inr hp by simp
    next
      case (Inl e)
      then have e: "e = EEXIST" using cg(3) name by simp
      show ?thesis
      proof (cases "error_if_exists opts")
        case True
        then have "r = Inl EEXIST" "env' = env2" "s' = s3"
          using Suc.prems(1) d \<open>_ \<and> create_if_missing opts\<close> view d2 cb Inl e by auto
        then show ?thesis using cg(1) g2(2) True by simp
      next
        case False
        then have "open_loop n env2 codec ram_ops opts name s3 = Some (r, env', s')"
          using Suc.prems(1) d True view d2 cb Inl e by auto
        then show ?thesis using Suc.IH g2(2) cg(1) by blast
      qed
    qed
  qed
qed simp

lemma unique_good:
  assumes "ram_good codec s" and "ram_uniqueId h s = (r, s')"
  shows "ram_good codec s'" and "ram_logs s' = ram_logs s" and "h \<noteq> '''' \<Longrightarrow> r = Inr (ram_unique_id s)"
proof -
  have inv: "ram_inv s" using assms(1) by (simp add: ram_good_def)
  have "b_uniqueId ram_ops h s = (r, s')" using assms(2) by (simp add: ram_ops_def)
  note us = ram.unique_state [OF inv this]
  show "ram_logs s' = ram_logs s" using us by simp
  show "h \<noteq> '''' \<Longrightarrow> r = Inr (ram_unique_id s)" using assms(2) by (simp add: ram_uniqueId_def)
  have "ram_uuids s' = ram_uuids s" "ram_next_uuid s' = ram_next_uuid s"
    using assms(2) by (auto simp: ram_uniqueId_def split: if_splits)
  then show "ram_good codec s'"
    using assms(1) us log_inv_keep [of codec _ s s'] by (simp add: ram_good_def)
qed

lemma create_or_open_good:
  assumes c: "codec_ok codec" "init_options_ok opts" and e: "env_ok codec env" and g: "ram_good codec s"
    and co: "create_or_open n env codec (Some ram_ops) load host opts name s = Some (r, s')"
  shows "ram_good codec s' \<and> (case r of
      Inr (lb, created) \<Rightarrow> ram_client codec lb \<and> ram_logs s' name = Some (lb_hoid lb, lb_prefix lb)
        \<and> ram_log_ok codec lb s' \<and> (\<exists>uid. lb_token lb = client_token name (lb_hoid lb) host uid)
    | Inl e \<Rightarrow> e = EINVAL \<and> name = '''' \<or> e = ENOENT \<and> \<not> create_if_missing opts \<or> e = EEXIST \<and> error_if_exists opts)"
proof (cases "name = ''''")
  case True
  then show ?thesis using co g by (auto simp: create_or_open_def)
next
  case False
  obtain lr env1 s1 where l: "open_loop n env codec ram_ops opts name s = Some (lr, env1, s1)"
    using co False by (auto simp: create_or_open_def split: option.splits)
  note lg = open_loop_good [OF c l e g]
  show ?thesis
  proof (cases lr)
    case (Inl x)
    then have "r = Inl x" "s' = s1" using co False l by (auto simp: create_or_open_def)
    then show ?thesis using lg Inl by simp
  next
    case (Inr x)
    obtain h pf cr where x: "x = (h, pf, cr)" by (metis prod.collapse)
    obtain s2 env2 where d: "disturb env1 s1 = (s2, env2)" by force
    have g2: "ram_good codec s2" "ram_logs s2 name = Some (h, pf)"
      using disturb_good [OF d, of codec] lg Inr x by auto
    obtain u s3 where u: "ram_uniqueId h s2 = (u, s3)" by force
    note ug = unique_good [OF g2(1) u]
    have inv: "ram_inv s2" "ram_inv s3" using g2(1) ug(1) by (simp_all add: ram_good_def)
    have lo: "pf \<noteq> ''''" "ram_is_data (pf @ ''.'' @ oid)" "ram_views s2 h \<noteq> None" for oid
      using ram.logs_ok [OF inv(1) g2(2)] by blast+
    have h: "h \<noteq> ''''" using ram.views_bound [OF inv(1)] lo(3) by blast
    let ?t = "client_token name h host (ram_unique_id s2)"
    let ?lb = "\<lparr>lb_ops = ram_ops, lb_hoid = h, lb_prefix = pf, lb_token = ?t\<rparr>"
    have "log_backend_new ram_ops h pf ?t = Some ?lb" using h lo(1) by (simp add: log_backend_new_def client_token_def)
    then have r: "r = Inr (?lb, cr)" "s' = s3"
      using co False l Inr x d u ug(3) [OF h] by (auto simp: create_or_open_def ram_ops_def)
    have "starts_with pf ''zlog.data.''"
      using g2(2) inv(1) by (auto simp: ram_logs_def ram_inv_def ram_object_wf_def split: option.splits ram_object.splits)
    then have "ram_client codec ?lb" using c(1) by (simp add: ram_client_def)
    moreover have "ram_logs s3 name = Some (h, pf)" using g2(2) ug(2) by simp
    moreover have "ram_log_ok codec ?lb s3" using ug(1) calculation(2) unfolding ram_good_def by blast
    ultimately show ?thesis using r ug(1) by auto
  qed
qed

text \<open>The token of a client has no NUL when its parts have none.\<close>

definition names_ok :: "string \<Rightarrow> string \<Rightarrow> bool" where
  "names_ok name host \<longleftrightarrow> CHR 0x00 \<notin> set name \<and> CHR 0x00 \<notin> set host"

lemma show_nat_no_nul: "CHR 0x00 \<notin> set (show_nat n)"
  using show_nat_digits [of "CHR 0x00" n] by (auto simp: is_digit_def)

lemma client_token_ok:
  assumes "names_ok name host" and "CHR 0x00 \<notin> set hoid"
  shows "token_ok (client_token name hoid host uid)"
  using assms show_nat_no_nul by (simp add: token_ok_def client_token_def names_ok_def)

lemma hoid_no_nul:
  assumes "ram_good codec s" and "ram_logs s name = Some (h, pf)"
  shows "CHR 0x00 \<notin> set h"
proof -
  obtain po where "map_of (ram_objects s) h = Some (ProjObject po)"
    using assms(2) by (auto simp: ram_logs_def split: option.splits ram_object.splits)
  moreover have "ram_inv s" using assms(1) by (simp add: ram_good_def)
  ultimately have "ram_object_wf s h (ProjObject po)" unfolding ram_inv_def by blast
  then obtain i where "h = ''zlog.head.'' @ ram_uuids s i" by (auto simp: ram_object_wf_def)
  then show ?thesis using assms(1) by (auto simp: ram_good_def)
qed

context log_client
begin

lemma opened_world:
  assumes ok: "ok s" and t: "token_ok (lb_token lb)" and r: "refresh_view codec lb s (view_reader_new opts) = Some vr"
    and p: "propose_sequencer n codec lb opts \<lparr>w_store = s, w_env = wenv, w_vr = vr, w_vm = vm, w_stats = st, w_tried = []\<rparr>
      = Some (Inr u, w1)"
    and c: "(if b then (case current_view codec lb w1 of
          (None, w2) \<Rightarrow> (False, w2)
        | (Some v, w2) \<Rightarrow> (True, if om_empty (v_object_map (vv_view v)) then w2
            else w2\<lparr>w_vm := async_init_stripe 0 (w_vm w2)\<rparr>)) else (True, w1)) = (True, w2)"
    and tr: "tried_ok w2"
  shows "wok w2"
proof -
  let ?w = "\<lparr>w_store = s, w_env = wenv, w_vr = vr, w_vm = vm, w_stats = st, w_tried = []\<rparr>"
  have n: "vr_wf (lb_token lb) (view_reader_new opts)" "vr_cached (hist s) (view_reader_new opts)"
    by (simp_all add: vr_wf_def vr_cached_def view_reader_new_def)
  obtain vr' v sq where "refresh_view codec lb s (view_reader_new opts) = Some vr'" "vr_wf (lb_token lb) vr'"
      "vr' = (view_reader_new opts)\<lparr>vr_seqs := vr_seqs (view_reader_new opts) @ sq, vr_view := Some v\<rparr>"
      "vr_cached (hist s) vr'"
    using refresh_view_ok [OF ok n] by metis
  then have w: "wok ?w" using ok r by (simp add: world_ok_def)
  have e: "ext ?w w1" by (rule propose_sequencer_ext [OF t p])
  have "ext w1 w2"
  proof (cases b)
    case True
    obtain cv w3 where cv: "current_view codec lb w1 = (cv, w3)" by force
    note x = conjunct1 [OF current_view_ext [OF cv]]
    have "ext w3 w2" using c True cv by (auto split: option.splits intro: ext_local)
    then show ?thesis by (rule ext_trans [OF x])
  qed (use c in simp)
  then show ?thesis using extD(2) [OF ext_trans [OF e] tr] w by blast
qed

end

lemma build_good:
  assumes c: "codec_ok codec" "init_options_ok opts" and e: "env_ok codec env" and g: "ram_good codec s"
    and nul: "names_ok name host"
    and b: "build_log_impl cls n env wenv codec (Some ram_ops) load host opts name s = Some (Inr l, s')"
    and t: "tried_ok (l_world l)"
  shows "ram_client codec (l_backend l) \<and> ram_world_ok codec (l_backend l) (l_world l) \<and> s' = w_store (l_world l)
    \<and> l_class l = cls \<and> l_name l = name \<and> l_options l = opts \<and> \<not> l_shutdown l \<and> token_ok (lb_token (l_backend l))"
proof -
  obtain lb cr s1 where co: "create_or_open n env codec (Some ram_ops) load host opts name s = Some (Inr (lb, cr), s1)"
    using b by (auto simp: build_log_impl_def split: option.splits sum.splits)
  note cg = create_or_open_good [OF c e g co, simplified]
  obtain vr where vr: "refresh_view codec lb s1 (view_reader_new opts) = Some vr" "vr_view vr \<noteq> None"
    using b co by (auto simp: build_log_impl_def split: option.splits if_splits)
  let ?vm = "\<lparr>vm_shutdown = False, vm_expand_pos = None, vm_stripe_init_pos = []\<rparr>"
  let ?w = "\<lparr>w_store = s1, w_env = wenv, w_vr = vr, w_vm = ?vm, w_stats = stats_new, w_tried = []\<rparr>"
  have vm: "view_manager_new vr = Some ?vm" using vr(2) by (simp add: view_manager_new_def)
  note bs = b [unfolded build_log_impl_def co, simplified, unfolded vr(1), simplified, unfolded vm Let_def, simplified]
  obtain pr w1 where p': "propose_sequencer n codec lb opts ?w = Some (pr, w1)"
    using bs vr(2) by (cases "propose_sequencer n codec lb opts ?w") auto
  have p: "propose_sequencer n codec lb opts ?w = Some (Inr (), w1)"
    using bs vr(2) p' by (cases pr) (auto split: option.splits)
  obtain bw where i0: "(if init_stripe_on_create opts \<and> cr then (case current_view codec lb w1 of
          (None, w2) \<Rightarrow> (False, w2)
        | (Some v, w2) \<Rightarrow> (True, if om_empty (v_object_map (vv_view v)) then w2
            else w2\<lparr>w_vm := async_init_stripe 0 (w_vm w2)\<rparr>)) else (True, w1)) = bw" by blast
  obtain bo w2 where bw: "bw = (bo, w2)" by (cases bw)
  note i = i0 [unfolded bw]
  have bl: "(case (bo, w2) of (False, w2) \<Rightarrow> Some (Inl Aborted, w_store w2)
      | (True, w2) \<Rightarrow> (case log_impl_new cls lb name opts w2 of
            None \<Rightarrow> Some (Inl Aborted, w_store w2) | Some l \<Rightarrow> Some (Inr l, w_store w2))) = Some (Inr l, s')"
    using bs vr(2) i by (simp add: p)
  then have bo: "bo" and l: "log_impl_new cls lb name opts w2 = Some l" "s' = w_store w2"
    by (auto split: bool.splits option.splits)
  then have lw: "l_world l = w2\<lparr>w_stats := stats_new\<rparr>" "l_backend l = lb"
    "l_class l = cls \<and> l_name l = name \<and> l_options l = opts \<and> \<not> l_shutdown l"
    by (auto simp: log_impl_new_def split: if_splits)
  have g1: "ram_good codec s1" and cl: "ram_client codec lb" and ok: "ram_log_ok codec lb s1"
    and lg: "ram_logs s1 name = Some (lb_hoid lb, lb_prefix lb)"
    and tk: "\<exists>uid. lb_token lb = client_token name (lb_hoid lb) host uid"
    using cg by blast+
  have tok: "token_ok (lb_token lb)" using tk client_token_ok [OF nul hoid_no_nul [OF g1 lg]] by auto
  have t2: "tried_ok w2" using t lw(1) by (simp add: tried_ok_def)
  have bo: "bo = True" using bo by simp
  have "ram_world_ok codec lb w2"
    by (rule log_client.opened_world [OF ram_log_client [OF cl] ok tok vr(1) p i [unfolded bo] t2])
  then have "ram_world_ok codec lb (w2\<lparr>w_stats := stats_new\<rparr>)" by (simp add: world_ok_def)
  then show ?thesis using cl l(2) lw tok by simp
qed

section \<open>Opening a log when nothing interferes\<close>

definition can_open :: "options \<Rightarrow> string \<Rightarrow> ram \<Rightarrow> bool" where
  "can_open opts name s \<longleftrightarrow> name \<noteq> '''' \<and> (case ram_logs s name of
     None \<Rightarrow> create_if_missing opts
   | Some (h, pf) \<Rightarrow> \<not> error_if_exists opts \<and> (\<forall>vs. ram_views s h = Some vs \<longrightarrow> length vs + 1 < 2 ^ 64))"

lemma log_views_length:
  assumes "ram_log_ok codec lb s" and "ram_views s (lb_hoid lb) = Some vs"
  shows "length (ram_log_views codec lb s) = length vs"
  using assms view_history_nth [of codec vs] by (auto simp: log_inv_def log_views_def)

definition initial_view :: "options \<Rightarrow> view" where
  "initial_view opts = \<lparr>v_object_map = initial_map opts, v_seq_config = None\<rparr>"

lemma open_loop_quiet:
  assumes c: "codec_ok codec" "init_options_ok opts" and g: "ram_good codec s" and o: "can_open opts name s"
  shows "\<exists>h pf cr s1 vs. open_loop (Suc n) [] codec ram_ops opts name s = Some (Inr (h, pf, cr), [], s1)
    \<and> ram_views s1 h = Some vs \<and> length vs + 1 < 2 ^ 64
    \<and> (ram_logs s name = None \<longrightarrow> (\<forall>oid. ram_obj s1 (pf @ ''.'' @ oid) = None)
        \<and> view_history codec vs = Some [initial_view opts])"
proof -
  have inv: "ram_inv s" and name: "name \<noteq> ''''" using g o by (simp_all add: ram_good_def can_open_def)
  obtain view where view: "create_initial codec opts = Some view" "view_decode codec view = Some (initial_view opts)"
    using create_initial_decode [OF c(1) c(2) [unfolded init_options_ok_def]] unfolding initial_view_def by metis
  note os = ram.open_spec [OF inv, of name]
  show ?thesis
  proof (cases "ram_logs s name")
    case (Some x)
    obtain h pf where x: "x = (h, pf)" by (cases x)
    obtain vs where "ram_views s h = Some vs" using ram.logs_ok [OF inv] Some x by blast
    then show ?thesis using Some x o os name by (auto simp: disturb_def can_open_def)
  next
    case None
    obtain rc s3 where cr: "b_CreateLog ram_ops name view s = (rc, s3)" by force
    note cs = ram.create_state [OF inv cr]
    obtain h pf where rc: "rc = Inr (h, pf)" using cs None name by (cases rc) (auto split: prod.splits)
    have "pf = ''zlog.data.'' @ ram_uuids s (ram_next_uuid s)"
      using create_uuid(3) [of name view s rc s3] cr rc by (simp add: ram_ops_def)
    then have "ram_obj s3 (pf @ ''.'' @ oid) = None" for oid using g cs by (simp add: ram_good_def)
    moreover have "view_history codec [view] = Some [initial_view opts]" using view(2) by (simp add: view_history_def)
    ultimately show ?thesis using None o os name view(1) cr cs rc by (auto simp: disturb_def can_open_def)
  qed
qed

lemma create_or_open_quiet:
  assumes c: "codec_ok codec" "init_options_ok opts" and g: "ram_good codec s" and o: "can_open opts name s"
  shows "\<exists>lb cr s1. create_or_open (Suc n) [] codec (Some ram_ops) load host opts name s = Some (Inr (lb, cr), s1)
    \<and> length (ram_log_views codec lb s1) + 1 < 2 ^ 64
    \<and> (ram_logs s name = None \<longrightarrow> blank ram_obj lb 0 s1 \<and> ram_log_views codec lb s1 = [initial_view opts])"
proof -
  obtain h pf cr s1 vs where l: "open_loop (Suc n) [] codec ram_ops opts name s = Some (Inr (h, pf, cr), [], s1)"
      and vs: "ram_views s1 h = Some vs" "length vs + 1 < 2 ^ 64"
      and new: "ram_logs s name = None \<longrightarrow> (\<forall>oid. ram_obj s1 (pf @ ''.'' @ oid) = None)
        \<and> view_history codec vs = Some [initial_view opts]"
    using open_loop_quiet [OF assms, of n] by (elim exE conjE) (rule that)
  have name: "name \<noteq> ''''" using o by (simp add: can_open_def)
  have g1: "ram_good codec s1" and lg: "ram_logs s1 name = Some (h, pf)"
    using open_loop_good [OF c l _ g] by (simp_all add: env_ok_def)
  have inv1: "ram_inv s1" using g1 by (simp add: ram_good_def)
  have h: "h \<noteq> ''''" "pf \<noteq> ''''" using ram.views_bound [OF inv1 vs(1)] ram.logs_ok [OF inv1 lg] by blast+
  obtain u s2 where u: "b_uniqueId ram_ops h s1 = (u, s2)" by force
  then have u': "ram_uniqueId h s1 = (u, s2)" by (simp add: ram_ops_def)
  note us = ram.unique_state [OF inv1 u]
  let ?t = "client_token name h host (ram_unique_id s1)"
  let ?lb = "\<lparr>lb_ops = ram_ops, lb_hoid = h, lb_prefix = pf, lb_token = ?t\<rparr>"
  have co: "create_or_open (Suc n) [] codec (Some ram_ops) load host opts name s = Some (Inr (?lb, cr), s2)"
    using name l u unique_good(3) [OF g1 u' h(1)] h
    by (simp add: create_or_open_def disturb_def log_backend_new_def client_token_def del: open_loop.simps)
  have v2: "ram_views s2 h = Some vs" using us vs(1) by simp
  then have "length (ram_log_views codec ?lb s2) = length vs"
    using create_or_open_good [OF c _ g co] by (intro log_views_length) (simp_all add: env_ok_def)
  moreover have "ram_logs s name = None \<longrightarrow> blank ram_obj ?lb 0 s2 \<and> ram_log_views codec ?lb s2 = [initial_view opts]"
    using new us v2 by (simp add: blank_def prefixed_oid_def log_views_def)
  ultimately show ?thesis using co vs(2) by metis
qed

context log_client
begin

lemma open_world_quiet:
  assumes ok: "ok s" and t: "token_ok (lb_token lb)" and b: "length (hist s) + 1 < 2 ^ 64"
  shows "\<exists>vr w' v. refresh_view codec lb s (view_reader_new opts) = Some vr \<and> vr_view vr \<noteq> None
    \<and> propose_sequencer (Suc (Suc n)) codec lb opts
        \<lparr>w_store = s, w_env = [], w_vr = vr, w_vm = vm, w_stats = st, w_tried = []\<rparr> = Some (Inr (), w')
    \<and> quiet w' \<and> w_tried w' = [] \<and> vr_view (w_vr w') = Some v \<and> up_to_date (hist (w_store w')) v
    \<and> vv_seq v \<noteq> None
    \<and> (blank obj lb 0 s \<longrightarrow> v_seq_config (last (hist s)) = None \<longrightarrow>
         blank obj lb (length (hist (w_store w'))) (w_store w')
         \<and> unfenced obj lb (length (hist (w_store w'))) (vv_view v) (w_store w') \<and> length (hist (w_store w')) = length (hist s) + 1
         \<and> sq_position (vr_seqs (w_vr w') ! the (vv_seq v)) = 0
         \<and> v_object_map (vv_view v) = v_object_map (last (hist s)))"
proof -
  let ?vr = "view_reader_new opts"
  have n: "vr_wf (lb_token lb) ?vr" "vr_cached (hist s) ?vr"
    by (simp_all add: vr_wf_def vr_cached_def view_reader_new_def)
  obtain vr v sq where r: "refresh_view codec lb s ?vr = Some vr" "vr = ?vr\<lparr>vr_seqs := vr_seqs ?vr @ sq, vr_view := Some v\<rparr>"
      "unat (vv_epoch v) = length (hist s)" "vv_view v = last (hist s)" "vr_wf (lb_token lb) vr" "vr_cached (hist s) vr"
    using refresh_view_ok [OF ok n] by metis
  let ?w = "\<lparr>w_store = s, w_env = [], w_vr = vr, w_vm = vm, w_stats = st, w_tried = []\<rparr>"
  have w: "wok ?w" using ok r by (simp add: world_ok_def)
  have q: "quiet ?w" using r(2) by (simp add: quiet_def waiters_ok_def view_reader_new_def)
  have v: "vr_view (w_vr ?w) = Some v" "up_to_date (hist (w_store ?w)) v"
    using r(2-4) by (simp_all add: up_to_date_def)
  have "\<exists>w' v'. propose_sequencer (Suc (Suc n)) codec lb opts ?w = Some (Inr (), w') \<and> quiet w'
      \<and> w_tried w' = w_tried ?w \<and> vr_view (w_vr w') = Some v' \<and> up_to_date (hist (w_store w')) v' \<and> vv_seq v' \<noteq> None
      \<and> (blank obj lb 0 s \<longrightarrow> v_seq_config (last (hist s)) = None \<longrightarrow>
         blank obj lb (length (hist (w_store w'))) (w_store w')
         \<and> unfenced obj lb (length (hist (w_store w'))) (vv_view v') (w_store w') \<and> length (hist (w_store w')) = length (hist s) + 1
         \<and> sq_position (vr_seqs (w_vr w') ! the (vv_seq v')) = 0
         \<and> v_object_map (vv_view v') = v_object_map (last (hist s)))"
  proof (cases "blank obj lb 0 s \<and> v_seq_config (last (hist s)) = None")
    case True
    then have "blank obj lb (length (hist (w_store ?w)) + 1) (w_store ?w)" by (auto simp: blank_def)
    from propose_sequencer_blank [OF t w q v _ _ this, of n opts] show ?thesis
      using True r(4) b by fastforce
  next
    case False
    then show ?thesis using propose_sequencer_quiet [OF t w q v, of n opts] b by auto
  qed
  then show ?thesis using r(1,2) by (intro exI [of _ vr]) auto
qed

end

lemma open_quiet:
  assumes c: "codec_ok codec" "init_options_ok opts" and g: "ram_good codec s" and o: "can_open opts name s"
    and nul: "names_ok name host"
  shows "\<exists>l s' v. build_log_impl cls (Suc (Suc n)) [] [] codec (Some ram_ops) load host opts name s = Some (Inr l, s')
    \<and> quiet (l_world l) \<and> w_tried (l_world l) = [] \<and> vr_view (w_vr (l_world l)) = Some v \<and> w_store (l_world l) = s'
    \<and> up_to_date (ram_log_views codec (l_backend l) s') v \<and> vv_seq v \<noteq> None
    \<and> (ram_logs s name = None \<longrightarrow> blank ram_obj (l_backend l) 2 s'
        \<and> unfenced ram_obj (l_backend l) 2 (vv_view v) s'
        \<and> length (ram_log_views codec (l_backend l) s') = 2
        \<and> sq_position (vr_seqs (w_vr (l_world l)) ! the (vv_seq v)) = 0 \<and> v_object_map (vv_view v) = initial_map opts)"
proof -
  obtain lb cr s1 where co: "create_or_open (Suc (Suc n)) [] codec (Some ram_ops) load host opts name s = Some (Inr (lb, cr), s1)"
      "length (ram_log_views codec lb s1) + 1 < 2 ^ 64"
      and new: "ram_logs s name = None \<longrightarrow> blank ram_obj lb 0 s1 \<and> ram_log_views codec lb s1 = [initial_view opts]"
    using create_or_open_quiet [OF c g o] by blast
  have cg: "ram_good codec s1" "ram_client codec lb" "ram_log_ok codec lb s1"
      "ram_logs s1 name = Some (lb_hoid lb, lb_prefix lb)" "\<exists>uid. lb_token lb = client_token name (lb_hoid lb) host uid"
    using create_or_open_good [OF c _ g co(1)] by (auto simp: env_ok_def)
  have tok: "token_ok (lb_token lb)" using client_token_ok [OF nul hoid_no_nul [OF cg(1,4)]] cg(5) by auto
  let ?vm = "\<lparr>vm_shutdown = False, vm_expand_pos = None, vm_stripe_init_pos = []\<rparr>"
  obtain vr w' v where q: "refresh_view codec lb s1 (view_reader_new opts) = Some vr" "vr_view vr \<noteq> None"
      "propose_sequencer (Suc (Suc n)) codec lb opts
        \<lparr>w_store = s1, w_env = [], w_vr = vr, w_vm = ?vm, w_stats = stats_new, w_tried = []\<rparr> = Some (Inr (), w')"
      "quiet w'" "w_tried w' = []" "vr_view (w_vr w') = Some v" "up_to_date (ram_log_views codec lb (w_store w')) v"
      "vv_seq v \<noteq> None"
      and bl: "blank ram_obj lb 0 s1 \<longrightarrow> v_seq_config (last (ram_log_views codec lb s1)) = None \<longrightarrow>
         blank ram_obj lb (length (ram_log_views codec lb (w_store w'))) (w_store w')
         \<and> unfenced ram_obj lb (length (ram_log_views codec lb (w_store w'))) (vv_view v) (w_store w')
         \<and> length (ram_log_views codec lb (w_store w')) = length (ram_log_views codec lb s1) + 1
         \<and> sq_position (vr_seqs (w_vr w') ! the (vv_seq v)) = 0
         \<and> v_object_map (vv_view v) = v_object_map (last (ram_log_views codec lb s1))"
    using log_client.open_world_quiet [OF ram_log_client [OF cg(2)] cg(3) tok co(2),
        where opts = opts and n = n and vm = ?vm and st = stats_new]
    by (elim exE conjE) (rule that)
  have vm: "view_manager_new vr = Some ?vm" using q(2) by (simp add: view_manager_new_def)
  have name: "name \<noteq> ''''" using o by (simp add: can_open_def)
  have env: "w_env w' = []" using q(4) by (simp add: quiet_def)
  let ?w2 = "if init_stripe_on_create opts \<and> cr \<and> \<not> om_empty (v_object_map (vv_view v))
    then w'\<lparr>w_vm := async_init_stripe 0 (w_vm w')\<rparr> else w'"
  let ?l = "\<lparr>l_class = cls, l_backend = lb, l_name = name, l_options = opts, l_shutdown = False,
    l_world = ?w2\<lparr>w_stats := stats_new\<rparr>\<rparr>"
  have "build_log_impl cls (Suc (Suc n)) [] [] codec (Some ram_ops) load host opts name s = Some (Inr ?l, w_store ?w2)"
    using co(1) q(1,2,3,6) vm env name by (simp add: build_log_impl_def log_impl_new_def)
  moreover have "quiet (l_world ?l)" using q(4) by (simp add: quiet_def)
  moreover have "ram_logs s name = None \<longrightarrow> blank ram_obj lb 2 (w_store w') \<and> unfenced ram_obj lb 2 (vv_view v) (w_store w')
      \<and> length (ram_log_views codec lb (w_store w')) = 2
      \<and> sq_position (vr_seqs (w_vr w') ! the (vv_seq v)) = 0 \<and> v_object_map (vv_view v) = initial_map opts"
    using new bl by (auto simp: initial_view_def numeral_2_eq_2)
  ultimately show ?thesis using q(5-8) by (intro exI [of _ ?l] exI [of _ "w_store ?w2"] exI [of _ v]) simp
qed

section \<open>The moments of a run\<close>

lemma run_moments:
  assumes "world_ext ram_inv ram_obj ram_views codec lb w w' \<and> happened ram_inv ram_obj ram_views codec lb P w w'"
    and "tried_ok w'" and "ram_world_ok codec lb w"
  shows "ram_world_ok codec lb w' \<and> (\<exists>s s'. ram_log_le codec lb (w_store w) s \<and> P s s'
    \<and> ram_log_le codec lb s s' \<and> ram_log_le codec lb s' (w_store w'))"
  using assms by (auto simp: world_ext_def happened_def)

lemma prefixed_oid_token: "prefixed_oid (lb\<lparr>lb_token := t\<rparr>) = prefixed_oid lb"
  by (simp add: fun_eq_iff prefixed_oid_def)

lemma log_token: "log_views views codec (lb\<lparr>lb_token := t\<rparr>) = log_views views codec lb"
    "log_at obj views codec (lb\<lparr>lb_token := t\<rparr>) = log_at obj views codec lb"
    "log_le obj views codec (lb\<lparr>lb_token := t\<rparr>) = log_le obj views codec lb"
proof -
  show v: "log_views views codec (lb\<lparr>lb_token := t\<rparr>) = log_views views codec lb"
    by (simp add: fun_eq_iff log_views_def)
  show a: "log_at obj views codec (lb\<lparr>lb_token := t\<rparr>) = log_at obj views codec lb"
    unfolding fun_eq_iff log_at_def log_get_def v prefixed_oid_token by simp
  show "log_le obj views codec (lb\<lparr>lb_token := t\<rparr>) = log_le obj views codec lb"
    unfolding fun_eq_iff log_le_def v a by simp
qed

lemma ram_client_token: "ram_client codec lb \<Longrightarrow> ram_client codec (lb\<lparr>lb_token := t\<rparr>)"
  by (simp add: ram_client_def)

lemma ram_written_stays:
  "ram_log_le codec lb s s' \<Longrightarrow> ram_log_at codec lb s p = Some (Data d) \<Longrightarrow>
   ram_log_at codec lb s' p = Some (Data d) \<or> ram_log_at codec lb s' p = Some Junk"
  by (auto simp: log_le_def entry_le_def dest!: spec [where x = p])

lemma ram_taken_stays:
  "ram_log_le codec lb s s' \<Longrightarrow> ram_log_at codec lb s p \<noteq> None \<Longrightarrow> ram_log_at codec lb s' p \<noteq> None"
  by (cases "the (ram_log_at codec lb s p)")
    (auto simp: log_le_def entry_le_def dest!: spec [where x = p])

lemma ram_junk_stays:
  "ram_log_le codec lb s s' \<Longrightarrow> ram_log_at codec lb s p = Some Junk \<Longrightarrow> ram_log_at codec lb s' p = Some Junk"
  by (auto simp: log_le_def entry_le_def dest!: spec [where x = p])

end
