(* ===== verification/Example_Log.thy ===== *)
theory Example_Log
  imports RAM_Log
begin

text \<open>
  A concrete client for the witnesses: a log with stripes of two objects and one slot, created in an
  empty in-memory backend and opened with nothing interfering. Its world has the invariant, its client
  is the sequencer, and the first position is free.
\<close>

definition example_options :: options where
  "example_options = default_options\<lparr>create_if_missing := True, stripe_width := 2, stripe_slots := 1\<rparr>"

definition example_open :: "(ram log ret \<times> ram) option" where
  "example_open = log_Open 2 [] [] text_codec (Some ram_ops) (Inl EINVAL) ''host'' example_options ''log''
     (ram_new show_nat)"

definition example_log :: "ram log" where
  "example_log = (case example_open of Some (Inr l, _) \<Rightarrow> l)"

abbreviation example_lb :: "ram log_backend" where
  "example_lb \<equiv> l_backend example_log"

abbreviation example_world :: "ram world" where
  "example_world \<equiv> l_world example_log"

lemma example_options_ok [simp]: "stripe_options_ok example_options" "init_options_ok example_options"
  by (simp_all add: stripe_options_ok_def init_options_ok_def example_options_def default_options_def)

lemma inj_show_nat: "inj show_nat"
  by (rule inj_on_inverseI [where g = read_dec]) simp

lemma example_good: "ram_good text_codec (ram_new show_nat)"
  using ram_new_good [OF inj_show_nat] show_nat_no_nul by blast

lemma example_opened:
  obtains v where "log_Open 2 [] [] text_codec (Some ram_ops) (Inl EINVAL) ''host'' example_options ''log''
      (ram_new show_nat) = Some (Inr example_log, w_store example_world)"
    and "quiet example_world" and "w_tried example_world = []" and "vr_view (w_vr example_world) = Some v"
    and "up_to_date (ram_log_views text_codec example_lb (w_store example_world)) v" and "vv_seq v \<noteq> None"
    and "blank ram_obj example_lb 2 (w_store example_world)" and "unfenced ram_obj example_lb 2 (vv_view v) (w_store example_world)"
    and "length (ram_log_views text_codec example_lb (w_store example_world)) = 2"
    and "sq_position (vr_seqs (w_vr example_world) ! the (vv_seq v)) = 0"
    and "v_object_map (vv_view v) = initial_map example_options"
proof -
  have new: "ram_logs (ram_new show_nat) ''log'' = None" by (simp add: ram_logs_def ram_new_def)
  have "can_open example_options ''log'' (ram_new show_nat)"
    using new by (simp add: can_open_def example_options_def)
  then obtain l s' v where o: "build_log_impl LogImpl (Suc (Suc 0)) [] [] text_codec (Some ram_ops) (Inl EINVAL) ''host''
        example_options ''log'' (ram_new show_nat) = Some (Inr l, s')"
      and w: "quiet (l_world l)" "w_tried (l_world l) = []" "vr_view (w_vr (l_world l)) = Some v" "w_store (l_world l) = s'"
        "up_to_date (ram_log_views text_codec (l_backend l) s') v" "vv_seq v \<noteq> None"
      and n: "ram_logs (ram_new show_nat) ''log'' = None \<longrightarrow> blank ram_obj (l_backend l) 2 s'
        \<and> unfenced ram_obj (l_backend l) 2 (vv_view v) s' \<and> length (ram_log_views text_codec (l_backend l) s') = 2
        \<and> sq_position (vr_seqs (w_vr (l_world l)) ! the (vv_seq v)) = 0
        \<and> v_object_map (vv_view v) = initial_map example_options"
    using open_quiet [OF text_codec_ok example_options_ok(2) example_good,
        where name = "''log''" and host = "''host''" and n = 0 and cls = LogImpl and load = "Inl EINVAL"]
    by (simp only: names_ok_def) auto
  have op: "log_Open 2 [] [] text_codec (Some ram_ops) (Inl EINVAL) ''host'' example_options ''log''
      (ram_new show_nat) = Some (Inr l, s')"
    using o by (simp add: log_Open_def numeral_2_eq_2)
  then have "example_log = l" by (simp add: example_log_def example_open_def)
  then show ?thesis using that [of v] op w n new by simp
qed

lemma example_ok:
  "ram_client text_codec example_lb" "ram_world_ok text_codec example_lb example_world"
  "l_options example_log = example_options" "l_class example_log = LogImpl" "\<not> l_shutdown example_log"
  "token_ok (lb_token example_lb)"
proof -
  obtain v where o: "log_Open 2 [] [] text_codec (Some ram_ops) (Inl EINVAL) ''host'' example_options ''log''
      (ram_new show_nat) = Some (Inr example_log, w_store example_world)" and t: "w_tried example_world = []"
    by (rule example_opened)
  from build_good [OF text_codec_ok example_options_ok(2) _ example_good _ o [unfolded log_Open_def]]
  show "ram_client text_codec example_lb" "ram_world_ok text_codec example_lb example_world"
    "l_options example_log = example_options" "l_class example_log = LogImpl" "\<not> l_shutdown example_log"
    "token_ok (lb_token example_lb)"
    using t by (simp_all add: env_ok_def names_ok_def tried_ok_def)
qed

section \<open>Runs of the example\<close>

lemma example_map:
  "om_span (initial_map example_options) = 2" "om_ids (initial_map example_options) = 1"
  "om_wf (initial_map example_options)"
proof -
  show "om_wf (initial_map example_options)" by (rule initial_map_wf) simp
  show "om_span (initial_map example_options) = 2" "om_ids (initial_map example_options) = 1"
    by (simp_all add: initial_map_def chain_map_def initial_stripe_def om_span_def om_ids_def example_options_def
        default_options_def ms_span_def ms_size_def)
qed

lemma example_setting:
  obtains v r oid where "quiet example_world" "w_tried example_world = []" "vr_view (w_vr example_world) = Some v"
    "up_to_date (ram_log_views text_codec example_lb (w_store example_world)) v" "vv_seq v = Some r"
    "blank ram_obj example_lb 2 (w_store example_world)" "unfenced ram_obj example_lb 2 (vv_view v) (w_store example_world)"
    "length (ram_log_views text_codec example_lb (w_store example_world)) = 2"
    "sq_position (vr_seqs (w_vr example_world) ! r) = 0" "v_object_map (vv_view v) = initial_map example_options"
    "slot_oid (vv_view v) 0 = Some oid"
proof -
  note concl = that
  show ?thesis
  proof (rule example_opened)
    fix v :: versioned_view
    assume v: "v_object_map (vv_view v) = initial_map example_options"
    have "om_locate (initial_map example_options) (unat (0 :: u64)) \<noteq> None"
      unfolding om_locate_dom [OF example_map(3)] using example_map(1) by simp
    then obtain oid where oid: "slot_oid (vv_view v) 0 = Some oid" using v by (auto simp: slot_oid_def)
    assume "quiet example_world" "w_tried example_world = []" "vr_view (w_vr example_world) = Some v"
      "up_to_date (ram_log_views text_codec example_lb (w_store example_world)) v" and s: "vv_seq v \<noteq> None"
      and "blank ram_obj example_lb 2 (w_store example_world)" "unfenced ram_obj example_lb 2 (vv_view v) (w_store example_world)"
      "length (ram_log_views text_codec example_lb (w_store example_world)) = 2"
      and p: "sq_position (vr_seqs (w_vr example_world) ! the (vv_seq v)) = 0"
    obtain r where "vv_seq v = Some r" using s by blast
    then show thesis using concl [of v r oid] v oid p \<open>quiet _\<close> \<open>w_tried _ = _\<close> \<open>vr_view _ = _\<close> \<open>up_to_date _ _\<close>
      \<open>blank _ _ _ _\<close> \<open>unfenced _ _ _ _ _\<close> \<open>length _ = 2\<close> by simp
  qed
qed

lemma example_appender:
  "quiet example_world" "w_tried example_world = []"
  "appender ram_obj example_lb (ram_log_views text_codec example_lb (w_store example_world)) 0 example_world"
  "length (ram_log_views text_codec example_lb (w_store example_world)) = 2"
proof -
  obtain v r oid where s: "quiet example_world" "w_tried example_world = []" "vr_view (w_vr example_world) = Some v"
    "up_to_date (ram_log_views text_codec example_lb (w_store example_world)) v" "vv_seq v = Some r"
    "blank ram_obj example_lb 2 (w_store example_world)"
    "length (ram_log_views text_codec example_lb (w_store example_world)) = 2"
    "sq_position (vr_seqs (w_vr example_world) ! r) = 0"
    by (rule example_setting)
  then show "quiet example_world" "w_tried example_world = []"
    "length (ram_log_views text_codec example_lb (w_store example_world)) = 2" by blast+
  show "appender ram_obj example_lb (ram_log_views text_codec example_lb (w_store example_world)) 0 example_world"
    unfolding appender_def
    using s(3-8) by (intro conjI exI [of _ v] exI [of _ r]) (auto simp: blank_def)
qed

lemma example_append:
  "\<exists>w'. append_run 4 2 text_codec example_lb example_options d None example_world = Some (Inr 0, w')
     \<and> ram_log_at text_codec example_lb (w_store w') 0 = Some (Data d) \<and> tried_ok w'
     \<and> ram_world_ok text_codec example_lb w' \<and> quiet w'
     \<and> served ram_obj example_lb (ram_log_views text_codec example_lb (w_store w')) 0 w'
     \<and> (\<exists>w2. append_run 4 2 text_codec example_lb example_options d2 None w' = Some (Inr 1, w2) \<and> tried_ok w2)"
proof -
  have n: "append_run 4 2 text_codec = append_run (Suc (Suc (Suc (Suc 0)))) (Suc (Suc 0)) text_codec"
    by (simp add: numeral_eq_Suc del: append_run.simps)
  note q = log_client.append_quiet [OF ram_log_client [OF example_ok(1)] example_options_ok(1), of _ _ 0 0, folded n]
  obtain w' where w': "append_run 4 2 text_codec example_lb example_options d None example_world = Some (Inr 0, w')"
      "ram_log_at text_codec example_lb (w_store w') 0 = Some (Data d)" "set (w_tried w') \<subseteq> {0}"
      "ram_world_ok text_codec example_lb w'" "quiet w'"
      "served ram_obj example_lb (ram_log_views text_codec example_lb (w_store w')) 0 w'"
      "appender ram_obj example_lb (ram_log_views text_codec example_lb (w_store w')) 1 w'"
      "length (ram_log_views text_codec example_lb (w_store w')) \<le> 3"
    using q [OF example_ok(2) example_appender(1,3), of d] example_appender(2,4) by (auto simp: position_limit_def)
  moreover obtain w2 where "append_run 4 2 text_codec example_lb example_options d2 None w' = Some (Inr 1, w2)"
      "set (w_tried w2) \<subseteq> insert 1 (set (w_tried w'))"
    using q [OF w'(4,5,7), of d2] w'(8) by (auto simp: position_limit_def)
  moreover have "tried_ok w'" "tried_ok w2"
    using w'(3) \<open>set (w_tried w2) \<subseteq> _\<close> by (fastforce simp: tried_ok_def position_limit_def)+
  ultimately show ?thesis by blast
qed

lemma example_calls:
  "\<exists>w'. read_run 1 2 text_codec example_lb example_options 0 example_world = Some (Inl ENOENT, w') \<and> tried_ok w'"
  "\<exists>w'. fill_run 1 2 text_codec example_lb example_options 0 example_world = Some (Inr (), w') \<and> tried_ok w'"
  "\<exists>w' w2. trim_run 1 2 text_codec example_lb example_options 0 example_world = Some (Inr (), w') \<and> tried_ok w'
     \<and> ram_world_ok text_codec example_lb w'
     \<and> read_run 1 2 text_codec example_lb example_options 0 w' = Some (Inl ENODATA, w2) \<and> tried_ok w2"
  "\<exists>w'. trim_to_run 4 2 text_codec example_lb example_options 1 example_world = Some (Inr (), w') \<and> tried_ok w'"
proof -
  obtain v r oid where s: "quiet example_world" "w_tried example_world = []" "vr_view (w_vr example_world) = Some v"
    "up_to_date (ram_log_views text_codec example_lb (w_store example_world)) v"
    "blank ram_obj example_lb 2 (w_store example_world)" "unfenced ram_obj example_lb 2 (vv_view v) (w_store example_world)"
    "length (ram_log_views text_codec example_lb (w_store example_world)) = 2"
    "v_object_map (vv_view v) = initial_map example_options" "slot_oid (vv_view v) 0 = Some oid"
    by (rule example_setting)
  note L = ram_log_client [OF example_ok(1)]
  have u: "unfenced ram_obj example_lb (length (ram_log_views text_codec example_lb (w_store example_world)))
      (vv_view v) (w_store example_world)"
    using s(6,7) by simp
  have free: "ram_log_at text_codec example_lb (w_store example_world) 0 = None"
    using s(5) by (auto simp: log_at_def log_get_def blank_def split: option.split)
  have "served ram_obj example_lb (ram_log_views text_codec example_lb (w_store example_world)) 0 example_world"
    using s(3,4,9) u unfolding served_def unfenced_def by blast
  note a = L example_ok(2) s(1) this
  show "\<exists>w'. read_run 1 2 text_codec example_lb example_options 0 example_world = Some (Inl ENOENT, w') \<and> tried_ok w'"
    using log_client.read_quiet [OF a, of 0 2 example_options] free s(2) unfolding One_nat_def
    by (fastforce simp: tried_ok_def simp del: read_run.simps)
  show "\<exists>w'. fill_run 1 2 text_codec example_lb example_options 0 example_world = Some (Inr (), w') \<and> tried_ok w'"
    using log_client.fill_quiet [OF a, of 0 2 example_options] free s(2) unfolding One_nat_def
    by (fastforce simp: tried_ok_def simp del: fill_run.simps)
  obtain w' where t: "trim_run 1 2 text_codec example_lb example_options 0 example_world = Some (Inr (), w')"
      "w_tried w' = []" "ram_world_ok text_codec example_lb w'" "quiet w'"
      "served ram_obj example_lb (ram_log_views text_codec example_lb (w_store w')) 0 w'"
      "ram_log_at text_codec example_lb (w_store w') 0 = Some Junk"
    using log_client.trim_quiet [OF a, of 0 2 example_options] s(2) unfolding One_nat_def
    by (auto simp del: trim_run.simps)
  then show "\<exists>w' w2. trim_run 1 2 text_codec example_lb example_options 0 example_world = Some (Inr (), w') \<and> tried_ok w'
     \<and> ram_world_ok text_codec example_lb w'
     \<and> read_run 1 2 text_codec example_lb example_options 0 w' = Some (Inl ENODATA, w2) \<and> tried_ok w2"
    using log_client.read_quiet [OF L t(3,4,5), of 0 2 example_options] unfolding One_nat_def
    by (auto simp: tried_ok_def simp del: read_run.simps trim_run.simps)
  have n: "trim_to_run 4 2 text_codec = trim_to_run (Suc (Suc 2)) (Suc (Suc 0)) text_codec"
    by (simp add: numeral_eq_Suc del: trim_to_run.simps)
  show "\<exists>w'. trim_to_run 4 2 text_codec example_lb example_options 1 example_world = Some (Inr (), w') \<and> tried_ok w'"
    unfolding n using log_client.trim_to_quiet [OF L example_ok(2) s(1,3,4) u, where p = 1 and n = 2 and m = 0] s(2,7,8) example_map
    by (fastforce simp: tried_ok_def simp del: trim_to_run.simps)
qed

lemma example_propose:
  "\<exists>w'. propose_sequencer 2 text_codec example_lb example_options example_world = Some (Inr (), w') \<and> tried_ok w'"
proof -
  obtain v where v: "vr_view (w_vr example_world) = Some v"
      "up_to_date (ram_log_views text_codec example_lb (w_store example_world)) v"
    by (rule example_setting)
  obtain w' where "propose_sequencer (Suc (Suc 0)) text_codec example_lb example_options example_world = Some (Inr (), w')"
      "w_tried w' = w_tried example_world"
    using log_client.propose_sequencer_quiet [OF ram_log_client [OF example_ok(1)] example_ok(6,2) example_appender(1) v,
        of 0 example_options] example_appender(4) by auto
  then show ?thesis using example_appender(2) by (simp add: tried_ok_def numeral_2_eq_2)
qed

end
