(* ===== verification/Log_Properties.thy ===== *)
theory Log_Properties
  imports Example_Log
begin

text \<open>
  What the callers of the log can rely on: the meaning of the return values of append, read, fill, trim
  and trim-to for a log kept by the in-memory backend, whatever the other clients do meanwhile, and what
  follows for several calls in a row. A run is described by two moments \<open>s\<close> and \<open>s'\<close> between its start
  and its end; \<open>ram_log_le\<close> orders the states of the log.
\<close>

text \<open>C1. An append that succeeds has put the data at the returned position, which was free at that moment.
  The call keeps the invariant and only extends the log.\<close>

theorem append_appends:
  assumes "ram_client codec lb" and "stripe_options_ok opts" and "ram_world_ok codec lb w"
    and "append_run n m codec lb opts d None w = Some (Inr p, w')" and "tried_ok w'"
  shows "ram_world_ok codec lb w' \<and> (\<exists>s s'. ram_log_le codec lb (w_store w) s \<and> ram_log_at codec lb s p = None
    \<and> ram_log_at codec lb s' p = Some (Data d) \<and> ram_log_le codec lb s s' \<and> ram_log_le codec lb s' (w_store w'))"
  using run_moments [OF log_client.append_run_result [OF ram_log_client [OF assms(1)] assms(2,4)] assms(5,3)]
  by (auto simp: append_answer_def)

theorem append_appends_witness:
  "\<exists>w'. append_run 4 2 text_codec example_lb example_options ''abc'' None example_world = Some (Inr 0, w')
     \<and> ram_world_ok text_codec example_lb w' \<and> (\<exists>s s'. ram_log_le text_codec example_lb (w_store example_world) s
     \<and> ram_log_at text_codec example_lb s 0 = None \<and> ram_log_at text_codec example_lb s' 0 = Some (Data ''abc'')
     \<and> ram_log_le text_codec example_lb s s' \<and> ram_log_le text_codec example_lb s' (w_store w'))"
proof -
  obtain w' where w': "append_run 4 2 text_codec example_lb example_options ''abc'' None example_world = Some (Inr 0, w')"
      "tried_ok w'"
    using example_append by blast
  show ?thesis using append_appends [OF example_ok(1) example_options_ok(1) example_ok(2) w'] w'(1) by blast
qed





text \<open>C3. Two appends never return the same position, also when they come from different clients.\<close>

theorem appends_distinct:
  assumes "ram_client codec lb" and "stripe_options_ok opts" and "ram_world_ok codec lb w"
    and "append_run n m codec lb opts d None w = Some (Inr p, w1)" and "tried_ok w1"
    and "stripe_options_ok opts'" and "ram_world_ok codec (lb\<lparr>lb_token := t\<rparr>) w2"
    and le: "ram_log_le codec lb (w_store w1) (w_store w2)"
    and "append_run n' m' codec (lb\<lparr>lb_token := t\<rparr>) opts' d' None w2 = Some (Inr q, w3)" and "tried_ok w3"
  shows "p \<noteq> q"
proof
  assume "p = q"
  from run_moments [OF log_client.append_run_result [OF ram_log_client [OF assms(1)] assms(2,4)] assms(5,3)]
  obtain s where s: "ram_log_at codec lb s p = Some (Data d)" "ram_log_le codec lb s (w_store w1)"
    by (auto simp: append_answer_def)
  from run_moments [OF log_client.append_run_result [OF ram_log_client [OF ram_client_token [OF assms(1)]] assms(6,9)] assms(10,7)]
  obtain s2 where s2: "ram_log_le codec lb (w_store w2) s2" "ram_log_at codec lb s2 q = None"
    by (auto simp: log_token append_answer_def)
  have "ram_log_le codec lb s s2" by (rule log_le_trans [OF log_le_trans [OF s(2) le] s2(1)])
  from ram_taken_stays [OF this, of p] show False using s(1) s2(2) \<open>p = q\<close> by simp
qed

theorem appends_distinct_witness:
  "\<exists>w1 w3. append_run 4 2 text_codec example_lb example_options ''a'' None example_world = Some (Inr 0, w1)
     \<and> append_run 4 2 text_codec example_lb example_options ''b'' None w1 = Some (Inr 1, w3) \<and> (0 :: u64) \<noteq> 1"
proof -
  obtain w1 w3 where a: "append_run 4 2 text_codec example_lb example_options ''a'' None example_world = Some (Inr 0, w1)"
      "tried_ok w1" "ram_world_ok text_codec example_lb w1"
      and b: "append_run 4 2 text_codec example_lb example_options ''b'' None w1 = Some (Inr 1, w3)" "tried_ok w3"
    using example_append by blast
  have lb: "example_lb\<lparr>lb_token := lb_token example_lb\<rparr> = example_lb" by simp
  from appends_distinct [OF example_ok(1) example_options_ok(1) example_ok(2) a(1,2) example_options_ok(1),
      where t = "lb_token example_lb" and ?w2.0 = w1, unfolded lb, OF a(3) log_le_refl b]
  show ?thesis using a(1) b(1) by blast
qed

text \<open>C5. A fill that succeeds found the position free or already invalidated and leaves it invalidated; the error
  \<^verbatim>\<open>-EROFS\<close> says that the position held data.\<close>

theorem fill_invalidates:
  assumes "ram_client codec lb" and "stripe_options_ok opts" and "ram_world_ok codec lb w"
    and "fill_run n m codec lb opts p w = Some (r, w')" and "tried_ok w'"
  shows "ram_world_ok codec lb w' \<and> (\<exists>s s'. ram_log_le codec lb (w_store w) s \<and> ram_log_le codec lb s s'
    \<and> ram_log_le codec lb s' (w_store w')
    \<and> (case r of Inr _ \<Rightarrow> (\<forall>d. ram_log_at codec lb s p \<noteq> Some (Data d)) \<and> ram_log_at codec lb s' p = Some Junk
       | Inl e \<Rightarrow> (e = EROFS \<and> (\<exists>d. ram_log_at codec lb s p = Some (Data d))) \<or> e = EINVAL \<or> e = ESHUTDOWN))"
  using run_moments [OF log_client.fill_run_result [OF ram_log_client [OF assms(1)] assms(2,4)] assms(5,3)]
  unfolding fill_answer_def by (fastforce split: sum.splits)

theorem fill_invalidates_witness:
  "\<exists>w' s'. fill_run 1 2 text_codec example_lb example_options 0 example_world = Some (Inr (), w')
     \<and> ram_log_le text_codec example_lb s' (w_store w') \<and> ram_log_at text_codec example_lb s' 0 = Some Junk"
proof -
  obtain w' where w': "fill_run 1 2 text_codec example_lb example_options 0 example_world = Some (Inr (), w')" "tried_ok w'"
    using example_calls(2) by blast
  show ?thesis using fill_invalidates [OF example_ok(1) example_options_ok(1) example_ok(2) w'] w'(1) by auto
qed

text \<open>C6. Once a trim of a position has returned 0, no read of the position returns data, by whatever client.\<close>

theorem read_after_trim:
  assumes "ram_client codec lb" and "stripe_options_ok opts" and "ram_world_ok codec lb w"
    and "trim_run n m codec lb opts p w = Some (Inr (), w1)" and "tried_ok w1"
    and "stripe_options_ok opts'" and "ram_world_ok codec (lb\<lparr>lb_token := t\<rparr>) w2"
    and le: "ram_log_le codec lb (w_store w1) (w_store w2)"
    and "read_run n' m' codec (lb\<lparr>lb_token := t\<rparr>) opts' p w2 = Some (r, w3)" and "tried_ok w3"
  shows "r = Inl ENODATA \<or> r = Inl EINVAL \<or> r = Inl ESHUTDOWN"
proof -
  from run_moments [OF log_client.trim_run_result [OF ram_log_client [OF assms(1)] assms(2,4)] assms(5,3)]
  obtain s where s: "ram_log_at codec lb s p = Some Junk" "ram_log_le codec lb s (w_store w1)"
    by (auto simp: trim_answer_def)
  from run_moments [OF log_client.read_run_result [OF ram_log_client [OF ram_client_token [OF assms(1)]] assms(6,9)] assms(10,7)]
  obtain s2 where s2: "ram_log_le codec lb (w_store w2) s2" "read_answer (ram_log_at codec lb) p r s2"
    by (auto simp: log_token)
  have "ram_log_le codec lb s s2" by (rule log_le_trans [OF log_le_trans [OF s(2) le] s2(1)])
  from ram_junk_stays [OF this s(1)] show ?thesis using s2(2) by (auto simp: read_answer_def split: sum.splits)
qed

theorem read_after_trim_witness:
  "\<exists>w1 w3. trim_run 1 2 text_codec example_lb example_options 0 example_world = Some (Inr (), w1)
     \<and> read_run 1 2 text_codec example_lb example_options 0 w1 = Some (Inl ENODATA, w3)
     \<and> (Inl ENODATA = (Inl ENODATA :: string ret) \<or> Inl ENODATA = (Inl EINVAL :: string ret)
        \<or> Inl ENODATA = (Inl ESHUTDOWN :: string ret))"
proof -
  obtain w1 w3 where a: "trim_run 1 2 text_codec example_lb example_options 0 example_world = Some (Inr (), w1)" "tried_ok w1"
      "ram_world_ok text_codec example_lb w1"
      and b: "read_run 1 2 text_codec example_lb example_options 0 w1 = Some (Inl ENODATA, w3)" "tried_ok w3"
    using example_calls(3) by blast
  have lb: "example_lb\<lparr>lb_token := lb_token example_lb\<rparr> = example_lb" by simp
  from read_after_trim [OF example_ok(1) example_options_ok(1) example_ok(2) a(1,2) example_options_ok(1),
      where t = "lb_token example_lb" and ?w2.0 = w1, unfolded lb, OF a(3) log_le_refl b]
  show ?thesis using a(1) b(1) by blast
qed

text \<open>C7. Trimming up to a position invalidates every position of the prefix, written or not.\<close>

theorem trim_to_invalidates:
  assumes "ram_client codec lb" and "stripe_options_ok opts" and "ram_world_ok codec lb w"
    and "trim_to_run n m codec lb opts p w = Some (r, w')" and "tried_ok w'"
  shows "ram_world_ok codec lb w' \<and> ram_log_le codec lb (w_store w) (w_store w')
    \<and> (case r of Inr _ \<Rightarrow> (\<forall>q\<le>p. ram_log_at codec lb (w_store w') q = Some Junk) | Inl e \<Rightarrow> e = EINVAL \<or> e = ESHUTDOWN)"
proof -
  from run_moments [OF log_client.trim_to_run_result [OF ram_log_client [OF assms(1)] assms(2,4)] assms(5,3)]
  obtain s s' where w': "ram_world_ok codec lb w'" and s: "ram_log_le codec lb (w_store w) s"
      "trim_to_answer (ram_log_at codec lb) p r s'" "ram_log_le codec lb s s'" "ram_log_le codec lb s' (w_store w')"
    by blast
  have "ram_log_le codec lb (w_store w) (w_store w')" by (rule log_le_trans [OF log_le_trans [OF s(1,3)] s(4)])
  then show ?thesis
    using w' s(2) ram_junk_stays [OF s(4)] unfolding trim_to_answer_def by (auto split: sum.splits)
qed

theorem trim_to_invalidates_witness:
  "\<exists>w'. trim_to_run 4 2 text_codec example_lb example_options 1 example_world = Some (Inr (), w')
     \<and> ram_log_at text_codec example_lb (w_store w') 0 = Some Junk"
proof -
  obtain w' where w': "trim_to_run 4 2 text_codec example_lb example_options 1 example_world = Some (Inr (), w')" "tried_ok w'"
    using example_calls(4) by blast
  show ?thesis using trim_to_invalidates [OF example_ok(1) example_options_ok(1) example_ok(2) w'] w'(1) by auto
qed

text \<open>C8. No assertion on the path of a log operation fails, whatever the other clients do and however the calls
  interleave.\<close>

theorem operations_never_abort:
  assumes "ram_client codec lb" and "stripe_options_ok opts" and "ram_world_ok codec lb w" and "tried_ok w'"
  shows "read_run n m codec lb opts p w \<noteq> Some (Inl Aborted, w')
    \<and> append_run n m codec lb opts d None w \<noteq> Some (Inl Aborted, w')
    \<and> fill_run n m codec lb opts p w \<noteq> Some (Inl Aborted, w')
    \<and> trim_run n m codec lb opts p w \<noteq> Some (Inl Aborted, w')
    \<and> trim_to_run n m codec lb opts p w \<noteq> Some (Inl Aborted, w')
    \<and> tail_run codec lb inc w \<noteq> (Inl Aborted, w')"
proof -
  note L = ram_log_client [OF assms(1)]
  have False if "read_run n m codec lb opts p w = Some (Inl Aborted, w')"
    using run_moments [OF log_client.read_run_result [OF L assms(2) that] assms(4,3)] by (auto simp: read_answer_def)
  moreover have False if "append_run n m codec lb opts d None w = Some (Inl Aborted, w')"
    using run_moments [OF log_client.append_run_result [OF L assms(2) that] assms(4,3)] by (auto simp: append_answer_def)
  moreover have False if "fill_run n m codec lb opts p w = Some (Inl Aborted, w')"
    using run_moments [OF log_client.fill_run_result [OF L assms(2) that] assms(4,3)] by (auto simp: fill_answer_def)
  moreover have False if "trim_run n m codec lb opts p w = Some (Inl Aborted, w')"
    using run_moments [OF log_client.trim_run_result [OF L assms(2) that] assms(4,3)] by (auto simp: trim_answer_def)
  moreover have False if "trim_to_run n m codec lb opts p w = Some (Inl Aborted, w')"
    using run_moments [OF log_client.trim_to_run_result [OF L assms(2) that] assms(4,3)] by (auto simp: trim_to_answer_def)
  moreover have "tail_run codec lb inc w \<noteq> (Inl Aborted, w')"
    using log_client.tail_run_result(2) [OF L _ assms(4,3)] by blast
  ultimately show ?thesis by blast
qed

theorem operations_never_abort_witness:
  "\<exists>w'. append_run 4 2 text_codec example_lb example_options ''abc'' None example_world = Some (Inr 0, w')
     \<and> (Inr 0 :: u64 ret) \<noteq> Inl Aborted"
proof -
  obtain w' where w': "append_run 4 2 text_codec example_lb example_options ''abc'' None example_world = Some (Inr 0, w')"
      "tried_ok w'"
    using example_append by blast
  show ?thesis
    using operations_never_abort [OF example_ok(1) example_options_ok(1) example_ok(2) w'(2), of 4 2 0 "''abc''"] w'(1)
    by blast
qed

text \<open>C9. Entries appended one after the other while nothing interferes get consecutive positions, starting at the
  position of the sequencer; every call returns, with the fuel that is named.\<close>

theorem appends_consecutive:
  assumes "ram_client codec lb" and "stripe_options_ok opts" and "ram_world_ok codec lb w" and "quiet w"
    and "appender ram_obj lb (ram_log_views codec lb (w_store w)) p w"
    and "length (ram_log_views codec lb (w_store w)) + length ds < 2 ^ 64" and "unat p + length ds \<le> position_limit"
  shows "\<exists>w'. append_all 4 2 codec lb opts ds w = Some (map (\<lambda>i. p + of_nat i) [0..<length ds], w')"
proof -
  have n: "append_all 4 2 codec = append_all (Suc (Suc (Suc (Suc 0)))) (Suc (Suc 0)) codec"
    by (simp add: numeral_eq_Suc del: append_all.simps)
  show ?thesis
    unfolding n using log_client.append_all_quiet [OF ram_log_client [OF assms(1)] assms(2-7), of 0 0] by blast
qed

theorem appends_consecutive_witness:
  "\<exists>w'. append_all 4 2 text_codec example_lb example_options [''a'', ''b'', ''c''] example_world = Some ([0, 1, 2], w')"
proof -
  have "map (\<lambda>i. 0 + of_nat i :: u64) [0..<length [''a'', ''b'', ''c'']] = [0, 1, 2]" by (simp add: upt_rec)
  then show ?thesis
    using appends_consecutive [OF example_ok(1) example_options_ok(1) example_ok(2) example_appender(1,3),
        of "[''a'', ''b'', ''c'']"] example_appender(4)
    by (simp add: position_limit_def del: append_all.simps)
qed

text \<open>C10. Opening a log by name, creating it when asked to, hands out a log in a state from which all of the above
  applies, in a storage where every log is well formed, whatever other processes do to the storage meanwhile
  within the same rules.\<close>

theorem open_establishes:
  assumes "codec_ok codec" and "init_options_ok opts" and "env_ok codec env" and "ram_good codec s"
    and "names_ok name host"
    and "log_Open n env wenv codec (Some ram_ops) load host opts name s = Some (Inr l, s')" and "tried_ok (l_world l)"
  shows "ram_client codec (l_backend l) \<and> ram_world_ok codec (l_backend l) (l_world l) \<and> s' = w_store (l_world l)
    \<and> l_name l = name \<and> l_options l = opts \<and> \<not> l_shutdown l"
  using build_good [OF assms(1-5) assms(6) [unfolded log_Open_def] assms(7)] by simp

theorem open_establishes_witness:
  "\<exists>l s'. log_Open 2 [] [] text_codec (Some ram_ops) (Inl EINVAL) ''host'' example_options ''log'' (ram_new show_nat)
       = Some (Inr l, s') \<and> ram_client text_codec (l_backend l) \<and> ram_world_ok text_codec (l_backend l) (l_world l)"
proof -
  obtain v where o: "log_Open 2 [] [] text_codec (Some ram_ops) (Inl EINVAL) ''host'' example_options ''log''
      (ram_new show_nat) = Some (Inr example_log, w_store example_world)" and t: "w_tried example_world = []"
    by (rule example_opened)
  have "env_ok text_codec []" "names_ok ''log'' ''host''" "tried_ok example_world"
    using t by (simp_all add: env_ok_def names_ok_def tried_ok_def)
  from open_establishes [OF text_codec_ok example_options_ok(2) this(1) example_good this(2) o this(3)]
  show ?thesis using o by blast
qed

text \<open>C11. Opening succeeds when the log exists, or may be created, and nothing interferes: the new client is the
  sequencer of the newest view, and for a new log it starts at position 0 with no entry anywhere.\<close>

theorem open_succeeds:
  assumes "codec_ok codec" and "init_options_ok opts" and "ram_good codec s" and "can_open opts name s"
    and "names_ok name host"
  shows "\<exists>l s' v. log_Open 2 [] [] codec (Some ram_ops) load host opts name s = Some (Inr l, s')
    \<and> vr_view (w_vr (l_world l)) = Some v \<and> up_to_date (ram_log_views codec (l_backend l) s') v \<and> vv_seq v \<noteq> None
    \<and> (ram_logs s name = None \<longrightarrow> (\<forall>p. ram_log_at codec (l_backend l) s' p = None)
        \<and> sq_position (vr_seqs (w_vr (l_world l)) ! the (vv_seq v)) = 0)"
proof -
  obtain l s' v where o: "build_log_impl LogImpl (Suc (Suc 0)) [] [] codec (Some ram_ops) load host opts name s = Some (Inr l, s')"
      "vr_view (w_vr (l_world l)) = Some v" "up_to_date (ram_log_views codec (l_backend l) s') v" "vv_seq v \<noteq> None"
      and n: "ram_logs s name = None \<longrightarrow> blank ram_obj (l_backend l) 2 s'
        \<and> sq_position (vr_seqs (w_vr (l_world l)) ! the (vv_seq v)) = 0"
    using open_quiet [OF assms, of LogImpl 0 load] by auto
  have "ram_log_at codec (l_backend l) s' p = None" if "blank ram_obj (l_backend l) 2 s'" for p
    using that by (auto simp: blank_def log_at_def log_get_def split: option.split)
  then show ?thesis using o n by (intro exI [of _ l] exI [of _ s'] exI [of _ v]) (simp add: log_Open_def numeral_2_eq_2)
qed

theorem open_succeeds_witness:
  "\<exists>l s'. log_Open 2 [] [] text_codec (Some ram_ops) (Inl EINVAL) ''host'' example_options ''log'' (ram_new show_nat)
       = Some (Inr l, s') \<and> (\<forall>p. ram_log_at text_codec (l_backend l) s' p = None)"
proof -
  have new: "ram_logs (ram_new show_nat) ''log'' = None" by (simp add: ram_logs_def ram_new_def)
  then have "can_open example_options ''log'' (ram_new show_nat)" "names_ok ''log'' ''host''"
    by (simp_all add: can_open_def names_ok_def example_options_def)
  from open_succeeds [OF text_codec_ok example_options_ok(2) example_good this, of "Inl EINVAL"] new
  show ?thesis by blast
qed

text \<open>A read-only log is an ordinary one: \<^verbatim>\<open>OpenReadOnly\<close> builds the same class as \<^verbatim>\<open>Open\<close>, so that appends to it
  are carried out instead of being refused with \<^verbatim>\<open>-EROFS\<close>.\<close>

lemma open_read_only_is_writable:
  "log_OpenReadOnly n env wenv codec be load host opts name s = log_Open n env wenv codec be load host opts name s"
  by (simp add: log_OpenReadOnly_def log_Open_def)

text \<open>A client that waits for a newer view stops waiting after one refresh when there is one, and holds the newest
  view afterwards.\<close>

lemma newer_view_arrives:
  assumes "ram_client codec lb" and "ram_world_ok codec lb w" and "quiet w"
    and "unat e < length (ram_log_views codec lb (w_store w))"
  shows "\<exists>vr v. update_current_view 2 codec lb opts e b w = Some (Inr (), w\<lparr>w_vr := vr\<rparr>) \<and> vr_view vr = Some v
    \<and> up_to_date (ram_log_views codec lb (w_store w)) v \<and> ram_world_ok codec lb (w\<lparr>w_vr := vr\<rparr>)"
  using log_client.update_quiet [OF ram_log_client [OF assms(1)] assms(2-4), of 0 opts b]
  unfolding numeral_2_eq_2 by blast

lemma newer_view_arrives_witness:
  "\<exists>vr. update_current_view 2 text_codec example_lb example_options 1 False example_world
     = Some (Inr (), example_world\<lparr>w_vr := vr\<rparr>)"
  using newer_view_arrives [OF example_ok(1,2) example_appender(1), of 1 example_options False] example_appender(4)
  by auto

text \<open>C12. Proposing a sequencer keeps the invariant and only extends the log, whatever happens meanwhile and whatever
  the outcome.\<close>

theorem propose_sequencer_keeps:
  assumes "ram_client codec lb" and "token_ok (lb_token lb)" and "ram_world_ok codec lb w"
    and "propose_sequencer n codec lb opts w = Some (r, w')" and "tried_ok w'"
  shows "ram_world_ok codec lb w' \<and> ram_log_le codec lb (w_store w) (w_store w')"
  using log_client.propose_sequencer_ext [OF ram_log_client [OF assms(1)] assms(2,4)] assms(3,5)
  by (simp add: world_ext_def)

theorem propose_sequencer_keeps_witness:
  "\<exists>w'. propose_sequencer 2 text_codec example_lb example_options example_world = Some (Inr (), w')
     \<and> ram_world_ok text_codec example_lb w' \<and> ram_log_le text_codec example_lb (w_store example_world) (w_store w')"
proof -
  obtain w' where w': "propose_sequencer 2 text_codec example_lb example_options example_world = Some (Inr (), w')" "tried_ok w'"
    using example_propose by blast
  show ?thesis using propose_sequencer_keeps [OF example_ok(1,6,2) w'] w'(1) by blast
qed

text \<open>C13. When nothing interferes, a client that holds the newest view becomes the sequencer with its first proposal:
  the newest view, which it then holds, carries its token and keeps the mapping.\<close>

theorem becomes_sequencer:
  assumes "ram_client codec lb" and "token_ok (lb_token lb)" and "ram_world_ok codec lb w" and "quiet w"
    and "vr_view (w_vr w) = Some v" and "up_to_date (ram_log_views codec lb (w_store w)) v"
    and "length (ram_log_views codec lb (w_store w)) + 1 < 2 ^ 64"
  shows "\<exists>w' v' c. propose_sequencer 2 codec lb opts w = Some (Inr (), w') \<and> vr_view (w_vr w') = Some v'
    \<and> up_to_date (ram_log_views codec lb (w_store w')) v' \<and> vv_seq v' \<noteq> None
    \<and> v_seq_config (vv_view v') = Some c \<and> sc_token c = lb_token lb \<and> sc_epoch c = vv_epoch v + 1
    \<and> v_object_map (vv_view v') = v_object_map (vv_view v)"
proof -
  from log_client.propose_sequencer_quiet [OF ram_log_client [OF assms(1)] assms(2-7), of 0 opts]
  obtain w' v' m where "propose_sequencer (Suc (Suc 0)) codec lb opts w = Some (Inr (), w')" "vr_view (w_vr w') = Some v'"
      "up_to_date (ram_log_views codec lb (w_store w')) v'" "vv_seq v' \<noteq> None"
      "vv_view v' = with_sequencer_config (vv_view v) (sequencer_config lb (vv_epoch v + 1) m)"
    by auto
  then show ?thesis
    unfolding numeral_2_eq_2 by (intro exI [of _ w'] exI [of _ v'] exI [of _ "sequencer_config lb (vv_epoch v + 1) m"])
      (simp add: with_sequencer_config_def sequencer_config_def)
qed

theorem becomes_sequencer_witness:
  "\<exists>w' v' c. propose_sequencer 2 text_codec example_lb example_options example_world = Some (Inr (), w')
     \<and> vr_view (w_vr w') = Some v' \<and> v_seq_config (vv_view v') = Some c \<and> sc_token c = lb_token example_lb"
proof -
  obtain v where v: "vr_view (w_vr example_world) = Some v"
      "up_to_date (ram_log_views text_codec example_lb (w_store example_world)) v"
    by (rule example_setting)
  show ?thesis
    using becomes_sequencer [OF example_ok(1,6,2) example_appender(1) v, of example_options] example_appender(4) by fastforce
qed

end
