(* ===== verification/Mapping_Properties.thy ===== *)
theory Mapping_Properties
  imports Text_Codec
begin

text \<open>
  What the components of \<^verbatim>\<open>libzlog\<close> that lay out the log promise: the mapping of positions to objects, its
  growth, its iteration and the stored form of views; and the inputs on which the arithmetic of the
  source leaves that range.
\<close>

section \<open>Sample maps\<close>

definition sample_stripe :: multi_stripe where
  "sample_stripe = \<lparr>ms_base_id = 0, ms_width = 2, ms_slots = 1, ms_min = 0, ms_instances = 2, ms_max = 3\<rparr>"

definition sample_map :: object_map where
  "sample_map = chain_map 2 [(0, sample_stripe)] 0"

definition wide_stripe :: multi_stripe where
  "wide_stripe = \<lparr>ms_base_id = 0, ms_width = 65536, ms_slots = 65536, ms_min = 0, ms_instances = 1,
     ms_max = 4294967295\<rparr>"

definition unaligned_map :: object_map where
  "unaligned_map = chain_map 2
     [(0, \<lparr>ms_base_id = 0, ms_width = 3, ms_slots = 1, ms_min = 0, ms_instances = 1, ms_max = 2\<rparr>),
      (3, \<lparr>ms_base_id = 1, ms_width = 2, ms_slots = 1, ms_min = 3, ms_instances = 1, ms_max = 4\<rparr>)] 0"

lemma sample_map_new: "om_new 2 [(0, sample_stripe)] 0 = Some sample_map"
  and sample_map_wf: "om_wf sample_map" and sample_span: "om_span sample_map = 4"
proof -
  have "ms_chain 0 0 [(0, sample_stripe)]"
    by (simp add: sample_stripe_def ms_asserts_def ms_fits_def ms_span_def ms_size_def)
  then show "om_new 2 [(0, sample_stripe)] 0 = Some sample_map" "om_wf sample_map"
    unfolding sample_map_def by (rule om_new_chain; simp add: sample_stripe_def)+
  show "om_span sample_map = 4" by (simp add: om_span_def sample_map_def sample_stripe_def ms_span_def ms_size_def)
qed

lemma sample_aligned: "om_aligned sample_map"
  by (simp add: om_aligned_def sample_map_def sample_stripe_def)

section \<open>The mapping\<close>

text \<open>C35. Looking a position up by the sorted index computes the same object, stripe and last-stripe flag as walking the
  stripes in order, and trips no assertion.\<close>

theorem map_matches_reference:
  assumes "om_wf om"
  shows "om_map om q = Some (map_option oid_of_slot (om_locate om (unat q)),
    map_option fst (om_locate om (unat q)) = Some (last_stripe_id om))"
  by (rule om_map_spec [OF assms])

theorem map_matches_reference_witness: "om_map sample_map 3 = Some (Some ''1.1'', True)"
proof -
  have "om_locate sample_map 3 = Some (1, 1)" "last_stripe_id sample_map = 1"
    by (simp_all add: om_locate_def sample_map_def sample_stripe_def in_range_def ms_span_def ms_size_def slot_of_def
        last_stripe_id_def)
  moreover have "oid_of_slot (1, 1) = ''1.1''" by code_simp
  ultimately show ?thesis using map_matches_reference [OF sample_map_wf, of 3] by simp
qed

text \<open>C36. Growing the map to a position that is not mapped yet returns: the new map is well formed, maps the position,
  maps every position of the old map to the same object, and overshoots by less than one stripe.\<close>

theorem expand_extends:
  assumes "om_wf om" and "om_span om \<le> unat q" and "stripes_by_pos om = [] \<longrightarrow> stripe_options_ok opts"
    and "unat q + grow_size opts om < 2 ^ 64"
  shows "\<exists>om'. om_expand_mapping om q opts = Some (Some om') \<and> om_wf om'
    \<and> (\<exists>oid l. om_map om' q = Some (Some oid, l)) \<and> om_span om' \<le> unat q + grow_size opts om
    \<and> (\<forall>p oid l. om_map om p = Some (Some oid, l) \<longrightarrow> (\<exists>l'. om_map om' p = Some (Some oid, l')))"
proof -
  obtain om' where e: "om_expand_mapping om q opts = Some (Some om')" "om_wf om'" "om_le om om'" "unat q < om_span om'"
      "om_span om' \<le> unat q + grow_size opts om"
    by (rule expand_mapping_some [OF assms])
  have "\<exists>oid l. om_map om' q = Some (Some oid, l)" using om_map_mapped [OF e(2)] e(4) by blast
  then show ?thesis using e om_le_map [OF assms(1) e(2,3)] by blast
qed

theorem expand_extends_witness:
  "\<exists>om' l. om_expand_mapping sample_map 5 default_options = Some (Some om') \<and> om_map om' 0 = Some (Some ''0.0'', l)"
proof -
  have "om_locate sample_map 0 = Some (0, 0)" "last_stripe_id sample_map = 1"
    by (simp_all add: om_locate_def sample_map_def sample_stripe_def in_range_def ms_span_def ms_size_def slot_of_def
        last_stripe_id_def)
  moreover have "oid_of_slot (0, 0) = ''0.0''" by code_simp
  ultimately have m: "om_map sample_map 0 = Some (Some ''0.0'', False)" using om_map_spec [OF sample_map_wf, of 0] by simp
  have g: "grow_size default_options sample_map = 2"
    by (simp add: grow_size_def sample_map_def sample_stripe_def ms_size_def)
  have "stripes_by_pos sample_map \<noteq> []" by (simp add: sample_map_def)
  then show ?thesis
    using expand_extends [OF sample_map_wf, of 5 default_options] m g sample_span by fastforce
qed

text \<open>A position that is mapped is left alone by an expansion, and advancing the minimum valid position keeps the
  mapping.\<close>

lemma expand_mapped_unchanged:
  assumes "om_wf om" and "om_map om q = Some (Some oid, l)"
  shows "om_expand_mapping om q opts = Some None
    \<and> (\<forall>p om'. om_advance_min_valid_position om p = Some (Some om') \<longrightarrow>
         min_valid_position om < min_valid_position om' \<and> om_map om' q = Some (Some oid, l))"
proof
  show "om_expand_mapping om q opts = Some None"
    using assms by (simp add: om_expand_mapping_def)
  have "min_valid_position om < min_valid_position om' \<and> om_map om' q = Some (Some oid, l)"
    if "om_advance_min_valid_position om p = Some (Some om')" for p om'
  proof -
    have o: "om' = om\<lparr>min_valid_position := p\<rparr>" "\<not> p \<le> min_valid_position om"
      using that by (simp_all add: advance_min_valid_some(1) [OF assms(1)] split: if_splits)
    then have "om_map om' q = om_map om q"
      unfolding om_map_spec [OF assms(1)] o(1) om_map_spec [OF advance_min_valid_some(2) [OF assms(1)]]
      by (simp add: om_locate_def last_stripe_id_def)
    then show ?thesis using o assms(2) by simp
  qed
  then show "\<forall>p om'. om_advance_min_valid_position om p = Some (Some om') \<longrightarrow>
      min_valid_position om < min_valid_position om' \<and> om_map om' q = Some (Some oid, l)" by blast
qed



text \<open>The stripe a position maps to contains the object the position maps to, so that initialising the objects of the
  stripe initialises it.\<close>

lemma map_stripe_holds_object:
  assumes "om_wf om" and "om_map om q = Some (Some oid, l)"
  shows "\<exists>s. om_map_stripe om q = Some (Some s) \<and> oid \<in> set (st_oids s) \<and> st_min s \<le> q \<and> q \<le> st_max s"
proof -
  have "unat q < om_span om" using assms om_map_mapped by blast
  then obtain s l' where s: "om_map_stripe om q = Some (Some s)"
      "om_map om q = Some (Some (st_oids s ! (unat q mod unat (st_width s))), l')"
      "st_min s \<le> q" "q \<le> st_max s" "0 < st_width s" "st_oids s = make_oids (st_id s) (st_width s)"
    by (rule map_stripe_spec [OF assms(1)])
  have "unat q mod unat (st_width s) < length (st_oids s)"
    using s(5,6) by (simp add: make_oids_def word_less_nat_alt)
  then have "st_oids s ! (unat q mod unat (st_width s)) \<in> set (st_oids s)" by (rule nth_mem)
  then show ?thesis using s(1-4) assms(2) by (intro exI [of _ s]) simp
qed

lemma map_stripe_holds_object_witness: "\<exists>s oid. om_map_stripe sample_map 3 = Some (Some s) \<and> oid \<in> set (st_oids s)"
proof -
  obtain oid l where "om_map sample_map 3 = Some (Some oid, l)"
    using om_map_mapped [OF sample_map_wf, of 3] sample_span by auto
  from map_stripe_holds_object [OF sample_map_wf this] show ?thesis by blast
qed

section \<open>Stored views\<close>

text \<open>C38. A well-formed view survives being stored: encoding succeeds, and decoding what was stored gives the view back,
  with its map and its sequencer configuration.\<close>

theorem view_roundtrip:
  assumes "codec_ok codec" and "view_wf v"
  shows "\<exists>data. view_encode codec v = Some data \<and> view_decode codec data = Some v"
  using view_encode_decode [OF assms] by blast

theorem view_roundtrip_witness:
  "\<exists>data. view_encode text_codec \<lparr>v_object_map = sample_map, v_seq_config = None\<rparr> = Some data
     \<and> view_decode text_codec data = Some \<lparr>v_object_map = sample_map, v_seq_config = None\<rparr>"
  by (rule view_roundtrip [OF text_codec_ok]) (simp add: view_wf_def sample_map_wf)

section \<open>Where the arithmetic leaves its range\<close>


text \<open>In a map whose second multi-stripe starts at a position that is no multiple of its width, a position and the
  iteration over a prefix disagree: position 3 is stored in object 1.1, the prefix up to 3 lists object 1.0.\<close>

lemma map_to_misses_unaligned:
  "om_wf unaligned_map \<and> om_map unaligned_map 3 = Some (Some ''1.1'', True)
     \<and> om_map_to unaligned_map 3 1 False = Some (Some [(''1.0'', True)], 2, False)"
proof -
  have "ms_chain 0 0 (stripes_by_pos unaligned_map)"
    by (simp add: unaligned_map_def ms_asserts_def ms_fits_def ms_span_def ms_size_def)
  then have "om_wf unaligned_map"
    unfolding unaligned_map_def by (intro om_new_chain(2)) simp_all
  moreover have "om_map unaligned_map 3 = Some (Some ''1.1'', True)" by code_simp
  moreover have "om_map_to unaligned_map 3 1 False = Some (Some [(''1.0'', True)], 2, False)" by code_simp
  ultimately show ?thesis by blast
qed

end
