(* ===== verification/Storage_Properties.thy ===== *)
theory Storage_Properties
  imports RAM_Backend
begin

text \<open>
  What the in-memory backend promises to its callers, for every sequence of calls of all clients in
  between (\<^const>\<open>run_calls\<close>), as far as the callers keep to the rules of \<^const>\<open>calls_ok\<close>.
\<close>

definition sample_ram :: ram where
  "sample_ram = (ram_new show_nat)\<lparr>ram_objects := [(''zlog.data.0.0.0'', LogObject (log_object_new\<lparr>lo_epoch := 1\<rparr>))]\<rparr>"

lemma sample_ram_inv: "ram_inv sample_ram" and sample_data: "ram_is_data ''zlog.data.0.0.0''"
proof -
  show d: "ram_is_data ''zlog.data.0.0.0''" by (simp add: ram_is_data_def starts_with_def)
  have "inj show_nat" by (rule inj_on_inverseI [where g = read_dec]) simp
  then show "ram_inv sample_ram"
    using d by (auto simp: ram_inv_def sample_ram_def ram_new_def ram_object_wf_def log_object_wf_def log_object_new_def)
qed

lemma sample_ops: "b_Write ram_ops = ram_Write" "b_Seal ram_ops = ram_Seal" "b_Read ram_ops = ram_Read"
    "b_Fill ram_ops = ram_Fill" "b_Trim ram_ops = ram_Trim" "b_ProposeView ram_ops = ram_ProposeView"
    "b_ReadViews ram_ops = ram_ReadViews"
  by (simp_all add: ram_ops_def)

lemma sample_write: "\<exists>s1. ram_Write ''zlog.data.0.0.0'' ''abc'' 1 5 sample_ram = (Inr (), s1)"
  and sample_seal: "\<exists>s1. ram_Seal ''zlog.data.0.0.0'' 4 sample_ram = (Inr (), s1)"
  by (simp_all add: ram_Write_def ram_Seal_def ram_CheckEpoch_def sample_ram_def ram_new_def log_object_new_def um_emplace_def
      below_limit_def Let_def word_le_nat_alt)

section \<open>Refinement\<close>



section \<open>Across calls\<close>



text \<open>C19. Sealing fences: after an object has been sealed with an epoch, and whatever calls follow, every data call with
  an older epoch fails and a write with an older epoch leaves all objects alone.\<close>

theorem ram_seal_fences:
  assumes "ram_inv s" and "ram_is_data oid" and "ram_Seal oid e s = (Inr (), s1)"
    and "calls_ok ram_ops ram_is_data ram_obj cs s1" and "e' < e"
  shows "fst (ram_Write oid d e' p (run_calls ram_ops cs s1)) \<in> {Inl EINVAL, Inl ESPIPE}
    \<and> ram_obj (snd (ram_Write oid d e' p (run_calls ram_ops cs s1))) = ram_obj (run_calls ram_ops cs s1)
    \<and> fst (ram_Fill oid e' p (run_calls ram_ops cs s1)) \<in> {Inl EINVAL, Inl ESPIPE}
    \<and> ram_Read oid e' p (run_calls ram_ops cs s1) \<in> {Inl EINVAL, Inl ESPIPE}
    \<and> fst (ram_Trim oid e' p lim full (run_calls ram_ops cs s1)) \<in> {Inl EINVAL, Inl ESPIPE}"
  using ram.sealed [OF assms(1,2) _ assms(4,5), of "()", unfolded sample_ops, OF assms(3)] by blast

theorem ram_seal_fences_witness:
  "\<exists>s1. ram_Seal ''zlog.data.0.0.0'' 4 sample_ram = (Inr (), s1)
     \<and> fst (ram_Write ''zlog.data.0.0.0'' ''abc'' 3 5 (run_calls ram_ops [] s1)) \<in> {Inl EINVAL, Inl ESPIPE}"
proof -
  obtain s1 where s1: "ram_Seal ''zlog.data.0.0.0'' 4 sample_ram = (Inr (), s1)" using sample_seal by blast
  show ?thesis
    using ram_seal_fences [OF sample_ram_inv sample_data s1, of "[]" 3 "''abc''" 5] s1 by auto
qed

text \<open>C20. Proposals are a compare-and-exchange: once the proposal for an epoch has been accepted, and whatever calls follow,
  no other proposal for that epoch is accepted, and readers of the epoch get the accepted view.\<close>

theorem ram_propose_once:
  assumes "ram_inv s" and "ram_views s hoid = Some vs" and "ram_ProposeView hoid e v s = (Inr (), s1)"
    and "calls_ok ram_ops ram_is_data ram_obj cs s1"
  shows "fst (ram_ProposeView hoid e v' (run_calls ram_ops cs s1)) \<noteq> Inr ()
    \<and> ram_ReadViews hoid e 1 (run_calls ram_ops cs s1) = Inr [(e, v)]"
  using ram.propose_once [OF assms(1,2) _ assms(4), of e v "()", unfolded sample_ops, OF assms(3)] by blast

lemma sample_create:
  "ram_CreateLog ''log'' ''view1'' (ram_new show_nat) = (Inr (h, pf), s1) \<Longrightarrow>
   ram_inv s1 \<and> ram_views s1 h = Some [''view1'']"
  "\<exists>h pf s1. ram_CreateLog ''log'' ''view1'' (ram_new show_nat) = (Inr (h, pf), s1)"
proof -
  have inj: "inj show_nat" by (rule inj_on_inverseI [where g = read_dec]) simp
  note c = ram.create_state [OF ram_new_inv [OF inj], unfolded ram_ops_def, simplified]
  show "ram_inv s1 \<and> ram_views s1 h = Some [''view1'']"
    if "ram_CreateLog ''log'' ''view1'' (ram_new show_nat) = (Inr (h, pf), s1)"
    using c [OF that] by simp
  obtain r s1 where r: "ram_CreateLog ''log'' ''view1'' (ram_new show_nat) = (r, s1)" by force
  have "ram_logs (ram_new show_nat) ''log'' = None" by (simp add: ram_logs_def ram_new_def)
  then show "\<exists>h pf s1. ram_CreateLog ''log'' ''view1'' (ram_new show_nat) = (Inr (h, pf), s1)"
    using c [OF r] r by (cases r) auto
qed

theorem ram_propose_once_witness:
  "\<exists>h pf s s1. ram_CreateLog ''log'' ''view1'' (ram_new show_nat) = (Inr (h, pf), s)
     \<and> ram_ProposeView h 2 ''view2'' s = (Inr (), s1) \<and> fst (ram_ProposeView h 2 ''view3'' s1) \<noteq> Inr ()"
proof -
  obtain h pf s where c: "ram_CreateLog ''log'' ''view1'' (ram_new show_nat) = (Inr (h, pf), s)" using sample_create(2) by blast
  note s = sample_create(1) [OF c]
  obtain r s1 where p: "ram_ProposeView h 2 ''view2'' s = (r, s1)" by force
  have "r = Inr ()"
    using ram.propose_ret [of s h "[''view1'']" 2 "''view2''", unfolded sample_ops] s p by (simp add: a_propose_def)
  with p have p: "ram_ProposeView h 2 ''view2'' s = (Inr (), s1)" by simp
  show ?thesis
    using ram_propose_once [of s h "[''view1'']" 2 "''view2''" s1 "[]" "''view3''"] s p c by auto
qed

text \<open>A log that was just created can be opened by its name, has the given view as its first, shares its head object
  with no other log, and does not disturb the other logs; creating it again is refused.\<close>

lemma ram_create_then_open:
  assumes "ram_inv s" and "ram_CreateLog name v s = (Inr (h, pf), s')"
  shows "ram_OpenLog name s' = Inr (h, pf) \<and> ram_ReadViews h 0 1 s' = Inr [(1, v)]
    \<and> fst (ram_CreateLog name v' s') = Inl EEXIST
    \<and> (\<forall>name'. name' \<noteq> name \<longrightarrow> ram_OpenLog name' s' = ram_OpenLog name' s)
    \<and> (\<forall>name' h' pf'. ram_OpenLog name' s = Inr (h', pf') \<longrightarrow> h' \<noteq> h)"
proof -
  note c = ram.create_state [OF assms(1), of name v "Inr (h, pf)" s', unfolded ram_ops_def, simplified, OF assms(2)]
  have o: "ram_OpenLog n t = (if n = '''' then Inl EINVAL else case ram_logs t n of None \<Rightarrow> Inl ENOENT | Some r \<Rightarrow> Inr r)"
    if "ram_inv t" for n t
    using ram.open_spec [OF that, of n] by (simp add: ram_ops_def)
  have "ram_ReadViews h 0 1 s' = Inr [(1, v)]"
    using ram.read_views_spec [of s' h "[v]" 0 1] c by (simp add: ram_ops_def a_read_views_def)
  moreover have "fst (ram_CreateLog name v' s') = Inl EEXIST"
  proof -
    obtain r t where r: "ram_CreateLog name v' s' = (r, t)" by force
    show ?thesis
      using ram.create_state [of s' name v' r t, unfolded ram_ops_def, simplified, OF _ r] c r
      by (cases r) auto
  qed
  moreover have "h' \<noteq> h" if "ram_OpenLog name' s = Inr (h', pf')" for name' h' pf'
    using that c ram.logs_ok [OF assms(1), of name' h' pf'] by (auto simp: o assms(1) split: if_splits option.splits)
  ultimately show ?thesis using c by (auto simp: o assms(1))
qed

lemma ram_create_then_open_witness:
  "\<exists>h pf s. ram_CreateLog ''log'' ''view1'' (ram_new show_nat) = (Inr (h, pf), s) \<and> ram_OpenLog ''log'' s = Inr (h, pf)
     \<and> ram_ReadViews h 0 1 s = Inr [(1, ''view1'')]"
proof -
  obtain h pf s where c: "ram_CreateLog ''log'' ''view1'' (ram_new show_nat) = (Inr (h, pf), s)" using sample_create(2) by blast
  have "inj show_nat" by (rule inj_on_inverseI [where g = read_dec]) simp
  from ram_create_then_open [OF ram_new_inv [OF this] c] show ?thesis using c by blast
qed

end
