(* ===== verification/Op_Queue.thy ===== *)
theory Op_Queue
  imports Prelude "HOL-Library.Multiset"
begin

text \<open>
  The queue of operations of \<^verbatim>\<open>LogImpl\<close> (\<^verbatim>\<open>queue_op\<close> and \<^verbatim>\<open>finisher_entry_\<close> of \<^verbatim>\<open>libzlog/log_impl.cc\<close>): callers
  hand operations over, at most about \<^verbatim>\<open>max_inflight_ops\<close> at a time, and a pool of finisher threads runs
  them and invokes their callbacks. Each critical section of the source is one step; the steps of the
  threads interleave in any order. A caller is named by a number, which stands for the address of its
  condition variable; a finisher by its index. \<open>run\<close> is the body of an operation, which may change the
  state \<open>q_world\<close> of the client. The fields \<open>q_admitted\<close>, \<open>q_taken\<close> and \<open>q_called\<close> are histories: the operations in
  the order in which they entered the queue, left it, and had their callback invoked.
\<close>

section \<open>The state and the steps\<close>

datatype 'op finisher =
    FIdle
  | FRun 'op bool
  | FFinish
  | FExit

record ('op, 'r, 'w) op_queue =
  q_shutdown :: bool
  q_pending :: "'op list"
  q_inflight :: u32
  q_waiters :: "(bool \<times> nat) list"
  q_blocked :: "(nat \<times> 'op) list"
  q_finishers :: "'op finisher list"
  q_world :: 'w
  q_admitted :: "'op list"
  q_taken :: "'op list"
  q_called :: "('op \<times> 'r ret) list"

definition op_queue_new :: "nat \<Rightarrow> 'w \<Rightarrow> ('op, 'r, 'w) op_queue" where
  "op_queue_new finisher_threads w =
     \<lparr>q_shutdown = False, q_pending = [], q_inflight = 0, q_waiters = [], q_blocked = [],
      q_finishers = replicate finisher_threads FIdle, q_world = w, q_admitted = [], q_taken = [], q_called = []\<rparr>"

text \<open>The tail of \<^verbatim>\<open>queue_op\<close>, after the wait.\<close>

definition q_admit :: "'op \<Rightarrow> ('op, 'r, 'w) op_queue \<Rightarrow> ('op, 'r, 'w) op_queue" where
  "q_admit op q = q\<lparr>q_inflight := q_inflight q + 1, q_pending := q_pending q @ [op], q_admitted := q_admitted q @ [op]\<rparr>"

text \<open>\<^verbatim>\<open>queue_op\<close> from its start to the end or to the wait, and from the wake-up to the end. \<^const>\<open>None\<close> says that the
  step is not possible: the caller is already waiting, or has not been woken.\<close>

definition q_submit :: "u32 \<Rightarrow> nat \<Rightarrow> 'op \<Rightarrow> ('op, 'r, 'w) op_queue \<Rightarrow> ('op, 'r, 'w) op_queue option" where
  "q_submit max_inflight_ops t op q =
     (if t \<in> fst ` set (q_blocked q) then None
      else if max_inflight_ops \<le> q_inflight q
      then Some (q\<lparr>q_waiters := (False, t) # q_waiters q, q_blocked := (t, op) # q_blocked q\<rparr>)
      else Some (q_admit op q))"

definition q_wake :: "nat \<Rightarrow> ('op, 'r, 'w) op_queue \<Rightarrow> ('op, 'r, 'w) op_queue option" where
  "q_wake t q =
     (if (True, t) \<in> set (q_waiters q) then
        (case map_of (q_blocked q) t of
           None \<Rightarrow> None
         | Some op \<Rightarrow> Some (q_admit op (q\<lparr>q_waiters := filter (\<lambda>w. snd w \<noteq> t) (q_waiters q),
                                        q_blocked := filter (\<lambda>b. fst b \<noteq> t) (q_blocked q)\<rparr>)))
      else None)"

text \<open>The three sections of one round of \<^verbatim>\<open>finisher_entry_\<close>: taking an operation or leaving, running it and invoking
  its callback, and the accounting. The middle one is not possible while the operation does not return.\<close>

definition q_take :: "nat \<Rightarrow> ('op, 'r, 'w) op_queue \<Rightarrow> ('op, 'r, 'w) op_queue option" where
  "q_take i q =
     (if i < length (q_finishers q) \<and> q_finishers q ! i = FIdle \<and> (q_pending q \<noteq> [] \<or> q_shutdown q) then
        (case q_pending q of
           [] \<Rightarrow> Some (q\<lparr>q_finishers := (q_finishers q)[i := FExit]\<rparr>)
         | op # ops \<Rightarrow> Some (q\<lparr>q_finishers := (q_finishers q)[i := FRun op (q_shutdown q)], q_pending := ops,
                              q_taken := q_taken q @ [op]\<rparr>))
      else None)"

definition q_call ::
  "('op \<Rightarrow> 'w \<Rightarrow> ('r ret \<times> 'w) option) \<Rightarrow> nat \<Rightarrow> ('op, 'r, 'w) op_queue \<Rightarrow> ('op, 'r, 'w) op_queue option" where
  "q_call run i q =
     (if i < length (q_finishers q) then
        (case q_finishers q ! i of
           FRun op do_shutdown \<Rightarrow>
             if do_shutdown
             then Some (q\<lparr>q_finishers := (q_finishers q)[i := FFinish], q_called := q_called q @ [(op, Inl ESHUTDOWN)]\<rparr>)
             else (case run op (q_world q) of
                     None \<Rightarrow> None
                   | Some (ret, w) \<Rightarrow> Some (q\<lparr>q_finishers := (q_finishers q)[i := FFinish], q_world := w,
                                             q_called := q_called q @ [(op, ret)]\<rparr>))
         | _ \<Rightarrow> None)
      else None)"

definition q_finish :: "nat \<Rightarrow> ('op, 'r, 'w) op_queue \<Rightarrow> ('op, 'r, 'w) op_queue ret option" where
  "q_finish i q =
     (if i < length (q_finishers q) \<and> q_finishers q ! i = FFinish then
        if 0 < q_inflight q then
          Some (Inr (q\<lparr>q_finishers := (q_finishers q)[i := FIdle], q_inflight := q_inflight q - 1,
            q_waiters := (if q_waiters q = [] then []
                          else butlast (q_waiters q) @ [(True, snd (last (q_waiters q)))])\<rparr>))
        else Some (Inl Aborted)
      else None)"

text \<open>The start of the destructor.\<close>

definition q_do_shutdown :: "('op, 'r, 'w) op_queue \<Rightarrow> ('op, 'r, 'w) op_queue" where
  "q_do_shutdown q = q\<lparr>q_shutdown := True\<rparr>"

section \<open>Interleavings\<close>

inductive q_step ::
  "('op \<Rightarrow> 'w \<Rightarrow> ('r ret \<times> 'w) option) \<Rightarrow> u32 \<Rightarrow> ('op, 'r, 'w) op_queue \<Rightarrow> ('op, 'r, 'w) op_queue \<Rightarrow> bool"
  for run :: "'op \<Rightarrow> 'w \<Rightarrow> ('r ret \<times> 'w) option" and mx :: u32 where
  step_wake: "q_wake t q = Some q' \<Longrightarrow> q_step run mx q q'"
| step_take: "q_take i q = Some q' \<Longrightarrow> q_step run mx q q'"
| step_call: "q_call run i q = Some q' \<Longrightarrow> q_step run mx q q'"
| step_finish: "q_finish i q = Some (Inr q') \<Longrightarrow> q_step run mx q q'"

inductive q_reach ::
  "('op \<Rightarrow> 'w \<Rightarrow> ('r ret \<times> 'w) option) \<Rightarrow> u32 \<Rightarrow> ('op, 'r, 'w) op_queue \<Rightarrow> ('op, 'r, 'w) op_queue \<Rightarrow> bool"
  for run :: "'op \<Rightarrow> 'w \<Rightarrow> ('r ret \<times> 'w) option" and mx :: u32 and q0 :: "('op, 'r, 'w) op_queue" where
  reach_start: "q_reach run mx q0 q0"
| reach_step: "q_reach run mx q0 q \<Longrightarrow> q_step run mx q q' \<Longrightarrow> q_reach run mx q0 q'"
| reach_submit: "q_reach run mx q0 q \<Longrightarrow> q_submit mx t op q = Some q' \<Longrightarrow> q_reach run mx q0 q'"
| reach_shutdown: "q_reach run mx q0 q \<Longrightarrow> q_reach run mx q0 (q_do_shutdown q)"

section \<open>The invariant\<close>

fun busy :: "'op finisher \<Rightarrow> bool" where
  "busy (FRun _ _) = True"
| "busy FFinish = True"
| "busy _ = False"

fun running :: "'op finisher \<Rightarrow> 'op list" where
  "running (FRun op _) = [op]"
| "running _ = []"

definition flagged :: "('op, 'r, 'w) op_queue \<Rightarrow> bool" where
  "flagged q \<longleftrightarrow> q_waiters q \<noteq> [] \<and> fst (last (q_waiters q))"

definition q_inv :: "u32 \<Rightarrow> ('op, 'r, 'w) op_queue \<Rightarrow> bool" where
  "q_inv mx q \<longleftrightarrow>
     unat (q_inflight q) = length (q_pending q) + length (filter busy (q_finishers q))
   \<and> unat (q_inflight q) \<le> unat mx + (if flagged q then 0 else 1)
   \<and> (\<forall>w\<in>set (butlast (q_waiters q)). \<not> fst w)
   \<and> map snd (q_waiters q) = map fst (q_blocked q) \<and> distinct (map fst (q_blocked q))
   \<and> (q_waiters q \<noteq> [] \<longrightarrow> flagged q \<or> 0 < q_inflight q)
   \<and> (\<not> q_shutdown q \<longrightarrow> FExit \<notin> set (q_finishers q))
   \<and> q_admitted q = q_taken q @ q_pending q
   \<and> mset (q_taken q) = mset (map fst (q_called q)) + mset (concat (map running (q_finishers q)))"

lemma count_update:
  assumes "i < length xs"
  shows "length (filter P (xs[i := y])) + (if P (xs ! i) then 1 else 0) = length (filter P xs) + (if P y then 1 else 0)"
proof -
  have "length (filter P xs) = length (filter P (take i xs @ xs ! i # drop (Suc i) xs))"
    using id_take_nth_drop [OF assms] by simp
  then show ?thesis using assms by (simp add: upd_conv_take_nth_drop)
qed

lemma mset_concat_update:
  assumes "i < length xs"
  shows "mset (concat (map f (xs[i := y]))) + mset (f (xs ! i)) = mset (concat (map f xs)) + mset (f y)"
proof -
  have "mset (concat (map f xs)) = mset (concat (map f (take i xs @ xs ! i # drop (Suc i) xs)))"
    using id_take_nth_drop [OF assms] by simp
  then show ?thesis using assms by (simp add: upd_conv_take_nth_drop)
qed

lemma busy_positive: "i < length xs \<Longrightarrow> busy (xs ! i) \<Longrightarrow> 0 < length (filter busy xs)"
  using nth_mem [of i xs] by (auto simp: filter_empty_conv)

lemma filter_last_key:
  "xs \<noteq> [] \<Longrightarrow> distinct (map f xs) \<Longrightarrow> filter (\<lambda>x. f x \<noteq> f (last xs)) xs = butlast xs"
  by (cases xs rule: rev_cases) (auto simp: filter_id_conv image_iff)

lemma butlast_mark:
  "ws \<noteq> [] \<Longrightarrow> map snd (butlast ws @ [(True, snd (last ws))]) = map snd ws"
  by (induction ws) auto

lemma q_new_inv: "q_inv mx (op_queue_new k w)"
  by (simp add: q_inv_def op_queue_new_def flagged_def)

lemma admit_inv:
  assumes "q_inv mx q" and "unat (q_inflight q) \<le> unat mx" and "flagged q \<Longrightarrow> q_inflight q < mx" and "unat mx + 1 < 2 ^ 32"
  shows "q_inv mx (q_admit op q)"
proof -
  have u: "unat (q_inflight q + 1) = unat (q_inflight q) + 1"
    using assms(2,4) by (simp add: unat_word_ariths)
  have f: "flagged (q_admit op q) = flagged q" by (simp add: flagged_def q_admit_def)
  have "0 < q_inflight q + 1" using u by (simp add: word_less_nat_alt)
  then show ?thesis
    using assms u unfolding q_inv_def f by (auto simp: q_admit_def word_less_nat_alt)
qed

lemma submit_inv:
  assumes "q_inv mx q" and "q_submit mx t op q = Some q'" and "0 < mx" and "unat mx + 1 < 2 ^ 32"
  shows "q_inv mx q'"
proof (cases "mx \<le> q_inflight q")
  case True
  then have q': "q' = q\<lparr>q_waiters := (False, t) # q_waiters q, q_blocked := (t, op) # q_blocked q\<rparr>" "t \<notin> fst ` set (q_blocked q)"
    using assms(2) by (auto simp: q_submit_def split: if_splits)
  have "0 < q_inflight q" using True assms(3) by (rule order_less_le_trans [rotated])
  moreover have "flagged q' = flagged q" by (simp add: flagged_def q'(1))
  ultimately show ?thesis using assms(1) q'(2) unfolding q_inv_def q'(1) by auto
next
  case False
  then have q': "q' = q_admit op q" using assms(2) by (auto simp: q_submit_def split: if_splits)
  have "unat (q_inflight q) \<le> unat mx" "q_inflight q < mx" using False by (simp_all add: word_le_nat_alt word_less_nat_alt)
  then show ?thesis unfolding q' by (intro admit_inv [OF assms(1) _ _ assms(4)]) simp_all
qed

lemma wake_back:
  assumes "q_inv mx q" and "(True, t) \<in> set (q_waiters q)"
  shows "last (q_waiters q) = (True, t)" and "flagged q" and "filter (\<lambda>w. snd w \<noteq> t) (q_waiters q) = butlast (q_waiters q)"
    and "filter (\<lambda>b. fst b \<noteq> t) (q_blocked q) = butlast (q_blocked q)"
proof -
  have ne: "q_waiters q \<noteq> []" using assms(2) by auto
  then have "set (q_waiters q) = insert (last (q_waiters q)) (set (butlast (q_waiters q)))"
    by (metis append_butlast_last_id list.set(1,2) set_append Un_commute insert_is_Un)
  moreover have "(True, t) \<notin> set (butlast (q_waiters q))" using assms(1) by (auto simp: q_inv_def)
  ultimately show l: "last (q_waiters q) = (True, t)" using assms(2) by auto
  then show "flagged q" using ne by (simp add: flagged_def)
  have d: "distinct (map snd (q_waiters q))" "map snd (q_waiters q) = map fst (q_blocked q)"
    using assms(1) by (simp_all add: q_inv_def)
  show "filter (\<lambda>w. snd w \<noteq> t) (q_waiters q) = butlast (q_waiters q)"
    using filter_last_key [OF ne d(1)] l by simp
  have nb: "q_blocked q \<noteq> []" using d(2) ne by auto
  have "fst (last (q_blocked q)) = t" using d(2) l ne nb by (metis last_map snd_conv)
  then show "filter (\<lambda>b. fst b \<noteq> t) (q_blocked q) = butlast (q_blocked q)"
    using filter_last_key [OF nb, of fst] d by simp
qed

lemma wake_inv:
  assumes "q_inv mx q" and "q_wake t q = Some q'" and "unat mx + 1 < 2 ^ 32"
  shows "q_inv mx q'"
proof -
  obtain op where t: "(True, t) \<in> set (q_waiters q)" and op: "map_of (q_blocked q) t = Some op"
      and q': "q' = q_admit op (q\<lparr>q_waiters := filter (\<lambda>w. snd w \<noteq> t) (q_waiters q),
        q_blocked := filter (\<lambda>b. fst b \<noteq> t) (q_blocked q)\<rparr>)"
    using assms(2) by (auto simp: q_wake_def split: if_splits option.splits)
  note b = wake_back [OF assms(1) t]
  let ?q = "q\<lparr>q_waiters := butlast (q_waiters q), q_blocked := butlast (q_blocked q)\<rparr>"
  have nf: "\<not> flagged ?q" using assms(1) by (auto simp: flagged_def q_inv_def)
  have ne: "q_blocked q \<noteq> []" using op by auto
  have m: "map snd (butlast (q_waiters q)) = map fst (butlast (q_blocked q))" "distinct (map fst (butlast (q_blocked q)))"
    using assms(1) by (auto simp: q_inv_def map_butlast distinct_butlast)
  have i: "unat (q_inflight q) \<le> unat mx" using assms(1) b(2) by (simp add: q_inv_def)
  have u: "unat (q_inflight q + 1) = unat (q_inflight q) + 1" using i assms(3) by (simp add: unat_word_ariths)
  then have p: "0 < q_inflight q + 1" by (simp add: word_less_nat_alt)
  have q'': "q' = q_admit op ?q" unfolding q' b(3,4) ..
  have nf': "\<not> flagged (q_admit op ?q)" using nf by (simp add: flagged_def q_admit_def)
  have "\<forall>w\<in>set (butlast (butlast (q_waiters q))). \<not> fst w"
    using assms(1) by (auto simp: q_inv_def dest: in_set_butlastD)
  then show ?thesis
    using assms(1) nf' i m p u unfolding q'' q_inv_def by (simp add: q_admit_def)
qed

lemma take_inv:
  assumes "q_inv mx q" and "q_take i q = Some q'"
  shows "q_inv mx q'"
proof -
  have i: "i < length (q_finishers q)" "q_finishers q ! i = FIdle" "q_pending q \<noteq> [] \<or> q_shutdown q"
    using assms(2) by (auto simp: q_take_def split: if_splits)
  note c = count_update [OF i(1), of busy] and m = mset_concat_update [OF i(1), of running]
  show ?thesis
  proof (cases "q_pending q")
    case Nil
    then have q': "q' = q\<lparr>q_finishers := (q_finishers q)[i := FExit]\<rparr>" using assms(2) i by (simp add: q_take_def)
    have "flagged q' = flagged q" by (simp add: flagged_def q')
    then show ?thesis using assms(1) i Nil c [of FExit] m [of FExit] unfolding q_inv_def q' by simp
  next
    case (Cons op ops)
    let ?f = "FRun op (q_shutdown q)"
    have q': "q' = q\<lparr>q_finishers := (q_finishers q)[i := ?f], q_pending := ops, q_taken := q_taken q @ [op]\<rparr>"
      using assms(2) i Cons by (simp add: q_take_def)
    have "flagged q' = flagged q" by (simp add: flagged_def q')
    moreover have "FExit \<in> set ((q_finishers q)[i := ?f]) \<Longrightarrow> FExit \<in> set (q_finishers q)"
      by (auto dest: set_update_subset_insert [THEN subsetD])
    ultimately show ?thesis using assms(1) i Cons c [of ?f] m [of ?f] unfolding q_inv_def q' by (auto simp: ac_simps)
  qed
qed

lemma call_shape:
  assumes "q_call run i q = Some q'"
  obtains op ret w where "i < length (q_finishers q)" and "running (q_finishers q ! i) = [op]" and "busy (q_finishers q ! i)"
    and "q' = q\<lparr>q_finishers := (q_finishers q)[i := FFinish], q_world := w, q_called := q_called q @ [(op, ret)]\<rparr>"
    and "w = q_world q \<and> ret = Inl ESHUTDOWN \<or> run op (q_world q) = Some (ret, w)"
proof -
  obtain op fl where i: "i < length (q_finishers q)" "q_finishers q ! i = FRun op fl"
    using assms by (auto simp: q_call_def split: if_splits finisher.splits)
  show ?thesis
  proof (cases fl)
    case True
    then show ?thesis using that [of op "Inl ESHUTDOWN" "q_world q"] i assms by (simp add: q_call_def)
  next
    case False
    then show ?thesis using that [of op] i assms by (auto simp: q_call_def split: option.splits)
  qed
qed

lemma call_inv:
  assumes "q_inv mx q" and "q_call run i q = Some q'"
  shows "q_inv mx q'"
proof -
  obtain op ret w where i: "i < length (q_finishers q)" "running (q_finishers q ! i) = [op]" "busy (q_finishers q ! i)"
      and q': "q' = q\<lparr>q_finishers := (q_finishers q)[i := FFinish], q_world := w, q_called := q_called q @ [(op, ret)]\<rparr>"
    by (rule call_shape [OF assms(2)])
  have "flagged q' = flagged q" by (simp add: flagged_def q')
  moreover have "FExit \<in> set ((q_finishers q)[i := FFinish]) \<Longrightarrow> FExit \<in> set (q_finishers q)"
    by (auto dest: set_update_subset_insert [THEN subsetD])
  ultimately show ?thesis
    using assms(1) i count_update [OF i(1), of busy FFinish] mset_concat_update [OF i(1), of running FFinish]
    unfolding q_inv_def q' by (auto simp: ac_simps)
qed

lemma finish_enabled:
  assumes "q_inv mx q" and "i < length (q_finishers q)" and "q_finishers q ! i = FFinish"
  shows "0 < q_inflight q"
  using assms busy_positive [OF assms(2)] by (simp add: q_inv_def word_less_nat_alt)

lemma finish_inv:
  assumes "q_inv mx q" and "q_finish i q = Some (Inr q')"
  shows "q_inv mx q'"
proof -
  let ?ws = "if q_waiters q = [] then [] else butlast (q_waiters q) @ [(True, snd (last (q_waiters q)))]"
  have i: "i < length (q_finishers q)" "q_finishers q ! i = FFinish" "0 < q_inflight q"
      and q': "q' = q\<lparr>q_finishers := (q_finishers q)[i := FIdle], q_inflight := q_inflight q - 1, q_waiters := ?ws\<rparr>"
    using assms(2) by (auto simp: q_finish_def split: if_splits)
  have u: "unat (q_inflight q - 1) = unat (q_inflight q) - 1" using i(3) by (simp add: unat_minus_one word_gt_0)
  have f: "flagged q' = (q_waiters q \<noteq> [])" by (simp add: flagged_def q')
  have "FExit \<in> set ((q_finishers q)[i := FIdle]) \<Longrightarrow> FExit \<in> set (q_finishers q)"
    by (auto dest: set_update_subset_insert [THEN subsetD])
  moreover have "map snd ?ws = map snd (q_waiters q)" using butlast_mark by auto
  moreover have "\<forall>w\<in>set (butlast ?ws). \<not> fst w" using assms(1) by (auto simp: q_inv_def)
  moreover have "unat (q_inflight q) - 1 \<le> unat mx" using assms(1) by (auto simp: q_inv_def split: if_splits)
  ultimately show ?thesis
    using assms(1) i u f count_update [OF i(1), of busy FIdle] mset_concat_update [OF i(1), of running FIdle]
    unfolding q_inv_def by (auto simp: q')
qed

lemma step_inv:
  assumes "q_step run mx q q'" and "q_inv mx q" and "unat mx + 1 < 2 ^ 32"
  shows "q_inv mx q'"
  using assms by cases (auto intro: wake_inv take_inv call_inv finish_inv)

lemma reach_inv:
  assumes "q_reach run mx (op_queue_new k w) q" and "0 < mx" and "unat mx + 1 < 2 ^ 32"
  shows "q_inv mx q"
  using assms(1)
proof induction
  case (reach_shutdown q)
  then show ?case by (simp add: q_inv_def q_do_shutdown_def flagged_def)
next
  case (reach_step q q')
  then show ?case using step_inv assms(3) by metis
next
  case (reach_submit q t op q')
  then show ?case using submit_inv assms(2,3) by metis
qed (rule q_new_inv)

section \<open>Progress\<close>

fun finisher_weight :: "'op finisher \<Rightarrow> nat" where
  "finisher_weight FIdle = 1"
| "finisher_weight (FRun _ _) = 3"
| "finisher_weight FFinish = 2"
| "finisher_weight FExit = 0"

definition q_weight :: "('op, 'r, 'w) op_queue \<Rightarrow> nat" where
  "q_weight q = 5 * length (q_waiters q) + 4 * length (q_pending q) + sum_list (map finisher_weight (q_finishers q))"

lemma weight_update:
  assumes "i < length xs"
  shows "sum_list (map finisher_weight (xs[i := y])) + finisher_weight (xs ! i) =
    sum_list (map finisher_weight xs) + finisher_weight y"
proof -
  have "sum_list (map finisher_weight xs) = sum_list (map finisher_weight (take i xs @ xs ! i # drop (Suc i) xs))"
    using id_take_nth_drop [OF assms] by simp
  then show ?thesis using assms by (simp add: upd_conv_take_nth_drop)
qed

lemma step_weight: "q_step run mx q q' \<Longrightarrow> q_weight q' < q_weight q"
proof (induction rule: q_step.induct)
  case (step_wake t q q')
  then have "\<exists>op. q_weight q' = 5 * length (filter (\<lambda>w. snd w \<noteq> t) (q_waiters q)) + 4 * length (q_pending q) + 4
      + sum_list (map finisher_weight (q_finishers q))" and t: "(True, t) \<in> set (q_waiters q)"
    by (auto simp: q_wake_def q_admit_def q_weight_def split: if_splits option.splits)
  moreover have "length (filter (\<lambda>w. snd w \<noteq> t) (q_waiters q)) < length (q_waiters q)"
    using t by (intro length_filter_less) auto
  ultimately show ?case by (auto simp: q_weight_def)
next
  case (step_take i q q')
  then have i: "i < length (q_finishers q)" "q_finishers q ! i = FIdle" by (auto simp: q_take_def split: if_splits)
  show ?case
  proof (cases "q_pending q")
    case Nil
    then show ?thesis using step_take i weight_update [OF i(1), of FExit] by (auto simp: q_take_def q_weight_def split: if_splits)
  next
    case (Cons op ops)
    then show ?thesis
      using step_take i weight_update [OF i(1), of "FRun op (q_shutdown q)"] by (auto simp: q_take_def q_weight_def split: if_splits)
  qed
next
  case (step_call i q q')
  obtain op ret w where i: "i < length (q_finishers q)" "running (q_finishers q ! i) = [op]"
      and q': "q' = q\<lparr>q_finishers := (q_finishers q)[i := FFinish], q_world := w, q_called := q_called q @ [(op, ret)]\<rparr>"
    by (rule call_shape [OF step_call])
  have "finisher_weight (q_finishers q ! i) = 3" using i(2) by (cases "q_finishers q ! i") auto
  then show ?case using weight_update [OF i(1), of FFinish] by (simp add: q_weight_def q')
next
  case (step_finish i q q')
  then show ?case
    using weight_update [of i "q_finishers q" FIdle]
    by (fastforce simp: q_finish_def q_weight_def split: if_splits)
qed

lemma step_shutdown: "q_step run mx q q' \<Longrightarrow> q_shutdown q' = q_shutdown q \<and> length (q_finishers q') = length (q_finishers q)"
  by (induction rule: q_step.induct)
    (auto simp: q_wake_def q_admit_def q_take_def q_finish_def split: if_splits option.splits list.splits elim!: call_shape)

lemma step_possible:
  assumes inv: "q_inv mx q" and sh: "\<not> q_shutdown q" and fin: "q_finishers q \<noteq> []" and total: "\<forall>op w. run op w \<noteq> None"
    and work: "q_waiters q \<noteq> [] \<or> q_pending q \<noteq> [] \<or> (\<exists>f\<in>set (q_finishers q). busy f)"
  shows "\<exists>q'. q_step run mx q q'"
proof -
  consider "flagged q" | i where "i < length (q_finishers q)" "busy (q_finishers q ! i)"
    | "\<not> flagged q" "\<forall>f\<in>set (q_finishers q). \<not> busy f"
    by (metis in_set_conv_nth)
  then show ?thesis
  proof cases
    case 1
    then obtain t where t: "last (q_waiters q) = (True, t)" "q_waiters q \<noteq> []"
      by (cases "last (q_waiters q)") (auto simp: flagged_def)
    then have "(True, t) \<in> set (q_waiters q)" by (metis last_in_set)
    moreover from this have "t \<in> fst ` set (q_blocked q)"
      using inv by (metis (no_types, lifting) image_eqI list.set_map q_inv_def snd_conv)
    then obtain op where "map_of (q_blocked q) t = Some op" by (cases "map_of (q_blocked q) t") (auto simp: map_of_eq_None_iff)
    ultimately show ?thesis by (intro exI) (rule step_wake [of t], simp add: q_wake_def)
  next
    case (2 i)
    show ?thesis
    proof (cases "q_finishers q ! i")
      case (FRun op fl)
      obtain r w where "run op (q_world q) = Some (r, w)" using total by fastforce
      then have "\<exists>q'. q_call run i q = Some q'" using 2(1) FRun by (simp add: q_call_def)
      then show ?thesis by (blast intro: step_call)
    next
      case FFinish
      then have "\<exists>q'. q_finish i q = Some (Inr q')" using 2(1) finish_enabled [OF inv 2(1)] by (simp add: q_finish_def)
      then show ?thesis by (blast intro: step_finish)
    qed (use 2 in simp_all)
  next
    case 3
    have "length (filter busy (q_finishers q)) = 0" using 3(2) by simp
    moreover have "0 < q_inflight q \<or> q_pending q \<noteq> []" using work inv 3 by (auto simp: q_inv_def)
    ultimately have pend: "q_pending q \<noteq> []" using inv by (auto simp: q_inv_def word_less_nat_alt)
    have "q_finishers q ! 0 \<in> set (q_finishers q)" using fin by simp
    moreover have "FExit \<notin> set (q_finishers q)" using inv sh by (simp add: q_inv_def)
    ultimately have "\<not> busy (q_finishers q ! 0)" "q_finishers q ! 0 \<noteq> FExit" using 3(2) by metis+
    then have "q_finishers q ! 0 = FIdle" by (cases "q_finishers q ! 0") simp_all
    then have "\<exists>q'. q_take 0 q = Some q'" using pend fin by (cases "q_pending q") (simp_all add: q_take_def)
    then show ?thesis by (blast intro: step_take)
  qed
qed

lemma drains:
  assumes "unat mx + 1 < 2 ^ 32" and "\<forall>op w. run op w \<noteq> None"
  shows "q_inv mx q \<Longrightarrow> \<not> q_shutdown q \<Longrightarrow> q_finishers q \<noteq> [] \<Longrightarrow>
    \<exists>q'. (q_step run mx)\<^sup>*\<^sup>* q q' \<and> q_inv mx q' \<and> q_waiters q' = [] \<and> q_pending q' = [] \<and> (\<forall>f\<in>set (q_finishers q'). \<not> busy f)"
proof (induction "q_weight q" arbitrary: q rule: less_induct)
  case less
  show ?case
  proof (cases "q_waiters q \<noteq> [] \<or> q_pending q \<noteq> [] \<or> (\<exists>f\<in>set (q_finishers q). busy f)")
    case True
    then obtain q1 where s: "q_step run mx q q1" using step_possible [OF less.prems assms(2)] by blast
    note i = step_weight [OF s] step_inv [OF s less.prems(1) assms(1)] step_shutdown [OF s]
    have "q_finishers q1 \<noteq> []" using i(3) less.prems(3) by auto
    then obtain q' where "(q_step run mx)\<^sup>*\<^sup>* q1 q'" "q_inv mx q'" "q_waiters q' = []" "q_pending q' = []"
        "\<forall>f\<in>set (q_finishers q'). \<not> busy f"
      using less.hyps [OF i(1,2)] i(3) less.prems(2) by blast
    then show ?thesis using converse_rtranclp_into_rtranclp [of "q_step run mx", OF s] by blast
  next
    case False
    then show ?thesis using less.prems(1) by blast
  qed
qed

lemma idle_called:
  assumes "q_inv mx q" and "q_pending q = []" and "\<forall>f\<in>set (q_finishers q). \<not> busy f"
  shows "mset (map fst (q_called q)) = mset (q_admitted q)"
proof -
  have "concat (map running (q_finishers q)) = []"
  proof -
    have "running f = []" if "f \<in> set (q_finishers q)" for f using assms(3) that by (cases f) auto
    then show ?thesis by simp
  qed
  then show ?thesis using assms(1,2) by (simp add: q_inv_def)
qed

end
