(* ===== verification/Log_Queue.thy ===== *)
theory Log_Queue
  imports Op_Queue Example_Log
begin

text \<open>
  The operations of the log in the queue: the classes derived from \<^verbatim>\<open>LogOp\<close> (\<^verbatim>\<open>libzlog/log_impl.h\<close>) as one
  datatype, their virtual \<^verbatim>\<open>run\<close>, the asynchronous calls of \<^verbatim>\<open>LogImpl\<close> and \<^verbatim>\<open>ReadOnlyLogImpl\<close>, and what the
  callbacks report. A callback gets the return code and, if it is 0, the position or the data.
\<close>

datatype log_op =
    TailOp bool
  | ReadOp u64
  | AppendOp string
  | FillOp u64
  | TrimOp u64
  | TrimToOp u64

datatype op_result = RPosition u64 | RData string | RNone

definition op_ret :: "('a \<Rightarrow> op_result) \<Rightarrow> 'a ret \<times> 's world \<Rightarrow> op_result ret \<times> 's world" where
  "op_ret f = (\<lambda>(r, w). (map_sum id f r, w))"

fun log_op_run ::
  "nat \<Rightarrow> nat \<Rightarrow> view_codec \<Rightarrow> 's log_backend \<Rightarrow> options \<Rightarrow> log_op \<Rightarrow> 's world \<Rightarrow> (op_result ret \<times> 's world) option" where
  "log_op_run n m codec lb opts (TailOp increment) w = Some (op_ret RPosition (tail_run codec lb increment w))"
| "log_op_run n m codec lb opts (ReadOp position) w = map_option (op_ret RData) (read_run n m codec lb opts position w)"
| "log_op_run n m codec lb opts (AppendOp data) w = map_option (op_ret RPosition) (append_run n m codec lb opts data None w)"
| "log_op_run n m codec lb opts (FillOp position) w = map_option (op_ret (\<lambda>_. RNone)) (fill_run n m codec lb opts position w)"
| "log_op_run n m codec lb opts (TrimOp position) w = map_option (op_ret (\<lambda>_. RNone)) (trim_run n m codec lb opts position w)"
| "log_op_run n m codec lb opts (TrimToOp position) w =
     map_option (op_ret (\<lambda>_. RNone)) (trim_to_run n m codec lb opts position w)"

type_synonym 's log_queue = "(log_op, op_result, 's world) op_queue"

text \<open>The asynchronous calls, up to the point where the caller may have to wait for a free place.\<close>

definition async_op :: "options \<Rightarrow> nat \<Rightarrow> log_op \<Rightarrow> 's log_queue \<Rightarrow> (unit ret \<times> 's log_queue) option" where
  "async_op opts t op q = map_option (\<lambda>q'. (Inr (), q')) (q_submit (max_inflight_ops opts) t op q)"

definition tailAsync :: "options \<Rightarrow> nat \<Rightarrow> bool \<Rightarrow> 's log_queue \<Rightarrow> (unit ret \<times> 's log_queue) option" where
  "tailAsync opts t increment q = async_op opts t (TailOp increment) q"

definition readAsync :: "options \<Rightarrow> nat \<Rightarrow> u64 \<Rightarrow> 's log_queue \<Rightarrow> (unit ret \<times> 's log_queue) option" where
  "readAsync opts t position q = async_op opts t (ReadOp position) q"

definition appendAsync ::
  "log_class \<Rightarrow> options \<Rightarrow> nat \<Rightarrow> string \<Rightarrow> 's log_queue \<Rightarrow> (unit ret \<times> 's log_queue) option" where
  "appendAsync cls opts t data q =
     (case cls of ReadOnlyLogImpl \<Rightarrow> Some (Inl EROFS, q) | LogImpl \<Rightarrow> async_op opts t (AppendOp data) q)"

definition fillAsync ::
  "log_class \<Rightarrow> options \<Rightarrow> nat \<Rightarrow> u64 \<Rightarrow> 's log_queue \<Rightarrow> (unit ret \<times> 's log_queue) option" where
  "fillAsync cls opts t position q =
     (case cls of ReadOnlyLogImpl \<Rightarrow> Some (Inl EROFS, q) | LogImpl \<Rightarrow> async_op opts t (FillOp position) q)"

definition trimAsync ::
  "log_class \<Rightarrow> options \<Rightarrow> nat \<Rightarrow> u64 \<Rightarrow> 's log_queue \<Rightarrow> (unit ret \<times> 's log_queue) option" where
  "trimAsync cls opts t position q =
     (case cls of ReadOnlyLogImpl \<Rightarrow> Some (Inl EROFS, q) | LogImpl \<Rightarrow> async_op opts t (TrimOp position) q)"

definition trimToAsync ::
  "log_class \<Rightarrow> options \<Rightarrow> nat \<Rightarrow> u64 \<Rightarrow> 's log_queue \<Rightarrow> (unit ret \<times> 's log_queue) option" where
  "trimToAsync cls opts t position q =
     (case cls of ReadOnlyLogImpl \<Rightarrow> Some (Inl EROFS, q) | LogImpl \<Rightarrow> async_op opts t (TrimToOp position) q)"

section \<open>The contract of the pool\<close>

text \<open>If every operation keeps an invariant and its answer stays true while the other operations run, then the answers
  passed to all callbacks are true at the end.\<close>

definition pool_ok :: "('w \<Rightarrow> bool) \<Rightarrow> ('op \<Rightarrow> 'r ret \<Rightarrow> 'w \<Rightarrow> bool) \<Rightarrow> ('op, 'r, 'w) op_queue \<Rightarrow> bool" where
  "pool_ok good answer q \<longleftrightarrow>
     good (q_world q) \<and> (\<forall>(op, r)\<in>set (q_called q). r = Inl ESHUTDOWN \<or> answer op r (q_world q))"

locale finisher_pool =
  fixes run :: "'op \<Rightarrow> 'w \<Rightarrow> ('r ret \<times> 'w) option"
    and good :: "'w \<Rightarrow> bool"
    and answer :: "'op \<Rightarrow> 'r ret \<Rightarrow> 'w \<Rightarrow> bool"
  assumes run_good: "good w \<Longrightarrow> run op w = Some (r, w') \<Longrightarrow> good w' \<and> answer op r w'"
    and answer_later: "good w \<Longrightarrow> answer op r w \<Longrightarrow> run op' w = Some (r', w') \<Longrightarrow> answer op r w'"
begin

abbreviation ok :: "('op, 'r, 'w) op_queue \<Rightarrow> bool" where
  "ok \<equiv> pool_ok good answer"

lemma pool_same: "ok q \<Longrightarrow> q_world q' = q_world q \<Longrightarrow> q_called q' = q_called q \<Longrightarrow> ok q'"
  by (simp add: pool_ok_def)

lemma step_pool: "q_step run mx q q' \<Longrightarrow> ok q \<Longrightarrow> ok q'"
proof (induction rule: q_step.induct)
  case (step_wake t q q')
  then show ?case by (elim pool_same) (auto simp: q_wake_def q_admit_def split: if_splits option.splits)
next
  case (step_take i q q')
  then show ?case by (elim pool_same) (auto simp: q_take_def split: if_splits list.splits)
next
  case (step_finish i q q')
  then show ?case by (elim pool_same) (auto simp: q_finish_def split: if_splits)
next
  case (step_call i q q')
  obtain op ret w where q': "q' = q\<lparr>q_finishers := (q_finishers q)[i := FFinish], q_world := w,
        q_called := q_called q @ [(op, ret)]\<rparr>"
      and r: "w = q_world q \<and> ret = Inl ESHUTDOWN \<or> run op (q_world q) = Some (ret, w)"
    by (rule call_shape [OF step_call(1)])
  from r show ?case
  proof
    assume r: "run op (q_world q) = Some (ret, w)"
    have g: "good (q_world q)" using step_call(2) by (simp add: pool_ok_def)
    show ?thesis
      using step_call(2) run_good [OF g r] answer_later [OF g _ r] by (auto simp: pool_ok_def q')
  qed (use step_call(2) in \<open>auto simp: pool_ok_def q'\<close>)
qed

lemma reach_pool: "q_reach run mx q0 q \<Longrightarrow> ok q0 \<Longrightarrow> ok q"
proof (induction rule: q_reach.induct)
  case (reach_step q q')
  then show ?case using step_pool by blast
next
  case (reach_submit q t op q')
  then show ?case by (auto simp: q_submit_def q_admit_def pool_ok_def split: if_splits)
qed (simp_all add: pool_ok_def q_do_shutdown_def)

end

section \<open>The answers of the log\<close>

fun op_true :: "('s \<Rightarrow> u64 \<Rightarrow> entry option) \<Rightarrow> log_op \<Rightarrow> op_result ret \<Rightarrow> 's \<Rightarrow> bool" where
  "op_true at (TailOp _) r s \<longleftrightarrow> r \<noteq> Inl Aborted"
| "op_true at (ReadOp p) r s \<longleftrightarrow> r \<noteq> Inl Aborted \<and> (r = Inl ENODATA \<longrightarrow> at s p = Some Junk)
     \<and> (\<forall>d. r = Inr (RData d) \<longrightarrow> at s p = Some (Data d) \<or> at s p = Some Junk)"
| "op_true at (AppendOp d) r s \<longleftrightarrow> r \<noteq> Inl Aborted
     \<and> (\<forall>p. r = Inr (RPosition p) \<longrightarrow> at s p = Some (Data d) \<or> at s p = Some Junk)"
| "op_true at (FillOp p) r s \<longleftrightarrow> r \<noteq> Inl Aborted \<and> (\<forall>u. r = Inr u \<longrightarrow> at s p = Some Junk)"
| "op_true at (TrimOp p) r s \<longleftrightarrow> r \<noteq> Inl Aborted \<and> (\<forall>u. r = Inr u \<longrightarrow> at s p = Some Junk)"
| "op_true at (TrimToOp p) r s \<longleftrightarrow> r \<noteq> Inl Aborted \<and> (\<forall>u. r = Inr u \<longrightarrow> (\<forall>q\<le>p. at s q = Some Junk))"

definition ram_pool_good :: "view_codec \<Rightarrow> ram log_backend \<Rightarrow> options \<Rightarrow> ram world \<Rightarrow> bool" where
  "ram_pool_good codec lb opts w \<longleftrightarrow> (tried_ok w \<and> stripe_options_ok opts \<longrightarrow> ram_world_ok codec lb w)"

definition ram_pool_answer :: "view_codec \<Rightarrow> ram log_backend \<Rightarrow> options \<Rightarrow> log_op \<Rightarrow> op_result ret \<Rightarrow> ram world \<Rightarrow> bool" where
  "ram_pool_answer codec lb opts op r w \<longleftrightarrow>
     (tried_ok w \<and> stripe_options_ok opts \<longrightarrow> op_true (ram_log_at codec lb) op r (w_store w))"

lemma op_true_later:
  assumes "op_true (ram_log_at codec lb) op r s" and le: "ram_log_le codec lb s s'"
  shows "op_true (ram_log_at codec lb) op r s'"
proof -
  note j = ram_junk_stays [OF le] and d = ram_written_stays [OF le]
  show ?thesis
    using assms(1) j d by (cases op) auto
qed

lemma log_op_result:
  assumes L: "ram_client codec lb" and o: "stripe_options_ok opts"
    and r: "log_op_run n m codec lb opts op w = Some (r, w')" and t: "tried_ok w'" and w: "ram_world_ok codec lb w"
  shows "ram_world_ok codec lb w' \<and> ram_log_le codec lb (w_store w) (w_store w') \<and> op_true (ram_log_at codec lb) op r (w_store w')"
proof -
  note C = ram_log_client [OF L]
  have fin: "ram_world_ok codec lb w' \<and> ram_log_le codec lb (w_store w) (w_store w')
      \<and> op_true (ram_log_at codec lb) op r (w_store w')"
    if m: "ram_world_ok codec lb w' \<and> (\<exists>s s'. ram_log_le codec lb (w_store w) s \<and> P s s'
        \<and> ram_log_le codec lb s s' \<and> ram_log_le codec lb s' (w_store w'))"
      and P: "\<And>s s'. P s s' \<Longrightarrow> ram_log_le codec lb s s' \<Longrightarrow> op_true (ram_log_at codec lb) op r s'" for P
  proof -
    obtain s s' where s: "ram_log_le codec lb (w_store w) s" "P s s'" "ram_log_le codec lb s s'" "ram_log_le codec lb s' (w_store w')"
      using m by blast
    have "ram_log_le codec lb (w_store w) (w_store w')" by (rule log_le_trans [OF log_le_trans [OF s(1,3)] s(4)])
    then show ?thesis using m op_true_later [OF P [OF s(2,3)] s(4)] by blast
  qed
  show ?thesis
  proof (cases op)
    case (TailOp inc)
    obtain a where a: "tail_run codec lb inc w = (a, w')" "r = map_sum id RPosition a"
      using r TailOp by (cases "tail_run codec lb inc w") (auto simp: op_ret_def)
    have "a \<noteq> Inl Aborted" using log_client.tail_run_result(2) [OF C a(1) t w] .
    then show ?thesis
      using log_client.tail_run_result(1) [OF C a(1)] t w a(2) TailOp
      by (cases a) (auto simp: world_ext_def)
  next
    case (ReadOp p)
    then obtain a where a: "read_run n m codec lb opts p w = Some (a, w')" "r = map_sum id RData a"
      using r by (auto simp: op_ret_def)
    show ?thesis
    proof (rule fin [OF run_moments [OF log_client.read_run_result [OF C o a(1)] t w]])
      fix s s' assume "read_answer (ram_log_at codec lb) p a s" "ram_log_le codec lb s s'"
      then show "op_true (ram_log_at codec lb) op r s'"
        using ram_junk_stays ram_written_stays unfolding a(2) ReadOp
        by (cases a) (auto simp: read_answer_def)
    qed
  next
    case (AppendOp d)
    then obtain a where a: "append_run n m codec lb opts d None w = Some (a, w')" "r = map_sum id RPosition a"
      using r by (auto simp: op_ret_def)
    show ?thesis
      by (rule fin [OF run_moments [OF log_client.append_run_result [OF C o a(1)] t w]])
        (use a(2) AppendOp in \<open>cases a; auto simp: append_answer_def\<close>)+
  next
    case (FillOp p)
    then obtain a where a: "fill_run n m codec lb opts p w = Some (a, w')" "r = map_sum id (\<lambda>_. RNone) a"
      using r by (auto simp: op_ret_def)
    show ?thesis
      by (rule fin [OF run_moments [OF log_client.fill_run_result [OF C o a(1)] t w]])
        (use a(2) FillOp in \<open>cases a; auto simp: fill_answer_def\<close>)
  next
    case (TrimOp p)
    then obtain a where a: "trim_run n m codec lb opts p w = Some (a, w')" "r = map_sum id (\<lambda>_. RNone) a"
      using r by (auto simp: op_ret_def)
    show ?thesis
      by (rule fin [OF run_moments [OF log_client.trim_run_result [OF C o a(1)] t w]])
        (use a(2) TrimOp in \<open>cases a; auto simp: trim_answer_def\<close>)
  next
    case (TrimToOp p)
    then obtain a where a: "trim_to_run n m codec lb opts p w = Some (a, w')" "r = map_sum id (\<lambda>_. RNone) a"
      using r by (auto simp: op_ret_def)
    show ?thesis
      by (rule fin [OF run_moments [OF log_client.trim_to_run_result [OF C o a(1)] t w]])
        (use a(2) TrimToOp in \<open>cases a; auto simp: trim_to_answer_def\<close>)
  qed
qed

lemma log_op_tried:
  assumes "ram_client codec lb" and "stripe_options_ok opts" and "log_op_run n m codec lb opts op w = Some (r, w')" and "tried_ok w'"
  shows "tried_ok w"
proof -
  note C = ram_log_client [OF assms(1)]
  have "world_ext ram_inv ram_obj ram_views codec lb w w'"
  proof (cases op)
    case (TailOp inc)
    then have "\<exists>a. tail_run codec lb inc w = (a, w')" using assms(3) by (cases "tail_run codec lb inc w") (simp add: op_ret_def)
    then show ?thesis using log_client.tail_run_result(1) [OF C] by blast
  next
    case (ReadOp p)
    then have "\<exists>a. read_run n m codec lb opts p w = Some (a, w')" using assms(3) by (auto simp: op_ret_def)
    then show ?thesis using log_client.read_run_result [OF C assms(2)] by blast
  next
    case (AppendOp d)
    then have "\<exists>a. append_run n m codec lb opts d None w = Some (a, w')" using assms(3) by (auto simp: op_ret_def)
    then show ?thesis using log_client.append_run_result [OF C assms(2)] by blast
  next
    case (FillOp p)
    then have "\<exists>a. fill_run n m codec lb opts p w = Some (a, w')" using assms(3) by (auto simp: op_ret_def)
    then show ?thesis using log_client.fill_run_result [OF C assms(2)] by blast
  next
    case (TrimOp p)
    then have "\<exists>a. trim_run n m codec lb opts p w = Some (a, w')" using assms(3) by (auto simp: op_ret_def)
    then show ?thesis using log_client.trim_run_result [OF C assms(2)] by blast
  next
    case (TrimToOp p)
    then have "\<exists>a. trim_to_run n m codec lb opts p w = Some (a, w')" using assms(3) by (auto simp: op_ret_def)
    then show ?thesis using log_client.trim_to_run_result [OF C assms(2)] by blast
  qed
  then have "set (w_tried w) \<subseteq> set (w_tried w')" by (simp add: world_ext_def)
  then show ?thesis using assms(4) by (auto simp: tried_ok_def)
qed

lemma ram_pool:
  assumes L: "ram_client codec lb"
  shows "finisher_pool (log_op_run n m codec lb opts) (ram_pool_good codec lb opts) (ram_pool_answer codec lb opts)"
proof
  fix w w' :: "ram world" and op r
  assume g: "ram_pool_good codec lb opts w" and r: "log_op_run n m codec lb opts op w = Some (r, w')"
  show "ram_pool_good codec lb opts w' \<and> ram_pool_answer codec lb opts op r w'"
    using log_op_result [OF L _ r] log_op_tried [OF L _ r] g by (auto simp: ram_pool_good_def ram_pool_answer_def)
  fix op0 r0 assume "ram_pool_answer codec lb opts op0 r0 w"
  then show "ram_pool_answer codec lb opts op0 r0 w'"
    using log_op_result [OF L _ r] log_op_tried [OF L _ r] g op_true_later
    by (auto simp: ram_pool_good_def ram_pool_answer_def)
qed

interpretation log_pool: finisher_pool "log_op_run n m text_codec (ram_handle key token) opts"
    "ram_pool_good text_codec (ram_handle key token) opts" "ram_pool_answer text_codec (ram_handle key token) opts"
  for n m key token opts
  by (rule ram_pool [OF ram_handle_client [OF text_codec_ok]])

end
