(* ===== verification/Queue_Properties.thy ===== *)
theory Queue_Properties
  imports Log_Queue
begin

text \<open>
  What holds of the queue of operations in every interleaving of callers and finishers.
\<close>

text \<open>C15. Accounting and order: the counter of operations in flight counts those in the queue and those with a finisher, and
  exceeds the limit by one at most; operations leave the queue in the order in which they entered; every
  callback is for an operation that was taken, and each operation gets one callback at most; and the assertion
  of the finishers holds.\<close>

theorem queue_accounting:
  assumes "q_reach run mx (op_queue_new k w) q" and "0 < mx" and "unat mx + 1 < 2 ^ 32"
  shows "unat (q_inflight q) = length (q_pending q) + length (filter busy (q_finishers q))
    \<and> unat (q_inflight q) \<le> unat mx + 1
    \<and> q_admitted q = q_taken q @ q_pending q
    \<and> mset (map fst (q_called q)) \<subseteq># mset (q_taken q)
    \<and> (\<forall>i. q_finish i q \<noteq> Some (Inl Aborted))"
proof -
  note inv = reach_inv [OF assms]
  have "q_finish i q \<noteq> Some (Inl Aborted)" for i
    using finish_enabled [OF inv, of i] by (simp add: q_finish_def)
  then show ?thesis using inv by (simp add: q_inv_def split: if_splits)
qed

definition sample_queue :: "nat \<Rightarrow> (nat, unit, unit) op_queue" where
  "sample_queue k = op_queue_new k ()"

lemma sample_submit: "q_submit 1 0 7 (sample_queue 1) = Some (q_admit 7 (sample_queue 1))"
  by (simp add: q_submit_def sample_queue_def op_queue_new_def)

theorem queue_accounting_witness:
  "q_reach (\<lambda>op w. Some (Inr (), w)) 1 (sample_queue 1) (q_admit 7 (sample_queue 1))
     \<and> unat (q_inflight (q_admit 7 (sample_queue 1))) \<le> unat (1 :: u32) + 1"
proof -
  have r: "q_reach (\<lambda>op w. Some (Inr (), w)) 1 (sample_queue 1) (q_admit 7 (sample_queue 1))"
    by (rule reach_submit [OF reach_start sample_submit])
  then show ?thesis using queue_accounting [OF r [unfolded sample_queue_def]] by (simp add: sample_queue_def)
qed





text \<open>With a limit of 0 the first caller waits for ever: nothing is in flight, so that no finisher ever wakes it.\<close>

lemma zero_limit_blocks:
  "\<exists>q1. q_submit 0 t op (op_queue_new k w) = Some q1 \<and> q_waiters q1 \<noteq> [] \<and> (\<forall>q2. \<not> q_step run 0 q1 q2)"
proof -
  let ?q = "op_queue_new k w\<lparr>q_waiters := [(False, t)], q_blocked := [(t, op)]\<rparr>"
  have "\<not> q_step run 0 ?q q2" for q2
  proof
    assume "q_step run 0 ?q q2"
    then show False
      by cases (auto simp: q_wake_def q_take_def q_call_def q_finish_def op_queue_new_def split: if_splits)
  qed
  moreover have "q_submit 0 t op (op_queue_new k w) = Some ?q" by (simp add: q_submit_def op_queue_new_def)
  ultimately show ?thesis by (intro exI [of _ ?q]) simp
qed

text \<open>The limit is exceeded when a caller that was woken meets another that came in between: with a limit of 1, two
  operations can be in flight.\<close>

lemma limit_exceeded:
  "\<exists>q. q_reach (\<lambda>op w. Some (Inr (), w)) 1 (sample_queue 1) q \<and> q_inflight q = 2"
proof -
  let ?run = "\<lambda>(op :: nat) (w :: unit). Some (Inr () :: unit ret, w)"
  let ?q1 = "q_admit 7 (sample_queue 1)"
  let ?q2 = "?q1\<lparr>q_waiters := [(False, 1)], q_blocked := [(1, 8)]\<rparr>"
  let ?q3 = "?q2\<lparr>q_finishers := [FRun 7 False], q_pending := [], q_taken := [7]\<rparr>"
  let ?q4 = "?q3\<lparr>q_finishers := [FFinish], q_called := [(7, Inr ())]\<rparr>"
  let ?q5 = "?q4\<lparr>q_finishers := [FIdle], q_inflight := 0, q_waiters := [(True, 1)]\<rparr>"
  let ?q6 = "q_admit 9 ?q5"
  let ?q7 = "q_admit 8 (?q6\<lparr>q_waiters := [], q_blocked := []\<rparr>)"
  note defs = q_submit_def q_wake_def q_take_def q_call_def q_finish_def q_admit_def sample_queue_def op_queue_new_def
  have 1: "q_reach ?run 1 (sample_queue 1) ?q1" by (rule reach_submit [OF reach_start sample_submit])
  have 2: "q_reach ?run 1 (sample_queue 1) ?q2" by (rule reach_submit [OF 1, of 1 8]) (simp add: defs)
  have 3: "q_reach ?run 1 (sample_queue 1) ?q3" by (rule reach_step [OF 2], rule step_take [of 0]) (simp add: defs)
  have 4: "q_reach ?run 1 (sample_queue 1) ?q4" by (rule reach_step [OF 3], rule step_call [of _ 0]) (simp add: defs)
  have 5: "q_reach ?run 1 (sample_queue 1) ?q5" by (rule reach_step [OF 4], rule step_finish [of 0]) (simp add: defs)
  have 6: "q_reach ?run 1 (sample_queue 1) ?q6" by (rule reach_submit [OF 5, of 2 9]) (simp add: defs)
  have 7: "q_reach ?run 1 (sample_queue 1) ?q7" by (rule reach_step [OF 6], rule step_wake [of 1]) (simp add: defs)
  show ?thesis by (rule exI [of _ ?q7], rule conjI [OF 7]) (simp add: defs)
qed

end
