(* ===== verification/LMDB.thy ===== *)
theory LMDB
  imports Backend
begin

text \<open>
  The backend of \<^verbatim>\<open>storage/lmdb/lmdb.cc\<close> and \<^verbatim>\<open>include/zlog/backend/lmdb.h\<close> on the key-value library LMDB. The
  calls of that library are the record \<open>mdb_api\<close>, a parameter of every operation, over an arbitrary type of
  databases. The structs are stored as their bytes in memory (little endian, bytes that C++ leaves indeterminate
  are zero); a value whose size is not the asserted one, an access past its end and an unexpected code of the
  library are \<open>Aborted\<close>.
\<close>

section \<open>The library\<close>

datatype 'a mdb_res =
    MDB_SUCCESS 'a
  | MDB_NOTFOUND
  | MDB_KEYEXIST
  | MDB_ERROR int

text \<open>A transaction is a database: writes inside it give a new one, which a commit installs and an abort forgets.
  \<open>mdb_cursor\<close> is the walk of a cursor with \<^verbatim>\<open>MDB_FIRST\<close> and then \<^verbatim>\<open>MDB_NEXT\<close> until there is no next key;
  \<open>mdb_env_open\<close> is the sequence of calls that creates and opens the environment at a path with a map size and
  opens the table.\<close>

record 'db mdb_api =
  mdb_env_open :: "string \<Rightarrow> nat \<Rightarrow> 'db mdb_res"
  mdb_txn_begin :: "bool \<Rightarrow> 'db \<Rightarrow> unit mdb_res"
  mdb_get :: "string \<Rightarrow> 'db \<Rightarrow> string mdb_res"
  mdb_put :: "string \<Rightarrow> string \<Rightarrow> bool \<Rightarrow> 'db \<Rightarrow> 'db mdb_res"
  mdb_del :: "string \<Rightarrow> 'db \<Rightarrow> 'db mdb_res"
  mdb_cursor :: "'db \<Rightarrow> string list mdb_res"
  mdb_txn_commit :: "'db \<Rightarrow> unit mdb_res"

section \<open>Stored structs\<close>

fun le_bytes :: "nat \<Rightarrow> nat \<Rightarrow> string" where
  "le_bytes 0 n = []"
| "le_bytes (Suc k) n = char_of (n mod 256) # le_bytes k (n div 256)"

fun le_nat :: "string \<Rightarrow> nat" where
  "le_nat [] = 0"
| "le_nat (c # cs) = of_char c + 256 * le_nat cs"

definition put_u64 :: "u64 \<Rightarrow> string" where
  "put_u64 w = le_bytes 8 (unat w)"

definition get_u64 :: "string \<Rightarrow> u64" where
  "get_u64 bs = of_nat (le_nat (take 8 bs))"

text \<open>\<^verbatim>\<open>strcpy\<close> into an array of 128 characters, and the construction of a string from one.\<close>

definition strcpy128 :: "string \<Rightarrow> string option" where
  "strcpy128 src =
     (if length (c_str src) < 128
      then Some (c_str src @ replicate (128 - length (c_str src)) (CHR 0x00)) else None)"

definition string_of_c :: "string \<Rightarrow> string option" where
  "string_of_c bs = (if CHR 0x00 \<in> set bs then Some (c_str bs) else None)"

record lm_proj =
  pj_epoch :: u64
  pj_unique_id :: u64
  pj_prefix :: string

definition put_proj :: "lm_proj \<Rightarrow> string" where
  "put_proj p = put_u64 (pj_epoch p) @ put_u64 (pj_unique_id p) @ pj_prefix p"

definition get_proj :: "string \<Rightarrow> lm_proj option" where
  "get_proj bs =
     (if length bs = 144
      then Some \<lparr>pj_epoch = get_u64 bs, pj_unique_id = get_u64 (drop 8 bs), pj_prefix = drop 16 bs\<rparr> else None)"

text \<open>The trim limit is an \<^verbatim>\<open>int64_t\<close>: the word read as a signed number.\<close>

record lm_log =
  ll_epoch :: u64
  ll_trim_limit :: u64

definition lm_log_new :: lm_log where
  "lm_log_new = \<lparr>ll_epoch = 0, ll_trim_limit = - 1\<rparr>"

definition put_log :: "lm_log \<Rightarrow> string" where
  "put_log l = put_u64 (ll_epoch l) @ put_u64 (ll_trim_limit l)"

definition get_log :: "string \<Rightarrow> lm_log option" where
  "get_log bs = (if length bs = 16 then Some \<lparr>ll_epoch = get_u64 bs, ll_trim_limit = get_u64 (drop 8 bs)\<rparr> else None)"

definition has_limit :: "lm_log \<Rightarrow> bool" where
  "has_limit l \<longleftrightarrow> 0 \<le> sint (ll_trim_limit l)"

definition get_maxpos :: "string \<Rightarrow> u64 option" where
  "get_maxpos bs = (if length bs = 8 then Some (get_u64 bs) else None)"

record lm_entry =
  en_trimmed :: bool
  en_invalidated :: bool
  en_position :: u64

definition lm_entry_new :: "u64 \<Rightarrow> lm_entry" where
  "lm_entry_new p = \<lparr>en_trimmed = False, en_invalidated = False, en_position = p\<rparr>"

definition put_entry :: "lm_entry \<Rightarrow> string" where
  "put_entry e = le_bytes 1 (of_bool (en_trimmed e)) @ le_bytes 1 (of_bool (en_invalidated e))
     @ replicate 6 (CHR 0x00) @ put_u64 (en_position e)"

definition get_entry :: "string \<Rightarrow> lm_entry option" where
  "get_entry bs =
     (if 16 \<le> length bs
      then Some \<lparr>en_trimmed = (bs ! 0 \<noteq> CHR 0x00), en_invalidated = (bs ! 1 \<noteq> CHR 0x00), en_position = get_u64 (drop 8 bs)\<rparr>
      else None)"

section \<open>Keys\<close>

definition LogEntryKey :: "string \<Rightarrow> u64 \<Rightarrow> string" where
  "LogEntryKey oid position = oid @ ''.entry.'' @ show_u64 position"

definition MaxPosKey :: "string \<Rightarrow> string" where
  "MaxPosKey oid = oid @ ''.maxpos''"

definition ProjectionKey :: "string \<Rightarrow> u64 \<Rightarrow> string" where
  "ProjectionKey oid epoch = oid @ ''.'' @ show_u64 epoch"

section \<open>Transactions\<close>

text \<open>How a call leaves its transaction: with \<^verbatim>\<open>Abort\<close> and a return value; with \<^verbatim>\<open>Commit\<close>, whose code is returned when it
  is not 0; or with a \<^verbatim>\<open>Commit\<close> whose code is dropped. A failed assertion ends the process with the transaction
  open, which the library treats as an abort.\<close>

datatype ('a, 'db) txn_end =
    TxAbort "'a ret"
  | TxCommit 'a 'db
  | TxCommitIgnored 'a 'db

record 'db lmdb =
  lm_db :: 'db
  lm_options :: "(string \<times> string) list"
  lm_need_close :: bool
  lm_uuids :: "nat \<Rightarrow> string"
  lm_next_uuid :: nat

definition run_txn :: "'db mdb_api \<Rightarrow> bool \<Rightarrow> ('db \<Rightarrow> ('a, 'db) txn_end) \<Rightarrow> 'db lmdb \<Rightarrow> 'a ret \<times> 'db lmdb" where
  "run_txn api read_only body s =
     (case mdb_txn_begin api read_only (lm_db s) of
        MDB_SUCCESS _ \<Rightarrow>
          (case body (lm_db s) of
             TxAbort r \<Rightarrow> (r, s)
           | TxCommit a db \<Rightarrow>
               (case mdb_txn_commit api db of MDB_SUCCESS _ \<Rightarrow> (Inr a, s\<lparr>lm_db := db\<rparr>) | _ \<Rightarrow> (Inl EMDB, s))
           | TxCommitIgnored a db \<Rightarrow>
               (case mdb_txn_commit api db of MDB_SUCCESS _ \<Rightarrow> (Inr a, s\<lparr>lm_db := db\<rparr>) | _ \<Rightarrow> (Inr a, s)))
      | _ \<Rightarrow> (Inl Aborted, s))"

definition txn_Get :: "'db mdb_api \<Rightarrow> string \<Rightarrow> 'db \<Rightarrow> string ret" where
  "txn_Get api key txn =
     (case mdb_get api key txn of
        MDB_SUCCESS v \<Rightarrow> Inr v
      | MDB_NOTFOUND \<Rightarrow> Inl ENOENT
      | _ \<Rightarrow> Inl Aborted)"

definition startsWith :: "string \<Rightarrow> string \<Rightarrow> bool" where
  "startsWith val prefix \<longleftrightarrow> length prefix \<le> length val
     \<and> c_str (take (length prefix) val) = c_str (take (length prefix) prefix)"

definition txn_GetAll :: "'db mdb_api \<Rightarrow> string \<Rightarrow> 'db \<Rightarrow> string list ret" where
  "txn_GetAll api prefix txn =
     (case mdb_cursor api txn of
        MDB_SUCCESS keys \<Rightarrow> Inr (filter (\<lambda>key. startsWith key prefix) keys)
      | MDB_NOTFOUND \<Rightarrow> Inr []
      | _ \<Rightarrow> Inl Aborted)"

definition txn_Put :: "'db mdb_api \<Rightarrow> string \<Rightarrow> string \<Rightarrow> bool \<Rightarrow> 'db \<Rightarrow> 'db ret" where
  "txn_Put api key val exclusive txn =
     (case mdb_put api key val exclusive txn of
        MDB_SUCCESS txn' \<Rightarrow> Inr txn'
      | MDB_KEYEXIST \<Rightarrow> Inl EEXIST
      | _ \<Rightarrow> Inl Aborted)"

definition txn_Delete :: "'db mdb_api \<Rightarrow> string \<Rightarrow> 'db \<Rightarrow> 'db ret" where
  "txn_Delete api key txn =
     (case mdb_del api key txn of
        MDB_SUCCESS txn' \<Rightarrow> Inr txn'
      | _ \<Rightarrow> Inl EMDB)"

text \<open>The steps of an operation inside its transaction: on an error the transaction is aborted and the error returned; a
  failed assertion or an access out of bounds is \<open>Aborted\<close>.\<close>

definition or_abort :: "'b ret \<Rightarrow> ('b \<Rightarrow> ('a, 'db) txn_end) \<Rightarrow> ('a, 'db) txn_end" where
  "or_abort r k = (case r of Inl e \<Rightarrow> TxAbort (Inl e) | Inr x \<Rightarrow> k x)"

definition asserted :: "'b option \<Rightarrow> ('b \<Rightarrow> ('a, 'db) txn_end) \<Rightarrow> ('a, 'db) txn_end" where
  "asserted x k = (case x of None \<Rightarrow> TxAbort (Inl Aborted) | Some y \<Rightarrow> k y)"

definition put_ignored ::
  "'db mdb_api \<Rightarrow> string \<Rightarrow> string \<Rightarrow> 'db \<Rightarrow> ('db \<Rightarrow> ('a, 'db) txn_end) \<Rightarrow> ('a, 'db) txn_end" where
  "put_ignored api key val txn k =
     (case txn_Put api key val False txn of
        Inr txn' \<Rightarrow> k txn'
      | Inl e \<Rightarrow> if e = EEXIST then k txn else TxAbort (Inl e))"

section \<open>Construction and the directory of logs\<close>

definition lmdb_new :: "'db \<Rightarrow> (nat \<Rightarrow> string) \<Rightarrow> 'db lmdb" where
  "lmdb_new db uuids = \<lparr>lm_db = db, lm_options = [(''scheme'', ''lmdb'')], lm_need_close = False,
     lm_uuids = uuids, lm_next_uuid = 0\<rparr>"

text \<open>\<open>gbs\<close> is the size the environment variable \<^verbatim>\<open>ZLOG_LMDB_BE_SIZE\<close> asks for, or 1.\<close>

definition lmdb_Init :: "'db mdb_api \<Rightarrow> nat \<Rightarrow> string \<Rightarrow> 'db lmdb \<Rightarrow> unit ret \<times> 'db lmdb" where
  "lmdb_Init api gbs path s =
     (let s1 = s\<lparr>lm_options := (''path'', path) # filter (\<lambda>e. fst e \<noteq> ''path'') (lm_options s), lm_need_close := True\<rparr>
      in case mdb_env_open api (c_str path) (gbs * 2 ^ 30 mod 2 ^ 64) of
           MDB_SUCCESS db \<Rightarrow> (Inr (), s1\<lparr>lm_db := db\<rparr>)
         | _ \<Rightarrow> (Inl Aborted, s1))"

definition lmdb_Initialize ::
  "'db mdb_api \<Rightarrow> nat \<Rightarrow> (string \<times> string) list \<Rightarrow> 'db lmdb \<Rightarrow> unit ret \<times> 'db lmdb" where
  "lmdb_Initialize api gbs opts s =
     (case map_of opts ''path'' of
        None \<Rightarrow> (Inl EINVAL, s)
      | Some path \<Rightarrow> lmdb_Init api gbs path s)"

definition lmdb_Close :: "'db lmdb \<Rightarrow> 'db lmdb" where
  "lmdb_Close s = s\<lparr>lm_need_close := False\<rparr>"

definition lmdb_destroy :: "'db lmdb \<Rightarrow> 'db lmdb" where
  "lmdb_destroy s = (if lm_need_close s then lmdb_Close s else s)"

definition lmdb_meta :: "'db lmdb \<Rightarrow> (string \<times> string) list" where
  "lmdb_meta s = lm_options s"

definition lmdb_uniqueId :: "'db mdb_api \<Rightarrow> string \<Rightarrow> 'db lmdb \<Rightarrow> u64 ret \<times> 'db lmdb" where
  "lmdb_uniqueId api hoid s =
     (if hoid = '''' then (Inl EINVAL, s)
      else run_txn api False (\<lambda>txn.
        or_abort (txn_Get api hoid txn) (\<lambda>val.
        asserted (get_proj val) (\<lambda>proj_obj.
          let uid = pj_unique_id proj_obj
          in or_abort (txn_Put api hoid (put_proj (proj_obj\<lparr>pj_unique_id := uid + 1\<rparr>)) False txn) (\<lambda>txn1.
             TxCommitIgnored uid txn1)))) s)"

definition lmdb_CreateLog :: "'db mdb_api \<Rightarrow> string \<Rightarrow> string \<Rightarrow> 'db lmdb \<Rightarrow> (string \<times> string) ret \<times> 'db lmdb" where
  "lmdb_CreateLog api name view s0 =
     (if name = '''' then (Inl EINVAL, s0)
      else
        let key = lm_uuids s0 (lm_next_uuid s0);
            s = s0\<lparr>lm_next_uuid := lm_next_uuid s0 + 1\<rparr>;
            hoid = ''zlog.head.'' @ key;
            prefix = ''zlog.data.'' @ key
        in run_txn api False (\<lambda>txn.
             asserted (strcpy128 prefix) (\<lambda>pf.
             case txn_Put api hoid (put_proj \<lparr>pj_epoch = 1, pj_unique_id = 0, pj_prefix = pf\<rparr>) True txn of
               Inl e \<Rightarrow> TxAbort (Inl (if e = EEXIST then EIO else e))
             | Inr txn1 \<Rightarrow>
                 or_abort (txn_Put api (ProjectionKey hoid 1) view True txn1) (\<lambda>txn2.
                 asserted (strcpy128 hoid) (\<lambda>link.
                 or_abort (txn_Put api (''head.'' @ name) link True txn2) (\<lambda>txn3.
                   TxCommit (hoid, prefix) txn3))))) s)"

definition lmdb_OpenLog :: "'db mdb_api \<Rightarrow> string \<Rightarrow> 'db lmdb \<Rightarrow> (string \<times> string) ret" where
  "lmdb_OpenLog api name s =
     (if name = '''' then Inl EINVAL
      else fst (run_txn api False (\<lambda>txn.
        or_abort (txn_Get api (''head.'' @ name) txn) (\<lambda>link.
        asserted (string_of_c link) (\<lambda>hoid.
        or_abort (txn_Get api hoid txn) (\<lambda>proj.
        asserted (string_of_c (drop 16 proj)) (\<lambda>prefix.
          TxCommit (hoid, prefix) txn))))) s))"

fun stat_loop :: "'db mdb_api \<Rightarrow> 'db \<Rightarrow> string list \<Rightarrow> nat \<Rightarrow> nat ret" where
  "stat_loop api txn [] acc = Inr acc"
| "stat_loop api txn (key # keys) acc =
     (case txn_Get api key txn of
        Inl e \<Rightarrow> Inl e
      | Inr val \<Rightarrow> stat_loop api txn keys (acc + length key + length val))"

definition lmdb_Stat :: "'db mdb_api \<Rightarrow> string \<Rightarrow> 'db lmdb \<Rightarrow> nat ret" where
  "lmdb_Stat api oid s =
     fst (run_txn api True (\<lambda>txn.
       or_abort (txn_GetAll api (oid @ ''.entry.'') txn) (\<lambda>keys.
       or_abort (stat_loop api txn keys 0) (\<lambda>bytes.
         TxCommit bytes txn))) s)"

definition lmdb_ListLinks :: "'db mdb_api \<Rightarrow> 'db lmdb \<Rightarrow> string list ret" where
  "lmdb_ListLinks api s =
     fst (run_txn api True (\<lambda>txn. or_abort (txn_GetAll api ''head.'' txn) (\<lambda>keys. TxCommit keys txn)) s)"

definition lmdb_ListHeads :: "'db mdb_api \<Rightarrow> 'db lmdb \<Rightarrow> string list ret" where
  "lmdb_ListHeads api s =
     fst (run_txn api True (\<lambda>txn. or_abort (txn_GetAll api ''zlog.head.'' txn) (\<lambda>keys.
       TxCommit (filter (\<lambda>key. CHR ''.'' \<notin> set (drop (length ''zlog.head.'') key)) keys) txn)) s)"

section \<open>Views\<close>

fun lmdb_view_loop ::
  "'db mdb_api \<Rightarrow> 'db \<Rightarrow> string \<Rightarrow> nat \<Rightarrow> u64 \<Rightarrow> (u64, string) smap \<Rightarrow> (u64, string) smap ret" where
  "lmdb_view_loop api txn hoid 0 epoch views = Inr views"
| "lmdb_view_loop api txn hoid (Suc n) epoch views =
     (case txn_Get api (ProjectionKey hoid epoch) txn of
        Inl e \<Rightarrow> if e = ENOENT then Inr views else Inl e
      | Inr val \<Rightarrow> lmdb_view_loop api txn hoid n (epoch + 1) (fst (smap_emplace epoch val views)))"

definition lmdb_ReadViews :: "'db mdb_api \<Rightarrow> string \<Rightarrow> u64 \<Rightarrow> u32 \<Rightarrow> 'db lmdb \<Rightarrow> (u64, string) smap ret" where
  "lmdb_ReadViews api hoid epoch max_views s =
     (if hoid = '''' then Inl EINVAL
      else fst (run_txn api True (\<lambda>txn.
        or_abort (txn_Get api hoid txn) (\<lambda>val.
        asserted (get_proj val) (\<lambda>proj_obj.
          if pj_epoch proj_obj < epoch then TxAbort (Inr [])
          else if epoch = 0 then
            if pj_epoch proj_obj = 0 then TxAbort (Inr [])
            else
              (case txn_Get api (ProjectionKey hoid (pj_epoch proj_obj)) txn of
                 Inl e \<Rightarrow> TxAbort (Inl (if e = ENOENT then EIO else e))
               | Inr v \<Rightarrow> TxAbort (Inr (fst (smap_emplace (pj_epoch proj_obj) v []))))
          else
            or_abort (lmdb_view_loop api txn hoid (unat max_views) epoch []) (\<lambda>views.
              TxCommit views txn)))) s))"

definition lmdb_ProposeView :: "'db mdb_api \<Rightarrow> string \<Rightarrow> u64 \<Rightarrow> string \<Rightarrow> 'db lmdb \<Rightarrow> unit ret \<times> 'db lmdb" where
  "lmdb_ProposeView api hoid epoch view s =
     (if hoid = '''' then (Inl EINVAL, s)
      else if epoch = 0 then (Inl EINVAL, s)
      else run_txn api False (\<lambda>txn.
        or_abort (txn_Get api hoid txn) (\<lambda>val.
        asserted (get_proj val) (\<lambda>proj_obj.
          let required_epoch = pj_epoch proj_obj + 1
          in if required_epoch < epoch then TxAbort (Inl EINVAL)
             else if epoch \<noteq> required_epoch then TxAbort (Inl ESPIPE)
             else
               or_abort (txn_Put api (ProjectionKey hoid epoch) view True txn) (\<lambda>txn1.
               or_abort (txn_Put api hoid (put_proj (proj_obj\<lparr>pj_epoch := epoch\<rparr>)) False txn1) (\<lambda>txn2.
                 TxCommitIgnored () txn2))))) s)"

section \<open>Log objects\<close>

definition lmdb_CheckEpoch :: "'db mdb_api \<Rightarrow> 'db \<Rightarrow> u64 \<Rightarrow> string \<Rightarrow> bool \<Rightarrow> unit ret" where
  "lmdb_CheckEpoch api txn epoch oid eq =
     (case txn_Get api oid txn of
        Inl e \<Rightarrow> Inl e
      | Inr val \<Rightarrow>
          (case get_log val of
             None \<Rightarrow> Inl Aborted
           | Some ob \<Rightarrow>
               if eq then (if epoch \<noteq> ll_epoch ob then Inl ESPIPE else Inr ())
               else if epoch < ll_epoch ob then Inl ESPIPE
               else Inr ()))"

text \<open>The current maximum position, 0 when none is stored: the same lines in \<^verbatim>\<open>Write\<close>, \<^verbatim>\<open>Trim\<close> and \<^verbatim>\<open>Fill\<close>.\<close>

definition stored_maxpos :: "'db mdb_api \<Rightarrow> string \<Rightarrow> 'db \<Rightarrow> u64 ret" where
  "stored_maxpos api oid txn =
     (case txn_Get api (MaxPosKey oid) txn of
        Inl e \<Rightarrow> if e = ENOENT then Inr 0 else Inl e
      | Inr val \<Rightarrow> (case get_maxpos val of None \<Rightarrow> Inl Aborted | Some p \<Rightarrow> Inr p))"

definition lmdb_Write ::
  "'db mdb_api \<Rightarrow> string \<Rightarrow> string \<Rightarrow> u64 \<Rightarrow> u64 \<Rightarrow> 'db lmdb \<Rightarrow> unit ret \<times> 'db lmdb" where
  "lmdb_Write api oid data epoch position s =
     (if oid = '''' then (Inl EINVAL, s)
      else if epoch = 0 then (Inl EINVAL, s)
      else run_txn api False (\<lambda>txn.
        or_abort (lmdb_CheckEpoch api txn epoch oid False) (\<lambda>_.
        or_abort (txn_Get api oid txn) (\<lambda>val.
        asserted (get_log val) (\<lambda>lobj.
          if has_limit lobj \<and> position \<le> ll_trim_limit lobj then TxAbort (Inl EROFS)
          else
            or_abort (stored_maxpos api oid txn) (\<lambda>pos.
            case txn_Put api (LogEntryKey oid position) (put_entry (lm_entry_new position) @ data) True txn of
              Inl e \<Rightarrow> TxAbort (Inl (if e = EEXIST then EROFS else e))
            | Inr txn1 \<Rightarrow>
                put_ignored api (MaxPosKey oid) (put_u64 (max pos position)) txn1 (\<lambda>txn2.
                  TxCommit () txn2)))))) s)"

definition lmdb_Read :: "'db mdb_api \<Rightarrow> string \<Rightarrow> u64 \<Rightarrow> u64 \<Rightarrow> 'db lmdb \<Rightarrow> string ret" where
  "lmdb_Read api oid epoch position s =
     (if oid = '''' then Inl EINVAL
      else if epoch = 0 then Inl EINVAL
      else fst (run_txn api True (\<lambda>txn.
        or_abort (lmdb_CheckEpoch api txn epoch oid False) (\<lambda>_.
        or_abort (txn_Get api oid txn) (\<lambda>val.
        asserted (get_log val) (\<lambda>lobj.
          if has_limit lobj \<and> position \<le> ll_trim_limit lobj then TxAbort (Inl ENODATA)
          else
            case txn_Get api (LogEntryKey oid position) txn of
              Inl e \<Rightarrow> TxAbort (Inl (if e = ENOENT then ERANGE else e))
            | Inr blob \<Rightarrow>
                asserted (get_entry blob) (\<lambda>entry.
                  if en_position entry \<noteq> position then TxAbort (Inl Aborted)
                  else if en_trimmed entry \<or> en_invalidated entry then TxAbort (Inl ENODATA)
                  else TxCommit (drop 16 blob) txn))))) s))"

text \<open>\<^verbatim>\<open>Trim\<close>: the loops over the keys of the entries, then the method.\<close>

fun check_entries :: "'db mdb_api \<Rightarrow> 'db \<Rightarrow> string list \<Rightarrow> unit ret" where
  "check_entries api txn [] = Inr ()"
| "check_entries api txn (key # keys) =
     (case txn_Get api key txn of
        Inl e \<Rightarrow> Inl e
      | Inr val \<Rightarrow> if 16 \<le> length val then check_entries api txn keys else Inl Aborted)"

fun delete_keys :: "'db mdb_api \<Rightarrow> string list \<Rightarrow> 'db \<Rightarrow> 'db ret" where
  "delete_keys api [] txn = Inr txn"
| "delete_keys api (key # keys) txn =
     (case txn_Delete api key txn of
        Inl e \<Rightarrow> Inl e
      | Inr txn1 \<Rightarrow> delete_keys api keys txn1)"

definition trim_entry :: "'db mdb_api \<Rightarrow> string \<Rightarrow> u64 \<Rightarrow> 'db \<Rightarrow> (unit, 'db) txn_end" where
  "trim_entry api oid position txn =
     or_abort
       (case txn_Get api (LogEntryKey oid position) txn of
          Inl e \<Rightarrow> if e = Aborted then Inl e else Inr (lm_entry_new position)
        | Inr val \<Rightarrow>
            (case get_entry val of
               None \<Rightarrow> Inl Aborted
             | Some entry \<Rightarrow> if en_position entry = position then Inr entry else Inl Aborted)) (\<lambda>entry.
     or_abort (stored_maxpos api oid txn) (\<lambda>pos.
     put_ignored api (MaxPosKey oid) (put_u64 (max pos position)) txn (\<lambda>txn1.
     or_abort (txn_Put api (LogEntryKey oid position) (put_entry (entry\<lparr>en_trimmed := True\<rparr>)) False txn1) (\<lambda>txn2.
       TxCommit () txn2))))"

definition lmdb_Trim ::
  "'db mdb_api \<Rightarrow> string \<Rightarrow> u64 \<Rightarrow> u64 \<Rightarrow> bool \<Rightarrow> bool \<Rightarrow> 'db lmdb \<Rightarrow> unit ret \<times> 'db lmdb" where
  "lmdb_Trim api oid epoch position trim_limit trim_full s =
     (if trim_full \<and> \<not> trim_limit then (Inl EINVAL, s)
      else if oid = '''' then (Inl EINVAL, s)
      else if epoch = 0 then (Inl EINVAL, s)
      else run_txn api False (\<lambda>txn.
        or_abort (lmdb_CheckEpoch api txn epoch oid False) (\<lambda>_.
        or_abort (txn_Get api oid txn) (\<lambda>val.
        asserted (get_log val) (\<lambda>lobj0.
          let lobj = (if trim_limit
                then lobj0\<lparr>ll_trim_limit := (if has_limit lobj0 then max position (ll_trim_limit lobj0) else position)\<rparr>
                else lobj0)
          in or_abort (txn_Put api oid (put_log lobj) False txn) (\<lambda>txn1.
             if trim_full then
               or_abort (txn_GetAll api (oid @ ''.entry.'') txn1) (\<lambda>keys.
               or_abort (check_entries api txn1 keys) (\<lambda>_.
               or_abort (delete_keys api keys txn1) (\<lambda>txn2.
                 TxCommit () txn2)))
             else if has_limit lobj \<and> position \<le> ll_trim_limit lobj then TxCommit () txn1
             else if trim_limit then TxAbort (Inl Aborted)
             else trim_entry api oid position txn1))))) s)"

definition lmdb_Fill :: "'db mdb_api \<Rightarrow> string \<Rightarrow> u64 \<Rightarrow> u64 \<Rightarrow> 'db lmdb \<Rightarrow> unit ret \<times> 'db lmdb" where
  "lmdb_Fill api oid epoch position s =
     (if oid = '''' then (Inl EINVAL, s)
      else if epoch = 0 then (Inl EINVAL, s)
      else run_txn api False (\<lambda>txn.
        or_abort (lmdb_CheckEpoch api txn epoch oid False) (\<lambda>_.
        or_abort (txn_Get api oid txn) (\<lambda>val.
        asserted (get_log val) (\<lambda>lobj.
          if has_limit lobj \<and> position \<le> ll_trim_limit lobj then TxAbort (Inr ())
          else
            case txn_Get api (LogEntryKey oid position) txn of
              Inr v \<Rightarrow>
                asserted (get_entry v) (\<lambda>entry.
                  if en_position entry \<noteq> position then TxAbort (Inl Aborted)
                  else if en_trimmed entry \<or> en_invalidated entry then TxAbort (Inr ())
                  else TxAbort (Inl EROFS))
            | Inl e \<Rightarrow>
                if e = Aborted then TxAbort (Inl e)
                else
                  or_abort (stored_maxpos api oid txn) (\<lambda>pos.
                  put_ignored api (MaxPosKey oid) (put_u64 (max pos position)) txn (\<lambda>txn1.
                  or_abort (txn_Put api (LogEntryKey oid position)
                      (put_entry (lm_entry_new position\<lparr>en_trimmed := True, en_invalidated := True\<rparr>)) False txn1) (\<lambda>txn2.
                    TxCommit () txn2))))))) s)"

definition lmdb_MaxPos :: "'db mdb_api \<Rightarrow> string \<Rightarrow> 'db lmdb \<Rightarrow> u64 option ret" where
  "lmdb_MaxPos api oid s =
     (if oid = '''' then Inl EINVAL
      else fst (run_txn api True (\<lambda>txn.
        or_abort (txn_Get api oid txn) (\<lambda>val.
        asserted (get_log val) (\<lambda>lobj.
          case txn_Get api (MaxPosKey oid) txn of
            Inl e \<Rightarrow>
              if e = ENOENT
              then TxCommitIgnored (if has_limit lobj then Some (ll_trim_limit lobj) else None) txn
              else TxAbort (Inl e)
          | Inr v \<Rightarrow>
              asserted (get_maxpos v) (\<lambda>maxpos.
                TxCommitIgnored (Some (if has_limit lobj then max maxpos (ll_trim_limit lobj) else maxpos)) txn)))) s))"

definition lmdb_Seal :: "'db mdb_api \<Rightarrow> string \<Rightarrow> u64 \<Rightarrow> 'db lmdb \<Rightarrow> unit ret \<times> 'db lmdb" where
  "lmdb_Seal api oid epoch s =
     (if oid = '''' then (Inl EINVAL, s)
      else if epoch = 0 then (Inl EINVAL, s)
      else run_txn api False (\<lambda>txn.
        case txn_Get api oid txn of
          Inl e \<Rightarrow>
            if e = ENOENT
            then put_ignored api oid (put_log (lm_log_new\<lparr>ll_epoch := epoch\<rparr>)) txn (\<lambda>txn1. TxCommit () txn1)
            else TxAbort (Inl Aborted)
        | Inr val \<Rightarrow>
            asserted (get_log val) (\<lambda>ob.
              if epoch \<le> ll_epoch ob then TxAbort (Inl ESPIPE)
              else put_ignored api oid (put_log (ob\<lparr>ll_epoch := epoch\<rparr>)) txn (\<lambda>txn1. TxCommit () txn1))) s)"

definition lmdb_ops :: "'db mdb_api \<Rightarrow> 'db lmdb backend_ops" where
  "lmdb_ops api = \<lparr>b_CreateLog = lmdb_CreateLog api, b_OpenLog = lmdb_OpenLog api, b_ReadViews = lmdb_ReadViews api,
     b_ProposeView = lmdb_ProposeView api, b_uniqueId = lmdb_uniqueId api, b_Read = lmdb_Read api,
     b_Write = lmdb_Write api, b_Fill = lmdb_Fill api, b_Trim = lmdb_Trim api, b_Seal = lmdb_Seal api,
     b_MaxPos = lmdb_MaxPos api, b_Stat = lmdb_Stat api\<rparr>"

end
