(* ===== verification/LMDB_Store.thy ===== *)
theory LMDB_Store
  imports LMDB
begin

text \<open>
  The LMDB backend implements the storage contract: the structs survive being stored, the keys of different
  things are different, and every operation, on a library that behaves as documented (locale \<open>mdb_store\<close>), does what
  the interface documents.
\<close>

section \<open>Structs survive being stored\<close>

lemma length_le_bytes [simp]: "length (le_bytes k n) = k"
  by (induction k arbitrary: n) simp_all

lemma le_nat_bytes: "le_nat (le_bytes k n) = n mod 256 ^ k"
proof (induction k arbitrary: n)
  case (Suc k)
  have "n mod (256 * 256 ^ k) = 256 * (n div 256 mod 256 ^ k) + n mod 256" by (rule mod_mult2_eq)
  then show ?case using Suc [of "n div 256"] by simp
qed simp

lemma length_put_u64 [simp]: "length (put_u64 w) = 8"
  by (simp add: put_u64_def)

lemma get_put_u64 [simp]: "get_u64 (put_u64 w @ bs) = w" "get_u64 (put_u64 w) = w"
proof -
  have "unat w mod 256 ^ 8 = unat w" by (rule mod_less) (use unat_u64_bound [of w] in simp)
  then show "get_u64 (put_u64 w @ bs) = w" "get_u64 (put_u64 w) = w"
    by (simp_all add: get_u64_def put_u64_def le_nat_bytes)
qed

lemma get_put_proj [simp]: "length (pj_prefix p) = 128 \<Longrightarrow> get_proj (put_proj p) = Some p"
  by (simp add: get_proj_def put_proj_def)

lemma drop_put_proj [simp]: "drop 16 (put_proj p) = pj_prefix p"
  by (simp add: put_proj_def)

lemma get_proj_SomeD: "get_proj bs = Some p \<Longrightarrow> pj_prefix p = drop 16 bs \<and> length (pj_prefix p) = 128"
  by (auto simp: get_proj_def split: if_splits)

lemma get_put_log [simp]: "get_log (put_log l) = Some l"
  by (simp add: get_log_def put_log_def)

lemma get_put_maxpos [simp]: "get_maxpos (put_u64 p) = Some p"
  by (simp add: get_maxpos_def)

lemma length_put_entry [simp]: "length (put_entry e) = 16"
  by (simp add: put_entry_def)

lemma put_entry_bytes:
  "put_entry e @ d = char_of (of_bool (en_trimmed e) :: nat) # char_of (of_bool (en_invalidated e) :: nat)
     # replicate 6 (CHR 0x00) @ put_u64 (en_position e) @ d"
  by (simp add: put_entry_def of_bool_def)

lemma char_of_bool: "char_of (of_bool b :: nat) \<noteq> CHR 0x00 \<longleftrightarrow> b"
  by (cases b) (simp_all add: char_of_eq_iff)

lemma get_put_entry [simp]: "get_entry (put_entry e @ d) = Some e" "get_entry (put_entry e) = Some e"
proof -
  have "drop 8 (put_entry e @ d) = put_u64 (en_position e) @ d" for d
    unfolding put_entry_bytes by (simp add: drop_Cons')
  then have "get_entry (put_entry e @ d) = Some e" for d
    by (simp add: get_entry_def) (simp add: put_entry_bytes char_of_bool)
  from this [of d] this [of "[]"] show "get_entry (put_entry e @ d) = Some e" "get_entry (put_entry e) = Some e"
    by simp_all
qed

lemma drop_put_entry [simp]: "drop 16 (put_entry e @ d) = d"
  by simp

lemma strcpy128_string:
  assumes "CHR 0x00 \<notin> set x" and "length x < 128"
  obtains a where "strcpy128 x = Some a" and "length a = 128" and "string_of_c a = Some x"
proof
  let ?a = "x @ replicate (128 - length x) (CHR 0x00)"
  obtain m where m: "128 - length x = Suc m" using assms(2) by (metis Suc_diff_Suc)
  show "strcpy128 x = Some ?a" using assms by (simp add: strcpy128_def c_str_id)
  show "length ?a = 128" using assms(2) by simp
  show "string_of_c ?a = Some x" using assms(1) by (simp add: string_of_c_def m c_str_append_NUL)
qed

section \<open>Keys\<close>

text \<open>The components of a name between the dots.\<close>

fun split_dots :: "string \<Rightarrow> string list" where
  "split_dots [] = [[]]"
| "split_dots (c # cs) =
     (if c = CHR ''.'' then [] # split_dots cs else (c # hd (split_dots cs)) # tl (split_dots cs))"

lemma split_dots_nonempty [simp]: "split_dots s \<noteq> []" "[] \<noteq> split_dots s"
  by (cases s; simp)+

lemma split_dots_append [simp]: "split_dots (a @ CHR ''.'' # b) = split_dots a @ split_dots b"
  by (induction a) (simp_all add: hd_append tl_append split: list.split)

lemma split_dots_plain [simp]: "CHR ''.'' \<notin> set s \<Longrightarrow> split_dots s = [s]"
  by (induction s) auto

lemma split_dots_inject: "split_dots a = split_dots b \<Longrightarrow> a = b"
proof (induction a arbitrary: b)
  case Nil
  then show ?case by (cases b) (auto split: if_splits)
next
  case (Cons x a)
  then obtain y b' where b: "b = y # b'" by (cases b) (auto split: if_splits)
  have "split_dots a = split_dots b' \<and> x = y"
    using Cons.prems b by (auto split: if_splits intro: list.expand)
  then show ?case using Cons.IH b by blast
qed

lemma split_dots_eq [simp]: "split_dots a = split_dots b \<longleftrightarrow> a = b"
  using split_dots_inject by blast

lemma split_dots_length: "(\<Sum>x\<leftarrow>split_dots s. Suc (length x)) = Suc (length s)"
proof (induction s)
  case (Cons c s)
  obtain x xs where "split_dots s = x # xs" by (cases "split_dots s") simp_all
  then show ?case using Cons by simp
qed simp

text \<open>A UUID as text has 36 characters.\<close>

definition uuid_ok :: "string \<Rightarrow> bool" where
  "uuid_ok u \<longleftrightarrow> length u = 36 \<and> CHR ''.'' \<notin> set u \<and> CHR 0x00 \<notin> set u"

definition lm_is_head :: "string \<Rightarrow> bool" where
  "lm_is_head hoid \<longleftrightarrow> take 10 hoid = ''zlog.head.'' \<and> uuid_ok (drop 10 hoid)"

definition lm_is_data :: "string \<Rightarrow> bool" where
  "lm_is_data oid \<longleftrightarrow> CHR 0x00 \<notin> set oid \<and>
     (case split_dots oid of
        [a, b, u, i, j] \<Rightarrow> a = ''zlog'' \<and> b = ''data'' \<and> uuid_ok u \<and> length i \<le> 20 \<and> length j \<le> 10
      | _ \<Rightarrow> False)"

definition lm_name_ok :: "string \<Rightarrow> bool" where
  "lm_name_ok name \<longleftrightarrow> length name \<le> 506"

definition lm_lim_ok :: "u64 \<Rightarrow> bool" where
  "lm_lim_ok p \<longleftrightarrow> 0 \<le> sint p"

datatype lm_key =
    KLink string
  | KHead string
  | KView string u64
  | KLog string
  | KMax string
  | KEntry string u64

fun key_bytes :: "lm_key \<Rightarrow> string" where
  "key_bytes (KLink name) = ''head.'' @ name"
| "key_bytes (KHead hoid) = hoid"
| "key_bytes (KView hoid e) = ProjectionKey hoid e"
| "key_bytes (KLog oid) = oid"
| "key_bytes (KMax oid) = MaxPosKey oid"
| "key_bytes (KEntry oid p) = LogEntryKey oid p"

fun key_valid :: "lm_key \<Rightarrow> bool" where
  "key_valid (KLink name) = lm_name_ok name"
| "key_valid (KHead hoid) = lm_is_head hoid"
| "key_valid (KView hoid e) = lm_is_head hoid"
| "key_valid (KLog oid) = lm_is_data oid"
| "key_valid (KMax oid) = lm_is_data oid"
| "key_valid (KEntry oid p) = lm_is_data oid"

lemma split_head: "split_dots (''zlog.head.'' @ u) = [''zlog'', ''head''] @ split_dots u"
proof -
  have "''zlog.head.'' @ u = ''zlog'' @ CHR ''.'' # (''head'' @ CHR ''.'' # u)" by simp
  then have "split_dots (''zlog.head.'' @ u) = split_dots ''zlog'' @ split_dots ''head'' @ split_dots u"
    by (simp only: split_dots_append)
  then show ?thesis by simp
qed

lemma head_split:
  assumes "lm_is_head hoid"
  obtains u where "hoid = ''zlog.head.'' @ u" and "uuid_ok u" and "split_dots hoid = [''zlog'', ''head'', u]"
proof
  let ?u = "drop 10 hoid"
  show h: "hoid = ''zlog.head.'' @ ?u" using assms append_take_drop_id [of 10 hoid] by (simp add: lm_is_head_def)
  show u: "uuid_ok ?u" using assms by (simp add: lm_is_head_def)
  have "split_dots hoid = [''zlog'', ''head''] @ split_dots ?u" by (subst h) (rule split_head)
  then show "split_dots hoid = [''zlog'', ''head'', ?u]" using u by (simp add: uuid_ok_def)
qed

lemma data_split:
  assumes "lm_is_data oid"
  obtains u i j where "split_dots oid = [''zlog'', ''data'', u, i, j]" and "uuid_ok u" and "length i \<le> 20" and "length j \<le> 10"
  using assms by (auto simp: lm_is_data_def split: list.splits)

lemma split_link: "split_dots (''head.'' @ name) = ''head'' # split_dots name"
proof -
  have "''head.'' @ name = ''head'' @ CHR ''.'' # name" by simp
  then have "split_dots (''head.'' @ name) = split_dots ''head'' @ split_dots name" by (simp only: split_dots_append)
  then show ?thesis by simp
qed

lemma split_view: "split_dots (ProjectionKey hoid e) = split_dots hoid @ [show_u64 e]"
  by (simp add: ProjectionKey_def)

lemma split_max: "split_dots (MaxPosKey oid) = split_dots oid @ [''maxpos'']"
proof -
  have "MaxPosKey oid = oid @ CHR ''.'' # ''maxpos''" by (simp add: MaxPosKey_def)
  then have "split_dots (MaxPosKey oid) = split_dots oid @ split_dots ''maxpos''" by (simp only: split_dots_append)
  then show ?thesis by simp
qed

lemma split_entries: "split_dots (oid @ ''.entry.'' @ x) = split_dots oid @ ''entry'' # split_dots x"
proof -
  have "oid @ ''.entry.'' @ x = oid @ CHR ''.'' # (''entry'' @ CHR ''.'' # x)" by simp
  then have "split_dots (oid @ ''.entry.'' @ x) = split_dots oid @ split_dots ''entry'' @ split_dots x"
    by (simp only: split_dots_append)
  then show ?thesis by simp
qed

lemma split_entry: "split_dots (LogEntryKey oid p) = split_dots oid @ [''entry'', show_u64 p]"
  by (simp add: LogEntryKey_def split_entries)

lemmas key_splits = split_link split_view split_max split_entry

text \<open>What the components of a key say about what it names.\<close>

fun key_shape :: "lm_key \<Rightarrow> string list" where
  "key_shape (KLink name) = ''head'' # split_dots name"
| "key_shape (KHead hoid) = split_dots hoid"
| "key_shape (KView hoid e) = split_dots hoid @ [show_u64 e]"
| "key_shape (KLog oid) = split_dots oid"
| "key_shape (KMax oid) = split_dots oid @ [''maxpos'']"
| "key_shape (KEntry oid p) = split_dots oid @ [''entry'', show_u64 p]"

lemma split_key: "split_dots (key_bytes k) = key_shape k"
  by (cases k) (simp_all only: key_bytes.simps key_shape.simps key_splits)

fun key_tag :: "lm_key \<Rightarrow> nat" where
  "key_tag (KLink name) = 0"
| "key_tag (KHead hoid) = 3"
| "key_tag (KView hoid e) = 4"
| "key_tag (KLog oid) = 5"
| "key_tag (KMax oid) = 6"
| "key_tag (KEntry oid p) = 7"

lemma key_tag_shape:
  "key_valid k \<Longrightarrow> key_tag k = (if hd (key_shape k) = ''head'' then 0 else length (key_shape k))"
  by (cases k; simp only: key_valid.simps key_shape.simps key_tag.simps; (erule head_split data_split)?; simp)

lemma key_shape_inject:
  assumes "key_valid a" and "key_valid b" and "key_shape a = key_shape b"
  shows "a = b"
proof -
  have "key_tag a = key_tag b" using assms by (simp add: key_tag_shape)
  then show ?thesis using assms(3) by (cases a; cases b) simp_all
qed

lemma key_inject: "key_valid a \<Longrightarrow> key_valid b \<Longrightarrow> key_bytes a = key_bytes b \<Longrightarrow> a = b"
  by (rule key_shape_inject) (simp_all add: split_key [symmetric])

text \<open>Keys are never empty and stay below the limit of the library.\<close>

definition key_ok :: "string \<Rightarrow> bool" where
  "key_ok k \<longleftrightarrow> k \<noteq> [] \<and> length k \<le> 511"

lemma length_show_nat: "n < 10 ^ Suc k \<Longrightarrow> length (show_nat n) \<le> Suc k"
proof (induction k arbitrary: n)
  case (Suc k)
  then have "n div 10 < 10 ^ Suc k" by (simp add: less_mult_imp_div_less)
  then show ?case using Suc.IH [of "n div 10"] by (subst show_nat.simps) simp
qed (subst show_nat.simps, simp)

lemma length_show_u64: "length (show_u64 w) \<le> 20"
proof -
  have "unat w < 10 ^ Suc 19" by (rule less_trans [OF unat_u64_bound]) simp
  then show ?thesis using length_show_nat [of "unat w" 19] by (simp add: show_u64_def)
qed

lemma key_bytes_ok:
  assumes "key_valid k"
  shows "key_ok (key_bytes k)"
proof -
  have head: "length hoid = 46" if "lm_is_head hoid" for hoid
    using that by (elim head_split) (simp add: uuid_ok_def)
  have data: "0 < length oid \<and> length oid \<le> 78" if "lm_is_data oid" for oid
    using that split_dots_length [of oid] by (elim data_split) (auto simp: uuid_ok_def)
  show ?thesis
  proof (cases k)
    case (KView hoid e)
    then show ?thesis
      using assms head [of hoid] length_show_u64 [of e] by (auto simp: key_ok_def ProjectionKey_def)
  next
    case (KEntry oid p)
    then show ?thesis
      using assms data [of oid] length_show_u64 [of p] by (auto simp: key_ok_def LogEntryKey_def)
  qed (use assms head data in \<open>fastforce simp: key_ok_def lm_name_ok_def MaxPosKey_def\<close>)+
qed

text \<open>Only the keys of an object's entries start with the prefix its full trim asks for.\<close>

lemma startsWith_iff: "CHR 0x00 \<notin> set prefix \<Longrightarrow> startsWith val prefix \<longleftrightarrow> (\<exists>x. val = prefix @ x)"
proof
  assume n: "CHR 0x00 \<notin> set prefix"
  show "\<exists>x. val = prefix @ x" if "startsWith val prefix"
  proof -
    let ?v = "take (length prefix) val"
    have *: "length ?v = length prefix" "c_str ?v = prefix"
      using that n by (simp_all add: startsWith_def c_str_id)
    then have "length (c_str ?v) = length ?v" by simp
    then have "c_str ?v = ?v" unfolding c_str_def by (metis takeWhile_eq_all_conv takeWhile_eq_take take_all order_refl)
    then show ?thesis using * by (metis append_take_drop_id)
  qed
  show "startsWith val prefix" if "\<exists>x. val = prefix @ x"
    using that n by (auto simp: startsWith_def c_str_id)
qed

lemma entry_prefix:
  assumes "lm_is_data oid" and "key_valid k"
  shows "startsWith (key_bytes k) (oid @ ''.entry.'') \<longleftrightarrow> (\<exists>p. k = KEntry oid p)"
proof -
  have n: "CHR 0x00 \<notin> set (oid @ ''.entry.'')" using assms(1) by (simp add: lm_is_data_def)
  show ?thesis
  proof
    assume "startsWith (key_bytes k) (oid @ ''.entry.'')"
    then obtain x where "key_bytes k = oid @ ''.entry.'' @ x" using startsWith_iff [OF n] by auto
    then have sh: "key_shape k = split_dots oid @ ''entry'' # split_dots x"
      by (metis split_key split_entries)
    then have "6 < length (key_shape k)" "hd (key_shape k) = ''zlog''"
      using assms(1) by (auto elim!: data_split simp: Suc_le_eq)
    then have "6 < key_tag k" using key_tag_shape [OF assms(2)] by simp
    then obtain oid' p where k: "k = KEntry oid' p" by (cases k) simp_all
    then have "length (split_dots oid') = length (split_dots oid)"
      using assms by (auto elim!: data_split)
    then have "oid' = oid" using sh k by simp
    then show "\<exists>p. k = KEntry oid p" using k by simp
  next
    assume "\<exists>p. k = KEntry oid p"
    then show "startsWith (key_bytes k) (oid @ ''.entry.'')"
      using startsWith_iff [OF n] by (auto simp: LogEntryKey_def)
  qed
qed

section \<open>What a database says\<close>

text \<open>A database as a map from the keys the backend uses; the object, the views and the log directory it stands for;
  and the invariant of a database the backend has written.\<close>

definition lm_limit :: "lm_log \<Rightarrow> u64 option" where
  "lm_limit l = (if has_limit l then Some (ll_trim_limit l) else None)"

definition lm_entry_abs :: "string \<Rightarrow> entry option" where
  "lm_entry_abs b =
     map_option (\<lambda>e. if en_trimmed e \<or> en_invalidated e then Junk else Data (drop 16 b)) (get_entry b)"

definition lm_entries :: "(lm_key \<rightharpoonup> string) \<Rightarrow> string \<Rightarrow> u64 \<rightharpoonup> entry" where
  "lm_entries m oid p = Option.bind (m (KEntry oid p)) lm_entry_abs"

definition lm_aobj :: "(lm_key \<rightharpoonup> string) \<Rightarrow> string \<Rightarrow> aobj option" where
  "lm_aobj m oid = Option.bind (m (KLog oid)) (\<lambda>v. map_option (\<lambda>l.
     \<lparr>ao_epoch = ll_epoch l, ao_limit = lm_limit l, ao_entries = lm_entries m oid\<rparr>) (get_log v))"

definition lm_head_views :: "(lm_key \<rightharpoonup> string) \<Rightarrow> string \<Rightarrow> string list option" where
  "lm_head_views m hoid = Option.bind (m (KHead hoid)) (\<lambda>v. map_option (\<lambda>pj.
     map (\<lambda>i. the (m (KView hoid (of_nat (Suc i))))) [0..<unat (pj_epoch pj)]) (get_proj v))"

definition lm_links :: "(lm_key \<rightharpoonup> string) \<Rightarrow> string \<Rightarrow> (string \<times> string) option" where
  "lm_links m name = Option.bind (m (KLink name)) (\<lambda>v. Option.bind (string_of_c v) (\<lambda>h.
     Option.bind (m (KHead h)) (\<lambda>p. map_option (Pair h) (string_of_c (drop 16 p)))))"

definition lm_data_wf :: "(lm_key \<rightharpoonup> string) \<Rightarrow> string \<Rightarrow> bool" where
  "lm_data_wf m oid \<longleftrightarrow> (case m (KLog oid) of
     None \<Rightarrow> m (KMax oid) = None \<and> (\<forall>p. m (KEntry oid p) = None)
   | Some v \<Rightarrow> (\<exists>l. get_log v = Some l
       \<and> (\<forall>p b. m (KEntry oid p) = Some b \<longrightarrow> (\<exists>e. get_entry b = Some e \<and> en_position e = p)
            \<and> (\<exists>x M. m (KMax oid) = Some x \<and> get_maxpos x = Some M \<and> p \<le> M))
       \<and> (\<forall>x. m (KMax oid) = Some x \<longrightarrow> get_maxpos x \<noteq> None
            \<and> (has_limit l \<or> (\<exists>p. m (KEntry oid p) \<noteq> None)))))"

definition lm_head_wf :: "(lm_key \<rightharpoonup> string) \<Rightarrow> string \<Rightarrow> bool" where
  "lm_head_wf m hoid \<longleftrightarrow> (case m (KHead hoid) of
     None \<Rightarrow> \<forall>e. m (KView hoid e) = None
   | Some v \<Rightarrow> (\<exists>pj. get_proj v = Some pj \<and> 0 < pj_epoch pj \<and> string_of_c (pj_prefix pj) = Some (''zlog.data.'' @ drop 10 hoid)
       \<and> (\<forall>e. m (KView hoid e) \<noteq> None \<longleftrightarrow> 0 < e \<and> e \<le> pj_epoch pj)))"

definition lm_link_wf :: "(lm_key \<rightharpoonup> string) \<Rightarrow> string \<Rightarrow> bool" where
  "lm_link_wf m name \<longleftrightarrow> (\<forall>v. m (KLink name) = Some v \<longrightarrow> (\<exists>h. string_of_c v = Some h \<and> m (KHead h) \<noteq> None))"

definition lm_map_wf :: "(lm_key \<rightharpoonup> string) \<Rightarrow> bool" where
  "lm_map_wf m \<longleftrightarrow> (\<forall>oid. lm_data_wf m oid) \<and> (\<forall>hoid. lm_head_wf m hoid) \<and> (\<forall>name. lm_link_wf m name)"

text \<open>Writing to the keys of one data object leaves everything else alone.\<close>

fun data_key :: "string \<Rightarrow> lm_key \<Rightarrow> bool" where
  "data_key oid (KLog o') \<longleftrightarrow> o' = oid"
| "data_key oid (KMax o') \<longleftrightarrow> o' = oid"
| "data_key oid (KEntry o' p) \<longleftrightarrow> o' = oid"
| "data_key oid _ \<longleftrightarrow> False"

lemma data_frame:
  assumes "\<And>k. \<not> data_key oid k \<Longrightarrow> m' k = m k"
  shows "lm_head_views m' = lm_head_views m" and "lm_links m' = lm_links m"
    and "lm_aobj m' = (lm_aobj m)(oid := lm_aobj m' oid)"
    and "lm_map_wf m \<Longrightarrow> lm_data_wf m' oid \<Longrightarrow> lm_map_wf m'"
proof -
  have eq: "m' (KHead h) = m (KHead h)" "m' (KView h e) = m (KView h e)" "m' (KLink l) = m (KLink l)" for h e l
    by (simp_all add: assms)
  have other: "m' (KLog o') = m (KLog o')" "m' (KMax o') = m (KMax o')" "m' (KEntry o' p) = m (KEntry o' p)"
    if "o' \<noteq> oid" for o' p
    using that by (simp_all add: assms)
  show "lm_head_views m' = lm_head_views m" "lm_links m' = lm_links m"
    by (simp_all add: fun_eq_iff lm_head_views_def lm_links_def eq)
  show "lm_aobj m' = (lm_aobj m)(oid := lm_aobj m' oid)"
  proof
    show "lm_aobj m' x = ((lm_aobj m)(oid := lm_aobj m' oid)) x" for x
      using other [of x] by (cases "x = oid") (simp_all add: lm_aobj_def lm_entries_def [abs_def])
  qed
  assume wf: "lm_map_wf m" "lm_data_wf m' oid"
  have "lm_data_wf m' x" for x
  proof (cases "x = oid")
    case False
    have "lm_data_wf m' x = lm_data_wf m x" unfolding lm_data_wf_def using other [OF False] by (simp cong: option.case_cong)
    then show ?thesis using wf(1) by (simp add: lm_map_wf_def)
  qed (simp add: wf(2))
  then show "lm_map_wf m'"
    using wf(1) by (simp add: lm_map_wf_def lm_head_wf_def lm_link_wf_def eq cong: option.case_cong)
qed

text \<open>The map a database stands for, and the invariant of the backend: the generator gives UUIDs, and the database holds
  only keys of the backend.\<close>

definition lm_kv :: "('db \<Rightarrow> string \<rightharpoonup> string) \<Rightarrow> 'db \<Rightarrow> lm_key \<rightharpoonup> string" where
  "lm_kv content db k = (if key_valid k then content db (key_bytes k) else None)"

definition named_only :: "(string \<rightharpoonup> string) \<Rightarrow> bool" where
  "named_only c \<longleftrightarrow> (\<forall>k\<in>dom c. \<exists>x. key_valid x \<and> k = key_bytes x)"

definition lm_inv :: "('db \<Rightarrow> string \<rightharpoonup> string) \<Rightarrow> 'db lmdb \<Rightarrow> bool" where
  "lm_inv content s \<longleftrightarrow> (\<forall>i. uuid_ok (lm_uuids s i)) \<and> named_only (content (lm_db s))
     \<and> lm_map_wf (lm_kv content (lm_db s))"

definition lm_obj :: "('db \<Rightarrow> string \<rightharpoonup> string) \<Rightarrow> 'db lmdb \<Rightarrow> string \<Rightarrow> aobj option" where
  "lm_obj content s = lm_aobj (lm_kv content (lm_db s))"

definition lm_views :: "('db \<Rightarrow> string \<rightharpoonup> string) \<Rightarrow> 'db lmdb \<Rightarrow> string \<Rightarrow> string list option" where
  "lm_views content s = lm_head_views (lm_kv content (lm_db s))"

definition lm_logs :: "('db \<Rightarrow> string \<rightharpoonup> string) \<Rightarrow> 'db lmdb \<Rightarrow> string \<Rightarrow> (string \<times> string) option" where
  "lm_logs content s = lm_links (lm_kv content (lm_db s))"

section \<open>The library behaves as documented\<close>

text \<open>The hypotheses: transactions begin and commit; a key of legal size can be looked up and stored, a store that must not
  overwrite being refused when the key is there; a key that is there can be deleted; a cursor visits every key once. That
  a store succeeds says that the map is large enough for what is stored.\<close>

locale mdb_store =
  fixes api :: "'db mdb_api"
    and content :: "'db \<Rightarrow> string \<rightharpoonup> string"
    and upd :: "string \<Rightarrow> string option \<Rightarrow> 'db \<Rightarrow> 'db"
  assumes txn_begin: "mdb_txn_begin api ro db = MDB_SUCCESS ()"
    and txn_commit: "mdb_txn_commit api db = MDB_SUCCESS ()"
    and get_law: "key_ok k \<Longrightarrow>
      mdb_get api k db = (case content db k of None \<Rightarrow> MDB_NOTFOUND | Some v \<Rightarrow> MDB_SUCCESS v)"
    and put_law: "key_ok k \<Longrightarrow> mdb_put api k v excl db =
      (if excl \<and> content db k \<noteq> None then MDB_KEYEXIST else MDB_SUCCESS (upd k (Some v) db))"
    and del_law: "content db k \<noteq> None \<Longrightarrow> mdb_del api k db = MDB_SUCCESS (upd k None db)"
    and cursor_law: "if content db = Map.empty then mdb_cursor api db = MDB_NOTFOUND
      else (\<exists>ks. mdb_cursor api db = MDB_SUCCESS ks \<and> distinct ks \<and> set ks = dom (content db))"
    and content_upd: "content (upd k x db) = (content db)(k := x)"
begin

abbreviation kv :: "'db \<Rightarrow> lm_key \<rightharpoonup> string" where
  "kv \<equiv> lm_kv content"

abbreviation inv :: "'db lmdb \<Rightarrow> bool" where
  "inv \<equiv> lm_inv content"

lemma kv_upd [simp]: "key_valid k \<Longrightarrow> kv (upd (key_bytes k) x db) = (kv db)(k := x)"
  by (auto simp: lm_kv_def content_upd fun_eq_iff dest: key_inject)

lemma named_upd [simp]: "key_valid k \<Longrightarrow> named_only (content db) \<Longrightarrow> named_only (content (upd (key_bytes k) x db))"
  by (auto simp: named_only_def content_upd)

lemma txn_Get_key: "key_valid k \<Longrightarrow>
    txn_Get api (key_bytes k) db = (case kv db k of None \<Rightarrow> Inl ENOENT | Some v \<Rightarrow> Inr v)"
  by (simp add: txn_Get_def get_law key_bytes_ok lm_kv_def split: option.split)

lemma txn_Put_key: "key_valid k \<Longrightarrow> txn_Put api (key_bytes k) v excl db =
    (if excl \<and> kv db k \<noteq> None then Inl EEXIST else Inr (upd (key_bytes k) (Some v) db))"
  by (simp add: txn_Put_def put_law key_bytes_ok lm_kv_def)

lemmas get_keys [simp] =
  txn_Get_key [of "KHead h" for h, simplified] txn_Get_key [of "KView h e" for h e, simplified]
  txn_Get_key [of "KLog l" for l, simplified] txn_Get_key [of "KMax l" for l, simplified]
  txn_Get_key [of "KEntry l p" for l p, simplified]

lemmas put_keys [simp] =
  txn_Put_key [of "KHead h" for h, simplified] txn_Put_key [of "KView h e" for h e, simplified]
  txn_Put_key [of "KLog l" for l, simplified] txn_Put_key [of "KMax l" for l, simplified]
  txn_Put_key [of "KEntry l p" for l p, simplified]

lemmas upd_keys [simp] =
  kv_upd [of "KHead h" for h, simplified] kv_upd [of "KView h e" for h e, simplified]
  kv_upd [of "KLog l" for l, simplified] kv_upd [of "KMax l" for l, simplified]
  kv_upd [of "KEntry l p" for l p, simplified]

lemmas named_keys [simp] =
  named_upd [of "KHead h" for h, simplified] named_upd [of "KView h e" for h e, simplified]
  named_upd [of "KLog l" for l, simplified] named_upd [of "KMax l" for l, simplified]
  named_upd [of "KEntry l p" for l p, simplified]

end

section \<open>Data calls\<close>

text \<open>A call on a data object did what the specification says, and nothing else.\<close>

definition lm_refines ::
  "('db \<Rightarrow> string \<rightharpoonup> string) \<Rightarrow> 'db lmdb \<Rightarrow> string \<Rightarrow> unit ret \<times> 'db lmdb \<Rightarrow> unit ret \<times> aobj option \<Rightarrow> bool" where
  "lm_refines content s oid r a \<longleftrightarrow> fst r = fst a \<and> lm_inv content (snd r)
     \<and> lm_obj content (snd r) = (lm_obj content s)(oid := snd a)
     \<and> lm_views content (snd r) = lm_views content s \<and> lm_logs content (snd r) = lm_logs content s"

definition lm_log_abs :: "(lm_key \<rightharpoonup> string) \<Rightarrow> string \<Rightarrow> lm_log \<Rightarrow> aobj" where
  "lm_log_abs m oid l = \<lparr>ao_epoch = ll_epoch l, ao_limit = lm_limit l, ao_entries = lm_entries m oid\<rparr>"

lemma below_lm_limit: "below_limit (lm_limit l) p \<longleftrightarrow> has_limit l \<and> p \<le> ll_trim_limit l"
  by (simp add: below_limit_def lm_limit_def)

lemma limit_epoch [simp]: "has_limit (l\<lparr>ll_epoch := e\<rparr>) = has_limit l" "lm_limit (l\<lparr>ll_epoch := e\<rparr>) = lm_limit l"
  by (simp_all add: has_limit_def lm_limit_def)

lemma lm_refines_same: "lm_inv content s \<Longrightarrow> lm_refines content s oid (r, s) (r, lm_obj content s oid)"
  by (simp add: lm_refines_def)

context mdb_store
begin

lemma run_txn_eq: "run_txn api ro body s =
    (case body (lm_db s) of
       TxAbort r \<Rightarrow> (r, s)
     | TxCommit a db \<Rightarrow> (Inr a, s\<lparr>lm_db := db\<rparr>)
     | TxCommitIgnored a db \<Rightarrow> (Inr a, s\<lparr>lm_db := db\<rparr>))"
  by (simp add: run_txn_def txn_begin txn_commit split: txn_end.split)

lemmas txn_simps = run_txn_eq or_abort_def asserted_def put_ignored_def

lemma inv_data: "inv s \<Longrightarrow> lm_data_wf (kv (lm_db s)) oid"
  by (simp add: lm_inv_def lm_map_wf_def)

text \<open>The check the data calls start with, against the abstract one.\<close>

lemma guard_cases:
  assumes "inv s" and "lm_is_data oid"
  obtains (bad) r where "a_guard oid e (lm_obj content s oid) = Inl r" and "e = 0 \<Longrightarrow> r = EINVAL"
      and "e \<noteq> 0 \<Longrightarrow> lmdb_CheckEpoch api (lm_db s) e oid False = Inl r"
  | (good) v l where "e \<noteq> 0" and "lmdb_CheckEpoch api (lm_db s) e oid False = Inr ()"
      and "kv (lm_db s) (KLog oid) = Some v" and "get_log v = Some l"
      and "a_guard oid e (lm_obj content s oid) = Inr (lm_log_abs (kv (lm_db s)) oid l)"
      and "lm_obj content s oid = Some (lm_log_abs (kv (lm_db s)) oid l)"
proof -
  have ne: "oid \<noteq> ''''" using assms(2) by (auto simp: lm_is_data_def)
  show ?thesis
  proof (cases "kv (lm_db s) (KLog oid)")
    case None
    then show ?thesis using assms(2) ne
      by (intro bad [of "if e = 0 then EINVAL else ENOENT"])
        (simp_all add: a_guard_def lm_obj_def lm_aobj_def lmdb_CheckEpoch_def)
  next
    case (Some v)
    then obtain l where l: "get_log v = Some l" using inv_data [OF assms(1), of oid] by (auto simp: lm_data_wf_def)
    have ob: "lm_obj content s oid = Some (lm_log_abs (kv (lm_db s)) oid l)"
      using Some l by (simp add: lm_obj_def lm_aobj_def lm_log_abs_def)
    show ?thesis
    proof (cases "e = 0 \<or> e < ll_epoch l")
      case True
      then show ?thesis using assms(2) ne Some l ob
        by (intro bad [of "if e = 0 then EINVAL else ESPIPE"])
          (auto simp: a_guard_def lmdb_CheckEpoch_def lm_log_abs_def)
    next
      case False
      then show ?thesis using assms(2) ne Some l ob
        by (intro good [of v l]) (auto simp: a_guard_def lmdb_CheckEpoch_def lm_log_abs_def)
    qed
  qed
qed

lemma data_nonempty: "lm_is_data oid \<Longrightarrow> oid \<noteq> []"
  by (auto simp: lm_is_data_def)

text \<open>A commit that changed keys of one data object only.\<close>

lemma commit_data:
  assumes "inv s" and "named_only (content db)" and "\<And>k. \<not> data_key oid k \<Longrightarrow> kv db k = kv (lm_db s) k"
    and "lm_data_wf (kv db) oid" and "lm_aobj (kv db) oid = x"
  shows "lm_refines content s oid (Inr (), s\<lparr>lm_db := db\<rparr>) (Inr (), x)"
  using assms data_frame [of oid "kv db" "kv (lm_db s)"]
  by (simp add: lm_refines_def lm_inv_def lm_obj_def lm_views_def lm_logs_def)

lemma stored_maxpos_eq: "lm_is_data oid \<Longrightarrow> lm_data_wf (kv db) oid \<Longrightarrow> stored_maxpos api oid db =
    Inr (case kv db (KMax oid) of None \<Rightarrow> 0 | Some x \<Rightarrow> the (get_maxpos x))"
  by (auto simp: stored_maxpos_def lm_data_wf_def split: option.splits)

end

text \<open>Storing an entry together with the new maximum position.\<close>

definition maxpos_of :: "(lm_key \<rightharpoonup> string) \<Rightarrow> string \<Rightarrow> u64" where
  "maxpos_of m oid = (case m (KMax oid) of None \<Rightarrow> 0 | Some x \<Rightarrow> the (get_maxpos x))"

lemma entry_stored:
  assumes wf: "lm_data_wf m oid" and v: "m (KLog oid) = Some v" "get_log v = Some l"
    and b: "get_entry b = Some en" "en_position en = p"
    and m': "m' = m(KEntry oid p \<mapsto> b, KMax oid \<mapsto> put_u64 (max (maxpos_of m oid) p))"
  shows "lm_data_wf m' oid"
    and "lm_aobj m' oid = Some (lm_log_abs m oid l\<lparr>ao_entries := (lm_entries m oid)(p := lm_entry_abs b)\<rparr>)"
proof -
  have old: "\<exists>e. get_entry c = Some e \<and> en_position e = q" "q \<le> maxpos_of m oid" if "m (KEntry oid q) = Some c" for q c
    using wf v that by (fastforce simp: lm_data_wf_def maxpos_of_def)+
  show "lm_data_wf m' oid"
    unfolding lm_data_wf_def m' using v b old by (auto simp: le_max_iff_disj)
  show "lm_aobj m' oid = Some (lm_log_abs m oid l\<lparr>ao_entries := (lm_entries m oid)(p := lm_entry_abs b)\<rparr>)"
    using v by (simp add: lm_aobj_def lm_log_abs_def m' lm_entries_def fun_eq_iff)
qed

lemma entry_new_simps [simp]:
  "en_position (lm_entry_new p) = p" "\<not> en_trimmed (lm_entry_new p)" "\<not> en_invalidated (lm_entry_new p)"
  by (simp_all add: lm_entry_new_def)

lemma entry_abs_simps [simp]:
  "lm_entry_abs (put_entry (lm_entry_new p) @ d) = Some (Data d)"
  "lm_entry_abs (put_entry (e\<lparr>en_trimmed := True\<rparr>)) = Some Junk"
  "lm_entry_abs (put_entry (e\<lparr>en_trimmed := True, en_invalidated := i\<rparr>)) = Some Junk"
  by (simp_all add: lm_entry_abs_def)

lemma lm_log_abs_get:
  "ao_get (lm_log_abs m oid l) p = (if has_limit l \<and> p \<le> ll_trim_limit l then Some Junk else lm_entries m oid p)"
  by (simp add: ao_get_def lm_log_abs_def below_lm_limit)

lemma lm_entries_wf:
  assumes "lm_data_wf m oid"
  shows "lm_entries m oid p = None \<longleftrightarrow> m (KEntry oid p) = None"
    and "m (KEntry oid p) = Some b \<Longrightarrow> \<exists>e. get_entry b = Some e \<and> en_position e = p
      \<and> lm_entries m oid p = Some (if en_trimmed e \<or> en_invalidated e then Junk else Data (drop 16 b))"
proof -
  have *: "\<exists>e. get_entry b = Some e \<and> en_position e = p" if "m (KEntry oid p) = Some b" for b
    using assms that by (auto simp: lm_data_wf_def split: option.splits)
  show "lm_entries m oid p = None \<longleftrightarrow> m (KEntry oid p) = None"
    using * by (cases "m (KEntry oid p)") (auto simp: lm_entries_def lm_entry_abs_def)
  show "m (KEntry oid p) = Some b \<Longrightarrow> \<exists>e. get_entry b = Some e \<and> en_position e = p
      \<and> lm_entries m oid p = Some (if en_trimmed e \<or> en_invalidated e then Junk else Data (drop 16 b))"
    using * by (auto simp: lm_entries_def lm_entry_abs_def)
qed

context mdb_store
begin

lemmas stored_maxpos_of = stored_maxpos_eq [folded maxpos_of_def]

lemma put_entry_refines:
  assumes "inv s" and "lm_is_data oid" and "kv (lm_db s) (KLog oid) = Some v" and "get_log v = Some l"
    and "get_entry b = Some en" and "en_position en = p" and "named_only (content db)"
    and "kv db = (kv (lm_db s))(KEntry oid p \<mapsto> b, KMax oid \<mapsto> put_u64 (max (maxpos_of (kv (lm_db s)) oid) p))"
  shows "lm_refines content s oid (Inr (), s\<lparr>lm_db := db\<rparr>)
    (Inr (), Some (lm_log_abs (kv (lm_db s)) oid l\<lparr>ao_entries := (lm_entries (kv (lm_db s)) oid)(p := lm_entry_abs b)\<rparr>))"
proof -
  note es = entry_stored [OF inv_data [OF assms(1)] assms(3-6,8)]
  have "kv db k = kv (lm_db s) k" if "\<not> data_key oid k" for k using that assms(8) by auto
  from commit_data [OF assms(1,7) this es] show ?thesis by simp
qed

lemma Write_refines:
  assumes "inv s" and "lm_is_data oid"
  shows "lm_refines content s oid (lmdb_Write api oid d e p s) (a_write oid d e p (lm_obj content s oid))"
  using assms
proof (cases rule: guard_cases [where e = e])
  case (bad r)
  then show ?thesis
    using assms(1) data_nonempty [OF assms(2)] by (simp add: lmdb_Write_def a_write_def txn_simps lm_refines_same)
next
  case (good v l)
  let ?m = "kv (lm_db s)"
  note wf = inv_data [OF assms(1), of oid]
  show ?thesis
  proof (cases "ao_get (lm_log_abs ?m oid l) p = None")
    case True
    then have free: "?m (KEntry oid p) = None" "\<not> (has_limit l \<and> p \<le> ll_trim_limit l)"
      using lm_entries_wf(1) [OF wf] by (auto simp: lm_log_abs_get split: if_splits)
    let ?b = "put_entry (lm_entry_new p) @ d"
    let ?db = "upd (MaxPosKey oid) (Some (put_u64 (max (maxpos_of ?m oid) p))) (upd (LogEntryKey oid p) (Some ?b) (lm_db s))"
    have w: "lmdb_Write api oid d e p s = (Inr (), s\<lparr>lm_db := ?db\<rparr>)"
      using good free assms(2) data_nonempty [OF assms(2)] wf
      by (simp add: lmdb_Write_def txn_simps stored_maxpos_of)
    have "named_only (content ?db)" using assms by (simp add: lm_inv_def)
    then have "lm_refines content s oid (Inr (), s\<lparr>lm_db := ?db\<rparr>)
        (Inr (), Some (lm_log_abs ?m oid l\<lparr>ao_entries := (lm_entries ?m oid)(p := lm_entry_abs ?b)\<rparr>))"
      by (intro put_entry_refines [OF assms good(3,4), where en = "lm_entry_new p"]) (simp_all add: assms(2))
    then show ?thesis using good True w by (simp add: a_write_def lm_log_abs_def)
  next
    case False
    then have "has_limit l \<and> p \<le> ll_trim_limit l \<or> ?m (KEntry oid p) \<noteq> None"
      unfolding lm_log_abs_get by (metis lm_entries_wf(1) [OF wf])
    then have "lmdb_Write api oid d e p s = (Inl EROFS, s)"
      using good assms(2) data_nonempty [OF assms(2)] wf by (auto simp: lmdb_Write_def txn_simps stored_maxpos_of)
    then show ?thesis using good(5,6) False lm_refines_same [OF assms(1), of oid "Inl EROFS"] by (simp add: a_write_def)
  qed
qed

end

context mdb_store
begin

lemma Read_spec:
  assumes "inv s" and "lm_is_data oid"
  shows "lmdb_Read api oid e p s = a_read oid e p (lm_obj content s oid)"
  using assms
proof (cases rule: guard_cases [where e = e])
  case (bad r)
  then show ?thesis using data_nonempty [OF assms(2)] by (simp add: lmdb_Read_def a_read_def txn_simps)
next
  case (good v l)
  note wf = inv_data [OF assms(1), of oid]
  show ?thesis
  proof (cases "kv (lm_db s) (KEntry oid p)")
    case None
    then show ?thesis
      using good assms(2) data_nonempty [OF assms(2)] lm_entries_wf(1) [OF wf, of p]
      by (auto simp: lmdb_Read_def a_read_def txn_simps lm_log_abs_get)
  next
    case (Some b)
    then show ?thesis
      using good assms(2) data_nonempty [OF assms(2)] lm_entries_wf(2) [OF wf Some]
      by (auto simp: lmdb_Read_def a_read_def txn_simps lm_log_abs_get)
  qed
qed

lemma Fill_refines:
  assumes "inv s" and "lm_is_data oid"
  shows "lm_refines content s oid (lmdb_Fill api oid e p s) (a_fill oid e p (lm_obj content s oid))"
  using assms
proof (cases rule: guard_cases [where e = e])
  case (bad r)
  then show ?thesis
    using assms(1) data_nonempty [OF assms(2)] by (simp add: lmdb_Fill_def a_fill_def txn_simps lm_refines_same)
next
  case (good v l)
  let ?m = "kv (lm_db s)" and ?en = "lm_entry_new p\<lparr>en_trimmed := True, en_invalidated := True\<rparr>"
  note wf = inv_data [OF assms(1), of oid]
  have same: "lm_refines content s oid (r, s) (r, Some (lm_log_abs ?m oid l))" for r
    using lm_refines_same [OF assms(1), of oid r] good(6) by simp
  show ?thesis
  proof (cases "has_limit l \<and> p \<le> ll_trim_limit l")
    case True
    then show ?thesis
      using good assms(2) data_nonempty [OF assms(2)] same
      by (simp add: lmdb_Fill_def a_fill_def txn_simps lm_log_abs_get)
  next
    case False
    show ?thesis
    proof (cases "?m (KEntry oid p)")
      case (Some b)
      then show ?thesis
        using False good assms(2) data_nonempty [OF assms(2)] same lm_entries_wf(2) [OF wf Some]
        by (auto simp: lmdb_Fill_def a_fill_def txn_simps lm_log_abs_get)
    next
      case None
      let ?db = "upd (LogEntryKey oid p) (Some (put_entry ?en))
        (upd (MaxPosKey oid) (Some (put_u64 (max (maxpos_of ?m oid) p))) (lm_db s))"
      have "lmdb_Fill api oid e p s = (Inr (), s\<lparr>lm_db := ?db\<rparr>)"
        using good False None assms(2) data_nonempty [OF assms(2)] wf by (auto simp: lmdb_Fill_def txn_simps stored_maxpos_of)
      moreover have "named_only (content ?db)" using assms by (simp add: lm_inv_def)
      then have "lm_refines content s oid (Inr (), s\<lparr>lm_db := ?db\<rparr>)
          (Inr (), Some (lm_log_abs ?m oid l\<lparr>ao_entries := (lm_entries ?m oid)(p := lm_entry_abs (put_entry ?en))\<rparr>))"
        by (intro put_entry_refines [OF assms good(3,4), where en = ?en]) (simp_all add: assms(2) fun_upd_twist)
      moreover have "ao_get (lm_log_abs ?m oid l) p = None"
        using False None lm_entries_wf(1) [OF wf, of p] by (auto simp: lm_log_abs_get)
      ultimately show ?thesis using good(5,6) by (simp add: a_fill_def lm_log_abs_def)
    qed
  qed
qed

lemma MaxPos_spec:
  assumes "inv s" and "lm_is_data oid"
  shows "a_maxpos_ok oid (lm_obj content s oid) (lmdb_MaxPos api oid s)"
proof (cases "kv (lm_db s) (KLog oid)")
  case None
  then show ?thesis
    using assms(2) data_nonempty [OF assms(2)] by (simp add: a_maxpos_ok_def lmdb_MaxPos_def lm_obj_def lm_aobj_def txn_simps)
next
  case (Some v)
  note wf = inv_data [OF assms(1), of oid]
  let ?m = "kv (lm_db s)"
  obtain l where l: "get_log v = Some l" using wf Some by (auto simp: lm_data_wf_def)
  have ob: "lm_obj content s oid = Some (lm_log_abs ?m oid l)"
    using Some l by (simp add: lm_obj_def lm_aobj_def lm_log_abs_def)
  have get: "ao_get (lm_log_abs ?m oid l) p = None \<longleftrightarrow> \<not> (has_limit l \<and> p \<le> ll_trim_limit l) \<and> ?m (KEntry oid p) = None" for p
    using lm_entries_wf(1) [OF wf, of p] by (simp add: lm_log_abs_get)
  show ?thesis
  proof (cases "?m (KMax oid)")
    case None
    then have "?m (KEntry oid p) = None" for p using wf Some l by (fastforce simp: lm_data_wf_def)
    then show ?thesis
      using None Some l ob get assms(2) data_nonempty [OF assms(2)]
      by (auto simp: a_maxpos_ok_def lmdb_MaxPos_def txn_simps)
  next
    case (Some x)
    then obtain M where M: "get_maxpos x = Some M" and lim: "has_limit l \<or> (\<exists>p. ?m (KEntry oid p) \<noteq> None)"
      using wf \<open>?m (KLog oid) = Some v\<close> l by (auto simp: lm_data_wf_def)
    have "p \<le> M" if "?m (KEntry oid p) \<noteq> None" for p
      using wf \<open>?m (KLog oid) = Some v\<close> Some M that by (auto simp: lm_data_wf_def)
    then show ?thesis
      using Some \<open>?m (KLog oid) = Some v\<close> M lim l ob get assms(2) data_nonempty [OF assms(2)]
      by (auto simp: a_maxpos_ok_def lmdb_MaxPos_def txn_simps le_max_iff_disj)
  qed
qed

text \<open>Storing the head of an object.\<close>

lemma put_log_refines:
  assumes "inv s" and "lm_is_data oid" and "lm_data_wf ((kv (lm_db s))(KLog oid \<mapsto> put_log l)) oid"
  shows "lm_refines content s oid (Inr (), s\<lparr>lm_db := upd oid (Some (put_log l)) (lm_db s)\<rparr>)
    (Inr (), Some (lm_log_abs (kv (lm_db s)) oid l))"
proof (rule commit_data [OF assms(1)])
  let ?db = "upd oid (Some (put_log l)) (lm_db s)"
  show "named_only (content ?db)" using assms by (simp add: lm_inv_def)
  show "kv ?db k = kv (lm_db s) k" if "\<not> data_key oid k" for k using that assms(2) by auto
  show "lm_data_wf (kv ?db) oid" using assms(2,3) by simp
  show "lm_aobj (kv ?db) oid = Some (lm_log_abs (kv (lm_db s)) oid l)"
    using assms(2) by (simp add: lm_aobj_def lm_log_abs_def lm_entries_def fun_eq_iff)
qed

lemma Seal_refines:
  assumes "inv s" and "lm_is_data oid"
  shows "lm_refines content s oid (lmdb_Seal api oid e s) (a_seal oid e (lm_obj content s oid))"
proof (cases "e = 0")
  case True
  then show ?thesis using lm_refines_same [OF assms(1)] by (simp add: lmdb_Seal_def a_seal_def)
next
  case False
  note wf = inv_data [OF assms(1), of oid] and ne = data_nonempty [OF assms(2)]
  let ?m = "kv (lm_db s)"
  note ref = put_log_refines [OF assms]
  show ?thesis
  proof (cases "?m (KLog oid)")
    case None
    then have "lm_data_wf (?m(KLog oid \<mapsto> put_log (lm_log_new\<lparr>ll_epoch := e\<rparr>))) oid" "\<And>p. ?m (KEntry oid p) = None"
      using wf by (auto simp: lm_data_wf_def)
    from ref [OF this(1)] this(2) show ?thesis
      using None False assms(2) ne
      by (simp add: lmdb_Seal_def a_seal_def txn_simps lm_obj_def lm_aobj_def lm_log_abs_def ao_init_def lm_log_new_def
          lm_limit_def has_limit_def lm_entries_def [abs_def])
  next
    case (Some v)
    then obtain l where l: "get_log v = Some l" using wf by (auto simp: lm_data_wf_def)
    have ob: "lm_obj content s oid = Some (lm_log_abs ?m oid l)"
      using Some l by (simp add: lm_obj_def lm_aobj_def lm_log_abs_def)
    have "lm_data_wf (?m(KLog oid \<mapsto> put_log (l\<lparr>ll_epoch := e\<rparr>))) oid"
      using wf Some l by (auto simp: lm_data_wf_def has_limit_def)
    from ref [OF this] show ?thesis
      using Some l ob False assms(2) ne lm_refines_same [OF assms(1), of oid "Inl ESPIPE"]
      by (simp add: lmdb_Seal_def a_seal_def txn_simps lm_log_abs_def)
  qed
qed

end

text \<open>\<^verbatim>\<open>Trim\<close>.\<close>

definition limited :: "bool \<Rightarrow> u64 \<Rightarrow> lm_log \<Rightarrow> lm_log" where
  "limited lim p l =
     (if lim then l\<lparr>ll_trim_limit := (if has_limit l then max p (ll_trim_limit l) else p)\<rparr> else l)"

lemma limited_limit:
  assumes "lim \<longrightarrow> lm_lim_ok p"
  shows "lm_limit (limited lim p l) =
      (if lim then Some (case lm_limit l of None \<Rightarrow> p | Some x \<Rightarrow> max p x) else lm_limit l)"
    and "has_limit l \<Longrightarrow> has_limit (limited lim p l)" and "lim \<Longrightarrow> has_limit (limited lim p l)"
    and "lim \<Longrightarrow> p \<le> ll_trim_limit (limited lim p l)" and "ll_epoch (limited lim p l) = ll_epoch l"
  using assms by (auto simp: limited_def lm_limit_def has_limit_def lm_lim_ok_def max_def)

lemma limited_wf:
  assumes "lm_data_wf m oid" and "m (KLog oid) = Some v" and "get_log v = Some l" and "lim \<longrightarrow> lm_lim_ok p"
  shows "lm_data_wf (m(KLog oid \<mapsto> put_log (limited lim p l))) oid"
  using assms limited_limit(2) [OF assms(4), of l] by (auto simp: lm_data_wf_def)

lemma lm_refines_trans:
  assumes "lm_refines content s oid (r, s1) (r', x)" and "lm_refines content s1 oid r2 (a, y)"
  shows "lm_refines content s oid r2 (a, y)"
  using assms by (simp add: lm_refines_def)

context mdb_store
begin

lemma entry_keys:
  assumes "named_only (content db)" and "lm_is_data oid"
  obtains keys where "txn_GetAll api (oid @ ''.entry.'') db = Inr keys" and "distinct keys"
    and "set keys = {LogEntryKey oid p |p. kv db (KEntry oid p) \<noteq> None}"
proof (cases "content db = Map.empty")
  case True
  then show ?thesis
    using that [of "[]"] cursor_law [of db] by (simp add: txn_GetAll_def lm_kv_def)
next
  case False
  then obtain ks where ks: "mdb_cursor api db = MDB_SUCCESS ks" "distinct ks" "set ks = dom (content db)"
    using cursor_law [of db] by auto
  let ?keys = "filter (\<lambda>key. startsWith key (oid @ ''.entry.'')) ks"
  have "set ?keys = {LogEntryKey oid p |p. kv db (KEntry oid p) \<noteq> None}"
  proof (intro set_eqI iffI)
    fix key
    assume "key \<in> set ?keys"
    then have key: "content db key \<noteq> None" "startsWith key (oid @ ''.entry.'')" using ks by auto
    then obtain k where k: "key_valid k" "key = key_bytes k" using assms(1) by (auto simp: named_only_def)
    then obtain p where "k = KEntry oid p" using entry_prefix [OF assms(2) k(1)] key by auto
    then show "key \<in> {LogEntryKey oid p |p. kv db (KEntry oid p) \<noteq> None}"
      using k key by (auto simp: lm_kv_def)
  next
    fix key
    assume "key \<in> {LogEntryKey oid p |p. kv db (KEntry oid p) \<noteq> None}"
    then show "key \<in> set ?keys"
      using entry_prefix [OF assms(2), of "KEntry oid p" for p] assms(2) ks by (auto simp: lm_kv_def)
  qed
  then show ?thesis using that [of ?keys] ks by (simp add: txn_GetAll_def)
qed

lemma check_entries_ok:
  "\<forall>key\<in>set keys. \<exists>v. txn_Get api key db = Inr v \<and> 16 \<le> length v \<Longrightarrow> check_entries api db keys = Inr ()"
  by (induction keys) auto

lemma delete_keys_ok:
  "distinct keys \<Longrightarrow> set keys \<subseteq> dom (content db) \<Longrightarrow>
   \<exists>db'. delete_keys api keys db = Inr db' \<and> content db' = (\<lambda>k. if k \<in> set keys then None else content db k)"
proof (induction keys arbitrary: db)
  case (Cons key keys)
  have "txn_Delete api key db = Inr (upd key None db)" using Cons.prems del_law [of db key] by (auto simp: txn_Delete_def)
  moreover have "set keys \<subseteq> dom (content (upd key None db))" using Cons.prems by (auto simp: content_upd)
  moreover from Cons.IH [OF _ this] Cons.prems(1) obtain db' where "delete_keys api keys (upd key None db) = Inr db'"
      "content db' = (\<lambda>k. if k \<in> set keys then None else content (upd key None db) k)" by auto
  ultimately show ?case by (auto simp: content_upd)
qed simp

text \<open>The full trim deletes exactly the entries of the object.\<close>

lemma trim_full_refines:
  assumes "inv s" and "lm_is_data oid" and "kv (lm_db s) (KLog oid) = Some v" and "get_log v = Some l" and "has_limit l"
  obtains keys db where "txn_GetAll api (oid @ ''.entry.'') (lm_db s) = Inr keys"
    and "check_entries api (lm_db s) keys = Inr ()" and "delete_keys api keys (lm_db s) = Inr db"
    and "lm_refines content s oid (Inr (), s\<lparr>lm_db := db\<rparr>)
      (Inr (), Some (lm_log_abs (kv (lm_db s)) oid l\<lparr>ao_entries := Map.empty\<rparr>))"
proof -
  let ?m = "kv (lm_db s)"
  have named: "named_only (content (lm_db s))" using assms(1) by (simp add: lm_inv_def)
  note wf = inv_data [OF assms(1), of oid]
  from entry_keys [OF named assms(2)] obtain keys where keys: "txn_GetAll api (oid @ ''.entry.'') (lm_db s) = Inr keys"
    "distinct keys" "set keys = {LogEntryKey oid p |p. ?m (KEntry oid p) \<noteq> None}" by blast
  have "\<exists>b. ?m (KEntry oid p) = Some b \<and> 16 \<le> length b" if "?m (KEntry oid p) \<noteq> None" for p
    using that lm_entries_wf(2) [OF wf, of p] by (auto simp: get_entry_def split: if_splits)
  then have "\<forall>key\<in>set keys. \<exists>v. txn_Get api key (lm_db s) = Inr v \<and> 16 \<le> length v"
    using keys(3) assms(2) by fastforce
  note check = check_entries_ok [OF this]
  have "set keys \<subseteq> dom (content (lm_db s))" using keys(3) assms(2) by (auto simp: lm_kv_def)
  from delete_keys_ok [OF keys(2) this] obtain db where db: "delete_keys api keys (lm_db s) = Inr db"
    "content db = (\<lambda>k. if k \<in> set keys then None else content (lm_db s) k)" by blast
  have "key_bytes x \<in> set keys \<longleftrightarrow> (\<exists>p. x = KEntry oid p) \<and> ?m x \<noteq> None" if x: "key_valid x" for x
  proof
    assume "key_bytes x \<in> set keys"
    then obtain p where p: "key_bytes x = key_bytes (KEntry oid p)" "?m (KEntry oid p) \<noteq> None" using keys(3) by auto
    then have "x = KEntry oid p" using x assms(2) by (intro key_inject) simp_all
    then show "(\<exists>p. x = KEntry oid p) \<and> ?m x \<noteq> None" using p(2) by simp
  qed (use keys(3) in auto)
  then have kv: "kv db = (\<lambda>k. if \<exists>p. k = KEntry oid p then None else ?m k)"
    by (auto simp: fun_eq_iff lm_kv_def db(2))
  have "lm_refines content s oid (Inr (), s\<lparr>lm_db := db\<rparr>)
      (Inr (), Some (lm_log_abs ?m oid l\<lparr>ao_entries := Map.empty\<rparr>))"
  proof (rule commit_data [OF assms(1)])
    show "named_only (content db)" using named by (auto simp: named_only_def db(2) dom_def)
    show "kv db k = ?m k" if "\<not> data_key oid k" for k using that by (auto simp: kv)
    show "lm_data_wf (kv db) oid" using wf assms(3-5) by (auto simp: lm_data_wf_def kv)
    show "lm_aobj (kv db) oid = Some (lm_log_abs ?m oid l\<lparr>ao_entries := Map.empty\<rparr>)"
      using assms(3,4) by (simp add: lm_aobj_def lm_log_abs_def lm_entries_def kv fun_eq_iff)
  qed
  from that [OF keys(1) check db(1) this] show ?thesis .
qed

lemma trim_entry_refines:
  assumes "inv s" and "lm_is_data oid" and "kv (lm_db s) (KLog oid) = Some v" and "get_log v = Some l"
  obtains db where "trim_entry api oid p (lm_db s) = TxCommit () db"
    and "lm_refines content s oid (Inr (), s\<lparr>lm_db := db\<rparr>) (Inr (), Some (lm_log_abs (kv (lm_db s)) oid l
      \<lparr>ao_entries := (lm_entries (kv (lm_db s)) oid)(p \<mapsto> Junk)\<rparr>))"
proof -
  let ?m = "kv (lm_db s)"
  note wf = inv_data [OF assms(1), of oid]
  let ?en = "case ?m (KEntry oid p) of None \<Rightarrow> lm_entry_new p | Some b \<Rightarrow> the (get_entry b)"
  have pos: "en_position ?en = p" using lm_entries_wf(2) [OF wf, of p] by (auto split: option.split)
  let ?b = "put_entry (?en\<lparr>en_trimmed := True\<rparr>)"
  let ?db = "upd (LogEntryKey oid p) (Some ?b) (upd (MaxPosKey oid) (Some (put_u64 (max (maxpos_of ?m oid) p))) (lm_db s))"
  have t: "trim_entry api oid p (lm_db s) = TxCommit () ?db"
    using assms(2) wf lm_entries_wf(2) [OF wf, of p]
    by (cases "?m (KEntry oid p)") (auto simp: trim_entry_def txn_simps stored_maxpos_of)
  have "named_only (content ?db)" using assms(1,2) by (simp add: lm_inv_def)
  then have "lm_refines content s oid (Inr (), s\<lparr>lm_db := ?db\<rparr>)
      (Inr (), Some (lm_log_abs ?m oid l\<lparr>ao_entries := (lm_entries ?m oid)(p := lm_entry_abs ?b)\<rparr>))"
    using pos by (intro put_entry_refines [OF assms, where en = "?en\<lparr>en_trimmed := True\<rparr>"]) (simp_all add: assms(2) fun_upd_twist)
  with that [OF t] show ?thesis by simp
qed

end

context mdb_store
begin

lemma Trim_refines:
  assumes "inv s" and "lm_is_data oid" and "lim \<longrightarrow> lm_lim_ok p"
  shows "lm_refines content s oid (lmdb_Trim api oid e p lim full s) (a_trim oid e p lim full (lm_obj content s oid))"
proof (cases "full \<and> \<not> lim")
  case True
  then show ?thesis using assms(1) by (simp add: lmdb_Trim_def a_trim_def lm_refines_same)
next
  case nfl: False
  note ne = data_nonempty [OF assms(2)]
  show ?thesis
    using assms(1,2)
  proof (cases rule: guard_cases [where e = e])
    case (bad r)
    then show ?thesis using nfl assms(1) ne by (auto simp: lmdb_Trim_def a_trim_def txn_simps lm_refines_same)
  next
    case (good v l)
    let ?m = "kv (lm_db s)" and ?l = "limited lim p l"
    let ?s = "s\<lparr>lm_db := upd oid (Some (put_log ?l)) (lm_db s)\<rparr>"
    note lims = limited_limit [OF assms(3), of l]
    note r1 = put_log_refines [OF assms(1,2) limited_wf [OF inv_data [OF assms(1)] good(3,4) assms(3)]]
    then have s1: "inv ?s" "kv (lm_db ?s) (KLog oid) = Some (put_log ?l)" "get_log (put_log ?l) = Some ?l"
      "lm_entries (kv (lm_db ?s)) oid = lm_entries ?m oid"
      using assms(2) by (simp_all add: lm_refines_def lm_entries_def fun_eq_iff)
    have abs: "lm_log_abs (kv (lm_db ?s)) oid ?l = lm_log_abs ?m oid ?l" using s1(4) by (simp add: lm_log_abs_def)
    have a: "a_trim oid e p lim full (lm_obj content s oid) =
        (let x = lm_log_abs ?m oid ?l; x2 = (if full then x\<lparr>ao_entries := Map.empty\<rparr> else x)
         in (Inr (), Some (if has_limit ?l \<and> p \<le> ll_trim_limit ?l then x2
               else x2\<lparr>ao_entries := (ao_entries x2)(p \<mapsto> Junk)\<rparr>)))"
      using nfl good(5) lims(1,5) by (auto simp: a_trim_def Let_def lm_log_abs_def below_lm_limit [symmetric])
    note start = lmdb_Trim_def txn_simps limited_def [symmetric] Let_def
    consider (full) full lim | (below) "\<not> full" "has_limit ?l \<and> p \<le> ll_trim_limit ?l"
      | (single) "\<not> full" "\<not> lim" "\<not> (has_limit ?l \<and> p \<le> ll_trim_limit ?l)"
      using nfl lims(3,4) by blast
    then show ?thesis
    proof cases
      case full
      from trim_full_refines [OF s1(1) assms(2) s1(2,3) lims(3) [OF full(2)]] obtain keys db where
        k: "txn_GetAll api (oid @ ''.entry.'') (lm_db ?s) = Inr keys" "check_entries api (lm_db ?s) keys = Inr ()"
          "delete_keys api keys (lm_db ?s) = Inr db"
        and r2: "lm_refines content ?s oid (Inr (), ?s\<lparr>lm_db := db\<rparr>)
          (Inr (), Some (lm_log_abs (kv (lm_db ?s)) oid ?l\<lparr>ao_entries := Map.empty\<rparr>))" by blast
      have "lmdb_Trim api oid e p lim full s = (Inr (), s\<lparr>lm_db := db\<rparr>)"
        using full good ne assms(2) k by (simp add: start)
      then show ?thesis
        unfolding a using lm_refines_trans [OF r1 r2 [unfolded abs]] full(1) lims(3,4) [OF full(2)] by simp
    next
      case below
      then have "lmdb_Trim api oid e p lim full s = (Inr (), ?s)" using good ne assms(2) by (simp add: start)
      then show ?thesis unfolding a using r1 below by simp
    next
      case single
      from trim_entry_refines [OF s1(1) assms(2) s1(2,3), of p] obtain db where
        t: "trim_entry api oid p (lm_db ?s) = TxCommit () db"
        and r2: "lm_refines content ?s oid (Inr (), ?s\<lparr>lm_db := db\<rparr>) (Inr (), Some (lm_log_abs (kv (lm_db ?s)) oid ?l
          \<lparr>ao_entries := (lm_entries (kv (lm_db ?s)) oid)(p \<mapsto> Junk)\<rparr>))" by blast
      have "lmdb_Trim api oid e p lim full s = (Inr (), s\<lparr>lm_db := db\<rparr>)"
        using single good ne assms(2) t by (auto simp add: limited_def lmdb_Trim_def txn_simps)
      then show ?thesis
        unfolding a using lm_refines_trans [OF r1 r2 [unfolded abs s1(4)]] single(1,3)
        by (auto simp: Let_def) (simp_all add: lm_log_abs_def)
    qed
  qed
qed

end

end
