(* ===== verification/LMDB_Backend.thy ===== *)
theory LMDB_Backend
  imports LMDB_Store
begin

text \<open>
  The views and the directory of logs of the LMDB backend, and the storage contract for all of it.
\<close>

section \<open>Head objects\<close>

text \<open>Writing to the keys of one head object.\<close>

fun head_key :: "string \<Rightarrow> lm_key \<Rightarrow> bool" where
  "head_key hoid (KHead h) \<longleftrightarrow> h = hoid"
| "head_key hoid (KView h e) \<longleftrightarrow> h = hoid"
| "head_key hoid _ \<longleftrightarrow> False"

lemma head_frame:
  assumes "\<And>k. \<not> head_key hoid k \<Longrightarrow> m' k = m k" and "m (KHead hoid) = Some v"
    and "m' (KHead hoid) = Some v'" and "drop 16 v' = drop 16 v"
  shows "lm_aobj m' = lm_aobj m" and "lm_links m' = lm_links m"
    and "lm_head_views m' = (lm_head_views m)(hoid := lm_head_views m' hoid)"
    and "lm_map_wf m \<Longrightarrow> lm_head_wf m' hoid \<Longrightarrow> lm_map_wf m'"
proof -
  have eq: "m' (KLog x) = m (KLog x)" "m' (KMax x) = m (KMax x)" "m' (KEntry x p) = m (KEntry x p)"
    "m' (KLink x) = m (KLink x)" for x p
    by (simp_all add: assms(1))
  have other: "m' (KHead h) = m (KHead h)" "m' (KView h e) = m (KView h e)" if "h \<noteq> hoid" for h e
    using that by (simp_all add: assms(1))
  have ex: "m' (KHead h) = None \<longleftrightarrow> m (KHead h) = None" for h
    using other [of h] assms(2,3) by (cases "h = hoid") simp_all
  show "lm_aobj m' = lm_aobj m" by (simp add: fun_eq_iff lm_aobj_def lm_entries_def [abs_def] eq)
  have "Option.bind (m' (KHead h)) (\<lambda>p. map_option (Pair h) (string_of_c (drop 16 p)))
      = Option.bind (m (KHead h)) (\<lambda>p. map_option (Pair h) (string_of_c (drop 16 p)))" for h
    using other(1) [of h] assms(2-4) by (cases "h = hoid") simp_all
  then show "lm_links m' = lm_links m" by (simp add: fun_eq_iff lm_links_def eq)
  show "lm_head_views m' = (lm_head_views m)(hoid := lm_head_views m' hoid)"
  proof
    show "lm_head_views m' x = ((lm_head_views m)(hoid := lm_head_views m' hoid)) x" for x
      using other [of x] by (cases "x = hoid") (simp_all add: lm_head_views_def)
  qed
  assume wf: "lm_map_wf m" "lm_head_wf m' hoid"
  have "lm_head_wf m' x" for x
  proof (cases "x = hoid")
    case False
    have "lm_head_wf m' x = lm_head_wf m x"
      unfolding lm_head_wf_def using other [OF False] by (simp cong: option.case_cong)
    then show ?thesis using wf(1) by (simp add: lm_map_wf_def)
  qed (simp add: wf(2))
  then show "lm_map_wf m'"
    using wf(1) ex by (simp add: lm_map_wf_def lm_data_wf_def lm_link_wf_def eq cong: option.case_cong)
qed

definition views_of :: "(lm_key \<rightharpoonup> string) \<Rightarrow> string \<Rightarrow> u64 \<Rightarrow> string list" where
  "views_of m hoid e = map (\<lambda>i. the (m (KView hoid (of_nat (Suc i))))) [0..<unat e]"

lemma length_views_of [simp]: "length (views_of m hoid e) = unat e"
  by (simp add: views_of_def)

lemma u64_index: "0 < (e :: u64) \<Longrightarrow> of_nat (Suc (unat e - 1)) = e"
  by (simp add: u64_pos_iff)

lemma suc_of_nat_le: "i < unat (e :: u64) \<Longrightarrow> 0 < (of_nat (Suc i) :: u64) \<and> (of_nat (Suc i) :: u64) \<le> e"
proof -
  assume "i < unat e"
  moreover from this have "Suc i < 18446744073709551616" using unat_u64_bound [of e] by linarith
  ultimately show ?thesis by (simp only: word_le_nat_alt u64_pos_iff unat_of_nat_u64) simp
qed

lemma suc_of_nat_above: "(of_nat (Suc (unat (e :: u64))) :: u64) = 0 \<or> e < of_nat (Suc (unat e))"
proof (cases "Suc (unat e) < 18446744073709551616")
  case True
  then show ?thesis by (simp only: word_less_nat_alt unat_of_nat_u64) simp
next
  case False
  then have "Suc (unat e) = 18446744073709551616" using Suc_leI [OF unat_u64_bound [of e]] by linarith
  then have "Suc (unat e) = 2 ^ 64" by simp
  then have "(of_nat (Suc (unat e)) :: u64) = 0" by (simp only: word_of_nat_eq_0_iff) simp
  then show ?thesis by simp
qed

context mdb_store
begin

lemma inv_head: "inv s \<Longrightarrow> lm_head_wf (kv (lm_db s)) hoid"
  by (simp add: lm_inv_def lm_map_wf_def)

lemma views_some:
  assumes "inv s" and "lm_views content s hoid = Some vs"
  obtains v pj where "lm_is_head hoid" and "hoid \<noteq> ''''" and "kv (lm_db s) (KHead hoid) = Some v" and "get_proj v = Some pj"
    and "0 < pj_epoch pj" and "vs = views_of (kv (lm_db s)) hoid (pj_epoch pj)"
    and "string_of_c (pj_prefix pj) = Some (''zlog.data.'' @ drop 10 hoid)"
    and "\<And>e. kv (lm_db s) (KView hoid e) \<noteq> None \<longleftrightarrow> 0 < e \<and> e \<le> pj_epoch pj"
proof -
  obtain v where v: "kv (lm_db s) (KHead hoid) = Some v"
    using assms(2) by (cases "kv (lm_db s) (KHead hoid)") (simp_all add: lm_views_def lm_head_views_def)
  then have h: "lm_is_head hoid" by (simp add: lm_kv_def split: if_splits)
  obtain pj where pj: "get_proj v = Some pj" "0 < pj_epoch pj"
    "string_of_c (pj_prefix pj) = Some (''zlog.data.'' @ drop 10 hoid)"
    "\<And>e. kv (lm_db s) (KView hoid e) \<noteq> None \<longleftrightarrow> 0 < e \<and> e \<le> pj_epoch pj"
    using inv_head [OF assms(1), of hoid] v by (auto simp: lm_head_wf_def)
  have "vs = views_of (kv (lm_db s)) hoid (pj_epoch pj)"
    using assms(2) v pj(1) by (simp add: lm_views_def lm_head_views_def views_of_def)
  moreover have "hoid \<noteq> ''''" using h by (auto simp: lm_is_head_def)
  ultimately show ?thesis using that [OF h _ v pj(1,2) _ pj(3,4)] by blast
qed

lemma views_bounds:
  assumes "inv s" and "lm_views content s hoid = Some vs"
  shows "length vs < 2 ^ 64 \<and> hoid \<noteq> '''' \<and> lm_is_head hoid"
proof (rule views_some [OF assms])
  fix v pj
  assume "lm_is_head hoid" "hoid \<noteq> ''''" "vs = views_of (kv (lm_db s)) hoid (pj_epoch pj)"
  then show ?thesis by simp
qed

text \<open>Reading a range of views.\<close>

lemma view_loop:
  assumes "lm_is_head hoid" and "\<And>e. kv db (KView hoid e) \<noteq> None \<longleftrightarrow> 0 < e \<and> e \<le> E"
    and "i \<le> unat E" and "\<forall>x\<in>set acc. fst x < of_nat (Suc i) \<or> i = unat E"
  shows "lmdb_view_loop api db hoid n (of_nat (Suc i)) acc =
    Inr (acc @ map (\<lambda>i. (of_nat (Suc i), views_of (kv db) hoid E ! i)) (take n [i..<unat E]))"
  using assms(3,4)
proof (induction n arbitrary: i acc)
  case (Suc n)
  show ?case
  proof (cases "i = unat E")
    case True
    have "\<not> (0 < (of_nat (Suc i) :: u64) \<and> of_nat (Suc i) \<le> E)" using suc_of_nat_above [of E] True by auto
    then have "kv db (KView hoid (of_nat (Suc i))) = None" using assms(2) by blast
    then show ?thesis using True assms(1) by (simp del: of_nat_Suc)
  next
    case False
    then have i: "i < unat E" using Suc.prems(1) by simp
    then obtain v where v: "kv db (KView hoid (of_nat (Suc i))) = Some v" using suc_of_nat_le assms(2) by blast
    have "smap_emplace (of_nat (Suc i)) v acc = (acc @ [(of_nat (Suc i), v)], True)"
      using Suc.prems(2) False by (intro smap_emplace_last) blast
    moreover have "\<forall>x\<in>set (acc @ [(of_nat (Suc i), v)]). fst x < (of_nat (Suc (Suc i)) :: u64) \<or> Suc i = unat E"
    proof (cases "Suc i = unat E")
      case no: False
      then have "Suc (Suc i) < 18446744073709551616" using i unat_u64_bound [of E] by linarith
      then have less: "(of_nat (Suc i) :: u64) < of_nat (Suc (Suc i))"
        by (simp only: word_less_nat_alt unat_of_nat_u64 Suc_lessD lessI)
      then show ?thesis using Suc.prems(2) False by (auto simp del: of_nat_Suc intro: less_trans [OF _ less])
    qed simp
    moreover have "[i..<unat E] = i # [Suc i..<unat E]" using i by (rule upt_conv_Cons)
    moreover have "views_of (kv db) hoid E ! i = v" using i v by (simp add: views_of_def del: of_nat_Suc)
    moreover have "(of_nat (Suc i) :: u64) + 1 = of_nat (Suc (Suc i))" by simp
    ultimately show ?thesis
      using Suc.IH [of "Suc i" "acc @ [(of_nat (Suc i), v)]"] i v assms(1) by (simp del: of_nat_Suc)
  qed
qed simp

lemma ReadViews_spec:
  assumes "inv s" and "lm_views content s hoid = Some vs"
  shows "lmdb_ReadViews api hoid e n s = Inr (a_read_views e n vs)"
proof -
  let ?m = "kv (lm_db s)"
  from views_some [OF assms] obtain v pj where h: "lm_is_head hoid" "hoid \<noteq> ''''" "?m (KHead hoid) = Some v" "get_proj v = Some pj"
    "0 < pj_epoch pj" "vs = views_of ?m hoid (pj_epoch pj)"
    and has: "\<And>e. ?m (KView hoid e) \<noteq> None \<longleftrightarrow> 0 < e \<and> e \<le> pj_epoch pj" by metis
  let ?E = "pj_epoch pj"
  consider "?E < e" | "e = 0" | "0 < e" "e \<le> ?E" by (metis not_le word_gt_0)
  then show ?thesis
  proof cases
    case 1
    then have "0 < e" "unat ?E \<le> unat e - 1" using word_less_nat_alt [of ?E e] by (auto simp: u64_pos_iff)
    then show ?thesis using 1 h by (auto simp add: lmdb_ReadViews_def txn_simps a_read_views_def)
  next
    case 2
    obtain w where w: "?m (KView hoid ?E) = Some w" using has [of ?E] h(5) by auto
    have "vs ! (unat ?E - 1) = w" using h(5,6) w u64_index [OF h(5)] by (simp add: views_of_def u64_pos_iff del: of_nat_Suc)
    then have "vs \<noteq> []" "last vs = w" using h(5,6) by (auto simp: last_conv_nth u64_pos_iff simp flip: length_0_conv)
    then show ?thesis using 2 h w by (simp add: lmdb_ReadViews_def txn_simps a_read_views_def)
  next
    case 3
    have "lmdb_view_loop api (lm_db s) hoid (unat n) (of_nat (Suc (unat e - 1))) [] =
        Inr ([] @ map (\<lambda>i. (of_nat (Suc i), views_of ?m hoid ?E ! i)) (take (unat n) [unat e - 1..<unat ?E]))"
      using 3 by (intro view_loop [OF h(1) has]) (auto simp: word_le_nat_alt)
    then have "lmdb_view_loop api (lm_db s) hoid (unat n) e [] =
        Inr (map (\<lambda>i. (of_nat (Suc i), vs ! i)) (take (unat n) [unat e - 1..<unat ?E]))"
      unfolding u64_index [OF 3(1)] h(6) by simp
    moreover have "e \<noteq> 0" "\<not> ?E < e" using 3 by auto
    ultimately show ?thesis using h by (simp add: lmdb_ReadViews_def txn_simps a_read_views_def)
  qed
qed

end

section \<open>Proposals\<close>

lemma views_of_snoc:
  assumes "e = E + 1" and "e \<noteq> 0" and "\<And>i. i < unat E \<Longrightarrow> m' (KView hoid (of_nat (Suc i))) = m (KView hoid (of_nat (Suc i)))"
    and "m' (KView hoid e) = Some v"
  shows "views_of m' hoid e = views_of m hoid E @ [v]"
proof -
  have "unat e = Suc (unat E)" using assms(1,2) by (metis unatSuc add.commute)
  then have "[0..<unat e] = [0..<unat E] @ [unat E]" "of_nat (Suc (unat E)) = e" using assms(1) by simp_all
  then show ?thesis using assms(3,4) by (simp add: views_of_def del: of_nat_Suc)
qed

context mdb_store
begin

lemma commit_head:
  assumes "inv s" and "named_only (content db)" and "\<And>k. \<not> head_key hoid k \<Longrightarrow> kv db k = kv (lm_db s) k"
    and "kv (lm_db s) (KHead hoid) = Some v" and "kv db (KHead hoid) = Some v'" and "drop 16 v' = drop 16 v"
    and "lm_head_wf (kv db) hoid"
  defines "s' \<equiv> s\<lparr>lm_db := db\<rparr>"
  shows "inv s'" and "lm_obj content s' = lm_obj content s" and "lm_logs content s' = lm_logs content s"
    and "lm_views content s' = (lm_views content s)(hoid := lm_head_views (kv db) hoid)"
  using assms(1,2,7) head_frame [where m' = "kv db" and m = "kv (lm_db s)" and hoid = hoid, OF assms(3-6)]
  by (simp_all add: s'_def lm_inv_def lm_obj_def lm_views_def lm_logs_def)

lemma ProposeView_spec:
  assumes "inv s" and "lm_views content s hoid = Some vs"
  shows "fst (lmdb_ProposeView api hoid e view s) = fst (a_propose e view vs)"
    and "inv (snd (lmdb_ProposeView api hoid e view s))"
    and "lm_obj content (snd (lmdb_ProposeView api hoid e view s)) = lm_obj content s"
    and "lm_logs content (snd (lmdb_ProposeView api hoid e view s)) = lm_logs content s"
    and "lm_views content (snd (lmdb_ProposeView api hoid e view s)) =
      (lm_views content s)(hoid \<mapsto> snd (a_propose e view vs))"
proof -
  let ?m = "kv (lm_db s)" and ?r = "lmdb_ProposeView api hoid e view s"
  from views_some [OF assms] obtain v pj where h: "lm_is_head hoid" "hoid \<noteq> ''''" "?m (KHead hoid) = Some v" "get_proj v = Some pj"
    "0 < pj_epoch pj" "vs = views_of ?m hoid (pj_epoch pj)" "string_of_c (pj_prefix pj) = Some (''zlog.data.'' @ drop 10 hoid)"
    and has: "\<And>e. ?m (KView hoid e) \<noteq> None \<longleftrightarrow> 0 < e \<and> e \<le> pj_epoch pj" by metis
  let ?E = "pj_epoch pj"
  have "fst ?r = fst (a_propose e view vs) \<and> inv (snd ?r) \<and> lm_obj content (snd ?r) = lm_obj content s
      \<and> lm_logs content (snd ?r) = lm_logs content s
      \<and> lm_views content (snd ?r) = (lm_views content s)(hoid \<mapsto> snd (a_propose e view vs))"
  proof (cases "e \<noteq> 0 \<and> e = ?E + 1")
    case False
    then have "?r = (fst (a_propose e view vs), s)" "snd (a_propose e view vs) = vs"
      using h by (auto simp: lmdb_ProposeView_def a_propose_def txn_simps Let_def)
    then show ?thesis using assms by (simp add: fun_upd_idem)
  next
    case True
    then have e: "e \<noteq> 0" "?E + 1 = e" by auto
    have un: "unat e = Suc (unat ?E)" using True by (metis unatSuc add.commute)
    then have above: "?E < e" by (simp add: word_less_nat_alt)
    then have "?m (KView hoid e) = None" using has [of e] by auto
    let ?pj = "pj\<lparr>pj_epoch := e\<rparr>"
    let ?db = "upd hoid (Some (put_proj ?pj)) (upd (ProjectionKey hoid e) (Some view) (lm_db s))"
    have len: "length (pj_prefix pj) = 128" "drop 16 v = pj_prefix pj" using get_proj_SomeD [OF h(4)] by metis+
    have kv: "kv ?db = ?m(KView hoid e \<mapsto> view, KHead hoid \<mapsto> put_proj ?pj)" using h(1) by simp
    have r: "?r = (Inr (), s\<lparr>lm_db := ?db\<rparr>)"
      using e h(1-4) \<open>?m (KView hoid e) = None\<close> by (simp add: lmdb_ProposeView_def txn_simps Let_def)
    have "0 < x \<and> x \<le> e \<longleftrightarrow> x = e \<or> 0 < x \<and> x \<le> ?E" for x
      unfolding u64_pos_iff word_le_nat_alt u64_eq_iff using un by linarith
    then have "lm_head_wf (kv ?db) hoid"
      unfolding lm_head_wf_def kv using h(3,4,5,7) len has e(1) by (auto simp: word_gt_0)
    note c = commit_head [OF assms(1) _ _ h(3) _ _ this]
    have "named_only (content ?db)" using assms(1) h(1) by (simp add: lm_inv_def)
    moreover have "kv ?db k = ?m k" if "\<not> head_key hoid k" for k using that by (auto simp: kv)
    moreover have "kv ?db (KHead hoid) = Some (put_proj ?pj)" "drop 16 (put_proj ?pj) = drop 16 v" using len by (simp_all add: kv)
    ultimately have s': "inv (s\<lparr>lm_db := ?db\<rparr>)" "lm_obj content (s\<lparr>lm_db := ?db\<rparr>) = lm_obj content s"
      "lm_logs content (s\<lparr>lm_db := ?db\<rparr>) = lm_logs content s"
      "lm_views content (s\<lparr>lm_db := ?db\<rparr>) = (lm_views content s)(hoid := lm_head_views (kv ?db) hoid)"
      by (auto intro!: c)
    have "of_nat (Suc i) \<noteq> e" if "i < unat ?E" for i using suc_of_nat_le [OF that] above by auto
    then have "views_of (kv ?db) hoid e = views_of ?m hoid ?E @ [view]"
      using e by (intro views_of_snoc) (simp_all add: kv del: of_nat_Suc)
    then have "lm_head_views (kv ?db) hoid = Some (vs @ [view])"
      using len h(6) by (simp add: lm_head_views_def kv) (simp add: views_of_def)
    moreover have "a_propose e view vs = (Inr (), vs @ [view])" using e h(6) by (simp add: a_propose_def Let_def)
    ultimately show ?thesis using r s' by simp
  qed
  then show "fst ?r = fst (a_propose e view vs)" "inv (snd ?r)" "lm_obj content (snd ?r) = lm_obj content s"
    "lm_logs content (snd ?r) = lm_logs content s"
    "lm_views content (snd ?r) = (lm_views content s)(hoid \<mapsto> snd (a_propose e view vs))" by simp_all
qed

end

section \<open>Identifiers and the directory\<close>

lemma head_wf_None: "lm_head_wf m h \<Longrightarrow> m (KHead h) = None \<Longrightarrow> m (KView h e) = None"
  by (simp add: lm_head_wf_def)

text \<open>A new log: its head object, its first view and its name.\<close>

lemma create_frame:
  assumes wf: "lm_map_wf m" and pj: "get_proj pv = Some pj" "pj_epoch pj = 1"
      "string_of_c (pj_prefix pj) = Some (''zlog.data.'' @ u)"
    and h: "h = ''zlog.head.'' @ u" "string_of_c lv = Some h" "m (KHead h) = None" and name: "m (KLink name) = None"
    and m': "m' = m(KHead h \<mapsto> pv, KView h 1 \<mapsto> view, KLink name \<mapsto> lv)"
  shows "lm_map_wf m'" and "lm_aobj m' = lm_aobj m"
    and "lm_head_views m' = (lm_head_views m)(h \<mapsto> [view])"
    and "lm_links m' = (lm_links m)(name \<mapsto> (h, ''zlog.data.'' @ u))"
proof -
  have no_views: "m (KView h e) = None" for e using wf h(3) head_wf_None unfolding lm_map_wf_def by blast
  have one: "0 < e \<and> e \<le> 1 \<longleftrightarrow> e = 1" for e :: u64 by (simp add: word_le_nat_alt u64_pos_iff u64_eq_iff) linarith
  have wf1: "lm_head_wf m x" for x using wf by (simp add: lm_map_wf_def)
  have "lm_head_wf m' x" for x
  proof (cases "x = h")
    case True
    then show ?thesis using pj h no_views one by (auto simp: lm_head_wf_def m')
  next
    case False
    then show ?thesis using wf1 [of x] by (simp add: lm_head_wf_def m' cong: option.case_cong)
  qed
  moreover have "lm_link_wf m' x" for x
  proof (cases "x = name")
    case False
    have "lm_link_wf m x" using wf by (simp add: lm_map_wf_def)
    then show ?thesis using False unfolding lm_link_wf_def m' by (simp del: not_None_eq) (metis option.distinct(1))
  qed (use h(2) in \<open>simp add: lm_link_wf_def m'\<close>)
  ultimately show "lm_map_wf m'" using wf by (simp add: lm_map_wf_def lm_data_wf_def m' cong: option.case_cong)
  show "lm_aobj m' = lm_aobj m" by (simp add: fun_eq_iff lm_aobj_def lm_entries_def [abs_def] m')
  show "lm_head_views m' = (lm_head_views m)(h \<mapsto> [view])"
    using pj by (auto simp: fun_eq_iff lm_head_views_def m')
  have "lm_links m' x = lm_links m x" if "x \<noteq> name" for x
  proof (cases "m (KLink x)")
    case (Some v)
    then obtain k where "string_of_c v = Some k" "m (KHead k) \<noteq> None"
      using wf unfolding lm_map_wf_def lm_link_wf_def by blast
    then show ?thesis using Some that h(3) by (auto simp: lm_links_def m')
  qed (use that in \<open>simp add: lm_links_def m'\<close>)
  moreover have "drop 16 pv = pj_prefix pj" using get_proj_SomeD [OF pj(1)] by simp
  ultimately show "lm_links m' = (lm_links m)(name \<mapsto> (h, ''zlog.data.'' @ u))"
    using h(2) pj(3) by (auto simp: fun_eq_iff lm_links_def m')
qed

lemma links_some:
  assumes "lm_map_wf m" and "m (KLink name) = Some v"
  obtains h p pf where "string_of_c v = Some h" and "m (KHead h) = Some p" and "string_of_c (drop 16 p) = Some pf"
    and "lm_links m name = Some (h, pf)"
proof -
  obtain h p where h: "string_of_c v = Some h" "m (KHead h) = Some p"
    using assms unfolding lm_map_wf_def lm_link_wf_def by blast
  have "lm_head_wf m h" using assms(1) by (simp add: lm_map_wf_def)
  then obtain pj where "get_proj p = Some pj" "string_of_c (pj_prefix pj) = Some (''zlog.data.'' @ drop 10 h)"
    using h(2) by (auto simp: lm_head_wf_def)
  then have "string_of_c (drop 16 p) = Some (''zlog.data.'' @ drop 10 h)" using get_proj_SomeD by metis
  then show ?thesis using that [OF h] assms(2) h by (simp add: lm_links_def)
qed

context mdb_store
begin

lemmas link_keys = txn_Get_key [of "KLink n" for n, simplified key_bytes.simps key_valid.simps]
  txn_Put_key [of "KLink n" for n, simplified key_bytes.simps key_valid.simps]
  kv_upd [of "KLink n" for n, simplified key_bytes.simps key_valid.simps]
  named_upd [of "KLink n" for n, simplified key_bytes.simps key_valid.simps]

lemma uniqueId_spec:
  assumes "inv s" and "lm_is_head hoid"
  defines "s' \<equiv> snd (lmdb_uniqueId api hoid s)"
  shows "inv s' \<and> lm_obj content s' = lm_obj content s \<and> lm_views content s' = lm_views content s
    \<and> lm_logs content s' = lm_logs content s"
proof (cases "kv (lm_db s) (KHead hoid)")
  case None
  then show ?thesis using assms by (simp add: s'_def lmdb_uniqueId_def txn_simps)
next
  case (Some v)
  have wf: "lm_head_wf (kv (lm_db s)) hoid" by (rule inv_head [OF assms(1)])
  then obtain pj where pj: "get_proj v = Some pj" using Some by (auto simp: lm_head_wf_def)
  have px: "length (pj_prefix pj) = 128" "drop 16 v = pj_prefix pj" using get_proj_SomeD [OF pj] by metis+
  let ?pj = "pj\<lparr>pj_unique_id := pj_unique_id pj + 1\<rparr>"
  let ?db = "upd hoid (Some (put_proj ?pj)) (lm_db s)"
  have ne: "hoid \<noteq> ''''" using assms(2) by (auto simp: lm_is_head_def)
  have s': "s' = s\<lparr>lm_db := ?db\<rparr>" using Some pj ne assms(2) by (simp add: s'_def lmdb_uniqueId_def txn_simps Let_def)
  have kv: "kv ?db = (kv (lm_db s))(KHead hoid \<mapsto> put_proj ?pj)" using assms(2) by simp
  have g: "get_proj (put_proj ?pj) = Some ?pj" "drop 16 (put_proj ?pj) = drop 16 v" using px by simp_all
  have "lm_head_wf (kv ?db) hoid" using wf Some pj g(1) by (simp add: lm_head_wf_def kv)
  note c = commit_head [OF assms(1) _ _ Some _ g(2) this, folded s']
  have "named_only (content ?db)" using assms(1,2) by (simp add: lm_inv_def)
  moreover have "kv ?db k = kv (lm_db s) k" if "\<not> head_key hoid k" for k using that by (auto simp: kv)
  moreover have "kv ?db (KHead hoid) = Some (put_proj ?pj)" by (simp add: kv)
  moreover note c
  moreover have "lm_head_views (kv ?db) hoid = lm_views content s hoid"
    using Some pj g(1) by (simp add: lm_head_views_def lm_views_def kv)
  ultimately show ?thesis by (metis fun_upd_triv)
qed

end

context mdb_store
begin

lemma OpenLog_spec:
  assumes "inv s" and "lm_name_ok name"
  shows "lmdb_OpenLog api name s =
    (if name = '''' then Inl EINVAL else case lm_logs content s name of None \<Rightarrow> Inl ENOENT | Some r \<Rightarrow> Inr r)"
proof (cases "kv (lm_db s) (KLink name)")
  case None
  then show ?thesis
    using assms(2) by (simp add: lmdb_OpenLog_def txn_simps link_keys lm_logs_def lm_links_def del: append_Cons append_Nil)
next
  case (Some v)
  have wf: "lm_map_wf (kv (lm_db s))" using assms(1) by (simp add: lm_inv_def)
  from links_some [OF wf Some] obtain h p pf where l: "string_of_c v = Some h" "kv (lm_db s) (KHead h) = Some p"
    "string_of_c (drop 16 p) = Some pf" "lm_links (kv (lm_db s)) name = Some (h, pf)" by blast
  have "lm_is_head h" using l(2) by (simp add: lm_kv_def split: if_splits)
  then show ?thesis
    using Some assms(2) l by (simp add: lmdb_OpenLog_def txn_simps link_keys lm_logs_def del: append_Cons append_Nil)
qed

lemma CreateLog_spec:
  assumes "inv s" and "lm_name_ok name" and "lmdb_CreateLog api name view s = (rc, s')"
  shows "inv s' \<and> lm_obj content s' = lm_obj content s \<and> (\<forall>h vs. lm_views content s h = Some vs \<longrightarrow> lm_views content s' h = Some vs)
    \<and> (case rc of
         Inl err \<Rightarrow> lm_logs content s' = lm_logs content s
           \<and> (if name = '''' then err = EINVAL else err = EEXIST \<and> lm_logs content s name \<noteq> None \<or> err = EIO)
       | Inr (h, pf) \<Rightarrow> name \<noteq> '''' \<and> lm_logs content s name = None \<and> lm_logs content s' = (lm_logs content s)(name \<mapsto> (h, pf))
           \<and> lm_views content s h = None \<and> lm_views content s' h = Some [view])"
proof (cases "name = ''''")
  case True
  then show ?thesis using assms by (auto simp: lmdb_CreateLog_def)
next
  case False
  let ?m = "kv (lm_db s)" and ?u = "lm_uuids s (lm_next_uuid s)"
  let ?h = "''zlog.head.'' @ ?u" and ?pf = "''zlog.data.'' @ ?u"
  let ?s1 = "s\<lparr>lm_next_uuid := lm_next_uuid s + 1\<rparr>"
  have u: "uuid_ok ?u" and wf: "lm_map_wf ?m"
    and named: "named_only (content (lm_db s))"
    using assms(1) by (simp_all add: lm_inv_def)
  have head: "lm_is_head ?h" using u by (simp add: lm_is_head_def)
  have nul: "CHR 0x00 \<notin> set ?pf" "length ?pf < 128" "CHR 0x00 \<notin> set ?h" "length ?h < 128"
    using u by (simp_all add: uuid_ok_def)
  obtain pa where pa: "strcpy128 ?pf = Some pa" "length pa = 128" "string_of_c pa = Some ?pf"
    using strcpy128_string [OF nul(1,2)] by blast
  obtain la where la: "strcpy128 ?h = Some la" "string_of_c la = Some ?h"
    using strcpy128_string [OF nul(3,4)] by blast
  have s1: "inv ?s1" "lm_obj content ?s1 = lm_obj content s" "lm_views content ?s1 = lm_views content s"
    "lm_logs content ?s1 = lm_logs content s"
    using assms(1) by (auto simp: lm_inv_def lm_obj_def lm_views_def lm_logs_def)
  show ?thesis
  proof (cases "?m (KHead ?h)")
    case (Some v)
    then have "lmdb_CreateLog api name view s = (Inl EIO, ?s1)"
      using False head pa(1) by (simp add: lmdb_CreateLog_def txn_simps Let_def del: append_Cons append_Nil)
    then show ?thesis using assms(3) s1 False by auto
  next
    case fresh: None
    then have "?m (KView ?h 1) = None" using head_wf_None [OF inv_head [OF assms(1)]] by blast
    then have c: "lmdb_CreateLog api name view s =
        (if ?m (KLink name) \<noteq> None then (Inl EEXIST, ?s1)
         else (Inr (?h, ?pf), ?s1\<lparr>lm_db := upd (''head.'' @ name) (Some la) (upd (ProjectionKey ?h 1) (Some view)
                (upd ?h (Some (put_proj \<lparr>pj_epoch = 1, pj_unique_id = 0, pj_prefix = pa\<rparr>)) (lm_db s)))\<rparr>))"
      using False assms(2) head fresh pa(1) la(1)
      by (simp add: lmdb_CreateLog_def txn_simps link_keys Let_def del: append_Cons append_Nil)
    show ?thesis
    proof (cases "?m (KLink name)")
      case (Some v)
      then have "rc = Inl EEXIST" "s' = ?s1" using assms(3) c by simp_all
      moreover have "lm_logs content s name \<noteq> None"
        using links_some [OF wf Some] unfolding lm_logs_def by blast
      ultimately show ?thesis using s1 False by simp
    next
      case None
      let ?pj = "\<lparr>pj_epoch = 1, pj_unique_id = 0, pj_prefix = pa\<rparr>"
      let ?db = "upd (''head.'' @ name) (Some la) (upd (ProjectionKey ?h 1) (Some view) (upd ?h (Some (put_proj ?pj)) (lm_db s)))"
      have rc: "rc = Inr (?h, ?pf)" "s' = ?s1\<lparr>lm_db := ?db\<rparr>" using assms(3) c None by simp_all
      have kv: "kv ?db = ?m(KHead ?h \<mapsto> put_proj ?pj, KView ?h 1 \<mapsto> view, KLink name \<mapsto> la)"
        using head assms(2) by (simp add: link_keys del: append_Cons append_Nil)
      have "named_only (content ?db)" using head assms(2) named by (simp add: link_keys del: append_Cons append_Nil)
      note cf = create_frame [OF wf _ _ _ refl la(2) fresh None kv, of ?pj]
      have "lm_views content s ?h = None" using fresh by (simp add: lm_views_def lm_head_views_def)
      moreover have "lm_logs content s name = None" using None by (simp add: lm_logs_def lm_links_def)
      ultimately show ?thesis
        using cf pa \<open>named_only (content ?db)\<close> assms(1) False
        by (auto simp: rc lm_inv_def lm_obj_def lm_views_def lm_logs_def)
    qed
  qed
qed

end

text \<open>Creating a log fails with \<^verbatim>\<open>-EIO\<close> only when the new name was already taken.\<close>

context mdb_store
begin

lemma put_errors: "txn_Put api k v excl db = Inl e \<Longrightarrow> e = EEXIST \<or> e = Aborted"
  by (auto simp: txn_Put_def split: mdb_res.splits)

lemma CreateLog_EIO:
  assumes "inv s" and "kv (lm_db s) (KHead (''zlog.head.'' @ lm_uuids s (lm_next_uuid s))) = None"
  shows "fst (lmdb_CreateLog api name view s) \<noteq> Inl EIO"
proof -
  let ?h = "''zlog.head.'' @ lm_uuids s (lm_next_uuid s)"
  have "lm_is_head ?h" using assms(1) by (simp add: lm_inv_def lm_is_head_def)
  then show ?thesis
    using assms(2) put_errors
    by (auto simp: lmdb_CreateLog_def txn_simps Let_def simp del: append_Cons append_Nil split: option.split sum.split) blast+
qed

end

section \<open>The contract holds\<close>

sublocale mdb_store \<subseteq> lmdb: storage "lmdb_ops api" "lm_inv content" lm_is_data lm_is_head lm_name_ok lm_lim_ok
  "lm_obj content" "lm_views content" "lm_logs content"
proof (unfold_locales, goal_cases)
  case (1 s oid e p)
  then show ?case by (simp add: lmdb_ops_def Read_spec)
next
  case (2 s oid d e p)
  then show ?case using Write_refines [of s oid d e p] by (simp add: lmdb_ops_def lm_refines_def)
next
  case (3 s oid d e p r s')
  then show ?case using Write_refines [of s oid d e p] by (simp add: lmdb_ops_def lm_refines_def)
next
  case (4 s oid e p)
  then show ?case using Fill_refines [of s oid e p] by (simp add: lmdb_ops_def lm_refines_def)
next
  case (5 s oid e p r s')
  then show ?case using Fill_refines [of s oid e p] by (simp add: lmdb_ops_def lm_refines_def)
next
  case (6 s oid lim p e full)
  then show ?case using Trim_refines [of s oid lim p e full] by (simp add: lmdb_ops_def lm_refines_def)
next
  case (7 s oid lim p e full r s')
  then show ?case using Trim_refines [of s oid lim p e full] by (simp add: lmdb_ops_def lm_refines_def)
next
  case (8 s oid e)
  then show ?case using Seal_refines [of s oid e] by (simp add: lmdb_ops_def lm_refines_def)
next
  case (9 s oid e r s')
  then show ?case using Seal_refines [of s oid e] by (simp add: lmdb_ops_def lm_refines_def)
next
  case (10 s oid)
  then show ?case by (simp add: lmdb_ops_def MaxPos_spec)
next
  case (11 s hoid vs)
  then show ?case by (rule views_bounds)
next
  case (12 s hoid vs e n)
  then show ?case by (simp add: lmdb_ops_def ReadViews_spec)
next
  case (13 s hoid vs e v)
  then show ?case by (simp add: lmdb_ops_def ProposeView_spec)
next
  case (14 s hoid e v r s')
  then have s': "s' = snd (lmdb_ProposeView api hoid e v s)" by (simp add: lmdb_ops_def)
  show ?case
  proof (cases "lm_views content s hoid")
    case None
    have "kv (lm_db s) (KHead hoid) = None"
      using None inv_head [OF 14(1), of hoid] by (auto simp: lm_views_def lm_head_views_def lm_head_wf_def split: option.splits)
    then have "s' = s" using s' 14(2) by (simp add: lmdb_ProposeView_def txn_simps)
    then show ?thesis using 14(1) None by (simp add: fun_upd_idem)
  next
    case (Some vs)
    then show ?thesis using ProposeView_spec [OF 14(1) Some] s' by simp
  qed
next
  case (15 s name)
  then show ?case by (simp add: lmdb_ops_def OpenLog_spec)
next
  case (16 s name v rc s')
  then show ?case by (intro CreateLog_spec) (simp_all add: lmdb_ops_def)
next
  case (17 s hoid ru s')
  then have "s' = snd (lmdb_uniqueId api hoid s)" by (simp add: lmdb_ops_def)
  then show ?case using uniqueId_spec [OF 17(1,2)] by simp
qed

context mdb_store
begin

lemmas lm_write_once = lmdb.write_once_within
lemmas lm_sealed = lmdb.sealed_within
lemmas lm_propose_once = lmdb.propose_once_within

lemma lm_new_inv:
  assumes "\<And>i. uuid_ok (uuids i)" and "content db = Map.empty"
  shows "inv (lmdb_new db uuids)"
proof -
  have "kv db k = None" for k using assms(2) by (simp add: lm_kv_def)
  then show ?thesis
    using assms by (simp add: lm_inv_def lmdb_new_def named_only_def lm_map_wf_def lm_data_wf_def lm_head_wf_def lm_link_wf_def)
qed

end

section \<open>A library that behaves as documented\<close>

text \<open>An association list, newest binding first.\<close>

definition list_upd :: "string \<Rightarrow> string option \<Rightarrow> (string \<times> string) list \<Rightarrow> (string \<times> string) list" where
  "list_upd k x db = (case x of None \<Rightarrow> [] | Some v \<Rightarrow> [(k, v)]) @ filter (\<lambda>e. fst e \<noteq> k) db"

definition list_api :: "(string \<times> string) list mdb_api" where
  "list_api = \<lparr>mdb_env_open = (\<lambda>path size. MDB_SUCCESS []), mdb_txn_begin = (\<lambda>ro db. MDB_SUCCESS ()),
     mdb_get = (\<lambda>k db. case map_of db k of None \<Rightarrow> MDB_NOTFOUND | Some v \<Rightarrow> MDB_SUCCESS v),
     mdb_put = (\<lambda>k v excl db. if excl \<and> map_of db k \<noteq> None then MDB_KEYEXIST else MDB_SUCCESS (list_upd k (Some v) db)),
     mdb_del = (\<lambda>k db. if map_of db k = None then MDB_NOTFOUND else MDB_SUCCESS (list_upd k None db)),
     mdb_cursor = (\<lambda>db. if db = [] then MDB_NOTFOUND else MDB_SUCCESS (remdups (map fst db))),
     mdb_txn_commit = (\<lambda>db. MDB_SUCCESS ())\<rparr>"

lemma map_of_list_upd: "map_of (list_upd k x db) = (map_of db)(k := x)"
proof -
  have "map_of (filter (\<lambda>e. fst e \<noteq> k) db) = (map_of db)(k := None)" by (induction db) (auto simp: fun_eq_iff)
  then show ?thesis by (simp add: list_upd_def split: option.split)
qed

interpretation list_mdb: mdb_store list_api map_of list_upd
  by unfold_locales (auto simp: list_api_def map_of_list_upd dom_map_of_conv_image_fst)

end
