(* ===== verification/LMDB_Properties.thy ===== *)
theory LMDB_Properties
  imports LMDB_Backend RAM_Backend
begin

text \<open>
  What the LMDB backend promises to its callers, for every library that keeps to its documentation
  (\<^const>\<open>mdb_store\<close>).
\<close>

section \<open>An example\<close>

definition sample_oid :: string where
  "sample_oid = ''zlog.data.'' @ replicate 36 (CHR ''u'') @ ''.0.0''"

definition sample_uuid :: "nat \<Rightarrow> string" where
  "sample_uuid n = replicate 36 (CHR ''u'')"

definition empty_lmdb :: "(string \<times> string) list lmdb" where
  "empty_lmdb = lmdb_new [] sample_uuid"

definition sample_lmdb :: "(string \<times> string) list lmdb" where
  "sample_lmdb = snd (lmdb_Seal list_api sample_oid 1 empty_lmdb)"

lemma sample_split: "split_dots sample_oid = [''zlog'', ''data'', replicate 36 (CHR ''u''), ''0'', ''0'']"
proof -
  have eq: "sample_oid = ''zlog'' @ CHR ''.'' # (''data'' @ CHR ''.'' # (replicate 36 (CHR ''u'') @ CHR ''.'' # (''0'' @ CHR ''.'' # ''0'')))"
    by (simp add: sample_oid_def)
  show ?thesis unfolding eq split_dots_append by simp
qed

lemma sample_oid_data: "lm_is_data sample_oid"
  unfolding lm_is_data_def sample_split by (simp add: uuid_ok_def sample_oid_def)

lemma empty_lmdb_inv: "lm_inv map_of empty_lmdb"
  unfolding empty_lmdb_def by (rule list_mdb.lm_new_inv) (simp_all add: uuid_ok_def sample_uuid_def)

lemma empty_lmdb_obj: "lm_obj map_of empty_lmdb oid = None"
  by (simp add: lm_obj_def lm_aobj_def empty_lmdb_def lmdb_new_def lm_kv_def)

lemma sample_lmdb_ok: "lm_inv map_of sample_lmdb" "lm_obj map_of sample_lmdb sample_oid = Some (ao_init\<lparr>ao_epoch := 1\<rparr>)"
  using list_mdb.Seal_refines [OF empty_lmdb_inv sample_oid_data, of 1]
    list_mdb.data_nonempty [OF sample_oid_data]
  by (simp_all add: sample_lmdb_def lm_refines_def empty_lmdb_obj a_seal_def)

section \<open>Refinement\<close>

text \<open>C21. Every data call of the LMDB backend does to the object it names what the interface documents, returns the
  documented code, and touches no other object, no view and no log name; positions from 2^63 on cannot be trim
  limits.\<close>

theorem lmdb_implements_interface:
  assumes "mdb_store api content upd" and "lm_inv content s" and "lm_is_data oid" and "lim \<longrightarrow> lm_lim_ok p"
  shows "lm_refines content s oid (lmdb_Write api oid d e p s) (a_write oid d e p (lm_obj content s oid))
    \<and> lm_refines content s oid (lmdb_Fill api oid e p s) (a_fill oid e p (lm_obj content s oid))
    \<and> lm_refines content s oid (lmdb_Trim api oid e p lim full s) (a_trim oid e p lim full (lm_obj content s oid))
    \<and> lm_refines content s oid (lmdb_Seal api oid e s) (a_seal oid e (lm_obj content s oid))
    \<and> lmdb_Read api oid e p s = a_read oid e p (lm_obj content s oid)
    \<and> a_maxpos_ok oid (lm_obj content s oid) (lmdb_MaxPos api oid s)"
  using mdb_store.Write_refines [OF assms(1-3)] mdb_store.Fill_refines [OF assms(1-3)] mdb_store.Trim_refines [OF assms]
    mdb_store.Seal_refines [OF assms(1-3)] mdb_store.Read_spec [OF assms(1-3)] mdb_store.MaxPos_spec [OF assms(1-3)] by blast

theorem lmdb_implements_interface_witness:
  "lm_refines map_of sample_lmdb sample_oid (lmdb_Trim list_api sample_oid 1 5 True True sample_lmdb)
     (a_trim sample_oid 1 5 True True (lm_obj map_of sample_lmdb sample_oid))"
  using lmdb_implements_interface [OF list_mdb.mdb_store_axioms sample_lmdb_ok(1) sample_oid_data, of True 5]
  by (simp add: lm_lim_ok_def)

section \<open>Equivalence of the two backends\<close>

fun data_call_ok :: "call \<Rightarrow> bool" where
  "data_call_ok (CWrite oid d e p) \<longleftrightarrow> lm_is_data oid"
| "data_call_ok (CFill oid e p) \<longleftrightarrow> lm_is_data oid"
| "data_call_ok (CTrim oid e p lim full) \<longleftrightarrow> lm_is_data oid \<and> (lim \<longrightarrow> lm_lim_ok p)"
| "data_call_ok (CSeal oid e) \<longleftrightarrow> lm_is_data oid"
| "data_call_ok _ \<longleftrightarrow> False"

definition same_objects :: "('db \<Rightarrow> string \<rightharpoonup> string) \<Rightarrow> 'db lmdb \<Rightarrow> ram \<Rightarrow> bool" where
  "same_objects content s t \<longleftrightarrow> lm_inv content s \<and> ram_inv t \<and> (\<forall>oid. lm_is_data oid \<longrightarrow> lm_obj content s oid = ram_obj t oid)"

lemma data_of_both: "lm_is_data oid \<Longrightarrow> ram_is_data oid"
proof (erule data_split)
  fix u i j
  assume "split_dots oid = [''zlog'', ''data'', u, i, j]"
  moreover have "CHR ''.'' \<notin> set x" if "x \<in> set (split_dots y)" for x y
    using that by (induction y arbitrary: x) (auto split: if_splits dest: list.set_sel(2) [rotated])
  ultimately have "CHR ''.'' \<notin> set u" "CHR ''.'' \<notin> set i" "CHR ''.'' \<notin> set j"
    by (metis list.set_intros)+
  then have "split_dots (''zlog'' @ CHR ''.'' # (''data'' @ CHR ''.'' # (u @ CHR ''.'' # (i @ CHR ''.'' # j))))
      = [''zlog'', ''data'', u, i, j]"
    by (simp only: split_dots_append) simp
  with \<open>split_dots oid = _\<close> have "oid = ''zlog'' @ CHR ''.'' # (''data'' @ CHR ''.'' # (u @ CHR ''.'' # (i @ CHR ''.'' # j)))"
    using split_dots_eq by metis
  then show ?thesis by (simp add: ram_is_data_def starts_with_def)
qed

lemma same_data_call:
  assumes "mdb_store api content upd" and "same_objects content s t" and "data_call_ok c"
  shows "same_objects content (run_call (lmdb_ops api) c s) (run_call ram_ops c t)"
proof -
  note inv = assms(2) [unfolded same_objects_def]
  have upd: "same_objects content (snd r) (snd r')"
    if "lm_is_data oid" "lm_refines content s oid r a" "ram_refines t oid r' a" for oid r r' a
    using that inv by (auto simp: same_objects_def lm_refines_def ram_refines_def)
  have ob: "lm_obj content s oid = ram_obj t oid" if "lm_is_data oid" for oid using that inv by blast
  note i = conjunct1 [OF inv] conjunct1 [OF conjunct2 [OF inv]]
  show ?thesis
  proof (cases c)
    case (CWrite oid d e p)
    then have d: "lm_is_data oid" using assms(3) by simp
    show ?thesis
      using upd [OF d mdb_store.Write_refines [OF assms(1) i(1) d, unfolded ob [OF d]] ram_Write_refines [OF i(2) data_of_both [OF d]]]
      by (simp add: CWrite lmdb_ops_def ram_ops_def)
  next
    case (CFill oid e p)
    then have d: "lm_is_data oid" using assms(3) by simp
    show ?thesis
      using upd [OF d mdb_store.Fill_refines [OF assms(1) i(1) d, unfolded ob [OF d]] ram_Fill_refines [OF i(2) data_of_both [OF d]]]
      by (simp add: CFill lmdb_ops_def ram_ops_def)
  next
    case (CTrim oid e p lim full)
    then have d: "lm_is_data oid" "lim \<longrightarrow> lm_lim_ok p" using assms(3) by simp_all
    show ?thesis
      using upd [OF d(1) mdb_store.Trim_refines [OF assms(1) i(1) d, unfolded ob [OF d(1)]] ram_Trim_refines [OF i(2) data_of_both [OF d(1)]]]
      by (simp add: CTrim lmdb_ops_def ram_ops_def)
  next
    case (CSeal oid e)
    then have d: "lm_is_data oid" using assms(3) by simp
    show ?thesis
      using upd [OF d mdb_store.Seal_refines [OF assms(1) i(1) d, unfolded ob [OF d]] ram_Seal_refines [OF i(2) data_of_both [OF d]]]
      by (simp add: CSeal lmdb_ops_def ram_ops_def)
  qed (use assms(3) in simp_all)
qed

lemma same_data_calls:
  "mdb_store api content upd \<Longrightarrow> same_objects content s t \<Longrightarrow> list_all data_call_ok cs \<Longrightarrow>
   same_objects content (run_calls (lmdb_ops api) cs s) (run_calls ram_ops cs t)"
  by (induction cs arbitrary: s t) (simp_all add: run_calls_def same_data_call)


lemma sample_same: "same_objects map_of empty_lmdb (ram_new show_nat)"
proof -
  have "inj show_nat" by (rule inj_on_inverseI [where g = read_dec]) simp
  then show ?thesis using empty_lmdb_inv by (simp add: same_objects_def ram_new_inv empty_lmdb_obj) (simp add: ram_obj_def ram_new_def)
qed


section \<open>Logs\<close>

text \<open>A log that was just created can be opened by its name, has the given view as its first, and does not disturb the
  other logs; creating it again is refused.\<close>

lemma lmdb_create_then_open:
  assumes "mdb_store api content upd" and "lm_inv content s" and "lm_name_ok name"
    and "lmdb_CreateLog api name v s = (Inr (h, pf), s')"
  shows "lmdb_OpenLog api name s' = Inr (h, pf) \<and> lmdb_ReadViews api h 0 1 s' = Inr [(1, v)]
    \<and> fst (lmdb_CreateLog api name v' s') \<in> {Inl EEXIST, Inl EIO}
    \<and> (\<forall>name'. lm_name_ok name' \<longrightarrow> name' \<noteq> name \<longrightarrow> lmdb_OpenLog api name' s' = lmdb_OpenLog api name' s)"
proof -
  note c = mdb_store.CreateLog_spec [OF assms(1-4), simplified]
  note o = mdb_store.OpenLog_spec [OF assms(1)]
  have "lmdb_ReadViews api h 0 1 s' = Inr [(1, v)]"
    using mdb_store.ReadViews_spec [OF assms(1), of s' h "[v]" 0 1] c by (simp add: a_read_views_def)
  moreover have "fst (lmdb_CreateLog api name v' s') \<in> {Inl EEXIST, Inl EIO}"
  proof -
    obtain r t where r: "lmdb_CreateLog api name v' s' = (r, t)" by force
    show ?thesis using mdb_store.CreateLog_spec [OF assms(1) _ assms(3) r] c r by (cases r) auto
  qed
  ultimately show ?thesis using c assms(2,3) by (auto simp: o)
qed

lemma lmdb_create_then_open_witness:
  "\<exists>h pf s. lmdb_CreateLog list_api ''log'' ''view1'' empty_lmdb = (Inr (h, pf), s)
     \<and> lmdb_OpenLog list_api ''log'' s = Inr (h, pf) \<and> lmdb_ReadViews list_api h 0 1 s = Inr [(1, ''view1'')]"
proof -
  obtain rc s where rc: "lmdb_CreateLog list_api ''log'' ''view1'' empty_lmdb = (rc, s)" by force
  have n: "lm_name_ok ''log''" by (simp add: lm_name_ok_def)
  have "lm_logs map_of empty_lmdb ''log'' = None" by (simp add: lm_logs_def lm_links_def lm_kv_def empty_lmdb_def lmdb_new_def)
  moreover have "rc \<noteq> Inl EIO"
    using list_mdb.CreateLog_EIO [OF empty_lmdb_inv, of "''log''" "''view1''"] rc by (simp add: lm_kv_def empty_lmdb_def lmdb_new_def)
  ultimately obtain h pf where "rc = Inr (h, pf)"
    using list_mdb.CreateLog_spec [OF empty_lmdb_inv n rc] by (cases rc) auto
  with rc lmdb_create_then_open [OF list_mdb.mdb_store_axioms empty_lmdb_inv n, of "''view1''" h pf s]
  show ?thesis by blast
qed

section \<open>Large positions\<close>

text \<open>The trim limit is stored as a signed number: asked to make a position from 2^63 on the limit of an object, the backend
  fails its own assertion, although the call is well formed and the object accepts it.\<close>

lemma lmdb_large_limit_aborts:
  assumes "mdb_store api content upd" and "lm_inv content s" and "lm_is_data oid" and "0 < e"
    and "lm_obj content s oid = Some x" and "ao_epoch x \<le> e" and "\<not> lm_lim_ok p"
  shows "lmdb_Trim api oid e p True False s = (Inl Aborted, s) \<and> fst (a_trim oid e p True False (Some x)) = Inr ()"
proof -
  have ne: "oid \<noteq> ''''" by (rule mdb_store.data_nonempty [OF assms(1,3)])
  have e: "e \<noteq> 0" "\<not> e < ao_epoch x" using assms(4,6) by auto
  then have g: "a_guard oid e (lm_obj content s oid) = Inr x" using ne assms(5) by (simp add: a_guard_def)
  from assms(1-3) show ?thesis
  proof (rule mdb_store.guard_cases [where e = e])
    fix r
    assume "a_guard oid e (lm_obj content s oid) = Inl r"
    then show ?thesis using g by simp
  next
    fix v l
    assume l: "lmdb_CheckEpoch api (lm_db s) e oid False = Inr ()" "lm_kv content (lm_db s) (KLog oid) = Some v" "get_log v = Some l"
    let ?l = "limited True p l"
    have "\<not> has_limit ?l"
      using assms(7) by (auto simp: limited_def has_limit_def lm_lim_ok_def nonneg_u64 word_le_nat_alt max_def)
    then have "lmdb_Trim api oid e p True False s = (Inl Aborted, s)"
      using l ne e assms(3) by (simp add: lmdb_Trim_def mdb_store.txn_simps [OF assms(1)] mdb_store.get_keys [OF assms(1)]
          mdb_store.put_keys [OF assms(1)] limited_def Let_def)
    then show ?thesis using g assms(5) by (simp add: a_trim_def Let_def)
  qed
qed

lemma lmdb_large_limit_aborts_witness:
  "lmdb_Trim list_api sample_oid 1 9223372036854775808 True False sample_lmdb = (Inl Aborted, sample_lmdb)"
  using lmdb_large_limit_aborts [OF list_mdb.mdb_store_axioms sample_lmdb_ok(1) sample_oid_data _ sample_lmdb_ok(2),
      of 1 9223372036854775808]
  by (simp add: lm_lim_ok_def nonneg_u64)

end
