(* ===== verification/Cls_Zlog.thy ===== *)
theory Cls_Zlog
  imports Backend
begin

text \<open>
  The object class of \<^verbatim>\<open>storage/ceph/cls_zlog.cc\<close> and \<^verbatim>\<open>cls_zlog.h\<close>: the methods that run inside the storage servers, each atomically on
  one object. What the servers offer to a class is the record \<open>cls_api\<close> over an arbitrary type of objects, the flatbuffers encoders and
  verifiers of the tables of \<^verbatim>\<open>cls_zlog.fbs\<close> are the record \<open>cls_codec\<close>; both are parameters. A member that a constructor leaves
  indeterminate is 0 or false.
\<close>

section \<open>Tables\<close>

type_synonym s32 = "32 word"

record fbs_entry =
  fe_invalid :: bool
  fe_bytestream :: bool
  fe_data :: "string option"
  fe_offset :: u32
  fe_length :: u32

record fbs_header =
  fh_epoch :: u64
  fh_empty :: bool
  fh_max_pos :: u64
  fh_omap_max_size :: s32
  fh_trim_limit :: u64

record fbs_head =
  fd_epoch :: u64
  fd_prefix :: "string option"

record fbs_cls_view =
  fw_epoch :: u64
  fw_data :: "string option"

record fbs_read_op =
  ro_epoch :: u64
  ro_position :: u64

record fbs_write_op =
  wo_epoch :: u64
  wo_position :: u64
  wo_data :: "string option"

record fbs_invalidate_op =
  io_epoch :: u64
  io_position :: u64
  io_force :: bool
  io_limit :: bool

record fbs_seal_op =
  so_epoch :: u64
  so_omap_max_size :: s32

record fbs_maxpos_reply =
  mr_empty :: bool
  mr_position :: u64

record fbs_create_view_op =
  co_epoch :: u64
  co_data :: "string option"

record fbs_read_views_op =
  vo_epoch :: u64
  vo_max_views :: u32

record 'a fbs_codec =
  fb_encode :: "'a \<Rightarrow> string"
  fb_decode :: "string \<Rightarrow> 'a option"

record cls_codec =
  c_entry :: "fbs_entry fbs_codec"
  c_header :: "fbs_header fbs_codec"
  c_head :: "fbs_head fbs_codec"
  c_views :: "fbs_cls_view list option fbs_codec"
  c_unique :: "u64 fbs_codec"
  c_link :: "string option fbs_codec"
  c_read :: "fbs_read_op fbs_codec"
  c_write :: "fbs_write_op fbs_codec"
  c_invalidate :: "fbs_invalidate_op fbs_codec"
  c_seal :: "fbs_seal_op fbs_codec"
  c_maxpos :: "unit fbs_codec"
  c_maxpos_reply :: "fbs_maxpos_reply fbs_codec"
  c_init_head :: "string option fbs_codec"
  c_create_view :: "fbs_create_view_op fbs_codec"
  c_read_views :: "fbs_read_views_op fbs_codec"

section \<open>What the server offers\<close>

record 'o cls_api =
  cx_getxattr :: "string \<Rightarrow> 'o \<Rightarrow> string ret"
  cx_setxattr :: "string \<Rightarrow> string \<Rightarrow> 'o \<Rightarrow> 'o ret"
  cx_map_get_val :: "string \<Rightarrow> 'o \<Rightarrow> string ret"
  cx_map_set_val :: "string \<Rightarrow> string \<Rightarrow> 'o \<Rightarrow> 'o ret"
  cx_stat :: "'o \<Rightarrow> u64 ret"
  cx_read :: "u32 \<Rightarrow> u32 \<Rightarrow> 'o \<Rightarrow> string ret"
  cx_write :: "u32 \<Rightarrow> u32 \<Rightarrow> string \<Rightarrow> 'o \<Rightarrow> 'o ret"

text \<open>A method gets its input and the object, and returns its output and the object.\<close>

type_synonym 'o cls_method = "cls_codec \<Rightarrow> 'o cls_api \<Rightarrow> string \<Rightarrow> 'o \<Rightarrow> string ret \<times> 'o"

section \<open>Classes of the header file\<close>

definition u64tostr :: "u64 \<Rightarrow> string \<Rightarrow> string" where
  "u64tostr value prefix = prefix @ replicate (20 - length (show_u64 value)) (CHR ''0'') @ show_u64 value"

subsection \<open>LogObjectHeader\<close>

record log_header =
  lh_epoch :: u64
  lh_empty :: bool
  lh_max_pos :: u64
  lh_omap_max_size :: s32
  lh_trim_limit :: "u64 option"

definition log_header_new :: log_header where
  "log_header_new = \<lparr>lh_epoch = 0, lh_empty = True, lh_max_pos = 0, lh_omap_max_size = - 1, lh_trim_limit = None\<rparr>"

definition header_read :: "cls_codec \<Rightarrow> 'o cls_api \<Rightarrow> 'o \<Rightarrow> log_header ret" where
  "header_read codec api ob =
     (case cx_getxattr api ''zlog.data.header'' ob of
        Inl e \<Rightarrow> if e = ENODATA then Inl EIO else Inl e
      | Inr bl \<Rightarrow>
          (case fb_decode (c_header codec) bl of
             None \<Rightarrow> Inl EIO
           | Some header \<Rightarrow>
               Inr \<lparr>lh_epoch = fh_epoch header, lh_empty = fh_empty header, lh_max_pos = fh_max_pos header,
                 lh_omap_max_size = fh_omap_max_size header,
                 lh_trim_limit = (if 0 \<le> sint (fh_trim_limit header) then Some (fh_trim_limit header) else None)\<rparr>))"

definition header_fbs :: "log_header \<Rightarrow> fbs_header" where
  "header_fbs h = \<lparr>fh_epoch = lh_epoch h, fh_empty = lh_empty h, fh_max_pos = lh_max_pos h,
     fh_omap_max_size = lh_omap_max_size h,
     fh_trim_limit = (case lh_trim_limit h of Some l \<Rightarrow> l | None \<Rightarrow> - 1)\<rparr>"

definition header_write :: "cls_codec \<Rightarrow> 'o cls_api \<Rightarrow> log_header \<Rightarrow> 'o \<Rightarrow> 'o ret" where
  "header_write codec api h ob = cx_setxattr api ''zlog.data.header'' (fb_encode (c_header codec) (header_fbs h)) ob"

definition epoch_guard :: "u64 \<Rightarrow> log_header \<Rightarrow> unit ret" where
  "epoch_guard epoch h =
     (if epoch < 1 then Inl EINVAL else if epoch < lh_epoch h then Inl ESPIPE else Inr ())"

definition header_max_pos :: "log_header \<Rightarrow> u64 option" where
  "header_max_pos h = (if \<not> lh_empty h then Some (lh_max_pos h) else None)"

definition update_max_pos :: "u64 \<Rightarrow> log_header \<Rightarrow> bool \<times> log_header" where
  "update_max_pos pos h =
     (case header_max_pos h of
        Some m \<Rightarrow> if m < pos then (True, h\<lparr>lh_max_pos := pos, lh_empty := False\<rparr>) else (False, h)
      | None \<Rightarrow> (True, h\<lparr>lh_max_pos := pos, lh_empty := False\<rparr>))"

definition header_omap_max_size :: "log_header \<Rightarrow> u32 option" where
  "header_omap_max_size h = (if 0 \<le> sint (lh_omap_max_size h) then Some (lh_omap_max_size h) else None)"

definition update_trim_limit :: "u64 \<Rightarrow> log_header \<Rightarrow> bool \<times> log_header" where
  "update_trim_limit position h =
     (if (case lh_trim_limit h of None \<Rightarrow> True | Some l \<Rightarrow> l < position)
      then (True, snd (update_max_pos position (h\<lparr>lh_trim_limit := Some position\<rparr>)))
      else (False, h))"

definition position_trimmed :: "u64 \<Rightarrow> log_header \<Rightarrow> bool" where
  "position_trimmed position h = (case lh_trim_limit h of None \<Rightarrow> False | Some l \<Rightarrow> position \<le> l)"

subsection \<open>LogEntry\<close>

record cls_entry =
  ce_key :: string
  ce_exists :: "bool option"
  ce_invalid :: bool
  ce_bytestream :: bool
  ce_data :: string
  ce_offset :: u32
  ce_length :: u32

definition cls_entry_new :: "u64 \<Rightarrow> cls_entry" where
  "cls_entry_new pos = \<lparr>ce_key = u64tostr pos ''zlog.data.entry.'', ce_exists = None, ce_invalid = False,
     ce_bytestream = False, ce_data = '''', ce_offset = 0, ce_length = 0\<rparr>"

definition entry_read :: "cls_codec \<Rightarrow> 'o cls_api \<Rightarrow> cls_entry \<Rightarrow> 'o \<Rightarrow> cls_entry ret" where
  "entry_read codec api en ob =
     (if ce_exists en \<noteq> None then Inl Aborted
      else case cx_map_get_val api (ce_key en) ob of
        Inl e \<Rightarrow> if e = ENOENT then Inr (en\<lparr>ce_exists := Some False\<rparr>) else Inl e
      | Inr bl \<Rightarrow>
          (case fb_decode (c_entry codec) bl of
             None \<Rightarrow> Inl EIO
           | Some entry \<Rightarrow>
               Inr (en\<lparr>ce_invalid := fe_invalid entry, ce_bytestream := fe_bytestream entry,
                 ce_data := (case fe_data entry of Some d \<Rightarrow> d | None \<Rightarrow> ce_data en),
                 ce_offset := fe_offset entry, ce_length := fe_length entry, ce_exists := Some True\<rparr>)))"

definition entry_write :: "cls_codec \<Rightarrow> 'o cls_api \<Rightarrow> cls_entry \<Rightarrow> 'o \<Rightarrow> 'o ret" where
  "entry_write codec api en ob =
     cx_map_set_val api (ce_key en) (fb_encode (c_entry codec)
       \<lparr>fe_invalid = ce_invalid en, fe_bytestream = ce_bytestream en, fe_data = Some (ce_data en),
        fe_offset = ce_offset en, fe_length = ce_length en\<rparr>) ob"

text \<open>\<^verbatim>\<open>data.size()\<close> is compared as a 64-bit number; offset and length are members of 32 bits. An error of the write is returned after
  the flag has been set.\<close>

definition set_data :: "'o cls_api \<Rightarrow> string \<Rightarrow> u32 option \<Rightarrow> cls_entry \<Rightarrow> 'o \<Rightarrow> (cls_entry \<times> 'o) ret" where
  "set_data api data omap_max_size en ob =
     (if ce_offset en \<noteq> 0 \<or> ce_length en \<noteq> 0 \<or> ce_data en \<noteq> '''' then Inl Aborted
      else if (case omap_max_size of None \<Rightarrow> False | Some m \<Rightarrow> unat m \<le> length data) then
        (case cx_stat api ob of
           Inl e \<Rightarrow> Inl e
         | Inr obj_size \<Rightarrow>
             let offset = ucast obj_size; len = of_nat (length data)
             in case cx_write api offset len data ob of
                  Inl e \<Rightarrow> Inl e
                | Inr ob1 \<Rightarrow> Inr (en\<lparr>ce_offset := offset, ce_length := len, ce_bytestream := True\<rparr>, ob1))
      else Inr (en\<lparr>ce_bytestream := False, ce_data := data\<rparr>, ob))"

definition entry_read_data :: "'o cls_api \<Rightarrow> cls_entry \<Rightarrow> 'o \<Rightarrow> string ret" where
  "entry_read_data api en ob =
     (if ce_exists en \<noteq> Some True then Inl Aborted
      else if ce_bytestream en then
        if ce_data en \<noteq> '''' then Inl EIO
        else if ce_length en = 0 then Inr ''''
        else cx_read api (ce_offset en) (ce_length en) ob
      else
        if ce_offset en \<noteq> 0 \<or> ce_length en \<noteq> 0 then Inl EIO
        else Inr (ce_data en))"

subsection \<open>HeadObject\<close>

record cls_head =
  hd_epoch :: u64
  hd_prefix :: string

definition head_initialize :: "cls_codec \<Rightarrow> 'o cls_api \<Rightarrow> 'o \<Rightarrow> cls_head ret" where
  "head_initialize codec api ob =
     (case cx_getxattr api ''zlog.head.header'' ob of
        Inl e \<Rightarrow> if e = ENODATA then Inl EIO else Inl e
      | Inr bl \<Rightarrow>
          (case fb_decode (c_head codec) bl of
             None \<Rightarrow> Inl EIO
           | Some header \<Rightarrow>
               (case fd_prefix header of
                  None \<Rightarrow> Inl EIO
                | Some prefix \<Rightarrow>
                    if prefix = '''' then Inl EIO
                    else Inr \<lparr>hd_epoch = fd_epoch header, hd_prefix = prefix\<rparr>)))"

definition head_finalize :: "cls_codec \<Rightarrow> 'o cls_api \<Rightarrow> cls_head \<Rightarrow> 'o \<Rightarrow> 'o ret" where
  "head_finalize codec api h ob =
     cx_setxattr api ''zlog.head.header''
       (fb_encode (c_head codec) \<lparr>fd_epoch = hd_epoch h, fd_prefix = Some (c_str (hd_prefix h))\<rparr>) ob"

definition head_set_epoch :: "u64 \<Rightarrow> cls_head \<Rightarrow> cls_head ret" where
  "head_set_epoch epoch h =
     (let required_epoch = hd_epoch h + 1
      in if epoch = required_epoch then Inr (h\<lparr>hd_epoch := epoch\<rparr>)
         else if required_epoch < epoch then Inl EINVAL
         else Inl ESPIPE)"

definition view_key :: "u64 \<Rightarrow> string" where
  "view_key epoch = u64tostr epoch ''zlog.head.view.''"

definition head_write_view :: "'o cls_api \<Rightarrow> cls_head \<Rightarrow> string \<Rightarrow> 'o \<Rightarrow> 'o ret" where
  "head_write_view api h data ob = cx_map_set_val api (view_key (hd_epoch h)) data ob"

definition head_read_view :: "'o cls_api \<Rightarrow> u64 \<Rightarrow> 'o \<Rightarrow> string ret" where
  "head_read_view api epoch ob = cx_map_get_val api (view_key epoch) ob"

section \<open>Methods on log objects\<close>

definition log_entry_read :: "'o cls_method" where
  "log_entry_read codec api inp ob =
     (case fb_decode (c_read codec) inp of
        None \<Rightarrow> (Inl EINVAL, ob)
      | Some op \<Rightarrow>
          (case header_read codec api ob of
             Inl e \<Rightarrow> (Inl e, ob)
           | Inr header \<Rightarrow>
               (case epoch_guard (ro_epoch op) header of
                  Inl e \<Rightarrow> (Inl e, ob)
                | Inr _ \<Rightarrow>
                    if position_trimmed (ro_position op) header then (Inl ENODATA, ob)
                    else
                      (case entry_read codec api (cls_entry_new (ro_position op)) ob of
                         Inl e \<Rightarrow> (Inl e, ob)
                       | Inr entry \<Rightarrow>
                           if ce_exists entry \<noteq> Some True then (Inl ERANGE, ob)
                           else if ce_invalid entry then (Inl ENODATA, ob)
                           else (entry_read_data api entry ob, ob)))))"

definition write_max_pos :: "cls_codec \<Rightarrow> 'o cls_api \<Rightarrow> u64 \<Rightarrow> log_header \<Rightarrow> 'o \<Rightarrow> string ret \<times> 'o" where
  "write_max_pos codec api position header ob =
     (let (changed, header1) = update_max_pos position header
      in if changed then
           (case header_write codec api header1 ob of
              Inl e \<Rightarrow> (Inl e, ob)
            | Inr ob1 \<Rightarrow> (Inr '''', ob1))
         else (Inr '''', ob))"

definition log_entry_write :: "'o cls_method" where
  "log_entry_write codec api inp ob =
     (case fb_decode (c_write codec) inp of
        None \<Rightarrow> (Inl EINVAL, ob)
      | Some op \<Rightarrow>
          (case header_read codec api ob of
             Inl e \<Rightarrow> (Inl e, ob)
           | Inr header \<Rightarrow>
               (case epoch_guard (wo_epoch op) header of
                  Inl e \<Rightarrow> (Inl e, ob)
                | Inr _ \<Rightarrow>
                    if position_trimmed (wo_position op) header then (Inl EROFS, ob)
                    else
                      (case entry_read codec api (cls_entry_new (wo_position op)) ob of
                         Inl e \<Rightarrow> (Inl e, ob)
                       | Inr entry \<Rightarrow>
                           if ce_exists entry = Some True then (Inl EROFS, ob)
                           else
                             let blob = (case wo_data op of Some d \<Rightarrow> d | None \<Rightarrow> '''')
                             in (case set_data api blob (header_omap_max_size header) entry ob of
                                   Inl e \<Rightarrow> (Inl e, ob)
                                 | Inr (entry1, ob1) \<Rightarrow>
                                     (case entry_write codec api entry1 ob1 of
                                        Inl e \<Rightarrow> (Inl e, ob1)
                                      | Inr ob2 \<Rightarrow> write_max_pos codec api (wo_position op) header ob2))))))"

definition log_entry_invalidate :: "'o cls_method" where
  "log_entry_invalidate codec api inp ob =
     (case fb_decode (c_invalidate codec) inp of
        None \<Rightarrow> (Inl EINVAL, ob)
      | Some op \<Rightarrow>
          if io_limit op \<and> \<not> io_force op then (Inl EIO, ob)
          else
            (case header_read codec api ob of
               Inl e \<Rightarrow> (Inl e, ob)
             | Inr header \<Rightarrow>
                 (case epoch_guard (io_epoch op) header of
                    Inl e \<Rightarrow> (Inl e, ob)
                  | Inr _ \<Rightarrow>
                      if io_limit op then
                        let (changed, header1) = update_trim_limit (io_position op) header
                        in if changed then
                             (case header_write codec api header1 ob of
                                Inl e \<Rightarrow> (Inl e, ob)
                              | Inr ob1 \<Rightarrow> (Inr '''', ob1))
                           else (Inr '''', ob)
                      else if position_trimmed (io_position op) header then (Inr '''', ob)
                      else
                        (case entry_read codec api (cls_entry_new (io_position op)) ob of
                           Inl e \<Rightarrow> (Inl e, ob)
                         | Inr entry \<Rightarrow>
                             if ce_exists entry = Some True \<and> ce_invalid entry then (Inr '''', ob)
                             else if ce_exists entry = Some True \<and> \<not> io_force op then (Inl EROFS, ob)
                             else
                               (case entry_write codec api (entry\<lparr>ce_invalid := True\<rparr>) ob of
                                  Inl e \<Rightarrow> (Inl e, ob)
                                | Inr ob1 \<Rightarrow> write_max_pos codec api (io_position op) header ob1)))))"

definition log_entry_seal :: "'o cls_method" where
  "log_entry_seal codec api inp ob =
     (case fb_decode (c_seal codec) inp of
        None \<Rightarrow> (Inl EINVAL, ob)
      | Some op \<Rightarrow>
          if so_epoch op < 1 then (Inl EINVAL, ob)
          else
            let write = (\<lambda>header.
              (case header_write codec api
                  (header\<lparr>lh_omap_max_size := so_omap_max_size op, lh_epoch := so_epoch op\<rparr>) ob of
                 Inl e \<Rightarrow> (Inl e, ob)
               | Inr ob1 \<Rightarrow> (Inr '''', ob1)))
            in (case header_read codec api ob of
                  Inl e \<Rightarrow> if e \<noteq> ENOENT then (Inl e, ob) else write log_header_new
                | Inr header \<Rightarrow>
                    if so_epoch op \<le> lh_epoch header then (Inl ESPIPE, ob) else write header))"

definition log_entry_max_position :: "'o cls_method" where
  "log_entry_max_position codec api inp ob =
     (case fb_decode (c_maxpos codec) inp of
        None \<Rightarrow> (Inl EINVAL, ob)
      | Some _ \<Rightarrow>
          (case header_read codec api ob of
             Inl e \<Rightarrow> (Inl e, ob)
           | Inr header \<Rightarrow>
               (Inr (fb_encode (c_maxpos_reply codec)
                  (case header_max_pos header of
                     Some p \<Rightarrow> \<lparr>mr_empty = False, mr_position = p\<rparr>
                   | None \<Rightarrow> \<lparr>mr_empty = True, mr_position = 0\<rparr>)), ob)))"

section \<open>Methods on head objects\<close>

definition head_init :: "'o cls_method" where
  "head_init codec api inp ob =
     (case fb_decode (c_init_head codec) inp of
        None \<Rightarrow> (Inl EINVAL, ob)
      | Some None \<Rightarrow> (Inl EINVAL, ob)
      | Some (Some prefix) \<Rightarrow>
          if prefix = '''' then (Inl EINVAL, ob)
          else
            (case cx_stat api ob of
               Inr _ \<Rightarrow> (Inl EEXIST, ob)
             | Inl e \<Rightarrow>
                 if e \<noteq> ENOENT then (Inl e, ob)
                 else
                   (case head_finalize codec api \<lparr>hd_epoch = 0, hd_prefix = prefix\<rparr> ob of
                      Inl e \<Rightarrow> (Inl e, ob)
                    | Inr ob1 \<Rightarrow> (Inr '''', ob1))))"

definition view_create :: "'o cls_method" where
  "view_create codec api inp ob =
     (case fb_decode (c_create_view codec) inp of
        None \<Rightarrow> (Inl EINVAL, ob)
      | Some op \<Rightarrow>
          if co_epoch op < 1 then (Inl EINVAL, ob)
          else
            (case head_initialize codec api ob of
               Inl e \<Rightarrow> (Inl e, ob)
             | Inr head \<Rightarrow>
                 (case head_set_epoch (co_epoch op) head of
                    Inl e \<Rightarrow> (Inl e, ob)
                  | Inr head1 \<Rightarrow>
                      (case head_write_view api head1 (case co_data op of Some d \<Rightarrow> d | None \<Rightarrow> '''') ob of
                         Inl e \<Rightarrow> (Inl e, ob)
                       | Inr ob1 \<Rightarrow>
                           (case head_finalize codec api head1 ob1 of
                              Inl e \<Rightarrow> (Inl e, ob1)
                            | Inr ob2 \<Rightarrow> (Inr '''', ob2))))))"

text \<open>The loop of \<^verbatim>\<open>view_read\<close>; its first argument is the number of views it may still add.\<close>

fun view_read_loop :: "'o cls_api \<Rightarrow> 'o \<Rightarrow> u64 \<Rightarrow> nat \<Rightarrow> u64 \<Rightarrow> fbs_cls_view list \<Rightarrow> fbs_cls_view list ret" where
  "view_read_loop api ob head_epoch 0 epoch views = Inr views"
| "view_read_loop api ob head_epoch (Suc n) epoch views =
     (if 0 < epoch \<and> epoch \<le> head_epoch then
        (case head_read_view api epoch ob of
           Inl e \<Rightarrow> Inl (if e = ENOENT then EIO else e)
         | Inr bl \<Rightarrow>
             view_read_loop api ob head_epoch n (epoch + 1) (views @ [\<lparr>fw_epoch = epoch, fw_data = Some bl\<rparr>]))
      else Inr views)"

definition view_read :: "'o cls_method" where
  "view_read codec api inp ob =
     (case fb_decode (c_read_views codec) inp of
        None \<Rightarrow> (Inl EINVAL, ob)
      | Some op \<Rightarrow>
          (case head_initialize codec api ob of
             Inl e \<Rightarrow> (Inl e, ob)
           | Inr head \<Rightarrow>
               let epoch = (if vo_epoch op = 0 then hd_epoch head else vo_epoch op);
                   max_views = min (vo_max_views op) 100
               in (case view_read_loop api ob (hd_epoch head) (unat max_views) epoch [] of
                     Inl e \<Rightarrow> (Inl e, ob)
                   | Inr views \<Rightarrow> (Inr (fb_encode (c_views codec) (Some views)), ob))))"

definition unique_id_stored :: "cls_codec \<Rightarrow> 'o cls_api \<Rightarrow> 'o \<Rightarrow> u64 ret" where
  "unique_id_stored codec api ob =
     (case cx_getxattr api ''zlog.unique_id'' ob of
        Inl e \<Rightarrow> Inl e
      | Inr bl \<Rightarrow> (case fb_decode (c_unique codec) bl of None \<Rightarrow> Inl EIO | Some stored_id \<Rightarrow> Inr stored_id))"

definition unique_id_read :: "'o cls_method" where
  "unique_id_read codec api inp ob =
     (case unique_id_stored codec api ob of
        Inl e \<Rightarrow> (Inl e, ob)
      | Inr uid \<Rightarrow> if uid = 0 then (Inl EIO, ob) else (Inr (fb_encode (c_unique codec) uid), ob))"

definition unique_id_write :: "'o cls_method" where
  "unique_id_write codec api inp ob =
     (case fb_decode (c_unique codec) inp of
        None \<Rightarrow> (Inl EINVAL, ob)
      | Some op \<Rightarrow>
          (case (case unique_id_stored codec api ob of
                   Inl e \<Rightarrow> if e = ENOENT \<or> e = ENODATA then Inr 0 else Inl e
                 | Inr uid \<Rightarrow> if uid = 0 then Inl EIO else Inr uid) of
             Inl e \<Rightarrow> (Inl e, ob)
           | Inr uid \<Rightarrow>
               let expected_id = uid + 1
               in if op \<noteq> expected_id then (Inl ESTALE, ob)
                  else
                    (case cx_setxattr api ''zlog.unique_id'' (fb_encode (c_unique codec) expected_id) ob of
                       Inl e \<Rightarrow> (Inl e, ob)
                     | Inr ob1 \<Rightarrow> (Inr '''', ob1))))"

text \<open>The table of methods the class registers.\<close>

definition cls_init :: "(string \<times> 'o cls_method) list" where
  "cls_init = [(''entry_read'', log_entry_read), (''entry_write'', log_entry_write),
     (''entry_invalidate'', log_entry_invalidate), (''entry_seal'', log_entry_seal),
     (''entry_max_position'', log_entry_max_position), (''head_init'', head_init), (''view_create'', view_create),
     (''view_read'', view_read), (''unique_id_read'', unique_id_read), (''unique_id_write'', unique_id_write)]"

end
