(* ===== verification/Ceph.thy ===== *)
theory Ceph
  imports Cls_Zlog
begin

text \<open>
  The client side of the Ceph backend: \<^verbatim>\<open>storage/ceph/cls_zlog_client.cc\<close> and \<^verbatim>\<open>storage/ceph/ceph.cc\<close>. The cluster, as the library
  librados shows it, is the record \<open>rados_api\<close> over arbitrary types of objects and pools, a parameter. A call of the backend is one or
  several operations on the cluster; before each of them other clients may change the pool in any way (\<open>cp_env\<close>).
\<close>

section \<open>The cluster\<close>

text \<open>\<open>rd_object\<close> is the object an operation finds, or an error of the cluster; \<open>rd_commit\<close> installs the changed object. The other fields
  are calls of \<^verbatim>\<open>IoCtx\<close> and \<^verbatim>\<open>Rados\<close>: \<open>rd_create_full\<close> is an operation made of \<^verbatim>\<open>create(true)\<close> and \<^verbatim>\<open>write_full\<close>.\<close>

record ('o, 'r) rados_api =
  rd_class :: "'o cls_api"
  rd_object :: "string \<Rightarrow> 'r \<Rightarrow> 'o ret"
  rd_commit :: "string \<Rightarrow> 'o \<Rightarrow> 'r \<Rightarrow> 'r ret"
  rd_read :: "string \<Rightarrow> 'r \<Rightarrow> string ret"
  rd_getxattr :: "string \<Rightarrow> string \<Rightarrow> 'r \<Rightarrow> string ret"
  rd_create_full :: "string \<Rightarrow> string \<Rightarrow> 'r \<Rightarrow> 'r ret"
  rd_omap_get_keys :: "string \<Rightarrow> string \<Rightarrow> nat \<Rightarrow> 'r \<Rightarrow> string list ret"
  rd_omap_get_vals :: "string \<Rightarrow> string \<Rightarrow> nat \<Rightarrow> 'r \<Rightarrow> ((string \<times> string) list \<times> bool) ret"
  rd_omap_rm_keys :: "string \<Rightarrow> string list \<Rightarrow> 'r \<Rightarrow> 'r ret"
  rd_trunc :: "string \<Rightarrow> nat \<Rightarrow> 'r \<Rightarrow> 'r ret"
  rd_stat :: "string \<Rightarrow> 'r \<Rightarrow> nat ret"
  rd_init :: "string option \<Rightarrow> unit ret"
  rd_conf_read_file :: "string option \<Rightarrow> unit ret"
  rd_connect :: "unit ret"
  rd_ioctx_create :: "string \<Rightarrow> 'r ret"
  rd_pool_name :: "'r \<Rightarrow> string"
  rd_application_enable :: "'r \<Rightarrow> unit ret"

record 'r ceph =
  cp_pool :: 'r
  cp_owned :: bool
  cp_pool_name :: string
  cp_options :: "(string \<times> string) list"
  cp_omap_max_size :: "u32 option"
  cp_uuids :: "nat \<Rightarrow> string"
  cp_next_uuid :: nat
  cp_env :: "nat \<Rightarrow> 'r \<Rightarrow> 'r"
  cp_clock :: nat

definition others_run :: "'r ceph \<Rightarrow> 'r ceph" where
  "others_run s = s\<lparr>cp_pool := cp_env s (cp_clock s) (cp_pool s), cp_clock := cp_clock s + 1\<rparr>"

section \<open>Calls of the object class\<close>

text \<open>A method call: the name of the method and its encoded input.\<close>

type_synonym cls_call = "string \<times> string"

definition cls_zlog_read :: "cls_codec \<Rightarrow> u64 \<Rightarrow> u64 \<Rightarrow> cls_call" where
  "cls_zlog_read codec epoch position =
     (''entry_read'', fb_encode (c_read codec) \<lparr>ro_epoch = epoch, ro_position = position\<rparr>)"

definition cls_zlog_write :: "cls_codec \<Rightarrow> u64 \<Rightarrow> u64 \<Rightarrow> string \<Rightarrow> cls_call" where
  "cls_zlog_write codec epoch position data =
     (''entry_write'', fb_encode (c_write codec) \<lparr>wo_epoch = epoch, wo_position = position, wo_data = Some data\<rparr>)"

definition cls_zlog_invalidate :: "cls_codec \<Rightarrow> u64 \<Rightarrow> u64 \<Rightarrow> bool \<Rightarrow> bool \<Rightarrow> cls_call" where
  "cls_zlog_invalidate codec epoch position force limit =
     (''entry_invalidate'', fb_encode (c_invalidate codec)
        \<lparr>io_epoch = epoch, io_position = position, io_force = force, io_limit = limit\<rparr>)"

definition cls_zlog_seal :: "cls_codec \<Rightarrow> u64 \<Rightarrow> u32 option \<Rightarrow> cls_call" where
  "cls_zlog_seal codec epoch omap_max_size =
     (''entry_seal'', fb_encode (c_seal codec)
        \<lparr>so_epoch = epoch, so_omap_max_size = (case omap_max_size of Some m \<Rightarrow> m | None \<Rightarrow> - 1)\<rparr>)"

definition cls_zlog_max_position :: "cls_codec \<Rightarrow> cls_call" where
  "cls_zlog_max_position codec = (''entry_max_position'', fb_encode (c_maxpos codec) ())"

definition cls_zlog_init_head :: "cls_codec \<Rightarrow> string \<Rightarrow> cls_call" where
  "cls_zlog_init_head codec prefix = (''head_init'', fb_encode (c_init_head codec) (Some (c_str prefix)))"

definition cls_zlog_create_view :: "cls_codec \<Rightarrow> u64 \<Rightarrow> string \<Rightarrow> cls_call" where
  "cls_zlog_create_view codec epoch data =
     (''view_create'', fb_encode (c_create_view codec) \<lparr>co_epoch = epoch, co_data = Some data\<rparr>)"

definition cls_zlog_read_view :: "cls_codec \<Rightarrow> u64 \<Rightarrow> u32 \<Rightarrow> cls_call" where
  "cls_zlog_read_view codec epoch max_views =
     (''view_read'', fb_encode (c_read_views codec) \<lparr>vo_epoch = epoch, vo_max_views = max_views\<rparr>)"

definition cls_zlog_read_unique_id :: cls_call where
  "cls_zlog_read_unique_id = (''unique_id_read'', '''')"

definition cls_zlog_write_unique_id :: "cls_codec \<Rightarrow> u64 \<Rightarrow> cls_call" where
  "cls_zlog_write_unique_id codec uid = (''unique_id_write'', fb_encode (c_unique codec) uid)"

text \<open>\<^verbatim>\<open>IoCtx::operate\<close> with one method call: the method runs on the object; its changes take effect when it succeeds.\<close>

definition rados_exec ::
  "cls_codec \<Rightarrow> ('o, 'r) rados_api \<Rightarrow> string \<Rightarrow> cls_call \<Rightarrow> 'r \<Rightarrow> string ret \<times> 'r" where
  "rados_exec codec api oid call r =
     (case rd_object api oid r of
        Inl e \<Rightarrow> (Inl e, r)
      | Inr ob \<Rightarrow>
          (case map_of cls_init (fst call) of
             None \<Rightarrow> (Inl EINVAL, r)
           | Some m \<Rightarrow>
               (case m codec (rd_class api) (snd call) ob of
                  (Inl e, _) \<Rightarrow> (Inl e, r)
                | (Inr out, ob1) \<Rightarrow>
                    (case rd_commit api oid ob1 r of
                       Inl e \<Rightarrow> (Inl e, r)
                     | Inr r1 \<Rightarrow> (Inr out, r1)))))"

definition operate ::
  "cls_codec \<Rightarrow> ('o, 'r) rados_api \<Rightarrow> string \<Rightarrow> cls_call \<Rightarrow> 'r ceph \<Rightarrow> string ret \<times> 'r ceph" where
  "operate codec api oid call s0 =
     (let s = others_run s0; (ret, r) = rados_exec codec api oid call (cp_pool s) in (ret, s\<lparr>cp_pool := r\<rparr>))"

definition void :: "'a ret \<times> 's \<Rightarrow> unit ret \<times> 's" where
  "void r = (map_sum id (\<lambda>_. ()) (fst r), snd r)"

section \<open>Construction\<close>

definition ceph_new :: "'r \<Rightarrow> (nat \<Rightarrow> string) \<Rightarrow> (nat \<Rightarrow> 'r \<Rightarrow> 'r) \<Rightarrow> 'r ceph" where
  "ceph_new pool uuids env = \<lparr>cp_pool = pool, cp_owned = False, cp_pool_name = '''', cp_options = [],
     cp_omap_max_size = None, cp_uuids = uuids, cp_next_uuid = 0, cp_env = env, cp_clock = 0\<rparr>"

definition set_option :: "string \<Rightarrow> string \<Rightarrow> (string \<times> string) list \<Rightarrow> (string \<times> string) list" where
  "set_option k v opts = (k, v) # filter (\<lambda>e. fst e \<noteq> k) opts"

definition RegisterCephApp :: "('o, 'r) rados_api \<Rightarrow> 'r ceph \<Rightarrow> unit ret" where
  "RegisterCephApp api s = rd_application_enable api (cp_pool s)"

definition ceph_Initialize_ioctx :: "('o, 'r) rados_api \<Rightarrow> 'r \<Rightarrow> 'r ceph \<Rightarrow> unit ret \<times> 'r ceph" where
  "ceph_Initialize_ioctx api ioctx s =
     (let name = rd_pool_name api ioctx;
          s1 = s\<lparr>cp_owned := False, cp_pool := ioctx, cp_pool_name := name, cp_omap_max_size := None,
            cp_options := set_option ''pool'' name (set_option ''conf_file'' '''' (set_option ''scheme'' ''ceph'' (cp_options s)))\<rparr>
      in (RegisterCephApp api s1, s1))"

text \<open>\<open>to_u32\<close> is \<^verbatim>\<open>boost::lexical_cast\<close> to a 32-bit number, \<^const>\<open>None\<close> when it throws. In that case the call returns without the
  connection, which stays open.\<close>

definition ceph_Initialize ::
  "('o, 'r) rados_api \<Rightarrow> (string \<Rightarrow> u32 option) \<Rightarrow> (string \<times> string) list \<Rightarrow> 'r ceph \<Rightarrow> unit ret \<times> 'r ceph" where
  "ceph_Initialize api to_u32 opts s =
     (case rd_init api (map_option c_str (map_of opts ''id'')) of
        Inl e \<Rightarrow> (Inl e, s)
      | Inr _ \<Rightarrow>
          (case (case map_of opts ''conf_file'' of
                   None \<Rightarrow> Inr ()
                 | Some f \<Rightarrow> rd_conf_read_file api (if f = '''' then None else Some (c_str f))) of
             Inl e \<Rightarrow> (Inl e, s)
           | Inr _ \<Rightarrow>
               (case rd_connect api of
                  Inl e \<Rightarrow> (Inl e, s)
                | Inr _ \<Rightarrow>
                    (case rd_ioctx_create api (c_str (case map_of opts ''pool'' of None \<Rightarrow> ''zlog'' | Some p \<Rightarrow> p)) of
                       Inl e \<Rightarrow> (Inl e, s)
                     | Inr ioctx \<Rightarrow>
                         (case (case map_of opts ''omap_max_size'' of
                                  None \<Rightarrow> Some (cp_omap_max_size s)
                                | Some v \<Rightarrow> map_option Some (to_u32 v)) of
                            None \<Rightarrow> (Inl EINVAL, s)
                          | Some m \<Rightarrow>
                              let s1 = s\<lparr>cp_omap_max_size := m, cp_options := set_option ''scheme'' ''ceph'' opts,
                                    cp_owned := True, cp_pool := ioctx, cp_pool_name := rd_pool_name api ioctx\<rparr>
                              in (RegisterCephApp api s1, s1))))))"

definition ceph_meta :: "'r ceph \<Rightarrow> (string \<times> string) list" where
  "ceph_meta s = cp_options s"

text \<open>The destructor, as the calls it makes: a connection the backend did not open itself is left alone.\<close>

datatype ceph_release = IoctxClose | IoctxDelete | ClusterShutdown | ClusterDelete

definition ceph_delete :: "'r ceph \<Rightarrow> ceph_release list" where
  "ceph_delete s = (if cp_owned s then [IoctxClose, IoctxDelete, ClusterShutdown, ClusterDelete] else [])"

section \<open>Unique ids\<close>

text \<open>The loop of \<^verbatim>\<open>uniqueId\<close>: an attempt fails when another client took the id in between. The first argument bounds the number of
  attempts.\<close>

definition read_unique_id :: "cls_codec \<Rightarrow> ('o, 'r) rados_api \<Rightarrow> string \<Rightarrow> 'r ceph \<Rightarrow> u64 ret \<times> 'r ceph" where
  "read_unique_id codec api hoid s =
     (case operate codec api hoid cls_zlog_read_unique_id s of
        (Inl e, s1) \<Rightarrow> (if e = ENOENT \<or> e = ENODATA then Inr 0 else Inl e, s1)
      | (Inr bl, s1) \<Rightarrow> (case fb_decode (c_unique codec) bl of None \<Rightarrow> Inl EIO | Some uid \<Rightarrow> Inr uid, s1))"

fun uniqueId_loop ::
  "nat \<Rightarrow> cls_codec \<Rightarrow> ('o, 'r) rados_api \<Rightarrow> string \<Rightarrow> 'r ceph \<Rightarrow> (u64 ret \<times> 'r ceph) option" where
  "uniqueId_loop 0 codec api hoid s = None"
| "uniqueId_loop (Suc fuel) codec api hoid s =
     (case read_unique_id codec api hoid s of
        (Inl e, s1) \<Rightarrow> Some (Inl e, s1)
      | (Inr stored, s1) \<Rightarrow>
          let unique_id = stored + 1
          in case operate codec api hoid (cls_zlog_write_unique_id codec unique_id) s1 of
               (Inl e, s2) \<Rightarrow> if e = ESTALE then uniqueId_loop fuel codec api hoid s2 else Some (Inl e, s2)
             | (Inr _, s2) \<Rightarrow> Some (Inr unique_id, s2))"

definition ceph_uniqueId ::
  "nat \<Rightarrow> cls_codec \<Rightarrow> ('o, 'r) rados_api \<Rightarrow> string \<Rightarrow> 'r ceph \<Rightarrow> (u64 ret \<times> 'r ceph) option" where
  "ceph_uniqueId fuel codec api hoid s =
     (if hoid = '''' then Some (Inl EINVAL, s) else uniqueId_loop fuel codec api hoid s)"

section \<open>Views\<close>

fun collect_views :: "fbs_cls_view list \<Rightarrow> (u64, string) smap \<Rightarrow> (u64, string) smap ret" where
  "collect_views [] tmp = Inr tmp"
| "collect_views (v # vs) tmp =
     (let data = (case fw_data v of Some d \<Rightarrow> d | None \<Rightarrow> '''');
          (tmp1, inserted) = smap_emplace (fw_epoch v) data tmp
      in if \<not> inserted then Inl Aborted else collect_views vs tmp1)"

definition ceph_ReadViews ::
  "cls_codec \<Rightarrow> ('o, 'r) rados_api \<Rightarrow> string \<Rightarrow> u64 \<Rightarrow> u32 \<Rightarrow> 'r ceph \<Rightarrow> (u64, string) smap ret \<times> 'r ceph" where
  "ceph_ReadViews codec api hoid epoch max_views s =
     (if hoid = '''' then (Inl EINVAL, s)
      else case operate codec api hoid (cls_zlog_read_view codec epoch max_views) s of
        (Inl e, s1) \<Rightarrow> (Inl e, s1)
      | (Inr bl, s1) \<Rightarrow>
          (case fb_decode (c_views codec) bl of
             None \<Rightarrow> (Inl EIO, s1)
           | Some None \<Rightarrow> (Inr [], s1)
           | Some (Some views) \<Rightarrow> (collect_views views [], s1)))"

definition ceph_ProposeView ::
  "cls_codec \<Rightarrow> ('o, 'r) rados_api \<Rightarrow> string \<Rightarrow> u64 \<Rightarrow> string \<Rightarrow> 'r ceph \<Rightarrow> unit ret \<times> 'r ceph" where
  "ceph_ProposeView codec api hoid epoch view s =
     (if hoid = '''' then (Inl EINVAL, s)
      else void (operate codec api hoid (cls_zlog_create_view codec epoch view) s))"

section \<open>Logs\<close>

definition LinkObjectName :: "string \<Rightarrow> string" where
  "LinkObjectName name = ''zlog.link.'' @ name"

definition InitHeadObject ::
  "cls_codec \<Rightarrow> ('o, 'r) rados_api \<Rightarrow> string \<Rightarrow> string \<Rightarrow> 'r ceph \<Rightarrow> unit ret \<times> 'r ceph" where
  "InitHeadObject codec api hoid prefix s = void (operate codec api hoid (cls_zlog_init_head codec prefix) s)"

definition CreateLinkObject ::
  "cls_codec \<Rightarrow> ('o, 'r) rados_api \<Rightarrow> string \<Rightarrow> string \<Rightarrow> 'r ceph \<Rightarrow> unit ret \<times> 'r ceph" where
  "CreateLinkObject codec api name hoid s0 =
     (if name = '''' \<or> hoid = '''' then (Inl Aborted, s0)
      else let s = others_run s0
           in case rd_create_full api (LinkObjectName name) (fb_encode (c_link codec) (Some (c_str hoid))) (cp_pool s) of
                Inl e \<Rightarrow> (Inl e, s)
              | Inr r \<Rightarrow> (Inr (), s\<lparr>cp_pool := r\<rparr>))"

text \<open>The loop that creates a head object under a fresh name. The first argument bounds the number of names tried.\<close>

fun create_head ::
  "nat \<Rightarrow> cls_codec \<Rightarrow> ('o, 'r) rados_api \<Rightarrow> 'r ceph \<Rightarrow> ((string \<times> string) ret \<times> 'r ceph) option" where
  "create_head 0 codec api s = None"
| "create_head (Suc fuel) codec api s =
     (let key = cp_uuids s (cp_next_uuid s);
          s0 = s\<lparr>cp_next_uuid := cp_next_uuid s + 1\<rparr>;
          hoid = ''zlog.head.'' @ key;
          prefix = ''zlog.data.'' @ key
      in case InitHeadObject codec api hoid prefix s0 of
           (Inl e, s1) \<Rightarrow> if e = EEXIST then create_head fuel codec api s1 else Some (Inl e, s1)
         | (Inr _, s1) \<Rightarrow> Some (Inr (hoid, prefix), s1))"

definition ceph_CreateLog ::
  "nat \<Rightarrow> cls_codec \<Rightarrow> ('o, 'r) rados_api \<Rightarrow> string \<Rightarrow> string \<Rightarrow> 'r ceph \<Rightarrow> ((string \<times> string) ret \<times> 'r ceph) option" where
  "ceph_CreateLog fuel codec api name view s =
     (if name = '''' then Some (Inl EINVAL, s)
      else case create_head fuel codec api s of
        None \<Rightarrow> None
      | Some (Inl e, s1) \<Rightarrow> Some (Inl e, s1)
      | Some (Inr (hoid, prefix), s1) \<Rightarrow>
          (case ceph_ProposeView codec api hoid 1 view s1 of
             (Inl e, s2) \<Rightarrow> Some (Inl e, s2)
           | (Inr _, s2) \<Rightarrow>
               (case CreateLinkObject codec api name hoid s2 of
                  (Inl e, s3) \<Rightarrow> Some (Inl e, s3)
                | (Inr _, s3) \<Rightarrow> Some (Inr (hoid, prefix), s3))))"

definition open_head ::
  "cls_codec \<Rightarrow> ('o, 'r) rados_api \<Rightarrow> string \<Rightarrow> 'r ceph \<Rightarrow> (string \<times> string) ret \<times> 'r ceph" where
  "open_head codec api hoid s0 =
     (let s = others_run s0
      in case rd_getxattr api hoid ''zlog.head.header'' (cp_pool s) of
           Inl e \<Rightarrow> (Inl (if e = ENOENT then EIO else e), s)
         | Inr bl \<Rightarrow>
             (case fb_decode (c_head codec) bl of
                None \<Rightarrow> (Inl EIO, s)
              | Some head \<Rightarrow>
                  (case fd_prefix head of
                     None \<Rightarrow> (Inl EIO, s)
                   | Some prefix \<Rightarrow> if prefix = '''' then (Inl EIO, s) else (Inr (hoid, prefix), s))))"

definition ceph_OpenLog ::
  "cls_codec \<Rightarrow> ('o, 'r) rados_api \<Rightarrow> string \<Rightarrow> 'r ceph \<Rightarrow> (string \<times> string) ret \<times> 'r ceph" where
  "ceph_OpenLog codec api name s0 =
     (if name = '''' then (Inl EINVAL, s0)
      else let s = others_run s0
           in case rd_read api (LinkObjectName name) (cp_pool s) of
                Inl e \<Rightarrow> (Inl e, s)
              | Inr bl \<Rightarrow>
                  (case fb_decode (c_link codec) bl of
                     None \<Rightarrow> (Inl EIO, s)
                   | Some None \<Rightarrow> (Inl EIO, s)
                   | Some (Some hoid) \<Rightarrow> open_head codec api hoid s))"

section \<open>Data calls\<close>

definition ceph_Read ::
  "cls_codec \<Rightarrow> ('o, 'r) rados_api \<Rightarrow> string \<Rightarrow> u64 \<Rightarrow> u64 \<Rightarrow> 'r ceph \<Rightarrow> string ret \<times> 'r ceph" where
  "ceph_Read codec api oid epoch position s =
     (if oid = '''' then (Inl EINVAL, s) else operate codec api oid (cls_zlog_read codec epoch position) s)"

definition ceph_Write ::
  "cls_codec \<Rightarrow> ('o, 'r) rados_api \<Rightarrow> string \<Rightarrow> string \<Rightarrow> u64 \<Rightarrow> u64 \<Rightarrow> 'r ceph \<Rightarrow> unit ret \<times> 'r ceph" where
  "ceph_Write codec api oid data epoch position s =
     (if oid = '''' then (Inl EINVAL, s)
      else void (operate codec api oid (cls_zlog_write codec epoch position data) s))"

definition ceph_Fill ::
  "cls_codec \<Rightarrow> ('o, 'r) rados_api \<Rightarrow> string \<Rightarrow> u64 \<Rightarrow> u64 \<Rightarrow> 'r ceph \<Rightarrow> unit ret \<times> 'r ceph" where
  "ceph_Fill codec api oid epoch position s =
     (if oid = '''' then (Inl EINVAL, s)
      else void (operate codec api oid (cls_zlog_invalidate codec epoch position False False) s))"

text \<open>\<open>str_find\<close> is \<^verbatim>\<open>std::string::find\<close>. \<open>select_keys\<close> is the inner loop of a full trim: the keys of entries are kept; one that belongs to a
  position above the given one is an error. \<open>to_u64\<close> is \<^verbatim>\<open>boost::lexical_cast\<close>.\<close>

fun str_find :: "string \<Rightarrow> string \<Rightarrow> nat option" where
  "str_find pat [] = (if pat = [] then Some 0 else None)"
| "str_find pat (c # s) = (if starts_with (c # s) pat then Some 0 else map_option Suc (str_find pat s))"

fun select_keys :: "(string \<Rightarrow> u64 option) \<Rightarrow> u64 \<Rightarrow> string list \<Rightarrow> string list ret" where
  "select_keys to_u64 position [] = Inr []"
| "select_keys to_u64 position (k # ks) =
     (let prefix = ''zlog.data.entry.''
      in case str_find prefix k of
           None \<Rightarrow> select_keys to_u64 position ks
         | Some pos \<Rightarrow>
             if pos \<noteq> 0 then Inl EIO
             else (case to_u64 (drop (length prefix) k) of
                     None \<Rightarrow> Inl EIO
                   | Some ipos \<Rightarrow>
                       if position < ipos then Inl EIO
                       else map_sum id ((#) k) (select_keys to_u64 position ks)))"

fun trim_loop ::
  "nat \<Rightarrow> (string \<Rightarrow> u64 option) \<Rightarrow> ('o, 'r) rados_api \<Rightarrow> string \<Rightarrow> u64 \<Rightarrow> string \<Rightarrow> 'r ceph \<Rightarrow>
   (unit ret \<times> 'r ceph) option" where
  "trim_loop 0 to_u64 api oid position start_after s0 = None"
| "trim_loop (Suc fuel) to_u64 api oid position start_after s0 =
     (let s = others_run s0
      in case rd_omap_get_keys api oid start_after 1 (cp_pool s) of
           Inl e \<Rightarrow> Some (Inl e, s)
         | Inr keys \<Rightarrow>
             if keys = [] then Some (Inr (), s)
             else
               (case select_keys to_u64 position keys of
                  Inl e \<Rightarrow> Some (Inl e, s)
                | Inr ks \<Rightarrow>
                    if ks = [] then trim_loop fuel to_u64 api oid position (last keys) s
                    else let s1 = others_run s
                         in case rd_omap_rm_keys api oid ks (cp_pool s1) of
                              Inl e \<Rightarrow> Some (Inl e, s1)
                            | Inr r \<Rightarrow> trim_loop fuel to_u64 api oid position (last keys) (s1\<lparr>cp_pool := r\<rparr>)))"

definition ceph_Trim ::
  "nat \<Rightarrow> (string \<Rightarrow> u64 option) \<Rightarrow> cls_codec \<Rightarrow> ('o, 'r) rados_api \<Rightarrow> string \<Rightarrow> u64 \<Rightarrow> u64 \<Rightarrow> bool \<Rightarrow> bool \<Rightarrow> 'r ceph \<Rightarrow>
   (unit ret \<times> 'r ceph) option" where
  "ceph_Trim fuel to_u64 codec api oid epoch position trim_limit trim_full s =
     (if trim_full \<and> \<not> trim_limit then Some (Inl EINVAL, s)
      else if oid = '''' then Some (Inl EINVAL, s)
      else case operate codec api oid (cls_zlog_invalidate codec epoch position True trim_limit) s of
        (Inl e, s1) \<Rightarrow> Some (Inl e, s1)
      | (Inr _, s1) \<Rightarrow>
          if \<not> trim_full then Some (Inr (), s1)
          else
            (case trim_loop fuel to_u64 api oid position '''' s1 of
               None \<Rightarrow> None
             | Some (Inl e, s2) \<Rightarrow> Some (Inl e, s2)
             | Some (Inr _, s2) \<Rightarrow>
                 let s3 = others_run s2
                 in (case rd_trunc api oid 0 (cp_pool s3) of
                       Inl e \<Rightarrow> Some (Inl e, s3)
                     | Inr r \<Rightarrow> Some (Inr (), s3\<lparr>cp_pool := r\<rparr>))))"

fun ceph_stat_loop ::
  "nat \<Rightarrow> ('o, 'r) rados_api \<Rightarrow> string \<Rightarrow> string \<Rightarrow> u64 \<Rightarrow> 'r ceph \<Rightarrow> (u64 ret \<times> 'r ceph) option" where
  "ceph_stat_loop 0 api oid start_after sz s0 = None"
| "ceph_stat_loop (Suc fuel) api oid start_after sz s0 =
     (let s = others_run s0
      in case rd_omap_get_vals api oid start_after 1 (cp_pool s) of
           Inl e \<Rightarrow> Some (Inl e, s)
         | Inr (out, rest) \<Rightarrow>
             if out = [] then Some (Inr sz, s)
             else let sz1 = fold (\<lambda>kv n. n + 20 + of_nat (length (snd kv))) out sz
                  in if rest then ceph_stat_loop fuel api oid (fst (last out)) sz1 s else Some (Inr sz1, s))"

definition ceph_Stat :: "nat \<Rightarrow> ('o, 'r) rados_api \<Rightarrow> string \<Rightarrow> 'r ceph \<Rightarrow> (u64 ret \<times> 'r ceph) option" where
  "ceph_Stat fuel api oid s0 =
     (if oid = '''' then Some (Inl EINVAL, s0)
      else let s = others_run s0
           in case rd_stat api oid (cp_pool s) of
                Inl e \<Rightarrow> Some (Inl e, s)
              | Inr sz \<Rightarrow> ceph_stat_loop fuel api oid '''' (of_nat sz) s)"

definition ceph_Seal :: "cls_codec \<Rightarrow> ('o, 'r) rados_api \<Rightarrow> string \<Rightarrow> u64 \<Rightarrow> 'r ceph \<Rightarrow> unit ret \<times> 'r ceph" where
  "ceph_Seal codec api oid epoch s =
     (if oid = '''' then (Inl EINVAL, s)
      else void (operate codec api oid (cls_zlog_seal codec epoch (cp_omap_max_size s)) s))"

definition ceph_MaxPos :: "cls_codec \<Rightarrow> ('o, 'r) rados_api \<Rightarrow> string \<Rightarrow> 'r ceph \<Rightarrow> u64 option ret \<times> 'r ceph" where
  "ceph_MaxPos codec api oid s =
     (if oid = '''' then (Inl EINVAL, s)
      else case operate codec api oid (cls_zlog_max_position codec) s of
        (Inl e, s1) \<Rightarrow> (Inl e, s1)
      | (Inr bl, s1) \<Rightarrow>
          (case fb_decode (c_maxpos_reply codec) bl of
             None \<Rightarrow> (Inl EIO, s1)
           | Some reply \<Rightarrow> (Inr (if mr_empty reply then None else Some (mr_position reply)), s1)))"

end
