(* ===== verification/Cls_Store.thy ===== *)
theory Cls_Store
  imports Cls_Zlog
begin

text \<open>
  The object class implements the data calls of the storage contract. What a server does with an object is the locale
  \<open>cls_server\<close>; the content of an object is a record of its byte stream, its attributes and its ordered key-value map.
\<close>

section \<open>Keys\<close>

lemma read_dec_zeros [simp]: "read_dec (replicate n (CHR ''0'') @ s) = read_dec s"
  by (induction n) (simp_all add: read_dec_def)

lemma read_dec_key [simp]: "read_dec (drop (length prefix) (u64tostr w prefix)) = unat w"
  by (simp add: u64tostr_def show_u64_def)

lemma u64tostr_inject [simp]: "u64tostr a prefix = u64tostr b prefix \<longleftrightarrow> a = b"
  by (metis read_dec_key word_unat_eq_iff)

definition entry_key :: "u64 \<Rightarrow> string" where
  "entry_key p = u64tostr p ''zlog.data.entry.''"

lemma entry_key_inject [simp]: "entry_key p = entry_key q \<longleftrightarrow> p = q"
  by (simp add: entry_key_def)

lemma view_key_inject [simp]: "view_key p = view_key q \<longleftrightarrow> p = q"
  by (simp add: view_key_def)

section \<open>Objects and servers\<close>

record robj =
  rb_data :: string
  rb_xattrs :: "string \<rightharpoonup> string"
  rb_omap :: "string \<rightharpoonup> string"

definition robj_empty :: robj where
  "robj_empty = \<lparr>rb_data = '''', rb_xattrs = Map.empty, rb_omap = Map.empty\<rparr>"

definition robj_of :: "robj option \<Rightarrow> robj" where
  "robj_of x = (case x of None \<Rightarrow> robj_empty | Some y \<Rightarrow> y)"

lemma robj_of_Some [simp]: "robj_of (Some x) = x" "robj_of None = robj_empty"
  by (simp_all add: robj_of_def)

text \<open>Decoding a table inverts encoding it.\<close>

definition fbs_codec_ok :: "'a fbs_codec \<Rightarrow> bool" where
  "fbs_codec_ok c \<longleftrightarrow> (\<forall>x. fb_decode c (fb_encode c x) = Some x)"

lemma fbs_codec_okD [simp]: "fbs_codec_ok c \<Longrightarrow> fb_decode c (fb_encode c x) = Some x"
  by (simp add: fbs_codec_ok_def)

definition cls_codec_ok :: "cls_codec \<Rightarrow> bool" where
  "cls_codec_ok codec \<longleftrightarrow> fbs_codec_ok (c_entry codec) \<and> fbs_codec_ok (c_header codec) \<and> fbs_codec_ok (c_head codec)
     \<and> fbs_codec_ok (c_views codec) \<and> fbs_codec_ok (c_unique codec) \<and> fbs_codec_ok (c_link codec) \<and> fbs_codec_ok (c_read codec)
     \<and> fbs_codec_ok (c_write codec) \<and> fbs_codec_ok (c_invalidate codec) \<and> fbs_codec_ok (c_seal codec) \<and> fbs_codec_ok (c_maxpos codec)
     \<and> fbs_codec_ok (c_maxpos_reply codec) \<and> fbs_codec_ok (c_init_head codec) \<and> fbs_codec_ok (c_create_view codec)
     \<and> fbs_codec_ok (c_read_views codec)"

text \<open>What a server does: \<open>vw\<close> is the content of an object, \<^const>\<open>None\<close> when it does not exist. A write creates the object.\<close>

locale cls_server =
  fixes cx :: "'o cls_api"
    and vw :: "'o \<Rightarrow> robj option"
    and codec :: cls_codec
  assumes getxattr: "cx_getxattr cx k ob =
      (case vw ob of None \<Rightarrow> Inl ENOENT
       | Some x \<Rightarrow> (case rb_xattrs x k of None \<Rightarrow> Inl ENODATA | Some v \<Rightarrow> Inr v))"
    and setxattr: "\<exists>ob'. cx_setxattr cx k v ob = Inr ob'
      \<and> vw ob' = Some (robj_of (vw ob)\<lparr>rb_xattrs := (rb_xattrs (robj_of (vw ob)))(k \<mapsto> v)\<rparr>)"
    and map_get_val: "cx_map_get_val cx k ob =
      (case rb_omap (robj_of (vw ob)) k of None \<Rightarrow> Inl ENOENT | Some v \<Rightarrow> Inr v)"
    and map_set_val: "\<exists>ob'. cx_map_set_val cx k v ob = Inr ob'
      \<and> vw ob' = Some (robj_of (vw ob)\<lparr>rb_omap := (rb_omap (robj_of (vw ob)))(k \<mapsto> v)\<rparr>)"
    and stat_law: "cx_stat cx ob = (case vw ob of None \<Rightarrow> Inl ENOENT | Some x \<Rightarrow> Inr (of_nat (length (rb_data x))))"
    and read_law: "vw ob = Some x \<Longrightarrow> 0 < len \<Longrightarrow> unat off + unat len \<le> length (rb_data x) \<Longrightarrow>
      cx_read cx off len ob = Inr (take (unat len) (drop (unat off) (rb_data x)))"
    and write_law: "vw ob = Some x \<Longrightarrow> unat off \<le> length (rb_data x) \<Longrightarrow> unat len = length d \<Longrightarrow>
      \<exists>ob'. cx_write cx off len d ob = Inr ob' \<and> vw ob' = Some (x\<lparr>rb_data :=
        take (unat off) (rb_data x) @ d @ drop (unat off + unat len) (rb_data x)\<rparr>)"
    and codec_law: "cls_codec_ok codec"

section \<open>The abstract state of a data object\<close>

definition header_of :: "fbs_header \<Rightarrow> log_header" where
  "header_of f = \<lparr>lh_epoch = fh_epoch f, lh_empty = fh_empty f, lh_max_pos = fh_max_pos f,
     lh_omap_max_size = fh_omap_max_size f,
     lh_trim_limit = (if 0 \<le> sint (fh_trim_limit f) then Some (fh_trim_limit f) else None)\<rparr>"

definition cls_header :: "cls_codec \<Rightarrow> robj \<Rightarrow> log_header option" where
  "cls_header codec x =
     (case rb_xattrs x ''zlog.data.header'' of None \<Rightarrow> None | Some bl \<Rightarrow> map_option header_of (fb_decode (c_header codec) bl))"

definition stored_entry :: "cls_codec \<Rightarrow> robj \<Rightarrow> u64 \<Rightarrow> fbs_entry option" where
  "stored_entry codec x p = (case rb_omap x (entry_key p) of None \<Rightarrow> None | Some bl \<Rightarrow> fb_decode (c_entry codec) bl)"

definition entry_value :: "string \<Rightarrow> fbs_entry \<Rightarrow> entry" where
  "entry_value data e =
     (if fe_invalid e then Junk
      else if fe_bytestream e then Data (take (unat (fe_length e)) (drop (unat (fe_offset e)) data))
      else Data (case fe_data e of None \<Rightarrow> '''' | Some d \<Rightarrow> d))"

definition cls_aobj :: "cls_codec \<Rightarrow> robj \<Rightarrow> aobj" where
  "cls_aobj codec x =
     (case cls_header codec x of
        None \<Rightarrow> ao_init
      | Some h \<Rightarrow> \<lparr>ao_epoch = lh_epoch h, ao_limit = lh_trim_limit h,
          ao_entries = (\<lambda>p. map_option (entry_value (rb_data x)) (stored_entry codec x p))\<rparr>)"

text \<open>An entry that is valid has its data in one place, within the object.\<close>

definition entry_wf :: "nat \<Rightarrow> fbs_entry \<Rightarrow> bool" where
  "entry_wf n e \<longleftrightarrow> fe_invalid e
     \<or> (if fe_bytestream e then (case fe_data e of None \<Rightarrow> '''' | Some d \<Rightarrow> d) = '''' \<and> unat (fe_offset e) + unat (fe_length e) \<le> n
        else fe_offset e = 0 \<and> fe_length e = 0)"

definition lim_wf :: "log_header \<Rightarrow> bool" where
  "lim_wf h \<longleftrightarrow> (\<forall>l. lh_trim_limit h = Some l \<longrightarrow> 0 \<le> sint l \<and> \<not> lh_empty h \<and> l \<le> lh_max_pos h)"

definition cls_wf :: "cls_codec \<Rightarrow> robj \<Rightarrow> bool" where
  "cls_wf codec x \<longleftrightarrow> (finite (dom (rb_omap x)) \<and> dom (rb_omap x) \<subseteq> range entry_key) \<and> (\<exists>h. cls_header codec x = Some h \<and> lim_wf h
     \<and> (\<forall>p. rb_omap x (entry_key p) \<noteq> None \<longrightarrow>
          (\<exists>e. stored_entry codec x p = Some e \<and> entry_wf (length (rb_data x)) e) \<and> \<not> lh_empty h \<and> p \<le> lh_max_pos h)
     \<and> (\<not> lh_empty h \<longrightarrow> lh_trim_limit h \<noteq> None \<or> (\<exists>p. stored_entry codec x p \<noteq> None)))"

text \<open>The object class stores the offset of an entry in 32 bits.\<close>

definition cls_room :: "cls_codec \<Rightarrow> robj \<Rightarrow> string \<Rightarrow> bool" where
  "cls_room codec x d \<longleftrightarrow>
     (case cls_header codec x of
        None \<Rightarrow> True
      | Some h \<Rightarrow> (case header_omap_max_size h of
          None \<Rightarrow> True
        | Some m \<Rightarrow> unat m \<le> length d \<longrightarrow> length (rb_data x) + length d < 2 ^ 32))"

text \<open>A method call refines an abstract call: same code; on success the object becomes what the abstract call makes of it, on failure
  the abstract call changes nothing.\<close>

definition cls_refines ::
  "cls_codec \<Rightarrow> ('o \<Rightarrow> robj option) \<Rightarrow> string ret \<times> 'o \<Rightarrow> aobj option \<Rightarrow> unit ret \<times> aobj option \<Rightarrow> bool" where
  "cls_refines codec vw r a0 a \<longleftrightarrow>
     (case fst r of
        Inl e \<Rightarrow> a = (Inl e, a0)
      | Inr _ \<Rightarrow> fst a = Inr () \<and> (\<exists>x. vw (snd r) = Some x \<and> cls_wf codec x \<and> snd a = Some (cls_aobj codec x)))"

section \<open>Writing headers and entries\<close>

definition put_header :: "cls_codec \<Rightarrow> log_header \<Rightarrow> robj \<Rightarrow> robj" where
  "put_header codec h x = x\<lparr>rb_xattrs := (rb_xattrs x)(''zlog.data.header'' \<mapsto> fb_encode (c_header codec) (header_fbs h))\<rparr>"

definition store_entry :: "cls_codec \<Rightarrow> u64 \<Rightarrow> fbs_entry \<Rightarrow> robj \<Rightarrow> robj" where
  "store_entry codec p e x = x\<lparr>rb_omap := (rb_omap x)(entry_key p \<mapsto> fb_encode (c_entry codec) e)\<rparr>"

lemma header_of_fbs: "(\<forall>l. lh_trim_limit h = Some l \<longrightarrow> 0 \<le> sint l) \<Longrightarrow> header_of (header_fbs h) = h"
  by (cases h) (auto simp: header_of_def header_fbs_def split: option.split)

lemma put_header_simps [simp]:
  "rb_data (put_header codec h x) = rb_data x" "rb_omap (put_header codec h x) = rb_omap x"
  "stored_entry codec (put_header codec h x) = stored_entry codec x"
  by (simp_all add: put_header_def stored_entry_def fun_eq_iff)

lemma store_entry_simps [simp]:
  "rb_data (store_entry codec p e x) = rb_data x" "rb_xattrs (store_entry codec p e x) = rb_xattrs x"
  "cls_header codec (store_entry codec p e x) = cls_header codec x"
  "rb_omap (store_entry codec p e x) = (rb_omap x)(entry_key p \<mapsto> fb_encode (c_entry codec) e)"
  by (simp_all add: store_entry_def cls_header_def)

lemma data_simps [simp]:
  "cls_header codec (x\<lparr>rb_data := d\<rparr>) = cls_header codec x"
  "stored_entry codec (x\<lparr>rb_data := d\<rparr>) = stored_entry codec x"
  by (simp_all add: cls_header_def stored_entry_def fun_eq_iff)

lemma cls_header_put [simp]:
  assumes "cls_codec_ok codec" and "lim_wf h"
  shows "cls_header codec (put_header codec h x) = Some h"
  using assms by (simp add: cls_header_def put_header_def cls_codec_ok_def header_of_fbs lim_wf_def)

lemma stored_entry_store [simp]:
  "cls_codec_ok codec \<Longrightarrow> stored_entry codec (store_entry codec p e x) = (stored_entry codec x)(p \<mapsto> e)"
  by (simp add: stored_entry_def fun_eq_iff cls_codec_ok_def)

lemma cls_wfD:
  assumes "cls_wf codec x" and "cls_header codec x = Some h"
  shows "lim_wf h" and "finite (dom (rb_omap x)) \<and> dom (rb_omap x) \<subseteq> range entry_key"
    and "rb_omap x (entry_key p) \<noteq> None \<Longrightarrow> \<exists>e. stored_entry codec x p = Some e \<and> entry_wf (length (rb_data x)) e"
    and "rb_omap x (entry_key p) \<noteq> None \<Longrightarrow> \<not> lh_empty h \<and> p \<le> lh_max_pos h"
    and "\<not> lh_empty h \<Longrightarrow> lh_trim_limit h \<noteq> None \<or> (\<exists>p. stored_entry codec x p \<noteq> None)"
  using assms by (auto simp: cls_wf_def)

lemma cls_aobj_eq: "cls_header codec x = Some h \<Longrightarrow> cls_aobj codec x = \<lparr>ao_epoch = lh_epoch h, ao_limit = lh_trim_limit h,
    ao_entries = (\<lambda>p. map_option (entry_value (rb_data x)) (stored_entry codec x p))\<rparr>"
  by (simp add: cls_aobj_def)

text \<open>The invariant after writing an entry and, if need be, the header. \<open>covers\<close> says what the new header must have.\<close>

definition covers :: "u64 \<Rightarrow> log_header \<Rightarrow> log_header \<Rightarrow> bool" where
  "covers p h h1 \<longleftrightarrow> lim_wf h1 \<and> \<not> lh_empty h1 \<and> p \<le> lh_max_pos h1 \<and> (\<not> lh_empty h \<longrightarrow> lh_max_pos h \<le> lh_max_pos h1)"

lemma update_max_pos_covers:
  assumes "lim_wf h"
  shows "covers p h (snd (update_max_pos p h))" and "lh_epoch (snd (update_max_pos p h)) = lh_epoch h"
    and "lh_trim_limit (snd (update_max_pos p h)) = lh_trim_limit h"
    and "\<not> fst (update_max_pos p h) \<Longrightarrow> snd (update_max_pos p h) = h"
  using assms by (auto simp: covers_def lim_wf_def update_max_pos_def header_max_pos_def)

lemma entry_wf_mono: "entry_wf n e \<Longrightarrow> n \<le> m \<Longrightarrow> entry_wf m e"
  by (auto simp: entry_wf_def)

lemma entry_value_append: "entry_wf (length d) e \<Longrightarrow> entry_value (d @ d') e = entry_value d e"
  by (auto simp: entry_value_def entry_wf_def)

definition stores :: "cls_codec \<Rightarrow> robj \<Rightarrow> u64 \<Rightarrow> fbs_entry \<Rightarrow> string \<Rightarrow> log_header \<Rightarrow> robj \<Rightarrow> bool" where
  "stores codec x p e d h y \<longleftrightarrow> rb_data y = rb_data x @ d
     \<and> rb_omap y = (rb_omap x)(entry_key p \<mapsto> fb_encode (c_entry codec) e) \<and> cls_header codec y = Some h"

lemma stored_entry_stores:
  "cls_codec_ok codec \<Longrightarrow> stores codec x p e d h y \<Longrightarrow> stored_entry codec y = (stored_entry codec x)(p \<mapsto> e)"
  by (auto simp: stored_entry_def stores_def fun_eq_iff cls_codec_ok_def)

lemma wf_store:
  assumes "cls_codec_ok codec" and "cls_wf codec x" and "cls_header codec x = Some h" and "covers p h h1"
    and "entry_wf (length (rb_data x @ d)) e" and y: "stores codec x p e d h1 y"
  shows "cls_wf codec y"
proof -
  note st = stored_entry_stores [OF assms(1) y]
  have "(\<exists>e'. stored_entry codec y q = Some e' \<and> entry_wf (length (rb_data y)) e') \<and> \<not> lh_empty h1 \<and> q \<le> lh_max_pos h1"
    if "rb_omap y (entry_key q) \<noteq> None" for q
  proof (cases "q = p")
    case True
    then show ?thesis using assms(4,5) y st by (simp add: covers_def stores_def)
  next
    case False
    then have q: "rb_omap x (entry_key q) \<noteq> None" using that y by (simp add: stores_def)
    obtain e' where "stored_entry codec x q = Some e'" "entry_wf (length (rb_data x)) e'"
      using cls_wfD(3) [OF assms(2,3) q] by blast
    then show ?thesis
      using cls_wfD(4) [OF assms(2,3) q] assms(4) False y st by (auto simp: covers_def stores_def entry_wf_mono)
  qed
  moreover have "lim_wf h1" "\<exists>q. stored_entry codec y q \<noteq> None" using assms(4) st by (auto simp: covers_def)
  ultimately show ?thesis
    using y cls_wfD(2) [OF assms(2,3)] unfolding cls_wf_def by (intro conjI exI [of _ h1]) (auto simp: stores_def)
qed

lemma aobj_store:
  assumes "cls_codec_ok codec" and "cls_wf codec x" and "cls_header codec x = Some h"
    and "lh_epoch h1 = lh_epoch h" and "lh_trim_limit h1 = lh_trim_limit h" and y: "stores codec x p e d h1 y"
  shows "cls_aobj codec y =
    (cls_aobj codec x)\<lparr>ao_entries := (ao_entries (cls_aobj codec x))(p \<mapsto> entry_value (rb_data x @ d) e)\<rparr>"
proof -
  have "map_option (entry_value (rb_data x @ d)) (stored_entry codec x q) = map_option (entry_value (rb_data x)) (stored_entry codec x q)" for q
    using cls_wfD(3) [OF assms(2,3), of q]
    by (cases "stored_entry codec x q") (auto simp: entry_value_append stored_entry_def split: option.splits)
  then show ?thesis
    using assms stored_entry_stores [OF assms(1) y] by (auto simp: cls_aobj_def stores_def)
qed

section \<open>The methods\<close>

context cls_server
begin

lemma header_read_absent: "vw ob = None \<Longrightarrow> header_read codec cx ob = Inl ENOENT"
  by (simp add: header_read_def getxattr)

lemma header_read_ok: "vw ob = Some x \<Longrightarrow> cls_header codec x = Some h \<Longrightarrow> header_read codec cx ob = Inr h"
  by (auto simp: header_read_def getxattr cls_header_def header_of_def split: option.splits)

lemma header_write_ok:
  assumes "lim_wf h"
  obtains ob' y where "header_write codec cx h ob = Inr ob'" and "vw ob' = Some y" and "cls_header codec y = Some h"
    and "rb_data y = rb_data (robj_of (vw ob))" and "rb_omap y = rb_omap (robj_of (vw ob))"
proof -
  let ?y = "put_header codec h (robj_of (vw ob))"
  obtain ob' where ob': "header_write codec cx h ob = Inr ob'" "vw ob' = Some ?y"
    using setxattr [of "''zlog.data.header''" "fb_encode (c_header codec) (header_fbs h)" ob]
    by (auto simp: header_write_def put_header_def)
  show ?thesis by (rule that [OF ob']) (simp_all add: cls_header_put [OF codec_law assms])
qed

lemma write_max_pos_ok:
  assumes "vw ob = Some x" and "cls_header codec x = Some h" and "lim_wf h"
  obtains ob' y where "write_max_pos codec cx p h ob = (Inr '''', ob')" and "vw ob' = Some y"
    and "cls_header codec y = Some (snd (update_max_pos p h))" and "rb_data y = rb_data x" and "rb_omap y = rb_omap x"
proof (cases "fst (update_max_pos p h)")
  case True
  obtain ob' y where "header_write codec cx (snd (update_max_pos p h)) ob = Inr ob'" "vw ob' = Some y"
    "cls_header codec y = Some (snd (update_max_pos p h))" "rb_data y = rb_data x" "rb_omap y = rb_omap x"
    by (rule header_write_ok [of "snd (update_max_pos p h)" ob])
      (use update_max_pos_covers(1) [OF assms(3), of p] assms(1) in \<open>auto simp: covers_def\<close>)
  then show ?thesis using True by (intro that [of ob' y]) (auto simp: write_max_pos_def split: prod.split)
next
  case False
  then show ?thesis
    using assms update_max_pos_covers(4) [OF assms(3) False]
    by (intro that [of ob x]) (auto simp: write_max_pos_def split: prod.split)
qed

lemma entry_write_ok:
  assumes "ce_key en = entry_key p"
  obtains ob' where "entry_write codec cx en ob = Inr ob'"
    and "vw ob' = Some (store_entry codec p \<lparr>fe_invalid = ce_invalid en, fe_bytestream = ce_bytestream en, fe_data = Some (ce_data en),
        fe_offset = ce_offset en, fe_length = ce_length en\<rparr> (robj_of (vw ob)))"
  using map_set_val [of "entry_key p"] unfolding entry_write_def assms store_entry_def by blast

lemma entry_read_cases:
  assumes "vw ob = Some x" and "cls_wf codec x"
  obtains "stored_entry codec x p = None" and "rb_omap x (entry_key p) = None"
      and "entry_read codec cx (cls_entry_new p) ob = Inr ((cls_entry_new p)\<lparr>ce_exists := Some False\<rparr>)"
    | e where "stored_entry codec x p = Some e" and "entry_wf (length (rb_data x)) e"
      and "entry_read codec cx (cls_entry_new p) ob = Inr \<lparr>ce_key = entry_key p, ce_exists = Some True, ce_invalid = fe_invalid e,
        ce_bytestream = fe_bytestream e, ce_data = (case fe_data e of None \<Rightarrow> '''' | Some d \<Rightarrow> d),
        ce_offset = fe_offset e, ce_length = fe_length e\<rparr>"
proof -
  obtain h where h: "cls_header codec x = Some h" using assms(2) by (auto simp: cls_wf_def)
  have key: "ce_key (cls_entry_new p) = entry_key p" by (simp add: cls_entry_new_def entry_key_def)
  show ?thesis
  proof (cases "rb_omap x (entry_key p)")
    case None
    then show ?thesis
      by (intro that(1)) (simp_all add: stored_entry_def entry_read_def key map_get_val assms(1) cls_entry_new_def entry_key_def)
  next
    case (Some bl)
    then obtain e where e: "stored_entry codec x p = Some e" "entry_wf (length (rb_data x)) e"
      using cls_wfD(3) [OF assms(2) h, of p] by auto
    then have "fb_decode (c_entry codec) bl = Some e" using Some by (simp add: stored_entry_def)
    then show ?thesis
      using Some by (intro that(2) [OF e]) (simp add: entry_read_def key map_get_val assms(1) cls_entry_new_def entry_key_def split: option.split)
  qed
qed

abbreviation cls_obj :: "'o \<Rightarrow> aobj option" where
  "cls_obj ob \<equiv> map_option (cls_aobj codec) (vw ob)"

definition ob_wf :: "'o \<Rightarrow> bool" where
  "ob_wf ob \<longleftrightarrow> (\<forall>x. vw ob = Some x \<longrightarrow> cls_wf codec x)"

text \<open>The check every method starts with agrees with the one of the interface.\<close>

lemma guard_cases:
  assumes "ob_wf ob" and "0 < epoch" and "oid \<noteq> []"
  obtains err where "a_guard oid epoch (cls_obj ob) = Inl err" and "header_read codec cx ob = Inl err"
    | err h where "a_guard oid epoch (cls_obj ob) = Inl err" and "header_read codec cx ob = Inr h" and "epoch_guard epoch h = Inl err"
    | x h where "a_guard oid epoch (cls_obj ob) = Inr (cls_aobj codec x)" and "vw ob = Some x" and "cls_header codec x = Some h"
      and "cls_wf codec x" and "lim_wf h" and "header_read codec cx ob = Inr h" and "epoch_guard epoch h = Inr ()"
      and "ao_limit (cls_aobj codec x) = lh_trim_limit h"
      and "\<And>p. position_trimmed p h = below_limit (ao_limit (cls_aobj codec x)) p"
proof (cases "vw ob")
  case None
  then show ?thesis using that(1) [of ENOENT] assms(2,3) by (simp add: header_read_absent a_guard_def word_gt_0)
next
  case (Some x)
  then have wf: "cls_wf codec x" using assms(1) by (simp add: ob_wf_def)
  then obtain h where h: "cls_header codec x = Some h" by (auto simp: cls_wf_def)
  note rd = header_read_ok [OF Some h]
  have e: "\<not> epoch < 1" "epoch \<noteq> 0" using assms(2) by (simp_all add: word_less_1 word_gt_0)
  have ep: "ao_epoch (cls_aobj codec x) = lh_epoch h" by (simp add: cls_aobj_eq [OF h])
  show ?thesis
  proof (cases "epoch < lh_epoch h")
    case True
    then show ?thesis using that(2) [of ESPIPE h] rd e Some ep assms(3) by (simp add: a_guard_def epoch_guard_def)
  next
    case False
    have lim: "ao_limit (cls_aobj codec x) = lh_trim_limit h" by (simp add: cls_aobj_eq [OF h])
    show ?thesis
      using False by (intro that(3) [OF _ Some h wf cls_wfD(1) [OF wf h] rd])
        (use rd e Some ep assms(3) lim in \<open>simp_all add: a_guard_def epoch_guard_def position_trimmed_def below_limit_def\<close>)
  qed
qed

lemma ao_get_cls:
  "cls_header codec x = Some h \<Longrightarrow> ao_get (cls_aobj codec x) p =
    (if below_limit (lh_trim_limit h) p then Some Junk else map_option (entry_value (rb_data x)) (stored_entry codec x p))"
  by (simp add: ao_get_def cls_aobj_eq)

lemma entry_read_refines:
  assumes "ob_wf ob" and "0 < epoch" and "oid \<noteq> []"
  shows "log_entry_read codec cx (fb_encode (c_read codec) \<lparr>ro_epoch = epoch, ro_position = p\<rparr>) ob
    = (a_read oid epoch p (cls_obj ob), ob)"
  using assms
proof (cases rule: guard_cases)
  case (3 x h)
  have dec: "fbs_codec_ok (c_read codec)" using codec_law by (simp add: cls_codec_ok_def)
  show ?thesis
  proof (cases "position_trimmed p h")
    case True
    then show ?thesis using 3 dec by (simp add: log_entry_read_def a_read_def ao_get_cls)
  next
    case False
    with 3(2,4) show ?thesis
    proof (cases rule: entry_read_cases [of _ _ p])
      case 1
      then show ?thesis using 3 dec False by (simp add: log_entry_read_def a_read_def ao_get_cls cls_entry_new_def)
    next
      case (2 e)
      have "cx_read cx (fe_offset e) (fe_length e) ob = Inr (take (unat (fe_length e)) (drop (unat (fe_offset e)) (rb_data x)))"
        if "\<not> fe_invalid e" "fe_bytestream e" "fe_length e \<noteq> 0"
        using read_law [OF 3(2)] 2(2) that by (simp add: entry_wf_def word_gt_0)
      then have "(if fe_invalid e then (Inl ENODATA, ob) else (entry_read_data cx \<lparr>ce_key = entry_key p, ce_exists = Some True,
          ce_invalid = fe_invalid e, ce_bytestream = fe_bytestream e, ce_data = (case fe_data e of None \<Rightarrow> '''' | Some d \<Rightarrow> d),
          ce_offset = fe_offset e, ce_length = fe_length e\<rparr> ob, ob))
        = (case entry_value (rb_data x) e of Junk \<Rightarrow> Inl ENODATA | Data d \<Rightarrow> Inr d, ob)"
        using 2(2) by (cases "fe_invalid e"; cases "fe_bytestream e") (simp_all add: entry_value_def entry_read_data_def entry_wf_def)
      moreover have "a_read oid epoch p (cls_obj ob) = (case entry_value (rb_data x) e of Junk \<Rightarrow> Inl ENODATA | Data d \<Rightarrow> Inr d)"
        using 3 False 2(1) by (simp add: a_read_def ao_get_cls)
      ultimately show ?thesis using 3(6,7) dec False 2(3) by (simp add: log_entry_read_def)
    qed
  qed
qed (use codec_law in \<open>simp_all add: log_entry_read_def a_read_def cls_codec_ok_def\<close>)

lemma store_and_max_pos:
  assumes "vw ob0 = Some x" and "cls_wf codec x" and "cls_header codec x = Some h" and "ce_key en = entry_key p"
    and ob: "vw ob = Some (x\<lparr>rb_data := rb_data x @ d\<rparr>)"
    and e: "e = \<lparr>fe_invalid = ce_invalid en, fe_bytestream = ce_bytestream en, fe_data = Some (ce_data en),
        fe_offset = ce_offset en, fe_length = ce_length en\<rparr>" "entry_wf (length (rb_data x @ d)) e"
    and "a = (Inr (), Some ((cls_aobj codec x)\<lparr>ao_entries := (ao_entries (cls_aobj codec x))(p \<mapsto> entry_value (rb_data x @ d) e)\<rparr>))"
  shows "cls_refines codec vw (case entry_write codec cx en ob of Inl err \<Rightarrow> (Inl err, obe)
    | Inr ob1 \<Rightarrow> write_max_pos codec cx p h ob1) a0 a"
proof -
  note lim = cls_wfD(1) [OF assms(2,3)]
  obtain ob1 where ob1: "entry_write codec cx en ob = Inr ob1" "vw ob1 = Some (store_entry codec p e (x\<lparr>rb_data := rb_data x @ d\<rparr>))"
    using entry_write_ok [OF assms(4), of ob] ob e(1) by auto
  have h1: "cls_header codec (store_entry codec p e (x\<lparr>rb_data := rb_data x @ d\<rparr>)) = Some h" using assms(3) by simp
  obtain ob2 y where ob2: "write_max_pos codec cx p h ob1 = (Inr '''', ob2)" "vw ob2 = Some y"
    "cls_header codec y = Some (snd (update_max_pos p h))" "rb_data y = rb_data x @ d"
    "rb_omap y = (rb_omap x)(entry_key p \<mapsto> fb_encode (c_entry codec) e)"
    by (rule write_max_pos_ok [OF ob1(2) h1 lim, of p]) simp
  have y: "stores codec x p e d (snd (update_max_pos p h)) y" using ob2 by (simp add: stores_def)
  show ?thesis
    using ob1 ob2 assms(8) wf_store [OF codec_law assms(2,3) update_max_pos_covers(1) [OF lim] e(2) y]
      aobj_store [OF codec_law assms(2,3) update_max_pos_covers(2,3) [OF lim] y]
    by (simp add: cls_refines_def)
qed

lemma set_data_ok:
  assumes "vw ob = Some x" and "cls_header codec x = Some h" and "cls_room codec x d"
    and "en = (cls_entry_new p)\<lparr>ce_exists := Some False\<rparr>"
  obtains en1 ob1 d1 where "set_data cx d (header_omap_max_size h) en ob = Inr (en1, ob1)" and "ce_key en1 = entry_key p"
    and "vw ob1 = Some (x\<lparr>rb_data := rb_data x @ d1\<rparr>)" and "\<not> ce_invalid en1"
    and "entry_wf (length (rb_data x @ d1)) \<lparr>fe_invalid = False, fe_bytestream = ce_bytestream en1, fe_data = Some (ce_data en1),
        fe_offset = ce_offset en1, fe_length = ce_length en1\<rparr>"
    and "entry_value (rb_data x @ d1) \<lparr>fe_invalid = False, fe_bytestream = ce_bytestream en1, fe_data = Some (ce_data en1),
        fe_offset = ce_offset en1, fe_length = ce_length en1\<rparr> = Data d"
proof (cases "case header_omap_max_size h of None \<Rightarrow> False | Some m \<Rightarrow> unat m \<le> length d")
  case True
  let ?off = "ucast (of_nat (length (rb_data x)) :: u64) :: u32" and ?len = "of_nat (length d) :: u32"
  have room: "length (rb_data x) + length d < 2 ^ 32"
    using True assms(2,3) by (simp add: cls_room_def split: option.splits)
  then have off: "unat ?off = length (rb_data x)" and len: "unat ?len = length d"
    by (simp_all add: unsigned_ucast_eq unsigned_of_nat take_bit_nat_def)
  obtain ob1 where ob1: "cx_write cx ?off ?len d ob = Inr ob1" "vw ob1 = Some (x\<lparr>rb_data := rb_data x @ d\<rparr>)"
    using write_law [OF assms(1), of ?off ?len d] off len by auto
  show ?thesis
    by (rule that [of "en\<lparr>ce_offset := ?off, ce_length := ?len, ce_bytestream := True\<rparr>" ob1 d])
      (use True ob1 off len assms(1,4) in \<open>simp_all add: set_data_def cls_entry_new_def entry_key_def stat_law Let_def
        entry_wf_def entry_value_def\<close>)
next
  case False
  show ?thesis
    by (rule that [of "en\<lparr>ce_bytestream := False, ce_data := d\<rparr>" ob "''''"])
      (use False assms(1,4) in \<open>simp_all add: set_data_def cls_entry_new_def entry_key_def entry_wf_def entry_value_def\<close>)
qed

lemma entry_write_refines:
  assumes "ob_wf ob" and "0 < epoch" and "oid \<noteq> []" and "\<And>x. vw ob = Some x \<Longrightarrow> cls_room codec x d"
  shows "cls_refines codec vw (log_entry_write codec cx (fb_encode (c_write codec) \<lparr>wo_epoch = epoch, wo_position = p, wo_data = Some d\<rparr>) ob)
    (cls_obj ob) (a_write oid d epoch p (cls_obj ob))"
  using assms(1-3)
proof (cases rule: guard_cases)
  case (3 x h)
  have dec: "fbs_codec_ok (c_write codec)" using codec_law by (simp add: cls_codec_ok_def)
  show ?thesis
  proof (cases "position_trimmed p h")
    case True
    then show ?thesis using 3 dec by (simp add: log_entry_write_def a_write_def ao_get_cls cls_refines_def)
  next
    case False
    with 3(2,4) show ?thesis
    proof (cases rule: entry_read_cases [of _ _ p])
      case 1
      obtain en1 ob1 d1 where en1: "set_data cx d (header_omap_max_size h) ((cls_entry_new p)\<lparr>ce_exists := Some False\<rparr>) ob = Inr (en1, ob1)"
        "ce_key en1 = entry_key p" "vw ob1 = Some (x\<lparr>rb_data := rb_data x @ d1\<rparr>)" "\<not> ce_invalid en1"
        "entry_wf (length (rb_data x @ d1)) \<lparr>fe_invalid = False, fe_bytestream = ce_bytestream en1, fe_data = Some (ce_data en1),
          fe_offset = ce_offset en1, fe_length = ce_length en1\<rparr>"
        "entry_value (rb_data x @ d1) \<lparr>fe_invalid = False, fe_bytestream = ce_bytestream en1, fe_data = Some (ce_data en1),
          fe_offset = ce_offset en1, fe_length = ce_length en1\<rparr> = Data d"
        by (rule set_data_ok [OF 3(2,3) assms(4) [OF 3(2)] refl])
      have "a_write oid d epoch p (cls_obj ob) = (Inr (), Some ((cls_aobj codec x)\<lparr>ao_entries := (ao_entries (cls_aobj codec x))(p \<mapsto> Data d)\<rparr>))"
        using 3 1(1) False by (simp add: a_write_def ao_get_cls)
      note st = store_and_max_pos [OF 3(2,4,3) en1(2,3), of _ "a_write oid d epoch p (cls_obj ob)" ob1 "cls_obj ob", OF _ _ this [folded en1(6)]]
      show ?thesis
        using st en1(1,4,5) 3(6,7) dec False 1(3) by (simp add: log_entry_write_def cong: sum.case_cong)
    next
      case (2 e)
      then show ?thesis using 3 dec False by (simp add: log_entry_write_def a_write_def ao_get_cls cls_refines_def)
    qed
  qed
qed (use codec_law in \<open>simp_all add: log_entry_write_def a_write_def cls_codec_ok_def cls_refines_def\<close>)

lemma ao_entries_idem: "ao_entries x p = Some v \<Longrightarrow> x\<lparr>ao_entries := (ao_entries x)(p \<mapsto> v)\<rparr> = x"
  by (cases x) (simp add: fun_upd_idem)

text \<open>Without a limit: a forced invalidation is a trim, one that is not forced a fill.\<close>

lemma invalidate_refines:
  assumes "ob_wf ob" and "0 < epoch" and "oid \<noteq> []"
  shows "cls_refines codec vw (log_entry_invalidate codec cx
      (fb_encode (c_invalidate codec) \<lparr>io_epoch = epoch, io_position = p, io_force = force, io_limit = False\<rparr>) ob)
    (cls_obj ob) (if force then a_trim oid epoch p False False (cls_obj ob) else a_fill oid epoch p (cls_obj ob))"
  using assms(1-3)
proof (cases rule: guard_cases)
  case (3 x h)
  have dec: "fbs_codec_ok (c_invalidate codec)" using codec_law by (simp add: cls_codec_ok_def)
  let ?a = "if force then a_trim oid epoch p False False (cls_obj ob) else a_fill oid epoch p (cls_obj ob)"
  have unchanged: "?a = (Inr (), cls_obj ob)" if "ao_get (cls_aobj codec x) p = Some Junk"
    using that 3 by (auto simp: a_trim_def a_fill_def ao_get_def Let_def ao_entries_idem split: if_splits)
  have junk: "?a = (Inr (), Some ((cls_aobj codec x)\<lparr>ao_entries := (ao_entries (cls_aobj codec x))(p \<mapsto> Junk)\<rparr>))"
    if "\<not> position_trimmed p h" "force \<or> stored_entry codec x p = None"
    using that 3 by (auto simp: a_trim_def a_fill_def ao_get_cls Let_def)
  show ?thesis
  proof (cases "position_trimmed p h")
    case True
    then have "?a = (Inr (), cls_obj ob)" using 3 by (intro unchanged) (simp add: ao_get_cls)
    then show ?thesis using 3 dec True by (simp add: log_entry_invalidate_def cls_refines_def)
  next
    case False
    with 3(2,4) show ?thesis
    proof (cases rule: entry_read_cases [of _ _ p])
      case 1
      let ?en = "(cls_entry_new p)\<lparr>ce_exists := Some False, ce_invalid := True\<rparr>"
      have "cls_refines codec vw (case entry_write codec cx ?en ob of Inl err \<Rightarrow> (Inl err, ob)
          | Inr ob1 \<Rightarrow> write_max_pos codec cx p h ob1) (cls_obj ob) ?a"
        by (rule store_and_max_pos [OF 3(2,4,3) _ _ refl, where d = "''''"])
          (use 3(2) 1(1) junk False in \<open>simp_all add: cls_entry_new_def entry_key_def entry_wf_def entry_value_def\<close>)
      then show ?thesis using 3(6,7) dec False 1(3) by (simp add: log_entry_invalidate_def cong: sum.case_cong)
    next
      case (2 e)
      show ?thesis
      proof (cases "fe_invalid e")
        case True
        then have "?a = (Inr (), cls_obj ob)" using 3 False 2(1) by (intro unchanged) (simp add: ao_get_cls entry_value_def)
        then show ?thesis using 3 dec False 2(3) True by (simp add: log_entry_invalidate_def cls_refines_def)
      next
        case valid: False
        show ?thesis
        proof (cases force)
          case True
          let ?en = "\<lparr>ce_key = entry_key p, ce_exists = Some True, ce_invalid = True, ce_bytestream = fe_bytestream e,
            ce_data = (case fe_data e of None \<Rightarrow> '''' | Some d \<Rightarrow> d), ce_offset = fe_offset e, ce_length = fe_length e\<rparr>"
          have "cls_refines codec vw (case entry_write codec cx ?en ob of Inl err \<Rightarrow> (Inl err, ob)
              | Inr ob1 \<Rightarrow> write_max_pos codec cx p h ob1) (cls_obj ob) ?a"
            by (rule store_and_max_pos [OF 3(2,4,3) _ _ refl, where d = "''''"])
              (use 3(2) junk False True in \<open>simp_all add: entry_wf_def entry_value_def\<close>)
          then show ?thesis using 3(6,7) dec False 2(3) valid True by (simp add: log_entry_invalidate_def cong: sum.case_cong)
        next
          case nf: False
          have "?a = (Inl EROFS, cls_obj ob)"
            using 3 False 2(1) valid nf by (simp add: a_fill_def ao_get_cls entry_value_def)
          then show ?thesis using 3 dec False 2(3) valid nf by (simp add: log_entry_invalidate_def cls_refines_def)
        qed
      qed
    qed
  qed
qed (use codec_law in \<open>simp_all add: log_entry_invalidate_def a_trim_def a_fill_def cls_codec_ok_def cls_refines_def\<close>)

lemma header_change:
  assumes "cls_wf codec x" and "cls_header codec x = Some h" and "lim_wf h1" and "lh_empty h1 \<longrightarrow> lh_empty h"
    and "\<not> lh_empty h \<longrightarrow> lh_max_pos h \<le> lh_max_pos h1" and "\<not> lh_empty h1 \<longrightarrow> lh_empty h \<longrightarrow> lh_trim_limit h1 \<noteq> None"
    and "lh_trim_limit h \<noteq> None \<longrightarrow> lh_trim_limit h1 \<noteq> None"
    and y: "cls_header codec y = Some h1" "rb_data y = rb_data x" "rb_omap y = rb_omap x"
  shows "cls_wf codec y" and "cls_aobj codec y = (cls_aobj codec x)\<lparr>ao_epoch := lh_epoch h1, ao_limit := lh_trim_limit h1\<rparr>"
proof -
  have st: "stored_entry codec y = stored_entry codec x" using y(3) by (simp add: stored_entry_def fun_eq_iff)
  show "cls_aobj codec y = (cls_aobj codec x)\<lparr>ao_epoch := lh_epoch h1, ao_limit := lh_trim_limit h1\<rparr>"
    by (simp add: cls_aobj_eq [OF assms(2)] cls_aobj_eq [OF y(1)] st y(2))
  have "(\<exists>e. stored_entry codec y p = Some e \<and> entry_wf (length (rb_data y)) e) \<and> \<not> lh_empty h1 \<and> p \<le> lh_max_pos h1"
    if "rb_omap y (entry_key p) \<noteq> None" for p
    using that cls_wfD(3,4) [OF assms(1,2), of p] assms(4,5) y(2,3) st by auto
  moreover have "\<not> lh_empty h1 \<longrightarrow> lh_trim_limit h1 \<noteq> None \<or> (\<exists>p. stored_entry codec y p \<noteq> None)"
    using cls_wfD(5) [OF assms(1,2)] assms(6,7) st by auto
  ultimately show "cls_wf codec y"
    using cls_wfD(2) [OF assms(1,2)] assms(3) y unfolding cls_wf_def by (intro conjI exI [of _ h1]) auto
qed

lemma limit_refines:
  assumes "ob_wf ob" and "0 < epoch" and "oid \<noteq> []" and "0 \<le> sint p"
  shows "cls_refines codec vw (log_entry_invalidate codec cx
      (fb_encode (c_invalidate codec) \<lparr>io_epoch = epoch, io_position = p, io_force = True, io_limit = True\<rparr>) ob)
    (cls_obj ob) (a_trim oid epoch p True False (cls_obj ob))"
  using assms(1-3)
proof (cases rule: guard_cases)
  case (3 x h)
  have dec: "fbs_codec_ok (c_invalidate codec)" using codec_law by (simp add: cls_codec_ok_def)
  let ?l = "case lh_trim_limit h of None \<Rightarrow> p | Some l \<Rightarrow> max p l"
  have a: "a_trim oid epoch p True False (cls_obj ob) = (Inr (), Some ((cls_aobj codec x)\<lparr>ao_limit := Some ?l\<rparr>))"
    using 3(1,8) by (auto simp: a_trim_def Let_def below_limit_def split: option.split)
  show ?thesis
  proof (cases "fst (update_trim_limit p h)")
    case True
    let ?h = "snd (update_trim_limit p h)"
    have h1: "?h = snd (update_max_pos p (h\<lparr>lh_trim_limit := Some p\<rparr>))" and l: "?l = p"
      using True by (auto simp: update_trim_limit_def max_def split: if_splits option.splits)
    have hs: "lh_epoch ?h = lh_epoch h" "lh_trim_limit ?h = Some p" "\<not> lh_empty ?h" "p \<le> lh_max_pos ?h"
      "\<not> lh_empty h \<longrightarrow> lh_max_pos h \<le> lh_max_pos ?h"
      unfolding h1 by (auto simp: update_max_pos_def header_max_pos_def)
    then have lim: "lim_wf ?h" using assms(4) by (simp add: lim_wf_def)
    obtain ob' y where y: "header_write codec cx ?h ob = Inr ob'" "vw ob' = Some y" "cls_header codec y = Some ?h"
      "rb_data y = rb_data x" "rb_omap y = rb_omap x"
      by (rule header_write_ok [OF lim, of ob]) (simp add: 3(2))
    have "cls_wf codec y" "cls_aobj codec y = (cls_aobj codec x)\<lparr>ao_limit := Some p\<rparr>"
      using header_change [OF 3(4,3) lim _ _ _ _ y(3-5)] hs cls_aobj_eq [OF 3(3)] by simp_all
    then show ?thesis
      using 3(6,7) dec True y a l by (simp add: log_entry_invalidate_def cls_refines_def case_prod_unfold Let_def)
  next
    case False
    then obtain l where "lh_trim_limit h = Some l" "p \<le> l" by (auto simp: update_trim_limit_def split: if_splits option.splits)
    then have "(cls_aobj codec x)\<lparr>ao_limit := Some ?l\<rparr> = cls_aobj codec x"
      by (simp add: cls_aobj_eq [OF 3(3)] max_absorb2)
    then show ?thesis
      using 3 dec False a by (simp add: log_entry_invalidate_def cls_refines_def case_prod_unfold Let_def)
  qed
qed (use codec_law in \<open>simp_all add: log_entry_invalidate_def a_trim_def cls_codec_ok_def cls_refines_def\<close>)

lemma seal_refines:
  assumes "ob_wf ob" and "oid \<noteq> []"
  shows "cls_refines codec vw (log_entry_seal codec cx
      (fb_encode (c_seal codec) \<lparr>so_epoch = epoch, so_omap_max_size = m\<rparr>) ob)
    (cls_obj ob) (a_seal oid epoch (cls_obj ob))"
proof -
  have dec: "fbs_codec_ok (c_seal codec)" using codec_law by (simp add: cls_codec_ok_def)
  consider "epoch = 0" | "epoch \<noteq> 0" "vw ob = None" | x where "epoch \<noteq> 0" "vw ob = Some x" by (cases "vw ob") auto
  then show ?thesis
  proof cases
    case 1
    then show ?thesis using dec assms(2) by (simp add: log_entry_seal_def a_seal_def cls_refines_def)
  next
    case 2
    let ?h = "log_header_new\<lparr>lh_omap_max_size := m, lh_epoch := epoch\<rparr>"
    have lim: "lim_wf ?h" by (simp add: lim_wf_def log_header_new_def)
    obtain ob' y where y: "header_write codec cx ?h ob = Inr ob'" "vw ob' = Some y" "cls_header codec y = Some ?h"
      "rb_data y = ''''" "rb_omap y = Map.empty"
      by (rule header_write_ok [OF lim, of ob]) (simp add: 2(2) robj_empty_def)
    then have "cls_wf codec y" "cls_aobj codec y = ao_init\<lparr>ao_epoch := epoch\<rparr>"
      using lim by (simp_all add: cls_wf_def cls_aobj_eq stored_entry_def ao_init_def log_header_new_def)
    then show ?thesis
      using 2 y(1,2) dec assms(2) by (simp add: log_entry_seal_def a_seal_def cls_refines_def header_read_absent word_less_1)
  next
    case (3 x)
    then have wf: "cls_wf codec x" using assms(1) by (simp add: ob_wf_def)
    then obtain h where h: "cls_header codec x = Some h" by (auto simp: cls_wf_def)
    note rd = header_read_ok [OF 3(2) h]
    have ep: "ao_epoch (cls_aobj codec x) = lh_epoch h" by (simp add: cls_aobj_eq [OF h])
    show ?thesis
    proof (cases "epoch \<le> lh_epoch h")
      case True
      then show ?thesis using 3 rd ep dec assms(2) by (simp add: log_entry_seal_def a_seal_def cls_refines_def word_less_1)
    next
      case False
      let ?h = "h\<lparr>lh_omap_max_size := m, lh_epoch := epoch\<rparr>"
      have lim: "lim_wf ?h" using cls_wfD(1) [OF wf h] by (simp add: lim_wf_def)
      obtain ob' y where y: "header_write codec cx ?h ob = Inr ob'" "vw ob' = Some y" "cls_header codec y = Some ?h"
        "rb_data y = rb_data x" "rb_omap y = rb_omap x"
        by (rule header_write_ok [OF lim, of ob]) (simp add: 3(2))
      have "cls_wf codec y" "cls_aobj codec y = (cls_aobj codec x)\<lparr>ao_epoch := epoch\<rparr>"
        using header_change [OF wf h lim _ _ _ _ y(3-5)] cls_aobj_eq [OF h] by simp_all
      then show ?thesis
        using 3 rd ep dec assms(2) False y(1,2) by (simp add: log_entry_seal_def a_seal_def cls_refines_def word_less_1)
    qed
  qed
qed

lemma max_position_refines:
  assumes "ob_wf ob" and "oid \<noteq> []"
  obtains e where "log_entry_max_position codec cx (fb_encode (c_maxpos codec) ()) ob = (Inl e, ob)" and "a_maxpos_ok oid (cls_obj ob) (Inl e)"
  | reply where "log_entry_max_position codec cx (fb_encode (c_maxpos codec) ()) ob = (Inr (fb_encode (c_maxpos_reply codec) reply), ob)"
    and "a_maxpos_ok oid (cls_obj ob) (Inr (if mr_empty reply then None else Some (mr_position reply)))"
proof (cases "vw ob")
  case None
  then show ?thesis using that(1) [of ENOENT] codec_law assms(2)
    by (simp add: log_entry_max_position_def header_read_absent a_maxpos_ok_def cls_codec_ok_def)
next
  case (Some x)
  then have wf: "cls_wf codec x" using assms(1) by (simp add: ob_wf_def)
  then obtain h where h: "cls_header codec x = Some h" by (auto simp: cls_wf_def)
  have low: "\<not> lh_empty h \<and> p \<le> lh_max_pos h" if "ao_get (cls_aobj codec x) p \<noteq> None" for p
  proof (cases "below_limit (lh_trim_limit h) p")
    case True
    then show ?thesis using cls_wfD(1) [OF wf h] by (auto simp: below_limit_def lim_wf_def split: option.splits)
  next
    case False
    then have "rb_omap x (entry_key p) \<noteq> None" using that by (auto simp: ao_get_cls [OF h] stored_entry_def split: option.splits)
    then show ?thesis by (rule cls_wfD(4) [OF wf h])
  qed
  have some: "\<exists>p. ao_get (cls_aobj codec x) p \<noteq> None" if "\<not> lh_empty h"
    using cls_wfD(5) [OF wf h that]
    by (auto simp: ao_get_cls [OF h] below_limit_def)
  let ?r = "case header_max_pos h of Some p \<Rightarrow> \<lparr>mr_empty = False, mr_position = p\<rparr> | None \<Rightarrow> \<lparr>mr_empty = True, mr_position = 0\<rparr>"
  have "a_maxpos_ok oid (cls_obj ob) (Inr (if mr_empty ?r then None else Some (mr_position ?r)))"
  proof (cases "lh_empty h")
    case True
    then have "ao_get (cls_aobj codec x) p = None" for p using low [of p] by blast
    then show ?thesis using True Some assms(2) by (simp add: a_maxpos_ok_def header_max_pos_def)
  next
    case False
    then show ?thesis using low some [OF False] Some assms(2) by (simp add: a_maxpos_ok_def header_max_pos_def)
  qed
  then show ?thesis
    by (intro that(2) [of ?r]) (use codec_law in \<open>simp_all add: log_entry_max_position_def header_read_ok [OF Some h] cls_codec_ok_def\<close>)
qed

end

end
