(* ===== verification/Cls_Head.thy ===== *)
theory Cls_Head
  imports Cls_Store
begin

text \<open>
  The object class on head objects: the sequence of views, the log's prefix and the counter of unique ids.
\<close>

section \<open>Representation\<close>

text \<open>\<open>x\<close> is the head object of a log with prefix \<open>pf\<close> and the views \<open>vs\<close>.\<close>

definition head_rep :: "cls_codec \<Rightarrow> robj \<Rightarrow> string \<Rightarrow> string list \<Rightarrow> bool" where
  "head_rep codec x pf vs \<longleftrightarrow> pf \<noteq> '''' \<and> CHR 0x00 \<notin> set pf \<and> length vs < 2 ^ 64
     \<and> (\<exists>bl. rb_xattrs x ''zlog.head.header'' = Some bl
          \<and> fb_decode (c_head codec) bl = Some \<lparr>fd_epoch = of_nat (length vs), fd_prefix = Some pf\<rparr>)
     \<and> (\<forall>i<length vs. rb_omap x (view_key (of_nat (Suc i))) = Some (vs ! i))"

text \<open>The last id handed out, 0 at first; \<^const>\<open>None\<close> when what is stored makes no sense.\<close>

definition stored_uid :: "cls_codec \<Rightarrow> robj option \<Rightarrow> u64 option" where
  "stored_uid codec x =
     (case x of
        None \<Rightarrow> Some 0
      | Some y \<Rightarrow> (case rb_xattrs y ''zlog.unique_id'' of
          None \<Rightarrow> Some 0
        | Some bl \<Rightarrow> (case fb_decode (c_unique codec) bl of None \<Rightarrow> None | Some u \<Rightarrow> if u = 0 then None else Some u)))"

lemma view_index_inject:
  assumes "Suc i < 2 ^ 64" and "Suc j < 2 ^ 64"
  shows "(of_nat (Suc i) :: u64) = of_nat (Suc j) \<longleftrightarrow> i = j"
  using of_nat_u64_inject [of "Suc i" "Suc j"] assms by (simp del: of_nat_Suc)

context cls_server
begin

lemma head_initialize_ok:
  "vw ob = Some x \<Longrightarrow> head_rep codec x pf vs \<Longrightarrow>
   head_initialize codec cx ob = Inr \<lparr>hd_epoch = of_nat (length vs), hd_prefix = pf\<rparr>"
  by (auto simp: head_initialize_def getxattr head_rep_def)

lemma head_finalize_ok:
  obtains ob' where "head_finalize codec cx \<lparr>hd_epoch = n, hd_prefix = pf\<rparr> ob = Inr ob'"
    and "vw ob' = Some (robj_of (vw ob)\<lparr>rb_xattrs := (rb_xattrs (robj_of (vw ob)))(''zlog.head.header'' \<mapsto>
      fb_encode (c_head codec) \<lparr>fd_epoch = n, fd_prefix = Some (c_str pf)\<rparr>)\<rparr>)"
  using setxattr unfolding head_finalize_def by fastforce

section \<open>Views\<close>

lemma view_create_ok:
  assumes "vw ob = Some x" and "head_rep codec x pf vs" and "fst (a_propose e v vs) = Inr ()"
  obtains ob' y where "view_create codec cx (fb_encode (c_create_view codec) \<lparr>co_epoch = e, co_data = Some v\<rparr>) ob = (Inr '''', ob')"
    and "vw ob' = Some y" and "head_rep codec y pf (vs @ [v])" and "stored_uid codec (Some y) = stored_uid codec (Some x)"
proof -
  have len: "length vs < 2 ^ 64" and pf: "pf \<noteq> ''''" "CHR 0x00 \<notin> set pf" using assms(2) by (auto simp: head_rep_def)
  note p = a_propose_ok [OF assms(3) len]
  have e: "e = of_nat (length vs) + 1" "\<not> e < 1" using p(1) assms(3) by (auto simp: a_propose_def Let_def word_less_1 split: if_splits)
  obtain ob1 where ob1: "cx_map_set_val cx (view_key e) v ob = Inr ob1" "vw ob1 = Some (x\<lparr>rb_omap := (rb_omap x)(view_key e \<mapsto> v)\<rparr>)"
    using map_set_val [of "view_key e" v ob] assms(1) by auto
  obtain ob2 where ob2: "head_finalize codec cx \<lparr>hd_epoch = e, hd_prefix = pf\<rparr> ob1 = Inr ob2"
    "vw ob2 = Some (x\<lparr>rb_xattrs := (rb_xattrs x)(''zlog.head.header'' \<mapsto> fb_encode (c_head codec) \<lparr>fd_epoch = e, fd_prefix = Some pf\<rparr>),
       rb_omap := (rb_omap x)(view_key e \<mapsto> v)\<rparr>)"
    by (rule head_finalize_ok [of e pf ob1]) (simp add: ob1(2) c_str_id [OF pf(2)])
  let ?y = "x\<lparr>rb_xattrs := (rb_xattrs x)(''zlog.head.header'' \<mapsto> fb_encode (c_head codec) \<lparr>fd_epoch = e, fd_prefix = Some pf\<rparr>),
       rb_omap := (rb_omap x)(view_key e \<mapsto> v)\<rparr>"
  have suc: "e = of_nat (Suc (length vs))" by (simp add: e(1) add.commute)
  have "rb_omap ?y (view_key (of_nat (Suc i))) = Some ((vs @ [v]) ! i)" if "i < Suc (length vs)" for i
  proof (cases "i = length vs")
    case False
    then have "of_nat (Suc i) \<noteq> e"
      unfolding suc using that p(3) by (subst view_index_inject) auto
    then show ?thesis using False that assms(2) by (auto simp: head_rep_def nth_append)
  qed (simp add: suc)
  then have "head_rep codec ?y pf (vs @ [v])"
    using pf p(3) codec_law suc by (simp add: head_rep_def cls_codec_ok_def)
  moreover have "view_create codec cx (fb_encode (c_create_view codec) \<lparr>co_epoch = e, co_data = Some v\<rparr>) ob = (Inr '''', ob2)"
    using codec_law e ob1(1) ob2(1) head_initialize_ok [OF assms(1,2)]
    by (simp add: view_create_def cls_codec_ok_def head_set_epoch_def head_write_view_def)
  ultimately show ?thesis using ob2(2) by (intro that [of ob2 ?y]) (simp_all add: stored_uid_def)
qed

lemma view_create_fails:
  assumes "vw ob = Some x" and "head_rep codec x pf vs" and "fst (a_propose e v vs) = Inl err"
  shows "view_create codec cx (fb_encode (c_create_view codec) \<lparr>co_epoch = e, co_data = Some v\<rparr>) ob = (Inl err, ob)"
  using assms(3) codec_law head_initialize_ok [OF assms(1,2)]
  by (auto simp: view_create_def cls_codec_ok_def head_set_epoch_def a_propose_def Let_def word_less_1 split: if_splits)

lemma view_read_loop_ok:
  assumes "vw ob = Some x" and "head_rep codec x pf vs"
  shows "i < 2 ^ 64 \<Longrightarrow> view_read_loop cx ob (of_nat (length vs)) n (of_nat (Suc i)) acc =
    Inr (acc @ map (\<lambda>j. \<lparr>fw_epoch = of_nat (Suc j), fw_data = Some (vs ! j)\<rparr>) (take n [i..<length vs]))"
proof (induction n arbitrary: i acc)
  case (Suc n)
  have len: "length vs < 2 ^ 64" using assms(2) by (simp add: head_rep_def)
  show ?case
  proof (cases "i < length vs")
    case True
    then have u: "unat (of_nat (Suc i) :: u64) = Suc i" using len by (intro unat_of_nat_u64) simp
    then have c: "0 < (of_nat (Suc i) :: u64)" "(of_nat (Suc i) :: u64) \<le> of_nat (length vs)"
      using True len by (simp_all add: word_less_nat_alt word_le_nat_alt unat_of_nat_u64 del: of_nat_Suc)
    have "head_read_view cx (of_nat (Suc i)) ob = Inr (vs ! i)"
      using assms True by (simp add: head_read_view_def map_get_val head_rep_def)
    then have "view_read_loop cx ob (of_nat (length vs)) (Suc n) (of_nat (Suc i)) acc =
        view_read_loop cx ob (of_nat (length vs)) n (of_nat (Suc (Suc i))) (acc @ [\<lparr>fw_epoch = of_nat (Suc i), fw_data = Some (vs ! i)\<rparr>])"
      using c by (simp add: add.commute del: of_nat_Suc) (simp add: add.commute)
    also have "\<dots> = Inr (acc @ map (\<lambda>j. \<lparr>fw_epoch = of_nat (Suc j), fw_data = Some (vs ! j)\<rparr>) (take (Suc n) [i..<length vs]))"
      using Suc.IH [of "Suc i"] True len by (simp add: upt_conv_Cons del: of_nat_Suc)
    finally show ?thesis .
  next
    case False
    have "\<not> (0 < (of_nat (Suc i) :: u64) \<and> (of_nat (Suc i) :: u64) \<le> of_nat (length vs))"
    proof (cases "Suc i < 2 ^ 64")
      case True
      then show ?thesis using False len by (simp add: word_less_nat_alt word_le_nat_alt unat_of_nat_u64 del: of_nat_Suc)
    next
      case wrap: False
      then have "Suc i = 2 ^ 64" using Suc.prems by simp
      then have "(of_nat (Suc i) :: u64) = 0" by (simp only:) simp
      then show ?thesis by simp
    qed
    then show ?thesis using False by (auto simp del: of_nat_Suc)
  qed
qed simp

lemma view_read_ok:
  assumes "vw ob = Some x" and "head_rep codec x pf vs" and "0 < max_views"
  shows "view_read codec cx (fb_encode (c_read_views codec) \<lparr>vo_epoch = e, vo_max_views = max_views\<rparr>) ob =
    (Inr (fb_encode (c_views codec) (Some (map (\<lambda>(k, v). \<lparr>fw_epoch = k, fw_data = Some v\<rparr>) (a_read_views e (min max_views 100) vs)))), ob)"
proof -
  have len: "length vs < 2 ^ 64" using assms(2) by (simp add: head_rep_def)
  let ?n = "unat (min max_views 100)"
  have n: "?n = Suc (?n - 1)" using assms(3) by (simp add: min_def word_less_nat_alt)
  let ?epoch = "if e = 0 then of_nat (length vs) else e"
  have "view_read_loop cx ob (of_nat (length vs)) ?n ?epoch [] =
    Inr (map (\<lambda>(k, v). \<lparr>fw_epoch = k, fw_data = Some v\<rparr>) (a_read_views e (min max_views 100) vs))"
  proof (cases "e = 0")
    case False
    have "Suc (unat e - 1) = unat e" using False by (simp add: unat_eq_0 [symmetric])
    then have "of_nat (Suc (unat e - 1)) = e" by (simp only: of_nat_unat_u64)
    moreover have "unat e - 1 < 2 ^ 64" using unat_u64_bound [of e] by (simp add: less_imp_diff_less)
    ultimately show ?thesis
      using view_read_loop_ok [OF assms(1,2), of "unat e - 1" ?n "[]"] False
      by (simp add: a_read_views_def comp_def del: of_nat_Suc)
  next
    case True
    show ?thesis
    proof (cases "vs = []")
      case empty: True
      have "view_read_loop cx ob h n 0 acc = Inr acc" for h n acc by (cases n) simp_all
      then show ?thesis using True empty by (simp add: a_read_views_def)
    next
      case False
      then have l: "length vs = Suc (length vs - 1)" by (cases vs) simp_all
      have "view_read_loop cx ob (of_nat (length vs)) ?n (of_nat (Suc (length vs - 1))) [] =
        Inr (map (\<lambda>j. \<lparr>fw_epoch = of_nat (Suc j), fw_data = Some (vs ! j)\<rparr>) (take ?n [length vs - 1..<length vs]))"
        using view_read_loop_ok [OF assms(1,2), of "length vs - 1" ?n "[]"] len by (simp del: of_nat_Suc)
      moreover have "take ?n [length vs - 1..<length vs] = [length vs - 1]"
        using l n by (metis lessI take_Suc_Cons take_Nil upt_conv_Cons upt_rec less_irrefl)
      ultimately show ?thesis using True False l by (simp add: a_read_views_def last_conv_nth del: of_nat_Suc)
    qed
  qed
  then show ?thesis
    using codec_law head_initialize_ok [OF assms(1,2)]
    by (cases "e = 0") (simp_all add: view_read_def cls_codec_ok_def Let_def)
qed

text \<open>Asked for no views, the method returns none, whichever epoch was asked for.\<close>

lemma view_read_none:
  "vw ob = Some x \<Longrightarrow> head_rep codec x pf vs \<Longrightarrow>
   view_read codec cx (fb_encode (c_read_views codec) \<lparr>vo_epoch = e, vo_max_views = 0\<rparr>) ob = (Inr (fb_encode (c_views codec) (Some [])), ob)"
  using codec_law by (simp add: head_initialize_ok view_read_def cls_codec_ok_def Let_def)

section \<open>Creation\<close>

lemma head_init_exists:
  "vw ob = Some x \<Longrightarrow> pf \<noteq> '''' \<Longrightarrow> head_init codec cx (fb_encode (c_init_head codec) (Some pf)) ob = (Inl EEXIST, ob)"
  using codec_law by (simp add: head_init_def cls_codec_ok_def stat_law)

lemma head_init_ok:
  assumes "vw ob = None" and "pf \<noteq> ''''" and "CHR 0x00 \<notin> set pf"
  obtains ob' y where "head_init codec cx (fb_encode (c_init_head codec) (Some pf)) ob = (Inr '''', ob')"
    and "vw ob' = Some y" and "head_rep codec y pf []" and "rb_data y = ''''"
    and "rb_xattrs y = [''zlog.head.header'' \<mapsto> fb_encode (c_head codec) \<lparr>fd_epoch = 0, fd_prefix = Some pf\<rparr>]"
proof -
  let ?y = "\<lparr>rb_data = '''', rb_xattrs = [''zlog.head.header'' \<mapsto> fb_encode (c_head codec) \<lparr>fd_epoch = 0, fd_prefix = Some pf\<rparr>],
    rb_omap = Map.empty\<rparr>"
  obtain ob' where ob': "head_finalize codec cx \<lparr>hd_epoch = 0, hd_prefix = pf\<rparr> ob = Inr ob'" "vw ob' = Some ?y"
    by (rule head_finalize_ok [of 0 pf ob]) (simp add: assms(1) c_str_id [OF assms(3)] robj_empty_def)
  show ?thesis
    by (rule that [OF _ ob'(2)])
      (use codec_law assms ob'(1) in \<open>simp_all add: head_init_def cls_codec_ok_def stat_law head_rep_def\<close>)
qed

section \<open>Unique ids\<close>

lemma unique_id_read_cases:
  "case stored_uid codec (vw ob) of
     None \<Rightarrow> unique_id_read codec cx inp ob = (Inl EIO, ob)
   | Some u \<Rightarrow> if u = 0 then unique_id_read codec cx inp ob \<in> {(Inl ENOENT, ob), (Inl ENODATA, ob)}
       else unique_id_read codec cx inp ob = (Inr (fb_encode (c_unique codec) u), ob)"
  by (auto simp: stored_uid_def unique_id_read_def unique_id_stored_def getxattr split: option.splits)

lemma unique_id_write_cases:
  obtains "stored_uid codec (vw ob) = None" and "unique_id_write codec cx (fb_encode (c_unique codec) n) ob = (Inl EIO, ob)"
    | u where "stored_uid codec (vw ob) = Some u" and "n \<noteq> u + 1" and "unique_id_write codec cx (fb_encode (c_unique codec) n) ob = (Inl ESTALE, ob)"
    | u ob' where "stored_uid codec (vw ob) = Some u" and "n = u + 1" and "unique_id_write codec cx (fb_encode (c_unique codec) n) ob = (Inr '''', ob')"
      and "vw ob' = Some (robj_of (vw ob)\<lparr>rb_xattrs := (rb_xattrs (robj_of (vw ob)))(''zlog.unique_id'' \<mapsto> fb_encode (c_unique codec) n)\<rparr>)"
proof -
  have dec: "fbs_codec_ok (c_unique codec)" using codec_law by (simp add: cls_codec_ok_def)
  let ?r = "case unique_id_stored codec cx ob of
                   Inl e \<Rightarrow> if e = ENOENT \<or> e = ENODATA then Inr 0 else Inl e
                 | Inr uid \<Rightarrow> if uid = 0 then Inl EIO else Inr uid"
  have r: "?r = (case stored_uid codec (vw ob) of None \<Rightarrow> Inl EIO | Some u \<Rightarrow> Inr u)"
    by (auto simp: stored_uid_def unique_id_stored_def getxattr split: option.splits)
  obtain ob' where ob': "cx_setxattr cx ''zlog.unique_id'' (fb_encode (c_unique codec) n) ob = Inr ob'"
    "vw ob' = Some (robj_of (vw ob)\<lparr>rb_xattrs := (rb_xattrs (robj_of (vw ob)))(''zlog.unique_id'' \<mapsto> fb_encode (c_unique codec) n)\<rparr>)"
    using setxattr by blast
  show ?thesis
  proof (cases "stored_uid codec (vw ob)")
    case None
    then show ?thesis by (intro that(1)) (simp_all add: unique_id_write_def dec r)
  next
    case (Some u)
    show ?thesis
    proof (cases "n = u + 1")
      case True
      then show ?thesis using Some ob' by (intro that(3)) (simp_all add: unique_id_write_def dec r)
    next
      case False
      then show ?thesis using Some by (intro that(2)) (simp_all add: unique_id_write_def dec r)
    qed
  qed
qed

end

end
