(* ===== verification/Ceph_Store.thy ===== *)
theory Ceph_Store
  imports Ceph Cls_Head "HOL-Library.List_Lexorder" "HOL-Library.Char_ord"
begin

text \<open>
  The Ceph backend on a cluster that behaves as documented (locale \<open>rados\<close>): data calls do what the interface documents, a full trim
  empties the object, and the calls on head objects keep the sequence of views and the counter of unique ids.
\<close>

section \<open>The cluster\<close>

text \<open>\<open>objs\<close> is the content of the objects of a pool; \<open>to_u64\<close> reads a decimal number, also one with leading zeros. Keys come in the
  order of their bytes.\<close>

definition keys_after :: "robj \<Rightarrow> string \<Rightarrow> string list" where
  "keys_after x after = sorted_list_of_set {k \<in> dom (rb_omap x). after < k}"

locale rados = cls_server "rd_class api" vw codec
  for api :: "('o, 'r) rados_api" and vw :: "'o \<Rightarrow> robj option" and codec :: cls_codec +
  fixes objs :: "'r \<Rightarrow> string \<Rightarrow> robj option"
    and to_u64 :: "string \<Rightarrow> u64 option"
  assumes object_law: "\<exists>ob. rd_object api oid r = Inr ob \<and> vw ob = objs r oid"
    and commit_law: "\<exists>r'. rd_commit api oid ob r = Inr r' \<and> objs r' = (objs r)(oid := vw ob)"
    and full_read_law: "rd_read api oid r = (case objs r oid of None \<Rightarrow> Inl ENOENT | Some x \<Rightarrow> Inr (rb_data x))"
    and xattr_law: "rd_getxattr api oid k r =
      (case objs r oid of None \<Rightarrow> Inl ENOENT | Some x \<Rightarrow> (case rb_xattrs x k of None \<Rightarrow> Inl ENODATA | Some v \<Rightarrow> Inr v))"
    and create_exists: "objs r oid \<noteq> None \<Longrightarrow> rd_create_full api oid d r = Inl EEXIST"
    and create_new: "objs r oid = None \<Longrightarrow>
      \<exists>r'. rd_create_full api oid d r = Inr r' \<and> objs r' = (objs r)(oid \<mapsto> robj_empty\<lparr>rb_data := d\<rparr>)"
    and keys_law: "objs r oid = Some x \<Longrightarrow> finite (dom (rb_omap x)) \<Longrightarrow>
      rd_omap_get_keys api oid after n r = Inr (take n (keys_after x after))"
    and vals_law: "objs r oid = Some x \<Longrightarrow> finite (dom (rb_omap x)) \<Longrightarrow>
      rd_omap_get_vals api oid after n r =
        Inr (map (\<lambda>k. (k, the (rb_omap x k))) (take n (keys_after x after)), n < length (keys_after x after))"
    and rm_law: "objs r oid = Some x \<Longrightarrow> \<exists>r'. rd_omap_rm_keys api oid ks r = Inr r'
      \<and> objs r' = (objs r)(oid \<mapsto> x\<lparr>rb_omap := rb_omap x |` (- set ks)\<rparr>)"
    and trunc_law: "objs r oid = Some x \<Longrightarrow> \<exists>r'. rd_trunc api oid 0 r = Inr r' \<and> objs r' = (objs r)(oid \<mapsto> x\<lparr>rb_data := ''''\<rparr>)"
    and size_law: "rd_stat api oid r = (case objs r oid of None \<Rightarrow> Inl ENOENT | Some x \<Rightarrow> Inr (length (rb_data x)))"
    and cast_law: "to_u64 (u64tostr p '''') = Some p"

section \<open>Data calls\<close>

definition pool_obj :: "cls_codec \<Rightarrow> ('r \<Rightarrow> string \<Rightarrow> robj option) \<Rightarrow> string \<Rightarrow> 'r \<Rightarrow> aobj option" where
  "pool_obj codec objs oid r = map_option (cls_aobj codec) (objs r oid)"

definition pool_wf :: "cls_codec \<Rightarrow> ('r \<Rightarrow> string \<Rightarrow> robj option) \<Rightarrow> string \<Rightarrow> 'r \<Rightarrow> bool" where
  "pool_wf codec objs oid r \<longleftrightarrow> (\<forall>x. objs r oid = Some x \<longrightarrow> cls_wf codec x)"

text \<open>A call on the object \<open>oid\<close> that finds the pool \<open>r\<close> refines an abstract call: same code, the object becomes what the abstract call
  makes of it, no other object changes.\<close>

definition ceph_refines ::
  "cls_codec \<Rightarrow> ('r \<Rightarrow> string \<Rightarrow> robj option) \<Rightarrow> 'r \<Rightarrow> string \<Rightarrow> unit ret \<times> 'r ceph \<Rightarrow> unit ret \<times> aobj option \<Rightarrow> bool" where
  "ceph_refines codec objs r oid res a \<longleftrightarrow> fst res = fst a \<and> pool_obj codec objs oid (cp_pool (snd res)) = snd a
     \<and> pool_wf codec objs oid (cp_pool (snd res)) \<and> (\<forall>oid'. oid' \<noteq> oid \<longrightarrow> objs (cp_pool (snd res)) oid' = objs r oid')"

definition found :: "'r ceph \<Rightarrow> 'r" where
  "found s = cp_pool (others_run s)"

lemma others_run_sel [simp]:
  "cp_omap_max_size (others_run s) = cp_omap_max_size s" "cp_uuids (others_run s) = cp_uuids s"
  "cp_next_uuid (others_run s) = cp_next_uuid s" "cp_env (others_run s) = cp_env s"
  by (simp_all add: others_run_def)

context rados
begin

lemma exec_cases:
  assumes "map_of cls_init m = Some f"
  obtains ob r1 where "vw ob = objs r oid"
    and "rados_exec codec api oid (m, inp) r = (fst (f codec (rd_class api) inp ob), r1)"
    and "objs r1 = (case fst (f codec (rd_class api) inp ob) of
        Inl _ \<Rightarrow> objs r | Inr _ \<Rightarrow> (objs r)(oid := vw (snd (f codec (rd_class api) inp ob))))"
proof -
  obtain ob where ob: "rd_object api oid r = Inr ob" "vw ob = objs r oid" using object_law by blast
  obtain ret ob1 where f: "f codec (rd_class api) inp ob = (ret, ob1)" by force
  obtain r1 where r1: "rd_commit api oid ob1 r = Inr r1" "objs r1 = (objs r)(oid := vw ob1)" using commit_law by blast
  show ?thesis
    by (rule that [OF ob(2), of "case ret of Inl _ \<Rightarrow> r | Inr _ \<Rightarrow> r1"])
      (use ob assms f r1 in \<open>simp_all add: rados_exec_def split: sum.split\<close>)
qed

lemma operate_eq: "operate codec api oid call s = (fst (rados_exec codec api oid call (found s)),
    (others_run s)\<lparr>cp_pool := snd (rados_exec codec api oid call (found s))\<rparr>)"
  by (simp add: operate_def found_def Let_def case_prod_unfold)

lemma operate_refines:
  assumes "map_of cls_init m = Some f" and "pool_wf codec objs oid (found s)"
    and "\<And>ob. vw ob = objs (found s) oid \<Longrightarrow>
      cls_refines codec vw (f codec (rd_class api) inp ob) (map_option (cls_aobj codec) (vw ob)) a"
  shows "ceph_refines codec objs (found s) oid (void (operate codec api oid (m, inp) s)) a"
proof -
  obtain ob r1 where ob: "vw ob = objs (found s) oid"
    and r: "rados_exec codec api oid (m, inp) (found s) = (fst (f codec (rd_class api) inp ob), r1)"
      "objs r1 = (case fst (f codec (rd_class api) inp ob) of
        Inl _ \<Rightarrow> objs (found s) | Inr _ \<Rightarrow> (objs (found s))(oid := vw (snd (f codec (rd_class api) inp ob))))"
    by (rule exec_cases [OF assms(1)])
  show ?thesis
    using assms(2) assms(3) [OF ob] ob r
    by (cases "fst (f codec (rd_class api) inp ob)")
      (auto simp: ceph_refines_def operate_eq void_def cls_refines_def pool_obj_def pool_wf_def)
qed

lemma pool_ob_wf: "pool_wf codec objs oid r \<Longrightarrow> vw ob = objs r oid \<Longrightarrow> ob_wf ob"
  by (simp add: pool_wf_def ob_wf_def)

lemma Write_refines:
  assumes "pool_wf codec objs oid (found s)" and "0 < e" and "oid \<noteq> ''''"
    and "\<And>x. objs (found s) oid = Some x \<Longrightarrow> cls_room codec x d"
  shows "ceph_refines codec objs (found s) oid (ceph_Write codec api oid d e p s) (a_write oid d e p (pool_obj codec objs oid (found s)))"
  unfolding ceph_Write_def cls_zlog_write_def using assms(3)
  by (simp, intro operate_refines [where f = log_entry_write])
    (use entry_write_refines [OF pool_ob_wf [OF assms(1)] assms(2,3)] assms in \<open>simp_all add: cls_init_def pool_obj_def\<close>)

lemma Fill_refines:
  assumes "pool_wf codec objs oid (found s)" and "0 < e" and "oid \<noteq> ''''"
  shows "ceph_refines codec objs (found s) oid (ceph_Fill codec api oid e p s) (a_fill oid e p (pool_obj codec objs oid (found s)))"
  unfolding ceph_Fill_def cls_zlog_invalidate_def using assms(3)
  by (simp, intro operate_refines [where f = log_entry_invalidate])
    (use invalidate_refines [OF pool_ob_wf [OF assms(1)] assms(2,3), where force = False] assms in \<open>simp_all add: cls_init_def pool_obj_def\<close>)

lemma invalidate_call_refines:
  assumes "pool_wf codec objs oid (found s)" and "0 < e" and "oid \<noteq> ''''" and "lim \<longrightarrow> 0 \<le> sint p"
  shows "ceph_refines codec objs (found s) oid (void (operate codec api oid (cls_zlog_invalidate codec e p True lim) s))
    (a_trim oid e p lim False (pool_obj codec objs oid (found s)))"
  unfolding cls_zlog_invalidate_def
  by (intro operate_refines [where f = log_entry_invalidate])
    (use invalidate_refines [OF pool_ob_wf [OF assms(1)] assms(2,3), where force = True]
      limit_refines [OF pool_ob_wf [OF assms(1)] assms(2,3)] assms in \<open>cases lim; simp add: cls_init_def pool_obj_def\<close>)+

lemma Trim_refines:
  assumes "pool_wf codec objs oid (found s)" and "0 < e" and "oid \<noteq> ''''" and "lim \<longrightarrow> 0 \<le> sint p"
  shows "\<exists>res. ceph_Trim fuel to_u64 codec api oid e p lim False s = Some res
    \<and> ceph_refines codec objs (found s) oid res (a_trim oid e p lim False (pool_obj codec objs oid (found s)))"
  using invalidate_call_refines [OF assms] assms(3)
  by (cases "operate codec api oid (cls_zlog_invalidate codec e p True lim) s"; cases "fst (operate codec api oid (cls_zlog_invalidate codec e p True lim) s)")
    (auto simp: ceph_Trim_def void_def)

lemma Seal_refines:
  assumes "pool_wf codec objs oid (found s)" and "oid \<noteq> ''''"
  shows "ceph_refines codec objs (found s) oid (ceph_Seal codec api oid e s) (a_seal oid e (pool_obj codec objs oid (found s)))"
  unfolding ceph_Seal_def cls_zlog_seal_def using assms(2)
  by (simp, intro operate_refines [where f = log_entry_seal])
    (use seal_refines [OF pool_ob_wf [OF assms(1)] assms(2)] assms in \<open>simp_all add: cls_init_def pool_obj_def\<close>)

lemma Read_spec:
  assumes "pool_wf codec objs oid (found s)" and "0 < e" and "oid \<noteq> ''''"
  shows "fst (ceph_Read codec api oid e p s) = a_read oid e p (pool_obj codec objs oid (found s))"
    and "objs (cp_pool (snd (ceph_Read codec api oid e p s))) = objs (found s)"
proof -
  let ?inp = "fb_encode (c_read codec) \<lparr>ro_epoch = e, ro_position = p\<rparr>"
  have m: "map_of cls_init ''entry_read'' = Some log_entry_read" by (simp add: cls_init_def)
  obtain ob r1 where ob: "vw ob = objs (found s) oid"
    "rados_exec codec api oid (''entry_read'', ?inp) (found s) = (fst (log_entry_read codec (rd_class api) ?inp ob), r1)"
    "objs r1 = (case fst (log_entry_read codec (rd_class api) ?inp ob) of
      Inl _ \<Rightarrow> objs (found s) | Inr _ \<Rightarrow> (objs (found s))(oid := vw (snd (log_entry_read codec (rd_class api) ?inp ob))))"
    by (rule exec_cases [OF m])
  have "log_entry_read codec (rd_class api) ?inp ob = (a_read oid e p (pool_obj codec objs oid (found s)), ob)"
    using entry_read_refines [OF pool_ob_wf [OF assms(1) ob(1)] assms(2,3)] ob(1) by (simp add: pool_obj_def)
  then show "fst (ceph_Read codec api oid e p s) = a_read oid e p (pool_obj codec objs oid (found s))"
    and "objs (cp_pool (snd (ceph_Read codec api oid e p s))) = objs (found s)"
    using ob assms(3) by (simp_all add: ceph_Read_def cls_zlog_read_def operate_eq fun_upd_idem split: sum.splits)
qed

lemma MaxPos_spec:
  assumes "pool_wf codec objs oid (found s)" and "oid \<noteq> ''''"
  shows "a_maxpos_ok oid (pool_obj codec objs oid (found s)) (fst (ceph_MaxPos codec api oid s))"
    and "objs (cp_pool (snd (ceph_MaxPos codec api oid s))) = objs (found s)"
proof -
  let ?inp = "fb_encode (c_maxpos codec) ()"
  have m: "map_of cls_init ''entry_max_position'' = Some log_entry_max_position" by (simp add: cls_init_def)
  have dec: "fbs_codec_ok (c_maxpos_reply codec)" using codec_law by (simp add: cls_codec_ok_def)
  obtain ob r1 where ob: "vw ob = objs (found s) oid"
    "rados_exec codec api oid (''entry_max_position'', ?inp) (found s) = (fst (log_entry_max_position codec (rd_class api) ?inp ob), r1)"
    "objs r1 = (case fst (log_entry_max_position codec (rd_class api) ?inp ob) of
      Inl _ \<Rightarrow> objs (found s) | Inr _ \<Rightarrow> (objs (found s))(oid := vw (snd (log_entry_max_position codec (rd_class api) ?inp ob))))"
    by (rule exec_cases [OF m])
  have "a_maxpos_ok oid (pool_obj codec objs oid (found s)) (fst (ceph_MaxPos codec api oid s))
    \<and> objs (cp_pool (snd (ceph_MaxPos codec api oid s))) = objs (found s)"
    using pool_ob_wf [OF assms(1) ob(1)] assms(2)
  proof (cases rule: max_position_refines)
    case (1 e)
    then show ?thesis using ob assms(2) by (simp add: ceph_MaxPos_def cls_zlog_max_position_def operate_eq pool_obj_def)
  next
    case (2 reply)
    then show ?thesis using ob assms(2) dec
      by (simp add: ceph_MaxPos_def cls_zlog_max_position_def operate_eq pool_obj_def fun_upd_idem)
  qed
  then show "a_maxpos_ok oid (pool_obj codec objs oid (found s)) (fst (ceph_MaxPos codec api oid s))"
    and "objs (cp_pool (snd (ceph_MaxPos codec api oid s))) = objs (found s)" by simp_all
qed

end

section \<open>Full trims\<close>

text \<open>No other client runs.\<close>

definition quiet_pool :: "'r ceph \<Rightarrow> bool" where
  "quiet_pool s \<longleftrightarrow> (\<forall>n r. cp_env s n r = r)"

lemma quiet_others [simp]: "quiet_pool s \<Longrightarrow> cp_pool (others_run s) = cp_pool s"
  "quiet_pool (others_run s) \<longleftrightarrow> quiet_pool s" "quiet_pool (s\<lparr>cp_pool := r\<rparr>) \<longleftrightarrow> quiet_pool s"
  by (simp_all add: quiet_pool_def others_run_def)

lemma quiet_found [simp]: "quiet_pool s \<Longrightarrow> found s = cp_pool s"
  by (simp add: found_def)

lemma entry_key_nonempty: "[] < entry_key q"
  by (simp add: entry_key_def u64tostr_def)

lemma str_find_prefix: "c # cs = pat @ s \<Longrightarrow> str_find pat (c # cs) = Some 0"
  using starts_with_append [of pat s] unfolding str_find.simps(2) by metis

lemma find_entry_key: "str_find ''zlog.data.entry.'' (entry_key q) = Some 0"
proof -
  obtain c cs where "entry_key q = c # cs" using entry_key_nonempty [of q] by (metis neq_Nil_conv less_irrefl)
  moreover have "entry_key q = ''zlog.data.entry.'' @ u64tostr q ''''" by (simp add: entry_key_def u64tostr_def)
  ultimately show ?thesis using str_find_prefix by metis
qed

lemma drop_entry_key: "drop (length ''zlog.data.entry.'') (entry_key q) = u64tostr q ''''"
  unfolding entry_key_def u64tostr_def append_eq_conv_conj by simp

lemma keys_after_step:
  assumes "finite (dom (rb_omap x))" and "dom (rb_omap x) \<subseteq> {k. after < k}"
  obtains "dom (rb_omap x) = {}" and "keys_after x after = []"
    | k where "k \<in> dom (rb_omap x)" and "take 1 (keys_after x after) = [k]" and "\<And>j. j \<in> dom (rb_omap x) \<Longrightarrow> j \<noteq> k \<Longrightarrow> k < j"
proof (cases "dom (rb_omap x) = {}")
  case True
  then show ?thesis using that(1) by (simp add: keys_after_def)
next
  case False
  let ?k = "Min (dom (rb_omap x))"
  have "{k \<in> dom (rb_omap x). after < k} = dom (rb_omap x)" using assms(2) by blast
  then have "take 1 (keys_after x after) = [?k]"
    using False assms(1) by (simp add: keys_after_def sorted_list_of_set_nonempty)
  moreover have "?k < j" if "j \<in> dom (rb_omap x)" "j \<noteq> ?k" for j using that assms(1) by (metis Min_le order_le_neq_trans)
  ultimately show ?thesis using that(2) [of ?k] Min_in [OF assms(1) False] by blast
qed

context rados
begin

lemma trim_loop_ok:
  assumes "quiet_pool s" and "objs (cp_pool s) oid = Some x" and "finite (dom (rb_omap x))"
    and "\<And>k. k \<in> dom (rb_omap x) \<Longrightarrow> after < k \<and> (\<exists>q \<le> p. k = entry_key q)" and "card (dom (rb_omap x)) < fuel"
  shows "\<exists>s'. trim_loop fuel to_u64 api oid p after s = Some (Inr (), s') \<and> quiet_pool s'
    \<and> objs (cp_pool s') = (objs (cp_pool s))(oid \<mapsto> x\<lparr>rb_omap := Map.empty\<rparr>)"
  using assms
proof (induction fuel arbitrary: s x after)
  case (Suc fuel)
  note keys = keys_law [OF Suc.prems(2,3), of after 1]
  have above: "dom (rb_omap x) \<subseteq> {k. after < k}" using Suc.prems(4) by blast
  from Suc.prems(3) above show ?case
  proof (cases rule: keys_after_step)
    case 1
    then have "x\<lparr>rb_omap := Map.empty\<rparr> = x" by (cases x) simp
    then show ?thesis
      using 1 keys Suc.prems(1,2) by (intro exI [of _ "others_run s"]) (simp add: fun_upd_idem)
  next
    case (2 k)
    then obtain q where q: "k = entry_key q" "q \<le> p" using Suc.prems(4) by blast
    have sel: "select_keys to_u64 p [k] = Inr [k]"
      using find_entry_key [of q] drop_entry_key [of q] cast_law [of q] q by (simp add: Let_def)
    let ?x = "x\<lparr>rb_omap := rb_omap x |` (- {k})\<rparr>"
    obtain r where r: "rd_omap_rm_keys api oid [k] (cp_pool s) = Inr r" "objs r = (objs (cp_pool s))(oid \<mapsto> ?x)"
      using rm_law [OF Suc.prems(2), of "[k]"] by auto
    let ?s = "(others_run (others_run s))\<lparr>cp_pool := r\<rparr>"
    have dom: "dom (rb_omap ?x) = dom (rb_omap x) - {k}" by auto
    have "\<exists>s'. trim_loop fuel to_u64 api oid p k ?s = Some (Inr (), s') \<and> quiet_pool s'
      \<and> objs (cp_pool s') = (objs (cp_pool ?s))(oid \<mapsto> ?x\<lparr>rb_omap := Map.empty\<rparr>)"
    proof (rule Suc.IH)
      show "quiet_pool ?s" "objs (cp_pool ?s) oid = Some ?x" using Suc.prems(1) r by simp_all
      show "finite (dom (rb_omap ?x))" unfolding dom using Suc.prems(3) by simp
      show "card (dom (rb_omap ?x)) < fuel" unfolding dom using Suc.prems(3,5) 2(1)        card_Suc_Diff1 [OF Suc.prems(3) 2(1)] by linarith
      show "k < j \<and> (\<exists>q \<le> p. j = entry_key q)" if "j \<in> dom (rb_omap ?x)" for j
        using that 2(3) Suc.prems(4) unfolding dom by blast
    qed
    then obtain s' where s': "trim_loop fuel to_u64 api oid p k ?s = Some (Inr (), s')" "quiet_pool s'"
      "objs (cp_pool s') = (objs (cp_pool s))(oid \<mapsto> x\<lparr>rb_omap := Map.empty\<rparr>)"
      using r(2) by auto
    have "trim_loop (Suc fuel) to_u64 api oid p after s = Some (Inr (), s')"
      using keys 2(2) sel r Suc.prems(1) s'(1) by (simp del: select_keys.simps)
    with s' show ?thesis by blast
  qed
qed simp

lemma wf_dom:
  assumes "cls_wf codec x"
  shows "dom (rb_omap x) = entry_key ` dom (ao_entries (cls_aobj codec x))"
proof -
  obtain h where h: "cls_header codec x = Some h" using assms by (auto simp: cls_wf_def)
  have "rb_omap x (entry_key q) \<noteq> None \<longleftrightarrow> ao_entries (cls_aobj codec x) q \<noteq> None" for q
    using cls_wfD(3) [OF assms h, of q] by (auto simp: cls_aobj_eq [OF h] stored_entry_def split: option.splits)
  then show ?thesis using cls_wfD(2) [OF assms h] by (auto simp: domIff image_iff) (metis domI range_ex1_eq rangeE subsetD option.distinct(1))
qed

lemma emptied:
  assumes "cls_wf codec x" and "ao_limit (cls_aobj codec x) \<noteq> None"
  shows "cls_wf codec (x\<lparr>rb_omap := Map.empty, rb_data := ''''\<rparr>)"
    and "cls_aobj codec (x\<lparr>rb_omap := Map.empty, rb_data := ''''\<rparr>) = (cls_aobj codec x)\<lparr>ao_entries := Map.empty\<rparr>"
proof -
  obtain h where h: "cls_header codec x = Some h" using assms by (auto simp: cls_wf_def)
  let ?y = "x\<lparr>rb_omap := Map.empty, rb_data := ''''\<rparr>"
  have y: "cls_header codec ?y = Some h" "stored_entry codec ?y = Map.empty"
    using h by (simp_all add: cls_header_def stored_entry_def fun_eq_iff)
  have lim: "lh_trim_limit h \<noteq> None" using assms(2) by (simp add: cls_aobj_eq [OF h])
  show "cls_wf codec ?y" using y lim cls_wfD(1) [OF assms(1) h] by (simp add: cls_wf_def)
  show "cls_aobj codec ?y = (cls_aobj codec x)\<lparr>ao_entries := Map.empty\<rparr>"
    using y by (simp add: cls_aobj_eq [OF h] cls_aobj_eq [OF y(1)])
qed

lemma a_trim_split:
  "fst (a_trim oid e p True False ob) = Inr () \<Longrightarrow> snd (a_trim oid e p True False ob) = Some y \<Longrightarrow>
   a_trim oid e p True True ob = (Inr (), Some (y\<lparr>ao_entries := Map.empty\<rparr>)) \<and> ao_limit y \<noteq> None
   \<and> (\<exists>x. ob = Some x \<and> ao_entries y = ao_entries x)"
  by (auto simp: a_trim_def Let_def below_limit_def split: sum.splits option.splits dest: a_guard_Inr)

lemma Full_trim_refines:
  assumes "quiet_pool s" and "pool_wf codec objs oid (cp_pool s)" and "0 < e" and "oid \<noteq> ''''" and "0 \<le> sint p"
    and below: "\<And>x q. pool_obj codec objs oid (cp_pool s) = Some x \<Longrightarrow> ao_entries x q \<noteq> None \<Longrightarrow> q \<le> p"
    and fuel: "\<And>x. pool_obj codec objs oid (cp_pool s) = Some x \<Longrightarrow> card (dom (ao_entries x)) < fuel"
  shows "\<exists>res. ceph_Trim fuel to_u64 codec api oid e p True True s = Some res
    \<and> ceph_refines codec objs (cp_pool s) oid res (a_trim oid e p True True (pool_obj codec objs oid (cp_pool s)))"
proof -
  let ?ob = "pool_obj codec objs oid (cp_pool s)"
  obtain ret s1 where op: "operate codec api oid (cls_zlog_invalidate codec e p True True) s = (ret, s1)" by force
  have q1: "quiet_pool s1" using op assms(1) by (auto simp: operate_eq)
  have ref: "ceph_refines codec objs (cp_pool s) oid (void (ret, s1)) (a_trim oid e p True False ?ob)"
    using invalidate_call_refines [of oid s e True p] assms op by simp
  show ?thesis
  proof (cases ret)
    case (Inl err)
    then have "a_trim oid e p True True ?ob = a_trim oid e p True False ?ob"
      using ref by (auto simp: ceph_refines_def void_def a_trim_def Let_def split: sum.splits)
    then show ?thesis using ref Inl op assms(4) by (auto simp: ceph_Trim_def void_def)
  next
    case (Inr out)
    then have ok: "fst (a_trim oid e p True False ?ob) = Inr ()" using ref by (simp add: ceph_refines_def void_def)
    then obtain y where y: "snd (a_trim oid e p True False ?ob) = Some y" by (auto simp: a_trim_def Let_def split: sum.splits)
    then obtain x1 where x1: "objs (cp_pool s1) oid = Some x1" "cls_wf codec x1" "cls_aobj codec x1 = y"
      using ref by (auto simp: ceph_refines_def pool_obj_def pool_wf_def void_def)
    note sp = a_trim_split [OF ok y]
    then obtain x where x: "?ob = Some x" "ao_entries y = ao_entries x" by blast
    have dom: "dom (rb_omap x1) = entry_key ` dom (ao_entries x)" using wf_dom [OF x1(2)] x1(3) x(2) by simp
    have fin: "finite (dom (rb_omap x1))" using x1(2) by (simp add: cls_wf_def)
    have "card (dom (rb_omap x1)) < fuel"
      unfolding dom using fuel [OF x(1)] by (simp add: card_image inj_on_def)
    moreover have "[] < k \<and> (\<exists>q \<le> p. k = entry_key q)" if "k \<in> dom (rb_omap x1)" for k
      using that below [OF x(1)] unfolding dom by (auto simp: entry_key_nonempty)
    ultimately obtain s2 where s2: "trim_loop fuel to_u64 api oid p '''' s1 = Some (Inr (), s2)" "quiet_pool s2"
      "objs (cp_pool s2) = (objs (cp_pool s1))(oid \<mapsto> x1\<lparr>rb_omap := Map.empty\<rparr>)"
      using trim_loop_ok [OF q1 x1(1) fin] by blast
    obtain r3 where r3: "rd_trunc api oid 0 (cp_pool s2) = Inr r3"
      "objs r3 = (objs (cp_pool s2))(oid \<mapsto> x1\<lparr>rb_omap := Map.empty, rb_data := ''''\<rparr>)"
      using trunc_law [of "cp_pool s2" oid "x1\<lparr>rb_omap := Map.empty\<rparr>"] s2(3) by auto
    have "ceph_Trim fuel to_u64 codec api oid e p True True s = Some (Inr (), (others_run s2)\<lparr>cp_pool := r3\<rparr>)"
      using op Inr assms(4) s2(1,2) r3(1) by (simp add: ceph_Trim_def)
    moreover have "ceph_refines codec objs (cp_pool s) oid (Inr (), (others_run s2)\<lparr>cp_pool := r3\<rparr>) (a_trim oid e p True True ?ob)"
      using emptied [OF x1(2)] x1(3) sp ref r3(2) s2(3) by (simp add: ceph_refines_def pool_obj_def pool_wf_def void_def)
    ultimately show ?thesis by blast
  qed
qed

end

end
