(* ===== verification/Ceph_Head.thy ===== *)
theory Ceph_Head
  imports Ceph_Store
begin

text \<open>
  The calls of the Ceph backend on head objects and names: views, unique ids under interference, creation and opening of logs; and
  the accounting of \<^verbatim>\<open>Stat\<close>.
\<close>

section \<open>Views\<close>

definition pool_views :: "cls_codec \<Rightarrow> ('r \<Rightarrow> string \<Rightarrow> robj option) \<Rightarrow> string \<Rightarrow> 'r \<Rightarrow> string \<Rightarrow> string list \<Rightarrow> bool" where
  "pool_views codec objs hoid r pf vs \<longleftrightarrow> (\<exists>x. objs r hoid = Some x \<and> head_rep codec x pf vs)"

lemma collect_views_ok:
  assumes "sorted_wrt (<) (map fst acc @ map fst vs)"
  shows "collect_views (map (\<lambda>(k, v). \<lparr>fw_epoch = k, fw_data = Some v\<rparr>) vs) acc = Inr (acc @ vs)"
  using assms
proof (induction vs arbitrary: acc)
  case (Cons v vs)
  have "\<forall>e\<in>set acc. fst e < fst v" using Cons.prems by (auto simp: sorted_wrt_append)
  then have "smap_emplace (fst v) (snd v) acc = (acc @ [v], True)" by (simp add: smap_emplace_last)
  then show ?case using Cons.IH [of "acc @ [v]"] Cons.prems by (simp add: case_prod_unfold)
qed simp

lemma a_read_views_sorted:
  assumes "length vs < 2 ^ 64"
  shows "sorted_wrt (<) (map fst (a_read_views e n vs))"
proof (cases "e = 0")
  case False
  have "sorted_wrt (<) (map (\<lambda>i. of_nat (Suc i) :: u64) (take m [k..<length vs]))" for m k
  proof -
    have "sorted_wrt (\<lambda>i j. (of_nat (Suc i) :: u64) < of_nat (Suc j)) [k..<length vs]"
      by (rule sorted_wrt_mono_rel [OF _ sorted_wrt_upt])
        (use assms in \<open>auto simp: word_less_nat_alt unat_of_nat_u64 simp del: of_nat_Suc\<close>)
    then show ?thesis unfolding sorted_wrt_map by (rule sorted_wrt_take)
  qed
  then show ?thesis using False by (simp add: a_read_views_def comp_def del: of_nat_Suc)
qed (simp add: a_read_views_def)

context rados
begin

lemma ReadViews_spec:
  assumes "pool_views codec objs hoid (found s) pf vs" and "hoid \<noteq> ''''" and "0 < n"
  shows "fst (ceph_ReadViews codec api hoid e n s) = Inr (a_read_views e (min n 100) vs)"
    and "objs (cp_pool (snd (ceph_ReadViews codec api hoid e n s))) = objs (found s)"
proof -
  obtain x where x: "objs (found s) hoid = Some x" "head_rep codec x pf vs" using assms(1) by (auto simp: pool_views_def)
  then have len: "length vs < 2 ^ 64" by (simp add: head_rep_def)
  let ?inp = "fb_encode (c_read_views codec) \<lparr>vo_epoch = e, vo_max_views = n\<rparr>"
  have m: "map_of cls_init ''view_read'' = Some view_read" by (simp add: cls_init_def)
  have dec: "fbs_codec_ok (c_views codec)" using codec_law by (simp add: cls_codec_ok_def)
  obtain ob r1 where ob: "vw ob = objs (found s) hoid"
    "rados_exec codec api hoid (''view_read'', ?inp) (found s) = (fst (view_read codec (rd_class api) ?inp ob), r1)"
    "objs r1 = (case fst (view_read codec (rd_class api) ?inp ob) of
      Inl _ \<Rightarrow> objs (found s) | Inr _ \<Rightarrow> (objs (found s))(hoid := vw (snd (view_read codec (rd_class api) ?inp ob))))"
    by (rule exec_cases [OF m])
  have "view_read codec (rd_class api) ?inp ob = (Inr (fb_encode (c_views codec) (Some
      (map (\<lambda>(k, v). \<lparr>fw_epoch = k, fw_data = Some v\<rparr>) (a_read_views e (min n 100) vs)))), ob)"
    using view_read_ok [OF _ x(2) assms(3)] ob(1) x(1) by simp
  moreover have "collect_views (map (\<lambda>(k, v). \<lparr>fw_epoch = k, fw_data = Some v\<rparr>) (a_read_views e (min n 100) vs)) []
      = Inr (a_read_views e (min n 100) vs)"
    using collect_views_ok [of "[]"] a_read_views_sorted [OF len] by simp
  ultimately show "fst (ceph_ReadViews codec api hoid e n s) = Inr (a_read_views e (min n 100) vs)"
    and "objs (cp_pool (snd (ceph_ReadViews codec api hoid e n s))) = objs (found s)"
    using ob assms(2) dec by (simp_all add: ceph_ReadViews_def cls_zlog_read_view_def operate_eq fun_upd_idem)
qed

lemma ProposeView_spec:
  assumes "pool_views codec objs hoid (found s) pf vs" and "hoid \<noteq> ''''"
  shows "fst (ceph_ProposeView codec api hoid e v s) = fst (a_propose e v vs)"
    and "pool_views codec objs hoid (cp_pool (snd (ceph_ProposeView codec api hoid e v s))) pf (snd (a_propose e v vs))"
    and "oid \<noteq> hoid \<Longrightarrow> objs (cp_pool (snd (ceph_ProposeView codec api hoid e v s))) oid = objs (found s) oid"
proof -
  obtain x where x: "objs (found s) hoid = Some x" "head_rep codec x pf vs" using assms(1) by (auto simp: pool_views_def)
  let ?inp = "fb_encode (c_create_view codec) \<lparr>co_epoch = e, co_data = Some v\<rparr>"
  have m: "map_of cls_init ''view_create'' = Some view_create" by (simp add: cls_init_def)
  obtain ob r1 where ob: "vw ob = objs (found s) hoid"
    "rados_exec codec api hoid (''view_create'', ?inp) (found s) = (fst (view_create codec (rd_class api) ?inp ob), r1)"
    "objs r1 = (case fst (view_create codec (rd_class api) ?inp ob) of
      Inl _ \<Rightarrow> objs (found s) | Inr _ \<Rightarrow> (objs (found s))(hoid := vw (snd (view_create codec (rd_class api) ?inp ob))))"
    by (rule exec_cases [OF m])
  have vx: "vw ob = Some x" using ob(1) x(1) by simp
  have eq: "ceph_ProposeView codec api hoid e v s = (map_sum id (\<lambda>_. ()) (fst (view_create codec (rd_class api) ?inp ob)), (others_run s)\<lparr>cp_pool := r1\<rparr>)"
    using ob(2) assms(2) by (simp add: ceph_ProposeView_def cls_zlog_create_view_def operate_eq void_def)
  have "fst (ceph_ProposeView codec api hoid e v s) = fst (a_propose e v vs)
    \<and> pool_views codec objs hoid (cp_pool (snd (ceph_ProposeView codec api hoid e v s))) pf (snd (a_propose e v vs))
    \<and> (oid \<noteq> hoid \<longrightarrow> objs (cp_pool (snd (ceph_ProposeView codec api hoid e v s))) oid = objs (found s) oid)"
  proof (cases "fst (a_propose e v vs)")
    case (Inl err)
    then have "snd (a_propose e v vs) = vs" by (auto simp: a_propose_def Let_def split: if_splits)
    then show ?thesis using view_create_fails [OF vx x(2) Inl] Inl ob(3) assms(1) eq by (simp add: pool_views_def)
  next
    case (Inr u)
    then have p: "fst (a_propose e v vs) = Inr ()" by simp
    have sn: "snd (a_propose e v vs) = vs @ [v]" using a_propose_ok(2) [OF p] x(2) by (simp add: head_rep_def)
    show ?thesis
      by (rule view_create_ok [OF vx x(2) p]) (use ob(3) p sn eq in \<open>simp add: pool_views_def\<close>)
  qed
  then show "fst (ceph_ProposeView codec api hoid e v s) = fst (a_propose e v vs)"
    and "pool_views codec objs hoid (cp_pool (snd (ceph_ProposeView codec api hoid e v s))) pf (snd (a_propose e v vs))"
    and "oid \<noteq> hoid \<Longrightarrow> objs (cp_pool (snd (ceph_ProposeView codec api hoid e v s))) oid = objs (found s) oid" by simp_all
qed

end

section \<open>Unique ids\<close>

text \<open>Other clients only raise the counter of a head object, as the object class does.\<close>

definition rising :: "cls_codec \<Rightarrow> ('r \<Rightarrow> string \<Rightarrow> robj option) \<Rightarrow> string \<Rightarrow> (nat \<Rightarrow> 'r \<Rightarrow> 'r) \<Rightarrow> bool" where
  "rising codec objs hoid env \<longleftrightarrow> (\<forall>n r u. stored_uid codec (objs r hoid) = Some u \<longrightarrow>
     (\<exists>u'. u \<le> u' \<and> stored_uid codec (objs (env n r) hoid) = Some u'))"

context rados
begin

abbreviation uid :: "string \<Rightarrow> 'r \<Rightarrow> u64 option" where
  "uid hoid r \<equiv> stored_uid codec (objs r hoid)"

lemma rising_found:
  "rising codec objs hoid (cp_env s) \<Longrightarrow> uid hoid (cp_pool s) = Some u \<Longrightarrow> \<exists>u'. u \<le> u' \<and> uid hoid (found s) = Some u'"
  by (simp add: found_def others_run_def rising_def)

lemma read_unique_id_ok:
  assumes "uid hoid (found s) = Some u"
  obtains s1 where "read_unique_id codec api hoid s = (Inr u, s1)" and "uid hoid (cp_pool s1) = Some u" and "cp_env s1 = cp_env s"
proof -
  have m: "map_of cls_init ''unique_id_read'' = Some unique_id_read" by (simp add: cls_init_def)
  have dec: "fbs_codec_ok (c_unique codec)" using codec_law by (simp add: cls_codec_ok_def)
  obtain ob r1 where ob: "vw ob = objs (found s) hoid"
    "rados_exec codec api hoid (''unique_id_read'', '''') (found s) = (fst (unique_id_read codec (rd_class api) '''' ob), r1)"
    "objs r1 = (case fst (unique_id_read codec (rd_class api) '''' ob) of
      Inl _ \<Rightarrow> objs (found s) | Inr _ \<Rightarrow> (objs (found s))(hoid := vw (snd (unique_id_read codec (rd_class api) '''' ob))))"
    by (rule exec_cases [OF m])
  have "objs r1 = objs (found s)"
    using unique_id_read_cases [where ob = ob and inp = "''''"] ob(1,3) assms by (auto split: if_splits sum.splits)
  then show ?thesis
    using unique_id_read_cases [where ob = ob and inp = "''''"] ob assms dec
    by (intro that [of "(others_run s)\<lparr>cp_pool := r1\<rparr>"])
      (auto simp: read_unique_id_def cls_zlog_read_unique_id_def operate_eq split: if_splits)
qed

lemma write_unique_id_cases:
  assumes "uid hoid (found s) = Some u"
  obtains s1 where "n \<noteq> u + 1" and "operate codec api hoid (cls_zlog_write_unique_id codec n) s = (Inl ESTALE, s1)"
      and "uid hoid (cp_pool s1) = Some u" and "cp_env s1 = cp_env s"
    | s1 where "n = u + 1" and "operate codec api hoid (cls_zlog_write_unique_id codec n) s = (Inr '''', s1)"
      and "n \<noteq> 0 \<Longrightarrow> uid hoid (cp_pool s1) = Some n" and "cp_env s1 = cp_env s"
proof -
  have m: "map_of cls_init ''unique_id_write'' = Some unique_id_write" by (simp add: cls_init_def)
  have dec: "fbs_codec_ok (c_unique codec)" using codec_law by (simp add: cls_codec_ok_def)
  let ?f = "unique_id_write codec (rd_class api) (fb_encode (c_unique codec) n)"
  obtain ob r1 where ob: "vw ob = objs (found s) hoid"
    "rados_exec codec api hoid (''unique_id_write'', fb_encode (c_unique codec) n) (found s) = (fst (?f ob), r1)"
    "objs r1 = (case fst (?f ob) of Inl _ \<Rightarrow> objs (found s) | Inr _ \<Rightarrow> (objs (found s))(hoid := vw (snd (?f ob))))"
    by (rule exec_cases [OF m])
  have op: "operate codec api hoid (cls_zlog_write_unique_id codec n) s = (fst (?f ob), (others_run s)\<lparr>cp_pool := r1\<rparr>)"
    using ob(2) by (simp add: cls_zlog_write_unique_id_def operate_eq)
  show ?thesis
  proof (cases rule: unique_id_write_cases [where ob = ob and n = n])
    case 1
    then show ?thesis using assms ob(1) by simp
  next
    case (2 u')
    then have "u' = u" using assms ob(1) by simp
    then show ?thesis using that(1) [of "(others_run s)\<lparr>cp_pool := r1\<rparr>"] 2 op ob(3) assms by simp
  next
    case (3 u' ob')
    then have "u' = u" using assms ob(1) by simp
    then show ?thesis
      using that(2) [of "(others_run s)\<lparr>cp_pool := r1\<rparr>"] 3 op ob(3) dec by (simp add: stored_uid_def)
  qed
qed

lemma uniqueId_loop_safe:
  assumes "rising codec objs hoid (cp_env s)" and "uid hoid (cp_pool s) = Some u"
    and "uniqueId_loop fuel codec api hoid s = Some (Inr n, s')" and "n \<noteq> 0"
  shows "u < n \<and> uid hoid (cp_pool s') = Some n"
  using assms
proof (induction fuel arbitrary: s u)
  case (Suc fuel)
  obtain u1 where u1: "u \<le> u1" "uid hoid (found s) = Some u1" using rising_found Suc.prems(1,2) by blast
  obtain s1 where s1: "read_unique_id codec api hoid s = (Inr u1, s1)" "uid hoid (cp_pool s1) = Some u1" "cp_env s1 = cp_env s"
    by (rule read_unique_id_ok [OF u1(2)])
  obtain u2 where u2: "u1 \<le> u2" "uid hoid (found s1) = Some u2" using rising_found [of hoid s1 u1] s1 Suc.prems(1) by auto
  show ?case
  proof (cases rule: write_unique_id_cases [OF u2(2), of "u1 + 1"])
    case (1 s2)
    then have "uniqueId_loop fuel codec api hoid s2 = Some (Inr n, s')" using Suc.prems(3) s1(1) by simp
    then have "u2 < n \<and> uid hoid (cp_pool s') = Some n"
      using Suc.IH [of s2 u2] 1 s1(3) Suc.prems(1,4) by simp
    then show ?thesis using u1(1) u2(1) by auto
  next
    case (2 s2)
    then have n: "n = u1 + 1" "s' = s2" using Suc.prems(3) s1(1) by auto
    then have "u1 < n" using Suc.prems(4) by (metis word_less_nat_alt unatSuc add.commute lessI)
    then show ?thesis using 2(3) n u1(1) Suc.prems(4) by auto
  qed
qed simp

lemma uniqueId_quiet:
  assumes "quiet_pool s" and "uid hoid (cp_pool s) = Some u" and "hoid \<noteq> ''''"
  shows "\<exists>s'. ceph_uniqueId (Suc fuel) codec api hoid s = Some (Inr (u + 1), s')"
proof -
  have f: "uid hoid (found s) = Some u" using assms by simp
  obtain s1 where s1: "read_unique_id codec api hoid s = (Inr u, s1)" "uid hoid (cp_pool s1) = Some u" "cp_env s1 = cp_env s"
    by (rule read_unique_id_ok [OF f])
  then have "quiet_pool s1" using assms(1) by (simp add: quiet_pool_def)
  then have f1: "uid hoid (found s1) = Some u" using s1(2) by simp
  show ?thesis
    by (cases rule: write_unique_id_cases [OF f1, of "u + 1"]) (use s1(1) assms(3) in \<open>simp_all add: ceph_uniqueId_def\<close>)
qed

end

section \<open>Logs\<close>

definition uuids_ok :: "'r ceph \<Rightarrow> bool" where
  "uuids_ok s \<longleftrightarrow> (\<forall>n. CHR 0x00 \<notin> set (cp_uuids s n))"

lemma link_not_head: "LinkObjectName name \<noteq> ''zlog.head.'' @ key"
  by (simp add: LinkObjectName_def)

context rados
begin

lemma InitHead_cases:
  assumes "quiet_pool s" and "CHR 0x00 \<notin> set pf" and "pf \<noteq> ''''"
  obtains s1 where "objs (cp_pool s) hoid \<noteq> None" and "InitHeadObject codec api hoid pf s = (Inl EEXIST, s1)"
      and "objs (cp_pool s1) = objs (cp_pool s)" and "quiet_pool s1" and "cp_uuids s1 = cp_uuids s"
    | s1 y where "objs (cp_pool s) hoid = None" and "InitHeadObject codec api hoid pf s = (Inr (), s1)"
      and "objs (cp_pool s1) = (objs (cp_pool s))(hoid \<mapsto> y)" and "head_rep codec y pf []" and "quiet_pool s1"
proof -
  let ?f = "head_init codec (rd_class api) (fb_encode (c_init_head codec) (Some pf))"
  have m: "map_of cls_init ''head_init'' = Some head_init" by (simp add: cls_init_def)
  obtain ob r1 where ob: "vw ob = objs (cp_pool s) hoid"
    "rados_exec codec api hoid (''head_init'', fb_encode (c_init_head codec) (Some pf)) (cp_pool s) = (fst (?f ob), r1)"
    "objs r1 = (case fst (?f ob) of Inl _ \<Rightarrow> objs (cp_pool s) | Inr _ \<Rightarrow> (objs (cp_pool s))(hoid := vw (snd (?f ob))))"
    by (rule exec_cases [OF m])
  let ?s = "(others_run s)\<lparr>cp_pool := r1\<rparr>"
  have eq: "InitHeadObject codec api hoid pf s = (map_sum id (\<lambda>_. ()) (fst (?f ob)), ?s)"
    using ob(2) assms(1,2) by (simp add: InitHeadObject_def cls_zlog_init_head_def operate_eq void_def c_str_id)
  show ?thesis
  proof (cases "objs (cp_pool s) hoid")
    case None
    then have "vw ob = None" using ob(1) by simp
    then obtain ob' y where "?f ob = (Inr '''', ob')" "vw ob' = Some y" "head_rep codec y pf []"
      using head_init_ok assms(2,3) by blast
    then show ?thesis using that(2) [of ?s y] None eq ob(3) assms(1) by simp
  next
    case (Some x)
    then have "?f ob = (Inl EEXIST, ob)" using head_init_exists ob(1) assms(3) by simp
    then show ?thesis using that(1) [of ?s] Some eq ob(3) assms(1) by simp
  qed
qed

lemma create_head_ok:
  assumes "quiet_pool s" and "uuids_ok s" and "create_head fuel codec api s = Some (rc, s1)"
  shows "\<exists>key y. rc = Inr (''zlog.head.'' @ key, ''zlog.data.'' @ key) \<and> CHR 0x00 \<notin> set key
    \<and> objs (cp_pool s) (''zlog.head.'' @ key) = None \<and> objs (cp_pool s1) = (objs (cp_pool s))(''zlog.head.'' @ key \<mapsto> y)
    \<and> head_rep codec y (''zlog.data.'' @ key) [] \<and> quiet_pool s1"
  using assms
proof (induction fuel arbitrary: s)
  case (Suc fuel)
  let ?key = "cp_uuids s (cp_next_uuid s)" and ?s = "s\<lparr>cp_next_uuid := cp_next_uuid s + 1\<rparr>"
  have q: "quiet_pool ?s" and u: "CHR 0x00 \<notin> set ?key" "CHR 0x00 \<notin> set (''zlog.data.'' @ ?key)" "''zlog.data.'' @ ?key \<noteq> ''''"
    using Suc.prems(1,2) by (simp_all add: quiet_pool_def uuids_ok_def)
  show ?case
  proof (cases rule: InitHead_cases [OF q u(2,3), of "''zlog.head.'' @ ?key"])
    case (1 t)
    then have "create_head fuel codec api t = Some (rc, s1)" "uuids_ok t"
      using Suc.prems(2,3) by (simp_all add: uuids_ok_def)
    from Suc.IH [OF 1(4) this(2,1)] show ?thesis using 1(3) by simp
  next
    case (2 t y)
    have "create_head (Suc fuel) codec api s = Some (Inr (''zlog.head.'' @ ?key, ''zlog.data.'' @ ?key), t)"
      by (simp only: create_head.simps Let_def 2(2) prod.case sum.case)
    then have rc: "rc = Inr (''zlog.head.'' @ ?key, ''zlog.data.'' @ ?key)" "s1 = t" using Suc.prems(3) by simp_all
    have pool: "cp_pool ?s = cp_pool s" by simp
    show ?thesis using rc u(1) 2(1,3-5) unfolding pool by blast
  qed
qed simp

lemma CreateLink_cases:
  assumes "quiet_pool s" and "name \<noteq> ''''" and "hoid \<noteq> ''''" and "CHR 0x00 \<notin> set hoid"
  obtains "objs (cp_pool s) (LinkObjectName name) \<noteq> None" and "CreateLinkObject codec api name hoid s = (Inl EEXIST, others_run s)"
    | s1 where "objs (cp_pool s) (LinkObjectName name) = None" and "CreateLinkObject codec api name hoid s = (Inr (), s1)" and "quiet_pool s1"
      and "objs (cp_pool s1) = (objs (cp_pool s))(LinkObjectName name \<mapsto> robj_empty\<lparr>rb_data := fb_encode (c_link codec) (Some hoid)\<rparr>)"
proof (cases "objs (cp_pool s) (LinkObjectName name)")
  case None
  obtain r where r: "rd_create_full api (LinkObjectName name) (fb_encode (c_link codec) (Some hoid)) (cp_pool s) = Inr r"
    "objs r = (objs (cp_pool s))(LinkObjectName name \<mapsto> robj_empty\<lparr>rb_data := fb_encode (c_link codec) (Some hoid)\<rparr>)"
    using create_new [OF None] by blast
  show ?thesis
    by (rule that(2) [of "(others_run s)\<lparr>cp_pool := r\<rparr>", OF None])
      (use r assms in \<open>simp_all add: CreateLinkObject_def Let_def c_str_id [OF assms(4)]\<close>)
next
  case (Some x)
  have ne: "objs (cp_pool s) (LinkObjectName name) \<noteq> None" using Some by simp
  show ?thesis
    by (rule that(1) [OF ne]) (use create_exists [OF ne] assms in \<open>simp add: CreateLinkObject_def Let_def\<close>)
qed

text \<open>In a quiet pool opening depends on the objects only.\<close>

lemma OpenLog_quiet:
  assumes "quiet_pool s"
  shows "fst (ceph_OpenLog codec api name s) =
    (if name = '''' then Inl EINVAL
     else case objs (cp_pool s) (LinkObjectName name) of
       None \<Rightarrow> Inl ENOENT
     | Some l \<Rightarrow> (case fb_decode (c_link codec) (rb_data l) of
         Some (Some hoid) \<Rightarrow> fst (open_head codec api hoid (others_run s))
       | _ \<Rightarrow> Inl EIO))"
  using assms by (simp add: ceph_OpenLog_def Let_def full_read_law split: option.split)

lemma open_head_quiet:
  assumes "quiet_pool s" and "pool_views codec objs hoid (cp_pool s) pf vs"
  shows "fst (open_head codec api hoid s) = Inr (hoid, pf)"
proof -
  obtain x bl where x: "objs (cp_pool s) hoid = Some x" "rb_xattrs x ''zlog.head.header'' = Some bl" "pf \<noteq> ''''"
    "fb_decode (c_head codec) bl = Some \<lparr>fd_epoch = of_nat (length vs), fd_prefix = Some pf\<rparr>"
    using assms(2) by (auto simp: pool_views_def head_rep_def)
  have "rd_getxattr api hoid ''zlog.head.header'' (cp_pool s) = Inr bl" using x(1,2) by (simp add: xattr_law)
  then show ?thesis using assms(1) x(3,4) by (simp add: open_head_def Let_def)
qed

end

context rados
begin

lemma CreateLog_cases:
  assumes "quiet_pool s" and "uuids_ok s" and "name \<noteq> ''''" and "ceph_CreateLog fuel codec api name v s = Some (rc, s')"
  obtains key where "rc = Inr (''zlog.head.'' @ key, ''zlog.data.'' @ key)" and "objs (cp_pool s) (LinkObjectName name) = None"
      and "objs (cp_pool s) (''zlog.head.'' @ key) = None" and "quiet_pool s'"
      and "pool_views codec objs (''zlog.head.'' @ key) (cp_pool s') (''zlog.data.'' @ key) [v]"
      and "objs (cp_pool s') (LinkObjectName name) = Some (robj_empty\<lparr>rb_data := fb_encode (c_link codec) (Some (''zlog.head.'' @ key))\<rparr>)"
      and "\<And>oid. oid \<noteq> ''zlog.head.'' @ key \<Longrightarrow> oid \<noteq> LinkObjectName name \<Longrightarrow> objs (cp_pool s') oid = objs (cp_pool s) oid"
    | "rc = Inl EEXIST" and "objs (cp_pool s) (LinkObjectName name) \<noteq> None"
proof -
  obtain rh s1 where "create_head fuel codec api s = Some (rh, s1)"
    using assms(3,4) by (cases "create_head fuel codec api s") (auto simp: ceph_CreateLog_def)
  note c1 = this
  obtain key y where rh: "rh = Inr (''zlog.head.'' @ key, ''zlog.data.'' @ key)" and c: "CHR 0x00 \<notin> set key"
    "objs (cp_pool s) (''zlog.head.'' @ key) = None" "objs (cp_pool s1) = (objs (cp_pool s))(''zlog.head.'' @ key \<mapsto> y)"
    "head_rep codec y (''zlog.data.'' @ key) []" "quiet_pool s1"
    using create_head_ok [OF assms(1,2) c1] by blast
  define h pf where hp: "h = ''zlog.head.'' @ key" "pf = ''zlog.data.'' @ key"
  have h: "h \<noteq> ''''" "CHR 0x00 \<notin> set h" "LinkObjectName name \<noteq> h" using c(1) link_not_head by (simp_all add: hp)
  have pv: "pool_views codec objs h (found s1) pf []" using c(3-5) by (simp add: pool_views_def hp)
  obtain rp s2 where p: "ceph_ProposeView codec api h 1 v s1 = (rp, s2)" by force
  have "rp = Inr ()" "pool_views codec objs h (cp_pool s2) pf [v]" "\<And>oid. oid \<noteq> h \<Longrightarrow> objs (cp_pool s2) oid = objs (cp_pool s1) oid"
    using ProposeView_spec [OF pv h(1), where e = 1 and v = v] p c(5) by (simp_all add: a_propose_def)
  note p1 = this
  have q2: "quiet_pool s2" using p c(5) h(1) by (auto simp: ceph_ProposeView_def operate_eq void_def)
  have link: "objs (cp_pool s2) (LinkObjectName name) = objs (cp_pool s) (LinkObjectName name)"
    using p1(3) [OF h(3)] h(3) c(3) [folded hp] by simp
  have cl: "ceph_CreateLog fuel codec api name v s = (case CreateLinkObject codec api name h s2 of
      (Inl e, s3) \<Rightarrow> Some (Inl e, s3) | (Inr _, s3) \<Rightarrow> Some (Inr (h, pf), s3))"
    using assms(3) c1 rh [folded hp] p p1(1) by (simp add: ceph_CreateLog_def)
  show ?thesis
  proof (cases rule: CreateLink_cases [OF q2 assms(3) h(1,2)])
    case 1
    then show ?thesis using cl assms(4) link by (intro that(2)) simp_all
  next
    case (2 s3)
    then have r: "rc = Inr (h, pf)" "s' = s3" using cl assms(4) by simp_all
    show ?thesis
      by (rule that(1) [of key, folded hp])
        (use r 2 link c(2,3) [folded hp] p1 h(3) in \<open>auto simp: pool_views_def\<close>)
  qed
qed

lemma CreateLog_returns:
  assumes "quiet_pool s" and "uuids_ok s" and "objs (cp_pool s) (''zlog.head.'' @ cp_uuids s (cp_next_uuid s)) = None"
  shows "\<exists>rc s'. ceph_CreateLog (Suc fuel) codec api name v s = Some (rc, s')"
proof -
  let ?key = "cp_uuids s (cp_next_uuid s)" and ?s = "s\<lparr>cp_next_uuid := cp_next_uuid s + 1\<rparr>"
  have q: "quiet_pool ?s" and u: "CHR 0x00 \<notin> set (''zlog.data.'' @ ?key)" "''zlog.data.'' @ ?key \<noteq> ''''"
    using assms(1,2) by (simp_all add: quiet_pool_def uuids_ok_def)
  obtain s1 where "InitHeadObject codec api (''zlog.head.'' @ ?key) (''zlog.data.'' @ ?key) ?s = (Inr (), s1)"
    by (cases rule: InitHead_cases [OF q u, of "''zlog.head.'' @ ?key"]) (use assms(3) in simp_all)
  then have "create_head (Suc fuel) codec api s = Some (Inr (''zlog.head.'' @ ?key, ''zlog.data.'' @ ?key), s1)"
    by (simp only: create_head.simps Let_def prod.case sum.case)
  then show ?thesis
    by (cases "name = ''''") (auto simp: ceph_CreateLog_def split: prod.split sum.split)
qed

lemma OpenLog_keeps:
  assumes "quiet_pool s" and "quiet_pool s'" and "fst (ceph_OpenLog codec api name s) = Inr rl"
    and "\<And>oid. objs (cp_pool s) oid \<noteq> None \<Longrightarrow> objs (cp_pool s') oid = objs (cp_pool s) oid"
  shows "fst (ceph_OpenLog codec api name s') = Inr rl"
proof -
  obtain l hoid where l: "objs (cp_pool s) (LinkObjectName name) = Some l" "fb_decode (c_link codec) (rb_data l) = Some (Some hoid)"
    "fst (open_head codec api hoid (others_run s)) = Inr rl" "name \<noteq> ''''"
    using assms(3) unfolding OpenLog_quiet [OF assms(1)] by (auto split: if_splits option.splits)
  then have "objs (cp_pool s) hoid \<noteq> None"
    using assms(1) by (cases "objs (cp_pool s) hoid") (simp_all add: open_head_def Let_def xattr_law)
  then have "fst (open_head codec api hoid (others_run s')) = fst (open_head codec api hoid (others_run s))"
    using assms(1,2) assms(4) [of hoid] by (simp add: open_head_def Let_def xattr_law split: option.split sum.split)
  then show ?thesis using l assms(4) [of "LinkObjectName name"] unfolding OpenLog_quiet [OF assms(2)] by simp
qed

end

section \<open>Sizes\<close>

lemma keys_after_Cons:
  assumes "finite (dom (rb_omap x))" and "keys_after x after = k # ks"
  shows "keys_after x k = ks"
proof -
  let ?A = "{j \<in> dom (rb_omap x). after < j}"
  have fin: "finite ?A" using assms(1) by simp
  have A: "set (k # ks) = ?A" "sorted (k # ks)" "distinct (k # ks)"
    using fin assms(2) [symmetric] by (simp_all add: keys_after_def del: set_simps sorted_simps distinct.simps)
  have "{j \<in> dom (rb_omap x). k < j} = set ks"
  proof
    show "set ks \<subseteq> {j \<in> dom (rb_omap x). k < j}" using A by (auto simp: order_less_le)
    show "{j \<in> dom (rb_omap x). k < j} \<subseteq> set ks"
    proof
      fix j
      assume j: "j \<in> {j \<in> dom (rb_omap x). k < j}"
      moreover have "after < k" using A(1) by auto
      ultimately have "j \<in> ?A" "j \<noteq> k" by (auto intro: less_trans)
      then show "j \<in> set ks" using A(1) by auto
    qed
  qed
  then show ?thesis using A(2,3) by (simp add: keys_after_def sorted_list_of_set.idem_if_sorted_distinct)
qed

definition stat_size :: "robj \<Rightarrow> nat" where
  "stat_size x = length (rb_data x) + (\<Sum>k\<leftarrow>keys_after x ''''. 20 + length (the (rb_omap x k)))"

context rados
begin

lemma stat_loop_ok:
  assumes "quiet_pool s" and "objs (cp_pool s) oid = Some x" and "finite (dom (rb_omap x))" and "length (keys_after x after) < fuel"
  shows "\<exists>s'. ceph_stat_loop fuel api oid after sz s =
    Some (Inr (sz + of_nat (\<Sum>k\<leftarrow>keys_after x after. 20 + length (the (rb_omap x k)))), s')"
  using assms
proof (induction fuel arbitrary: s after sz)
  case (Suc fuel)
  note vals = vals_law [OF Suc.prems(2,3), of after 1]
  show ?case
  proof (cases "keys_after x after")
    case Nil
    then show ?thesis using vals Suc.prems(1) by (simp add: Let_def)
  next
    case (Cons k ks)
    note rest = keys_after_Cons [OF Suc.prems(3) Cons]
    have "\<exists>s'. ceph_stat_loop fuel api oid k sz' (others_run s) = Some (Inr (sz' + of_nat (\<Sum>k\<leftarrow>ks. 20 + length (the (rb_omap x k)))), s')" for sz'
      using Suc.IH [of "others_run s" k sz'] Suc.prems Cons rest by simp
    then obtain s' where s': "ceph_stat_loop fuel api oid k (sz + 20 + of_nat (length (the (rb_omap x k)))) (others_run s) =
        Some (Inr (sz + 20 + of_nat (length (the (rb_omap x k))) + of_nat (\<Sum>k\<leftarrow>ks. 20 + length (the (rb_omap x k)))), s')" by blast
    have "ceph_stat_loop (Suc fuel) api oid after sz s = (if ks = [] then Some (Inr (sz + 20 + of_nat (length (the (rb_omap x k)))), others_run s)
        else ceph_stat_loop fuel api oid k (sz + 20 + of_nat (length (the (rb_omap x k)))) (others_run s))"
      using vals Suc.prems(1) Cons by (simp add: Let_def)
    then show ?thesis using s' Cons by (auto simp: add.assoc)
  qed
qed simp

lemma Stat_spec:
  assumes "quiet_pool s" and "oid \<noteq> ''''" and "objs (cp_pool s) oid = Some x" and "finite (dom (rb_omap x))"
    and "card (dom (rb_omap x)) < fuel"
  shows "\<exists>s'. ceph_Stat fuel api oid s = Some (Inr (of_nat (stat_size x)), s')"
proof -
  have "length (keys_after x '''') \<le> card (dom (rb_omap x))"
    unfolding keys_after_def using assms(4) by (simp add: card_mono Collect_restrict)
  then show ?thesis
    using stat_loop_ok [of "others_run s" oid x "''''" fuel "of_nat (length (rb_data x))"] assms
    by (simp add: ceph_Stat_def Let_def size_law stat_size_def)
qed

end

end
