(* ===== verification/Ceph_Example.thy ===== *)
theory Ceph_Example
  imports Ceph_Head
begin

text \<open>
  A concrete cluster and concrete table encodings that satisfy the hypotheses of the locales \<open>cls_server\<close> and \<open>rados\<close>: a pool is
  a function from names to objects, a table a list of strings.
\<close>

section \<open>Tables as text\<close>

definition enc_str :: "string \<Rightarrow> string" where
  "enc_str s = concat (map (\<lambda>c. [CHR ''c'', c]) s) @ [CHR ''e'']"

definition enc_list :: "string list \<Rightarrow> string" where
  "enc_list xs = concat (map enc_str xs)"

fun dec_list :: "string \<Rightarrow> string list" where
  "dec_list [] = []"
| "dec_list [a] = (if a = CHR ''e'' then [[]] else [])"
| "dec_list (a # c # s) =
     (if a = CHR ''e'' then [] # dec_list (c # s)
      else case dec_list s of [] \<Rightarrow> [[c]] | x # xs \<Rightarrow> (c # x) # xs)"

lemma dec_end [simp]: "dec_list (CHR ''e'' # t) = [] # dec_list t"
  by (cases t) simp_all

lemma dec_enc_str [simp]: "dec_list (enc_str s @ t) = s # dec_list t"
  by (induction s) (simp_all add: enc_str_def)

lemma dec_enc_list [simp]: "dec_list (enc_list xs) = xs"
  by (induction xs) (simp_all add: enc_list_def)

definition table_codec :: "('a \<Rightarrow> string list) \<Rightarrow> (string list \<Rightarrow> 'a option) \<Rightarrow> 'a fbs_codec" where
  "table_codec to from = \<lparr>fb_encode = (\<lambda>x. enc_list (to x)), fb_decode = (\<lambda>s. from (dec_list s))\<rparr>"

lemma table_codec_ok: "(\<And>x. from (to x) = Some x) \<Longrightarrow> fbs_codec_ok (table_codec to from)"
  by (simp add: fbs_codec_ok_def table_codec_def)

definition rd64 :: "string \<Rightarrow> u64" where
  "rd64 s = of_nat (read_dec s)"

definition rd32 :: "string \<Rightarrow> u32" where
  "rd32 s = of_nat (read_dec s)"

definition wr_bool :: "bool \<Rightarrow> string" where
  "wr_bool b = (if b then ''t'' else '''')"

definition rd_bool :: "string \<Rightarrow> bool" where
  "rd_bool s = (s \<noteq> '''')"

definition wr_opt :: "string option \<Rightarrow> string" where
  "wr_opt x = (case x of None \<Rightarrow> '''' | Some d \<Rightarrow> CHR ''s'' # d)"

definition rd_opt :: "string \<Rightarrow> string option" where
  "rd_opt s = (case s of [] \<Rightarrow> None | _ # d \<Rightarrow> Some d)"

lemma field_rt [simp]: "rd64 (show_u64 w) = w" "rd32 (show_u32 v) = v" "rd_bool (wr_bool b) = b" "rd_opt (wr_opt x) = x"
  by (simp_all add: rd64_def rd32_def show_u64_def show_u32_def wr_bool_def rd_bool_def wr_opt_def rd_opt_def split: option.split)

fun rd_views :: "string list \<Rightarrow> fbs_cls_view list" where
  "rd_views (e # d # xs) = \<lparr>fw_epoch = rd64 e, fw_data = rd_opt d\<rparr> # rd_views xs"
| "rd_views _ = []"

lemma rd_views_rt [simp]: "rd_views (concat (map (\<lambda>v. [show_u64 (fw_epoch v), wr_opt (fw_data v)]) vs)) = vs"
  by (induction vs) simp_all

definition plain_codec :: cls_codec where
  "plain_codec = \<lparr>
     c_entry = table_codec (\<lambda>e. [wr_bool (fe_invalid e), wr_bool (fe_bytestream e), wr_opt (fe_data e), show_u32 (fe_offset e), show_u32 (fe_length e)])
       (\<lambda>xs. case xs of [a, b, d, k, n] \<Rightarrow> Some \<lparr>fe_invalid = rd_bool a, fe_bytestream = rd_bool b, fe_data = rd_opt d,
          fe_offset = rd32 k, fe_length = rd32 n\<rparr> | _ \<Rightarrow> None),
     c_header = table_codec (\<lambda>h. [show_u64 (fh_epoch h), wr_bool (fh_empty h), show_u64 (fh_max_pos h), show_u32 (fh_omap_max_size h), show_u64 (fh_trim_limit h)])
       (\<lambda>xs. case xs of [a, b, d, k, n] \<Rightarrow> Some \<lparr>fh_epoch = rd64 a, fh_empty = rd_bool b, fh_max_pos = rd64 d,
          fh_omap_max_size = rd32 k, fh_trim_limit = rd64 n\<rparr> | _ \<Rightarrow> None),
     c_head = table_codec (\<lambda>h. [show_u64 (fd_epoch h), wr_opt (fd_prefix h)])
       (\<lambda>xs. case xs of [a, b] \<Rightarrow> Some \<lparr>fd_epoch = rd64 a, fd_prefix = rd_opt b\<rparr> | _ \<Rightarrow> None),
     c_views = table_codec (\<lambda>vs. case vs of None \<Rightarrow> [] | Some ws \<Rightarrow> '''' # concat (map (\<lambda>v. [show_u64 (fw_epoch v), wr_opt (fw_data v)]) ws))
       (\<lambda>xs. Some (case xs of [] \<Rightarrow> None | _ # ys \<Rightarrow> Some (rd_views ys))),
     c_unique = table_codec (\<lambda>u. [show_u64 u]) (\<lambda>xs. case xs of [a] \<Rightarrow> Some (rd64 a) | _ \<Rightarrow> None),
     c_link = table_codec (\<lambda>x. [wr_opt x]) (\<lambda>xs. case xs of [a] \<Rightarrow> Some (rd_opt a) | _ \<Rightarrow> None),
     c_read = table_codec (\<lambda>r. [show_u64 (ro_epoch r), show_u64 (ro_position r)])
       (\<lambda>xs. case xs of [a, b] \<Rightarrow> Some \<lparr>ro_epoch = rd64 a, ro_position = rd64 b\<rparr> | _ \<Rightarrow> None),
     c_write = table_codec (\<lambda>r. [show_u64 (wo_epoch r), show_u64 (wo_position r), wr_opt (wo_data r)])
       (\<lambda>xs. case xs of [a, b, d] \<Rightarrow> Some \<lparr>wo_epoch = rd64 a, wo_position = rd64 b, wo_data = rd_opt d\<rparr> | _ \<Rightarrow> None),
     c_invalidate = table_codec (\<lambda>r. [show_u64 (io_epoch r), show_u64 (io_position r), wr_bool (io_force r), wr_bool (io_limit r)])
       (\<lambda>xs. case xs of [a, b, f, l] \<Rightarrow> Some \<lparr>io_epoch = rd64 a, io_position = rd64 b, io_force = rd_bool f, io_limit = rd_bool l\<rparr> | _ \<Rightarrow> None),
     c_seal = table_codec (\<lambda>r. [show_u64 (so_epoch r), show_u32 (so_omap_max_size r)])
       (\<lambda>xs. case xs of [a, b] \<Rightarrow> Some \<lparr>so_epoch = rd64 a, so_omap_max_size = rd32 b\<rparr> | _ \<Rightarrow> None),
     c_maxpos = table_codec (\<lambda>_. []) (\<lambda>_. Some ()),
     c_maxpos_reply = table_codec (\<lambda>r. [wr_bool (mr_empty r), show_u64 (mr_position r)])
       (\<lambda>xs. case xs of [a, b] \<Rightarrow> Some \<lparr>mr_empty = rd_bool a, mr_position = rd64 b\<rparr> | _ \<Rightarrow> None),
     c_init_head = table_codec (\<lambda>x. [wr_opt x]) (\<lambda>xs. case xs of [a] \<Rightarrow> Some (rd_opt a) | _ \<Rightarrow> None),
     c_create_view = table_codec (\<lambda>r. [show_u64 (co_epoch r), wr_opt (co_data r)])
       (\<lambda>xs. case xs of [a, b] \<Rightarrow> Some \<lparr>co_epoch = rd64 a, co_data = rd_opt b\<rparr> | _ \<Rightarrow> None),
     c_read_views = table_codec (\<lambda>r. [show_u64 (vo_epoch r), show_u32 (vo_max_views r)])
       (\<lambda>xs. case xs of [a, b] \<Rightarrow> Some \<lparr>vo_epoch = rd64 a, vo_max_views = rd32 b\<rparr> | _ \<Rightarrow> None)\<rparr>"

lemma plain_codec_ok: "cls_codec_ok plain_codec"
  unfolding cls_codec_ok_def plain_codec_def cls_codec.simps
  by (intro conjI table_codec_ok) (simp_all split: option.split)

section \<open>A cluster\<close>

type_synonym sim_pool = "string \<Rightarrow> robj option"

definition sim_class :: "robj option cls_api" where
  "sim_class = \<lparr>
     cx_getxattr = (\<lambda>k ob. case ob of None \<Rightarrow> Inl ENOENT | Some x \<Rightarrow> (case rb_xattrs x k of None \<Rightarrow> Inl ENODATA | Some v \<Rightarrow> Inr v)),
     cx_setxattr = (\<lambda>k v ob. Inr (Some (robj_of ob\<lparr>rb_xattrs := (rb_xattrs (robj_of ob))(k \<mapsto> v)\<rparr>))),
     cx_map_get_val = (\<lambda>k ob. case rb_omap (robj_of ob) k of None \<Rightarrow> Inl ENOENT | Some v \<Rightarrow> Inr v),
     cx_map_set_val = (\<lambda>k v ob. Inr (Some (robj_of ob\<lparr>rb_omap := (rb_omap (robj_of ob))(k \<mapsto> v)\<rparr>))),
     cx_stat = (\<lambda>ob. case ob of None \<Rightarrow> Inl ENOENT | Some x \<Rightarrow> Inr (of_nat (length (rb_data x)))),
     cx_read = (\<lambda>off len ob. Inr (take (unat len) (drop (unat off) (rb_data (robj_of ob))))),
     cx_write = (\<lambda>off len d ob. Inr (Some (robj_of ob\<lparr>rb_data :=
       take (unat off) (rb_data (robj_of ob)) @ d @ drop (unat off + unat len) (rb_data (robj_of ob))\<rparr>)))\<rparr>"

definition sim_api :: "(robj option, sim_pool) rados_api" where
  "sim_api = \<lparr>
     rd_class = sim_class,
     rd_object = (\<lambda>oid r. Inr (r oid)),
     rd_commit = (\<lambda>oid ob r. Inr (r(oid := ob))),
     rd_read = (\<lambda>oid r. case r oid of None \<Rightarrow> Inl ENOENT | Some x \<Rightarrow> Inr (rb_data x)),
     rd_getxattr = (\<lambda>oid k r. cx_getxattr sim_class k (r oid)),
     rd_create_full = (\<lambda>oid d r. if r oid \<noteq> None then Inl EEXIST else Inr (r(oid \<mapsto> robj_empty\<lparr>rb_data := d\<rparr>))),
     rd_omap_get_keys = (\<lambda>oid after n r. case r oid of None \<Rightarrow> Inl ENOENT | Some x \<Rightarrow> Inr (take n (keys_after x after))),
     rd_omap_get_vals = (\<lambda>oid after n r. case r oid of None \<Rightarrow> Inl ENOENT
       | Some x \<Rightarrow> Inr (map (\<lambda>k. (k, the (rb_omap x k))) (take n (keys_after x after)), n < length (keys_after x after))),
     rd_omap_rm_keys = (\<lambda>oid ks r. case r oid of None \<Rightarrow> Inl ENOENT | Some x \<Rightarrow> Inr (r(oid \<mapsto> x\<lparr>rb_omap := rb_omap x |` (- set ks)\<rparr>))),
     rd_trunc = (\<lambda>oid n r. case r oid of None \<Rightarrow> Inl ENOENT | Some x \<Rightarrow> Inr (r(oid \<mapsto> x\<lparr>rb_data := take n (rb_data x)\<rparr>))),
     rd_stat = (\<lambda>oid r. case r oid of None \<Rightarrow> Inl ENOENT | Some x \<Rightarrow> Inr (length (rb_data x))),
     rd_init = (\<lambda>_. Inr ()), rd_conf_read_file = (\<lambda>_. Inr ()), rd_connect = Inr (), rd_ioctx_create = (\<lambda>_. Inr Map.empty),
     rd_pool_name = (\<lambda>_. ''zlog''), rd_application_enable = (\<lambda>_. Inr ())\<rparr>"

definition sim_u64 :: "string \<Rightarrow> u64 option" where
  "sim_u64 s = (if s \<noteq> '''' \<and> list_all is_digit s \<and> read_dec s < 2 ^ 64 then Some (of_nat (read_dec s)) else None)"

lemma sim_u64_key: "sim_u64 (u64tostr p '''') = Some p"
proof -
  have "read_dec (u64tostr p '''') = unat p" using read_dec_key [of "''''" p] by simp
  moreover have "list_all is_digit (u64tostr p '''')"
    unfolding u64tostr_def by (auto simp: list_all_iff dest: show_u64_digits) (simp add: is_digit_def)
  moreover have "u64tostr p '''' \<noteq> ''''" by (simp add: u64tostr_def)
  ultimately show ?thesis using unat_u64_bound [of p] by (simp add: sim_u64_def)
qed

interpretation sim: rados sim_api "\<lambda>ob. ob" plain_codec "\<lambda>r. r" sim_u64
  by unfold_locales
    (simp_all add: sim_api_def sim_class_def plain_codec_ok sim_u64_key split: option.splits)

definition sim_ceph :: "sim_pool ceph" where
  "sim_ceph = ceph_new Map.empty (\<lambda>n. show_nat n) (\<lambda>n r. r)"

lemma sim_quiet: "quiet_pool sim_ceph"
  by (simp add: sim_ceph_def ceph_new_def quiet_pool_def)

lemma sim_empty: "cp_pool sim_ceph = Map.empty" "found sim_ceph = Map.empty"
  by (simp_all add: sim_ceph_def ceph_new_def found_def others_run_def)

end
