(* ===== verification/Ceph_Properties.thy ===== *)
theory Ceph_Properties
  imports Ceph_Example
begin

text \<open>
  What the Ceph backend and its object class promise, for every cluster and every table encoding that keep to their documentation
  (\<^const>\<open>rados\<close>). A call finds the pool as other clients left it (\<^const>\<open>found\<close>); the class runs atomically on one object.
\<close>

section \<open>An example\<close>

definition sim_oid :: string where
  "sim_oid = ''zlog.data.0.0.0''"

definition sealed_ceph :: "sim_pool ceph" where
  "sealed_ceph = snd (ceph_Seal plain_codec sim_api sim_oid 1 sim_ceph)"

lemma sealed_ceph_quiet: "quiet_pool sealed_ceph"
  using sim_quiet by (simp add: sealed_ceph_def ceph_Seal_def sim.operate_eq void_def)

lemma sealed_ceph_ok:
  "pool_wf plain_codec (\<lambda>r. r) sim_oid (cp_pool sealed_ceph)"
  "pool_obj plain_codec (\<lambda>r. r) sim_oid (cp_pool sealed_ceph) = Some (ao_init\<lparr>ao_epoch := 1\<rparr>)"
  using sim.Seal_refines [of sim_oid sim_ceph 1]
  by (simp_all add: sealed_ceph_def sim_empty pool_wf_def ceph_refines_def sim_oid_def pool_obj_def a_seal_def)

lemma sealed_ceph_data: "\<exists>x. cp_pool sealed_ceph sim_oid = Some x \<and> rb_data x = ''''"
proof -
  have dec: "fbs_codec_ok (c_seal plain_codec)" using plain_codec_ok by (simp add: cls_codec_ok_def)
  have rd: "header_read plain_codec sim_class None = Inl ENOENT" by (simp add: header_read_def sim_class_def)
  have cls: "rd_class sim_api = sim_class" "rd_object sim_api = (\<lambda>oid r. Inr (r oid))" "rd_commit sim_api = (\<lambda>oid ob r. Inr (r(oid := ob)))"
    by (simp_all add: sim_api_def)
  have m: "map_of cls_init ''entry_seal'' = Some log_entry_seal" by (simp add: cls_init_def)
  have w: "\<exists>x. header_write plain_codec sim_class h None = Inr (Some x) \<and> rb_data x = ''''" for h
    by (simp add: header_write_def sim_class_def robj_empty_def)
  have "\<exists>x. log_entry_seal plain_codec sim_class (fb_encode (c_seal plain_codec) \<lparr>so_epoch = 1, so_omap_max_size = n\<rparr>) None = (Inr '''', Some x)
      \<and> rb_data x = ''''" for n
  proof -
    obtain x where "header_write plain_codec sim_class (log_header_new\<lparr>lh_omap_max_size := n, lh_epoch := 1\<rparr>) None = Inr (Some x)" "rb_data x = ''''"
      using w by blast
    then show ?thesis by (simp add: log_entry_seal_def dec rd)
  qed
  then obtain x where "log_entry_seal plain_codec sim_class (snd (cls_zlog_seal plain_codec 1 (cp_omap_max_size sim_ceph))) None = (Inr '''', Some x)"
    "rb_data x = ''''" unfolding cls_zlog_seal_def by fastforce
  moreover have "fst (cls_zlog_seal plain_codec 1 (cp_omap_max_size sim_ceph)) = ''entry_seal''" by (simp add: cls_zlog_seal_def)
  ultimately show ?thesis
    by (simp add: sealed_ceph_def ceph_Seal_def sim_oid_def sim.operate_eq void_def sim_empty rados_exec_def cls m)
qed

section \<open>Data calls\<close>



section \<open>Full trims\<close>



section \<open>Unique ids\<close>

text \<open>C25. Ids are unique: while other clients run, an id that a call returns is larger than every id handed out before the call and is
  the stored one when the call returns, so that a later call, by whatever client, returns a larger one.\<close>

theorem ceph_unique_ids:
  assumes "rados api vw codec objs to_u64" and "stored_uid codec (objs (cp_pool s) hoid) = Some u" and "rising codec objs hoid (cp_env s)"
    and "ceph_uniqueId f codec api hoid s = Some (Inr m, s1)" and "m \<noteq> 0"
    and "rising codec objs hoid (cp_env s2)" and "cp_pool s2 = cp_pool s1"
    and "ceph_uniqueId g codec api hoid s2 = Some (Inr n, s3)" and "n \<noteq> 0"
  shows "u < m \<and> m < n"
proof -
  have "uniqueId_loop f codec api hoid s = Some (Inr m, s1)" "uniqueId_loop g codec api hoid s2 = Some (Inr n, s3)"
    using assms(4,8) by (auto simp: ceph_uniqueId_def split: if_splits)
  note l = this
  have "u < m \<and> stored_uid codec (objs (cp_pool s1) hoid) = Some m"
    by (rule rados.uniqueId_loop_safe [OF assms(1,3,2) l(1) assms(5)])
  then show ?thesis using rados.uniqueId_loop_safe [OF assms(1,6) _ l(2) assms(9)] assms(7) by simp
qed

theorem ceph_unique_ids_witness:
  "\<exists>s1 s3. ceph_uniqueId 1 plain_codec sim_api ''zlog.head.0'' sim_ceph = Some (Inr 1, s1)
     \<and> ceph_uniqueId 1 plain_codec sim_api ''zlog.head.0'' (s1\<lparr>cp_env := \<lambda>n r. r\<rparr>) = Some (Inr 2, s3) \<and> (0 :: u64) < 1 \<and> (1 :: u64) < 2"
proof -
  have r: "rising plain_codec (\<lambda>r. r) ''zlog.head.0'' (\<lambda>n r. r)" by (auto simp: rising_def)
  have r0: "rising plain_codec (\<lambda>r. r) ''zlog.head.0'' (cp_env sim_ceph)" using r by (simp add: sim_ceph_def ceph_new_def)
  have u: "stored_uid plain_codec (cp_pool sim_ceph ''zlog.head.0'') = Some 0" by (simp add: sim_empty stored_uid_def)
  obtain s1 where s1: "ceph_uniqueId 1 plain_codec sim_api ''zlog.head.0'' sim_ceph = Some (Inr 1, s1)"
    using sim.uniqueId_quiet [OF sim_quiet u, of 0] by auto
  have "stored_uid plain_codec (cp_pool s1 ''zlog.head.0'') = Some 1"
    using sim.uniqueId_loop_safe [OF r0 u, of 1 1 s1] s1 by (simp add: ceph_uniqueId_def)
  then obtain s3 where s3: "ceph_uniqueId 1 plain_codec sim_api ''zlog.head.0'' (s1\<lparr>cp_env := \<lambda>n r. r\<rparr>) = Some (Inr 2, s3)"
    using sim.uniqueId_quiet [of "s1\<lparr>cp_env := \<lambda>n r. r\<rparr>" "''zlog.head.0''" 1 0] by (auto simp: quiet_pool_def)
  have "(0 :: u64) < 1 \<and> (1 :: u64) < 2"
    by (rule ceph_unique_ids [where vw = "\<lambda>ob. ob" and objs = "\<lambda>r. r", OF sim.rados_axioms u r0 s1 _ _ _ s3]) (use r in simp_all)
  with s1 s3 show ?thesis by blast
qed

section \<open>Views and logs\<close>

text \<open>C26. A proposal is accepted exactly when its epoch is the next one, is then the last view of the log, and changes no other object;
  a query returns the views from an epoch on, at most 100 of them.\<close>

theorem ceph_views:
  assumes "rados api vw codec objs to_u64" and "pool_views codec objs hoid (found s) pf vs" and "hoid \<noteq> ''''" and "0 < n"
  shows "fst (ceph_ProposeView codec api hoid e v s) = fst (a_propose e v vs)
    \<and> pool_views codec objs hoid (cp_pool (snd (ceph_ProposeView codec api hoid e v s))) pf (snd (a_propose e v vs))
    \<and> (oid \<noteq> hoid \<longrightarrow> objs (cp_pool (snd (ceph_ProposeView codec api hoid e v s))) oid = objs (found s) oid)
    \<and> fst (ceph_ReadViews codec api hoid e n s) = Inr (a_read_views e (min n 100) vs)"
  using rados.ProposeView_spec [OF assms(1-3)] rados.ReadViews_spec(1) [OF assms] by blast

text \<open>C27. In the absence of other clients a log with a new name is created at the first attempt whose UUID is fresh; it can then be opened
  by its name, has the given view as its first, and every log that could be opened before still can.\<close>

theorem ceph_create_then_open:
  assumes "rados api vw codec objs to_u64" and "quiet_pool s" and "uuids_ok s" and "name \<noteq> ''''"
    and "objs (cp_pool s) (LinkObjectName name) = None" and "objs (cp_pool s) (''zlog.head.'' @ cp_uuids s (cp_next_uuid s)) = None"
  shows "\<exists>h pf s'. ceph_CreateLog (Suc fuel) codec api name v s = Some (Inr (h, pf), s')
    \<and> fst (ceph_OpenLog codec api name s') = Inr (h, pf) \<and> fst (ceph_ReadViews codec api h 0 1 s') = Inr [(1, v)]
    \<and> (\<forall>other rl. fst (ceph_OpenLog codec api other s) = Inr rl \<longrightarrow> fst (ceph_OpenLog codec api other s') = Inr rl)"
proof -
  obtain rc s' where cl: "ceph_CreateLog (Suc fuel) codec api name v s = Some (rc, s')"
    using rados.CreateLog_returns [OF assms(1-3,6)] by blast
  from assms(1-4) cl show ?thesis
  proof (rule rados.CreateLog_cases)
    fix key
    let ?h = "''zlog.head.'' @ key" and ?pf = "''zlog.data.'' @ key"
    assume c: "rc = Inr (?h, ?pf)" "objs (cp_pool s) ?h = None" "quiet_pool s'" "pool_views codec objs ?h (cp_pool s') ?pf [v]"
      "objs (cp_pool s') (LinkObjectName name) = Some (robj_empty\<lparr>rb_data := fb_encode (c_link codec) (Some ?h)\<rparr>)"
      "\<And>oid. oid \<noteq> ?h \<Longrightarrow> oid \<noteq> LinkObjectName name \<Longrightarrow> objs (cp_pool s') oid = objs (cp_pool s) oid"
    have dec: "fbs_codec_ok (c_link codec)"
      using cls_server.codec_law [OF rados.axioms(1) [OF assms(1)]] by (simp add: cls_codec_ok_def)
    have h: "?h \<noteq> ''''" by simp
    have pv: "pool_views codec objs ?h (cp_pool (others_run s')) ?pf [v]" "quiet_pool (others_run s')" using c(3,4) by simp_all
    have "fst (ceph_OpenLog codec api name s') = Inr (?h, ?pf)"
      unfolding rados.OpenLog_quiet [OF assms(1) c(3)] c(5)
      using rados.open_head_quiet [OF assms(1) pv(2,1)] assms(4) fbs_codec_okD [OF dec] by simp
    moreover have "fst (ceph_ReadViews codec api ?h 0 1 s') = Inr [(1, v)]"
      using rados.ReadViews_spec(1) [OF assms(1) _ h, of s' ?pf "[v]" 1 0] c(3,4) by (simp add: a_read_views_def)
    moreover have "fst (ceph_OpenLog codec api other s') = Inr rl" if "fst (ceph_OpenLog codec api other s) = Inr rl" for other rl
      by (rule rados.OpenLog_keeps [OF assms(1,2) c(3) that]) (use c(2,6) assms(5) in metis)
    ultimately show ?thesis using cl c(1) by blast
  next
    assume "objs (cp_pool s) (LinkObjectName name) \<noteq> None"
    then show ?thesis using assms(5) by simp
  qed
qed

theorem ceph_create_then_open_witness:
  "\<exists>h pf s'. ceph_CreateLog 1 plain_codec sim_api ''log'' ''view1'' sim_ceph = Some (Inr (h, pf), s')
     \<and> fst (ceph_OpenLog plain_codec sim_api ''log'' s') = Inr (h, pf)"
proof -
  have "uuids_ok sim_ceph"
    by (auto simp: uuids_ok_def sim_ceph_def ceph_new_def is_digit_def dest!: show_nat_digits)
  then show ?thesis
    using ceph_create_then_open [OF sim.rados_axioms sim_quiet, of "''log''" 0 "''view1''"] by (auto simp: sim_empty)
qed

lemma sim_head: "\<exists>x. pool_views plain_codec (\<lambda>r. r) ''zlog.head.0'' ((\<lambda>_. None)(''zlog.head.0'' \<mapsto> x)) ''zlog.data.0'' []"
proof -
  have "fbs_codec_ok (c_head plain_codec)" using plain_codec_ok by (simp add: cls_codec_ok_def)
  then show ?thesis
    by (intro exI [of _ "robj_empty\<lparr>rb_xattrs := [''zlog.head.header'' \<mapsto> fb_encode (c_head plain_codec) \<lparr>fd_epoch = 0, fd_prefix = Some ''zlog.data.0''\<rparr>]\<rparr>"])
      (simp add: pool_views_def head_rep_def)
qed

theorem ceph_views_witness:
  "\<exists>x. fst (ceph_ProposeView plain_codec sim_api ''zlog.head.0'' 1 ''v'' (sim_ceph\<lparr>cp_pool := (\<lambda>_. None)(''zlog.head.0'' \<mapsto> x)\<rparr>)) = Inr ()"
proof -
  obtain x where x: "pool_views plain_codec (\<lambda>r. r) ''zlog.head.0'' ((\<lambda>_. None)(''zlog.head.0'' \<mapsto> x)) ''zlog.data.0'' []"
    using sim_head by blast
  let ?s = "sim_ceph\<lparr>cp_pool := (\<lambda>_. None)(''zlog.head.0'' \<mapsto> x)\<rparr>"
  have "found ?s = (\<lambda>_. None)(''zlog.head.0'' \<mapsto> x)" using sim_quiet by simp
  then have "fst (ceph_ProposeView plain_codec sim_api ''zlog.head.0'' 1 ''v'' ?s) = fst (a_propose 1 ''v'' [])"
    using ceph_views [OF sim.rados_axioms, of "''zlog.head.0''" ?s "''zlog.data.0''" "[]" 1 1 "''v''" "''''"] x by simp
  then show ?thesis by (intro exI [of _ x]) (simp add: a_propose_def)
qed

section \<open>Large objects\<close>

text \<open>The offset of an entry in the byte stream is kept in 32 bits: once the byte stream of an object has grown to 2^32 bytes, the next
  entry that goes to the byte stream overwrites its beginning.\<close>

lemma cls_offset_wraps:
  assumes "cls_server cx vw codec" and "vw ob = Some x" and "length (rb_data x) = 2 ^ 32"
    and "unat m \<le> length d" and "length d < 2 ^ 32"
  shows "\<exists>en ob'. set_data cx d (Some m) ((cls_entry_new p)\<lparr>ce_exists := Some False\<rparr>) ob = Inr (en, ob') \<and> ce_offset en = 0
    \<and> vw ob' = Some (x\<lparr>rb_data := d @ drop (length d) (rb_data x)\<rparr>)"
proof -
  have off: "ucast (of_nat (length (rb_data x)) :: u64) = (0 :: u32)" unfolding assms(3) by (simp add: word_eq_iff_unsigned)
  have len: "unat (of_nat (length d) :: u32) = length d" using assms(5) by (simp add: unat_of_nat_u32)
  obtain ob' where "cx_write cx 0 (of_nat (length d)) d ob = Inr ob'" "vw ob' = Some (x\<lparr>rb_data := d @ drop (length d) (rb_data x)\<rparr>)"
    using cls_server.write_law [OF assms(1,2), of 0 "of_nat (length d)" d] len by auto
  then show ?thesis
    using assms(2,4) off by (simp add: set_data_def cls_entry_new_def cls_server.stat_law [OF assms(1)] Let_def)
qed

lemma cls_offset_wraps_witness:
  "\<exists>en ob'. set_data sim_class ''abc'' (Some 2) ((cls_entry_new 0)\<lparr>ce_exists := Some False\<rparr>)
     (Some (robj_empty\<lparr>rb_data := replicate (2 ^ 32) CHR ''x''\<rparr>)) = Inr (en, ob') \<and> ce_offset en = 0"
proof -
  have s: "cls_server sim_class (\<lambda>ob. ob) plain_codec" using sim.cls_server_axioms by (simp add: sim_api_def)
  have l: "length (rb_data (robj_empty\<lparr>rb_data := replicate (2 ^ 32) CHR ''x''\<rparr>)) = 2 ^ 32" by (simp add: robj_empty_def)
  show ?thesis using cls_offset_wraps [OF s refl l, of 2 "''abc''" 0] by auto
qed

end
