(* ===== verification/Cache.thy ===== *)
theory Cache
  imports Options
begin

text \<open>
  The entry cache of \<^verbatim>\<open>libzlog/cache.cc\<close> with its two eviction policies, \<^verbatim>\<open>eviction/lru.cc\<close> and \<^verbatim>\<open>eviction/arc.cc\<close>. A \<^verbatim>\<open>std::list\<close> is a
  sequence of nodes with an identity, so that an iterator, the identity of its node, stays valid when the node moves to
  another list. \<^const>\<open>None\<close> is undefined behaviour: an iterator that points nowhere, the last element of an empty list. Memory pools
  and statistics are left out.
\<close>

section \<open>Lists and hash maps\<close>

type_synonym node = "nat \<times> u64"

text \<open>\<^verbatim>\<open>m.erase(k)\<close>.\<close>

definition um_erase :: "'k \<Rightarrow> ('k \<times> 'v) list \<Rightarrow> ('k \<times> 'v) list" where
  "um_erase k m = filter (\<lambda>e. fst e \<noteq> k) m"

text \<open>\<^verbatim>\<open>to.splice(to.begin(), from, it)\<close> takes a node out of one list; the caller puts it in front of the other.\<close>

definition take_node :: "nat \<Rightarrow> node list \<Rightarrow> (node \<times> node list) option" where
  "take_node n l = (case map_of l n of None \<Rightarrow> None | Some v \<Rightarrow> Some ((n, v), filter (\<lambda>e. fst e \<noteq> n) l))"

definition list_back :: "node list \<Rightarrow> u64 option" where
  "list_back l = (if l = [] then None else Some (snd (last l)))"

section \<open>LRU\<close>

record lru =
  lr_hash :: "(u64 \<times> nat) list"
  lr_list :: "node list"
  lr_size :: nat

definition lru_new :: "nat \<Rightarrow> lru" where
  "lru_new c_size = \<lparr>lr_hash = [], lr_list = [], lr_size = c_size\<rparr>"

definition lru_get_hit :: "u64 \<Rightarrow> lru \<Rightarrow> lru option" where
  "lru_get_hit pos l =
     (case map_of (lr_hash l) pos of
        None \<Rightarrow> None
      | Some it \<Rightarrow> (case take_node it (lr_list l) of
          None \<Rightarrow> None
        | Some (nd, rest) \<Rightarrow> Some (l\<lparr>lr_list := nd # rest\<rparr>)))"

text \<open>The cache's map is changed through the pointer the policy holds; \<open>new\<close> is the identity of the node that is allocated.\<close>

definition lru_put_miss :: "nat \<Rightarrow> u64 \<Rightarrow> lru \<times> (u64 \<times> string) list \<Rightarrow> (lru \<times> (u64 \<times> string) list) option" where
  "lru_put_miss new pos lc =
     (let (l, cache_map) = lc;
          l1 = l\<lparr>lr_list := (new, pos) # lr_list l, lr_hash := um_put pos new (lr_hash l)\<rparr>
      in if lr_size l1 < length (lr_hash l1) then
           (case list_back (lr_list l1) of
              None \<Rightarrow> None
            | Some r \<Rightarrow> Some (l1\<lparr>lr_hash := um_erase r (lr_hash l1), lr_list := butlast (lr_list l1)\<rparr>, um_erase r cache_map))
         else Some (l1, cache_map))"

definition lru_get_evicted :: "lru \<Rightarrow> (u64 \<times> lru) option" where
  "lru_get_evicted l =
     (case list_back (lr_list l) of
        None \<Rightarrow> None
      | Some r \<Rightarrow> Some (r, l\<lparr>lr_hash := um_erase r (lr_hash l), lr_list := butlast (lr_list l)\<rparr>))"

section \<open>ARC\<close>

text \<open>The \<^verbatim>\<open>double\<close> operations the policy uses are a parameter: \<open>fp_gt n p\<close> is \<^verbatim>\<open>n > p\<close> and \<open>fp_le n p\<close> is \<^verbatim>\<open>n <= p\<close> for a size \<open>n\<close>, both false
  when \<open>p\<close> is not a number. The constructor leaves \<open>ar_p\<close> uninitialised, so that it is an argument of \<open>arc_new\<close>.\<close>

record 'd fp =
  fp_of_nat :: "nat \<Rightarrow> 'd"
  fp_add :: "'d \<Rightarrow> 'd \<Rightarrow> 'd"
  fp_sub :: "'d \<Rightarrow> 'd \<Rightarrow> 'd"
  fp_div :: "'d \<Rightarrow> 'd \<Rightarrow> 'd"
  fp_lt :: "'d \<Rightarrow> 'd \<Rightarrow> bool"
  fp_gt :: "nat \<Rightarrow> 'd \<Rightarrow> bool"
  fp_le :: "nat \<Rightarrow> 'd \<Rightarrow> bool"

definition fp_min :: "'d fp \<Rightarrow> 'd \<Rightarrow> 'd \<Rightarrow> 'd" where
  "fp_min f a b = (if fp_lt f b a then b else a)"

definition fp_max :: "'d fp \<Rightarrow> 'd \<Rightarrow> 'd \<Rightarrow> 'd" where
  "fp_max f a b = (if fp_lt f a b then b else a)"

record 'd arc =
  t1_hash :: "(u64 \<times> nat) list"
  b1_hash :: "(u64 \<times> nat) list"
  t2_hash :: "(u64 \<times> nat) list"
  b2_hash :: "(u64 \<times> nat) list"
  t1_list :: "node list"
  b1_list :: "node list"
  t2_list :: "node list"
  b2_list :: "node list"
  ar_c :: nat
  ar_p :: 'd

definition arc_new :: "nat \<Rightarrow> 'd \<Rightarrow> 'd arc" where
  "arc_new c p = \<lparr>t1_hash = [], b1_hash = [], t2_hash = [], b2_hash = [], t1_list = [], b1_list = [], t2_list = [],
     b2_list = [], ar_c = c, ar_p = p\<rparr>"

definition arc_get_hit :: "u64 \<Rightarrow> 'd arc \<Rightarrow> (bool \<times> 'd arc) option" where
  "arc_get_hit pos a =
     (case map_of (t1_hash a) pos of
        Some it \<Rightarrow> (case take_node it (t1_list a) of
          None \<Rightarrow> None
        | Some (nd, rest) \<Rightarrow> Some (True, a\<lparr>t1_list := rest, t2_list := nd # t2_list a,
            t2_hash := um_put pos it (t2_hash a), t1_hash := um_erase pos (t1_hash a)\<rparr>))
      | None \<Rightarrow>
          (case map_of (t2_hash a) pos of
             Some it \<Rightarrow> (case take_node it (t2_list a) of
               None \<Rightarrow> None
             | Some (nd, rest) \<Rightarrow> Some (True, a\<lparr>t2_list := nd # rest\<rparr>))
           | None \<Rightarrow> Some (False, a)))"

definition get_delta_1 :: "'d fp \<Rightarrow> 'd arc \<Rightarrow> 'd" where
  "get_delta_1 f a =
     (if length (b2_hash a) \<le> length (b1_hash a) then fp_of_nat f 1
      else fp_div f (fp_of_nat f (length (b2_hash a))) (fp_of_nat f (length (b1_hash a))))"

definition get_delta_2 :: "'d fp \<Rightarrow> 'd arc \<Rightarrow> 'd" where
  "get_delta_2 f a =
     (if length (b1_hash a) \<le> length (b2_hash a) then fp_of_nat f 1
      else fp_div f (fp_of_nat f (length (b1_hash a))) (fp_of_nat f (length (b2_hash a))))"

text \<open>\<open>new\<close> is the identity of the node that \<^verbatim>\<open>push_front\<close> allocates in the list of ghosts.\<close>

definition arc_replace ::
  "'d fp \<Rightarrow> nat \<Rightarrow> u64 \<Rightarrow> 'd arc \<times> (u64 \<times> string) list \<Rightarrow> ('d arc \<times> (u64 \<times> string) list) option" where
  "arc_replace f new pos ac =
     (let (a, cache_map) = ac; n = length (t1_hash a)
      in if 0 < n \<and> (fp_gt f n (ar_p a) \<or> map_of (b2_hash a) pos \<noteq> None \<and> fp_le f n (ar_p a)) then
           (case list_back (t1_list a) of
              None \<Rightarrow> None
            | Some r \<Rightarrow> Some (a\<lparr>t1_hash := um_erase r (t1_hash a), t1_list := butlast (t1_list a),
                b1_list := (new, r) # b1_list a, b1_hash := um_put r new (b1_hash a)\<rparr>, um_erase r cache_map))
         else
           (case list_back (t2_list a) of
              None \<Rightarrow> None
            | Some r \<Rightarrow> Some (a\<lparr>t2_hash := um_erase r (t2_hash a), t2_list := butlast (t2_list a),
                b2_list := (new, r) # b2_list a, b2_hash := um_put r new (b2_hash a)\<rparr>, um_erase r cache_map)))"

definition hit_b1 :: "'d fp \<Rightarrow> nat \<Rightarrow> u64 \<Rightarrow> nat \<Rightarrow> 'd arc \<times> (u64 \<times> string) list \<Rightarrow> ('d arc \<times> (u64 \<times> string) list) option" where
  "hit_b1 f new pos it ac =
     (let a1 = (fst ac)\<lparr>ar_p := fp_min f (fp_add f (ar_p (fst ac)) (get_delta_1 f (fst ac))) (fp_of_nat f (ar_c (fst ac)))\<rparr>
      in case arc_replace f new pos (a1, snd ac) of
           None \<Rightarrow> None
         | Some (a2, cache_map) \<Rightarrow>
             (case take_node it (b1_list a2) of
                None \<Rightarrow> None
              | Some (nd, rest) \<Rightarrow> Some (a2\<lparr>b1_list := rest, t2_list := nd # t2_list a2,
                  t2_hash := um_put pos it (t2_hash a2), b1_hash := um_erase pos (b1_hash a2)\<rparr>, cache_map)))"

definition hit_b2 :: "'d fp \<Rightarrow> nat \<Rightarrow> u64 \<Rightarrow> nat \<Rightarrow> 'd arc \<times> (u64 \<times> string) list \<Rightarrow> ('d arc \<times> (u64 \<times> string) list) option" where
  "hit_b2 f new pos it ac =
     (let a1 = (fst ac)\<lparr>ar_p := fp_max f (fp_sub f (ar_p (fst ac)) (get_delta_2 f (fst ac))) (fp_of_nat f 0)\<rparr>
      in case arc_replace f new pos (a1, snd ac) of
           None \<Rightarrow> None
         | Some (a2, cache_map) \<Rightarrow>
             (case take_node it (b2_list a2) of
                None \<Rightarrow> None
              | Some (nd, rest) \<Rightarrow> Some (a2\<lparr>b2_list := rest, t2_list := nd # t2_list a2,
                  t2_hash := um_put pos it (t2_hash a2), b2_hash := um_erase pos (b2_hash a2)\<rparr>, cache_map)))"

definition arc_make_room ::
  "'d fp \<Rightarrow> nat \<Rightarrow> u64 \<Rightarrow> 'd arc \<times> (u64 \<times> string) list \<Rightarrow> ('d arc \<times> (u64 \<times> string) list) option" where
  "arc_make_room f new pos ac =
     (let (a, cache_map) = ac;
          l1 = length (t1_hash a) + length (b1_hash a);
          total = l1 + length (t2_hash a) + length (b2_hash a)
      in if ar_c a \<le> l1 then
           if length (t1_hash a) < ar_c a then
             (case list_back (b1_list a) of
                None \<Rightarrow> None
              | Some r \<Rightarrow> arc_replace f new pos (a\<lparr>b1_hash := um_erase r (b1_hash a), b1_list := butlast (b1_list a)\<rparr>, cache_map))
           else
             (case list_back (t1_list a) of
                None \<Rightarrow> None
              | Some r \<Rightarrow> Some (a\<lparr>t1_hash := um_erase r (t1_hash a), t1_list := butlast (t1_list a)\<rparr>, um_erase r cache_map))
         else if ar_c a \<le> total then
           if (2 * ar_c a) mod 2 ^ 64 \<le> total then
             (case list_back (b2_list a) of
                None \<Rightarrow> None
              | Some r \<Rightarrow> arc_replace f new pos (a\<lparr>b2_hash := um_erase r (b2_hash a), b2_list := butlast (b2_list a)\<rparr>, cache_map))
           else arc_replace f new pos (a, cache_map)
         else Some (a, cache_map))"

text \<open>Up to two nodes are allocated: \<open>new\<close> for a ghost, \<open>new + 1\<close> for the position.\<close>

definition arc_put_miss ::
  "'d fp \<Rightarrow> nat \<Rightarrow> u64 \<Rightarrow> 'd arc \<times> (u64 \<times> string) list \<Rightarrow> ('d arc \<times> (u64 \<times> string) list) option" where
  "arc_put_miss f new pos ac =
     (case map_of (b1_hash (fst ac)) pos of
        Some it \<Rightarrow> hit_b1 f new pos it ac
      | None \<Rightarrow>
          (case map_of (b2_hash (fst ac)) pos of
             Some it \<Rightarrow> hit_b2 f new pos it ac
           | None \<Rightarrow>
               (case arc_make_room f new pos ac of
                  None \<Rightarrow> None
                | Some (a, cache_map) \<Rightarrow>
                    Some (a\<lparr>t1_list := (new + 1, pos) # t1_list a, t1_hash := um_put pos (new + 1) (t1_hash a)\<rparr>, cache_map))))"

section \<open>The cache\<close>

datatype 'd evictor = EvLRU lru | EvARC "'d arc"

record 'd cache =
  ca_map :: "(u64 \<times> string) list"
  ca_evict :: "'d evictor"
  ca_size :: nat
  ca_next :: nat

definition cache_new :: "options \<Rightarrow> 'd \<Rightarrow> 'd cache" where
  "cache_new opts p = \<lparr>ca_map = [],
     ca_evict = (case eviction opts of LRU \<Rightarrow> EvLRU (lru_new (cache_size opts)) | ARC \<Rightarrow> EvARC (arc_new (cache_size opts) p)),
     ca_size = cache_size opts, ca_next = 0\<rparr>"

definition evict_put_miss ::
  "'d fp \<Rightarrow> nat \<Rightarrow> u64 \<Rightarrow> 'd evictor \<times> (u64 \<times> string) list \<Rightarrow> ('d evictor \<times> (u64 \<times> string) list) option" where
  "evict_put_miss f new pos ec =
     (case fst ec of
        EvLRU l \<Rightarrow> map_option (map_prod EvLRU id) (lru_put_miss new pos (l, snd ec))
      | EvARC a \<Rightarrow> map_option (map_prod EvARC id) (arc_put_miss f new pos (a, snd ec)))"

definition evict_get_hit :: "u64 \<Rightarrow> 'd evictor \<Rightarrow> 'd evictor option" where
  "evict_get_hit pos ev =
     (case ev of
        EvLRU l \<Rightarrow> map_option EvLRU (lru_get_hit pos l)
      | EvARC a \<Rightarrow> map_option (\<lambda>r. EvARC (snd r)) (arc_get_hit pos a))"

text \<open>\<^verbatim>\<open>put\<close> returns whether it stored the data.\<close>

definition cache_put :: "'d fp \<Rightarrow> u64 \<Rightarrow> string \<Rightarrow> 'd cache \<Rightarrow> (bool \<times> 'd cache) option" where
  "cache_put f pos data c =
     (if 0 < ca_size c \<and> length data < ca_size c \<and> map_of (ca_map c) pos = None then
        (case evict_put_miss f (ca_next c) pos (ca_evict c, ca_map c) of
           None \<Rightarrow> None
         | Some (ev, m) \<Rightarrow>
             Some (True, c\<lparr>ca_map := um_put pos data m, ca_evict := ev, ca_next := ca_next c + 2\<rparr>))
      else Some (False, c))"

text \<open>\<^verbatim>\<open>get\<close> looks the position up before it takes the lock. \<open>cache_get_locked\<close> is the part under the lock: it uses the iterator found before,
  which other threads may have made invalid.\<close>

definition cache_get_locked :: "bool \<Rightarrow> u64 \<Rightarrow> 'd cache \<Rightarrow> (string option \<times> 'd cache) option" where
  "cache_get_locked found_it pos c =
     (if found_it then
        (case map_of (ca_map c) pos of
           None \<Rightarrow> None
         | Some d \<Rightarrow> map_option (\<lambda>ev. (Some d, c\<lparr>ca_evict := ev\<rparr>)) (evict_get_hit pos (ca_evict c)))
      else Some (None, c))"

definition cache_get :: "u64 \<Rightarrow> 'd cache \<Rightarrow> (string option \<times> 'd cache) option" where
  "cache_get pos c = cache_get_locked (map_of (ca_map c) pos \<noteq> None) pos c"

definition cache_remove :: "u64 \<Rightarrow> 'd cache \<Rightarrow> bool \<times> 'd cache" where
  "cache_remove pos c = (map_of (ca_map c) pos \<noteq> None, c\<lparr>ca_map := um_erase pos (ca_map c)\<rparr>)"

end
