(* ===== verification/Cache_Lists.thy ===== *)
theory Cache_Lists
  imports Cache
begin

text \<open>
  A list of nodes and the hash map that indexes it agree (\<open>listed\<close>); pushing, popping and moving nodes keep them in agreement.
\<close>

definition listed :: "(u64 \<times> nat) list \<Rightarrow> node list \<Rightarrow> bool" where
  "listed h l \<longleftrightarrow> distinct (map fst l) \<and> distinct (map snd l) \<and> distinct (map fst h) \<and> set h = prod.swap ` set l"

lemma listed_Nil [simp]: "listed [] []"
  by (simp add: listed_def)

lemma listed_length:
  assumes "listed h l"
  shows "length h = length l"
proof -
  have "distinct h" "distinct l" "set h = prod.swap ` set l" using assms by (simp_all add: listed_def distinct_map)
  then show ?thesis using distinct_card [of h] distinct_card [of l] by (simp add: card_image)
qed

lemma listed_lookup: "listed h l \<Longrightarrow> map_of h v = Some n \<longleftrightarrow> (n, v) \<in> set l"
  by (force simp: listed_def map_of_eq_Some_iff)

lemma listed_absent: "listed h l \<Longrightarrow> map_of h v = None \<longleftrightarrow> v \<notin> snd ` set l"
  by (force simp: listed_def map_of_eq_None_iff)

lemma map_of_um_erase [simp]: "map_of (um_erase k m) = (map_of m)(k := None)"
  unfolding um_erase_def by (induction m) auto

lemma length_um_erase: "length (um_erase k m) \<le> length m"
  by (simp add: um_erase_def)

lemma keys_um_put: "map_of m k = None \<Longrightarrow> um_put k v m = (k, v) # m"
  by (simp add: um_put_def)

lemma listed_push:
  assumes "listed h l" and "v \<notin> snd ` set l" and "n \<notin> fst ` set l"
  shows "listed (um_put v n h) ((n, v) # l)"
  using assms listed_absent [OF assms(1), of v]
  by (auto simp: keys_um_put listed_def map_of_eq_None_iff)

lemma listed_drop:
  assumes "listed h l" and "(n, v) \<in> set l"
  shows "listed (um_erase v h) (filter (\<lambda>e. fst e \<noteq> n) l)"
proof -
  have d: "distinct (map fst l)" "distinct (map snd l)" using assms(1) by (simp_all add: listed_def)
  have "fst e \<noteq> n \<longleftrightarrow> snd e \<noteq> v" if "e \<in> set l" for e
    using that assms(2) d by (metis eq_key_imp_eq_value prod.collapse distinct_map inj_on_eq_iff fst_conv snd_conv)
  then show ?thesis
    using assms(1) by (auto simp: listed_def um_erase_def distinct_map_filter image_iff)
qed

lemma take_node_ok:
  "listed h l \<Longrightarrow> (n, v) \<in> set l \<Longrightarrow> take_node n l = Some ((n, v), filter (\<lambda>e. fst e \<noteq> n) l)"
  by (simp add: take_node_def listed_def)

text \<open>The last node of a list, as the node to drop.\<close>

lemma butlast_filter:
  assumes "distinct (map fst l)" and "l \<noteq> []"
  shows "butlast l = filter (\<lambda>e. fst e \<noteq> fst (last l)) l"
proof -
  obtain xs x where l: "l = xs @ [x]" using assms(2) by (cases l rule: rev_cases) auto
  then have x: "fst x \<notin> fst ` set xs" using assms(1) by simp
  have "fst e \<noteq> fst x" if "e \<in> set xs" for e using x that by (metis image_eqI)
  then have "filter (\<lambda>e. fst e \<noteq> fst x) xs = xs" by (simp add: filter_id_conv)
  then show ?thesis by (simp add: l)
qed

lemma listed_pop:
  assumes "listed h l" and "l \<noteq> []"
  shows "listed (um_erase (snd (last l)) h) (butlast l)"
proof -
  have d: "distinct (map fst l)" using assms(1) by (simp add: listed_def)
  have "(fst (last l), snd (last l)) \<in> set l" using assms(2) by simp
  from listed_drop [OF assms(1) this] show ?thesis unfolding butlast_filter [OF d assms(2)] .
qed

lemma listed_front:
  assumes "listed h l" and "(n, v) \<in> set l"
  shows "listed h ((n, v) # filter (\<lambda>e. fst e \<noteq> n) l)"
proof -
  have d: "distinct (map fst l)" "distinct (map snd l)" using assms(1) by (simp_all add: listed_def)
  have "fst e \<noteq> n \<longleftrightarrow> snd e \<noteq> v" if "e \<in> set l" for e
    using that assms(2) d by (metis eq_key_imp_eq_value prod.collapse distinct_map inj_on_eq_iff fst_conv snd_conv)
  moreover have "insert (n, v) {e \<in> set l. fst e \<noteq> n} = set l"
    using assms(2) d by (auto dest: eq_key_imp_eq_value)
  ultimately show ?thesis
    using assms(1) by (auto simp: listed_def distinct_map_filter)
qed

lemma last_notin: "distinct (map snd l) \<Longrightarrow> l \<noteq> [] \<Longrightarrow> snd (last l) \<notin> snd ` set (butlast l)"
  by (cases l rule: rev_cases) auto

lemma set_last: "l \<noteq> [] \<Longrightarrow> set l = insert (last l) (set (butlast l))"
  by (cases l rule: rev_cases) auto

end
