(* ===== verification/Cache_LRU.thy ===== *)
theory Cache_LRU
  imports Cache_Lists
begin

text \<open>
  With the LRU policy, and as long as nothing is removed by hand, the cache is a bounded list of entries in the order of their last use.
\<close>

section \<open>Sequences of calls\<close>

datatype cache_op = Put u64 string | Get u64

datatype cache_result = Stored bool | Found "string option"

fun cache_step :: "'d fp \<Rightarrow> cache_op \<Rightarrow> 'd cache \<Rightarrow> (cache_result \<times> 'd cache) option" where
  "cache_step f (Put pos d) c = map_option (map_prod Stored id) (cache_put f pos d c)"
| "cache_step f (Get pos) c = map_option (map_prod Found id) (cache_get pos c)"

fun cache_run :: "'d fp \<Rightarrow> cache_op list \<Rightarrow> 'd cache \<Rightarrow> (cache_result list \<times> 'd cache) option" where
  "cache_run f [] c = Some ([], c)"
| "cache_run f (x # xs) c =
     (case cache_step f x c of
        None \<Rightarrow> None
      | Some (r, c1) \<Rightarrow> map_option (map_prod ((#) r) id) (cache_run f xs c1))"

section \<open>Specification\<close>

text \<open>The entries, most recently used first.\<close>

type_synonym recent = "(u64 \<times> string) list"

fun spec_step :: "nat \<Rightarrow> cache_op \<Rightarrow> recent \<Rightarrow> cache_result \<times> recent" where
  "spec_step n (Put pos d) xs =
     (if 0 < n \<and> length d < n \<and> map_of xs pos = None then (Stored True, take n ((pos, d) # xs)) else (Stored False, xs))"
| "spec_step n (Get pos) xs =
     (case map_of xs pos of
        None \<Rightarrow> (Found None, xs)
      | Some d \<Rightarrow> (Found (Some d), (pos, d) # filter (\<lambda>e. fst e \<noteq> pos) xs))"

fun spec_run :: "nat \<Rightarrow> cache_op list \<Rightarrow> recent \<Rightarrow> cache_result list \<times> recent" where
  "spec_run n [] xs = ([], xs)"
| "spec_run n (x # ops) xs = (let (r, ys) = spec_step n x xs; (rs, zs) = spec_run n ops ys in (r # rs, zs))"

section \<open>Refinement\<close>

definition lru_rep :: "'d cache \<Rightarrow> recent \<Rightarrow> bool" where
  "lru_rep c xs \<longleftrightarrow> (\<exists>l. ca_evict c = EvLRU l \<and> listed (lr_hash l) (lr_list l) \<and> map snd (lr_list l) = map fst xs
     \<and> map_of (ca_map c) = map_of xs \<and> length xs \<le> ca_size c \<and> lr_size l = ca_size c \<and> (\<forall>e\<in>set (lr_list l). fst e < ca_next c))"

lemma lru_repE:
  assumes "lru_rep c xs"
  obtains l where "ca_evict c = EvLRU l" and "listed (lr_hash l) (lr_list l)" and "map snd (lr_list l) = map fst xs"
    and "map_of (ca_map c) = map_of xs" and "length xs \<le> ca_size c" and "lr_size l = ca_size c"
    and "\<forall>e\<in>set (lr_list l). fst e < ca_next c" and "distinct (map fst xs)"
  using assms by (auto simp: lru_rep_def listed_def)

lemma lru_put:
  assumes "lru_rep c xs"
  shows "\<exists>c'. cache_step f (Put pos d) c = Some (fst (spec_step (ca_size c) (Put pos d) xs), c')
    \<and> lru_rep c' (snd (spec_step (ca_size c) (Put pos d) xs)) \<and> ca_size c' = ca_size c"
  using assms
proof (cases rule: lru_repE)
  case (1 l)
  show ?thesis
  proof (cases "0 < ca_size c \<and> length d < ca_size c \<and> map_of xs pos = None")
    case False
    then show ?thesis using 1(4) assms by (auto simp: cache_put_def)
  next
    case True
    let ?l = "(ca_next c, pos) # lr_list l" and ?h = "um_put pos (ca_next c) (lr_hash l)"
    have new: "pos \<notin> snd ` set (lr_list l)" using True arg_cong [OF 1(3), of set] by (auto simp: map_of_eq_None_iff)
    have fresh: "ca_next c \<notin> fst ` set (lr_list l)" using 1(7) by auto
    note li = listed_push [OF 1(2) new fresh]
    have len: "length ?h = Suc (length xs)" using listed_length [OF li] arg_cong [OF 1(3), of length] by simp
    have rep: "lru_rep (c\<lparr>ca_map := um_put pos d m, ca_evict := EvLRU (l\<lparr>lr_list := l2, lr_hash := h2\<rparr>), ca_next := ca_next c + 2\<rparr>) ys"
      if "listed h2 l2" "map snd l2 = map fst ys" "(map_of m)(pos \<mapsto> d) = map_of ys" "length ys \<le> ca_size c" "set l2 \<subseteq> set ?l" for h2 l2 m ys
      using that 1(6,7) by (fastforce simp: lru_rep_def)
    show ?thesis
    proof (cases "ca_size c < Suc (length xs)")
      case full: True
      then have n: "ca_size c = length xs" using 1(5) by simp
      have ne: "xs \<noteq> []" using True n by auto
      then have tk: "take (ca_size c) ((pos, d) # xs) = butlast ((pos, d) # xs)" using n by (simp add: butlast_conv_take)
      have lst: "snd (last ?l) = fst (last ((pos, d) # xs))" using 1(3) by (metis last_map list.simps(3) list.simps(9) snd_conv fst_conv)
      have "put": "cache_put f pos d c = Some (True, c\<lparr>ca_map := um_put pos d (um_erase (snd (last ?l)) (ca_map c)),
          ca_evict := EvLRU (l\<lparr>lr_list := butlast ?l, lr_hash := um_erase (snd (last ?l)) ?h\<rparr>), ca_next := ca_next c + 2\<rparr>)"
        using True full len 1(1,4,6) by (simp add: cache_put_def evict_put_miss_def lru_put_miss_def Let_def list_back_def)
      have "lru_rep (c\<lparr>ca_map := um_put pos d (um_erase (snd (last ?l)) (ca_map c)),
          ca_evict := EvLRU (l\<lparr>lr_list := butlast ?l, lr_hash := um_erase (snd (last ?l)) ?h\<rparr>), ca_next := ca_next c + 2\<rparr>) (butlast ((pos, d) # xs))"
      proof (rule rep)
        show "listed (um_erase (snd (last ?l)) ?h) (butlast ?l)" by (rule listed_pop [OF li]) simp
        show "map snd (butlast ?l) = map fst (butlast ((pos, d) # xs))" using 1(3) map_butlast [of snd "lr_list l"] map_butlast [of fst xs] by (cases "lr_list l"; cases xs) simp_all
        show "length (butlast ((pos, d) # xs)) \<le> ca_size c" using n by simp
        show "set (butlast ?l) \<subseteq> set ?l" by (meson in_set_butlastD subsetI)
        have "map_of (butlast ((pos, d) # xs)) = (map_of ((pos, d) # xs))(fst (last ((pos, d) # xs)) := None)"
        proof -
          obtain ys y where y: "xs = ys @ [y]" using ne by (cases xs rule: rev_cases) auto
          then have "fst y \<notin> fst ` set ys" "fst y \<noteq> pos" using 1(8) True by (auto simp: map_of_eq_None_iff split: if_splits)
          then show ?thesis using y by (auto simp: butlast_append map_add_def fun_eq_iff map_of_eq_None_iff split: option.split)
        qed
        moreover have "pos \<noteq> fst (last xs)" using True ne by (metis last_in_set image_eqI map_of_eq_None_iff)
        ultimately show "(map_of (um_erase (snd (last ?l)) (ca_map c)))(pos \<mapsto> d) = map_of (butlast ((pos, d) # xs))"
          unfolding lst using 1(4) ne by (auto simp: fun_upd_twist)
      qed
      then show ?thesis using "put" True tk by simp
    next
      case False
      then have tk: "take (ca_size c) ((pos, d) # xs) = (pos, d) # xs" by simp
      have "put": "cache_put f pos d c = Some (True, c\<lparr>ca_map := um_put pos d (ca_map c),
          ca_evict := EvLRU (l\<lparr>lr_list := ?l, lr_hash := ?h\<rparr>), ca_next := ca_next c + 2\<rparr>)"
        using True False len 1(1,4,6) by (simp add: cache_put_def evict_put_miss_def lru_put_miss_def Let_def)
      have "lru_rep (c\<lparr>ca_map := um_put pos d (ca_map c), ca_evict := EvLRU (l\<lparr>lr_list := ?l, lr_hash := ?h\<rparr>),
          ca_next := ca_next c + 2\<rparr>) ((pos, d) # xs)"
        by (rule rep) (use li 1(3,4) False in simp_all)
      then show ?thesis using "put" True tk by simp
    qed
  qed
qed

lemma lru_get:
  assumes "lru_rep c xs"
  shows "\<exists>c'. cache_step f (Get pos) c = Some (fst (spec_step (ca_size c) (Get pos) xs), c')
    \<and> lru_rep c' (snd (spec_step (ca_size c) (Get pos) xs)) \<and> ca_size c' = ca_size c"
  using assms
proof (cases rule: lru_repE)
  case (1 l)
  show ?thesis
  proof (cases "map_of xs pos")
    case None
    then show ?thesis using 1(4) assms by (simp add: cache_get_def cache_get_locked_def)
  next
    case (Some d)
    then have "pos \<in> snd ` set (lr_list l)" using arg_cong [OF 1(3), of set] by (force dest!: map_of_SomeD)
    then obtain n where n: "(n, pos) \<in> set (lr_list l)" by auto
    let ?l = "(n, pos) # filter (\<lambda>e. fst e \<noteq> n) (lr_list l)"
    have tn: "take_node n (lr_list l) = Some ((n, pos), filter (\<lambda>e. fst e \<noteq> n) (lr_list l))" by (rule take_node_ok [OF 1(2) n])
    have hash: "map_of (lr_hash l) pos = Some n" using listed_lookup [OF 1(2)] n by simp
    have get: "cache_get pos c = Some (Some d, c\<lparr>ca_evict := EvLRU (l\<lparr>lr_list := ?l\<rparr>)\<rparr>)"
      using Some 1(1,4) tn hash by (simp add: cache_get_def cache_get_locked_def evict_get_hit_def lru_get_hit_def)
    have d: "distinct (map fst (lr_list l))" "distinct (map snd (lr_list l))" using 1(2) by (simp_all add: listed_def)
    have "fst e \<noteq> n \<longleftrightarrow> snd e \<noteq> pos" if "e \<in> set (lr_list l)" for e
      using that n d by (metis eq_key_imp_eq_value prod.collapse distinct_map inj_on_eq_iff fst_conv snd_conv)
    then have "filter (\<lambda>e. fst e \<noteq> n) (lr_list l) = filter (\<lambda>e. snd e \<noteq> pos) (lr_list l)" by (simp cong: filter_cong)
    moreover have "map snd (filter (\<lambda>e. snd e \<noteq> pos) ls) = map fst (filter (\<lambda>e. fst e \<noteq> pos) ys)"
      if "map snd ls = map fst ys" for ls :: "node list" and ys :: recent
      using arg_cong [OF that, of "filter (\<lambda>v. v \<noteq> pos)"] by (simp add: filter_map comp_def)
    ultimately have mp: "map snd ?l = map fst ((pos, d) # filter (\<lambda>e. fst e \<noteq> pos) xs)" using 1(3) by simp
    have "map_of ((pos, d) # filter (\<lambda>e. fst e \<noteq> pos) xs) = map_of xs"
      using Some map_of_um_erase [of pos xs] by (auto simp: um_erase_def fun_eq_iff)
    moreover have "length ((pos, d) # filter (\<lambda>e. fst e \<noteq> pos) xs) \<le> ca_size c"
    proof -
      have "length ?l = length (lr_list l)"
        using listed_length [OF listed_front [OF 1(2) n]] listed_length [OF 1(2)] by simp
      then show ?thesis using arg_cong [OF mp, of length] arg_cong [OF 1(3), of length] 1(5) by simp
    qed
    ultimately have "lru_rep (c\<lparr>ca_evict := EvLRU (l\<lparr>lr_list := ?l\<rparr>)\<rparr>) ((pos, d) # filter (\<lambda>e. fst e \<noteq> pos) xs)"
      using 1(4,6,7) listed_front [OF 1(2) n] mp n by (auto simp: lru_rep_def)
    then show ?thesis using get Some by simp
  qed
qed

lemma lru_step:
  assumes "lru_rep c xs"
  shows "\<exists>c'. cache_step f x c = Some (fst (spec_step (ca_size c) x xs), c')
    \<and> lru_rep c' (snd (spec_step (ca_size c) x xs)) \<and> ca_size c' = ca_size c"
  using lru_put [OF assms] lru_get [OF assms] by (cases x) blast+

lemma lru_run:
  "lru_rep c xs \<Longrightarrow> \<exists>c'. cache_run f ops c = Some (fst (spec_run (ca_size c) ops xs), c')
     \<and> lru_rep c' (snd (spec_run (ca_size c) ops xs)) \<and> ca_size c' = ca_size c"
proof (induction ops arbitrary: c xs)
  case (Cons x ops)
  obtain c1 where c1: "cache_step f x c = Some (fst (spec_step (ca_size c) x xs), c1)" "lru_rep c1 (snd (spec_step (ca_size c) x xs))"
    "ca_size c1 = ca_size c"
    using lru_step [OF Cons.prems] by blast
  from Cons.IH [OF c1(2)] show ?case using c1(1,3) by (auto simp: case_prod_unfold Let_def)
qed simp

lemma lru_new_rep: "eviction opts = LRU \<Longrightarrow> lru_rep (cache_new opts p) []"
  by (simp add: lru_rep_def cache_new_def lru_new_def)

end
