(* ===== verification/Cache_ARC.thy ===== *)
theory Cache_ARC
  imports Cache_LRU
begin

text \<open>
  With the ARC policy, and as long as nothing is removed by hand, every call is defined: the four lists stay disjoint and within their
  bounds, and the cache holds exactly the positions of the lists \<open>T1\<close> and \<open>T2\<close>. The comparison with \<open>arc_p\<close> has to be total, which it is
  unless \<open>arc_p\<close> is not a number.
\<close>

section \<open>Structure\<close>

definition all_nodes :: "'d arc \<Rightarrow> node list" where
  "all_nodes a = t1_list a @ t2_list a @ b1_list a @ b2_list a"

definition cached :: "'d arc \<Rightarrow> u64 set" where
  "cached a = snd ` set (t1_list a) \<union> snd ` set (t2_list a)"

definition arc_struct :: "nat \<Rightarrow> 'd arc \<Rightarrow> bool" where
  "arc_struct k a \<longleftrightarrow> listed (t1_hash a) (t1_list a) \<and> listed (t2_hash a) (t2_list a) \<and> listed (b1_hash a) (b1_list a)
     \<and> listed (b2_hash a) (b2_list a) \<and> distinct (map fst (all_nodes a)) \<and> distinct (map snd (all_nodes a))
     \<and> (\<forall>e\<in>set (all_nodes a). fst e < k)"

text \<open>The sizes of the lists: \<open>T1\<close> with its ghosts, the cached positions, all positions; ghosts exist only when the cache is full.\<close>

definition arc_sizes :: "'d arc \<Rightarrow> bool" where
  "arc_sizes a \<longleftrightarrow> (let c = ar_c a; t1 = length (t1_list a); t2 = length (t2_list a); b1 = length (b1_list a); b2 = length (b2_list a)
     in t1 + b1 \<le> c \<and> t1 + t2 \<le> c \<and> t1 + t2 + b1 + b2 \<le> 2 * c \<and> (0 < b1 + b2 \<longrightarrow> t1 + t2 = c))"

lemma struct_lengths:
  assumes "arc_struct k a"
  shows "length (t1_hash a) = length (t1_list a)" "length (t2_hash a) = length (t2_list a)"
    "length (b1_hash a) = length (b1_list a)" "length (b2_hash a) = length (b2_list a)"
  using assms by (simp_all add: arc_struct_def listed_length)

lemma struct_lookup:
  assumes "arc_struct k a"
  shows "map_of (t1_hash a) v = Some n \<longleftrightarrow> (n, v) \<in> set (t1_list a)" "map_of (t2_hash a) v = Some n \<longleftrightarrow> (n, v) \<in> set (t2_list a)"
    "map_of (b1_hash a) v = Some n \<longleftrightarrow> (n, v) \<in> set (b1_list a)" "map_of (b2_hash a) v = Some n \<longleftrightarrow> (n, v) \<in> set (b2_list a)"
  using assms by (simp_all add: arc_struct_def listed_lookup)

lemma struct_absent:
  assumes "arc_struct k a"
  shows "map_of (t1_hash a) v = None \<longleftrightarrow> v \<notin> snd ` set (t1_list a)" "map_of (t2_hash a) v = None \<longleftrightarrow> v \<notin> snd ` set (t2_list a)"
    "map_of (b1_hash a) v = None \<longleftrightarrow> v \<notin> snd ` set (b1_list a)" "map_of (b2_hash a) v = None \<longleftrightarrow> v \<notin> snd ` set (b2_list a)"
  using assms by (simp_all add: arc_struct_def listed_absent)

section \<open>Steps\<close>

text \<open>Two cached states, before and after something was evicted.\<close>

definition shrinks :: "'d arc \<times> (u64 \<times> string) list \<Rightarrow> 'd arc \<times> (u64 \<times> string) list \<Rightarrow> bool" where
  "shrinks ac ac' \<longleftrightarrow> map_of (snd ac') \<subseteq>\<^sub>m map_of (snd ac) \<and> dom (map_of (snd ac')) = cached (fst ac')
     \<and> cached (fst ac') \<subseteq> cached (fst ac) \<and> ar_c (fst ac') = ar_c (fst ac) \<and> ar_p (fst ac') = ar_p (fst ac)"

lemma replace_t1:
  assumes st: "arc_struct k a" and dom: "dom (map_of m) = cached a" and ne: "t1_list a \<noteq> []"
    and r: "r = snd (last (t1_list a))"
    and a': "a' = a\<lparr>t1_hash := um_erase r (t1_hash a), t1_list := butlast (t1_list a),
      b1_list := (k, r) # b1_list a, b1_hash := um_put r k (b1_hash a)\<rparr>"
  shows "arc_struct (Suc k) a' \<and> shrinks (a, m) (a', um_erase r m)"
proof -
  obtain xs x where t1: "t1_list a = xs @ [x]" using ne by (cases "t1_list a" rule: rev_cases) auto
  have r: "r = snd x" by (simp add: r t1)
  have d: "distinct (map fst (all_nodes a))" "distinct (map snd (all_nodes a))" "\<forall>e\<in>set (all_nodes a). fst e < k"
    using st by (simp_all add: arc_struct_def)
  have "listed (um_erase r (t1_hash a)) xs"
    using listed_pop [of "t1_hash a" "t1_list a"] st t1 r by (simp add: arc_struct_def)
  moreover have "r \<notin> snd ` set (b1_list a)" "k \<notin> fst ` set (b1_list a)"
    using d by (auto simp: all_nodes_def t1 r)
  then have "listed (um_put r k (b1_hash a)) ((k, r) # b1_list a)"
    using listed_push st by (simp add: arc_struct_def)
  moreover have "r \<notin> cached a'" "cached a = insert r (cached a')"
    using d(2) by (auto simp: cached_def all_nodes_def a' t1 r)
  ultimately show ?thesis
    using st d dom by (auto simp: arc_struct_def shrinks_def a' all_nodes_def t1 r map_le_def less_Suc_eq)
qed

lemma replace_t2:
  assumes st: "arc_struct k a" and dom: "dom (map_of m) = cached a" and ne: "t2_list a \<noteq> []"
    and r: "r = snd (last (t2_list a))"
    and a': "a' = a\<lparr>t2_hash := um_erase r (t2_hash a), t2_list := butlast (t2_list a),
      b2_list := (k, r) # b2_list a, b2_hash := um_put r k (b2_hash a)\<rparr>"
  shows "arc_struct (Suc k) a' \<and> shrinks (a, m) (a', um_erase r m)"
proof -
  obtain xs x where t2: "t2_list a = xs @ [x]" using ne by (cases "t2_list a" rule: rev_cases) auto
  have r: "r = snd x" by (simp add: r t2)
  have d: "distinct (map fst (all_nodes a))" "distinct (map snd (all_nodes a))" "\<forall>e\<in>set (all_nodes a). fst e < k"
    using st by (simp_all add: arc_struct_def)
  have "listed (um_erase r (t2_hash a)) xs"
    using listed_pop [of "t2_hash a" "t2_list a"] st t2 r by (simp add: arc_struct_def)
  moreover have "r \<notin> snd ` set (b2_list a)" "k \<notin> fst ` set (b2_list a)"
    using d by (auto simp: all_nodes_def t2 r)
  then have "listed (um_put r k (b2_hash a)) ((k, r) # b2_list a)"
    using listed_push st by (simp add: arc_struct_def)
  moreover have "r \<notin> cached a'" "cached a = insert r (cached a')"
    using d(2) by (auto simp: cached_def all_nodes_def a' t2 r)
  ultimately show ?thesis
    using st d dom by (auto simp: arc_struct_def shrinks_def a' all_nodes_def t2 r map_le_def less_Suc_eq)
qed

text \<open>What \<^verbatim>\<open>replace\<close> does when the list it takes from is not empty.\<close>

definition replaced :: "'d arc \<Rightarrow> 'd arc \<Rightarrow> bool" where
  "replaced a a' \<longleftrightarrow> set (b1_list a) \<subseteq> set (b1_list a') \<and> set (b2_list a) \<subseteq> set (b2_list a')
     \<and> snd ` set (all_nodes a') = snd ` set (all_nodes a)
     \<and> (length (t1_list a') + 1 = length (t1_list a) \<and> length (b1_list a') = length (b1_list a) + 1
          \<and> length (t2_list a') = length (t2_list a) \<and> length (b2_list a') = length (b2_list a)
        \<or> length (t2_list a') + 1 = length (t2_list a) \<and> length (b2_list a') = length (b2_list a) + 1
          \<and> length (t1_list a') = length (t1_list a) \<and> length (b1_list a') = length (b1_list a))"

lemma arc_replace_ok:
  assumes st: "arc_struct k a" and dom: "dom (map_of m) = cached a"
    and num: "\<And>n. fp_gt f n (ar_p a) \<or> fp_le f n (ar_p a)"
    and t2: "t2_list a = [] \<Longrightarrow> t1_list a \<noteq> [] \<and> map_of (b2_hash a) pos \<noteq> None"
  shows "\<exists>a' m'. arc_replace f k pos (a, m) = Some (a', m') \<and> arc_struct (Suc k) a' \<and> shrinks (a, m) (a', m') \<and> replaced a a'"
proof -
  let ?n = "length (t1_hash a)"
  have len: "?n = length (t1_list a)" using struct_lengths [OF st] by simp
  show ?thesis
  proof (cases "0 < ?n \<and> (fp_gt f ?n (ar_p a) \<or> map_of (b2_hash a) pos \<noteq> None \<and> fp_le f ?n (ar_p a))")
    case True
    then have ne: "t1_list a \<noteq> []" using len by auto
    define r where "r = snd (last (t1_list a))"
    define a' where "a' = a\<lparr>t1_hash := um_erase r (t1_hash a), t1_list := butlast (t1_list a),
      b1_list := (k, r) # b1_list a, b1_hash := um_put r k (b1_hash a)\<rparr>"
    have "arc_replace f k pos (a, m) = Some (a', um_erase r m)"
      using True ne by (simp add: arc_replace_def list_back_def Let_def r_def a'_def)
    moreover have "replaced a a'"
      using ne set_last [OF ne] by (auto simp: replaced_def a'_def all_nodes_def r_def)
    ultimately show ?thesis using replace_t1 [OF st dom ne r_def a'_def] by blast
  next
    case False
    have ne: "t2_list a \<noteq> []"
      using t2 False len num [of ?n] by auto
    define r where "r = snd (last (t2_list a))"
    define a' where "a' = a\<lparr>t2_hash := um_erase r (t2_hash a), t2_list := butlast (t2_list a),
      b2_list := (k, r) # b2_list a, b2_hash := um_put r k (b2_hash a)\<rparr>"
    have "arc_replace f k pos (a, m) = Some (a', um_erase r m)"
      unfolding arc_replace_def prod.case Let_def using False ne by (simp only: if_False list_back_def r_def a'_def option.case)
    moreover have "replaced a a'"
      using ne set_last [OF ne] by (auto simp: replaced_def a'_def all_nodes_def r_def)
    ultimately show ?thesis using replace_t2 [OF st dom ne r_def a'_def] by blast
  qed
qed

section \<open>Moving a node\<close>

lemma drop_node_split:
  assumes "distinct (map fst l)" and "(n, v) \<in> set l"
  obtains xs ys where "l = xs @ (n, v) # ys" and "filter (\<lambda>e. fst e \<noteq> n) l = xs @ ys"
proof -
  obtain xs ys where l: "l = xs @ (n, v) # ys" using assms(2) by (meson split_list)
  have "fst e \<noteq> n" if "e \<in> set (xs @ ys)" for e using that assms(1) unfolding l by force
  then have "filter (\<lambda>e. fst e \<noteq> n) (xs @ ys) = xs @ ys" by (simp only: filter_id_conv) blast
  then show ?thesis using that l by simp
qed

lemma promote_b1:
  assumes st: "arc_struct k a" and it: "(it, pos) \<in> set (b1_list a)"
    and a': "a' = a\<lparr>b1_list := filter (\<lambda>e. fst e \<noteq> it) (b1_list a), t2_list := (it, pos) # t2_list a,
      t2_hash := um_put pos it (t2_hash a), b1_hash := um_erase pos (b1_hash a)\<rparr>"
  shows "arc_struct k a'" and "pos \<notin> cached a" and "cached a' = insert pos (cached a)"
    and "length (b1_list a') + 1 = length (b1_list a)"
proof -
  have d: "distinct (map fst (all_nodes a))" "distinct (map snd (all_nodes a))" "\<forall>e\<in>set (all_nodes a). fst e < k"
    using st by (simp_all add: arc_struct_def)
  have "distinct (map fst (b1_list a))" using d(1) by (simp add: all_nodes_def)
  then obtain xs ys where b: "b1_list a = xs @ (it, pos) # ys" "filter (\<lambda>e. fst e \<noteq> it) (b1_list a) = xs @ ys"
    using it by (rule drop_node_split)
  have "listed (um_erase pos (b1_hash a)) (xs @ ys)" using listed_drop [of "b1_hash a" "b1_list a" it pos] st it b(2) by (simp add: arc_struct_def)
  moreover have "listed (um_put pos it (t2_hash a)) ((it, pos) # t2_list a)"
    using st d by (intro listed_push) (auto simp: arc_struct_def all_nodes_def b(1))
  moreover have n: "all_nodes a = t1_list a @ t2_list a @ (xs @ (it, pos) # ys) @ b2_list a" "all_nodes a' = t1_list a @ ((it, pos) # t2_list a) @ (xs @ ys) @ b2_list a"
    unfolding all_nodes_def a' by (simp_all add: b(2)) (simp_all add: b(1))
  have "distinct (map fst (all_nodes a'))" "distinct (map snd (all_nodes a'))" "\<forall>e\<in>set (all_nodes a'). fst e < k"
    using d unfolding n by auto
  ultimately show "arc_struct k a'" using st unfolding arc_struct_def by (simp add: a' b(2))
  show "pos \<notin> cached a" using d(2) by (auto simp: cached_def all_nodes_def b(1))
  show "cached a' = insert pos (cached a)" by (auto simp: cached_def a')
  show "length (b1_list a') + 1 = length (b1_list a)" by (simp add: a' b(2)) (simp add: b(1))
qed

lemma promote_b2:
  assumes st: "arc_struct k a" and it: "(it, pos) \<in> set (b2_list a)"
    and a': "a' = a\<lparr>b2_list := filter (\<lambda>e. fst e \<noteq> it) (b2_list a), t2_list := (it, pos) # t2_list a,
      t2_hash := um_put pos it (t2_hash a), b2_hash := um_erase pos (b2_hash a)\<rparr>"
  shows "arc_struct k a'" and "pos \<notin> cached a" and "cached a' = insert pos (cached a)"
    and "length (b2_list a') + 1 = length (b2_list a)"
proof -
  have d: "distinct (map fst (all_nodes a))" "distinct (map snd (all_nodes a))" "\<forall>e\<in>set (all_nodes a). fst e < k"
    using st by (simp_all add: arc_struct_def)
  have "distinct (map fst (b2_list a))" using d(1) by (simp add: all_nodes_def)
  then obtain xs ys where b: "b2_list a = xs @ (it, pos) # ys" "filter (\<lambda>e. fst e \<noteq> it) (b2_list a) = xs @ ys"
    using it by (rule drop_node_split)
  have "listed (um_erase pos (b2_hash a)) (xs @ ys)" using listed_drop [of "b2_hash a" "b2_list a" it pos] st it b(2) by (simp add: arc_struct_def)
  moreover have "listed (um_put pos it (t2_hash a)) ((it, pos) # t2_list a)"
    using st d by (intro listed_push) (auto simp: arc_struct_def all_nodes_def b(1))
  moreover have n: "all_nodes a = t1_list a @ t2_list a @ b1_list a @ (xs @ (it, pos) # ys)" "all_nodes a' = t1_list a @ ((it, pos) # t2_list a) @ b1_list a @ (xs @ ys)"
    unfolding all_nodes_def a' by (simp_all add: b(2)) (simp_all add: b(1))
  have "distinct (map fst (all_nodes a'))" "distinct (map snd (all_nodes a'))" "\<forall>e\<in>set (all_nodes a'). fst e < k"
    using d unfolding n by auto
  ultimately show "arc_struct k a'" using st unfolding arc_struct_def by (simp add: a' b(2))
  show "pos \<notin> cached a" using d(2) by (auto simp: cached_def all_nodes_def b(1))
  show "cached a' = insert pos (cached a)" by (auto simp: cached_def a')
  show "length (b2_list a') + 1 = length (b2_list a)" by (simp add: a' b(2)) (simp add: b(1))
qed

lemma promote_t1:
  assumes st: "arc_struct k a" and it: "(it, pos) \<in> set (t1_list a)"
    and a': "a' = a\<lparr>t1_list := filter (\<lambda>e. fst e \<noteq> it) (t1_list a), t2_list := (it, pos) # t2_list a,
      t2_hash := um_put pos it (t2_hash a), t1_hash := um_erase pos (t1_hash a)\<rparr>"
  shows "arc_struct k a'" and "cached a' = cached a" and "length (t1_list a') + 1 = length (t1_list a)"
proof -
  have d: "distinct (map fst (all_nodes a))" "distinct (map snd (all_nodes a))" "\<forall>e\<in>set (all_nodes a). fst e < k"
    using st by (simp_all add: arc_struct_def)
  have "distinct (map fst (t1_list a))" using d(1) by (simp add: all_nodes_def)
  then obtain xs ys where b: "t1_list a = xs @ (it, pos) # ys" "filter (\<lambda>e. fst e \<noteq> it) (t1_list a) = xs @ ys"
    using it by (rule drop_node_split)
  have "listed (um_erase pos (t1_hash a)) (xs @ ys)" using listed_drop [of "t1_hash a" "t1_list a" it pos] st it b(2) by (simp add: arc_struct_def)
  moreover have "listed (um_put pos it (t2_hash a)) ((it, pos) # t2_list a)"
    using st d by (intro listed_push) (auto simp: arc_struct_def all_nodes_def b(1))
  moreover have n: "all_nodes a = (xs @ (it, pos) # ys) @ t2_list a @ b1_list a @ b2_list a" "all_nodes a' = (xs @ ys) @ ((it, pos) # t2_list a) @ b1_list a @ b2_list a"
    unfolding all_nodes_def a' by (simp_all add: b(2)) (simp_all add: b(1))
  have "distinct (map fst (all_nodes a'))" "distinct (map snd (all_nodes a'))" "\<forall>e\<in>set (all_nodes a'). fst e < k"
    using d unfolding n by auto
  ultimately show "arc_struct k a'" using st unfolding arc_struct_def by (simp add: a' b(2))
  show "cached a' = cached a" unfolding cached_def a' by (simp add: b(2)) (auto simp: b(1))
  show "length (t1_list a') + 1 = length (t1_list a)" by (simp add: a' b(2)) (simp add: b(1))
qed

lemma front_t2:
  assumes st: "arc_struct k a" and it: "(it, pos) \<in> set (t2_list a)"
    and a': "a' = a\<lparr>t2_list := (it, pos) # filter (\<lambda>e. fst e \<noteq> it) (t2_list a)\<rparr>"
  shows "arc_struct k a'" and "cached a' = cached a" and "length (t2_list a') = length (t2_list a)"
proof -
  have d: "distinct (map fst (all_nodes a))" "distinct (map snd (all_nodes a))" "\<forall>e\<in>set (all_nodes a). fst e < k"
    using st by (simp_all add: arc_struct_def)
  have "distinct (map fst (t2_list a))" using d(1) by (simp add: all_nodes_def)
  then obtain xs ys where b: "t2_list a = xs @ (it, pos) # ys" "filter (\<lambda>e. fst e \<noteq> it) (t2_list a) = xs @ ys"
    using it by (rule drop_node_split)
  have "listed (t2_hash a) ((it, pos) # xs @ ys)" using listed_front [of "t2_hash a" "t2_list a" it pos] st it b(2) by (simp add: arc_struct_def)
  moreover have n: "all_nodes a = t1_list a @ (xs @ (it, pos) # ys) @ b1_list a @ b2_list a" "all_nodes a' = t1_list a @ ((it, pos) # xs @ ys) @ b1_list a @ b2_list a"
    unfolding all_nodes_def a' by (simp_all add: b(2)) (simp_all add: b(1))
  have "distinct (map fst (all_nodes a'))" "distinct (map snd (all_nodes a'))" "\<forall>e\<in>set (all_nodes a'). fst e < k"
    using d unfolding n by auto
  ultimately show "arc_struct k a'" using st unfolding arc_struct_def by (simp add: a' b(2))
  show "cached a' = cached a" unfolding cached_def a' by (simp add: b(2)) (auto simp: b(1))
  show "length (t2_list a') = length (t2_list a)" by (simp add: a' b(2)) (simp add: b(1))
qed

section \<open>Misses and hits\<close>

text \<open>The arithmetic on \<open>arc_p\<close> stays among numbers, on which the comparison is total.\<close>

definition fp_ok :: "'d fp \<Rightarrow> ('d \<Rightarrow> bool) \<Rightarrow> bool" where
  "fp_ok f num \<longleftrightarrow> (\<forall>p n. num p \<longrightarrow> fp_gt f n p \<or> fp_le f n p) \<and> (\<forall>n. num (fp_of_nat f n))
     \<and> (\<forall>p d. num p \<longrightarrow> d \<in> insert (fp_of_nat f 1) {fp_div f (fp_of_nat f m) (fp_of_nat f n) | m n. 0 < n} \<longrightarrow>
          num (fp_add f p d) \<and> num (fp_sub f p d))"

lemma fp_total: "fp_ok f num \<Longrightarrow> num p \<Longrightarrow> fp_gt f n p \<or> fp_le f n p"
  by (simp add: fp_ok_def)

lemma struct_p [simp]: "arc_struct k (a\<lparr>ar_p := p\<rparr>) = arc_struct k a" "cached (a\<lparr>ar_p := p\<rparr>) = cached a"
  "all_nodes (a\<lparr>ar_p := p\<rparr>) = all_nodes a" "arc_sizes (a\<lparr>ar_p := p\<rparr>) = arc_sizes a"
  by (simp_all add: arc_struct_def cached_def all_nodes_def arc_sizes_def)

lemma num_p1:
  assumes "fp_ok f num" and "num (ar_p a)" and "b1_hash a \<noteq> []"
  shows "num (fp_min f (fp_add f (ar_p a) (get_delta_1 f a)) (fp_of_nat f (ar_c a)))"
proof -
  have "get_delta_1 f a \<in> insert (fp_of_nat f 1) {fp_div f (fp_of_nat f m) (fp_of_nat f n) | m n. 0 < n}"
    using assms(3) by (auto simp: get_delta_1_def)
  then have "num (fp_add f (ar_p a) (get_delta_1 f a))" using assms(1,2) unfolding fp_ok_def by blast
  then show ?thesis using assms(1) by (simp add: fp_ok_def fp_min_def)
qed

lemma num_p2:
  assumes "fp_ok f num" and "num (ar_p a)" and "b2_hash a \<noteq> []"
  shows "num (fp_max f (fp_sub f (ar_p a) (get_delta_2 f a)) (fp_of_nat f 0))"
proof -
  have "get_delta_2 f a \<in> insert (fp_of_nat f 1) {fp_div f (fp_of_nat f m) (fp_of_nat f n) | m n. 0 < n}"
    using assms(3) by (auto simp: get_delta_2_def)
  then have "num (fp_sub f (ar_p a) (get_delta_2 f a))" using assms(1,2) unfolding fp_ok_def by blast
  then show ?thesis using assms(1) by (simp add: fp_ok_def fp_max_def)
qed

text \<open>The state of the policy and the cache's map after \<^verbatim>\<open>cache_put_miss\<close>: the policy already counts the position as cached.\<close>

definition arc_good :: "('d \<Rightarrow> bool) \<Rightarrow> nat \<Rightarrow> 'd arc \<Rightarrow> bool" where
  "arc_good num k a \<longleftrightarrow> arc_struct k a \<and> arc_sizes a \<and> num (ar_p a) \<and> 0 < ar_c a \<and> ar_c a < 2 ^ 63"

definition arc_missed :: "('d \<Rightarrow> bool) \<Rightarrow> nat \<Rightarrow> u64 \<Rightarrow> 'd arc \<times> (u64 \<times> string) list \<Rightarrow> 'd arc \<times> (u64 \<times> string) list \<Rightarrow> bool" where
  "arc_missed num k pos ac ac' \<longleftrightarrow> arc_good num (k + 2) (fst ac') \<and> map_of (snd ac') \<subseteq>\<^sub>m map_of (snd ac)
     \<and> cached (fst ac') = insert pos (dom (map_of (snd ac'))) \<and> ar_c (fst ac') = ar_c (fst ac)"

lemma struct_mono: "arc_struct k a \<Longrightarrow> k \<le> k' \<Longrightarrow> arc_struct k' a"
  by (fastforce simp: arc_struct_def)

lemma hit_b1_ok:
  assumes g: "arc_good num k a" and f: "fp_ok f num" and dom: "dom (map_of m) = cached a" and it: "(it, pos) \<in> set (b1_list a)"
  shows "\<exists>ac'. hit_b1 f k pos it (a, m) = Some ac' \<and> arc_missed num k pos (a, m) ac'"
proof -
  have st: "arc_struct k a" and sz: "arc_sizes a" and num: "num (ar_p a)" and c: "0 < ar_c a" "ar_c a < 2 ^ 63"
    using g by (simp_all add: arc_good_def)
  have b1: "0 < length (b1_list a)" using it by (cases "b1_list a") auto
  have bh: "b1_hash a \<noteq> []" using struct_lengths(3) [OF st] b1 by auto
  let ?p = "fp_min f (fp_add f (ar_p a) (get_delta_1 f a)) (fp_of_nat f (ar_c a))"
  let ?a1 = "a\<lparr>ar_p := ?p\<rparr>"
  note np = num_p1 [OF f num bh]
  have ne: "t2_list a \<noteq> []" using sz b1 by (auto simp: arc_sizes_def Let_def)
  have "\<exists>a2 m2. arc_replace f k pos (?a1, m) = Some (a2, m2) \<and> arc_struct (Suc k) a2 \<and> shrinks (?a1, m) (a2, m2) \<and> replaced ?a1 a2"
    by (rule arc_replace_ok) (use st dom ne fp_total [OF f np] in simp_all)
  then obtain a2 m2 where r: "arc_replace f k pos (?a1, m) = Some (a2, m2)" "arc_struct (Suc k) a2" "shrinks (?a1, m) (a2, m2)" "replaced ?a1 a2"
    by blast
  have it2: "(it, pos) \<in> set (b1_list a2)" using r(4) it by (auto simp: replaced_def)
  have tn: "take_node it (b1_list a2) = Some ((it, pos), filter (\<lambda>e. fst e \<noteq> it) (b1_list a2))"
    using r(2) it2 by (intro take_node_ok) (auto simp: arc_struct_def)
  define a3 where a3: "a3 = a2\<lparr>b1_list := filter (\<lambda>e. fst e \<noteq> it) (b1_list a2), t2_list := (it, pos) # t2_list a2,
      t2_hash := um_put pos it (t2_hash a2), b1_hash := um_erase pos (b1_hash a2)\<rparr>"
  note pr = promote_b1 [OF r(2) it2 a3]
  have "arc_sizes a3"
    using sz b1 r(3,4) pr(4) by (auto simp: arc_sizes_def Let_def replaced_def shrinks_def a3)
  then have "arc_good num (k + 2) a3"
    using struct_mono [OF pr(1), of "k + 2"] np c r(3) by (simp add: arc_good_def shrinks_def a3)
  moreover have "hit_b1 f k pos it (a, m) = Some (a3, m2)" using r(1) tn by (simp add: hit_b1_def Let_def a3)
  ultimately show ?thesis using pr(3) r(3) by (auto simp: arc_missed_def shrinks_def a3)
qed

lemma hit_b2_ok:
  assumes g: "arc_good num k a" and f: "fp_ok f num" and dom: "dom (map_of m) = cached a" and it: "(it, pos) \<in> set (b2_list a)"
  shows "\<exists>ac'. hit_b2 f k pos it (a, m) = Some ac' \<and> arc_missed num k pos (a, m) ac'"
proof -
  have st: "arc_struct k a" and sz: "arc_sizes a" and num: "num (ar_p a)" and c: "0 < ar_c a" "ar_c a < 2 ^ 63"
    using g by (simp_all add: arc_good_def)
  have b2: "0 < length (b2_list a)" using it by (cases "b2_list a") auto
  have bh: "b2_hash a \<noteq> []" "map_of (b2_hash a) pos \<noteq> None" using struct_lengths(4) [OF st] b2 struct_lookup(4) [OF st] it by auto
  let ?p = "fp_max f (fp_sub f (ar_p a) (get_delta_2 f a)) (fp_of_nat f 0)"
  let ?a1 = "a\<lparr>ar_p := ?p\<rparr>"
  note np = num_p2 [OF f num bh(1)]
  have "t2_list a = [] \<Longrightarrow> t1_list a \<noteq> []" using sz b2 c by (auto simp: arc_sizes_def Let_def)
  then have "\<exists>a2 m2. arc_replace f k pos (?a1, m) = Some (a2, m2) \<and> arc_struct (Suc k) a2 \<and> shrinks (?a1, m) (a2, m2) \<and> replaced ?a1 a2"
    by (intro arc_replace_ok) (use st dom bh(2) fp_total [OF f np] in simp_all)
  then obtain a2 m2 where r: "arc_replace f k pos (?a1, m) = Some (a2, m2)" "arc_struct (Suc k) a2" "shrinks (?a1, m) (a2, m2)" "replaced ?a1 a2"
    by blast
  have it2: "(it, pos) \<in> set (b2_list a2)" using r(4) it by (auto simp: replaced_def)
  have tn: "take_node it (b2_list a2) = Some ((it, pos), filter (\<lambda>e. fst e \<noteq> it) (b2_list a2))"
    using r(2) it2 by (intro take_node_ok) (auto simp: arc_struct_def)
  define a3 where a3: "a3 = a2\<lparr>b2_list := filter (\<lambda>e. fst e \<noteq> it) (b2_list a2), t2_list := (it, pos) # t2_list a2,
      t2_hash := um_put pos it (t2_hash a2), b2_hash := um_erase pos (b2_hash a2)\<rparr>"
  note pr = promote_b2 [OF r(2) it2 a3]
  have "arc_sizes a3"
    using sz b2 r(3,4) pr(4) by (auto simp: arc_sizes_def Let_def replaced_def shrinks_def a3)
  then have "arc_good num (k + 2) a3"
    using struct_mono [OF pr(1), of "k + 2"] np c r(3) by (simp add: arc_good_def shrinks_def a3)
  moreover have "hit_b2 f k pos it (a, m) = Some (a3, m2)" using r(1) tn by (simp add: hit_b2_def Let_def a3)
  ultimately show ?thesis using pr(3) r(3) by (auto simp: arc_missed_def shrinks_def a3)
qed

lemma pop_b1:
  assumes st: "arc_struct k a" and ne: "b1_list a \<noteq> []" and r: "r = snd (last (b1_list a))"
  shows "arc_struct k (a\<lparr>b1_hash := um_erase r (b1_hash a), b1_list := butlast (b1_list a)\<rparr>)"
proof -
  obtain xs x where b: "b1_list a = xs @ [x]" using ne by (cases "b1_list a" rule: rev_cases) auto
  have "listed (um_erase r (b1_hash a)) xs" using listed_pop [of "b1_hash a" "b1_list a"] st b r by (simp add: arc_struct_def)
  then show ?thesis using st by (simp add: arc_struct_def all_nodes_def b)
qed

lemma pop_b2:
  assumes st: "arc_struct k a" and ne: "b2_list a \<noteq> []" and r: "r = snd (last (b2_list a))"
  shows "arc_struct k (a\<lparr>b2_hash := um_erase r (b2_hash a), b2_list := butlast (b2_list a)\<rparr>)"
proof -
  obtain xs x where b: "b2_list a = xs @ [x]" using ne by (cases "b2_list a" rule: rev_cases) auto
  have "listed (um_erase r (b2_hash a)) xs" using listed_pop [of "b2_hash a" "b2_list a"] st b r by (simp add: arc_struct_def)
  then show ?thesis using st by (simp add: arc_struct_def all_nodes_def b)
qed

lemma pop_t1:
  assumes st: "arc_struct k a" and ne: "t1_list a \<noteq> []" and dom: "dom (map_of m) = cached a" and r: "r = snd (last (t1_list a))"
    and a': "a' = a\<lparr>t1_hash := um_erase r (t1_hash a), t1_list := butlast (t1_list a)\<rparr>"
  shows "arc_struct k a' \<and> shrinks (a, m) (a', um_erase r m)"
proof -
  obtain xs x where b: "t1_list a = xs @ [x]" using ne by (cases "t1_list a" rule: rev_cases) auto
  have rx: "r = snd x" by (simp add: r b)
  have d: "distinct (map snd (all_nodes a))" using st by (simp add: arc_struct_def)
  have "listed (um_erase r (t1_hash a)) xs" using listed_pop [of "t1_hash a" "t1_list a"] st b r by (simp add: arc_struct_def)
  then have "arc_struct k a'" using st by (simp add: arc_struct_def all_nodes_def b a')
  moreover have "r \<notin> cached a'" "cached a = insert r (cached a')"
    using d by (auto simp: cached_def all_nodes_def a' b rx)
  ultimately show ?thesis using dom by (auto simp: shrinks_def a' map_le_def)
qed

text \<open>Room for one more position.\<close>

definition has_room :: "'d arc \<Rightarrow> bool" where
  "has_room a \<longleftrightarrow> (let c = ar_c a; t1 = length (t1_list a); t2 = length (t2_list a); b1 = length (b1_list a); b2 = length (b2_list a)
     in t1 + b1 < c \<and> t1 + t2 < c \<and> t1 + t2 + b1 + b2 < 2 * c \<and> (0 < b1 + b2 \<longrightarrow> t1 + t2 + 1 = c))"

definition room_made :: "nat \<Rightarrow> 'd arc \<times> (u64 \<times> string) list \<Rightarrow> 'd arc \<times> (u64 \<times> string) list \<Rightarrow> bool" where
  "room_made k ac ac' \<longleftrightarrow> arc_struct (Suc k) (fst ac') \<and> shrinks ac ac' \<and> has_room (fst ac')
     \<and> snd ` set (all_nodes (fst ac')) \<subseteq> snd ` set (all_nodes (fst ac))"

lemma replace_makes_room:
  assumes st: "arc_struct k a1" and dom: "dom (map_of m) = cached a" and c: "cached a1 = cached a" "ar_c a1 = ar_c a" "ar_p a1 = ar_p a"
    and sub: "snd ` set (all_nodes a1) \<subseteq> snd ` set (all_nodes a)" and f: "fp_ok f num" "num (ar_p a)" and t2: "t2_list a1 \<noteq> []"
    and sz: "length (t1_list a1) + length (b1_list a1) < ar_c a" "length (t1_list a1) + length (t2_list a1) = ar_c a"
      "length (t1_list a1) + length (t2_list a1) + length (b1_list a1) + length (b2_list a1) < 2 * ar_c a"
  shows "\<exists>ac'. arc_replace f k pos (a1, m) = Some ac' \<and> room_made k (a, m) ac'"
proof -
  have "\<exists>a2 m2. arc_replace f k pos (a1, m) = Some (a2, m2) \<and> arc_struct (Suc k) a2 \<and> shrinks (a1, m) (a2, m2) \<and> replaced a1 a2"
    by (rule arc_replace_ok) (use st dom c t2 fp_total [OF f] in simp_all)
  then obtain a2 m2 where r: "arc_replace f k pos (a1, m) = Some (a2, m2)" "arc_struct (Suc k) a2" "shrinks (a1, m) (a2, m2)" "replaced a1 a2"
    by blast
  have "has_room a2" using r(3,4) sz c by (auto simp: has_room_def Let_def replaced_def shrinks_def)
  then show ?thesis using r c sub by (auto simp: room_made_def shrinks_def replaced_def)
qed

lemma make_room_ok:
  assumes g: "arc_good num k a" and f: "fp_ok f num" and dom: "dom (map_of m) = cached a"
  shows "\<exists>ac'. arc_make_room f k pos (a, m) = Some ac' \<and> room_made k (a, m) ac'"
proof -
  have st: "arc_struct k a" and sz: "arc_sizes a" and num: "num (ar_p a)" and c: "0 < ar_c a" "ar_c a < 2 ^ 63"
    using g by (simp_all add: arc_good_def)
  note len = struct_lengths [OF st]
  let ?t1 = "length (t1_list a)" and ?t2 = "length (t2_list a)" and ?b1 = "length (b1_list a)" and ?b2 = "length (b2_list a)"
  have z: "?t1 + ?b1 \<le> ar_c a" "?t1 + ?t2 \<le> ar_c a" "?t1 + ?t2 + ?b1 + ?b2 \<le> 2 * ar_c a" "0 < ?b1 + ?b2 \<Longrightarrow> ?t1 + ?t2 = ar_c a"
    using sz unfolding arc_sizes_def Let_def by blast+
  have two: "(2 * ar_c a) mod 2 ^ 64 = 2 * ar_c a" using c(2) by (intro mod_less) simp
  consider (ghost) "ar_c a \<le> ?t1 + ?b1" "?t1 < ar_c a" | (oldest) "ar_c a \<le> ?t1 + ?b1" "\<not> ?t1 < ar_c a"
    | (all) "?t1 + ?b1 < ar_c a" "2 * ar_c a \<le> ?t1 + ?t2 + ?b1 + ?b2" | (full) "?t1 + ?b1 < ar_c a" "?t1 + ?t2 + ?b1 + ?b2 < 2 * ar_c a" "ar_c a \<le> ?t1 + ?t2 + ?b1 + ?b2"
    | (free) "?t1 + ?t2 + ?b1 + ?b2 < ar_c a" by linarith
  then show ?thesis
  proof cases
    case ghost
    then have ne: "b1_list a \<noteq> []" by auto
    let ?a1 = "a\<lparr>b1_hash := um_erase (snd (last (b1_list a))) (b1_hash a), b1_list := butlast (b1_list a)\<rparr>"
    obtain n where n: "?b1 = Suc n" using ne by (cases "b1_list a") auto
    then have full: "?t1 + ?t2 = ar_c a" using z(4) by simp
    have "\<exists>ac'. arc_replace f k pos (?a1, m) = Some ac' \<and> room_made k (a, m) ac'"
    proof (rule replace_makes_room [OF pop_b1 [OF st ne refl] dom _ _ _ _ f num])
      show "snd ` set (all_nodes ?a1) \<subseteq> snd ` set (all_nodes a)" using set_last [OF ne] by (auto simp: all_nodes_def)
      show "t2_list ?a1 \<noteq> []" using full ghost(2) by auto
    qed (use full ghost z n in \<open>simp_all add: cached_def\<close>)
    then show ?thesis using ghost ne by (simp add: arc_make_room_def Let_def len list_back_def)
  next
    case oldest
    then have s: "?t1 = ar_c a" "?t2 = 0" "?b1 = 0" using z by linarith+
    then have ne: "t1_list a \<noteq> []" using c by auto
    let ?r = "snd (last (t1_list a))"
    let ?a1 = "a\<lparr>t1_hash := um_erase ?r (t1_hash a), t1_list := butlast (t1_list a)\<rparr>"
    have p: "arc_struct k ?a1 \<and> shrinks (a, m) (?a1, um_erase ?r m)" by (rule pop_t1 [OF st ne dom refl refl])
    have "has_room ?a1" using s z c by (simp add: has_room_def Let_def)
    then have "room_made k (a, m) (?a1, um_erase ?r m)"
      using p struct_mono [of k ?a1 "Suc k"] set_last [OF ne] by (auto simp: room_made_def all_nodes_def)
    moreover have "arc_make_room f k pos (a, m) = Some (?a1, um_erase ?r m)"
      using oldest ne by (simp add: arc_make_room_def Let_def len list_back_def)
    ultimately show ?thesis by blast
  next
    case all
    then have ne: "b2_list a \<noteq> []" using z by (cases "b2_list a") auto
    let ?a1 = "a\<lparr>b2_hash := um_erase (snd (last (b2_list a))) (b2_hash a), b2_list := butlast (b2_list a)\<rparr>"
    obtain n where n: "?b2 = Suc n" using ne by (cases "b2_list a") auto
    then have full: "?t1 + ?t2 = ar_c a" using z(4) by simp
    have "\<exists>ac'. arc_replace f k pos (?a1, m) = Some ac' \<and> room_made k (a, m) ac'"
    proof (rule replace_makes_room [OF pop_b2 [OF st ne refl] dom _ _ _ _ f num])
      show "snd ` set (all_nodes ?a1) \<subseteq> snd ` set (all_nodes a)" using set_last [OF ne] by (auto simp: all_nodes_def)
      show "t2_list ?a1 \<noteq> []" using full all(1) by auto
    qed (use full all z n in \<open>simp_all add: cached_def\<close>)
    then show ?thesis using all ne c by (simp add: arc_make_room_def Let_def len list_back_def two [simplified])
  next
    case full
    then have s: "?t1 + ?t2 = ar_c a" using z by linarith
    have "\<exists>ac'. arc_replace f k pos (a, m) = Some ac' \<and> room_made k (a, m) ac'"
      by (rule replace_makes_room [OF st dom _ _ _ _ f num]) (use s full in auto)
    then show ?thesis using full by (simp add: arc_make_room_def Let_def len two [simplified])
  next
    case free
    then have s: "?b1 = 0" "?b2 = 0" using z by linarith+
    have "has_room a" using free s by (simp add: has_room_def Let_def)
    then have "room_made k (a, m) (a, m)" using struct_mono [OF st, of "Suc k"] dom by (simp add: room_made_def shrinks_def)
    then show ?thesis using free by (simp add: arc_make_room_def Let_def len)
  qed
qed

lemma arc_put_miss_ok:
  assumes g: "arc_good num k a" and f: "fp_ok f num" and dom: "dom (map_of m) = cached a" and new: "map_of m pos = None"
  shows "\<exists>ac'. arc_put_miss f k pos (a, m) = Some ac' \<and> arc_missed num k pos (a, m) ac'"
proof -
  have st: "arc_struct k a" using g by (simp add: arc_good_def)
  show ?thesis
  proof (cases "map_of (b1_hash a) pos")
    case (Some it)
    then have it: "(it, pos) \<in> set (b1_list a)" using struct_lookup(3) [OF st] by simp
    show ?thesis using hit_b1_ok [OF g f dom it] Some by (simp add: arc_put_miss_def)
  next
    case n1: None
    show ?thesis
    proof (cases "map_of (b2_hash a) pos")
      case (Some it)
      then have it: "(it, pos) \<in> set (b2_list a)" using struct_lookup(4) [OF st] by simp
      show ?thesis using hit_b2_ok [OF g f dom it] n1 Some by (simp add: arc_put_miss_def)
    next
      case n2: None
      obtain a1 m1 where r: "arc_make_room f k pos (a, m) = Some (a1, m1)" "room_made k (a, m) (a1, m1)"
        using make_room_ok [OF g f dom, of pos] by (metis surj_pair)
      have "pos \<notin> cached a" using new dom by (metis domIff)
      then have "pos \<notin> snd ` set (all_nodes a)"
        using n1 n2 struct_absent(3,4) [OF st] by (simp add: all_nodes_def cached_def image_Un)
      then have out: "pos \<notin> snd ` set (all_nodes a1)" using r(2) by (auto simp: room_made_def)
      have st1: "arc_struct (Suc k) a1" and sh: "shrinks (a, m) (a1, m1)" and rm: "has_room a1" using r(2) by (simp_all add: room_made_def)
      let ?a2 = "a1\<lparr>t1_list := (k + 1, pos) # t1_list a1, t1_hash := um_put pos (k + 1) (t1_hash a1)\<rparr>"
      have ids: "k + 1 \<notin> fst ` set (all_nodes a1)" using st1 by (auto simp: arc_struct_def)
      have "listed (um_put pos (k + 1) (t1_hash a1)) ((k + 1, pos) # t1_list a1)"
        using st1 out ids by (intro listed_push) (auto simp: arc_struct_def all_nodes_def)
      moreover have n: "all_nodes ?a2 = (k + 1, pos) # all_nodes a1" by (simp add: all_nodes_def)
      have "\<forall>e\<in>set (all_nodes ?a2). fst e < k + 2" using st1 unfolding n by (auto simp: arc_struct_def)
      ultimately have st2: "arc_struct (k + 2) ?a2"
        using st1 out ids unfolding arc_struct_def n by simp
      have "arc_sizes ?a2" using rm by (simp add: has_room_def arc_sizes_def Let_def)
      then have "arc_good num (k + 2) ?a2" using st2 g sh by (simp add: arc_good_def shrinks_def)
      moreover have "cached ?a2 = insert pos (dom (map_of m1))" using sh by (auto simp: cached_def shrinks_def)
      ultimately have "arc_missed num k pos (a, m) (?a2, m1)" using sh by (simp add: arc_missed_def shrinks_def)
      moreover have "arc_put_miss f k pos (a, m) = Some (?a2, m1)" using n1 n2 r(1) by (simp add: arc_put_miss_def)
      ultimately show ?thesis by blast
    qed
  qed
qed

lemma arc_get_hit_ok:
  assumes g: "arc_good num k a" and pos: "pos \<in> cached a"
  shows "\<exists>a'. arc_get_hit pos a = Some (True, a') \<and> arc_good num k a' \<and> cached a' = cached a \<and> ar_c a' = ar_c a"
proof -
  have st: "arc_struct k a" and sz: "arc_sizes a" using g by (simp_all add: arc_good_def)
  show ?thesis
  proof (cases "map_of (t1_hash a) pos")
    case (Some it)
    then have it: "(it, pos) \<in> set (t1_list a)" using struct_lookup(1) [OF st] by simp
    define a' where a': "a' = a\<lparr>t1_list := filter (\<lambda>e. fst e \<noteq> it) (t1_list a), t2_list := (it, pos) # t2_list a,
      t2_hash := um_put pos it (t2_hash a), t1_hash := um_erase pos (t1_hash a)\<rparr>"
    note pr = promote_t1 [OF st it a']
    have "arc_get_hit pos a = Some (True, a')"
      using Some take_node_ok [of "t1_hash a" "t1_list a"] st it by (simp add: arc_get_hit_def arc_struct_def a')
    moreover have "arc_sizes a'" using sz pr(3) by (auto simp: arc_sizes_def Let_def a')
    ultimately show ?thesis using g pr(1,2) by (auto simp: arc_good_def a')
  next
    case None
    then obtain it where it: "(it, pos) \<in> set (t2_list a)" using pos struct_absent(1) [OF st] by (auto simp: cached_def)
    define a' where a': "a' = a\<lparr>t2_list := (it, pos) # filter (\<lambda>e. fst e \<noteq> it) (t2_list a)\<rparr>"
    note pr = front_t2 [OF st it a']
    have h2: "map_of (t2_hash a) pos = Some it" using struct_lookup(2) [OF st] it by simp
    have "arc_get_hit pos a = Some (True, a')"
      using None h2 take_node_ok [of "t2_hash a" "t2_list a"] st it by (simp add: arc_get_hit_def arc_struct_def a')
    moreover have "arc_sizes a'" using sz pr(3) by (auto simp: arc_sizes_def Let_def a')
    ultimately show ?thesis using g pr(1,2) by (auto simp: arc_good_def a')
  qed
qed

section \<open>Sequences of calls\<close>

definition arc_inv :: "('d \<Rightarrow> bool) \<Rightarrow> 'd cache \<Rightarrow> bool" where
  "arc_inv num c \<longleftrightarrow> (\<exists>a. ca_evict c = EvARC a \<and> arc_good num (ca_next c) a \<and> dom (map_of (ca_map c)) = cached a \<and> ca_size c = ar_c a)"

text \<open>What the cache may hold after a call: \<open>M\<close> is the data of the last successful put of each position.\<close>

fun last_put :: "cache_op \<Rightarrow> cache_result \<Rightarrow> (u64 \<rightharpoonup> string) \<Rightarrow> (u64 \<rightharpoonup> string)" where
  "last_put (Put pos d) (Stored True) M = M(pos \<mapsto> d)"
| "last_put _ _ M = M"

fun truthful :: "cache_op list \<Rightarrow> cache_result list \<Rightarrow> (u64 \<rightharpoonup> string) \<Rightarrow> bool" where
  "truthful (x # xs) (r # rs) M \<longleftrightarrow> (case (x, r) of (Get pos, Found (Some d)) \<Rightarrow> M pos = Some d | _ \<Rightarrow> True) \<and> truthful xs rs (last_put x r M)"
| "truthful _ _ M \<longleftrightarrow> True"

lemma arc_step:
  assumes inv: "arc_inv num c" and f: "fp_ok f num" and M: "map_of (ca_map c) \<subseteq>\<^sub>m M"
  shows "\<exists>r c'. cache_step f x c = Some (r, c') \<and> arc_inv num c' \<and> ca_size c' = ca_size c
    \<and> (case (x, r) of (Get pos, Found (Some d)) \<Rightarrow> M pos = Some d | _ \<Rightarrow> True) \<and> map_of (ca_map c') \<subseteq>\<^sub>m last_put x r M"
proof -
  obtain a where a: "ca_evict c = EvARC a" "arc_good num (ca_next c) a" "dom (map_of (ca_map c)) = cached a" "ca_size c = ar_c a"
    using inv by (auto simp: arc_inv_def)
  show ?thesis
  proof (cases x)
    case (Put pos d)
    show ?thesis
    proof (cases "0 < ca_size c \<and> length d < ca_size c \<and> map_of (ca_map c) pos = None")
      case True
      then obtain a' m' where p: "arc_put_miss f (ca_next c) pos (a, ca_map c) = Some (a', m')" "arc_missed num (ca_next c) pos (a, ca_map c) (a', m')"
        using arc_put_miss_ok [OF a(2) f a(3)] by (metis surj_pair)
      let ?c = "c\<lparr>ca_map := um_put pos d m', ca_evict := EvARC a', ca_next := ca_next c + 2\<rparr>"
      have "cache_step f x c = Some (Stored True, ?c)"
        using True Put p(1) a(1) by (simp add: cache_put_def evict_put_miss_def)
      moreover have "arc_inv num ?c" using p(2) a(4) by (simp add: arc_inv_def arc_missed_def)
      moreover have "map_of (ca_map ?c) \<subseteq>\<^sub>m M(pos \<mapsto> d)"
        using p(2) M map_le_trans [of "map_of m'" "map_of (ca_map c)" M] by (simp add: arc_missed_def map_le_upd)
      ultimately show ?thesis unfolding Put by (intro exI [of _ "Stored True"] exI [of _ ?c]) (simp del: cache_step.simps)
    next
      case False
      then have "cache_step f x c = Some (Stored False, c)" using Put by (auto simp: cache_put_def)
      then show ?thesis using inv M unfolding Put by (intro exI [of _ "Stored False"] exI [of _ c]) (simp del: cache_step.simps)
    qed
  next
    case (Get pos)
    show ?thesis
    proof (cases "map_of (ca_map c) pos")
      case None
      then show ?thesis using Get inv M by (simp add: cache_get_def cache_get_locked_def)
    next
      case (Some d)
      then have "pos \<in> cached a" using a(3) by auto
      then obtain a' where h: "arc_get_hit pos a = Some (True, a')" "arc_good num (ca_next c) a'" "cached a' = cached a" "ar_c a' = ar_c a"
        using arc_get_hit_ok [OF a(2)] by blast
      have "cache_step f x c = Some (Found (Some d), c\<lparr>ca_evict := EvARC a'\<rparr>)"
        using Get Some h(1) a(1) by (simp add: cache_get_def cache_get_locked_def evict_get_hit_def)
      moreover have "arc_inv num (c\<lparr>ca_evict := EvARC a'\<rparr>)" using a h by (simp add: arc_inv_def)
      moreover have "M pos = Some d" using Some M by (auto simp: map_le_def dom_def)
      ultimately show ?thesis
        using M unfolding Get by (intro exI [of _ "Found (Some d)"] exI [of _ "c\<lparr>ca_evict := EvARC a'\<rparr>"]) (simp del: cache_step.simps)
    qed
  qed
qed

lemma arc_run:
  "arc_inv num c \<Longrightarrow> fp_ok f num \<Longrightarrow> map_of (ca_map c) \<subseteq>\<^sub>m M \<Longrightarrow>
   \<exists>rs c'. cache_run f ops c = Some (rs, c') \<and> arc_inv num c' \<and> ca_size c' = ca_size c \<and> truthful ops rs M"
proof (induction ops arbitrary: c M)
  case (Cons x ops)
  obtain r c1 where r: "cache_step f x c = Some (r, c1)" "arc_inv num c1" "ca_size c1 = ca_size c"
    "case (x, r) of (Get pos, Found (Some d)) \<Rightarrow> M pos = Some d | _ \<Rightarrow> True" "map_of (ca_map c1) \<subseteq>\<^sub>m last_put x r M"
    using arc_step [OF Cons.prems] by blast
  obtain rs c' where "cache_run f ops c1 = Some (rs, c')" "arc_inv num c'" "ca_size c' = ca_size c1" "truthful ops rs (last_put x r M)"
    using Cons.IH [OF r(2) Cons.prems(2) r(5)] by blast
  then show ?case using r by simp
qed simp

lemma arc_new_inv:
  "eviction opts = ARC \<Longrightarrow> 0 < cache_size opts \<Longrightarrow> cache_size opts < 2 ^ 63 \<Longrightarrow> num p \<Longrightarrow> arc_inv num (cache_new opts p)"
  by (simp add: arc_inv_def cache_new_def arc_new_def arc_good_def arc_struct_def all_nodes_def arc_sizes_def cached_def)

text \<open>The cache never holds more positions than its size.\<close>

lemma arc_inv_card:
  assumes "arc_inv num c"
  shows "card (dom (map_of (ca_map c))) \<le> ca_size c"
proof -
  obtain a where a: "arc_good num (ca_next c) a" "dom (map_of (ca_map c)) = cached a" "ca_size c = ar_c a"
    using assms by (auto simp: arc_inv_def)
  have "cached a = snd ` set (t1_list a @ t2_list a)" by (auto simp: cached_def)
  then have "card (cached a) \<le> length (t1_list a @ t2_list a)"
    by (metis card_length card_image_le finite_set order_trans)
  then show ?thesis using a by (simp add: arc_good_def arc_sizes_def Let_def)
qed

end
