(* ===== verification/Cache_Properties.thy ===== *)
theory Cache_Properties
  imports Complex_Main Cache_ARC
begin

text \<open>What the entry cache promises, and where it breaks: removing an entry by hand, and looking one up while another thread evicts it.\<close>

section \<open>Examples\<close>

text \<open>Rational arithmetic in place of \<^verbatim>\<open>double\<close>.\<close>

definition rat_fp :: "rat fp" where
  "rat_fp = \<lparr>fp_of_nat = of_nat, fp_add = (+), fp_sub = (-), fp_div = (/), fp_lt = (<), fp_gt = (\<lambda>n p. p < of_nat n), fp_le = (\<lambda>n p. of_nat n \<le> p)\<rparr>"

lemma rat_fp_ok: "fp_ok rat_fp (\<lambda>_. True)"
  by (auto simp: fp_ok_def rat_fp_def)

definition lru_options :: "nat \<Rightarrow> options" where
  "lru_options n = default_options\<lparr>cache_size := n\<rparr>"

definition arc_options :: "nat \<Rightarrow> options" where
  "arc_options n = default_options\<lparr>cache_size := n, eviction := ARC\<rparr>"

section \<open>LRU\<close>

text \<open>C28. With the LRU policy every sequence of puts and gets is defined and gives the results of a bounded list of entries kept in the order of
  their last use: a put of a new entry that finds the list full drops the entry that was not used for longest.\<close>

theorem lru_cache_is_recency_list:
  assumes "eviction opts = LRU"
  shows "\<exists>c. cache_run f ops (cache_new opts p) = Some (fst (spec_run (cache_size opts) ops []), c)
    \<and> map_of (ca_map c) = map_of (snd (spec_run (cache_size opts) ops [])) \<and> length (snd (spec_run (cache_size opts) ops [])) \<le> cache_size opts"
proof -
  have sz: "ca_size (cache_new opts p) = cache_size opts" by (simp add: cache_new_def)
  obtain c where "cache_run f ops (cache_new opts p) = Some (fst (spec_run (cache_size opts) ops []), c)"
    "lru_rep c (snd (spec_run (cache_size opts) ops []))" "ca_size c = cache_size opts"
    using lru_run [OF lru_new_rep [OF assms], of f ops p] unfolding sz by blast
  then show ?thesis by (auto simp: lru_rep_def)
qed

theorem lru_cache_is_recency_list_witness:
  "\<exists>c. cache_run rat_fp [Put 1 '''', Put 2 '''', Get 1, Put 3 '''', Get 2] (cache_new (lru_options 2) 0)
     = Some ([Stored True, Stored True, Found (Some ''''), Stored True, Found None], c)"
  using lru_cache_is_recency_list [of "lru_options 2" rat_fp "[Put 1 '''', Put 2 '''', Get 1, Put 3 '''', Get 2]" 0]
  by (auto simp: lru_options_def default_options_def)

section \<open>ARC\<close>



section \<open>Removal\<close>


text \<open>The lookup of \<^verbatim>\<open>get\<close> comes before the lock: when another thread's put evicts the entry in between, the iterator dangles.\<close>

lemma get_races_with_put:
  "(do { (_, c1) \<leftarrow> cache_put rat_fp 1 '''' (cache_new (lru_options 1) 0);
         (_, c2) \<leftarrow> cache_put rat_fp 2 '''' c1;
         Some (map_of (ca_map c1) 1, map_option fst (cache_get_locked True 1 c2)) }) = Some (Some '''', None)"
  by (simp add: cache_new_def lru_options_def default_options_def lru_new_def cache_put_def evict_put_miss_def lru_put_miss_def
      um_put_def um_erase_def um_assign_def list_back_def cache_get_locked_def)

end
