(* ===== verification/Double.thy ===== *)
theory Double
  imports Complex_Main Prelude
begin

text \<open>
  The part of IEEE double precision the monitoring code uses. A finite double is the rational it stands for. \<open>fl\<close> rounds to 53
  significant bits, to the nearest and ties to even, as the arithmetic does after every operation; the values of the code stay far
  inside the range of the exponents. A result that is infinite or not a number is \<^const>\<open>None\<close>.
\<close>

type_synonym dbl = rat

fun bit_len :: "nat \<Rightarrow> nat" where
  "bit_len n = (if n = 0 then 0 else Suc (bit_len (n div 2)))"

declare bit_len.simps [simp del]

definition binade :: "rat \<Rightarrow> int" where
  "binade x = (let (a, b) = quotient_of x; k = int (bit_len (nat a)) - int (bit_len (nat b))
               in if 2 powi k \<le> x then k else k - 1)"

definition ne_round :: "rat \<Rightarrow> int" where
  "ne_round x = (let q = floor x; r = x - of_int q
                 in if r < 1 / 2 \<or> (r = 1 / 2 \<and> even q) then q else q + 1)"

definition fl :: "rat \<Rightarrow> dbl" where
  "fl x = (if x = 0 then 0
           else let u = 2 powi (binade \<bar>x\<bar> - 52) in sgn x * (of_int (ne_round (\<bar>x\<bar> / u)) * u))"

definition dbl_of_u64 :: "u64 \<Rightarrow> dbl" where
  "dbl_of_u64 w = fl (of_nat (unat w))"

definition dbl_to_u64 :: "dbl \<Rightarrow> u64 option" where
  "dbl_to_u64 x = (if -1 < x \<and> x < 2 ^ 64 then Some (of_nat (nat (floor x))) else None)"

fun isqrt :: "nat \<Rightarrow> nat" where
  "isqrt n = (if n = 0 then 0
              else let r = 2 * isqrt (n div 4) in if (r + 1) * (r + 1) \<le> n then r + 1 else r)"

declare isqrt.simps [simp del]

definition dbl_sqrt :: "dbl \<Rightarrow> dbl option" where
  "dbl_sqrt x =
     (if x < 0 then None else if x = 0 then Some 0
      else let u = 2 powi (binade x div 2 - 52); y = x / (u * u); q = isqrt (nat (floor y))
           in Some (of_nat (if y < (of_nat q + 1 / 2) * (of_nat q + 1 / 2) then q else q + 1) * u))"

subsection \<open>Rounding of dyadic fractions\<close>

lemma bit_len_0 [simp]: "bit_len 0 = 0"
  by (simp add: bit_len.simps)

lemma bit_len_bounds: "0 < n \<Longrightarrow> 2 ^ (bit_len n - 1) \<le> n \<and> n < 2 ^ bit_len n \<and> 0 < bit_len n"
proof (induction n rule: bit_len.induct)
  case (1 n)
  show ?case
  proof (cases "n = 1")
    case True then show ?thesis by (simp add: bit_len.simps)
  next
    case False
    then have h: "0 < n div 2" using 1 by simp
    obtain k where k: "bit_len (n div 2) = Suc k" "2 ^ k \<le> n div 2" "n div 2 < 2 ^ Suc k"
      using 1(1) [OF _ h] 1(2) by (cases "bit_len (n div 2)") auto
    then have "bit_len n = Suc (Suc k)" using 1(2) by (simp add: bit_len.simps [of n])
    moreover have "2 ^ Suc k \<le> n" "n < 2 ^ Suc (Suc k)" using k by auto
    ultimately show ?thesis by simp
  qed
qed

lemma powi_minus_nat: "(2 :: rat) powi (int a - int b) = 2 ^ a / 2 ^ b"
  by (simp add: power_int_diff)

lemma binade_bounds:
  assumes "0 < x" shows "2 powi binade x \<le> x" and "x < 2 powi (binade x + 1)"
proof -
  obtain a b where q: "quotient_of x = (a, b)" by (cases "quotient_of x")
  have b: "0 < b" using quotient_of_denom_pos [OF q] .
  have x: "x = of_int a / of_int b" using quotient_of_div [OF q] .
  have a: "0 < a" using assms b by (simp add: x zero_less_divide_iff)
  obtain m n where mn: "a = int m" "b = int n" "0 < m" "0 < n" using a b by (metis pos_int_cases)
  define i j where ij: "i = bit_len m" "j = bit_len n"
  have m: "2 ^ (i - 1) \<le> m" "m < 2 ^ i" "0 < i" using bit_len_bounds [of m] mn ij by auto
  have n: "2 ^ (j - 1) \<le> n" "n < 2 ^ j" "0 < j" using bit_len_bounds [of n] mn ij by auto
  let ?k = "int i - int j"
  have x': "x = of_nat m / of_nat n" using x mn by simp
  have "(of_nat m :: rat) < 2 ^ i" using m(2) by (metis of_nat_less_iff of_nat_numeral of_nat_power)
  moreover have "(2 :: rat) ^ (j - 1) \<le> of_nat n" using n(1) by (metis of_nat_le_iff of_nat_numeral of_nat_power)
  ultimately have "x < 2 ^ i / 2 ^ (j - 1)" unfolding x' using mn(3,4)
    by (intro frac_less [of "of_nat m"]) auto
  also have "2 ^ i / 2 ^ (j - 1) = (2 :: rat) powi (?k + 1)" using n(3) powi_minus_nat [of i "j - 1"]
    by (simp add: of_nat_diff algebra_simps)
  finally have up: "x < 2 powi (?k + 1)" .
  have "(2 :: rat) ^ (i - 1) \<le> of_nat m" using m(1) by (metis of_nat_le_iff of_nat_numeral of_nat_power)
  moreover have "(of_nat n :: rat) < 2 ^ j" using n(2) by (metis of_nat_less_iff of_nat_numeral of_nat_power)
  ultimately have "2 ^ (i - 1) / 2 ^ j \<le> x" unfolding x' using mn(3,4)
    by (intro frac_le) auto
  moreover have "2 ^ (i - 1) / 2 ^ j = (2 :: rat) powi (?k - 1)" using m(3) powi_minus_nat [of "i - 1" j]
    by (simp add: of_nat_diff algebra_simps)
  ultimately have lo: "2 powi (?k - 1) \<le> x" by simp
  have bin: "binade x = (if 2 powi ?k \<le> x then ?k else ?k - 1)" unfolding binade_def by (simp add: q mn ij)
  show "2 powi binade x \<le> x" "x < 2 powi (binade x + 1)" using up lo by (auto simp: bin)
qed

lemma binade_unique:
  assumes "2 powi k \<le> x" and "x < 2 powi (k + 1)" shows "binade x = k"
proof -
  have p: "0 < (2 :: rat) powi k" by simp
  then have x: "0 < x" using assms(1) by linarith
  note b = binade_bounds [OF x]
  have mono: "i \<le> j \<Longrightarrow> (2 :: rat) powi i \<le> 2 powi j" for i j :: int by (rule power_int_increasing) auto
  have "\<not> k + 1 \<le> binade x" using mono [of "k + 1" "binade x"] b assms by linarith
  moreover have "\<not> binade x + 1 \<le> k" using mono [of "binade x + 1" k] b assms by linarith
  ultimately show ?thesis by simp
qed

definition ne_nat :: "nat \<Rightarrow> nat \<Rightarrow> nat" where
  "ne_nat m s = (let q = m div 2 ^ s; r = m mod 2 ^ s
                 in if 2 * r < 2 ^ s \<or> (2 * r = 2 ^ s \<and> even q) then q else q + 1)"

lemma ne_round_div: "ne_round (of_nat m / 2 ^ s) = int (ne_nat m s)"
proof -
  let ?q = "m div 2 ^ s" and ?r = "m mod 2 ^ s"
  have fl: "\<lfloor>of_nat m / (2 :: rat) ^ s\<rfloor> = int ?q"
    using floor_divide_of_nat_eq [of m "2 ^ s", where 'a = rat] by simp
  have "(of_nat m :: rat) = of_nat ?q * 2 ^ s + of_nat ?r"
    using arg_cong [OF div_mult_mod_eq [of m "2 ^ s", symmetric], of "of_nat :: nat \<Rightarrow> rat"]
    unfolding of_nat_add of_nat_mult of_nat_power of_nat_numeral .
  then have r: "of_nat m / 2 ^ s - of_nat ?q = (of_nat ?r :: rat) / 2 ^ s" by (simp add: field_simps)
  have lt: "(of_nat ?r :: rat) / 2 ^ s < 1 / 2 \<longleftrightarrow> 2 * ?r < 2 ^ s"
    using of_nat_less_iff [of "2 * ?r" "2 ^ s", where 'a = rat] by (simp add: field_simps)
  have eq: "(of_nat ?r :: rat) / 2 ^ s = 1 / 2 \<longleftrightarrow> 2 * ?r = 2 ^ s"
    using of_nat_eq_iff [of "2 * ?r" "2 ^ s", where 'a = rat] by (auto simp: field_simps)
  show ?thesis unfolding ne_round_def ne_nat_def Let_def fl of_int_of_nat_eq r lt eq by simp
qed

definition fl_nat :: "nat \<Rightarrow> nat" where
  "fl_nat m = (let s = bit_len m - 53 in ne_nat m s * 2 ^ s)"

lemma fl_dyadic:
  assumes "0 < m" shows "fl (of_nat m / 2 ^ j) = of_nat (fl_nat m) / 2 ^ j"
proof -
  let ?x = "of_nat m / (2 :: rat) ^ j" and ?n = "bit_len m"
  note b = bit_len_bounds [OF assms]
  have "(2 :: rat) ^ (?n - 1) \<le> of_nat m" using b by (metis of_nat_le_iff of_nat_numeral of_nat_power)
  then have lo: "2 powi (int (?n - 1) - int j) \<le> ?x" by (simp add: powi_minus_nat divide_right_mono)
  have "(of_nat m :: rat) < 2 ^ ?n" using b by (metis of_nat_less_iff of_nat_numeral of_nat_power)
  then have up: "?x < 2 powi (int ?n - int j)" by (simp add: powi_minus_nat divide_strict_right_mono)
  have bin: "binade ?x = int ?n - 1 - int j"
    by (rule binade_unique) (use lo up b in \<open>simp_all add: of_nat_diff algebra_simps\<close>)
  have x0: "?x \<noteq> 0" "\<bar>?x\<bar> = ?x" "sgn ?x = 1" using assms by simp_all
  have u: "2 powi (binade \<bar>?x\<bar> - 52) = (2 :: rat) powi (int ?n - int (53 + j))" by (simp add: x0 bin algebra_simps)
  show ?thesis
  proof (cases "53 \<le> ?n")
    case True
    define s where s: "s = ?n - 53"
    have us: "(2 :: rat) powi (binade \<bar>?x\<bar> - 52) = 2 ^ s / 2 ^ j"
      unfolding u using powi_minus_nat [of s j] True by (simp add: s of_nat_diff algebra_simps)
    have d: "\<bar>?x\<bar> / (2 ^ s / 2 ^ j) = of_nat m / 2 ^ s" unfolding x0 by simp
    show ?thesis unfolding fl_def Let_def us d ne_round_div using x0 by (simp add: fl_nat_def s Let_def)
  next
    case False
    define t where t: "t = 53 - ?n"
    have us: "(2 :: rat) powi (binade \<bar>?x\<bar> - 52) = 1 / (2 ^ t * 2 ^ j)"
      unfolding u power_add [symmetric] using powi_minus_nat [of 0 "t + j"] False
      by (simp add: t of_nat_diff algebra_simps)
    have d: "\<bar>?x\<bar> / (1 / (2 ^ t * 2 ^ j)) = of_nat (m * 2 ^ t) / 2 ^ 0" unfolding x0 by simp
    show ?thesis unfolding fl_def Let_def us d ne_round_div using x0 False by (simp add: fl_nat_def ne_nat_def)
  qed
qed

lemma fl_nat_pos: "0 < m \<Longrightarrow> 0 < fl_nat m"
proof -
  assume m: "0 < m"
  have "2 ^ (bit_len m - 53) \<le> (2 :: nat) ^ (bit_len m - 1)" by (rule power_increasing) auto
  then have "2 ^ (bit_len m - 53) \<le> m" using bit_len_bounds [OF m] by linarith
  then have "0 < m div 2 ^ (bit_len m - 53)" by (simp add: div_greater_zero_iff)
  then show ?thesis by (simp add: fl_nat_def ne_nat_def Let_def)
qed

definition round_off :: "nat \<Rightarrow> nat \<Rightarrow> nat" where
  "round_off s m = ne_nat m s * 2 ^ s"

lemma fl_nat_eq: "fl_nat m = round_off (bit_len m - 53) m"
  by (simp add: fl_nat_def round_off_def Let_def)

lemma round_off_simps:
  "round_off 0 m = m"
  "round_off (Suc 0) m = (if even m \<or> even (m div 2) then m div 2 else m div 2 + 1) * 2"
  "round_off (numeral k) m =
     (if 2 * (m mod 2 ^ numeral k) < 2 ^ numeral k \<or> (2 * (m mod 2 ^ numeral k) = 2 ^ numeral k \<and> even (m div 2 ^ numeral k))
      then m div 2 ^ numeral k else m div 2 ^ numeral k + 1) * 2 ^ numeral k"
  by (auto simp: round_off_def ne_nat_def Let_def mod_2_eq_odd)

fun bits_of :: "num \<Rightarrow> num \<Rightarrow> nat" where
  "bits_of a num.One = numeral a"
| "bits_of a (num.Bit0 k) = bits_of (Num.inc a) k"
| "bits_of a (num.Bit1 k) = bits_of (Num.inc a) k"

lemma bit_len_Bit:
  "bit_len (numeral (num.Bit0 k)) = bit_len (numeral k) + 1"
  "bit_len (numeral (num.Bit1 k)) = bit_len (numeral k) + 1"
  "bit_len (numeral num.One) = 1"
  by (simp_all add: bit_len.simps [of "numeral (num.Bit0 k)"] bit_len.simps [of "numeral (num.Bit1 k)"] bit_len.simps [of "Suc 0"])

lemma bits_of_eq: "numeral a + bit_len (numeral k) = bits_of (Num.inc a) k"
proof (induction k arbitrary: a)
  case One
  show ?case by (simp only: bit_len_Bit bits_of.simps numeral_inc)
next
  case (Bit0 k)
  from Bit0 [of "Num.inc a"] show ?case by (simp only: bit_len_Bit bits_of.simps numeral_inc ac_simps)
next
  case (Bit1 k)
  from Bit1 [of "Num.inc a"] show ?case by (simp only: bit_len_Bit bits_of.simps numeral_inc ac_simps)
qed

lemma bit_len_numeral: "bit_len (numeral k) = bits_of num.One k"
proof (cases k)
  case One
  show ?thesis using bit_len_Bit(3) by (simp add: One)
next
  case (Bit0 l)
  show ?thesis using bits_of_eq [of num.One l] by (simp only: Bit0 bit_len_Bit bits_of.simps numeral_One ac_simps)
next
  case (Bit1 l)
  show ?thesis using bits_of_eq [of num.One l] by (simp only: Bit1 bit_len_Bit bits_of.simps numeral_One ac_simps)
qed

lemma dbl_of_max [simp]: "dbl_of_u64 (- 1) = 2 ^ 64"
proof -
  have m: "unat (- 1 :: u64) = 18446744073709551615" by (simp add: unsigned_minus_1_eq_mask mask_eq_exp_minus_1)
  have "fl_nat 18446744073709551615 = 2 ^ 64" by (simp add: fl_nat_def ne_nat_def bit_len.simps)
  then show ?thesis using fl_dyadic [of 18446744073709551615 0] by (simp add: dbl_of_u64_def m)
qed

lemma dbl_of_2 [simp]: "dbl_of_u64 2 = of_nat 2 / 2 ^ 0"
proof -
  have "fl_nat 2 = 2" by (simp add: fl_nat_def ne_nat_def bit_len.simps)
  then show ?thesis using fl_dyadic [of 2 0] by (simp add: dbl_of_u64_def)
qed

lemma ne_round_mono: "x \<le> y \<Longrightarrow> ne_round x \<le> ne_round y"
proof -
  assume xy: "x \<le> y"
  have b: "floor z \<le> ne_round z \<and> ne_round z \<le> floor z + 1" for z :: rat by (simp add: ne_round_def Let_def)
  show ?thesis
  proof (cases "floor x = floor y")
    case True
    then show ?thesis using xy by (auto simp: ne_round_def Let_def)
  next
    case False
    then have "floor x < floor y" using floor_mono [OF xy] by simp
    then show ?thesis using b [of x] b [of y] by linarith
  qed
qed

lemma ne_round_of_int [simp]: "ne_round (of_int n) = n"
  by (simp add: ne_round_def)

lemma fl_0 [simp]: "fl 0 = 0"
  by (simp add: fl_def)

lemma fl_pos: "0 < x \<Longrightarrow> fl x = of_int (ne_round (x / 2 powi (binade x - 52))) * 2 powi (binade x - 52)"
  by (simp add: fl_def Let_def)

lemma fl_bounds:
  assumes "0 < x" shows "2 powi binade x \<le> fl x" and "fl x \<le> 2 powi (binade x + 1)"
proof -
  let ?u = "(2 :: rat) powi (binade x - 52)"
  have u: "0 < ?u" by simp
  have e: "2 powi binade x = of_int (2 ^ 52) * ?u" "2 powi (binade x + 1) = of_int (2 ^ 53) * ?u"
    by (simp_all add: power_int_diff power_int_add)
  have "of_int (2 ^ 52) \<le> x / ?u" "x / ?u \<le> of_int (2 ^ 53)"
    using binade_bounds [OF assms] u unfolding e by (simp_all add: pos_le_divide_eq pos_divide_le_eq)
  then have "2 ^ 52 \<le> ne_round (x / ?u)" "ne_round (x / ?u) \<le> 2 ^ 53"
    using ne_round_mono [of "of_int (2 ^ 52)"] ne_round_mono [of _ "of_int (2 ^ 53)"] unfolding ne_round_of_int by blast+
  then have "(of_int (2 ^ 52) :: rat) \<le> of_int (ne_round (x / ?u))" "(of_int (ne_round (x / ?u)) :: rat) \<le> of_int (2 ^ 53)"
    unfolding of_int_le_iff .
  then show "2 powi binade x \<le> fl x" "fl x \<le> 2 powi (binade x + 1)"
    unfolding e fl_pos [OF assms] using u by (auto intro: mult_right_mono)
qed

lemma binade_mono: "0 < x \<Longrightarrow> x \<le> y \<Longrightarrow> binade x \<le> binade y"
proof (rule ccontr)
  assume a: "0 < x" "x \<le> y" "\<not> binade x \<le> binade y"
  then have "2 powi (binade y + 1) \<le> (2 :: rat) powi binade x" by (intro power_int_increasing) auto
  then show False using binade_bounds [of x] binade_bounds [of y] a by linarith
qed

lemma fl_mono: "0 \<le> x \<Longrightarrow> x \<le> y \<Longrightarrow> fl x \<le> fl y"
proof -
  assume a: "0 \<le> x" "x \<le> y"
  have nonneg: "0 \<le> fl z" if "0 < z" for z
    using fl_bounds(1) [OF that] by (rule order_trans [rotated]) simp
  consider "x = 0" | "0 < x" "binade x = binade y" | "0 < x" "binade x < binade y"
    using a binade_mono [of x y] by fastforce
  then show ?thesis
  proof cases
    case 1
    then show ?thesis using a nonneg [of y] by (cases "y = 0") auto
  next
    case 2
    have y: "0 < y" using a 2 by simp
    have "x / 2 powi (binade x - 52) \<le> y / 2 powi (binade x - 52)" using a by (simp add: divide_right_mono)
    from ne_round_mono [OF this] show ?thesis unfolding fl_pos [OF 2(1)] fl_pos [OF y] 2(2)
      by (intro mult_right_mono) auto
  next
    case 3
    have "fl x \<le> 2 powi (binade x + 1)" by (rule fl_bounds(2)) (fact 3)
    also have "\<dots> \<le> 2 powi binade y" using 3 by (intro power_int_increasing) auto
    also have "\<dots> \<le> fl y" using a 3 by (intro fl_bounds(1)) simp
    finally show ?thesis .
  qed
qed

lemma dbl_of_u64_mono: "a \<le> b \<Longrightarrow> dbl_of_u64 a \<le> dbl_of_u64 b"
  unfolding dbl_of_u64_def by (rule fl_mono) (simp_all only: word_le_nat_alt of_nat_le_iff of_nat_0_le_iff)

end
