(* ===== verification/Histogram.thy ===== *)
theory Histogram
  imports Double
begin

text \<open>
  The histograms of \<^verbatim>\<open>monitoring/histogram.cc\<close> and \<^verbatim>\<open>monitoring/histogram.h\<close>: the bucket mapper, \<^verbatim>\<open>HistogramStat\<close> with its counters
  as 64-bit words, and the figures computed from them in double precision. Every access is a relaxed atomic one; the
  definitions are the effect of a call that runs alone. Rendering as text is left out.
\<close>

subsection \<open>The bucket mapper\<close>

record bucket_mapper =
  bucketValues :: "u64 list"
  maxBucketValue :: u64
  minBucketValue :: u64
  valueIndexMap :: "(u64, u64) smap"

function (sequential) most_significant :: "u64 \<Rightarrow> u64 \<Rightarrow> u64 \<times> u64" where
  "most_significant v pow_of_ten =
     (if v div 10 > 10 then most_significant (v div 10) (pow_of_ten * 10) else (v, pow_of_ten))"
  by pat_completeness auto
termination
proof (relation "measure (\<lambda>(v, _). unat v)", goal_cases)
  case (2 v p)
  then have "0 < unat v" by (auto simp: unat_gt_0)
  then show ?case by (simp add: unat_div)
qed simp

declare most_significant.simps [simp del]

definition two_digits :: "u64 \<Rightarrow> u64" where
  "two_digits v = (let (back, pow_of_ten) = most_significant v 1 in back * pow_of_ten)"

fun mapper_loop ::
  "nat \<Rightarrow> dbl \<Rightarrow> u64 list \<Rightarrow> (u64, u64) smap \<Rightarrow> (u64 list \<times> (u64, u64) smap) option" where
  "mapper_loop 0 bucket_val vals idx = None"
| "mapper_loop (Suc n) bucket_val vals idx =
     (let bucket_val' = fl (3 / 2 * bucket_val)
      in if bucket_val' \<le> dbl_of_u64 (- 1) then
           (case dbl_to_u64 bucket_val' of
              None \<Rightarrow> None
            | Some v \<Rightarrow>
                let vals' = vals @ [two_digits v]
                in mapper_loop n bucket_val' vals' (smap_assign (two_digits v) (of_nat (length vals' - 1)) idx))
         else Some (vals, idx))"

definition HistogramBucketMapper :: "nat \<Rightarrow> bucket_mapper option" where
  "HistogramBucketMapper n =
     map_option (\<lambda>(vals, idx). \<lparr>bucketValues = vals, maxBucketValue = last vals, minBucketValue = hd vals,
                                valueIndexMap = idx\<rparr>)
       (mapper_loop n (dbl_of_u64 2) [1, 2] [(1, 0), (2, 1)])"


definition IndexForValue :: "bucket_mapper \<Rightarrow> u64 \<Rightarrow> nat" where
  "IndexForValue bm value =
     (if maxBucketValue bm \<le> value then length (bucketValues bm) - 1
      else if minBucketValue bm \<le> value then
        (case find (\<lambda>(k, _). value \<le> k) (valueIndexMap bm) of Some (_, i) \<Rightarrow> unat i | None \<Rightarrow> 0)
      else 0)"

definition BucketCount :: "bucket_mapper \<Rightarrow> nat" where
  "BucketCount bm = length (bucketValues bm)"

definition BucketLimit :: "bucket_mapper \<Rightarrow> nat \<Rightarrow> u64 option" where
  "BucketLimit bm b = (if b < BucketCount bm then Some (bucketValues bm ! b) else None)"

text \<open>The constant of the file; the loop of the constructor takes 108 rounds.\<close>

definition bucketMapper :: bucket_mapper where
  "bucketMapper = (case HistogramBucketMapper 128 of
     Some bm \<Rightarrow> bm
   | None \<Rightarrow> \<lparr>bucketValues = [], maxBucketValue = 0, minBucketValue = 0, valueIndexMap = []\<rparr>)"

subsection \<open>The statistics of a histogram\<close>

record histogram_stat =
  hs_min :: u64
  hs_max :: u64
  hs_num :: u64
  hs_sum :: u64
  hs_sum_squares :: u64
  hs_buckets :: "u64 list"
  hs_num_buckets :: nat

definition hs_Clear :: "histogram_stat \<Rightarrow> histogram_stat" where
  "hs_Clear h = h\<lparr>hs_min := maxBucketValue bucketMapper, hs_max := 0, hs_num := 0, hs_sum := 0, hs_sum_squares := 0,
     hs_buckets := replicate (hs_num_buckets h) 0 @ drop (hs_num_buckets h) (hs_buckets h)\<rparr>"

definition HistogramStat :: "histogram_stat option" where
  "HistogramStat =
     (if BucketCount bucketMapper = 109
      then Some (hs_Clear \<lparr>hs_min = 0, hs_max = 0, hs_num = 0, hs_sum = 0, hs_sum_squares = 0,
                           hs_buckets = replicate 109 0, hs_num_buckets = BucketCount bucketMapper\<rparr>)
      else None)"

definition hs_Empty :: "histogram_stat \<Rightarrow> bool" where
  "hs_Empty h \<longleftrightarrow> hs_num h = 0"

definition hs_Add :: "u64 \<Rightarrow> histogram_stat \<Rightarrow> histogram_stat option" where
  "hs_Add value h =
     (let index = IndexForValue bucketMapper value
      in if index < hs_num_buckets h then
           Some (h\<lparr>hs_buckets := (hs_buckets h)[index := hs_buckets h ! index + 1],
                   hs_min := (if value < hs_min h then value else hs_min h),
                   hs_max := (if value > hs_max h then value else hs_max h),
                   hs_num := hs_num h + 1, hs_sum := hs_sum h + value,
                   hs_sum_squares := hs_sum_squares h + value * value\<rparr>)
         else None)"

definition hs_Merge :: "histogram_stat \<Rightarrow> histogram_stat \<Rightarrow> histogram_stat" where
  "hs_Merge other h =
     h\<lparr>hs_min := (if hs_min other < hs_min h then hs_min other else hs_min h),
       hs_max := (if hs_max other > hs_max h then hs_max other else hs_max h),
       hs_num := hs_num h + hs_num other, hs_sum := hs_sum h + hs_sum other,
       hs_sum_squares := hs_sum_squares h + hs_sum_squares other,
       hs_buckets := map (\<lambda>b. hs_buckets h ! b + hs_buckets other ! b) [0..<hs_num_buckets h]
                     @ drop (hs_num_buckets h) (hs_buckets h)\<rparr>"

text \<open>The position of the threshold inside bucket \<open>b\<close>, between the limits of the bucket and clamped to the extremes.\<close>

definition pct_point :: "dbl \<Rightarrow> u64 \<Rightarrow> u64 \<Rightarrow> u64 \<Rightarrow> u64 \<Rightarrow> histogram_stat \<Rightarrow> dbl" where
  "pct_point threshold cumulative_sum bucket_value left_point right_point h =
     (let left_sum = cumulative_sum - bucket_value;
          right_left_diff = cumulative_sum - left_sum;
          pos = (if right_left_diff \<noteq> 0
                 then fl (fl (threshold - dbl_of_u64 left_sum) / dbl_of_u64 right_left_diff) else 0);
          r = fl (dbl_of_u64 left_point + fl (dbl_of_u64 (right_point - left_point) * pos));
          r1 = (if r < dbl_of_u64 (hs_min h) then dbl_of_u64 (hs_min h) else r)
      in if r1 > dbl_of_u64 (hs_max h) then dbl_of_u64 (hs_max h) else r1)"

fun pct_loop :: "u64 list \<Rightarrow> nat \<Rightarrow> u64 \<Rightarrow> dbl \<Rightarrow> histogram_stat \<Rightarrow> dbl option" where
  "pct_loop [] b cumulative_sum threshold h = Some (dbl_of_u64 (hs_max h))"
| "pct_loop (bucket_value # rest) b cumulative_sum threshold h =
     (let cumulative_sum' = cumulative_sum + bucket_value
      in if dbl_of_u64 cumulative_sum' \<ge> threshold then
           (case (if b = 0 then Some 0 else BucketLimit bucketMapper (b - 1), BucketLimit bucketMapper b) of
              (Some left_point, Some right_point) \<Rightarrow>
                Some (pct_point threshold cumulative_sum' bucket_value left_point right_point h)
            | _ \<Rightarrow> None)
         else pct_loop rest (Suc b) cumulative_sum' threshold h)"

definition hs_Percentile :: "dbl \<Rightarrow> histogram_stat \<Rightarrow> dbl option" where
  "hs_Percentile p h =
     pct_loop (take (hs_num_buckets h) (hs_buckets h)) 0 0 (fl (dbl_of_u64 (hs_num h) * fl (p / 100))) h"

definition hs_Median :: "histogram_stat \<Rightarrow> dbl option" where
  "hs_Median h = hs_Percentile 50 h"

definition hs_Average :: "histogram_stat \<Rightarrow> dbl" where
  "hs_Average h = (if hs_num h = 0 then 0 else fl (dbl_of_u64 (hs_sum h) / dbl_of_u64 (hs_num h)))"

definition hs_StandardDeviation :: "histogram_stat \<Rightarrow> dbl option" where
  "hs_StandardDeviation h =
     (let cur_num = hs_num h; cur_sum = hs_sum h; cur_sum_squares = hs_sum_squares h
      in if cur_num = 0 then Some 0
         else if cur_num * cur_num = 0 then None
         else dbl_sqrt (fl (dbl_of_u64 (cur_sum_squares * cur_num - cur_sum * cur_sum)
                            / dbl_of_u64 (cur_num * cur_num))))"

text \<open>\<^verbatim>\<open>HistogramData\<close>: the figures that may not be finite are options.\<close>

record histogram_data =
  hd_median :: "dbl option"
  hd_percentile95 :: "dbl option"
  hd_percentile99 :: "dbl option"
  hd_average :: dbl
  hd_standard_deviation :: "dbl option"
  hd_max :: dbl

definition hs_Data :: "histogram_stat \<Rightarrow> histogram_data" where
  "hs_Data h = \<lparr>hd_median = hs_Median h, hd_percentile95 = hs_Percentile 95 h, hd_percentile99 = hs_Percentile 99 h,
     hd_average = hs_Average h, hd_standard_deviation = hs_StandardDeviation h, hd_max = dbl_of_u64 (hs_max h)\<rparr>"

subsection \<open>The limits of the buckets\<close>

function (sequential) trim_digits :: "nat \<Rightarrow> nat \<Rightarrow> nat" where
  "trim_digits v p = (if v div 10 > 10 then trim_digits (v div 10) (p * 10) else v * p)"
  by pat_completeness auto
termination by (relation "measure fst") auto

declare trim_digits.simps [simp del]

lemma two_digits_of_nat:
  assumes "v < 2 ^ 64" shows "two_digits (of_nat v) = of_nat (trim_digits v 1)"
proof -
  have "(case most_significant (of_nat v) (of_nat p) of (b, q) \<Rightarrow> b * q) = of_nat (trim_digits v p)" for p
    using assms
  proof (induction v p rule: trim_digits.induct)
    case (1 v p)
    have d: "(of_nat v :: u64) div 10 = of_nat (v div 10)"
      using 1(2) by (simp add: u64_eq_iff unat_div unat_of_nat_u64)
    have g: "(of_nat v :: u64) div 10 > 10 \<longleftrightarrow> v div 10 > 10"
      using 1(2) by (simp add: d word_less_nat_alt unat_of_nat_u64)
    show ?case
    proof (cases "v div 10 > 10")
      case True
      then show ?thesis using 1(1) [OF True] 1(2) g
        by (simp add: d most_significant.simps [of "of_nat v"] trim_digits.simps [of v])
    next
      case False
      then show ?thesis using g
        by (simp add: most_significant.simps [of "of_nat v"] trim_digits.simps [of v])
    qed
  qed
  from this [of 1] show ?thesis by (simp add: two_digits_def Let_def)
qed

primrec assign_from :: "nat \<Rightarrow> u64 list \<Rightarrow> (u64, u64) smap \<Rightarrow> (u64, u64) smap" where
  "assign_from l [] idx = idx"
| "assign_from l (v # vs) idx = assign_from (Suc l) vs (smap_assign v (of_nat l) idx)"

definition index_of :: "u64 list \<Rightarrow> (u64, u64) smap" where
  "index_of vals = zip vals (map of_nat [0..<length vals])"

lemma assign_from_sorted:
  "sorted_wrt (<) (us @ vs) \<Longrightarrow> assign_from (length us) vs (index_of us) = index_of (us @ vs)"
proof (induction vs arbitrary: us)
  case Nil then show ?case by simp
next
  case (Cons v vs)
  have "\<forall>e\<in>set (index_of us). fst e < v"
    using Cons(2) by (auto simp: index_of_def sorted_wrt_append dest: set_zip_leftD)
  then have "smap_assign v (of_nat (length us)) (index_of us) = index_of (us @ [v])"
    by (simp add: smap_assign_last index_of_def)
  then show ?case using Cons(1) [of "us @ [v]"] Cons(2) by simp
qed

lemma trim_digits_eq:
  assumes "d * 10 ^ k \<le> v" and "v < (d + 1) * 10 ^ k" and "d < 110" and "k = 0 \<or> 10 < d"
  shows "trim_digits v p = d * p * 10 ^ k"
  using assms
proof (induction k arbitrary: v p)
  case 0
  then have "v = d" "\<not> v div 10 > 10" by auto
  then show ?case by (simp add: trim_digits.simps)
next
  case (Suc k)
  have lo: "d * 10 ^ k \<le> v div 10" and up: "v div 10 < (d + 1) * 10 ^ k" using Suc(2,3) by auto
  have "d * 1 \<le> d * 10 ^ k" by (intro mult_le_mono) auto
  then have g: "v div 10 > 10" using Suc(5) lo by linarith
  show ?case using Suc(1) [OF lo up, of "p * 10"] g Suc(4,5) by (simp add: trim_digits.simps [of v])
qed

text \<open>
  \<open>limits_are ds (m, t)\<close> tells that the loop, with the double \<open>m / 2 ^ t\<close> as its next value, appends the limits \<open>d * 10 ^ k\<close> for the pairs in
  \<open>ds\<close> and ends. \<open>reduce\<close> cancels powers of two.
\<close>

primrec reduce :: "nat \<Rightarrow> nat \<Rightarrow> nat \<times> nat" where
  "reduce 0 m = (m, 0)"
| "reduce (Suc t) m = (if even m then reduce t (m div 2) else (m, Suc t))"

lemma reduce_value: "reduce t m = (m', t') \<Longrightarrow> (of_nat m' :: rat) / 2 ^ t' = of_nat m / 2 ^ t"
proof (induction t arbitrary: m)
  case (Suc t)
  then show ?case by (auto simp: field_simps split: if_splits elim!: evenE)
qed auto

definition in_bucket :: "nat \<Rightarrow> nat \<Rightarrow> nat \<Rightarrow> nat \<Rightarrow> bool" where
  "in_bucket d p m q \<longleftrightarrow> d * p * q \<le> m \<and> m < (d + 1) * p * q \<and> (d + 1) * p \<le> 2 ^ 64"

primrec limits_are :: "(nat \<times> nat) list \<Rightarrow> nat \<times> nat \<Rightarrow> bool" where
  "limits_are [] x \<longleftrightarrow> 2 ^ 64 * 2 ^ snd x < fst x"
| "limits_are (e # ds) x \<longleftrightarrow>
     in_bucket (fst e) (10 ^ snd e) (fst x) (2 ^ snd x) \<and> fst e < 110 \<and> (snd e = 0 \<or> 10 < fst e)
     \<and> limits_are ds (reduce (Suc (snd x)) (fl_nat (3 * fst x)))"

definition limit_values :: "(nat \<times> nat) list \<Rightarrow> u64 list" where
  "limit_values ds = map (\<lambda>(d, k). of_nat (d * 10 ^ k)) ds"

lemma next_value:
  assumes "0 < m" and "reduce (Suc t) (fl_nat (3 * m)) = (m', t')"
  shows "fl (3 / 2 * (of_nat m / 2 ^ t)) = of_nat m' / 2 ^ t'"
proof -
  have "3 / 2 * (of_nat m / 2 ^ t) = of_nat (3 * m) / (2 :: rat) ^ Suc t" by simp
  then show ?thesis using fl_dyadic [of "3 * m" "Suc t"] reduce_value [OF assms(2)] assms(1) by simp
qed

lemma next_pos:
  assumes "0 < m" and "reduce (Suc t) (fl_nat (3 * m)) = (m', t')" shows "0 < m'"
proof -
  have "0 < (of_nat (fl_nat (3 * m)) :: rat) / 2 ^ Suc t" using assms(1) by (simp add: fl_nat_pos)
  then show ?thesis using reduce_value [OF assms(2)] by (cases m') auto
qed

lemma in_bucket:
  assumes "in_bucket d (10 ^ k) m (2 ^ t)" and "d < 110" and "k = 0 \<or> 10 < d"
  shows "of_nat m / 2 ^ t \<le> dbl_of_u64 (- 1)" and "dbl_to_u64 (of_nat m / 2 ^ t) = Some (of_nat (m div 2 ^ t))"
    and "two_digits (of_nat (m div 2 ^ t)) = of_nat (d * 10 ^ k)"
proof -
  have b: "d * 10 ^ k * 2 ^ t \<le> m" "m < (d + 1) * 10 ^ k * 2 ^ t" "(d + 1) * 10 ^ k \<le> 2 ^ 64"
    using assms(1) unfolding in_bucket_def by blast+
  have v: "d * 10 ^ k \<le> m div 2 ^ t" "m div 2 ^ t < (d + 1) * 10 ^ k"
    using b by (simp_all add: less_eq_div_iff_mult_less_eq less_mult_imp_div_less)
  have "m < 2 ^ 64 * 2 ^ t" using b(2) mult_le_mono1 [OF b(3), of "2 ^ t"] by linarith
  then have "(of_nat m :: rat) < 2 ^ 64 * 2 ^ t" using of_nat_less_iff [of m "2 ^ 64 * 2 ^ t", where 'a = rat] by simp
  then have x: "of_nat m / 2 ^ t < (2 :: rat) ^ 64" by (simp add: field_simps)
  then show "of_nat m / 2 ^ t \<le> dbl_of_u64 (- 1)" by simp
  have fl: "floor (of_nat m / (2 :: rat) ^ t) = int (m div 2 ^ t)"
    using floor_divide_of_nat_eq [of m "2 ^ t", where 'a = rat] by simp
  have "(- 1 :: rat) < of_nat m / 2 ^ t" by (rule less_le_trans [of _ 0]) auto
  then show "dbl_to_u64 (of_nat m / 2 ^ t) = Some (of_nat (m div 2 ^ t))" using x by (simp add: dbl_to_u64_def fl)
  have "m div 2 ^ t < 2 ^ 64" using v b(3) by linarith
  then show "two_digits (of_nat (m div 2 ^ t)) = of_nat (d * 10 ^ k)"
    using two_digits_of_nat trim_digits_eq [OF v assms(2,3), of 1] by simp
qed

declare reduce.simps(2) [simp del]

lemma mapper_loop_limits:
  assumes "limits_are ds (reduce (Suc t) (fl_nat (3 * m)))" and "length ds < n" and "0 < m"
  shows "mapper_loop n (of_nat m / 2 ^ t) vals idx =
    Some (vals @ limit_values ds, assign_from (length vals) (limit_values ds) idx)"
  using assms
proof (induction ds arbitrary: m t n vals idx)
  case Nil
  obtain m' t' where r: "reduce (Suc t) (fl_nat (3 * m)) = (m', t')" by fastforce
  have x: "fl (3 / 2 * (of_nat m / 2 ^ t)) = of_nat m' / 2 ^ t'" using next_value [OF Nil(3) r] .
  have "(2 :: rat) ^ 64 * 2 ^ t' < of_nat m'" using Nil(1) r of_nat_less_iff [of "2 ^ 64 * 2 ^ t'" m', where 'a = rat] by simp
  then have "\<not> of_nat m' / 2 ^ t' \<le> (2 :: rat) ^ 64" by (simp add: field_simps)
  then show ?case using Nil(2) x by (cases n) (simp_all add: limit_values_def)
next
  case (Cons e ds)
  obtain d k where e: "e = (d, k)" by fastforce
  obtain m' t' where r: "reduce (Suc t) (fl_nat (3 * m)) = (m', t')" by fastforce
  obtain n' where n: "n = Suc n'" using Cons(3) by (cases n) auto
  have x: "fl (3 / 2 * (of_nat m / 2 ^ t)) = of_nat m' / 2 ^ t'" using next_value [OF Cons(4) r] .
  have m': "0 < m'" using next_pos [OF Cons(4) r] .
  have c: "in_bucket d (10 ^ k) m' (2 ^ t')" "d < 110" "k = 0 \<or> 10 < d"
    and l: "limits_are ds (reduce (Suc t') (fl_nat (3 * m')))" using Cons(2) by (simp_all add: r e)
  have g: "of_nat m' / 2 ^ t' \<le> dbl_of_u64 (- 1)" "dbl_to_u64 (of_nat m' / 2 ^ t') = Some (of_nat (m' div 2 ^ t'))"
    "two_digits (of_nat (m' div 2 ^ t')) = of_nat (d * 10 ^ k)" using in_bucket [OF c] by auto
  show ?case unfolding n mapper_loop.simps x Let_def if_P [OF g(1)] g(2,3) option.case
    using Cons(1) [OF l, of n'] Cons(3) n m' by (simp add: limit_values_def e del: of_nat_mult)
qed

lemma reduce_Suc_numeral:
  "reduce (Suc t) (numeral (num.Bit0 k)) = reduce t (numeral k)"
  "reduce (Suc t) (numeral (num.Bit1 k)) = (numeral (num.Bit1 k), Suc t)"
  by (simp_all add: reduce.simps(2))

lemma reduce_numeral:
  "reduce (numeral t) (numeral (num.Bit0 k)) = reduce (pred_numeral t) (numeral k)"
  "reduce (numeral t) (numeral (num.Bit1 k)) = (numeral (num.Bit1 k), numeral t)"
  "reduce (Suc 0) (numeral (num.Bit0 k)) = (numeral k, 0)"
  "reduce (Suc 0) (numeral (num.Bit1 k)) = (numeral (num.Bit1 k), Suc 0)"
  by (simp_all add: numeral_eq_Suc [of t] reduce_Suc_numeral)

text \<open>The limits the constructor appends to 1 and 2, as two or three digits and a power of ten.\<close>

definition bucket_limits :: "(nat \<times> nat) list" where
  "bucket_limits =
    [(3, 0), (4, 0), (6, 0), (10, 0), (15, 0), (22, 0), (34, 0), (51, 0), (76, 0), (11, 1), (17, 1), (25, 1), (38, 1),
     (58, 1), (87, 1), (13, 2), (19, 2), (29, 2), (44, 2), (66, 2), (99, 2), (14, 3), (22, 3), (33, 3), (50, 3), (75, 3),
     (11, 4), (17, 4), (25, 4), (38, 4), (57, 4), (86, 4), (12, 5), (19, 5), (29, 5), (43, 5), (65, 5), (98, 5), (14, 6),
     (22, 6), (33, 6), (49, 6), (74, 6), (11, 7), (16, 7), (25, 7), (37, 7), (56, 7), (85, 7), (12, 8), (19, 8), (28, 8),
     (43, 8), (64, 8), (96, 8), (14, 9), (21, 9), (32, 9), (49, 9), (73, 9), (11, 10), (16, 10), (24, 10), (37, 10),
     (55, 10), (83, 10), (12, 11), (18, 11), (28, 11), (42, 11), (63, 11), (95, 11), (14, 12), (21, 12), (32, 12), (48, 12),
     (72, 12), (108, 12), (16, 13), (24, 13), (36, 13), (55, 13), (82, 13), (12, 14), (18, 14), (27, 14), (41, 14), (62, 14),
     (94, 14), (14, 15), (21, 15), (31, 15), (47, 15), (71, 15), (107, 15), (16, 16), (24, 16), (36, 16), (54, 16), (81, 16),
     (12, 17), (18, 17), (27, 17), (41, 17), (61, 17), (92, 17), (13, 18)]"

lemma limits_eval: "limits_are bucket_limits (3, 0)"
  by (simp add: bucket_limits_def in_bucket_def fl_nat_eq round_off_simps bit_len_numeral reduce_numeral numeral_2_eq_2 [symmetric])

definition bucket_values :: "u64 list" where
  "bucket_values = [1, 2] @ limit_values bucket_limits"

lemma length_bucket_limits: "length bucket_limits = 107"
  by (simp add: bucket_limits_def)

lemma length_bucket_values [simp]: "length bucket_values = 109"
  by (simp add: bucket_values_def limit_values_def length_bucket_limits)

definition limit_nats :: "nat list" where
  "limit_nats = 1 # 2 # map (\<lambda>(d, k). d * 10 ^ k) bucket_limits"

lemma bucket_values_nats: "bucket_values = map of_nat limit_nats"
  by (simp add: bucket_values_def limit_nats_def limit_values_def split_beta comp_def)

lemma limit_nats_increasing: "successively (<) limit_nats"
  by (simp add: limit_nats_def bucket_limits_def)

lemma limit_nats_last: "last limit_nats = 13000000000000000000"
  by (simp add: limit_nats_def bucket_limits_def)

lemma limit_nats_sorted: "sorted_wrt (<) limit_nats"
  using limit_nats_increasing by (subst (asm) successively_iff_sorted_wrt_strong) auto

lemma limit_nats_bound: "n \<in> set limit_nats \<Longrightarrow> n \<le> 13000000000000000000"
proof -
  assume n: "n \<in> set limit_nats"
  then obtain i where i: "i < length limit_nats" "n = limit_nats ! i" by (auto simp: in_set_conv_nth)
  have ne: "limit_nats \<noteq> []" by (simp add: limit_nats_def)
  have "sorted limit_nats" using limit_nats_sorted by (simp add: strict_sorted_iff)
  then have "limit_nats ! i \<le> last limit_nats" using i unfolding last_conv_nth [OF ne] by (intro sorted_nth_mono) auto
  then show ?thesis using i limit_nats_last by simp
qed

lemma bucket_values_sorted: "sorted_wrt (<) bucket_values"
  unfolding bucket_values_nats sorted_wrt_map
  by (rule sorted_wrt_mono_rel [OF _ limit_nats_sorted])
    (use limit_nats_bound in \<open>force simp: word_less_nat_alt unat_of_nat_u64\<close>)

lemma hd_bucket_values [simp]: "hd bucket_values = 1"
  by (simp add: bucket_values_def)

lemma last_bucket_values [simp]: "last bucket_values = 13000000000000000000"
  by (simp add: bucket_values_def limit_values_def bucket_limits_def)

lemma HistogramBucketMapper_spec:
  assumes "107 < n"
  shows "HistogramBucketMapper n = Some \<lparr>bucketValues = bucket_values, maxBucketValue = 13000000000000000000,
    minBucketValue = 1, valueIndexMap = index_of bucket_values\<rparr>"
proof -
  have "reduce (Suc 0) (fl_nat (3 * 2)) = (3, 0)"
    by (simp add: fl_nat_eq bit_len_numeral round_off_simps reduce_numeral)
  then have "limits_are bucket_limits (reduce (Suc 0) (fl_nat (3 * 2)))" using limits_eval by simp
  moreover have i: "[(1, 0), (2, 1)] = index_of [1, 2]" by (simp add: index_of_def upt_rec)
  ultimately show ?thesis
    using mapper_loop_limits [of bucket_limits 0 2 n "[1, 2]" "index_of [1, 2]"] assms length_bucket_limits
      assign_from_sorted [of "[1, 2]" "limit_values bucket_limits"] bucket_values_sorted
    unfolding HistogramBucketMapper_def dbl_of_2 i bucket_values_def [symmetric] by (simp add: bucket_values_def [symmetric])
qed

lemma bucketMapper_eq:
  "bucketMapper = \<lparr>bucketValues = bucket_values, maxBucketValue = 13000000000000000000,
     minBucketValue = 1, valueIndexMap = index_of bucket_values\<rparr>"
  by (simp add: bucketMapper_def HistogramBucketMapper_spec)

subsection \<open>The index of a value\<close>

lemma find_index_of:
  assumes "sorted_wrt (<) vals" and "i < length vals" and "value \<le> vals ! i" and "\<forall>j<i. vals ! j < value"
  shows "find (\<lambda>(k, _). value \<le> k) (index_of vals) = Some (vals ! i, of_nat i)"
  using assms unfolding find_Some_iff index_of_def by (intro exI [of _ i]) (auto simp: not_le)

text \<open>\<open>bucket_of v i\<close>: bucket \<open>i\<close> is the first whose limit is not below \<open>v\<close>, or the last one.\<close>

definition bucket_of :: "u64 \<Rightarrow> nat \<Rightarrow> bool" where
  "bucket_of v i \<longleftrightarrow> i < 109 \<and> (v \<le> bucket_values ! i \<or> i = 108) \<and> (\<forall>j<i. bucket_values ! j < v)"

lemma last_value: "bucket_values ! 108 = 13000000000000000000"
  using last_bucket_values last_conv_nth [of bucket_values] length_bucket_values by fastforce

lemma first_value: "bucket_values ! 0 = 1"
  by (simp add: bucket_values_def)

lemma IndexForValue_spec: "bucket_of v (IndexForValue bucketMapper v)"
proof -
  have less: "bucket_values ! i < bucket_values ! j" if "i < j" "j < 109" for i j
    using sorted_wrt_nth_less [OF bucket_values_sorted that(1)] that by simp
  consider "13000000000000000000 \<le> v" | "v < 1" | "1 \<le> v" "v < 13000000000000000000" using not_le by blast
  then show ?thesis
  proof cases
    case 1
    then have "bucket_values ! j < v" if "j < 108" for j using less [OF that] last_value by simp
    then show ?thesis using 1 by (simp add: bucket_of_def IndexForValue_def bucketMapper_eq)
  next
    case 2
    then show ?thesis using first_value by (simp add: bucket_of_def IndexForValue_def bucketMapper_eq)
  next
    case 3
    define i where i: "i = (LEAST j. v \<le> bucket_values ! j)"
    have le: "v \<le> bucket_values ! 108" using 3 last_value by simp
    have p: "v \<le> bucket_values ! i" "i \<le> 108" unfolding i by (rule LeastI, fact le) (rule Least_le, fact le)
    have q: "\<forall>j<i. bucket_values ! j < v"
      using not_less_Least [of _ "\<lambda>j. v \<le> bucket_values ! j"] unfolding i [symmetric] not_le by blast
    have "find (\<lambda>(k, _). v \<le> k) (index_of bucket_values) = Some (bucket_values ! i, of_nat i)"
      by (rule find_index_of [OF bucket_values_sorted _ p(1) q]) (use p in simp)
    then have "IndexForValue bucketMapper v = i"
      using not_le [THEN iffD2, OF 3(2)] 3(1) p by (simp add: IndexForValue_def bucketMapper_eq unat_of_nat_u64)
    then show ?thesis using p q by (simp add: bucket_of_def)
  qed
qed

lemma bucket_of_unique: "bucket_of v i \<Longrightarrow> bucket_of v j \<Longrightarrow> i = j"
proof -
  have "bucket_of v i \<Longrightarrow> bucket_of v j \<Longrightarrow> \<not> i < j" for i j by (auto simp: bucket_of_def not_less [symmetric])
  then show "bucket_of v i \<Longrightarrow> bucket_of v j \<Longrightarrow> i = j" by (meson nat_neq_iff)
qed

end
