(* ===== verification/Histogram_Facts.thy ===== *)
theory Histogram_Facts
  imports Histogram
begin

text \<open>
  What a histogram holds after any sequence of additions, that merging is adding both sequences, and where a percentile can lie.
\<close>

text \<open>The histogram of a list of values: its reference definition.\<close>

definition hist_of :: "u64 list \<Rightarrow> histogram_stat" where
  "hist_of vs = \<lparr>hs_min = foldr min vs 13000000000000000000, hs_max = foldr max vs 0, hs_num = of_nat (length vs),
     hs_sum = sum_list vs, hs_sum_squares = sum_list (map (\<lambda>v. v * v) vs),
     hs_buckets = map (\<lambda>i. of_nat (length (filter (\<lambda>v. IndexForValue bucketMapper v = i) vs))) [0..<109],
     hs_num_buckets = 109\<rparr>"

lemma HistogramStat_spec: "HistogramStat = Some (hist_of [])"
  by (simp add: HistogramStat_def hist_of_def hs_Clear_def BucketCount_def bucketMapper_eq map_replicate_const)

lemma Clear_spec: "hs_Clear (hist_of vs) = hist_of []"
  by (simp add: hist_of_def hs_Clear_def bucketMapper_eq map_replicate_const)

lemma index_bound: "IndexForValue bucketMapper v < 109"
  using IndexForValue_spec [of v] by (simp add: bucket_of_def)

lemma foldr_min_le: "foldr min vs (a :: u64) \<le> a" and foldr_min_in: "v \<in> set vs \<Longrightarrow> foldr min vs (a :: u64) \<le> v"
  by (induction vs) (auto simp: min_le_iff_disj)

lemma foldr_max_in: "v \<in> set vs \<Longrightarrow> v \<le> foldr max vs (a :: u64)"
  by (induction vs) (auto simp: le_max_iff_disj)

lemma fold_min_commute: "foldr min (vs @ ws) (a :: u64) = min (foldr min vs a) (foldr min ws a)"
  using foldr_min_le [of ws a] by (induction vs) (simp_all add: min.assoc min.absorb2)

lemma fold_max_commute: "foldr max (vs @ ws) (0 :: u64) = max (foldr max vs 0) (foldr max ws 0)"
  by (induction vs) (auto simp: max.assoc)

lemma hist_of_append: "hs_Merge (hist_of ws) (hist_of vs) = hist_of (vs @ ws)"
  unfolding hs_Merge_def hist_of_def fold_min_commute fold_max_commute
  by (auto simp: min_def max_def not_less intro!: nth_equalityI)

lemma hs_Add_spec: "hs_Add v (hist_of vs) = Some (hist_of (vs @ [v]))"
proof -
  let ?i = "IndexForValue bucketMapper v"
  have "hs_Add v (hist_of vs) = Some (hs_Merge (hist_of [v]) (hist_of vs))"
    using index_bound [of v] foldr_min_le [of vs 13000000000000000000]
    unfolding hs_Add_def hs_Merge_def Let_def
    by (auto simp: hist_of_def nth_list_update not_less min_def intro!: nth_equalityI)
  then show ?thesis by (simp add: hist_of_append)
qed

fun hs_AddAll :: "u64 list \<Rightarrow> histogram_stat \<Rightarrow> histogram_stat option" where
  "hs_AddAll [] h = Some h"
| "hs_AddAll (v # vs) h = Option.bind (hs_Add v h) (hs_AddAll vs)"

lemma hs_AddAll_spec: "hs_AddAll vs (hist_of ws) = Some (hist_of (ws @ vs))"
  by (induction vs arbitrary: ws) (simp_all add: hs_Add_spec)

lemma Merge_all: "fold hs_Merge (map hist_of vss) (hist_of ws) = hist_of (ws @ concat vss)"
  by (induction vss arbitrary: ws) (simp_all add: hist_of_append)

subsection \<open>Percentiles\<close>

definition pct_within :: "histogram_stat \<Rightarrow> dbl \<Rightarrow> bool" where
  "pct_within h r \<longleftrightarrow> dbl_of_u64 (hs_min h) \<le> r \<and> r \<le> dbl_of_u64 (hs_max h)"

lemma pct_point_within: "hs_min h \<le> hs_max h \<Longrightarrow> pct_within h (pct_point th c b l r h)"
  using dbl_of_u64_mono [of "hs_min h" "hs_max h"] by (auto simp: pct_within_def pct_point_def Let_def)

lemma BucketLimit_defined: "b < 109 \<Longrightarrow> \<exists>l. BucketLimit bucketMapper b = Some l"
  by (simp add: BucketLimit_def BucketCount_def bucketMapper_eq)

lemma pct_loop_within:
  "hs_min h \<le> hs_max h \<Longrightarrow> b + length vs \<le> 109 \<Longrightarrow> \<exists>r. pct_loop vs b c th h = Some r \<and> pct_within h r"
proof (induction vs arbitrary: b c)
  case Nil
  then show ?case using dbl_of_u64_mono by (simp add: pct_within_def)
next
  case (Cons v vs)
  obtain l where "BucketLimit bucketMapper b = Some l" using BucketLimit_defined Cons(3) by fastforce
  moreover obtain k where "(if b = 0 then Some 0 else BucketLimit bucketMapper (b - 1)) = Some k"
    using BucketLimit_defined [of "b - 1"] Cons(3) by fastforce
  moreover note pct_point_within [OF Cons(2)] Cons(1) [OF Cons(2), of "Suc b"] Cons(3)
  ultimately show ?case by (simp add: Let_def)
qed

lemma hist_of_min_le_max: "vs \<noteq> [] \<Longrightarrow> hs_min (hist_of vs) \<le> hs_max (hist_of vs)"
  using foldr_min_in [of "hd vs" vs 13000000000000000000] foldr_max_in [of "hd vs" vs 0] by (simp add: hist_of_def)

lemma Percentile_within: "vs \<noteq> [] \<Longrightarrow> \<exists>r. hs_Percentile p (hist_of vs) = Some r \<and> pct_within (hist_of vs) r"
  unfolding hs_Percentile_def by (rule pct_loop_within [OF hist_of_min_le_max]) (simp_all add: hist_of_def)

end
