(* ===== verification/Statistics.thy ===== *)
theory Statistics
  imports Histogram_Facts
begin

text \<open>
  The tickers and histograms of \<^verbatim>\<open>monitoring/statistics.cc\<close>, kept per core (\<^verbatim>\<open>util/core_local.h\<close>) and summed up when they are read. A
  statistics object may forward its updates to another. An operation that runs on \<open>the current core\<close> takes, for each object of the
  chain, what \<^verbatim>\<open>PhysicalCoreID\<close> returns and the number the random generator would give. \<^const>\<open>None\<close> is a failed assertion.
\<close>

unbundle bit_operations_syntax

text \<open>The enumerations of \<^verbatim>\<open>include/zlog/statistics.h\<close> and \<^verbatim>\<open>monitoring/statistics.h\<close>.\<close>

definition CACHE_REQS :: u32 where "CACHE_REQS = 0"

definition CACHE_MISSES :: u32 where "CACHE_MISSES = 1"

definition TICKER_ENUM_MAX :: u32 where "TICKER_ENUM_MAX = 2"

definition INTERNAL_TICKER_ENUM_MAX :: u32 where "INTERNAL_TICKER_ENUM_MAX = TICKER_ENUM_MAX + 1"

definition HISTOGRAM_ENUM_MAX :: u32 where "HISTOGRAM_ENUM_MAX = 0"

definition INTERNAL_HISTOGRAM_ENUM_MAX :: u32 where "INTERNAL_HISTOGRAM_ENUM_MAX = HISTOGRAM_ENUM_MAX + 1"

lemmas stat_enums = CACHE_REQS_def CACHE_MISSES_def TICKER_ENUM_MAX_def INTERNAL_TICKER_ENUM_MAX_def HISTOGRAM_ENUM_MAX_def
  INTERNAL_HISTOGRAM_ENUM_MAX_def

subsection \<open>Arrays with an element per core\<close>

text \<open>The shift of the array: a power of two not below the number of processors, and at least eight.\<close>

function (sequential) size_shift_from :: "int \<Rightarrow> nat \<Rightarrow> nat" where
  "size_shift_from num_cpus shift = (if 2 ^ shift < num_cpus then size_shift_from num_cpus (Suc shift) else shift)"
  by pat_completeness auto
termination by (relation "measure (\<lambda>(n, s). nat (n - 2 ^ s))") auto

declare size_shift_from.simps [simp del]

definition core_array_size :: "int \<Rightarrow> nat" where
  "core_array_size num_cpus = 2 ^ size_shift_from num_cpus 3"

definition core_index :: "nat \<Rightarrow> int \<times> nat \<Rightarrow> nat" where
  "core_index n cpu =
     (case cpu of (cpuid, rnd) \<Rightarrow> if cpuid < 0 then rnd mod n else nat (cpuid AND (int n - 1)))"

subsection \<open>Statistics objects\<close>

record statistics_data =
  sd_tickers :: "u64 list"
  sd_histograms :: "histogram_stat list"

datatype statistics = StatisticsImpl "statistics option" bool "statistics_data list"

definition statistics_data_new :: "statistics_data option" where
  "statistics_data_new = map_option (\<lambda>h. \<lparr>sd_tickers = replicate (unat INTERNAL_TICKER_ENUM_MAX) 0,
     sd_histograms = replicate (unat INTERNAL_HISTOGRAM_ENUM_MAX) h\<rparr>) HistogramStat"

definition statistics_new :: "int \<Rightarrow> statistics option \<Rightarrow> bool \<Rightarrow> statistics option" where
  "statistics_new num_cpus stats enable_internal_stats =
     map_option (\<lambda>d. StatisticsImpl stats enable_internal_stats (replicate (core_array_size num_cpus) d)) statistics_data_new"

definition CreateCacheStatistics :: "int \<Rightarrow> statistics option" where
  "CreateCacheStatistics num_cpus = statistics_new num_cpus None False"

definition ticker_ok :: "bool \<Rightarrow> u32 \<Rightarrow> bool" where
  "ticker_ok internal t \<longleftrightarrow> (if internal then t < INTERNAL_TICKER_ENUM_MAX else t < TICKER_ENUM_MAX)"

definition histogram_ok :: "bool \<Rightarrow> u32 \<Rightarrow> bool" where
  "histogram_ok internal t \<longleftrightarrow> (if internal then t < INTERNAL_HISTOGRAM_ENUM_MAX else t < HISTOGRAM_ENUM_MAX)"

definition set_ticker :: "u32 \<Rightarrow> u64 \<Rightarrow> statistics_data \<Rightarrow> statistics_data" where
  "set_ticker t v d = d\<lparr>sd_tickers := (sd_tickers d)[unat t := v]\<rparr>"

definition tickers_sum :: "u32 \<Rightarrow> statistics_data list \<Rightarrow> u64" where
  "tickers_sum t cores = fold (\<lambda>d res. res + sd_tickers d ! unat t) cores 0"

fun getTickerCount :: "u32 \<Rightarrow> statistics \<Rightarrow> u64 option" where
  "getTickerCount t (StatisticsImpl stats internal cores) =
     (if ticker_ok internal t then Some (tickers_sum t cores) else None)"

fun getHistogramImplLocked :: "u32 \<Rightarrow> statistics \<Rightarrow> histogram_stat option" where
  "getHistogramImplLocked t (StatisticsImpl stats internal cores) =
     (if histogram_ok internal t
      then map_option (fold (\<lambda>d. hs_Merge (sd_histograms d ! unat t)) cores) HistogramStat else None)"

definition histogramData :: "u32 \<Rightarrow> statistics \<Rightarrow> histogram_data option" where
  "histogramData t s = map_option hs_Data (getHistogramImplLocked t s)"

definition setTickerCountLocked :: "bool \<Rightarrow> u32 \<Rightarrow> u64 \<Rightarrow> statistics_data list \<Rightarrow> statistics_data list option" where
  "setTickerCountLocked internal t count cores =
     (if ticker_ok internal t
      then Some (map (\<lambda>(i, d). if i = 0 then set_ticker t count d else set_ticker t 0 d) (enumerate 0 cores))
      else None)"

text \<open>An update of this object, followed by the same update of the object it forwards to, if there is one.\<close>

definition forward :: "bool \<Rightarrow> bool \<Rightarrow> statistics_data list option \<Rightarrow> statistics option \<Rightarrow> statistics option option \<Rightarrow> statistics option" where
  "forward public internal cores stats stats' =
     (case cores of
        None \<Rightarrow> None
      | Some cs \<Rightarrow>
          if public then (case stats' of None \<Rightarrow> None | Some s \<Rightarrow> Some (StatisticsImpl s internal cs))
          else Some (StatisticsImpl stats internal cs))"

fun setTickerCount :: "u32 \<Rightarrow> u64 \<Rightarrow> statistics \<Rightarrow> statistics option" where
  "setTickerCount t count (StatisticsImpl stats internal cores) =
     forward (t < TICKER_ENUM_MAX) internal (setTickerCountLocked internal t count cores) stats
       (case stats of None \<Rightarrow> Some None | Some s \<Rightarrow> map_option Some (setTickerCount t count s))"

fun getAndResetTickerCount :: "u32 \<Rightarrow> statistics \<Rightarrow> (u64 \<times> statistics) option" where
  "getAndResetTickerCount t (StatisticsImpl stats internal cores) =
     (if ticker_ok internal t then
        map_option (Pair (tickers_sum t cores))
          (forward (t < TICKER_ENUM_MAX) internal (Some (map (set_ticker t 0) cores)) stats
             (case stats of None \<Rightarrow> Some None | Some s \<Rightarrow> map_option Some (setTickerCount t 0 s)))
      else None)"

definition add_ticker :: "u32 \<Rightarrow> u64 \<Rightarrow> statistics_data \<Rightarrow> statistics_data" where
  "add_ticker t count d = set_ticker t (sd_tickers d ! unat t + count) d"

fun recordTick :: "(nat \<Rightarrow> int \<times> nat) \<Rightarrow> u32 \<Rightarrow> u64 \<Rightarrow> statistics \<Rightarrow> statistics option" where
  "recordTick cpu t count (StatisticsImpl stats internal cores) =
     (let i = core_index (length cores) (cpu 0)
      in forward (t < TICKER_ENUM_MAX) internal
           (if ticker_ok internal t then Some (cores[i := add_ticker t count (cores ! i)]) else None) stats
           (case stats of None \<Rightarrow> Some None | Some s \<Rightarrow> map_option Some (recordTick (\<lambda>n. cpu (Suc n)) t count s)))"

definition add_histogram :: "u32 \<Rightarrow> u64 \<Rightarrow> statistics_data \<Rightarrow> statistics_data option" where
  "add_histogram t value d =
     map_option (\<lambda>h. d\<lparr>sd_histograms := (sd_histograms d)[unat t := h]\<rparr>) (hs_Add value (sd_histograms d ! unat t))"

fun measureTime :: "(nat \<Rightarrow> int \<times> nat) \<Rightarrow> u32 \<Rightarrow> u64 \<Rightarrow> statistics \<Rightarrow> statistics option" where
  "measureTime cpu t value (StatisticsImpl stats internal cores) =
     (let i = core_index (length cores) (cpu 0)
      in forward (t < HISTOGRAM_ENUM_MAX) internal
           (if histogram_ok internal t then map_option (\<lambda>d. cores[i := d]) (add_histogram t value (cores ! i)) else None) stats
           (case stats of None \<Rightarrow> Some None | Some s \<Rightarrow> map_option Some (measureTime (\<lambda>n. cpu (Suc n)) t value s)))"

text \<open>The loops of \<^verbatim>\<open>Reset\<close> over the public tickers and histograms.\<close>

fun reset_tickers :: "bool \<Rightarrow> u32 list \<Rightarrow> statistics_data list \<Rightarrow> statistics_data list option" where
  "reset_tickers internal [] cores = Some cores"
| "reset_tickers internal (i # is) cores =
     (case setTickerCountLocked internal i 0 cores of None \<Rightarrow> None | Some cs \<Rightarrow> reset_tickers internal is cs)"

definition clear_histogram :: "u32 \<Rightarrow> statistics_data \<Rightarrow> statistics_data" where
  "clear_histogram t d = d\<lparr>sd_histograms := (sd_histograms d)[unat t := hs_Clear (sd_histograms d ! unat t)]\<rparr>"

fun stats_Reset :: "statistics \<Rightarrow> (bool \<times> statistics) option" where
  "stats_Reset (StatisticsImpl stats internal cores) =
     (case reset_tickers internal (map of_nat [0..<unat TICKER_ENUM_MAX]) cores of
        None \<Rightarrow> None
      | Some cs \<Rightarrow>
          Some (True, StatisticsImpl stats internal
                        (fold (\<lambda>i. map (clear_histogram (of_nat i))) [0..<unat HISTOGRAM_ENUM_MAX] cs)))"

fun HistEnabledForType :: "u32 \<Rightarrow> statistics \<Rightarrow> bool" where
  "HistEnabledForType t (StatisticsImpl stats internal cores) = (if \<not> internal then t < HISTOGRAM_ENUM_MAX else True)"

text \<open>The helpers with a pointer that may be null.\<close>

definition MeasureTime where
  "MeasureTime cpu s t value = (case s of None \<Rightarrow> Some None | Some st \<Rightarrow> map_option Some (measureTime cpu t value st))"

definition RecordTick where
  "RecordTick cpu s t count = (case s of None \<Rightarrow> Some None | Some st \<Rightarrow> map_option Some (recordTick cpu t count st))"

definition SetTickerCount where
  "SetTickerCount s t count = (case s of None \<Rightarrow> Some None | Some st \<Rightarrow> map_option Some (setTickerCount t count st))"

end
