(* ===== verification/Statistics_Facts.thy ===== *)
theory Statistics_Facts
  imports Statistics "HOL-Library.Multiset"
begin

text \<open>
  The refinement of statistics objects to counters and a list of measured values, whatever core each update runs on.
\<close>

subsection \<open>The order of values does not matter\<close>

lemma foldr_min_Min: "foldr min vs (a :: u64) = Min (insert a (set vs))"
  by (induction vs) (auto simp: insert_commute)

lemma foldr_max_Max: "foldr max vs (a :: u64) = Max (insert a (set vs))"
  by (induction vs) (auto simp: insert_commute)

lemma hist_of_mset:
  assumes "mset vs = mset ws" shows "hist_of vs = hist_of ws"
proof -
  have "sum_list (map f vs) = sum_list (map f ws)" for f :: "u64 \<Rightarrow> u64"
    using assms by (metis mset_map sum_mset_sum_list)
  from this [of "\<lambda>v. v"] this [of "\<lambda>v. v * v"]
  have s: "sum_list vs = sum_list ws" "sum_list (map (\<lambda>v. v * v) vs) = sum_list (map (\<lambda>v. v * v) ws)" by simp_all
  have f: "length (filter P vs) = length (filter P ws)" for P
    using assms by (metis mset_filter size_mset)
  show ?thesis using s f mset_eq_length [OF assms] mset_eq_setD [OF assms]
    by (simp add: hist_of_def foldr_min_Min foldr_max_Max)
qed

subsection \<open>The current core\<close>

lemma core_index_less: "length cores = 2 ^ k \<Longrightarrow> core_index (length cores) cpu < length cores"
proof -
  assume l: "length cores = 2 ^ k"
  have "nat (a AND (int (2 ^ k) - 1)) < 2 ^ k" for a
    using take_bit_int_less_exp [of k a] by (simp add: take_bit_eq_mask mask_eq_exp_minus_1 nat_less_iff)
  then show ?thesis by (simp add: core_index_def l split: prod.split)
qed

lemma core_array_size: "\<exists>k. core_array_size num_cpus = 2 ^ k" and "8 \<le> core_array_size num_cpus"
    and "num_cpus \<le> int (core_array_size num_cpus)"
proof -
  have s: "3 \<le> s \<Longrightarrow> 3 \<le> size_shift_from n s \<and> n \<le> 2 ^ size_shift_from n s" for n s
    by (induction n s rule: size_shift_from.induct) (subst (1 2) size_shift_from.simps, auto)
  have "(2 :: nat) ^ 3 \<le> 2 ^ size_shift_from num_cpus 3" using s by (intro power_increasing) auto
  then show "8 \<le> core_array_size num_cpus" by (simp add: core_array_size_def)
  show "num_cpus \<le> int (core_array_size num_cpus)" using s [of 3 num_cpus] by (simp add: core_array_size_def)
qed (auto simp: core_array_size_def)

subsection \<open>One object\<close>

definition wf_data :: "statistics_data \<Rightarrow> bool" where
  "wf_data d \<longleftrightarrow> length (sd_tickers d) = 3 \<and> (\<exists>vs. sd_histograms d = [hist_of vs])"

definition wf_cores :: "statistics_data list \<Rightarrow> bool" where
  "wf_cores cores \<longleftrightarrow> (\<exists>k. length cores = 2 ^ k) \<and> (\<forall>d\<in>set cores. wf_data d)"

definition ticker_sums :: "statistics_data list \<Rightarrow> u32 \<Rightarrow> u64" where
  "ticker_sums cores t = (if t < INTERNAL_TICKER_ENUM_MAX then sum_list (map (\<lambda>d. sd_tickers d ! unat t) cores) else 0)"

lemma tickers_sum_eq: "t < INTERNAL_TICKER_ENUM_MAX \<Longrightarrow> tickers_sum t cores = ticker_sums cores t"
proof -
  have "fold (\<lambda>d res. res + sd_tickers d ! unat t) cores a = a + sum_list (map (\<lambda>d. sd_tickers d ! unat t) cores)" for a
    by (induction cores arbitrary: a) (auto simp: add.assoc)
  then show "t < INTERNAL_TICKER_ENUM_MAX \<Longrightarrow> tickers_sum t cores = ticker_sums cores t"
    by (simp add: tickers_sum_def ticker_sums_def)
qed

text \<open>\<open>ticker_update t v cores cores'\<close>: the sum of ticker \<open>t\<close> became \<open>v\<close> and nothing else changed.\<close>

definition ticker_update :: "u32 \<Rightarrow> u64 \<Rightarrow> statistics_data list \<Rightarrow> statistics_data list \<Rightarrow> bool" where
  "ticker_update t v cores cores' \<longleftrightarrow>
     ticker_sums cores' = (ticker_sums cores)(t := v) \<and> wf_cores cores' \<and> map sd_histograms cores' = map sd_histograms cores"

lemma set_ticker_nth:
  "wf_data d \<Longrightarrow> t < INTERNAL_TICKER_ENUM_MAX \<Longrightarrow> sd_tickers (set_ticker t v d) ! unat t' = (if t' = t then v else sd_tickers d ! unat t')"
  by (auto simp: set_ticker_def wf_data_def stat_enums word_less_nat_alt nth_list_update word_unat_eq_iff)

lemma set_ticker_wf [simp]: "wf_data (set_ticker t v d) = wf_data d" "sd_histograms (set_ticker t v d) = sd_histograms d"
  by (auto simp: set_ticker_def wf_data_def)

lemma ticker_ok_internal: "ticker_ok i t \<Longrightarrow> t < INTERNAL_TICKER_ENUM_MAX"
  by (auto simp: ticker_ok_def stat_enums word_less_nat_alt split: if_splits)

lemma sum_zero: "(\<And>x. x \<in> set xs \<Longrightarrow> f x = 0) \<Longrightarrow> sum_list (map f xs) = (0 :: u64)"
  by (induction xs) auto

lemma clear_update: "wf_cores cores \<Longrightarrow> t < INTERNAL_TICKER_ENUM_MAX \<Longrightarrow> ticker_update t 0 cores (map (set_ticker t 0) cores)"
  by (auto simp: ticker_update_def ticker_sums_def wf_cores_def comp_def set_ticker_nth fun_eq_iff
      intro!: sum_zero arg_cong [where f = sum_list])

lemma locked_update:
  assumes "wf_cores cores" and "ticker_ok internal t"
  shows "\<exists>cs. setTickerCountLocked internal t v cores = Some cs \<and> ticker_update t v cores cs"
proof -
  obtain d ds where c: "cores = d # ds" using assms(1) by (cases cores) (auto simp: wf_cores_def)
  note t = ticker_ok_internal [OF assms(2)]
  have e: "map (\<lambda>(i, d). if i = 0 then set_ticker t v d else set_ticker t 0 d) (enumerate 0 cores)
    = set_ticker t v d # map (set_ticker t 0) ds"
    unfolding c by (simp, rule nth_equalityI) (auto simp: nth_enumerate_eq)
  have "ticker_update t v cores (set_ticker t v d # map (set_ticker t 0) ds)"
    using assms(1) t unfolding c
    by (auto simp: ticker_update_def ticker_sums_def wf_cores_def comp_def set_ticker_nth fun_eq_iff
        intro!: sum_zero arg_cong [where f = sum_list])
  then show ?thesis using assms(2) e by (simp add: setTickerCountLocked_def)
qed

lemma sum_list_update1: "i < length xs \<Longrightarrow> sum_list (xs[i := xs ! i + c]) = sum_list xs + (c :: u64)"
  by (induction xs arbitrary: i) (auto simp: nth_Cons' add.assoc add.commute split: nat.splits)

lemma add_update:
  assumes "wf_cores cores" and "i < length cores" and "t < INTERNAL_TICKER_ENUM_MAX"
  shows "ticker_update t (ticker_sums cores t + c) cores (cores[i := add_ticker t c (cores ! i)])"
proof -
  have wf: "wf_data (cores ! i)" using assms by (simp add: wf_cores_def)
  have "map (\<lambda>d. sd_tickers d ! unat t') (cores[i := add_ticker t c (cores ! i)]) =
      (if t' = t then (map (\<lambda>d. sd_tickers d ! unat t) cores)[i := map (\<lambda>d. sd_tickers d ! unat t) cores ! i + c]
       else map (\<lambda>d. sd_tickers d ! unat t') cores)" for t'
    using assms(2) set_ticker_nth [OF wf assms(3)] by (auto simp: map_update add_ticker_def list_update_same_conv)
  then have "ticker_sums (cores[i := add_ticker t c (cores ! i)]) = (ticker_sums cores)(t := ticker_sums cores t + c)"
    using sum_list_update1 [of i "map (\<lambda>d. sd_tickers d ! unat t) cores" c] assms(2,3) by (auto simp: ticker_sums_def fun_eq_iff)
  moreover have "wf_cores (cores[i := add_ticker t c (cores ! i)])"
    using assms(1) wf set_update_subset_insert [of cores i] by (fastforce simp: wf_cores_def add_ticker_def)
  moreover have "map sd_histograms (cores[i := add_ticker t c (cores ! i)]) = map sd_histograms cores"
    using assms(2) by (simp add: map_update add_ticker_def list_update_same_conv)
  ultimately show ?thesis by (simp add: ticker_update_def)
qed

subsection \<open>A chain of objects\<close>

fun wf_stats :: "statistics \<Rightarrow> bool" where
  "wf_stats (StatisticsImpl stats internal cores) \<longleftrightarrow>
     wf_cores cores \<and> (case stats of None \<Rightarrow> True | Some s \<Rightarrow> wf_stats s)"

fun ticker_levels :: "statistics \<Rightarrow> (u32 \<Rightarrow> u64) list" where
  "ticker_levels (StatisticsImpl stats internal cores) =
     ticker_sums cores # (case stats of None \<Rightarrow> [] | Some s \<Rightarrow> ticker_levels s)"

fun top_cores :: "statistics \<Rightarrow> statistics_data list" where
  "top_cores (StatisticsImpl stats internal cores) = cores"

fun top_internal :: "statistics \<Rightarrow> bool" where
  "top_internal (StatisticsImpl stats internal cores) = internal"

text \<open>\<open>level_update t f s s'\<close>: on every object of the chain the sum of ticker \<open>t\<close> went from \<open>n\<close> to \<open>f n\<close>, and nothing else changed.\<close>

definition level_update :: "u32 \<Rightarrow> (u64 \<Rightarrow> u64) \<Rightarrow> statistics \<Rightarrow> statistics \<Rightarrow> bool" where
  "level_update t f s s' \<longleftrightarrow>
     wf_stats s' \<and> ticker_levels s' = map (\<lambda>l. l(t := f (l t))) (ticker_levels s)
     \<and> top_internal s' = top_internal s \<and> map sd_histograms (top_cores s') = map sd_histograms (top_cores s)"

lemma public_ok: "t < TICKER_ENUM_MAX \<Longrightarrow> ticker_ok internal t"
  by (auto simp: ticker_ok_def stat_enums word_less_nat_alt)

lemma forward_update:
  assumes "ticker_update t (f (ticker_sums cores t)) cores cs"
    and "(stats = None \<and> st = Some None) \<or> (\<exists>s s'. stats = Some s \<and> st = Some (Some s') \<and> level_update t f s s')"
  shows "\<exists>s'. forward True internal (Some cs) stats st = Some s' \<and> level_update t f (StatisticsImpl stats internal cores) s'"
  using assms by (auto simp: forward_def level_update_def ticker_update_def)

lemma setTickerCount_levels:
  "wf_stats s \<Longrightarrow> t < TICKER_ENUM_MAX \<Longrightarrow> \<exists>s'. setTickerCount t v s = Some s' \<and> level_update t (\<lambda>_. v) s s'"
proof (induction t v s rule: setTickerCount.induct)
  case (1 t v stats internal cores)
  obtain cs where cs: "setTickerCountLocked internal t v cores = Some cs" "ticker_update t v cores cs"
    using locked_update [of cores internal t v] public_ok [OF 1(3)] 1(2) by auto
  show ?case unfolding setTickerCount.simps cs(1) using 1
    by (simp, intro forward_update) (use cs in \<open>auto split: option.splits\<close>)
qed

lemma recordTick_levels:
  "wf_stats s \<Longrightarrow> t < TICKER_ENUM_MAX \<Longrightarrow> \<exists>s'. recordTick cpu t c s = Some s' \<and> level_update t (\<lambda>n. n + c) s s'"
proof (induction cpu t c s rule: recordTick.induct)
  case (1 cpu t c stats internal cores)
  let ?i = "core_index (length cores) (cpu 0)"
  have wf: "wf_cores cores" using 1(2) by simp
  have "?i < length cores" using wf core_index_less unfolding wf_cores_def by blast
  note u = add_update [OF wf this ticker_ok_internal [OF public_ok [OF 1(3)]], of c]
  show ?case unfolding recordTick.simps Let_def using 1 public_ok [OF 1(3), of internal]
    by (simp, intro forward_update) (use u in \<open>auto split: option.splits\<close>)
qed

lemma getAndReset_levels:
  assumes "wf_stats s" and "t < TICKER_ENUM_MAX"
  shows "\<exists>s'. getAndResetTickerCount t s = Some (hd (ticker_levels s) t, s') \<and> level_update t (\<lambda>_. 0) s s'"
proof -
  obtain stats internal cores where s: "s = StatisticsImpl stats internal cores" by (cases s)
  have wf: "wf_cores cores" using assms(1) s by simp
  note u = clear_update [OF wf ticker_ok_internal [OF public_ok [OF assms(2)]]]
  have "\<exists>s'. forward True internal (Some (map (set_ticker t 0) cores)) stats
      (case stats of None \<Rightarrow> Some None | Some s \<Rightarrow> map_option Some (setTickerCount t 0 s)) = Some s'
      \<and> level_update t (\<lambda>_. 0) (StatisticsImpl stats internal cores) s'"
    using u assms setTickerCount_levels [OF _ assms(2), of _ 0]
    by (intro forward_update) (fastforce simp: s split: option.splits)+
  then show ?thesis using assms(2) public_ok [OF assms(2)] ticker_ok_internal [OF public_ok [OF assms(2)]] by (auto simp: s tickers_sum_eq)
qed

lemma getTickerCount_levels: "t < TICKER_ENUM_MAX \<Longrightarrow> getTickerCount t s = Some (hd (ticker_levels s) t)"
  by (cases s) (simp add: public_ok tickers_sum_eq ticker_ok_internal [OF public_ok])

lemma ticker_0_1: "(0 :: u32) < TICKER_ENUM_MAX" "(1 :: u32) < TICKER_ENUM_MAX"
  by (simp_all add: stat_enums)

lemma Reset_levels:
  assumes "wf_stats s"
  shows "\<exists>s'. stats_Reset s = Some (True, s') \<and> wf_stats s'
    \<and> ticker_levels s' = (hd (ticker_levels s))(CACHE_REQS := 0, CACHE_MISSES := 0) # tl (ticker_levels s)
    \<and> top_internal s' = top_internal s \<and> map sd_histograms (top_cores s') = map sd_histograms (top_cores s)"
proof -
  obtain stats internal cores where s: "s = StatisticsImpl stats internal cores" by (cases s)
  have wf: "wf_cores cores" using assms s by simp
  obtain c1 where c1: "setTickerCountLocked internal 0 0 cores = Some c1" "ticker_update 0 0 cores c1"
    using locked_update [OF wf public_ok [OF ticker_0_1(1)]] by blast
  then have "wf_cores c1" by (simp add: ticker_update_def)
  then obtain c2 where c2: "setTickerCountLocked internal 1 0 c1 = Some c2" "ticker_update 1 0 c1 c2"
    using locked_update [OF _ public_ok [OF ticker_0_1(2)]] by blast
  have "map of_nat [0..<unat TICKER_ENUM_MAX] = [0, 1 :: u32]" by (simp add: stat_enums upt_rec)
  then have "stats_Reset s = Some (True, StatisticsImpl stats internal c2)"
    using c1(1) c2(1) by (simp add: s) (simp add: stat_enums)
  then show ?thesis using c1(2) c2(2) assms by (auto simp: s ticker_update_def CACHE_REQS_def CACHE_MISSES_def)
qed

subsection \<open>Histograms\<close>

text \<open>\<open>measured hs vs\<close>: the histograms \<open>hs\<close>, one per core, together hold the values \<open>vs\<close>.\<close>

definition measured :: "histogram_stat list list \<Rightarrow> u64 list \<Rightarrow> bool" where
  "measured hs vs \<longleftrightarrow> (\<exists>vss. hs = map (\<lambda>ws. [hist_of ws]) vss \<and> mset (concat vss) = mset vs)"

lemma measured_merge:
  assumes "measured (map sd_histograms cores) vs"
  shows "fold (\<lambda>d. hs_Merge (sd_histograms d ! 0)) cores (hist_of []) = hist_of vs"
proof -
  obtain vss where v: "map sd_histograms cores = map (\<lambda>ws. [hist_of ws]) vss" "mset (concat vss) = mset vs"
    using assms by (auto simp: measured_def)
  have "map (\<lambda>h. h ! 0) (map sd_histograms cores) = map hist_of vss" unfolding v(1) by (simp add: comp_def)
  moreover have "fold (\<lambda>d. hs_Merge (sd_histograms d ! 0)) cores = fold hs_Merge (map (\<lambda>h. h ! 0) (map sd_histograms cores))"
    by (simp add: fold_map comp_def)
  ultimately show ?thesis using Merge_all [of vss "[]"] hist_of_mset [OF v(2)] by simp
qed

lemma concat_update: "i < length vss \<Longrightarrow> mset (concat (vss[i := vss ! i @ [v]])) = mset (concat vss @ [v])"
  by (induction vss arbitrary: i) (auto simp: nth_Cons' split: nat.splits)

lemma measured_add:
  assumes "measured hs vs" and "i < length hs"
  shows "\<exists>ws. hs ! i = [hist_of ws] \<and> measured (hs[i := [hist_of (ws @ [v])]]) (vs @ [v])"
proof -
  obtain vss where h: "hs = map (\<lambda>ws. [hist_of ws]) vss" "mset (concat vss) = mset vs"
    using assms(1) by (auto simp: measured_def)
  have "hs[i := [hist_of (vss ! i @ [v])]] = map (\<lambda>ws. [hist_of ws]) (vss[i := vss ! i @ [v]])" by (simp add: h map_update)
  moreover have "mset (concat (vss[i := vss ! i @ [v]])) = mset (vs @ [v])"
    using concat_update [of i vss v] assms(2) h by simp
  ultimately show ?thesis using assms(2) h unfolding measured_def by auto
qed

lemma histogram_0: "histogram_ok True 0" "\<not> (0 :: u32) < HISTOGRAM_ENUM_MAX"
  by (simp_all add: histogram_ok_def stat_enums)

lemma getHistogram_spec:
  "top_internal s \<Longrightarrow> measured (map sd_histograms (top_cores s)) vs \<Longrightarrow> getHistogramImplLocked 0 s = Some (hist_of vs)"
  using measured_merge [of "top_cores s"] by (cases s) (simp add: histogram_0 HistogramStat_spec)

lemma measureTime_spec:
  assumes "wf_stats s" and "top_internal s" and "measured (map sd_histograms (top_cores s)) vs"
  shows "\<exists>s'. measureTime cpu 0 v s = Some s' \<and> wf_stats s' \<and> top_internal s' \<and> ticker_levels s' = ticker_levels s
    \<and> measured (map sd_histograms (top_cores s')) (vs @ [v])"
proof -
  obtain stats cores where s: "s = StatisticsImpl stats True cores" using assms(2) by (cases s) auto
  let ?i = "core_index (length cores) (cpu 0)" and ?d = "cores ! core_index (length cores) (cpu 0)"
  have wf: "wf_cores cores" using assms(1) s by simp
  have i: "?i < length cores" using wf core_index_less unfolding wf_cores_def by blast
  obtain ws where ws: "sd_histograms ?d = [hist_of ws]"
    "measured ((map sd_histograms cores)[?i := [hist_of (ws @ [v])]]) (vs @ [v])"
    using measured_add [OF assms(3), of ?i v] i s by auto
  let ?c = "cores[?i := ?d\<lparr>sd_histograms := [hist_of (ws @ [v])]\<rparr>]"
  have a: "add_histogram 0 v ?d = Some (?d\<lparr>sd_histograms := [hist_of (ws @ [v])]\<rparr>)"
    by (simp add: add_histogram_def ws hs_Add_spec)
  have m: "measureTime cpu 0 v s = Some (StatisticsImpl stats True ?c)"
    by (simp add: s a histogram_0 forward_def Let_def)
  have "wf_data ?d" using wf i by (simp add: wf_cores_def)
  then have "wf_cores ?c" using wf set_update_subset_insert [of cores ?i] by (fastforce simp: wf_cores_def wf_data_def)
  moreover have "ticker_sums ?c = ticker_sums cores"
    using i by (auto simp: ticker_sums_def fun_eq_iff map_update intro!: arg_cong [where f = sum_list] list_update_same_conv [THEN iffD2])
  ultimately show ?thesis using m ws(2) assms by (simp add: s map_update)
qed

subsection \<open>Sequences of operations\<close>

datatype stat_op = OpTick "nat \<Rightarrow> int \<times> nat" u32 u64 | OpSet u32 u64 | OpGet u32 | OpGetReset u32 | OpReset
  | OpMeasure "nat \<Rightarrow> int \<times> nat" u64 | OpHistogram

datatype stat_result = Done | Count u64 | Hist histogram_stat

fun stat_step :: "stat_op \<Rightarrow> statistics \<Rightarrow> (stat_result \<times> statistics) option" where
  "stat_step (OpTick cpu t c) s = map_option (Pair Done) (recordTick cpu t c s)"
| "stat_step (OpSet t c) s = map_option (Pair Done) (setTickerCount t c s)"
| "stat_step (OpGet t) s = map_option (\<lambda>n. (Count n, s)) (getTickerCount t s)"
| "stat_step (OpGetReset t) s = map_option (\<lambda>(n, s'). (Count n, s')) (getAndResetTickerCount t s)"
| "stat_step OpReset s = map_option (\<lambda>(_, s'). (Done, s')) (stats_Reset s)"
| "stat_step (OpMeasure cpu v) s = map_option (Pair Done) (measureTime cpu 0 v s)"
| "stat_step OpHistogram s = map_option (\<lambda>h. (Hist h, s)) (getHistogramImplLocked 0 s)"

text \<open>The specification: a counter per ticker for every object of the chain, and the list of measured values.\<close>

fun stat_spec :: "stat_op \<Rightarrow> (u32 \<Rightarrow> u64) list \<times> u64 list \<Rightarrow> stat_result \<times> (u32 \<Rightarrow> u64) list \<times> u64 list" where
  "stat_spec (OpTick cpu t c) (ls, vs) = (Done, map (\<lambda>l. l(t := l t + c)) ls, vs)"
| "stat_spec (OpSet t c) (ls, vs) = (Done, map (\<lambda>l. l(t := c)) ls, vs)"
| "stat_spec (OpGet t) (ls, vs) = (Count (hd ls t), ls, vs)"
| "stat_spec (OpGetReset t) (ls, vs) = (Count (hd ls t), map (\<lambda>l. l(t := 0)) ls, vs)"
| "stat_spec OpReset (ls, vs) = (Done, (hd ls)(CACHE_REQS := 0, CACHE_MISSES := 0) # tl ls, vs)"
| "stat_spec (OpMeasure cpu v) (ls, vs) = (Done, ls, vs @ [v])"
| "stat_spec OpHistogram (ls, vs) = (Hist (hist_of vs), ls, vs)"

fun op_allowed :: "bool \<Rightarrow> stat_op \<Rightarrow> bool" where
  "op_allowed internal (OpTick cpu t c) \<longleftrightarrow> t < TICKER_ENUM_MAX"
| "op_allowed internal (OpSet t c) \<longleftrightarrow> t < TICKER_ENUM_MAX"
| "op_allowed internal (OpGet t) \<longleftrightarrow> t < TICKER_ENUM_MAX"
| "op_allowed internal (OpGetReset t) \<longleftrightarrow> t < TICKER_ENUM_MAX"
| "op_allowed internal OpReset \<longleftrightarrow> True"
| "op_allowed internal (OpMeasure cpu v) \<longleftrightarrow> internal"
| "op_allowed internal OpHistogram \<longleftrightarrow> internal"

definition stat_rel :: "bool \<Rightarrow> statistics \<Rightarrow> (u32 \<Rightarrow> u64) list \<times> u64 list \<Rightarrow> bool" where
  "stat_rel internal s a \<longleftrightarrow> wf_stats s \<and> top_internal s = internal \<and> ticker_levels s = fst a
     \<and> measured (map sd_histograms (top_cores s)) (snd a)"

lemma step_refines:
  assumes "stat_rel internal s a" and "op_allowed internal op"
  shows "\<exists>s'. stat_step op s = Some (fst (stat_spec op a), s') \<and> stat_rel internal s' (snd (stat_spec op a))"
proof -
  obtain ls vs where a: "a = (ls, vs)" by fastforce
  have r: "wf_stats s" "top_internal s = internal" "ticker_levels s = ls" "measured (map sd_histograms (top_cores s)) vs"
    using assms(1) by (simp_all add: stat_rel_def a)
  show ?thesis
  proof (cases op)
    case (OpTick cpu t c)
    then show ?thesis using recordTick_levels [of s t cpu c] assms(2) r by (auto simp: stat_rel_def a level_update_def)
  next
    case (OpSet t c)
    then show ?thesis using setTickerCount_levels [of s t c] assms(2) r by (auto simp: stat_rel_def a level_update_def)
  next
    case (OpGet t)
    then show ?thesis using getTickerCount_levels [of t s] assms r by (simp add: a)
  next
    case (OpGetReset t)
    then show ?thesis using getAndReset_levels [of s t] assms(2) r by (auto simp: stat_rel_def a level_update_def)
  next
    case OpReset
    then show ?thesis using Reset_levels [of s] assms(2) r by (auto simp: stat_rel_def a)
  next
    case (OpMeasure cpu v)
    then show ?thesis using measureTime_spec [of s vs cpu v] assms(2) r by (auto simp: stat_rel_def a)
  next
    case OpHistogram
    then show ?thesis using getHistogram_spec [of s vs] assms r by (simp add: a)
  qed
qed

fun stat_run :: "stat_op list \<Rightarrow> statistics \<Rightarrow> (stat_result list \<times> statistics) option" where
  "stat_run [] s = Some ([], s)"
| "stat_run (op # ops) s =
     (case stat_step op s of
        None \<Rightarrow> None
      | Some (r, s1) \<Rightarrow> map_option (\<lambda>(rs, s2). (r # rs, s2)) (stat_run ops s1))"

fun spec_results :: "stat_op list \<Rightarrow> (u32 \<Rightarrow> u64) list \<times> u64 list \<Rightarrow> stat_result list" where
  "spec_results [] a = []"
| "spec_results (op # ops) a = fst (stat_spec op a) # spec_results ops (snd (stat_spec op a))"

lemma run_refines:
  "stat_rel internal s a \<Longrightarrow> list_all (op_allowed internal) ops \<Longrightarrow> \<exists>s'. stat_run ops s = Some (spec_results ops a, s')"
proof (induction ops arbitrary: s a)
  case (Cons op ops)
  obtain s1 where "stat_step op s = Some (fst (stat_spec op a), s1)" "stat_rel internal s1 (snd (stat_spec op a))"
    using step_refines [OF Cons(2)] Cons(3) by auto
  then show ?case using Cons(1) [of s1] Cons(3) by fastforce
qed simp

text \<open>A new object starts with all counters at zero, in front of the counters of the object it forwards to.\<close>

fun chain_levels :: "statistics option \<Rightarrow> (u32 \<Rightarrow> u64) list" where
  "chain_levels None = []"
| "chain_levels (Some s) = ticker_levels s"

lemma statistics_new_rel:
  assumes "\<forall>s. stats = Some s \<longrightarrow> wf_stats s"
  shows "\<exists>s. statistics_new num_cpus stats internal = Some s \<and> stat_rel internal s ((\<lambda>_. 0) # chain_levels stats, [])"
proof -
  let ?d = "\<lparr>sd_tickers = replicate 3 0, sd_histograms = [hist_of []]\<rparr> :: statistics_data"
  let ?c = "replicate (core_array_size num_cpus) ?d"
  have n: "statistics_new num_cpus stats internal = Some (StatisticsImpl stats internal ?c)"
    by (simp add: statistics_new_def statistics_data_new_def HistogramStat_spec stat_enums)
  have wf: "wf_cores ?c" using core_array_size(1) [of num_cpus] by (auto simp: wf_cores_def wf_data_def)
  have "measured (map sd_histograms ?c) []"
    unfolding measured_def by (rule exI [of _ "replicate (core_array_size num_cpus) []"]) simp
  moreover have "chain_levels stats = (case stats of None \<Rightarrow> [] | Some s \<Rightarrow> ticker_levels s)" by (cases stats) auto
  moreover have "ticker_sums ?c = (\<lambda>_. 0)"
    by (auto simp: ticker_sums_def stat_enums word_less_nat_alt fun_eq_iff sum_list_replicate)
  ultimately have "stat_rel internal (StatisticsImpl stats internal ?c) ((\<lambda>_. 0) # chain_levels stats, [])"
    using wf assms by (auto simp: stat_rel_def split: option.splits)
  then show ?thesis using n by blast
qed

end
