(* ===== verification/Core_Random.thy ===== *)
theory Core_Random
  imports Prelude
begin

text \<open>
  The generator of \<^verbatim>\<open>util/random.h\<close> that picks a core when the current one is unknown: a linear congruential generator modulo
  \<open>2 ^ 31 - 1\<close> whose reduction is done with a shift and a mask.
\<close>

unbundle bit_operations_syntax

definition good_seed :: "u32 \<Rightarrow> u32" where
  "good_seed s = (if s AND 2147483647 \<noteq> 0 then s AND 2147483647 else 1)"

text \<open>\<^verbatim>\<open>Next\<close>: the new seed, which is also the result.\<close>

definition random_Next :: "u32 \<Rightarrow> u32" where
  "random_Next seed =
     (let product = ucast seed * 16807 :: u64;
          seed' = ucast (drop_bit 31 product + (product AND 2147483647)) :: u32
      in if seed' > 2147483647 then seed' - 2147483647 else seed')"

definition random_Uniform :: "u32 \<Rightarrow> u32 \<Rightarrow> u32 \<times> u32" where
  "random_Uniform n seed = (random_Next seed mod n, random_Next seed)"

definition random_OneIn :: "u32 \<Rightarrow> u32 \<Rightarrow> bool \<times> u32" where
  "random_OneIn n seed = (random_Next seed mod n = 0, random_Next seed)"

definition random_Skewed :: "u32 \<Rightarrow> u32 \<Rightarrow> u32 \<times> u32" where
  "random_Skewed max_log seed =
     (let (bits, seed1) = random_Uniform (max_log + 1) seed in random_Uniform (push_bit (unat bits) 1) seed1)"

lemma reduce_mersenne:
  fixes p :: nat assumes "0 < p mod 2147483647" and "p < 2147483647 * 16807"
  shows "(let s = p div 2147483648 + p mod 2147483648 in if s > 2147483647 then s - 2147483647 else s) = p mod 2147483647"
proof -
  let ?q = "p div 2147483648" and ?r = "p mod 2147483648"
  have "p = ?q * 2147483647 + (?q + ?r)" using div_mult_mod_eq [of p 2147483648] by linarith
  then have m: "p mod 2147483647 = (?q + ?r) mod 2147483647" by (metis mod_mult_self3)
  have b: "?q + ?r < 2 * 2147483647" using assms(2) by linarith
  have ne: "?q + ?r \<noteq> 2147483647" using m assms(1) by auto
  show ?thesis unfolding m Let_def using b ne by (auto simp: mod_if [of "?q + ?r"] not_less)
qed

lemma random_Next_unat:
  assumes "0 < unat seed" and "unat seed < 2147483647"
  shows "unat (random_Next seed) = unat seed * 16807 mod 2147483647" and "0 < unat seed * 16807 mod 2147483647"
proof -
  let ?p = "unat seed * 16807" and ?w = "ucast seed * 16807 :: u64"
  have p: "unat ?w = ?p" using assms(2) by (simp add: unat_mult_u64)
  have "coprime (2147483647 :: nat) 16807" by (simp add: coprime_iff_gcd_eq_1 gcd_non_0_nat)
  then have "\<not> 2147483647 dvd ?p" using assms by (auto simp: coprime_dvd_mult_left_iff dest: dvd_imp_le)
  then show pos: "0 < ?p mod 2147483647" by (simp add: dvd_eq_mod_eq_0)
  have "?w AND 2147483647 = take_bit 31 ?w" by (simp add: take_bit_eq_mask mask_eq_exp_minus_1)
  then have a: "unat (?w AND 2147483647) = ?p mod 2147483648"
    by (simp add: p unsigned_take_bit_eq take_bit_nat_def)
  have d: "unat (drop_bit 31 ?w) = ?p div 2147483648" by (simp add: p drop_bit_eq_div unat_div)
  have b: "?p div 2147483648 + ?p mod 2147483648 < 4294967296" using assms(2) by linarith
  then have "unat (drop_bit 31 ?w + (?w AND 2147483647)) = ?p div 2147483648 + ?p mod 2147483648"
    by (simp add: unat_add_u64 a d)
  then have s: "unat (ucast (drop_bit 31 ?w + (?w AND 2147483647)) :: u32) = ?p div 2147483648 + ?p mod 2147483648"
    using b by (simp add: unsigned_ucast_eq take_bit_nat_def)
  show "unat (random_Next seed) = ?p mod 2147483647"
    using reduce_mersenne [OF pos] assms(2) s unfolding random_Next_def Let_def
    by (auto simp: word_less_nat_alt unat_sub word_le_nat_alt split: if_splits)
qed

lemma good_seed_range: "0 < unat (good_seed s)" "unat (good_seed s) \<le> 2147483647"
proof -
  have "(2147483647 :: u32) = mask 31" by (simp add: mask_eq_exp_minus_1)
  then have "s AND 2147483647 = take_bit 31 s" by (simp add: take_bit_eq_mask)
  moreover have "unat (take_bit 31 s) < 2 ^ 31" by (simp add: unsigned_take_bit_eq take_bit_nat_def)
  ultimately show "0 < unat (good_seed s)" "unat (good_seed s) \<le> 2147483647"
    by (auto simp: good_seed_def unat_gt_0)
qed

text \<open>The one seed the reduction maps to itself, and a number that becomes this seed.\<close>

lemma random_stuck: "random_Next 2147483647 = 2147483647" "good_seed 4294967295 = 2147483647"
  by (simp_all add: random_Next_def good_seed_def drop_bit_eq_div)

end
