(* ===== verification/Loader.thy ===== *)
theory Loader
  imports Backend
begin

text \<open>
  \<^verbatim>\<open>Backend::Load\<close> of \<^verbatim>\<open>libzlog/backend.cc\<close>: finding the shared library of a storage backend, creating the backend and handing it out
  with a deleter. The dynamic linker and the functions of the library are the parameter \<open>dl_api\<close>; \<open>loader\<close> records which libraries are
  open and which backend objects are alive.
\<close>

record ('h, 'b) dl_api =
  dl_open :: "string \<Rightarrow> 'h option"
  dl_has_symbol :: "'h \<Rightarrow> string \<Rightarrow> bool"
  dl_allocate :: "'h \<Rightarrow> 'b option"
  dl_Initialize :: "'b \<Rightarrow> (string, string) smap \<Rightarrow> unit ret"

record ('h, 'b) loader =
  ld_handles :: "'h list"
  ld_objects :: "'b list"

definition PATH_MAX :: nat where "PATH_MAX = 4096"

definition backend_path :: "string \<Rightarrow> string \<Rightarrow> string" where
  "backend_path dir scheme = c_str dir @ ''/libzlog_backend_'' @ c_str scheme @ ''.so''"

definition ld_dlopen :: "'h \<Rightarrow> ('h, 'b) loader \<Rightarrow> ('h, 'b) loader" where
  "ld_dlopen h ld = ld\<lparr>ld_handles := h # ld_handles ld\<rparr>"

definition ld_dlclose :: "'h \<Rightarrow> ('h, 'b) loader \<Rightarrow> ('h, 'b) loader" where
  "ld_dlclose h ld = ld\<lparr>ld_handles := remove1 h (ld_handles ld)\<rparr>"

definition ld_allocate :: "'b \<Rightarrow> ('h, 'b) loader \<Rightarrow> ('h, 'b) loader" where
  "ld_allocate b ld = ld\<lparr>ld_objects := b # ld_objects ld\<rparr>"

definition ld_release :: "'b \<Rightarrow> ('h, 'b) loader \<Rightarrow> ('h, 'b) loader" where
  "ld_release b ld = ld\<lparr>ld_objects := remove1 b (ld_objects ld)\<rparr>"

text \<open>The part after a library has been opened.\<close>

definition load_backend ::
  "('h, 'b) dl_api \<Rightarrow> (string, string) smap \<Rightarrow> 'h \<Rightarrow> ('h, 'b) loader \<Rightarrow> ('h \<times> 'b) ret \<times> ('h, 'b) loader" where
  "load_backend api opts handle ld =
     (if \<not> dl_has_symbol api handle ''__backend_allocate'' then (Inl EINVAL, ld_dlclose handle ld)
      else if \<not> dl_has_symbol api handle ''__backend_release'' then (Inl EINVAL, ld_dlclose handle ld)
      else case dl_allocate api handle of
        None \<Rightarrow> (Inl ENOMEM, ld)
      | Some b \<Rightarrow>
          let ld1 = ld_allocate b ld
          in case dl_Initialize api b opts of
               Inl ret \<Rightarrow> (Inl ret, ld_dlclose handle (ld_release b ld1))
             | Inr _ \<Rightarrow> (Inr (handle, b), ld1))"

text \<open>\<open>libdir\<close> is the configured library directory, \<open>env_libdir\<close> the environment variable.\<close>

definition Backend_Load ::
  "('h, 'b) dl_api \<Rightarrow> string \<Rightarrow> string option \<Rightarrow> string \<Rightarrow> (string, string) smap \<Rightarrow> ('h, 'b) loader
   \<Rightarrow> ('h \<times> 'b) ret \<times> ('h, 'b) loader" where
  "Backend_Load api libdir env_libdir scheme opts ld =
     (let path = backend_path libdir scheme
      in if length path \<ge> PATH_MAX then (Inl ENAMETOOLONG, ld)
         else case dl_open api path of
           Some handle \<Rightarrow> load_backend api opts handle (ld_dlopen handle ld)
         | None \<Rightarrow>
             let path2 = backend_path (case env_libdir of None \<Rightarrow> ''lib'' | Some d \<Rightarrow> d) scheme
             in if length path2 \<ge> PATH_MAX then (Inl ENAMETOOLONG, ld)
                else case dl_open api path2 of
                  None \<Rightarrow> (Inl EINVAL, ld)
                | Some handle \<Rightarrow> load_backend api opts handle (ld_dlopen handle ld))"

text \<open>The deleter of the shared pointer.\<close>

definition Backend_delete :: "'h \<times> 'b \<Rightarrow> ('h, 'b) loader \<Rightarrow> ('h, 'b) loader" where
  "Backend_delete hb ld = (case hb of (handle, b) \<Rightarrow> ld_dlclose handle (ld_release b ld))"

lemmas loader_defs = ld_dlopen_def ld_dlclose_def ld_allocate_def ld_release_def

lemma load_backend_result:
  "load_backend api opts handle (ld_dlopen handle ld) = (r, ld') \<Longrightarrow>
     (case r of Inr hb \<Rightarrow> Backend_delete hb ld' = ld
      | Inl e \<Rightarrow> ld' = ld \<or> (e = ENOMEM \<and> dl_allocate api handle = None \<and> ld' = ld_dlopen handle ld))"
  by (auto simp: load_backend_def loader_defs Backend_delete_def Let_def split: if_splits option.splits sum.splits)

text \<open>A failed load leaves nothing behind, except when the library could not allocate a backend: then the library stays open.
  A successful load is undone by the deleter.\<close>

lemma Load_result:
  "Backend_Load api libdir env_libdir scheme opts ld = (r, ld') \<Longrightarrow>
     (case r of Inr hb \<Rightarrow> Backend_delete hb ld' = ld
      | Inl e \<Rightarrow> ld' = ld \<or> (e = ENOMEM \<and> (\<exists>h. dl_allocate api h = None \<and> ld' = ld_dlopen h ld)))"
  by (auto simp: Backend_Load_def Let_def split: if_splits option.splits sum.splits dest!: load_backend_result)

lemma Load_leaks_library:
  assumes "length (backend_path libdir scheme) < PATH_MAX" and "dl_open api (backend_path libdir scheme) = Some h"
    and "dl_has_symbol api h ''__backend_allocate''" and "dl_has_symbol api h ''__backend_release''" and "dl_allocate api h = None"
  shows "Backend_Load api libdir env_libdir scheme opts ld = (Inl ENOMEM, ld_dlopen h ld)"
  using assms by (simp add: Backend_Load_def load_backend_def Let_def)

end
