(* ===== verification/C_Interface.thy ===== *)
theory C_Interface
  imports Loader Log_Open "HOL-Library.List_Lexorder" "HOL-Library.Char_ord"
begin

text \<open>
  The C interface, \<^verbatim>\<open>libzlog/capi.cc\<close>. Pointers to characters are strings: names end at the first NUL, buffers come with their length.
  \<open>dirs\<close> are the library directories the backend is looked for in. An operation on buffers is \<^const>\<open>None\<close> when the fuel of the
  log operation runs out.
\<close>

record zlog_options_t =
  co_backend_name :: string
  co_backend_options :: "(string, string) smap"
  co_rep :: options

text \<open>An opened log with the backend it keeps alive.\<close>

record ('s, 'h) zlog_log_t =
  zl_rep :: "'s log"
  zl_backend :: "'h \<times> 's backend_ops"

definition zlog_options_create :: zlog_options_t where
  "zlog_options_create = \<lparr>co_backend_name = '''', co_backend_options = [], co_rep = default_options\<rparr>"

definition zlog_options_set_backend_name :: "string \<Rightarrow> zlog_options_t \<Rightarrow> zlog_options_t" where
  "zlog_options_set_backend_name name opts = opts\<lparr>co_backend_name := c_str name\<rparr>"

definition zlog_options_set_backend_option :: "string \<Rightarrow> string \<Rightarrow> zlog_options_t \<Rightarrow> zlog_options_t" where
  "zlog_options_set_backend_option name value opts =
     opts\<lparr>co_backend_options := smap_assign (c_str name) (c_str value) (co_backend_options opts)\<rparr>"

definition zlog_options_set_create_if_missing :: "8 word \<Rightarrow> zlog_options_t \<Rightarrow> zlog_options_t" where
  "zlog_options_set_create_if_missing v opts = opts\<lparr>co_rep := (co_rep opts)\<lparr>create_if_missing := v \<noteq> 0\<rparr>\<rparr>"

definition zlog_options_set_error_if_exists :: "8 word \<Rightarrow> zlog_options_t \<Rightarrow> zlog_options_t" where
  "zlog_options_set_error_if_exists v opts = opts\<lparr>co_rep := (co_rep opts)\<lparr>error_if_exists := v \<noteq> 0\<rparr>\<rparr>"

text \<open>\<^verbatim>\<open>Log::Open\<close> loads the backend unless the name is empty, and drops the only pointer to it when it fails.\<close>

definition zlog_open ::
  "nat \<Rightarrow> ('s \<Rightarrow> 's) list \<Rightarrow> event list list \<Rightarrow> view_codec \<Rightarrow> ('h, 's backend_ops) dl_api \<Rightarrow> string \<times> string option \<Rightarrow> string
   \<Rightarrow> zlog_options_t \<Rightarrow> string \<Rightarrow> ('h, 's backend_ops) loader \<Rightarrow> 's
   \<Rightarrow> (('s, 'h) zlog_log_t ret \<times> ('h, 's backend_ops) loader \<times> 's) option" where
  "zlog_open n env wenv codec api dirs host opts name ld s =
     (let nm = c_str name;
          (load, ld1) = (if nm = '''' then (Inl EINVAL, ld)
                         else Backend_Load api (fst dirs) (snd dirs) (co_backend_name opts) (co_backend_options opts) ld)
      in case log_Open n env wenv codec None (map_sum id snd load) host (co_rep opts) nm s of
           None \<Rightarrow> None
         | Some (ret, s1) \<Rightarrow>
             Some (case (ret, load) of
                     (Inr l, Inr hb) \<Rightarrow> (Inr \<lparr>zl_rep = l, zl_backend = hb\<rparr>, ld1, s1)
                   | (Inl e, Inr hb) \<Rightarrow> (Inl e, Backend_delete hb ld1, s1)
                   | (Inr l, Inl e) \<Rightarrow> (Inl e, ld1, s1)
                   | (Inl e, Inl _) \<Rightarrow> (Inl e, ld1, s1)))"

definition zlog_destroy :: "('s, 'h) zlog_log_t \<Rightarrow> ('h, 's backend_ops) loader \<Rightarrow> 's log \<times> ('h, 's backend_ops) loader" where
  "zlog_destroy log ld = (log_destroy (zl_rep log), Backend_delete (zl_backend log) ld)"

definition on_rep ::
  "('s log \<Rightarrow> ('a \<times> 's log) option) \<Rightarrow> ('s, 'h) zlog_log_t \<Rightarrow> ('a \<times> ('s, 'h) zlog_log_t) option" where
  "on_rep f log = map_option (\<lambda>(r, l). (r, log\<lparr>zl_rep := l\<rparr>)) (f (zl_rep log))"

definition zlog_checktail :: "view_codec \<Rightarrow> ('s, 'h) zlog_log_t \<Rightarrow> (u64 ret \<times> ('s, 'h) zlog_log_t) option" where
  "zlog_checktail codec log = on_rep (log_CheckTail codec) log"

text \<open>\<open>data\<close> are the bytes the pointer refers to, at least \<open>len\<close> of them.\<close>

definition zlog_append ::
  "nat \<Rightarrow> nat \<Rightarrow> view_codec \<Rightarrow> string \<Rightarrow> nat \<Rightarrow> ('s, 'h) zlog_log_t \<Rightarrow> (u64 ret \<times> ('s, 'h) zlog_log_t) option" where
  "zlog_append n m codec data len log = on_rep (log_Append n m codec (take len data)) log"

text \<open>The result with the new contents of the caller's buffer.\<close>

definition zlog_read ::
  "nat \<Rightarrow> nat \<Rightarrow> view_codec \<Rightarrow> u64 \<Rightarrow> string \<Rightarrow> nat \<Rightarrow> ('s, 'h) zlog_log_t \<Rightarrow> (nat ret \<times> string \<times> ('s, 'h) zlog_log_t) option" where
  "zlog_read n m codec position data len log =
     (case on_rep (log_Read n m codec position) log of
        None \<Rightarrow> None
      | Some (Inl ret, log1) \<Rightarrow> Some (Inl ret, data, log1)
      | Some (Inr blob, log1) \<Rightarrow>
          if length blob > len then Some (Inl ERANGE, data, log1)
          else Some (Inr (length blob), blob @ drop (length blob) data, log1))"

definition zlog_fill :: "nat \<Rightarrow> nat \<Rightarrow> view_codec \<Rightarrow> u64 \<Rightarrow> ('s, 'h) zlog_log_t \<Rightarrow> (unit ret \<times> ('s, 'h) zlog_log_t) option" where
  "zlog_fill n m codec position log = on_rep (log_Fill n m codec position) log"

definition zlog_trim :: "nat \<Rightarrow> nat \<Rightarrow> view_codec \<Rightarrow> u64 \<Rightarrow> ('s, 'h) zlog_log_t \<Rightarrow> (unit ret \<times> ('s, 'h) zlog_log_t) option" where
  "zlog_trim n m codec position log = on_rep (log_Trim n m codec position) log"

definition zlog_trim_to :: "nat \<Rightarrow> nat \<Rightarrow> view_codec \<Rightarrow> u64 \<Rightarrow> ('s, 'h) zlog_log_t \<Rightarrow> (unit ret \<times> ('s, 'h) zlog_log_t) option" where
  "zlog_trim_to n m codec position log = on_rep (log_trimTo n m codec position) log"

text \<open>Opening fails, or gives a log, only after the backend could be loaded.\<close>

lemma open_needs_load: "log_Open n env wenv codec None (Inl e) host opts name s = Some (r, s1) \<Longrightarrow> \<exists>e. r = Inl e"
  by (auto simp: log_Open_def build_log_impl_def create_or_open_def split: if_splits)

text \<open>Opening and destroying a log through the C interface leaves no library and no backend behind, and neither does a failed
  opening, as long as the library can allocate its backend.\<close>

lemma zlog_open_destroy:
  assumes "zlog_open n env wenv codec api dirs host opts name ld s = Some (r, ld1, s1)" and "\<forall>h. dl_allocate api h \<noteq> None"
  shows "case r of Inl _ \<Rightarrow> ld1 = ld | Inr log \<Rightarrow> snd (zlog_destroy log ld1) = ld"
proof -
  obtain load ld2 where l: "(if c_str name = '''' then (Inl EINVAL, ld)
      else Backend_Load api (fst dirs) (snd dirs) (co_backend_name opts) (co_backend_options opts) ld) = (load, ld2)" by fastforce
  have "case load of Inr hb \<Rightarrow> Backend_delete hb ld2 = ld | Inl _ \<Rightarrow> ld2 = ld"
    using l Load_result [of api "fst dirs" "snd dirs" "co_backend_name opts" "co_backend_options opts" ld load ld2] assms(2)
    by (auto split: if_splits sum.splits simp del: not_None_eq)
  then show ?thesis using assms(1) open_needs_load unfolding zlog_open_def Let_def l
    by (fastforce simp: zlog_destroy_def split: option.splits sum.splits prod.splits)
qed

end
