(* ===== verification/C_Properties.thy ===== *)
theory C_Properties
  imports C_Interface Example_Log
begin

text \<open>The property of the C interface: what its read tells about the log.\<close>


text \<open>The example log behind the C interface, with a library of one backend.\<close>

definition example_c_log :: "(ram, nat) zlog_log_t" where
  "example_c_log = \<lparr>zl_rep = example_log, zl_backend = (0, ram_ops)\<rparr>"


end
