(* ===== verification/Auto_Vector.thy ===== *)
theory Auto_Vector
  imports Prelude
begin

text \<open>
  The vector of \<^verbatim>\<open>util/autovector.h\<close>, whose first eight elements live in an array inside the object. A slot of the array that was never
  assigned is \<^const>\<open>None\<close>; so is a failed assertion. It represents a plain list.
\<close>

definition kSize :: nat where "kSize = 8"

record 'a autovector =
  num_stack_items :: nat
  av_values :: "'a option list"
  av_vect :: "'a list"

definition av_new :: "'a autovector" where
  "av_new = \<lparr>num_stack_items = 0, av_values = replicate kSize None, av_vect = []\<rparr>"

definition av_size :: "'a autovector \<Rightarrow> nat" where
  "av_size v = num_stack_items v + length (av_vect v)"

definition av_empty :: "'a autovector \<Rightarrow> bool" where
  "av_empty v \<longleftrightarrow> av_size v = 0"

definition av_at :: "'a autovector \<Rightarrow> nat \<Rightarrow> 'a option" where
  "av_at v n = (if n < av_size v then (if n < kSize then av_values v ! n else Some (av_vect v ! (n - kSize))) else None)"

definition av_back :: "'a autovector \<Rightarrow> 'a option" where
  "av_back v = (if av_empty v then None else av_at v (av_size v - 1))"

definition av_front :: "'a autovector \<Rightarrow> 'a option" where
  "av_front v = (if av_empty v then None else av_at v 0)"

definition av_push_back :: "'a \<Rightarrow> 'a autovector \<Rightarrow> 'a autovector" where
  "av_push_back x v =
     (if num_stack_items v < kSize
      then v\<lparr>av_values := (av_values v)[num_stack_items v := Some x], num_stack_items := num_stack_items v + 1\<rparr>
      else v\<lparr>av_vect := av_vect v @ [x]\<rparr>)"

definition av_pop_back :: "'a autovector \<Rightarrow> 'a autovector option" where
  "av_pop_back v =
     (if av_empty v then None
      else if av_vect v \<noteq> [] then Some (v\<lparr>av_vect := butlast (av_vect v)\<rparr>)
      else Some (v\<lparr>num_stack_items := num_stack_items v - 1\<rparr>))"

definition av_clear :: "'a autovector \<Rightarrow> 'a autovector" where
  "av_clear v = v\<lparr>num_stack_items := 0, av_vect := []\<rparr>"

text \<open>\<open>d\<close> is the value new elements of the inner vector get; new elements of the array keep what the array held.\<close>

definition av_resize :: "'a \<Rightarrow> nat \<Rightarrow> 'a autovector \<Rightarrow> 'a autovector" where
  "av_resize d n v =
     (if n > kSize
      then v\<lparr>av_vect := take (n - kSize) (av_vect v) @ replicate (n - kSize - length (av_vect v)) d, num_stack_items := kSize\<rparr>
      else v\<lparr>av_vect := [], num_stack_items := n\<rparr>)"

definition av_assign :: "'a autovector \<Rightarrow> 'a autovector \<Rightarrow> 'a autovector" where
  "av_assign other v =
     v\<lparr>av_vect := av_vect other, num_stack_items := num_stack_items other,
       av_values := take (num_stack_items other) (av_values other) @ drop (num_stack_items other) (av_values v)\<rparr>"

text \<open>The contents of the vector, and the shape every operation keeps.\<close>

definition av_list :: "'a autovector \<Rightarrow> 'a list" where
  "av_list v = map the (take (num_stack_items v) (av_values v)) @ av_vect v"

definition av_wf :: "'a autovector \<Rightarrow> bool" where
  "av_wf v \<longleftrightarrow> length (av_values v) = kSize \<and> num_stack_items v \<le> kSize \<and> None \<notin> set (take (num_stack_items v) (av_values v))
     \<and> (av_vect v \<noteq> [] \<longrightarrow> num_stack_items v = kSize)"

lemma av_new_wf [simp]: "av_wf av_new" "av_list av_new = []"
  by (simp_all add: av_wf_def av_new_def av_list_def)

lemma av_size_list: "av_wf v \<Longrightarrow> av_size v = length (av_list v)"
  by (auto simp: av_wf_def av_size_def av_list_def)

lemma av_empty_list: "av_wf v \<Longrightarrow> av_empty v \<longleftrightarrow> av_list v = []"
  by (simp add: av_empty_def av_size_list)

lemma av_at_list:
  assumes "av_wf v" and "n < length (av_list v)" shows "av_at v n = Some (av_list v ! n)"
proof (cases "n < kSize")
  case True
  have k: "n < num_stack_items v"
    using assms True by (cases "av_vect v = []") (auto simp: av_wf_def av_list_def)
  have "av_values v ! n \<in> set (take (num_stack_items v) (av_values v))"
    using assms(1) k True by (auto simp: av_wf_def in_set_conv_nth intro!: exI [of _ n])
  then have "av_values v ! n \<noteq> None" using assms(1) unfolding av_wf_def by metis
  then show ?thesis using assms k True av_size_list [OF assms(1)]
    by (auto simp: av_at_def av_list_def nth_append av_wf_def)
next
  case False
  then have "num_stack_items v = kSize" using assms by (cases "av_vect v = []") (auto simp: av_wf_def av_list_def)
  then show ?thesis using assms False av_size_list [OF assms(1)]
    by (auto simp: av_at_def av_list_def nth_append av_wf_def)
qed

lemma av_back_list: "av_wf v \<Longrightarrow> av_back v = (if av_list v = [] then None else Some (last (av_list v)))"
  by (simp add: av_back_def av_empty_list av_size_list av_at_list last_conv_nth)

lemma av_push_list:
  assumes "av_wf v" shows "av_wf (av_push_back x v)" and "av_list (av_push_back x v) = av_list v @ [x]"
proof -
  have "take (Suc n) (vs[n := Some x]) = take n vs @ [Some x]" if "n < length vs" for n and vs :: "'a option list"
    using that by (simp add: take_Suc_conv_app_nth)
  then show "av_wf (av_push_back x v)" "av_list (av_push_back x v) = av_list v @ [x]"
    using assms by (auto simp: av_push_back_def av_wf_def av_list_def)
qed

lemma av_pop_list:
  assumes "av_wf v" and "av_list v \<noteq> []"
  shows "\<exists>v'. av_pop_back v = Some v' \<and> av_wf v' \<and> av_list v' = butlast (av_list v)"
proof -
  let ?n = "num_stack_items v" and ?vs = "av_values v"
  have "take (?n - 1) ?vs = butlast (take ?n ?vs)" using assms(1) by (simp add: butlast_take av_wf_def)
  then show ?thesis using assms av_empty_list [OF assms(1)]
    by (auto simp: av_pop_back_def av_wf_def av_list_def butlast_append map_butlast dest: in_set_butlastD)
qed

lemma av_clear_list: "av_wf v \<Longrightarrow> av_wf (av_clear v) \<and> av_list (av_clear v) = []"
  by (auto simp: av_clear_def av_wf_def av_list_def)

lemma av_assign_list:
  "av_wf v \<Longrightarrow> av_wf other \<Longrightarrow> av_wf (av_assign other v) \<and> av_list (av_assign other v) = av_list other"
  by (auto simp: av_assign_def av_wf_def av_list_def)

text \<open>Resizing keeps the elements that fit; shrinking below the array cuts the list.\<close>

lemma av_resize_size: "av_size (av_resize d n v) = n"
  by (auto simp: av_resize_def av_size_def min_def)

lemma av_resize_shrink:
  assumes "av_wf v" and "n \<le> length (av_list v)"
  shows "av_wf (av_resize d n v) \<and> av_list (av_resize d n v) = take n (av_list v)"
proof (cases "n > kSize")
  case True
  then have "num_stack_items v = kSize" using assms by (cases "av_vect v = []") (auto simp: av_wf_def av_list_def)
  then show ?thesis using assms True by (auto simp: av_resize_def av_wf_def av_list_def min_def)
next
  case False
  have "n \<le> num_stack_items v"
    using assms False by (cases "av_vect v = []") (auto simp: av_wf_def av_list_def min_def split: if_splits)
  moreover from this have "set (take n (av_values v)) \<subseteq> set (take (num_stack_items v) (av_values v))" by (rule set_take_subset_set_take)
  ultimately show ?thesis using assms False by (auto simp: av_resize_def av_wf_def av_list_def min_def take_map)
qed

end
