(* ===== verification/Thread_Local.thy ===== *)
theory Thread_Local
  imports Auto_Vector
begin

text \<open>
  The pointers with one value per thread and instance of \<^verbatim>\<open>util/thread_local.cc\<close>. The chain of \<^verbatim>\<open>ThreadData\<close> blocks is the list of
  threads in the order of the chain, each with its vector of entries; a null pointer is \<^const>\<open>None\<close>. Handlers are only recorded: \<open>tm_unrefs\<close> lists
  the calls that were made. The operations that run on the current thread take it as an argument. \<^const>\<open>None\<close> as a result of an
  operation is an access outside a vector.
\<close>

record ('t, 'p, 'h) static_meta =
  tm_next_instance_id :: u32
  tm_free_instance_ids :: "u32 autovector"
  tm_chain :: "('t \<times> 'p option list) list"
  tm_handler_map :: "(u32 \<times> 'h option) list"
  tm_unrefs :: "('h \<times> 'p) list"

definition meta_new :: "('t, 'p, 'h) static_meta" where
  "meta_new = \<lparr>tm_next_instance_id = 0, tm_free_instance_ids = av_new, tm_chain = [], tm_handler_map = [], tm_unrefs = []\<rparr>"

definition AddThreadData :: "'t \<times> 'p option list \<Rightarrow> ('t, 'p, 'h) static_meta \<Rightarrow> ('t, 'p, 'h) static_meta" where
  "AddThreadData d m = m\<lparr>tm_chain := tm_chain m @ [d]\<rparr>"

definition RemoveThreadData :: "'t \<Rightarrow> ('t, 'p, 'h) static_meta \<Rightarrow> ('t, 'p, 'h) static_meta" where
  "RemoveThreadData t m = m\<lparr>tm_chain := filter (\<lambda>d. fst d \<noteq> t) (tm_chain m)\<rparr>"

text \<open>The block of the current thread, created and registered on first use. Setting the key of the exit handler is taken to
  succeed; the code aborts the process otherwise.\<close>

definition GetThreadLocal :: "'t \<Rightarrow> ('t, 'p, 'h) static_meta \<Rightarrow> 'p option list \<times> ('t, 'p, 'h) static_meta" where
  "GetThreadLocal t m =
     (case map_of (tm_chain m) t of
        Some entries \<Rightarrow> (entries, m)
      | None \<Rightarrow> ([], AddThreadData (t, []) m))"

definition set_entries :: "'t \<Rightarrow> 'p option list \<Rightarrow> ('t, 'p, 'h) static_meta \<Rightarrow> ('t, 'p, 'h) static_meta" where
  "set_entries t entries m = m\<lparr>tm_chain := map (\<lambda>d. if fst d = t then (t, entries) else d) (tm_chain m)\<rparr>"

definition vec_resize :: "nat \<Rightarrow> 'p option list \<Rightarrow> 'p option list" where
  "vec_resize n entries = take n entries @ replicate (n - length entries) None"

text \<open>The entries of the current thread, extended when the instance is new to it.\<close>

definition entries_for :: "'t \<Rightarrow> u32 \<Rightarrow> ('t, 'p, 'h) static_meta \<Rightarrow> 'p option list \<times> ('t, 'p, 'h) static_meta" where
  "entries_for t iid m =
     (let (entries, m1) = GetThreadLocal t m
      in if length entries \<le> unat iid then (vec_resize (unat (iid + 1)) entries, m1) else (entries, m1))"

definition tl_Get :: "'t \<Rightarrow> u32 \<Rightarrow> ('t, 'p, 'h) static_meta \<Rightarrow> 'p option \<times> ('t, 'p, 'h) static_meta" where
  "tl_Get t iid m =
     (let (entries, m1) = GetThreadLocal t m
      in if length entries \<le> unat iid then (None, m1) else (entries ! unat iid, m1))"

definition tl_Reset :: "'t \<Rightarrow> u32 \<Rightarrow> 'p option \<Rightarrow> ('t, 'p, 'h) static_meta \<Rightarrow> ('t, 'p, 'h) static_meta option" where
  "tl_Reset t iid ptr m =
     (let (entries, m1) = entries_for t iid m
      in if unat iid < length entries then Some (set_entries t (entries[unat iid := ptr]) m1) else None)"

definition tl_Swap :: "'t \<Rightarrow> u32 \<Rightarrow> 'p option \<Rightarrow> ('t, 'p, 'h) static_meta \<Rightarrow> ('p option \<times> ('t, 'p, 'h) static_meta) option" where
  "tl_Swap t iid ptr m =
     (let (entries, m1) = entries_for t iid m
      in if unat iid < length entries
         then Some (entries ! unat iid, set_entries t (entries[unat iid := ptr]) m1) else None)"

text \<open>The result and the new value of \<open>expected\<close>.\<close>

definition tl_CompareAndSwap ::
  "'t \<Rightarrow> u32 \<Rightarrow> 'p option \<Rightarrow> 'p option \<Rightarrow> ('t, 'p, 'h) static_meta \<Rightarrow> (bool \<times> 'p option \<times> ('t, 'p, 'h) static_meta) option" where
  "tl_CompareAndSwap t iid ptr expected m =
     (let (entries, m1) = entries_for t iid m
      in if unat iid < length entries then
           if entries ! unat iid = expected then Some (True, expected, set_entries t (entries[unat iid := ptr]) m1)
           else Some (False, entries ! unat iid, set_entries t entries m1)
         else None)"

text \<open>The loop over the chain of \<^verbatim>\<open>Scrape\<close>.\<close>

fun scrape_loop ::
  "u32 \<Rightarrow> 'p option \<Rightarrow> ('t \<times> 'p option list) list \<Rightarrow> 'p autovector \<Rightarrow> 'p autovector \<times> ('t \<times> 'p option list) list" where
  "scrape_loop iid replacement [] ptrs = (ptrs, [])"
| "scrape_loop iid replacement ((t, entries) # chain) ptrs =
     (if unat iid < length entries then
        let ptrs1 = (case entries ! unat iid of None \<Rightarrow> ptrs | Some p \<Rightarrow> av_push_back p ptrs);
            (ptrs2, chain2) = scrape_loop iid replacement chain ptrs1
        in (ptrs2, (t, entries[unat iid := replacement]) # chain2)
      else let (ptrs2, chain2) = scrape_loop iid replacement chain ptrs in (ptrs2, (t, entries) # chain2))"

definition tl_Scrape ::
  "u32 \<Rightarrow> 'p autovector \<Rightarrow> 'p option \<Rightarrow> ('t, 'p, 'h) static_meta \<Rightarrow> 'p autovector \<times> ('t, 'p, 'h) static_meta" where
  "tl_Scrape iid ptrs replacement m =
     (let (ptrs1, chain) = scrape_loop iid replacement (tm_chain m) ptrs in (ptrs1, m\<lparr>tm_chain := chain\<rparr>))"

definition tl_Fold :: "u32 \<Rightarrow> ('p \<Rightarrow> 'r \<Rightarrow> 'r) \<Rightarrow> 'r \<Rightarrow> ('t, 'p, 'h) static_meta \<Rightarrow> 'r" where
  "tl_Fold iid func res m =
     fold (\<lambda>(t, entries) r. if unat iid < length entries then (case entries ! unat iid of None \<Rightarrow> r | Some p \<Rightarrow> func p r) else r)
       (tm_chain m) res"

definition SetHandler :: "u32 \<Rightarrow> 'h option \<Rightarrow> ('t, 'p, 'h) static_meta \<Rightarrow> ('t, 'p, 'h) static_meta" where
  "SetHandler iid handler m = m\<lparr>tm_handler_map := um_put iid handler (tm_handler_map m)\<rparr>"

definition GetHandler :: "u32 \<Rightarrow> ('t, 'p, 'h) static_meta \<Rightarrow> 'h option" where
  "GetHandler iid m = (case map_of (tm_handler_map m) iid of None \<Rightarrow> None | Some h \<Rightarrow> h)"

definition unref_call :: "'h option \<Rightarrow> 'p option \<Rightarrow> ('h \<times> 'p) list" where
  "unref_call unref ptr = (case (unref, ptr) of (Some h, Some p) \<Rightarrow> [(h, p)] | _ \<Rightarrow> [])"

definition GetId :: "('t, 'p, 'h) static_meta \<Rightarrow> (u32 \<times> ('t, 'p, 'h) static_meta) option" where
  "GetId m =
     (if av_empty (tm_free_instance_ids m)
      then Some (tm_next_instance_id m, m\<lparr>tm_next_instance_id := tm_next_instance_id m + 1\<rparr>)
      else case (av_back (tm_free_instance_ids m), av_pop_back (tm_free_instance_ids m)) of
             (Some iid, Some ids) \<Rightarrow> Some (iid, m\<lparr>tm_free_instance_ids := ids\<rparr>)
           | _ \<Rightarrow> None)"

definition PeekId :: "('t, 'p, 'h) static_meta \<Rightarrow> u32 option" where
  "PeekId m = (if \<not> av_empty (tm_free_instance_ids m) then av_back (tm_free_instance_ids m)
               else Some (tm_next_instance_id m))"

text \<open>The loop over the chain of \<^verbatim>\<open>ReclaimId\<close>: the calls of the handler and the new chain.\<close>

definition reclaim_calls :: "u32 \<Rightarrow> 'h option \<Rightarrow> ('t \<times> 'p option list) list \<Rightarrow> ('h \<times> 'p) list" where
  "reclaim_calls iid unref chain =
     concat (map (\<lambda>(t, entries). if unat iid < length entries then unref_call unref (entries ! unat iid) else []) chain)"

definition ReclaimId :: "u32 \<Rightarrow> ('t, 'p, 'h) static_meta \<Rightarrow> ('t, 'p, 'h) static_meta" where
  "ReclaimId iid m =
     m\<lparr>tm_unrefs := tm_unrefs m @ reclaim_calls iid (GetHandler iid m) (tm_chain m),
       tm_chain := map (\<lambda>(t, entries). (t, if unat iid < length entries then entries[unat iid := None] else entries)) (tm_chain m),
       tm_handler_map := um_put iid None (tm_handler_map m),
       tm_free_instance_ids := av_push_back iid (tm_free_instance_ids m)\<rparr>"

text \<open>The loop over the entries of a thread that ends, with the 32-bit counter of instances.\<close>

fun exit_calls :: "('t, 'p, 'h) static_meta \<Rightarrow> u32 \<Rightarrow> 'p option list \<Rightarrow> ('h \<times> 'p) list" where
  "exit_calls m iid [] = []"
| "exit_calls m iid (e # es) = unref_call (GetHandler iid m) e @ exit_calls m (iid + 1) es"

definition OnThreadExit :: "'t \<Rightarrow> ('t, 'p, 'h) static_meta \<Rightarrow> ('t, 'p, 'h) static_meta" where
  "OnThreadExit t m =
     (case map_of (tm_chain m) t of
        None \<Rightarrow> m
      | Some entries \<Rightarrow>
          (RemoveThreadData t m)\<lparr>tm_unrefs := tm_unrefs m @ exit_calls m 0 entries\<rparr>)"

text \<open>The constructor and the destructor of an instance; its other operations call those above with its id.\<close>

definition ThreadLocalPtr :: "'h option \<Rightarrow> ('t, 'p, 'h) static_meta \<Rightarrow> (u32 \<times> ('t, 'p, 'h) static_meta) option" where
  "ThreadLocalPtr handler m =
     map_option (\<lambda>(iid, m1). (iid, if handler \<noteq> None then SetHandler iid handler m1 else m1)) (GetId m)"

definition ThreadLocalPtr_destroy :: "u32 \<Rightarrow> ('t, 'p, 'h) static_meta \<Rightarrow> ('t, 'p, 'h) static_meta" where
  "ThreadLocalPtr_destroy iid m = ReclaimId iid m"

end
