(* ===== verification/Thread_Local_Facts.thy ===== *)
theory Thread_Local_Facts
  imports Thread_Local "HOL-Library.Multiset"
begin

text \<open>
  The refinement of the thread-local pointers to a table of values by thread and instance: identifiers in use are distinct, an
  identifier that is used again has no value on any thread, and handlers get exactly the values they are responsible for.
\<close>

subsection \<open>The table\<close>

definition value_of :: "('t, 'p, 'h) static_meta \<Rightarrow> 't \<Rightarrow> u32 \<Rightarrow> 'p option" where
  "value_of m t i = (case map_of (tm_chain m) t of
     None \<Rightarrow> None
   | Some entries \<Rightarrow> if unat i < length entries then entries ! unat i else None)"

text \<open>The invariant, with the set of instances that exist. A dead instance has no value and no handler.\<close>

definition tl_inv :: "u32 set \<Rightarrow> ('t, 'p, 'h) static_meta \<Rightarrow> bool" where
  "tl_inv live m \<longleftrightarrow>
     av_wf (tm_free_instance_ids m) \<and> distinct (av_list (tm_free_instance_ids m))
     \<and> live \<inter> set (av_list (tm_free_instance_ids m)) = {}
     \<and> live \<union> set (av_list (tm_free_instance_ids m)) = {i. i < tm_next_instance_id m}
     \<and> distinct (map fst (tm_chain m))
     \<and> (\<forall>(t, entries)\<in>set (tm_chain m). length entries \<le> unat (tm_next_instance_id m))
     \<and> (\<forall>t i. i \<notin> live \<longrightarrow> value_of m t i = None)
     \<and> (\<forall>i. i \<notin> live \<longrightarrow> GetHandler i m = None)"

lemma meta_new_inv: "tl_inv {} meta_new"
  by (simp add: tl_inv_def meta_new_def value_of_def GetHandler_def)

lemma u32_less_Suc: "(a :: u32) < b \<Longrightarrow> unat (a + 1) = unat a + 1"
proof -
  assume "a < b"
  then have "Suc (unat a) < 4294967296" using unat_u32_bound [of b] by (simp only: word_less_nat_alt)
  then show ?thesis by (simp add: unat_word_ariths take_bit_nat_def)
qed

lemma live_bound: "tl_inv live m \<Longrightarrow> i \<in> live \<Longrightarrow> i < tm_next_instance_id m"
  by (auto simp: tl_inv_def)

lemma GetHandler_sel [simp]: "GetHandler i (m\<lparr>tm_chain := c\<rparr>) = GetHandler i m"
  by (simp add: GetHandler_def)

subsection \<open>The operations of a thread\<close>


lemma map_of_set_entries:
  "map_of (map (\<lambda>d. if fst d = t then (t, es) else d) c) t' = (if t' = t then map_option (\<lambda>_. es) (map_of c t) else map_of c t')"
  by (induction c) auto

lemma GetThreadLocal_value:
  "GetThreadLocal t m = (es, m1) \<Longrightarrow> map_of (tm_chain m1) t = Some es \<and> value_of m1 = value_of m
     \<and> m1 = m\<lparr>tm_chain := tm_chain m1\<rparr> \<and> (\<forall>i. value_of m t i = (if unat i < length es then es ! unat i else None))"
  by (auto simp: GetThreadLocal_def AddThreadData_def value_of_def map_add_def fun_eq_iff split: option.splits if_splits)

lemma GetThreadLocal_inv:
  assumes "tl_inv live m" and "GetThreadLocal t m = (es, m1)"
  shows "tl_inv live m1" and "length es \<le> unat (tm_next_instance_id m)"
proof -
  have v: "value_of m1 = value_of m" using GetThreadLocal_value [OF assms(2)] by blast
  show "length es \<le> unat (tm_next_instance_id m)"
    using assms by (auto simp: GetThreadLocal_def tl_inv_def split: option.splits dest: map_of_SomeD)
  show "tl_inv live m1"
  proof (cases "map_of (tm_chain m) t")
    case None
    then have n: "t \<notin> fst ` set (tm_chain m)" by (simp add: map_of_eq_None_iff)
    have m1: "m1 = m\<lparr>tm_chain := tm_chain m @ [(t, [])]\<rparr>" using assms(2) None by (simp add: GetThreadLocal_def AddThreadData_def)
    show ?thesis using assms(1) v n unfolding tl_inv_def by (simp add: m1)
  next
    case (Some es)
    then show ?thesis using assms by (simp add: GetThreadLocal_def)
  qed
qed

lemma set_entries_value:
  assumes "map_of (tm_chain m) t = Some es0"
  shows "value_of (set_entries t es m) t' i = (if t' = t then (if unat i < length es then es ! unat i else None) else value_of m t' i)"
  using assms by (simp add: value_of_def set_entries_def map_of_set_entries split: option.splits)

lemma set_entries_inv:
  assumes "tl_inv live m" and "map_of (tm_chain m) t = Some es0" and "length es \<le> unat (tm_next_instance_id m)"
    and "\<And>i. i \<notin> live \<Longrightarrow> unat i < length es \<Longrightarrow> es ! unat i = None"
  shows "tl_inv live (set_entries t es m)"
proof -
  have v: "i \<notin> live \<Longrightarrow> value_of (set_entries t es m) t' i = None" for t' i
    using assms(1,4) by (simp add: set_entries_value [OF assms(2)] tl_inv_def)
  have f: "map fst (map (\<lambda>d. if fst d = t then (t, es) else d) (tm_chain m)) = map fst (tm_chain m)" by auto
  have sel: "tm_free_instance_ids (set_entries t es m) = tm_free_instance_ids m"
    "tm_next_instance_id (set_entries t es m) = tm_next_instance_id m" "GetHandler i (set_entries t es m) = GetHandler i m"
    "tm_chain (set_entries t es m) = map (\<lambda>d. if fst d = t then (t, es) else d) (tm_chain m)" for i
    by (simp_all add: set_entries_def)
  show ?thesis unfolding tl_inv_def sel f using assms(1,3) v unfolding tl_inv_def by (auto split: if_splits)
qed

text \<open>What extending the vector of the current thread gives.\<close>

lemma entries_for_ok:
  assumes "tl_inv live m" and "i \<in> live" and "entries_for t i m = (es, m1)"
  shows "unat i < length es" and "length es \<le> unat (tm_next_instance_id m)" and "tl_inv live m1" and "value_of m1 = value_of m"
    and "\<exists>es0. map_of (tm_chain m1) t = Some es0" and "m1 = m\<lparr>tm_chain := tm_chain m1\<rparr>"
    and "\<And>j. (if unat j < length es then es ! unat j else None) = value_of m t j"
proof -
  obtain es0 m0 where g: "GetThreadLocal t m = (es0, m0)" by fastforce
  note v = GetThreadLocal_value [OF g] and w = GetThreadLocal_inv [OF assms(1) g]
  have m1: "m1 = m0" and es: "es = (if length es0 \<le> unat i then vec_resize (unat (i + 1)) es0 else es0)"
    using assms(3) by (auto simp: entries_for_def g split: if_splits)
  have lt: "i < tm_next_instance_id m" by (rule live_bound [OF assms(1,2)])
  then have s: "unat (i + 1) = unat i + 1" by (rule u32_less_Suc)
  have n: "unat i < unat (tm_next_instance_id m)" using lt by (simp add: word_less_nat_alt)
  show "unat i < length es" "length es \<le> unat (tm_next_instance_id m)" using w(2) n by (auto simp: es s vec_resize_def)
  show "tl_inv live m1" "value_of m1 = value_of m" "\<exists>es0. map_of (tm_chain m1) t = Some es0" "m1 = m\<lparr>tm_chain := tm_chain m1\<rparr>"
    using w v by (simp_all add: m1)
  show "(if unat j < length es then es ! unat j else None) = value_of m t j" for j
    using v by (auto simp: es s vec_resize_def nth_append)
qed

text \<open>\<open>tl_writes live t i p m m'\<close>: the value of instance \<open>i\<close> on thread \<open>t\<close> became \<open>p\<close> and nothing else changed.\<close>

definition tl_writes ::
  "u32 set \<Rightarrow> 't \<Rightarrow> u32 \<Rightarrow> 'p option \<Rightarrow> ('t, 'p, 'h) static_meta \<Rightarrow> ('t, 'p, 'h) static_meta \<Rightarrow> bool" where
  "tl_writes live t i p m m' \<longleftrightarrow> tl_inv live m'
     \<and> (\<forall>t' j. value_of m' t' j = (if t' = t \<and> j = i then p else value_of m t' j))
     \<and> (\<forall>j. GetHandler j m' = GetHandler j m) \<and> tm_unrefs m' = tm_unrefs m"

lemma write_entry:
  assumes "tl_inv live m" and "i \<in> live" and "entries_for t i m = (es, m1)"
  shows "tl_writes live t i p m (set_entries t (es[unat i := p]) m1)" and "es ! unat i = value_of m t i"
proof -
  note e = entries_for_ok [OF assms]
  obtain es0 where es0: "map_of (tm_chain m1) t = Some es0" using e(5) by blast
  have sel: "tm_unrefs m1 = tm_unrefs m" "\<And>j. GetHandler j m1 = GetHandler j m" "tm_next_instance_id m1 = tm_next_instance_id m"
    by (subst e(6), simp)+
  have dead: "value_of m t' j = None" if "j \<notin> live" for t' j using assms(1) that by (simp add: tl_inv_def)
  have "tl_inv live (set_entries t (es[unat i := p]) m1)"
  proof (rule set_entries_inv [OF e(3) es0])
    show "length (es[unat i := p]) \<le> unat (tm_next_instance_id m1)" using e(2) by (simp add: sel)
    show "es[unat i := p] ! unat j = None" if "j \<notin> live" "unat j < length (es[unat i := p])" for j
      using that e(1) dead [OF that(1), of t] e(7) [of j] assms(2) by (auto simp: nth_list_update word_unat_eq_iff [symmetric])
  qed
  moreover have "value_of (set_entries t (es[unat i := p]) m1) t' j = (if t' = t \<and> j = i then p else value_of m t' j)" for t' j
    using e(1,4) e(7) [of j] by (auto simp: set_entries_value [OF es0] nth_list_update word_unat_eq_iff [symmetric])
  moreover have "GetHandler j (set_entries t (es[unat i := p]) m1) = GetHandler j m" for j by (simp add: set_entries_def sel)
  ultimately show "tl_writes live t i p m (set_entries t (es[unat i := p]) m1)"
    unfolding tl_writes_def by (simp add: set_entries_def sel)
  show "es ! unat i = value_of m t i" using e(1) e(7) [of i] by simp
qed

lemma Reset_writes:
  assumes "tl_inv live m" and "i \<in> live" shows "\<exists>m'. tl_Reset t i p m = Some m' \<and> tl_writes live t i p m m'"
proof -
  obtain es m1 where e: "entries_for t i m = (es, m1)" by fastforce
  show ?thesis using entries_for_ok(1) [OF assms e] write_entry(1) [OF assms e] by (simp add: tl_Reset_def e)
qed

lemma Swap_writes:
  assumes "tl_inv live m" and "i \<in> live" shows "\<exists>m'. tl_Swap t i p m = Some (value_of m t i, m') \<and> tl_writes live t i p m m'"
proof -
  obtain es m1 where e: "entries_for t i m = (es, m1)" by fastforce
  show ?thesis using entries_for_ok(1) [OF assms e] write_entry [OF assms e] by (simp add: tl_Swap_def e)
qed

lemma CompareAndSwap_writes:
  assumes "tl_inv live m" and "i \<in> live"
  shows "\<exists>m'. tl_CompareAndSwap t i p x m = Some (value_of m t i = x, value_of m t i, m')
    \<and> tl_writes live t i (if value_of m t i = x then p else value_of m t i) m m'"
proof -
  obtain es m1 where e: "entries_for t i m = (es, m1)" by fastforce
  have "es[unat i := value_of m t i] = es" using write_entry(2) [OF assms e] by (metis list_update_id)
  then show ?thesis
    using entries_for_ok(1) [OF assms e] write_entry(2) [OF assms e] write_entry(1) [OF assms e, of p]
      write_entry(1) [OF assms e, of "value_of m t i"] by (auto simp: tl_CompareAndSwap_def e)
qed

lemma Get_reads:
  assumes "tl_inv live m"
  shows "\<exists>m'. tl_Get t i m = (value_of m t i, m') \<and> tl_inv live m' \<and> value_of m' = value_of m
    \<and> (\<forall>j. GetHandler j m' = GetHandler j m) \<and> tm_unrefs m' = tm_unrefs m"
proof -
  obtain es m1 where g: "GetThreadLocal t m = (es, m1)" by fastforce
  note v = GetThreadLocal_value [OF g]
  have "tm_unrefs m1 = tm_unrefs m" "\<And>j. GetHandler j m1 = GetHandler j m"
    by (subst conjunct1 [OF conjunct2 [OF conjunct2 [OF v]]], simp)+
  then show ?thesis using v GetThreadLocal_inv(1) [OF assms g] by (auto simp: tl_Get_def g)
qed

subsection \<open>Instances\<close>

lemma card_below: "card {i. i < (n :: u32)} = unat n"
proof -
  have "unat ` {i. i < n} = {..<unat n}"
  proof (intro equalityI subsetI)
    fix k assume k: "k \<in> {..<unat n}"
    then have "unat (of_nat k :: u32) = k" using less_trans [OF _ unat_u32_bound [of n]] by (intro unat_of_nat_u32) simp
    then show "k \<in> unat ` {i. i < n}" using k by (intro image_eqI [of _ _ "of_nat k"]) (auto simp: word_less_nat_alt)
  qed (auto simp: word_less_nat_alt)
  moreover have "inj_on unat {i. i < n}" by (auto simp: inj_on_def word_unat_eq_iff)
  ultimately show ?thesis using card_image [of unat "{i. i < n}"] by simp
qed

lemma GetId_fresh:
  assumes "tl_inv live m" and "card live < 4294967295"
  shows "\<exists>i m1. GetId m = Some (i, m1) \<and> i \<notin> live \<and> tl_inv (insert i live) m1 \<and> value_of m1 = value_of m
    \<and> (\<forall>j. GetHandler j m1 = GetHandler j m) \<and> tm_unrefs m1 = tm_unrefs m"
proof -
  let ?f = "tm_free_instance_ids m" and ?n = "tm_next_instance_id m"
  have inv: "av_wf ?f" "distinct (av_list ?f)" "live \<inter> set (av_list ?f) = {}" "live \<union> set (av_list ?f) = {i. i < ?n}"
    using assms(1) by (simp_all add: tl_inv_def)
  show ?thesis
  proof (cases "av_list ?f = []")
    case True
    then have l: "live = {i. i < ?n}" using inv(4) by simp
    then have b: "unat ?n < 4294967295" using assms(2) card_below [of ?n] by simp
    then have s: "unat (?n + 1) = unat ?n + 1" by (simp add: unat_word_ariths take_bit_nat_def)
    have "insert ?n live = {i. i < ?n + 1}" unfolding l using s by (auto simp: word_less_nat_alt word_unat_eq_iff)
    then have "tl_inv (insert ?n live) (m\<lparr>tm_next_instance_id := ?n + 1\<rparr>)"
      using assms(1) True s unfolding tl_inv_def value_of_def GetHandler_def by (fastforce simp: l)
    then show ?thesis using True inv(1) l by (auto simp: GetId_def av_empty_list value_of_def fun_eq_iff GetHandler_def)
  next
    case False
    then obtain f' where f': "av_pop_back ?f = Some f'" "av_wf f'" "av_list f' = butlast (av_list ?f)" using av_pop_list [OF inv(1)] by blast
    obtain xs i where a: "av_list ?f = xs @ [i]" using False by (metis rev_exhaust)
    have x: "av_list f' = xs" by (simp add: f'(3) a)
    have d: "distinct (av_list f')" "i \<notin> set (av_list f')" "i \<notin> live" "live \<inter> set (av_list f') = {}"
      "insert i live \<union> set (av_list f') = {i. i < ?n}"
      using inv(2,3,4) unfolding a x by auto
    have g: "GetId m = Some (i, m\<lparr>tm_free_instance_ids := f'\<rparr>)"
      using inv(1) f'(1) by (simp add: GetId_def av_empty_list av_back_list a)
    have "tl_inv (insert i live) (m\<lparr>tm_free_instance_ids := f'\<rparr>)"
      using assms(1) d f'(2) unfolding tl_inv_def value_of_def GetHandler_def by simp
    then show ?thesis using g d(3) by (auto simp: value_of_def fun_eq_iff GetHandler_def)
  qed
qed

lemma New_fresh:
  assumes "tl_inv live m" and "card live < 4294967295"
  shows "\<exists>i m1. ThreadLocalPtr h m = Some (i, m1) \<and> i \<notin> live \<and> tl_inv (insert i live) m1 \<and> value_of m1 = value_of m
    \<and> (\<forall>j. GetHandler j m1 = (if j = i then h else GetHandler j m)) \<and> tm_unrefs m1 = tm_unrefs m"
proof -
  obtain i m1 where g: "GetId m = Some (i, m1)" "i \<notin> live" "tl_inv (insert i live) m1" "value_of m1 = value_of m"
    "\<forall>j. GetHandler j m1 = GetHandler j m" "tm_unrefs m1 = tm_unrefs m" using GetId_fresh [OF assms] by blast
  show ?thesis
  proof (cases h)
    case None
    have "GetHandler i m = None" using assms(1) g(2) by (simp add: tl_inv_def)
    then show ?thesis using g None by (auto simp: ThreadLocalPtr_def)
  next
    case (Some f)
    have h: "GetHandler j (SetHandler i (Some f) m1) = (if j = i then Some f else GetHandler j m1)" for j
      by (simp add: GetHandler_def SetHandler_def)
    have v: "value_of (SetHandler i (Some f) m1) = value_of m1" by (simp add: value_of_def SetHandler_def fun_eq_iff)
    have "tl_inv (insert i live) (SetHandler i (Some f) m1)"
      using g(3) unfolding tl_inv_def h v by (simp add: SetHandler_def)
    then show ?thesis using g h v Some by (simp add: ThreadLocalPtr_def) (simp add: SetHandler_def)
  qed
qed

subsection \<open>Handlers\<close>

lemma mset_concat_if: "mset (concat (map (\<lambda>x. if P x then [g x] else []) xs)) = image_mset g (filter_mset P (mset xs))"
  by (induction xs) auto

text \<open>The calls owed for the values of an instance, and for the values of a thread.\<close>

definition owed_instance :: "('t \<Rightarrow> u32 \<Rightarrow> 'p option) \<Rightarrow> u32 \<Rightarrow> 'h option \<Rightarrow> ('h \<times> 'p) multiset" where
  "owed_instance val i h = (case h of None \<Rightarrow> {#}
     | Some f \<Rightarrow> image_mset (\<lambda>t. (f, the (val t i))) (mset_set {t. val t i \<noteq> None}))"

definition owed_thread :: "(u32 \<Rightarrow> 'p option) \<Rightarrow> (u32 \<Rightarrow> 'h option) \<Rightarrow> ('h \<times> 'p) multiset" where
  "owed_thread val hs = image_mset (\<lambda>i. (the (hs i), the (val i))) (mset_set {i. val i \<noteq> None \<and> hs i \<noteq> None})"

lemma reclaim_calls_owed:
  assumes "distinct (map fst (tm_chain m))"
  shows "mset (reclaim_calls i h (tm_chain m)) = owed_instance (value_of m) i h"
proof (cases h)
  case None
  have "reclaim_calls i None c = []" for c :: "('a \<times> 'b option list) list"
    by (induction c) (auto simp: reclaim_calls_def unref_call_def)
  then show ?thesis by (simp add: None owed_instance_def)
next
  case (Some f)
  let ?c = "tm_chain m" and ?P = "\<lambda>t. value_of m t i \<noteq> None" and ?g = "\<lambda>t. (f, the (value_of m t i))"
  have e: "(if unat i < length es then unref_call h (es ! unat i) else []) = (if ?P t then [?g t] else [])"
    if "(t, es) \<in> set ?c" for t es
  proof -
    have "map_of ?c t = Some es" using that assms by (simp add: map_of_eq_Some_iff)
    then show ?thesis by (auto simp: value_of_def unref_call_def Some split: option.splits)
  qed
  have "reclaim_calls i h ?c = concat (map (\<lambda>t. if ?P t then [?g t] else []) (map fst ?c))"
    unfolding reclaim_calls_def map_map comp_def by (intro arg_cong [where f = concat] map_cong refl) (use e in auto)
  then have "mset (reclaim_calls i h ?c) = image_mset ?g (filter_mset ?P (mset (map fst ?c)))" by (simp only: mset_concat_if)
  moreover have "filter_mset ?P (mset (map fst ?c)) = mset_set {t. ?P t}"
  proof -
    have "filter_mset ?P (mset (map fst ?c)) = mset_set {t \<in> set (map fst ?c). ?P t}"
      using assms by (simp only: mset_set_set [symmetric] filter_mset_mset_set List.finite_set)
    moreover have "?P t \<Longrightarrow> t \<in> set (map fst ?c)" for t
      by (auto simp: value_of_def split: option.splits if_splits dest: map_of_SomeD intro: rev_image_eqI)
    ultimately show ?thesis by (metis (mono_tags, lifting) Collect_cong)
  qed
  ultimately show ?thesis by (simp add: owed_instance_def Some)
qed

lemma exit_calls_eq: "exit_calls m i es = concat (map (\<lambda>n. unref_call (GetHandler (i + of_nat n) m) (es ! n)) [0..<length es])"
proof (induction es arbitrary: i)
  case (Cons e es)
  have "[0..<length (e # es)] = 0 # map Suc [0..<length es]" by (simp add: upt_conv_Cons map_Suc_upt del: upt_Suc)
  then show ?case using Cons [of "i + 1"] by (simp add: comp_def add.assoc)
qed simp

lemma exit_calls_owed:
  assumes "tl_inv live m" and "map_of (tm_chain m) t = Some es"
  shows "mset (exit_calls m 0 es) = owed_thread (value_of m t) (\<lambda>i. GetHandler i m)"
proof -
  let ?P = "\<lambda>i. value_of m t i \<noteq> None \<and> GetHandler i m \<noteq> None" and ?g = "\<lambda>i. (the (GetHandler i m), the (value_of m t i))"
  have "length es \<le> unat (tm_next_instance_id m)" using assms by (auto simp: tl_inv_def dest: map_of_SomeD)
  then have b: "length es < 4294967296" using unat_u32_bound le_less_trans by blast
  then have u: "unat (of_nat n :: u32) = n" if "n < length es" for n using that by (intro unat_of_nat_u32) simp
  have v: "value_of m t (of_nat n) = es ! n" if "n < length es" for n using that assms(2) by (simp add: value_of_def u)
  have "exit_calls m 0 es = concat (map (\<lambda>n. if ?P (of_nat n) then [?g (of_nat n)] else []) [0..<length es])"
    unfolding exit_calls_eq by (intro arg_cong [where f = concat] map_cong refl)
      (auto simp: v unref_call_def split: option.splits)
  then have "mset (exit_calls m 0 es) = image_mset (\<lambda>n. ?g (of_nat n)) (filter_mset (\<lambda>n. ?P (of_nat n)) (mset [0..<length es]))"
    by (simp only: mset_concat_if)
  also have "filter_mset (\<lambda>n. ?P (of_nat n)) (mset [0..<length es]) = mset_set {n. n < length es \<and> ?P (of_nat n)}"
    by (simp add: mset_set_set [symmetric] filter_mset_mset_set del: mset_upt)
  also have "image_mset (\<lambda>n. ?g (of_nat n)) \<dots> = image_mset ?g (image_mset of_nat \<dots>)" by (simp add: image_mset.compositionality comp_def)
  also have "image_mset (of_nat :: nat \<Rightarrow> u32) (mset_set {n. n < length es \<and> ?P (of_nat n)}) = mset_set (of_nat ` {n. n < length es \<and> ?P (of_nat n)})"
    by (rule image_mset_mset_set) (auto simp: inj_on_def dest: arg_cong [where f = "unat :: u32 \<Rightarrow> nat"] simp: u)
  also have "of_nat ` {n. n < length es \<and> ?P (of_nat n)} = {i. ?P i}"
    using assms(2) by (auto simp: value_of_def split: if_splits intro!: image_eqI [of _ _ "unat _"])
  finally show ?thesis by (simp add: owed_thread_def)
qed

lemma map_of_map_snd: "map_of (map (\<lambda>(t, es). (t, f es)) c) t = map_option f (map_of c t)"
  by (induction c) auto

lemma Reclaim_spec:
  assumes "tl_inv live m" and "i \<in> live"
  shows "tl_inv (live - {i}) (ReclaimId i m)"
    and "value_of (ReclaimId i m) t j = (if j = i then None else value_of m t j)"
    and "GetHandler j (ReclaimId i m) = (if j = i then None else GetHandler j m)"
    and "mset (tm_unrefs (ReclaimId i m)) = mset (tm_unrefs m) + owed_instance (value_of m) i (GetHandler i m)"
proof -
  let ?f = "tm_free_instance_ids m" and ?m = "ReclaimId i m"
  let ?e = "\<lambda>es. if unat i < length es then es[unat i := None] else es :: 'b option list"
  have inv: "av_wf ?f" "distinct (av_list ?f)" "live \<inter> set (av_list ?f) = {}" "live \<union> set (av_list ?f) = {i. i < tm_next_instance_id m}"
    "distinct (map fst (tm_chain m))" using assms(1) by (simp_all add: tl_inv_def)
  have c: "tm_chain ?m = map (\<lambda>(t, es). (t, ?e es)) (tm_chain m)" by (simp add: ReclaimId_def)
  have v: "value_of ?m t j = (if j = i then None else value_of m t j)" for t j
    unfolding value_of_def c map_of_map_snd
    by (auto simp: nth_list_update word_unat_eq_iff split: option.splits)
  have h: "GetHandler j ?m = (if j = i then None else GetHandler j m)" for j by (simp add: GetHandler_def ReclaimId_def)
  show "value_of ?m t j = (if j = i then None else value_of m t j)" "GetHandler j ?m = (if j = i then None else GetHandler j m)"
    by (fact v, fact h)
  show "mset (tm_unrefs ?m) = mset (tm_unrefs m) + owed_instance (value_of m) i (GetHandler i m)"
    using reclaim_calls_owed [OF inv(5)] by (simp add: ReclaimId_def)
  have "map fst (tm_chain ?m) = map fst (tm_chain m)" unfolding c by auto
  moreover have "\<forall>(t, es)\<in>set (tm_chain ?m). length es \<le> unat (tm_next_instance_id m)"
    using assms(1) unfolding c tl_inv_def by auto
  moreover have "av_wf (av_push_back i ?f)" "av_list (av_push_back i ?f) = av_list ?f @ [i]" by (rule av_push_list [OF inv(1)])+
  moreover have "i \<notin> set (av_list ?f)" "(live - {i}) \<union> insert i (set (av_list ?f)) = {i. i < tm_next_instance_id m}"
    using inv(3,4) assms(2) by auto
  moreover have "tm_next_instance_id ?m = tm_next_instance_id m" "tm_free_instance_ids ?m = av_push_back i ?f" by (simp_all add: ReclaimId_def)
  ultimately show "tl_inv (live - {i}) ?m"
    using assms(1) inv(2,3,5) unfolding tl_inv_def v h by auto
qed

lemma Exit_spec:
  assumes "tl_inv live m"
  shows "tl_inv live (OnThreadExit t m)"
    and "value_of (OnThreadExit t m) t' j = (if t' = t then None else value_of m t' j)"
    and "GetHandler j (OnThreadExit t m) = GetHandler j m"
    and "mset (tm_unrefs (OnThreadExit t m)) = mset (tm_unrefs m) + owed_thread (value_of m t) (\<lambda>i. GetHandler i m)"
proof -
  let ?m = "OnThreadExit t m"
  have f: "map_of (filter (\<lambda>d. fst d \<noteq> t) c) t' = (if t' = t then None else map_of c t')" for c :: "('a \<times> 'b option list) list" and t'
    by (induction c) auto
  have v: "value_of ?m t' j = (if t' = t then None else value_of m t' j)" for t' j
    by (auto simp: OnThreadExit_def RemoveThreadData_def value_of_def f split: option.splits)
  have h: "GetHandler j ?m = GetHandler j m" for j
    by (simp add: OnThreadExit_def RemoveThreadData_def GetHandler_def split: option.splits)
  show "value_of ?m t' j = (if t' = t then None else value_of m t' j)" "GetHandler j ?m = GetHandler j m"
    by (fact v, fact h)
  show "mset (tm_unrefs ?m) = mset (tm_unrefs m) + owed_thread (value_of m t) (\<lambda>i. GetHandler i m)"
  proof (cases "map_of (tm_chain m) t")
    case None
    then have "value_of m t = (\<lambda>i. None)" by (simp add: value_of_def fun_eq_iff)
    then show ?thesis using None by (simp add: OnThreadExit_def owed_thread_def)
  next
    case (Some es)
    then show ?thesis using exit_calls_owed [OF assms Some] by (simp add: OnThreadExit_def)
  qed
  have "tm_chain ?m = filter (\<lambda>d. fst d \<noteq> t) (tm_chain m) \<or> tm_chain ?m = tm_chain m"
    by (simp add: OnThreadExit_def RemoveThreadData_def split: option.splits)
  then have "distinct (map fst (tm_chain ?m))" "set (tm_chain ?m) \<subseteq> set (tm_chain m)"
    using assms by (auto simp: tl_inv_def distinct_map_filter)
  moreover have "tm_next_instance_id ?m = tm_next_instance_id m" "tm_free_instance_ids ?m = tm_free_instance_ids m"
    by (simp_all add: OnThreadExit_def RemoveThreadData_def split: option.splits)
  ultimately show "tl_inv live ?m" using assms unfolding tl_inv_def v h by auto
qed

subsection \<open>Scrape\<close>

lemma scrape_loop_result:
  "av_wf ptrs \<Longrightarrow> scrape_loop i r c ptrs = (ptrs', c') \<Longrightarrow>
     c' = map (\<lambda>(t, es). (t, if unat i < length es then es[unat i := r] else es)) c
     \<and> av_wf ptrs' \<and> av_list ptrs' = av_list ptrs @ concat (map (\<lambda>(t, es). if unat i < length es then
         (case es ! unat i of None \<Rightarrow> [] | Some p \<Rightarrow> [p]) else []) c)"
proof (induction c arbitrary: ptrs ptrs' c')
  case (Cons d c)
  obtain t es where d: "d = (t, es)" by fastforce
  let ?p = "if unat i < length es then (case es ! unat i of None \<Rightarrow> ptrs | Some p \<Rightarrow> av_push_back p ptrs) else ptrs"
  let ?l = "if unat i < length es then (case es ! unat i of None \<Rightarrow> [] | Some p \<Rightarrow> [p]) else []"
  obtain p2 c2 where s: "scrape_loop i r c ?p = (p2, c2)" by fastforce
  have p: "av_wf ?p" "av_list ?p = av_list ptrs @ ?l" using Cons(2) av_push_list [OF Cons(2)] by (auto split: option.splits)
  have r: "ptrs' = p2" "c' = (t, if unat i < length es then es[unat i := r] else es) # c2"
    using Cons(3) s by (auto simp: d Let_def split: if_splits)
  show ?case using Cons(1) [OF p(1) s] p(2) r by (simp add: d)
qed simp

lemma Scrape_spec:
  assumes "tl_inv live m" and "i \<in> live" and "tl_Scrape i av_new r m = (ptrs, m')"
  shows "tl_inv live m'" and "tm_unrefs m' = tm_unrefs m" and "GetHandler j m' = GetHandler j m"
    and "mset (av_list ptrs) = image_mset (\<lambda>t. the (value_of m t i)) (mset_set {t. value_of m t i \<noteq> None})"
    and "j \<noteq> i \<Longrightarrow> value_of m' t j = value_of m t j" and "value_of m t i \<noteq> None \<Longrightarrow> value_of m' t i = r"
    and "value_of m' t i \<in> {None, r}"
proof -
  obtain c' where s: "scrape_loop i r (tm_chain m) av_new = (ptrs, c')" and m': "m' = m\<lparr>tm_chain := c'\<rparr>"
    using assms(3) by (auto simp: tl_Scrape_def split: prod.splits)
  note l = scrape_loop_result [OF av_new_wf(1) s]
  let ?e = "\<lambda>es. if unat i < length es then es[unat i := r] else es"
  have c: "c' = map (\<lambda>(t, es). (t, ?e es)) (tm_chain m)" using l by blast
  show "tm_unrefs m' = tm_unrefs m" "GetHandler j m' = GetHandler j m" by (simp_all add: m')
  have v: "value_of m' t j = (case map_of (tm_chain m) t of None \<Rightarrow> None | Some es \<Rightarrow>
      if unat j < length es then if j = i then r else es ! unat j else None)" for t j
    unfolding value_of_def m' by (auto simp: c map_of_map_snd nth_list_update word_unat_eq_iff split: option.splits)
  show "value_of m t i \<noteq> None \<Longrightarrow> value_of m' t i = r" "value_of m' t i \<in> {None, r}"
    unfolding v by (auto simp: value_of_def split: option.splits if_splits)
  have o: "value_of m' t j = value_of m t j" if "j \<noteq> i" for t j using that unfolding v by (simp add: value_of_def split: option.splits)
  then show "j \<noteq> i \<Longrightarrow> value_of m' t j = value_of m t j" .
  have d: "distinct (map fst (tm_chain m))" using assms(1) by (simp add: tl_inv_def)
  have "mset (reclaim_calls i (Some ()) (tm_chain m)) = owed_instance (value_of m) i (Some ())" by (rule reclaim_calls_owed [OF d])
  moreover have "map snd (reclaim_calls i (Some ()) c) = concat (map (\<lambda>(t, es). if unat i < length es then
         (case es ! unat i of None \<Rightarrow> [] | Some p \<Rightarrow> [p]) else []) c)" for c :: "('a \<times> 'b option list) list"
    by (induction c) (auto simp: reclaim_calls_def unref_call_def split: option.splits)
  ultimately have "mset (av_list ptrs) = image_mset snd (owed_instance (value_of m) i (Some ()))"
    using l by (metis (no_types, lifting) append_Nil av_new_wf(2) mset_map)
  then show "mset (av_list ptrs) = image_mset (\<lambda>t. the (value_of m t i)) (mset_set {t. value_of m t i \<noteq> None})"
    by (simp add: owed_instance_def image_mset.compositionality comp_def)
  have "map fst c' = map fst (tm_chain m)" unfolding c by auto
  moreover have "\<forall>(t, es)\<in>set c'. length es \<le> unat (tm_next_instance_id m)" using assms(1) unfolding c tl_inv_def by auto
  moreover have "value_of m' t j = None" if "j \<notin> live" for t j
    using o [of j t] that assms(1,2) by (auto simp: tl_inv_def)
  ultimately show "tl_inv live m'" using assms(1) unfolding tl_inv_def by (simp add: m')
qed

subsection \<open>The specification\<close>

text \<open>A table of values by thread and instance, the instances that exist, their handlers, and the calls handlers have received.\<close>

record ('t, 'p, 'h) tl_table =
  tb_live :: "u32 set"
  tb_value :: "'t \<Rightarrow> u32 \<Rightarrow> 'p option"
  tb_handler :: "u32 \<Rightarrow> 'h option"
  tb_calls :: "('h \<times> 'p) multiset"

datatype ('t, 'p, 'h) tl_op = TNew "'h option" | TDestroy u32 | TGet 't u32 | TReset 't u32 "'p option" | TSwap 't u32 "'p option"
  | TCas 't u32 "'p option" "'p option" | TScrape u32 "'p option" | TExit 't

datatype 'p tl_result = TUnit | TId u32 | TPtr "'p option" | TBool bool "'p option" | TPtrs "'p list"

fun tl_step :: "('t, 'p, 'h) tl_op \<Rightarrow> ('t, 'p, 'h) static_meta \<Rightarrow> ('p tl_result \<times> ('t, 'p, 'h) static_meta) option" where
  "tl_step (TNew h) m = map_option (\<lambda>(i, m'). (TId i, m')) (ThreadLocalPtr h m)"
| "tl_step (TDestroy i) m = Some (TUnit, ThreadLocalPtr_destroy i m)"
| "tl_step (TGet t i) m = (let (p, m') = tl_Get t i m in Some (TPtr p, m'))"
| "tl_step (TReset t i p) m = map_option (Pair TUnit) (tl_Reset t i p m)"
| "tl_step (TSwap t i p) m = map_option (\<lambda>(q, m'). (TPtr q, m')) (tl_Swap t i p m)"
| "tl_step (TCas t i p x) m = map_option (\<lambda>(b, q, m'). (TBool b q, m')) (tl_CompareAndSwap t i p x m)"
| "tl_step (TScrape i r) m = (let (ps, m') = tl_Scrape i av_new r m in Some (TPtrs (av_list ps), m'))"
| "tl_step (TExit t) m = Some (TUnit, OnThreadExit t m)"

text \<open>What each operation may do to the table. \<^verbatim>\<open>Scrape\<close> replaces every value, and may leave a thread that has none without one.\<close>

definition put_value :: "'t \<Rightarrow> u32 \<Rightarrow> 'p option \<Rightarrow> ('t, 'p, 'h) tl_table \<Rightarrow> ('t, 'p, 'h) tl_table" where
  "put_value t i p a = a\<lparr>tb_value := (tb_value a)(t := (tb_value a t)(i := p))\<rparr>"

inductive tl_spec :: "('t, 'p, 'h) tl_op \<Rightarrow> 'p tl_result \<Rightarrow> ('t, 'p, 'h) tl_table \<Rightarrow> ('t, 'p, 'h) tl_table \<Rightarrow> bool" where
  spec_new: "i \<notin> tb_live a \<Longrightarrow> (\<And>t. tb_value a t i = None) \<Longrightarrow>
    tl_spec (TNew h) (TId i) a (a\<lparr>tb_live := insert i (tb_live a), tb_handler := (tb_handler a)(i := h)\<rparr>)"
| spec_destroy: "tl_spec (TDestroy i) TUnit a
    (a\<lparr>tb_live := tb_live a - {i}, tb_value := \<lambda>t. (tb_value a t)(i := None), tb_handler := (tb_handler a)(i := None),
       tb_calls := tb_calls a + owed_instance (tb_value a) i (tb_handler a i)\<rparr>)"
| spec_get: "tl_spec (TGet t i) (TPtr (tb_value a t i)) a a"
| spec_reset: "tl_spec (TReset t i p) TUnit a (put_value t i p a)"
| spec_swap: "tl_spec (TSwap t i p) (TPtr (tb_value a t i)) a (put_value t i p a)"
| spec_cas: "tl_spec (TCas t i p x) (TBool (tb_value a t i = x) (tb_value a t i)) a
    (if tb_value a t i = x then put_value t i p a else a)"
| spec_scrape: "mset ps = image_mset (\<lambda>t. the (tb_value a t i)) (mset_set {t. tb_value a t i \<noteq> None}) \<Longrightarrow>
    (\<And>t j. j \<noteq> i \<Longrightarrow> val' t j = tb_value a t j) \<Longrightarrow>
    (\<And>t. tb_value a t i \<noteq> None \<Longrightarrow> val' t i = r) \<Longrightarrow> (\<And>t. val' t i \<in> {None, r}) \<Longrightarrow>
    tl_spec (TScrape i r) (TPtrs ps) a (a\<lparr>tb_value := val'\<rparr>)"
| spec_exit: "tl_spec (TExit t) TUnit a
    (a\<lparr>tb_value := (tb_value a)(t := \<lambda>_. None), tb_calls := tb_calls a + owed_thread (tb_value a t) (tb_handler a)\<rparr>)"

inductive_simps tl_spec_simps [simp]:
  "tl_spec (TNew h) r a a'" "tl_spec (TDestroy i) r a a'" "tl_spec (TGet t i) r a a'" "tl_spec (TReset t i p) r a a'"
  "tl_spec (TSwap t i p) r a a'" "tl_spec (TCas t i p x) r a a'" "tl_spec (TExit t) r a a'"

text \<open>Clients use instances that exist, and create at most \<open>2 ^ 32 - 1\<close> of them at a time.\<close>

fun tl_allowed :: "('t, 'p, 'h) tl_op \<Rightarrow> u32 set \<Rightarrow> bool" where
  "tl_allowed (TNew h) live \<longleftrightarrow> card live < 4294967295"
| "tl_allowed (TDestroy i) live \<longleftrightarrow> i \<in> live"
| "tl_allowed (TGet t i) live \<longleftrightarrow> i \<in> live"
| "tl_allowed (TReset t i p) live \<longleftrightarrow> i \<in> live"
| "tl_allowed (TSwap t i p) live \<longleftrightarrow> i \<in> live"
| "tl_allowed (TCas t i p x) live \<longleftrightarrow> i \<in> live"
| "tl_allowed (TScrape i r) live \<longleftrightarrow> i \<in> live"
| "tl_allowed (TExit t) live \<longleftrightarrow> True"

definition tl_table_of :: "u32 set \<Rightarrow> ('t, 'p, 'h) static_meta \<Rightarrow> ('t, 'p, 'h) tl_table" where
  "tl_table_of live m = \<lparr>tb_live = live, tb_value = value_of m, tb_handler = (\<lambda>i. GetHandler i m), tb_calls = mset (tm_unrefs m)\<rparr>"

lemma table_put: "tl_writes live t i p m m' \<Longrightarrow> put_value t i p (tl_table_of live m) = tl_table_of live m'"
  by (auto simp: tl_writes_def tl_table_of_def put_value_def fun_eq_iff)

lemma tl_refines:
  assumes inv: "tl_inv live m" and ok: "tl_allowed op live"
  shows "\<exists>r m' live'. tl_step op m = Some (r, m') \<and> tl_inv live' m' \<and> tl_spec op r (tl_table_of live m) (tl_table_of live' m')"
proof (cases op)
  case (TNew h)
  then have "card live < 4294967295" using ok by simp
  from New_fresh [OF inv this, of h] obtain i m1 where "ThreadLocalPtr h m = Some (i, m1)" "i \<notin> live" "tl_inv (insert i live) m1" "value_of m1 = value_of m"
    "\<forall>j. GetHandler j m1 = (if j = i then h else GetHandler j m)" "tm_unrefs m1 = tm_unrefs m"
    by blast
  then show ?thesis using TNew inv
    by (intro exI [of _ "TId i"] exI [of _ m1] exI [of _ "insert i live"]) (auto simp: tl_table_of_def fun_eq_iff tl_inv_def)
next
  case (TDestroy i)
  then show ?thesis using Reclaim_spec [OF inv, of i] ok
    by (intro exI [of _ TUnit] exI [of _ "ReclaimId i m"] exI [of _ "live - {i}"])
      (auto simp: tl_table_of_def ThreadLocalPtr_destroy_def fun_eq_iff)
next
  case (TGet t i)
  obtain m' where "tl_Get t i m = (value_of m t i, m')" "tl_inv live m'" "value_of m' = value_of m"
    "\<forall>j. GetHandler j m' = GetHandler j m" "tm_unrefs m' = tm_unrefs m" using Get_reads [OF inv] by metis
  then show ?thesis using TGet
    by (intro exI [of _ "TPtr (value_of m t i)"] exI [of _ m'] exI [of _ live]) (auto simp: tl_table_of_def)
next
  case (TReset t i p)
  then obtain m' where m': "tl_Reset t i p m = Some m'" "tl_writes live t i p m m'" using Reset_writes [OF inv] ok by fastforce
  then show ?thesis using TReset table_put [OF m'(2)] by (auto simp: tl_writes_def)
next
  case (TSwap t i p)
  then obtain m' where m': "tl_Swap t i p m = Some (value_of m t i, m')" "tl_writes live t i p m m'"
    using Swap_writes [OF inv] ok by fastforce
  then show ?thesis using TSwap table_put [OF m'(2)]
    by (intro exI [of _ "TPtr (value_of m t i)"] exI [of _ m'] exI [of _ live]) (auto simp: tl_writes_def tl_table_of_def [of live m])
next
  case (TCas t i p x)
  then obtain m' where m': "tl_CompareAndSwap t i p x m = Some (value_of m t i = x, value_of m t i, m')"
    "tl_writes live t i (if value_of m t i = x then p else value_of m t i) m m'"
    using CompareAndSwap_writes [OF inv] ok by fastforce
  have "put_value t i (value_of m t i) (tl_table_of live m) = tl_table_of live m"
    by (simp add: put_value_def tl_table_of_def)
  then show ?thesis using TCas m' table_put [OF m'(2)]
    by (intro exI [of _ "TBool (value_of m t i = x) (value_of m t i)"] exI [of _ m'] exI [of _ live])
      (auto simp: tl_writes_def tl_table_of_def [of live m] split: if_splits)
next
  case (TScrape i r)
  obtain ps m' where s: "tl_Scrape i av_new r m = (ps, m')" by fastforce
  have l: "i \<in> live" using ok TScrape by simp
  note f = Scrape_spec [OF inv l s]
  have "tl_spec (TScrape i r) (TPtrs (av_list ps)) (tl_table_of live m) ((tl_table_of live m)\<lparr>tb_value := value_of m'\<rparr>)"
    by (rule spec_scrape) (use f in \<open>simp_all add: tl_table_of_def\<close>)
  moreover have "(tl_table_of live m)\<lparr>tb_value := value_of m'\<rparr> = tl_table_of live m'"
    using f(2,3) by (simp add: tl_table_of_def fun_eq_iff)
  ultimately show ?thesis using TScrape s f(1) by auto
next
  case (TExit t)
  then show ?thesis using Exit_spec [OF inv, where t = t]
    by (intro exI [of _ TUnit] exI [of _ "OnThreadExit t m"] exI [of _ live]) (auto simp: tl_table_of_def fun_eq_iff)
qed

end
