(* ===== verification/Mem_Pool.thy ===== *)
theory Mem_Pool
  imports Prelude
begin

text \<open>
  The memory pools of \<^verbatim>\<open>include/zlog/mempool/mempool.h\<close> and \<^verbatim>\<open>util/mempool.cc\<close> that account for the memory of the cache: 32 shards of unsigned
  counters, one picked by the thread, and the list of types. The memory itself comes from the system allocator; a failing allocation
  is the argument \<open>ok = False\<close>. \<^const>\<open>None\<close> is a failed assertion.
\<close>

unbundle bit_operations_syntax

definition num_shards :: nat where "num_shards = 32"

record shard =
  sh_bytes :: u64
  sh_items :: u64

record mem_type =
  mt_item_size :: u64
  mt_items :: u64

record pool =
  pl_shards :: "shard list"
  pl_type_map :: "(string \<times> mem_type) list"

definition pool_new :: pool where
  "pool_new = \<lparr>pl_shards = replicate num_shards \<lparr>sh_bytes = 0, sh_items = 0\<rparr>, pl_type_map = []\<rparr>"

text \<open>The shard of a thread; \<open>me\<close> is \<^verbatim>\<open>pthread_self()\<close>.\<close>

definition pick_a_shard :: "u64 \<Rightarrow> nat" where
  "pick_a_shard me = unat (drop_bit 3 me AND 31)"

text \<open>The loops that sum up the shards, with the result as a signed number.\<close>

definition allocated_bytes :: "pool \<Rightarrow> u64 option" where
  "allocated_bytes pl = (let result = fold (\<lambda>s r. r + sh_bytes s) (pl_shards pl) 0 in if 0 \<le> sint result then Some result else None)"

definition allocated_items :: "pool \<Rightarrow> u64 option" where
  "allocated_items pl = (let result = fold (\<lambda>s r. r + sh_items s) (pl_shards pl) 0 in if 0 \<le> sint result then Some result else None)"

definition adjust_count :: "u64 \<Rightarrow> u64 \<Rightarrow> u64 \<Rightarrow> pool \<Rightarrow> pool" where
  "adjust_count me items bytes pl =
     (let i = pick_a_shard me; s = pl_shards pl ! i
      in pl\<lparr>pl_shards := (pl_shards pl)[i := s\<lparr>sh_items := sh_items s + items, sh_bytes := sh_bytes s + bytes\<rparr>]\<rparr>)"

definition get_type :: "string \<Rightarrow> u64 \<Rightarrow> pool \<Rightarrow> pool" where
  "get_type name item_size pl =
     (case map_of (pl_type_map pl) name of
        Some t \<Rightarrow> pl
      | None \<Rightarrow> pl\<lparr>pl_type_map := um_put name \<lparr>mt_item_size = item_size, mt_items = 0\<rparr> (pl_type_map pl)\<rparr>)"

text \<open>An allocator: the size of its elements and the name of its type when it is registered.\<close>

record pool_allocator =
  pa_elem_size :: u64
  pa_type :: "string option"

definition allocator_init :: "bool \<Rightarrow> bool \<Rightarrow> string \<Rightarrow> u64 \<Rightarrow> pool \<Rightarrow> pool_allocator \<times> pool" where
  "allocator_init debug_mode force_register name elem_size pl =
     (if debug_mode \<or> force_register
      then (\<lparr>pa_elem_size = elem_size, pa_type = Some name\<rparr>, get_type name elem_size pl)
      else (\<lparr>pa_elem_size = elem_size, pa_type = None\<rparr>, pl))"

definition add_type_items :: "string option \<Rightarrow> u64 \<Rightarrow> pool \<Rightarrow> pool" where
  "add_type_items ty n pl =
     (case ty of
        None \<Rightarrow> pl
      | Some name \<Rightarrow>
          (case map_of (pl_type_map pl) name of
             None \<Rightarrow> pl
           | Some t \<Rightarrow> pl\<lparr>pl_type_map := um_put name (t\<lparr>mt_items := mt_items t + n\<rparr>) (pl_type_map pl)\<rparr>))"

definition pool_allocate :: "u64 \<Rightarrow> pool_allocator \<Rightarrow> u64 \<Rightarrow> pool \<Rightarrow> pool" where
  "pool_allocate me a n pl = add_type_items (pa_type a) n (adjust_count me n (pa_elem_size a * n) pl)"

definition pool_deallocate :: "u64 \<Rightarrow> pool_allocator \<Rightarrow> u64 \<Rightarrow> pool \<Rightarrow> pool" where
  "pool_deallocate me a n pl = add_type_items (pa_type a) (- n) (adjust_count me (- n) (- (pa_elem_size a * n)) pl)"

text \<open>The counters are raised before the memory is asked for, also when there is none.\<close>

definition allocate_aligned :: "bool \<Rightarrow> u64 \<Rightarrow> pool_allocator \<Rightarrow> u64 \<Rightarrow> pool \<Rightarrow> bool \<times> pool" where
  "allocate_aligned ok me a n pl = (ok, pool_allocate me a n pl)"

definition deallocate_aligned :: "u64 \<Rightarrow> pool_allocator \<Rightarrow> u64 \<Rightarrow> pool \<Rightarrow> pool" where
  "deallocate_aligned me a n pl = pool_deallocate me a n pl"

record mem_stats =
  ms_items :: u64
  ms_bytes :: u64

text \<open>\<open>demangle\<close> is the readable name of a type, computed by the C++ runtime.\<close>

definition get_stats ::
  "(string \<Rightarrow> string) \<Rightarrow> bool \<Rightarrow> mem_stats \<Rightarrow> (string \<times> mem_stats) list \<Rightarrow> pool \<Rightarrow> mem_stats \<times> (string \<times> mem_stats) list" where
  "get_stats demangle debug_mode tot by_type pl =
     (fold (\<lambda>s t. t\<lparr>ms_items := ms_items t + sh_items s, ms_bytes := ms_bytes t + sh_bytes s\<rparr>) (pl_shards pl) tot,
      if debug_mode
      then fold (\<lambda>(n, t). um_put (demangle n) \<lparr>ms_items = mt_items t, ms_bytes = mt_items t * mt_item_size t\<rparr>) (pl_type_map pl) by_type
      else by_type)"

subsection \<open>The counters are exact whatever threads allocate and release\<close>

datatype pool_op = Alloc u64 pool_allocator u64 | Dealloc u64 pool_allocator u64

fun pool_step :: "pool_op \<Rightarrow> pool \<Rightarrow> pool" where
  "pool_step (Alloc me a n) pl = pool_allocate me a n pl"
| "pool_step (Dealloc me a n) pl = pool_deallocate me a n pl"

fun op_items :: "pool_op \<Rightarrow> int" where
  "op_items (Alloc me a n) = int (unat n)"
| "op_items (Dealloc me a n) = - int (unat n)"

fun op_bytes :: "pool_op \<Rightarrow> int" where
  "op_bytes (Alloc me a n) = int (unat (pa_elem_size a) * unat n)"
| "op_bytes (Dealloc me a n) = - int (unat (pa_elem_size a) * unat n)"

definition total_items :: "pool \<Rightarrow> u64" where
  "total_items pl = sum_list (map sh_items (pl_shards pl))"

definition total_bytes :: "pool \<Rightarrow> u64" where
  "total_bytes pl = sum_list (map sh_bytes (pl_shards pl))"

lemma pick_bound: "pick_a_shard me < num_shards"
proof -
  have "(drop_bit 3 me AND 31 :: u64) = take_bit 5 (drop_bit 3 me)" by (simp add: take_bit_eq_mask mask_eq_exp_minus_1)
  then show ?thesis by (simp add: pick_a_shard_def num_shards_def unsigned_take_bit_eq take_bit_nat_def)
qed

lemma sum_list_set: "i < length xs \<Longrightarrow> sum_list (xs[i := xs ! i + c]) = sum_list xs + (c :: u64)"
  by (induction xs arbitrary: i) (auto simp: nth_Cons' add.assoc add.commute split: nat.splits)

lemma adjust_totals:
  assumes "length (pl_shards pl) = num_shards"
  shows "total_items (adjust_count me n b pl) = total_items pl + n" and "total_bytes (adjust_count me n b pl) = total_bytes pl + b"
    and "length (pl_shards (adjust_count me n b pl)) = num_shards"
  using assms pick_bound [of me] sum_list_set [of "pick_a_shard me" "map sh_items (pl_shards pl)" n]
    sum_list_set [of "pick_a_shard me" "map sh_bytes (pl_shards pl)" b]
  by (simp_all add: adjust_count_def total_items_def total_bytes_def Let_def map_update)

lemma add_type_shards [simp]: "pl_shards (add_type_items ty n pl) = pl_shards pl"
  by (simp add: add_type_items_def split: option.splits)

lemma step_totals:
  assumes "length (pl_shards pl) = num_shards"
  shows "total_items (pool_step c pl) = total_items pl + of_int (op_items c)"
    and "total_bytes (pool_step c pl) = total_bytes pl + of_int (op_bytes c)" and "length (pl_shards (pool_step c pl)) = num_shards"
  using adjust_totals [OF assms] by (cases c; simp add: pool_allocate_def pool_deallocate_def total_items_def total_bytes_def)+

lemma run_totals:
  "length (pl_shards pl) = num_shards \<Longrightarrow>
     total_items (fold pool_step cs pl) = total_items pl + of_int (sum_list (map op_items cs))
     \<and> total_bytes (fold pool_step cs pl) = total_bytes pl + of_int (sum_list (map op_bytes cs))
     \<and> length (pl_shards (fold pool_step cs pl)) = num_shards"
  by (induction cs arbitrary: pl) (auto simp: step_totals algebra_simps)

lemma fold_sum: "fold (\<lambda>s r. r + f s) xs a = a + sum_list (map f xs)" for a :: u64
  by (induction xs arbitrary: a) (auto simp: add.assoc)

lemma sint_of_int_small: "0 \<le> x \<Longrightarrow> x < 2 ^ 63 \<Longrightarrow> sint (of_int x :: u64) = x"
  by (simp add: sint_sbintrunc' signed_take_bit_int_eq_self)

text \<open>After any sequence of allocations and releases by any threads, also when memory is released by another thread than the one
  that allocated it and a shard wraps below zero, the totals are the exact difference, as long as it fits a signed number.\<close>

lemma pool_totals_exact:
  assumes "0 \<le> sum_list (map op_items cs)" "sum_list (map op_items cs) < 2 ^ 63"
    and "0 \<le> sum_list (map op_bytes cs)" "sum_list (map op_bytes cs) < 2 ^ 63"
  shows "allocated_items (fold pool_step cs pool_new) = Some (of_int (sum_list (map op_items cs)))"
    and "allocated_bytes (fold pool_step cs pool_new) = Some (of_int (sum_list (map op_bytes cs)))"
proof -
  have z: "total_items pool_new = 0" "total_bytes pool_new = 0" "length (pl_shards pool_new) = num_shards"
    by (simp_all add: total_items_def total_bytes_def pool_new_def sum_list_replicate)
  show "allocated_items (fold pool_step cs pool_new) = Some (of_int (sum_list (map op_items cs)))"
    "allocated_bytes (fold pool_step cs pool_new) = Some (of_int (sum_list (map op_bytes cs)))"
    using run_totals [OF z(3), of cs] z assms sint_of_int_small
    by (simp_all add: allocated_items_def allocated_bytes_def fold_sum total_items_def total_bytes_def Let_def)
qed

end
