(* ===== verification/Utility_Properties.thy ===== *)
theory Utility_Properties
  imports Thread_Local_Facts Mem_Pool
begin

text \<open>The property of the thread-local pointers; that of the memory pools is in \<open>Mem_Pool\<close>.\<close>

text \<open>C34. The thread-local pointers behave like a table of values by thread and instance. No operation on existing instances leaves its
  vectors; a new instance gets an identifier that no other instance has, and has no value on any thread even when the identifier was used
  before; a read gives the value last written by the same thread or put there by a scrape; when an instance is destroyed or a thread
  ends, its handler receives every value that was left, each exactly once.\<close>

theorem thread_local_refines:
  fixes m :: "('t, 'p, 'h) static_meta"
  assumes "tl_inv live m" and "tl_allowed op live"
  shows "tl_inv {} (meta_new :: ('t, 'p, 'h) static_meta)
    \<and> (\<exists>r m' live'. tl_step op m = Some (r, m') \<and> tl_inv live' m' \<and> tl_spec op r (tl_table_of live m) (tl_table_of live' m'))"
  using tl_refines [OF assms] meta_new_inv by blast

theorem thread_local_refines_witness:
  "\<exists>i (m' :: (nat, nat, nat) static_meta). tl_step (TNew (Some 7)) (meta_new :: (nat, nat, nat) static_meta) = Some (TId i, m')
     \<and> tl_inv {i} m' \<and> GetHandler i m' = Some 7"
proof -
  have a: "tl_allowed (TNew (Some 7) :: (nat, nat, nat) tl_op) {}" by simp
  obtain r m' live' where "tl_step (TNew (Some 7)) (meta_new :: (nat, nat, nat) static_meta) = Some (r, m')" "tl_inv live' m'"
    "tl_spec (TNew (Some 7)) r (tl_table_of {} (meta_new :: (nat, nat, nat) static_meta)) (tl_table_of live' m')"
    using thread_local_refines [OF meta_new_inv a] by blast
  then show ?thesis by (auto simp: tl_table_of_def fun_eq_iff)
qed

text \<open>A scrape does not reach a thread that has not used an instance with the same or a larger identifier yet.\<close>

lemma scrape_misses_thread:
  "value_of (snd (tl_Scrape 0 av_new (Some p) (meta_new\<lparr>tm_chain := [(t, [])]\<rparr>))) t 0 = None"
  by (simp add: tl_Scrape_def value_of_def meta_new_def)

text \<open>A failed allocation of aligned memory leaves the counters raised.\<close>

lemma failed_allocation_counts:
  "length (pl_shards pl) = num_shards \<Longrightarrow> total_items (snd (allocate_aligned False me a n pl)) = total_items pl + n"
  using adjust_totals(1) [of pl me n "pa_elem_size a * n"] by (simp add: allocate_aligned_def pool_allocate_def total_items_def)

end
