(* ===== verification/Spec2Isabelle.thy ===== *)
theory Spec2Isabelle
  imports Log_Properties Mapping_Properties Storage_Properties Queue_Properties LMDB_Properties Ceph_Properties Cache_Properties
    Monitoring_Properties C_Properties Utility_Properties
begin

text \<open>
  zlog is a shared, append-only log on top of an object store. Clients link the library \<^verbatim>\<open>src/libzlog\<close>; what they share is
  the storage behind the interface \<^verbatim>\<open>Backend\<close> (\<^verbatim>\<open>src/include/zlog/backend.h\<close>). A log is a head object that holds a sequence of
  views, and data objects that hold the entries. A view maps positions to data objects in stripes and may name a sequencer, the
  client that hands out positions. A client changes a view by proposing the next one, a compare-and-exchange on the head object,
  and fences clients with older views by sealing the data objects with the new epoch. Entries are written once; positions
  can be filled or trimmed, also a whole prefix at a time.

  \<^bold>\<open>Theories and sources.\<close> Each theory keeps the names of the functions it models; the manifest maps every definition to its lines.

  \<^item> \<open>Prelude\<close>: 32- and 64-bit words, \<^verbatim>\<open>errno\<close> codes, decimal rendering, \<^verbatim>\<open>std::map\<close> as a sorted list, \<^verbatim>\<open>std::unordered_map\<close> as an
    association list, C strings. \<open>Options\<close>: \<^verbatim>\<open>options.h\<close>.
  \<^item> \<open>Stripe\<close>, \<open>Object_Map\<close>, \<open>View\<close>, \<open>Text_Codec\<close>: \<^verbatim>\<open>stripe.h\<close>, \<^verbatim>\<open>object_map.cc\<close>, \<^verbatim>\<open>view.cc\<close>, \<^verbatim>\<open>sequencer.cc\<close>. Assertions, division by
    zero and invalid iterators are \<^const>\<open>None\<close>; widths are those of the code, so products wrap where the code's do. The flatbuffers
    encoder and decoder are a parameter \<open>view_codec\<close> with the hypothesis that decoding inverts encoding; \<open>Text_Codec\<close> is a
    concrete one.
  \<^item> \<open>Backend\<close>: the virtual functions as a record, what \<^verbatim>\<open>backend.h\<close> documents of them as functions on an abstract object
    (\<open>a_read\<close>, \<open>a_write\<close>, \<open>a_fill\<close>, \<open>a_trim\<close>, \<open>a_seal\<close>, \<open>a_maxpos_ok\<close>, \<open>a_read_views\<close>, \<open>a_propose\<close>), and the locales \<open>storage\<close> (a backend
    with limits on names and trim limits) and \<open>backend\<close> (what the log rests on).
  \<^item> \<open>RAM_Backend\<close>: \<^verbatim>\<open>storage/ram/ram.cc\<close>, every operation, and the interpretation \<open>ram\<close> of \<open>backend\<close>.
  \<^item> \<open>LMDB\<close>, \<open>LMDB_Store\<close>, \<open>LMDB_Backend\<close>: \<^verbatim>\<open>storage/lmdb/lmdb.cc\<close>, every operation, on the bytes of the stored structs. The LMDB library is
    the parameter \<open>mdb_api\<close>; its documented behaviour is the locale \<open>mdb_store\<close>, from which \<open>storage\<close> follows. \<open>list_api\<close> shows that
    the hypotheses can hold.
  \<^item> \<open>Cls_Zlog\<close>, \<open>Cls_Store\<close>, \<open>Cls_Head\<close>: \<^verbatim>\<open>storage/ceph/cls_zlog.cc\<close>, the methods that run inside a Ceph storage server, over a parameter \<open>cls_api\<close>
    (attributes, omap and bytes of one object) and \<open>cls_codec\<close> (the protobuf messages). The locale \<open>cls_server\<close> has their laws; the data
    methods refine the abstract object (\<open>cls_aobj\<close>), the head methods the abstract head (\<open>head_rep\<close>).
  \<^item> \<open>Ceph\<close>, \<open>Ceph_Store\<close>, \<open>Ceph_Head\<close>: \<^verbatim>\<open>storage/ceph/ceph.cc\<close> and \<^verbatim>\<open>cls_zlog_client.cc\<close>, every operation, over the parameter \<open>rados_api\<close>, with the
    laws of the object pool in the locale \<open>rados\<close>. Other clients may act before every access (\<open>cp_env\<close>). \<open>Ceph_Example\<close> interprets the locale
    on a pool of plain objects.
  \<^item> \<open>Cache\<close>, \<open>Cache_Lists\<close>, \<open>Cache_LRU\<close>, \<open>Cache_ARC\<close>: \<^verbatim>\<open>libzlog/cache.cc\<close>, \<^verbatim>\<open>eviction/lru.cc\<close> and \<^verbatim>\<open>eviction/arc.cc\<close>. List nodes have identities,
    since the code keeps iterators into its lists; using an invalid one is \<^const>\<open>None\<close>. The floating-point quotients of ARC's
    adaptation are a parameter \<open>fp\<close> with the bounds of IEEE division.
  \<^item> \<open>Double\<close>, \<open>Histogram\<close>, \<open>Histogram_Facts\<close>, \<open>Statistics\<close>, \<open>Statistics_Facts\<close>, \<open>Core_Random\<close>: \<^verbatim>\<open>monitoring/histogram.cc\<close>, \<^verbatim>\<open>monitoring/statistics.cc\<close>,
    \<^verbatim>\<open>util/core_local.h\<close> and \<^verbatim>\<open>util/random.h\<close>. A double is a rational and every operation rounds to 53 bits; the limits of the buckets
    are computed with this arithmetic. The core an update runs on is an argument.
  \<^item> \<open>Auto_Vector\<close>, \<open>Thread_Local\<close>, \<open>Thread_Local_Facts\<close>, \<open>Mem_Pool\<close>: \<^verbatim>\<open>util/autovector.h\<close>, \<^verbatim>\<open>util/thread_local.cc\<close>, \<^verbatim>\<open>util/mempool.cc\<close> and \<^verbatim>\<open>mempool.h\<close>.
    Each operation of a thread on its pointers is one step; the table it refines is an inductive relation.
  \<^item> \<open>Loader\<close>, \<open>C_Interface\<close>: \<^verbatim>\<open>libzlog/backend.cc\<close>, with the dynamic linker as the parameter \<open>dl_api\<close>, and \<^verbatim>\<open>libzlog/capi.cc\<close>.
  \<^item> \<open>Log_Backend\<close>: \<^verbatim>\<open>log_backend.h\<close>. \<open>Shared_Log\<close>: what a storage says about a log (\<open>log_at\<close>, \<open>log_views\<close>), the invariant \<open>log_inv\<close>
    and the order \<open>log_le\<close> in which a log can only grow; the locale \<open>log_client\<close>.
  \<^item> \<open>View_Reader\<close>, \<open>World\<close>, \<open>View_Manager\<close>: \<^verbatim>\<open>view_reader.cc\<close> and \<^verbatim>\<open>view_manager.cc\<close>. A \<open>world\<close> is the storage, the state of one client and an
    oracle for what all other clients do: a list of storage calls before every access to the storage.
  \<^item> \<open>Log_Ops\<close>: the \<^verbatim>\<open>run\<close> methods of \<^verbatim>\<open>log_impl.cc\<close>. \<open>Log_Safety\<close>, \<open>Log_Results\<close>, \<open>Append_Results\<close>, \<open>Trim_To_Results\<close>: that they keep the
    invariant and what their results mean. \<open>Log_Liveness\<close>, \<open>Quiet_Runs\<close>: that they return when nothing interferes.
  \<^item> \<open>Log_Open\<close>: \<^verbatim>\<open>log.cc\<close>, the constructors and the synchronous calls. \<open>RAM_Log\<close>, \<open>Example_Log\<close>: a log on the RAM backend.
  \<^item> \<open>Op_Queue\<close>, \<open>Log_Queue\<close>: the queue of asynchronous operations and the finisher threads of \<^verbatim>\<open>log_impl.cc\<close>, as a step relation.

  \<^bold>\<open>Effects and errors.\<close> A fallible call returns \<open>Inl\<close> of an error code or \<open>Inr\<close> of its result, a call with effects the new state
  too. A failed assertion in such a call is the code \<open>Aborted\<close>; an exception of \<^verbatim>\<open>boost::get\<close> is \<open>BadGet\<close>.

  \<^bold>\<open>Concurrency.\<close> Storage calls are atomic: the RAM backend holds a mutex, the LMDB backend a transaction, and a method
  of the Ceph object class runs atomically on its object (a call of the Ceph backend may be several such methods). Between two
  accesses of a client to the storage, the oracle runs any number of calls of other clients, restricted only by the protocol they
  follow (\<open>calls_ok\<close> and the guarantees in \<open>World\<close>). The operations of one client run in finisher threads; \<open>Op_Queue\<close> has every
  interleaving of callers and finishers around them.

  \<^bold>\<open>Fuel.\<close> The retry loops of the operations need not end, since other clients can make every attempt fail; they take fuel, and
  \<^const>\<open>None\<close> is running out of it. Safety theorems hold for every fuel. Liveness theorems state a fuel that is enough: an append with
  nothing interfering takes a fixed number of rounds, opening two. Loops that end by themselves (\<open>om_expand_mapping\<close>, the walks
  over maps and stripes) are total functions. In the Ceph backend the loops of \<open>ceph_uniqueId\<close>, \<open>create_head\<close>, \<open>trim_loop\<close> and \<open>ceph_stat_loop\<close>
  take fuel: undisturbed, an id takes one round, and a full trim one round more than the object has entries. The constructor of the
  bucket mapper gets 128 rounds and ends after 108.

  \<^bold>\<open>What is shown.\<close>

  \<^item> \<open>Log_Properties\<close>: an append stores its data at a free position and no two appends return the same; a read returns what the
    log holds; fills, trims and prefix trims invalidate; no operation trips an assertion; opening establishes the invariant; alone, a
    client becomes the sequencer and its appends get consecutive positions.
  \<^item> \<open>Queue_Properties\<close>: accounting, order and drainage of the operation queue, and that callbacks are told the truth.
  \<^item> \<open>Mapping_Properties\<close>: the lookup agrees with a walk over the stripes, expansion keeps what is mapped, the iteration of a prefix is
    complete, views survive being stored; overflow of the stripe size.
  \<^item> \<open>Storage_Properties\<close>, \<open>LMDB_Properties\<close>: both backends implement the interface, write once, fence after a seal, accept one proposal per
    epoch, and cannot be told apart by data calls; limits of the stored trim limit.
  \<^item> \<open>Ceph_Properties\<close>: the Ceph backend implements the interface for data and views, its unique ids are unique under interference,
    its full trim ends, a created log can be opened; where the byte offsets of an object wrap.
  \<^item> \<open>Cache_Properties\<close>: the cache with LRU is a bounded recency list; the cache with ARC stays within its bounds and never uses an
    invalid iterator; what goes wrong after a removal.
  \<^item> \<open>Monitoring_Properties\<close>: statistics objects refine plain counters, histograms count by bucket and merge, percentiles stay between the
    extremes, the random generator computes its remainder; where the standard deviation wraps.
  \<^item> \<open>Utility_Properties\<close>: the thread-local pointers refine a table of values, and handlers get every value once. \<open>Mem_Pool\<close>: the totals of
    a pool are exact whatever threads allocate and release.
  \<^item> \<open>C_Properties\<close>: what a read through the C interface says about the log. \<open>C_Interface\<close> shows that opening and destroying a log leaves no
    library open.

  \<^bold>\<open>Not modelled.\<close> JSON dumps and the rendering of statistics as text; wrappers over the operating system and other
  utilities the log logic does not depend on; the command line tool, benchmarks, Java bindings and tests; the sequencer server \<^verbatim>\<open>seqr-server.cc\<close> and its
  client library, which the build leaves out and the log no longer calls; code in \<^verbatim>\<open>src/attic\<close>, which is not built. Real time: timeouts are
  nondeterministic wake-ups. Weak memory: the log's accesses to shared fields are under mutexes or atomic; histograms and tickers are
  updated with relaxed atomics, and their definitions are the effect of calls that do not overlap.
\<close>

end
